(* ===== verification/Go_Prelude.thy ===== *)
theory Go_Prelude
  imports Main "HOL-Library.Sublist"
begin

text \<open>
  Prelude of the development: what the sources use of the Go language and of its package
  \<open>strings\<close>, and the lemmas on lists and on these operations that the components share.

  \<^item> A Go \<open>string\<close> is its list of bytes, so an Isabelle \<^typ>\<open>string\<close>; \<open>len\<close> is \<^const>\<open>length\<close>,
    \<open>s[i]\<close> is \<open>s ! i\<close> under the bounds check the source makes, \<open>s[a:b]\<close> is \<open>take (b - a) (drop a s)\<close>.
  \<^item> An index result that Go reports as \<open>-1\<close> when nothing is found is a \<open>nat option\<close>.
  \<^item> A Go \<open>int\<close> is an \<^typ>\<open>int\<close>; where a value can leave the 64-bit range the wrap-around is
    written out with \<open>go_int\<close>. Lengths and positions are natural numbers: they count
    bytes of values held in memory and never reach \<open>2 ^ 63\<close>.
  \<^item> A call that can panic returns \<open>'a or_panic\<close>: \<open>Inl\<close> carries the panic message, \<open>Inr\<close> the result.
  \<^item> A Go \<open>error\<close> result is a \<open>string option\<close>.
\<close>

named_theorems go_defs \<open>definitions of the Go library operations\<close>
named_theorems go_bounds \<open>length bounds of string operations\<close>

section \<open>Integers and panics\<close>

type_synonym 'a or_panic = "string + 'a"
type_synonym go_error = "string option"

definition go_int :: "int \<Rightarrow> int" where
  "go_int x = signed_take_bit 63 x"

lemma go_int_id: "- (2 ^ 63) \<le> x \<Longrightarrow> x < 2 ^ 63 \<Longrightarrow> go_int x = x"
  unfolding go_int_def by (rule signed_take_bit_int_eq_self) simp_all

lemma go_int_range: "- (2 ^ 63) \<le> go_int x \<and> go_int x < 2 ^ 63"
  using signed_take_bit_int_greater_eq_minus_exp [of 63 x] signed_take_bit_int_less_exp [of 63 x]
  unfolding go_int_def by blast

definition bind_panic :: "'a or_panic \<Rightarrow> ('a \<Rightarrow> 'b or_panic) \<Rightarrow> 'b or_panic" where
  "bind_panic m f = (case m of Inl e \<Rightarrow> Inl e | Inr a \<Rightarrow> f a)"

lemma bind_panic_simps [simp]:
  "bind_panic (Inl e) f = Inl e"
  "bind_panic (Inr a) f = f a"
  by (simp_all add: bind_panic_def)

lemma bind_panic_eq_Inr [simp]:
  "bind_panic m f = Inr b \<longleftrightarrow> (\<exists>a. m = Inr a \<and> f a = Inr b)"
  by (cases m) simp_all

section \<open>Package strings\<close>

abbreviation slash_char :: char where "slash_char \<equiv> CHR ''/''"
abbreviation backslash_char :: char where "backslash_char \<equiv> CHR 0x5C"
abbreviation dot_char :: char where "dot_char \<equiv> CHR ''.''"

definition slice :: "'a list \<Rightarrow> nat \<Rightarrow> nat \<Rightarrow> 'a list" where
  [go_defs]: "slice s a b = take (b - a) (drop a s)"

definition strHasPrefix :: "string \<Rightarrow> string \<Rightarrow> bool" where
  [go_defs]: "strHasPrefix s p = (take (length p) s = p)"

definition strHasSuffix :: "string \<Rightarrow> string \<Rightarrow> bool" where
  [go_defs]: "strHasSuffix s p = (length p \<le> length s \<and> drop (length s - length p) s = p)"

fun strIndex :: "string \<Rightarrow> string \<Rightarrow> nat option" where
  "strIndex [] sub = (if sub = [] then Some 0 else None)"
| "strIndex (c # s) sub =
     (if strHasPrefix (c # s) sub then Some 0 else map_option Suc (strIndex s sub))"

fun strIndexByte :: "string \<Rightarrow> char \<Rightarrow> nat option" where
  "strIndexByte [] b = None"
| "strIndexByte (c # s) b = (if c = b then Some 0 else map_option Suc (strIndexByte s b))"

fun strLastIndexByte :: "string \<Rightarrow> char \<Rightarrow> nat option" where
  "strLastIndexByte [] b = None"
| "strLastIndexByte (c # s) b =
     (case strLastIndexByte s b of
        Some i \<Rightarrow> Some (Suc i)
      | None \<Rightarrow> if c = b then Some 0 else None)"

definition strContains :: "string \<Rightarrow> string \<Rightarrow> bool" where
  [go_defs]: "strContains s sub = (strIndex s sub \<noteq> None)"

fun strSplit :: "char \<Rightarrow> string \<Rightarrow> string list" where
  "strSplit b [] = [[]]"
| "strSplit b (c # s) =
     (if c = b then [] # strSplit b s
      else (c # hd (strSplit b s)) # tl (strSplit b s))"

fun strJoin :: "string \<Rightarrow> string list \<Rightarrow> string" where
  "strJoin sep [] = []"
| "strJoin sep [x] = x"
| "strJoin sep (x # y # ys) = x @ sep @ strJoin sep (y # ys)"

function strReplaceAll :: "string \<Rightarrow> string \<Rightarrow> string \<Rightarrow> string" where
  \<comment> \<open>for a non-empty \<open>old\<close>, as every call of the sources has\<close>
  "strReplaceAll [] old new = []"
| "strReplaceAll (c # s) old new =
     (if old \<noteq> [] \<and> strHasPrefix (c # s) old
      then new @ strReplaceAll (drop (length old) (c # s)) old new
      else c # strReplaceAll s old new)"
  by pat_completeness auto
termination
  by (relation "measure (\<lambda>(s, old, new). length s)") auto

definition strTrimPrefix :: "string \<Rightarrow> string \<Rightarrow> string" where
  [go_defs]: "strTrimPrefix s p = (if strHasPrefix s p then drop (length p) s else s)"

definition strTrimSuffix :: "string \<Rightarrow> string \<Rightarrow> string" where
  [go_defs]: "strTrimSuffix s p = (if strHasSuffix s p then take (length s - length p) s else s)"

definition strCutPrefix :: "string \<Rightarrow> string \<Rightarrow> string \<times> bool" where
  [go_defs]: "strCutPrefix s p = (if strHasPrefix s p then (drop (length p) s, True) else (s, False))"

fun strCompare :: "string \<Rightarrow> string \<Rightarrow> int" where
  "strCompare [] [] = 0"
| "strCompare [] (y # ys) = -1"
| "strCompare (x # xs) [] = 1"
| "strCompare (x # xs) (y # ys) =
     (if (of_char x :: nat) < of_char y then -1
      else if (of_char y :: nat) < of_char x then 1
      else strCompare xs ys)"

section \<open>Shared lemmas\<close>

subsection \<open>Prefixes, suffixes and slices\<close>

lemma strHasPrefix_Nil [simp]: "strHasPrefix s []"
  by (simp add: strHasPrefix_def)

lemma strHasPrefix_append [simp]: "strHasPrefix (p @ s) p"
  by (simp add: strHasPrefix_def)

lemma strHasPrefix_Cons_Cons [simp]:
  "strHasPrefix (x # xs) (y # ys) \<longleftrightarrow> x = y \<and> strHasPrefix xs ys"
  by (auto simp: strHasPrefix_def)

lemma strHasPrefix_Nil_Cons [simp]: "\<not> strHasPrefix [] (y # ys)"
  by (simp add: strHasPrefix_def)

lemma strHasPrefix_iff: "strHasPrefix s p \<longleftrightarrow> (\<exists>t. s = p @ t)"
  by (metis append_eq_conv_conj strHasPrefix_def append_take_drop_id)

lemma strHasSuffix_iff: "strHasSuffix s p \<longleftrightarrow> (\<exists>t. s = t @ p)"
proof
  assume h: "strHasSuffix s p"
  then have "s = take (length s - length p) s @ p"
    by (metis append_take_drop_id strHasSuffix_def)
  then show "\<exists>t. s = t @ p" ..
next
  assume "\<exists>t. s = t @ p"
  then show "strHasSuffix s p" by (auto simp: strHasSuffix_def)
qed

lemma strHasSuffix_append [simp]: "strHasSuffix (s @ p) p"
  by (auto simp: strHasSuffix_iff)

lemma length_strHasPrefix [go_bounds]: "strHasPrefix s p \<Longrightarrow> length p \<le> length s"
  by (auto simp: strHasPrefix_iff)

lemma length_strHasSuffix [go_bounds]: "strHasSuffix s p \<Longrightarrow> length p \<le> length s"
  by (simp add: strHasSuffix_def)

subsection \<open>Index functions\<close>

lemma strIndexByte_None: "strIndexByte s b = None \<longleftrightarrow> b \<notin> set s"
  by (induction s) auto

lemma strIndexByte_Some:
  "strIndexByte s b = Some i \<Longrightarrow> i < length s \<and> s ! i = b \<and> b \<notin> set (take i s)"
  by (induction s arbitrary: i) (auto split: if_splits)

lemma strIndexByte_append:
  "strIndexByte (xs @ b # ys) b = Some (length xs)" if "b \<notin> set xs"
  using that by (induction xs) auto

lemma strIndex_Some:
  "strIndex s sub = Some i \<Longrightarrow> i + length sub \<le> length s \<and> strHasPrefix (drop i s) sub"
proof (induction s arbitrary: i)
  case Nil
  then show ?case by (auto split: if_splits)
next
  case (Cons c s)
  then show ?case by (auto split: if_splits dest: length_strHasPrefix)
qed

lemma strLastIndexByte_None: "strLastIndexByte s b = None \<longleftrightarrow> b \<notin> set s"
  by (induction s) (auto split: option.splits)

lemma strLastIndexByte_Some:
  "strLastIndexByte s b = Some i \<Longrightarrow> i < length s \<and> s ! i = b \<and> b \<notin> set (drop (Suc i) s)"
  by (induction s arbitrary: i) (auto simp: strLastIndexByte_None split: option.splits if_splits)

lemma strLastIndexByte_append:
  "b \<notin> set ys \<Longrightarrow> strLastIndexByte (xs @ b # ys) b = Some (length xs)"
proof (induction xs)
  case Nil
  then show ?case by (simp add: strLastIndexByte_None [THEN iffD2])
next
  case (Cons x xs)
  then show ?case by simp
qed

lemma strLastIndexByte_append_notin:
  "b \<notin> set ys \<Longrightarrow> strLastIndexByte (xs @ ys) b = strLastIndexByte xs b"
  by (induction xs) (auto simp: strLastIndexByte_None)

subsection \<open>Split and join\<close>

lemma strSplit_not_Nil [simp]: "strSplit b s \<noteq> []"
  by (induction s) auto

lemma strJoin_strSplit: "strJoin [b] (strSplit b s) = s"
proof (induction s)
  case Nil
  then show ?case by simp
next
  case (Cons c s)
  then show ?case by (cases "strSplit b s") (auto, (cases "tl (strSplit b s)"; simp)+)
qed

lemma strSplit_notin: "b \<notin> set s \<Longrightarrow> strSplit b s = [s]"
  by (induction s) auto

lemma strSplit_append:
  "b \<notin> set xs \<Longrightarrow> strSplit b (xs @ b # ys) = xs # strSplit b ys"
  by (induction xs) auto

lemma strSplit_elem: "x \<in> set (strSplit b s) \<Longrightarrow> b \<notin> set x"
proof (induction s arbitrary: x)
  case Nil
  then show ?case by simp
next
  case (Cons c s)
  have hd: "b \<notin> set (hd (strSplit b s))"
    by (rule Cons.IH) simp
  have tl: "y \<in> set (tl (strSplit b s)) \<Longrightarrow> b \<notin> set y" for y
    by (rule Cons.IH) (meson list.set_sel(2) strSplit_not_Nil)
  show ?case using Cons.prems Cons.IH hd tl by (auto split: if_splits)
qed

lemma strSplit_strJoin:
  "xs \<noteq> [] \<Longrightarrow> (\<forall>x\<in>set xs. b \<notin> set x) \<Longrightarrow> strSplit b (strJoin [b] xs) = xs"
proof (induction xs)
  case Nil
  then show ?case by simp
next
  case (Cons x xs)
  then show ?case by (cases xs) (simp_all add: strSplit_append strSplit_notin)
qed

lemma strJoin_Cons: "ys \<noteq> [] \<Longrightarrow> strJoin sep (y # ys) = y @ sep @ strJoin sep ys"
  by (cases ys) auto

lemma strJoin_snoc: "xs \<noteq> [] \<Longrightarrow> strJoin sep (xs @ [y]) = strJoin sep xs @ sep @ y"
proof (induction xs)
  case Nil
  then show ?case by simp
next
  case (Cons x xs)
  then show ?case by (cases xs) (simp_all add: strJoin_Cons)
qed

subsection \<open>String order\<close>

lemma strCompare_eq_0 [simp]: "strCompare s t = 0 \<longleftrightarrow> s = t"
  by (induction s t rule: strCompare.induct) (auto simp: not_less_iff_gr_or_eq)

lemma strCompare_antisym: "strCompare t s = - strCompare s t"
  by (induction s t rule: strCompare.induct) auto

lemma strCompare_range: "strCompare s t \<in> {-1, 0, 1}"
  by (induction s t rule: strCompare.induct) auto

lemma strCompare_Cons_le_0:
  "strCompare (x # xs) (y # ys) \<le> 0 \<longleftrightarrow>
     (of_char x :: nat) < of_char y \<or> x = y \<and> strCompare xs ys \<le> 0"
  by (auto simp: not_less_iff_gr_or_eq)

lemma strCompare_trans: "strCompare s t \<le> 0 \<Longrightarrow> strCompare t u \<le> 0 \<Longrightarrow> strCompare s u \<le> 0"
proof (induction s arbitrary: t u)
  case Nil
  then show ?case by (cases u) simp_all
next
  case (Cons x xs)
  then obtain y ys where t: "t = y # ys" by (cases t) simp_all
  with Cons.prems obtain z zs where u: "u = z # zs" by (cases u) simp_all
  show ?case
    using Cons.prems Cons.IH [of ys zs] unfolding t u strCompare_Cons_le_0 by auto
qed

end
