(* ===== verification/Utf8.thy ===== *)
theory Utf8
  imports Go_Prelude
begin

text \<open>
  Package \<open>unicode/utf8\<close> as the sources use it: \<open>DecodeRuneInString\<close>, the rune sequence of a
  \<open>range\<close> loop over a string, and the encoding of a rune by \<open>WriteRune\<close> or \<open>string(r)\<close>.
  A rune is its code point. \<open>strings.Map\<close> and \<open>unicode.ToLower\<close> follow; the Unicode case table
  itself is a parameter of every operation that uses it.
\<close>

type_synonym rune = nat

definition RuneError :: rune where "RuneError = 0xFFFD"

abbreviation byte_of :: "char \<Rightarrow> nat" where "byte_of c \<equiv> of_char c"

definition isCont :: "nat \<Rightarrow> nat \<Rightarrow> char \<Rightarrow> bool" where
  "isCont lo hi c = (lo \<le> byte_of c \<and> byte_of c \<le> hi)"

definition decode2 :: "nat \<Rightarrow> string \<Rightarrow> rune \<times> nat" where
  "decode2 b0 cs = (case cs of
      c1 # _ \<Rightarrow> if isCont 0x80 0xBF c1 then ((b0 - 0xC0) * 64 + (byte_of c1 - 0x80), 2) else (RuneError, 1)
    | [] \<Rightarrow> (RuneError, 1))"

definition decode3 :: "nat \<Rightarrow> nat \<Rightarrow> nat \<Rightarrow> string \<Rightarrow> rune \<times> nat" where
  "decode3 lo hi b0 cs = (case cs of
      c1 # c2 # _ \<Rightarrow>
        if isCont lo hi c1 \<and> isCont 0x80 0xBF c2
        then ((b0 - 0xE0) * 4096 + (byte_of c1 - 0x80) * 64 + (byte_of c2 - 0x80), 3)
        else (RuneError, 1)
    | _ \<Rightarrow> (RuneError, 1))"

definition decode4 :: "nat \<Rightarrow> nat \<Rightarrow> nat \<Rightarrow> string \<Rightarrow> rune \<times> nat" where
  "decode4 lo hi b0 cs = (case cs of
      c1 # c2 # c3 # _ \<Rightarrow>
        if isCont lo hi c1 \<and> isCont 0x80 0xBF c2 \<and> isCont 0x80 0xBF c3
        then ((b0 - 0xF0) * 262144 + (byte_of c1 - 0x80) * 4096 + (byte_of c2 - 0x80) * 64
                + (byte_of c3 - 0x80), 4)
        else (RuneError, 1)
    | _ \<Rightarrow> (RuneError, 1))"

definition decodeRune :: "string \<Rightarrow> rune \<times> nat" where
  "decodeRune s = (case s of
      [] \<Rightarrow> (RuneError, 0)
    | c # cs \<Rightarrow>
        let b0 = byte_of c in
        if b0 < 0x80 then (b0, 1)
        else if b0 < 0xC2 then (RuneError, 1)
        else if b0 \<le> 0xDF then decode2 b0 cs
        else if b0 = 0xE0 then decode3 0xA0 0xBF b0 cs
        else if b0 = 0xED then decode3 0x80 0x9F b0 cs
        else if b0 \<le> 0xEF then decode3 0x80 0xBF b0 cs
        else if b0 = 0xF0 then decode4 0x90 0xBF b0 cs
        else if b0 \<le> 0xF3 then decode4 0x80 0xBF b0 cs
        else if b0 = 0xF4 then decode4 0x80 0x8F b0 cs
        else (RuneError, 1))"

definition validRune :: "rune \<Rightarrow> bool" where
  "validRune r \<longleftrightarrow> r < 0xD800 \<or> 0xDFFF < r \<and> r \<le> 0x10FFFF"

definition encodeValid :: "rune \<Rightarrow> string" where
  "encodeValid r =
     (if r < 0x80 then [char_of r]
      else if r < 0x800 then [char_of (0xC0 + r div 64), char_of (0x80 + r mod 64)]
      else if r < 0x10000 then
        [char_of (0xE0 + r div 4096), char_of (0x80 + r div 64 mod 64), char_of (0x80 + r mod 64)]
      else
        [char_of (0xF0 + r div 262144), char_of (0x80 + r div 4096 mod 64),
         char_of (0x80 + r div 64 mod 64), char_of (0x80 + r mod 64)])"

definition encodeRune :: "rune \<Rightarrow> string" where
  "encodeRune r = encodeValid (if validRune r then r else RuneError)"

lemma decode_size_bounds:
  "snd (decode2 b cs) \<le> Suc (length cs)"
  "snd (decode3 lo hi b cs) \<le> Suc (length cs)"
  "snd (decode4 lo hi b cs) \<le> Suc (length cs)"
  "0 < snd (decode2 b cs)" "0 < snd (decode3 lo hi b cs)" "0 < snd (decode4 lo hi b cs)"
  by (auto simp: decode2_def decode3_def decode4_def split: list.splits)

lemma decodeRune_size:
  shows decodeRune_size_le: "snd (decodeRune s) \<le> length s"
    and decodeRune_size_pos: "s \<noteq> [] \<Longrightarrow> 0 < snd (decodeRune s)"
  by (auto simp: decodeRune_def Let_def decode_size_bounds split: list.splits)

lemma decodeRune_size_zero: "snd (decodeRune s) = 0 \<longleftrightarrow> s = []"
  by (cases "s = []") (simp add: decodeRune_def, use decodeRune_size_pos [of s] in simp)

lemma decodeRune_ascii [simp]: "byte_of c < 0x80 \<Longrightarrow> decodeRune (c # s) = (byte_of c, 1)"
  by (simp add: decodeRune_def)

function decodeRunes :: "string \<Rightarrow> rune list" where
  "decodeRunes s =
     (if s = [] then [] else fst (decodeRune s) # decodeRunes (drop (snd (decodeRune s)) s))"
  by pat_completeness auto
termination
  by (relation "measure length") (auto simp: decodeRune_size_pos intro!: diff_less)

declare decodeRunes.simps [simp del]

lemma decodeRunes_Nil [simp]: "decodeRunes [] = []"
  by (simp add: decodeRunes.simps)

definition stringsMap :: "(rune \<Rightarrow> rune) \<Rightarrow> string \<Rightarrow> string" where
  \<comment> \<open>\<open>strings.Map\<close> for a mapping that never drops a rune\<close>
  "stringsMap f s = concat (map (\<lambda>r. encodeRune (f r)) (decodeRunes s))"

section \<open>Decoding undoes encoding\<close>

lemma encodeRune_not_Nil [simp]: "encodeRune r \<noteq> []"
  by (simp add: encodeRune_def encodeValid_def)

lemma decode_bytes_2:
  assumes "2 \<le> a" "a < 32" "b < 64"
  shows "decodeRune (char_of (0xC0 + a) # char_of (0x80 + b) # s) = (a * 64 + b, 2)"
  using assms by (simp add: decodeRune_def decode2_def isCont_def Let_def)

lemma decode_bytes_3:
  assumes "a < 16" "b < 64" "c < 64" "a = 0 \<longrightarrow> 32 \<le> b" "a = 13 \<longrightarrow> b < 32"
  shows "decodeRune (char_of (0xE0 + a) # char_of (0x80 + b) # char_of (0x80 + c) # s)
    = (a * 4096 + b * 64 + c, 3)"
  using assms by (simp add: decodeRune_def decode3_def isCont_def Let_def) linarith

lemma decode_bytes_4:
  assumes "a < 5" "b < 64" "c < 64" "d < 64" "a = 0 \<longrightarrow> 16 \<le> b" "a = 4 \<longrightarrow> b < 16"
  shows "decodeRune (char_of (0xF0 + a) # char_of (0x80 + b) # char_of (0x80 + c) # char_of (0x80 + d) # s)
    = (a * 262144 + b * 4096 + c * 64 + d, 4)"
  using assms by (simp add: decodeRune_def decode4_def isCont_def Let_def) linarith

lemma utf8_digits64:
  fixes r :: nat
  shows digits2: "r div 64 * 64 + r mod 64 = r"
    and digits3: "r div 4096 * 4096 + r div 64 mod 64 * 64 + r mod 64 = r"
    and digits4: "r div 262144 * 262144 + r div 4096 mod 64 * 4096 + r div 64 mod 64 * 64 + r mod 64 = r"
proof -
  have q: "r div 4096 = r div 64 div 64" "r div 262144 = r div 64 div 64 div 64"
    by (simp_all flip: div_mult2_eq)
  have m: "64 * (n div 64) + n mod 64 = n" for n :: nat by simp
  show "r div 64 * 64 + r mod 64 = r" by simp
  show "r div 4096 * 4096 + r div 64 mod 64 * 64 + r mod 64 = r"
    using m [of r] m [of "r div 64"] unfolding q by linarith
  show "r div 262144 * 262144 + r div 4096 mod 64 * 4096 + r div 64 mod 64 * 64 + r mod 64 = r"
    using m [of r] m [of "r div 64"] m [of "r div 64 div 64"] unfolding q by linarith
qed

lemma mod64_less: "(n :: nat) mod 64 < 64"
  by simp

lemma decodeRune_encodeValid:
  assumes "validRune r"
  shows "decodeRune (encodeValid r @ s) = (r, length (encodeValid r))"
proof -
  consider (one) "r < 0x80" | (two) "0x80 \<le> r" "r < 0x800" | (three) "0x800 \<le> r" "r < 0x10000"
    | (four) "0x10000 \<le> r" "r \<le> 0x10FFFF"
    using assms unfolding validRune_def by linarith
  then show ?thesis
  proof cases
    case one
    then show ?thesis by (simp add: encodeValid_def)
  next
    case two
    have "decodeRune (char_of (0xC0 + r div 64) # char_of (0x80 + r mod 64) # s)
        = (r div 64 * 64 + r mod 64, 2)"
      using two by (intro decode_bytes_2) auto
    with two show ?thesis by (simp add: encodeValid_def)
  next
    case three
    have "decodeRune (char_of (0xE0 + r div 4096) # char_of (0x80 + r div 64 mod 64)
            # char_of (0x80 + r mod 64) # s)
        = (r div 4096 * 4096 + r div 64 mod 64 * 64 + r mod 64, 3)"
    proof (intro decode_bytes_3 impI)
      show "32 \<le> r div 64 mod 64" if "r div 4096 = 0"
        using that three(1) digits3 [of r] mod64_less [of r] by linarith
      show "r div 64 mod 64 < 32" if "r div 4096 = 13"
        using that three(2) assms digits3 [of r] mod64_less [of "r div 64"] mod64_less [of r]
        unfolding validRune_def by linarith
    qed (use three in auto)
    then show ?thesis using three by (simp add: encodeValid_def digits3)
  next
    case four
    have "decodeRune (char_of (0xF0 + r div 262144) # char_of (0x80 + r div 4096 mod 64)
            # char_of (0x80 + r div 64 mod 64) # char_of (0x80 + r mod 64) # s)
        = (r div 262144 * 262144 + r div 4096 mod 64 * 4096 + r div 64 mod 64 * 64 + r mod 64, 4)"
    proof (intro decode_bytes_4 impI)
      show "16 \<le> r div 4096 mod 64" if "r div 262144 = 0"
        using that four(1) digits4 [of r] mod64_less [of r] mod64_less [of "r div 64"] by linarith
      show "r div 4096 mod 64 < 16" if "r div 262144 = 4"
        using that four(2) digits4 [of r] by linarith
    qed (use four in auto)
    then show ?thesis using four by (simp add: encodeValid_def digits4)
  qed
qed

lemma decodeRune_encodeRune:
  "validRune r \<Longrightarrow> decodeRune (encodeRune r @ s) = (r, length (encodeRune r))"
  by (simp add: encodeRune_def decodeRune_encodeValid)

lemma decodeRunes_encode_Cons:
  "validRune r \<Longrightarrow> decodeRunes (encodeRune r @ s) = r # decodeRunes s"
  by (subst decodeRunes.simps) (simp add: decodeRune_encodeRune)

section \<open>Trimming\<close>

text \<open>\<open>strings.TrimLeftFunc\<close> and \<open>TrimRightFunc\<close> for a set of runes given by their encodings: a
  rune of the set stands at an end of a string exactly when its encoding does.\<close>

definition unicodeSpaces :: "string list" where
  \<comment> \<open>the UTF-8 encodings of the runes that \<open>unicode.IsSpace\<close> accepts\<close>
  "unicodeSpaces =
     [[CHR 0x09], [CHR 0x0A], [CHR 0x0B], [CHR 0x0C], [CHR 0x0D], [CHR '' ''], [CHR 0xC2, CHR 0x85], [CHR 0xC2, CHR 0xA0],
      [CHR 0xE1, CHR 0x9A, CHR 0x80], [CHR 0xE2, CHR 0x80, CHR 0x80], [CHR 0xE2, CHR 0x80, CHR 0x81],
      [CHR 0xE2, CHR 0x80, CHR 0x82], [CHR 0xE2, CHR 0x80, CHR 0x83], [CHR 0xE2, CHR 0x80, CHR 0x84],
      [CHR 0xE2, CHR 0x80, CHR 0x85], [CHR 0xE2, CHR 0x80, CHR 0x86], [CHR 0xE2, CHR 0x80, CHR 0x87],
      [CHR 0xE2, CHR 0x80, CHR 0x88], [CHR 0xE2, CHR 0x80, CHR 0x89], [CHR 0xE2, CHR 0x80, CHR 0x8A],
      [CHR 0xE2, CHR 0x80, CHR 0xA8], [CHR 0xE2, CHR 0x80, CHR 0xA9], [CHR 0xE2, CHR 0x80, CHR 0xAF],
      [CHR 0xE2, CHR 0x81, CHR 0x9F], [CHR 0xE3, CHR 0x80, CHR 0x80]]"

function trimLeft :: "string list \<Rightarrow> string \<Rightarrow> string" where
  "trimLeft spaces s =
     (case find (\<lambda>e. e \<noteq> [] \<and> strHasPrefix s e) spaces of
        None \<Rightarrow> s
      | Some e \<Rightarrow> trimLeft spaces (drop (length e) s))"
  by pat_completeness auto
termination
proof (relation "measure (\<lambda>(spaces, s). length s)")
  fix spaces :: "string list" and s e :: string
  assume "find (\<lambda>e. e \<noteq> [] \<and> strHasPrefix s e) spaces = Some e"
  then have "e \<noteq> []" "strHasPrefix s e" by (auto simp: find_Some_iff)
  then show "((spaces, drop (length e) s), spaces, s) \<in> measure (\<lambda>(spaces, s). length s)"
    by (auto simp: strHasPrefix_iff)
qed simp

declare trimLeft.simps [simp del]

definition TrimSpace :: "string \<Rightarrow> string" where
  "TrimSpace s = rev (trimLeft (map rev unicodeSpaces) (rev (trimLeft unicodeSpaces s)))"

definition trimRight :: "string list \<Rightarrow> string \<Rightarrow> string" where
  "trimRight spaces s = rev (trimLeft (map rev spaces) (rev s))"

text \<open>Where trimming stops: the bytes with which spaces begin and end.\<close>

lemma trimLeft_id: "s \<noteq> [] \<Longrightarrow> hd s \<notin> hd ` set spaces \<Longrightarrow> trimLeft spaces s = s"
proof -
  assume s: "s \<noteq> []" "hd s \<notin> hd ` set spaces"
  have "find (\<lambda>e. e \<noteq> [] \<and> strHasPrefix s e) spaces = None"
    unfolding find_None_iff
  proof
    assume "\<exists>e. e \<in> set spaces \<and> e \<noteq> [] \<and> strHasPrefix s e"
    then obtain e t where "e \<in> set spaces" "e \<noteq> []" "s = e @ t" by (auto simp: strHasPrefix_iff)
    then show False using s(2) by (metis hd_append2 image_eqI)
  qed
  then show ?thesis by (subst trimLeft.simps) simp
qed

definition firstBytes :: "char set" where "firstBytes = hd ` set unicodeSpaces"
definition lastBytes :: "char set" where "lastBytes = last ` set unicodeSpaces"

lemma last_bytes: "lastBytes = hd ` set (map rev unicodeSpaces)"
  unfolding lastBytes_def by (auto simp: unicodeSpaces_def)

lemma space_bytes:
  "c \<in> firstBytes \<Longrightarrow> byte_of c \<le> 32 \<or> 128 \<le> byte_of c"
  "c \<in> lastBytes \<Longrightarrow> byte_of c \<le> 32 \<or> 128 \<le> byte_of c \<and> byte_of c \<le> 169 \<or> byte_of c = 175"
  unfolding firstBytes_def lastBytes_def unicodeSpaces_def by (simp; elim disjE; simp)+

lemma trimLeft_blank: "trimLeft unicodeSpaces (CHR '' '' # s) = trimLeft unicodeSpaces s"
  "trimLeft (map rev unicodeSpaces) (CHR '' '' # s) = trimLeft (map rev unicodeSpaces) s"
  by (subst trimLeft.simps, simp add: unicodeSpaces_def)+

end
