(* ===== verification/Comparator.thy ===== *)
theory Comparator
  imports Go_Prelude
begin

text \<open>
  The contract of a Go comparison function \<open>func(a, b T) int\<close>, as \<open>slices.SortFunc\<close>,
  \<open>slices.BinarySearchFunc\<close> and the helpers of \<open>internal/core\<close> rely on it, and what its
  clients get from it. The string, version and text-range comparisons interpret it.
\<close>

locale comparator =
  fixes cmp :: "'a \<Rightarrow> 'a \<Rightarrow> int"
  assumes antisym: "cmp b a = - cmp a b"
    and trans: "cmp a b \<le> 0 \<Longrightarrow> cmp b c \<le> 0 \<Longrightarrow> cmp a c \<le> 0"
begin

lemma refl [simp]: "cmp a a = 0"
  using antisym [of a a] by simp

lemma total: "cmp a b \<le> 0 \<or> cmp b a \<le> 0"
  using antisym [of b a] by linarith

lemma eq_trans: "cmp a b = 0 \<Longrightarrow> cmp b c = 0 \<Longrightarrow> cmp a c = 0"
  using trans [of a b c] trans [of c b a] antisym [of b a] antisym [of c b] antisym [of c a] by linarith

lemma eq_less_trans: "cmp a b = 0 \<Longrightarrow> cmp b c < 0 \<Longrightarrow> cmp a c < 0"
  using trans [of a b c] eq_trans [of b a c] antisym [of b a] by (cases "cmp a c = 0") auto

lemma less_eq_trans: "cmp a b < 0 \<Longrightarrow> cmp b c = 0 \<Longrightarrow> cmp a c < 0"
  using trans [of a b c] eq_trans [of a c b] antisym [of b c] by (cases "cmp a c = 0") auto

lemma less_trans: "cmp a b < 0 \<Longrightarrow> cmp b c \<le> 0 \<Longrightarrow> cmp a c < 0"
  using trans [of a b c] trans [of b c a] antisym [of a c] antisym [of b a]
  by (cases "cmp a c = 0") auto

lemma le_less_trans: "cmp a b \<le> 0 \<Longrightarrow> cmp b c < 0 \<Longrightarrow> cmp a c < 0"
  using trans [of a b c] trans [of c a b] antisym [of a c] antisym [of b c]
  by (cases "cmp a c = 0") auto

end

locale strict_comparator = comparator +
  assumes eq_0: "cmp a b = 0 \<Longrightarrow> a = b"
begin

lemma eq_0_iff: "cmp a b = 0 \<longleftrightarrow> a = b"
  using eq_0 by auto

end

section \<open>Lexicographic comparison of slices\<close>

text \<open>\<open>slices.CompareFunc\<close>.\<close>

fun slicesCompareFunc :: "('a \<Rightarrow> 'a \<Rightarrow> int) \<Rightarrow> 'a list \<Rightarrow> 'a list \<Rightarrow> int" where
  "slicesCompareFunc cmp [] [] = 0"
| "slicesCompareFunc cmp [] (y # ys) = -1"
| "slicesCompareFunc cmp (x # xs) [] = 1"
| "slicesCompareFunc cmp (x # xs) (y # ys) =
     (if cmp x y \<noteq> 0 then cmp x y else slicesCompareFunc cmp xs ys)"

definition thenCmp :: "('a \<Rightarrow> 'a \<Rightarrow> int) \<Rightarrow> ('a \<Rightarrow> 'a \<Rightarrow> int) \<Rightarrow> 'a \<Rightarrow> 'a \<Rightarrow> int" where
  "thenCmp c1 c2 a b = (if c1 a b \<noteq> 0 then c1 a b else c2 a b)"

context comparator
begin

lemma CompareFunc_refl [simp]: "slicesCompareFunc cmp xs xs = 0"
  by (induction xs) auto

lemma CompareFunc_antisym: "slicesCompareFunc cmp ys xs = - slicesCompareFunc cmp xs ys"
proof (induction xs arbitrary: ys)
  case Nil
  then show ?case by (cases ys) auto
next
  case (Cons x xs)
  then show ?case
  proof (cases ys)
    case (Cons y ys')
    have a: "cmp y x = - cmp x y" by (rule antisym)
    show ?thesis using a Cons Cons.IH [of ys'] by simp
  qed simp
qed

lemma CompareFunc_Cons_le_0:
  "slicesCompareFunc cmp (x # xs) (y # ys) \<le> 0 \<longleftrightarrow>
     cmp x y < 0 \<or> cmp x y = 0 \<and> slicesCompareFunc cmp xs ys \<le> 0"
  by auto

lemma CompareFunc_trans:
  "slicesCompareFunc cmp xs ys \<le> 0 \<Longrightarrow> slicesCompareFunc cmp ys zs \<le> 0 \<Longrightarrow>
     slicesCompareFunc cmp xs zs \<le> 0"
proof (induction xs arbitrary: ys zs)
  case Nil
  then show ?case by (cases zs) simp_all
next
  case (Cons x xs)
  then obtain y ys' where ys: "ys = y # ys'" by (cases ys) simp_all
  with Cons.prems obtain z zs' where zs: "zs = z # zs'" by (cases zs) simp_all
  show ?case
    using Cons.prems Cons.IH [of ys' zs'] less_trans [of x y z] eq_less_trans [of x y z] eq_trans [of x y z]
    unfolding ys zs CompareFunc_Cons_le_0 by fastforce
qed

lemma CompareFunc_comparator: "comparator (slicesCompareFunc cmp)"
  by unfold_locales (rule CompareFunc_antisym, rule CompareFunc_trans)

lemma thenCmp_comparator:
  assumes "comparator c2"
  shows "comparator (thenCmp cmp c2)"
proof
  fix a b c
  have anti2: "c2 b a = - c2 a b" for a b using assms by (rule comparator.antisym)
  show "thenCmp cmp c2 b a = - thenCmp cmp c2 a b"
    using antisym [of a b] anti2 [of b a] by (auto simp: thenCmp_def)
  assume "thenCmp cmp c2 a b \<le> 0" "thenCmp cmp c2 b c \<le> 0"
  then show "thenCmp cmp c2 a c \<le> 0"
    using less_trans [of a b c] eq_less_trans [of a b c] eq_trans [of a b c]
      comparator.trans [OF assms, of a b c]
    by (auto simp: thenCmp_def split: if_splits)
qed

lemma thenCmp_strict:
  assumes "strict_comparator c2"
  shows "strict_comparator (thenCmp cmp c2)"
proof -
  have eq: "c2 a b = 0 \<Longrightarrow> a = b" for a b by (rule strict_comparator.eq_0 [OF assms])
  have "comparator (thenCmp cmp c2)"
    by (rule thenCmp_comparator) (rule strict_comparator.axioms(1) [OF assms])
  then show ?thesis using eq
    by (auto simp: strict_comparator_def strict_comparator_axioms_def thenCmp_def split: if_splits)
qed

end

context strict_comparator
begin

lemma CompareFunc_eq_0: "slicesCompareFunc cmp xs ys = 0 \<Longrightarrow> xs = ys"
proof (induction xs arbitrary: ys)
  case Nil
  then show ?case by (cases ys) simp_all
next
  case (Cons x xs)
  then show ?case by (cases ys) (auto split: if_splits dest: eq_0)
qed

end

end
