(* ===== verification/StringUtil.thy ===== *)
theory StringUtil
  imports Utf8 Comparator
begin

text \<open>
  Package \<open>internal/stringutil\<close>: character classes of the scanner, line splitting, byte order
  marks, URI escaping, quoting, and the string comparisons the compiler sorts with.
  \<open>eqFold\<close> stands for \<open>strings.EqualFold\<close> and \<open>toLower\<close> for \<open>unicode.ToLower\<close>.
\<close>

section \<open>Character classes (\<open>util.go\<close>)\<close>

definition IsWhiteSpaceSingleLine :: "rune \<Rightarrow> bool" where
  "IsWhiteSpaceSingleLine ch \<longleftrightarrow>
     ch \<in> {0x20, 0x09, 0x0B, 0x0C, 0x0085, 0x00A0, 0x1680, 0x2000, 0x2001, 0x2002, 0x2003, 0x2004,
           0x2005, 0x2006, 0x2007, 0x2008, 0x2009, 0x200A, 0x200B, 0x202F, 0x205F, 0x3000, 0xFEFF}"

definition IsLineBreak :: "rune \<Rightarrow> bool" where
  "IsLineBreak ch \<longleftrightarrow> ch \<in> {0x0A, 0x0D, 0x2028, 0x2029}"

definition IsWhiteSpaceLike :: "rune \<Rightarrow> bool" where
  "IsWhiteSpaceLike ch \<longleftrightarrow> IsWhiteSpaceSingleLine ch \<or> IsLineBreak ch"

definition IsDigit :: "rune \<Rightarrow> bool" where
  "IsDigit ch \<longleftrightarrow> 0x30 \<le> ch \<and> ch \<le> 0x39"

definition IsOctalDigit :: "rune \<Rightarrow> bool" where
  "IsOctalDigit ch \<longleftrightarrow> 0x30 \<le> ch \<and> ch \<le> 0x37"

definition IsHexDigit :: "rune \<Rightarrow> bool" where
  "IsHexDigit ch \<longleftrightarrow>
     0x30 \<le> ch \<and> ch \<le> 0x39 \<or> 0x41 \<le> ch \<and> ch \<le> 0x46 \<or> 0x61 \<le> ch \<and> ch \<le> 0x66"

definition IsASCIILetter :: "rune \<Rightarrow> bool" where
  "IsASCIILetter ch \<longleftrightarrow> 0x41 \<le> ch \<and> ch \<le> 0x5A \<or> 0x61 \<le> ch \<and> ch \<le> 0x7A"

section \<open>Lines\<close>

abbreviation cr_char :: char where "cr_char \<equiv> CHR 0x0D"
abbreviation lf_char :: char where "lf_char \<equiv> CHR 0x0A"

text \<open>The loop of \<open>SplitLines\<close>: the first argument is the line read so far, the second the text
  from \<open>pos\<close> on.\<close>

fun splitLinesLoop :: "string \<Rightarrow> string \<Rightarrow> string list" where
  "splitLinesLoop line [] = (if line \<noteq> [] then [line] else [])"
| "splitLinesLoop line (c # rest) =
     (if c = cr_char then
        (case rest of
           c' # rest' \<Rightarrow>
             if c' = lf_char then line # splitLinesLoop [] rest' else line # splitLinesLoop [] rest
         | [] \<Rightarrow> line # splitLinesLoop [] rest)
      else if c = lf_char then line # splitLinesLoop [] rest
      else splitLinesLoop (line @ [c]) rest)"

definition SplitLines :: "string \<Rightarrow> string list" where
  "SplitLines text = splitLinesLoop [] text"

definition MAX_SMI_X86 :: nat where "MAX_SMI_X86 = 0x3fffffff"

function indentLoop :: "string \<Rightarrow> nat \<Rightarrow> nat \<Rightarrow> nat" where
  "indentLoop line i indentation =
     (if i < length line \<and> i < indentation then
        let (ch, size) = decodeRune (drop i line) in
        if \<not> IsWhiteSpaceLike ch then i else indentLoop line (i + size) indentation
      else i)"
  by pat_completeness auto
termination
proof (relation "measure (\<lambda>(line, i, indentation). length line - i)", goal_cases)
  case (2 line i indentation x ch size)
  then have "0 < size" using decodeRune_size_pos [of "drop i line"] by (metis drop_eq_Nil not_less snd_conv)
  with 2 show ?case by auto
qed simp

declare indentLoop.simps [simp del]

fun guessLoop :: "string list \<Rightarrow> nat \<Rightarrow> nat" where
  "guessLoop [] indentation = (if indentation = MAX_SMI_X86 then 0 else indentation)"
| "guessLoop (line # lines) indentation =
     (if length line = 0 then guessLoop lines indentation
      else
        let i = indentLoop line 0 indentation;
            indentation' = (if i < indentation then i else indentation) in
        if indentation' = 0 then 0 else guessLoop lines indentation')"

definition GuessIndentation :: "string list \<Rightarrow> nat" where
  "GuessIndentation lines = guessLoop lines MAX_SMI_X86"

section \<open>URI escaping\<close>

definition upperhex :: string where "upperhex = ''0123456789ABCDEF''"

definition shouldEscapeForEncodeURI :: "char \<Rightarrow> bool" where
  "shouldEscapeForEncodeURI b =
     (if byte_of CHR ''A'' \<le> byte_of b \<and> byte_of b \<le> byte_of CHR ''Z'' then False
      else if byte_of CHR ''a'' \<le> byte_of b \<and> byte_of b \<le> byte_of CHR ''z'' then False
      else if byte_of CHR ''0'' \<le> byte_of b \<and> byte_of b \<le> byte_of CHR ''9'' then False
      else b \<notin> set (CHR 0x27 # '';/?:@&=+$,#-_.!~*()''))"

definition escapeByte :: "char \<Rightarrow> string" where
  "escapeByte b =
     (if \<not> shouldEscapeForEncodeURI b then [b]
      else [CHR ''%'', upperhex ! (byte_of b div 16), upperhex ! (byte_of b mod 16)])"

definition EncodeURI :: "string \<Rightarrow> string" where
  "EncodeURI s = concat (map escapeByte s)"

section \<open>Byte order marks\<close>

definition getByteOrderMarkLength :: "string \<Rightarrow> nat" where
  "getByteOrderMarkLength text =
     (if length text \<ge> 1 then
        let ch0 = byte_of (text ! 0) in
        if ch0 = 0xfe then (if length text \<ge> 2 \<and> byte_of (text ! 1) = 0xff then 2 else 0)
        else if ch0 = 0xff then (if length text \<ge> 2 \<and> byte_of (text ! 1) = 0xfe then 2 else 0)
        else if ch0 = 0xef then
          (if length text \<ge> 3 \<and> byte_of (text ! 1) = 0xbb \<and> byte_of (text ! 2) = 0xbf then 3 else 0)
        else 0
      else 0)"

definition RemoveByteOrderMark :: "string \<Rightarrow> string" where
  "RemoveByteOrderMark text =
     (let ln = getByteOrderMarkLength text in if ln > 0 then drop ln text else text)"

definition AddUTF8ByteOrderMark :: "string \<Rightarrow> string" where
  "AddUTF8ByteOrderMark text =
     (if getByteOrderMarkLength text = 0 then [CHR 0xEF, CHR 0xBB, CHR 0xBF] @ text else text)"

section \<open>Truncation\<close>

function truncateLoop :: "string \<Rightarrow> nat \<Rightarrow> nat \<Rightarrow> nat \<Rightarrow> string" where
  "truncateLoop str i runeCount maxLength =
     (if i < length str then
        if runeCount + 1 > maxLength then take i str
        else truncateLoop str (i + snd (decodeRune (drop i str))) (runeCount + 1) maxLength
      else str)"
  by pat_completeness auto
termination
proof (relation "measure (\<lambda>(str, i, runeCount, maxLength). length str - i)", goal_cases)
  case (2 str i runeCount maxLength)
  then have "0 < snd (decodeRune (drop i str))" by (intro decodeRune_size_pos) simp
  with 2 show ?case by simp
qed simp

declare truncateLoop.simps [simp del]

definition TruncateByRunes :: "string \<Rightarrow> int \<Rightarrow> string" where
  "TruncateByRunes str maxLength =
     (if int (length str) < maxLength then str
      else if maxLength \<le> 0 then []
      else truncateLoop str 0 0 (nat maxLength))"

section \<open>Comparisons (\<open>compare.go\<close>)\<close>

definition EquateStringCaseInsensitive :: "(string \<Rightarrow> string \<Rightarrow> bool) \<Rightarrow> string \<Rightarrow> string \<Rightarrow> bool" where
  "EquateStringCaseInsensitive eqFold a b = eqFold a b"

definition EquateStringCaseSensitive :: "string \<Rightarrow> string \<Rightarrow> bool" where
  "EquateStringCaseSensitive a b = (a = b)"

definition GetStringEqualityComparer ::
  "(string \<Rightarrow> string \<Rightarrow> bool) \<Rightarrow> bool \<Rightarrow> string \<Rightarrow> string \<Rightarrow> bool" where
  "GetStringEqualityComparer eqFold ignoreCase =
     (if ignoreCase then EquateStringCaseInsensitive eqFold else EquateStringCaseSensitive)"

function compareFoldLoop :: "(rune \<Rightarrow> rune) \<Rightarrow> string \<Rightarrow> string \<Rightarrow> int" where
  "compareFoldLoop toLower a b =
     (let (ca, sa) = decodeRune a; (cb, sb) = decodeRune b in
      if sa = 0 then (if sb = 0 then 0 else -1)
      else if sb = 0 then 1
      else if toLower ca \<noteq> toLower cb then (if toLower ca < toLower cb then -1 else 1)
      else compareFoldLoop toLower (drop sa a) (drop sb b))"
  by pat_completeness auto
termination
proof (relation "measure (\<lambda>(toLower, a, b). length a)", goal_cases)
  case (2 toLower a b x ca sa y cb sb)
  then have "0 < sa" "sa \<le> length a"
    using decodeRune_size_le [of a] by (metis snd_conv neq0_conv, metis snd_conv)
  then show ?case by simp
qed simp

declare compareFoldLoop.simps [simp del]

definition CompareStringsCaseInsensitive :: "(rune \<Rightarrow> rune) \<Rightarrow> string \<Rightarrow> string \<Rightarrow> int" where
  "CompareStringsCaseInsensitive toLower a b = (if a = b then 0 else compareFoldLoop toLower a b)"

definition CompareStringsCaseSensitive :: "string \<Rightarrow> string \<Rightarrow> int" where
  "CompareStringsCaseSensitive a b = strCompare a b"

definition GetStringComparer :: "(rune \<Rightarrow> rune) \<Rightarrow> bool \<Rightarrow> string \<Rightarrow> string \<Rightarrow> int" where
  "GetStringComparer toLower ignoreCase =
     (if ignoreCase then CompareStringsCaseInsensitive toLower else CompareStringsCaseSensitive)"

definition HasPrefix :: "(string \<Rightarrow> string \<Rightarrow> bool) \<Rightarrow> string \<Rightarrow> string \<Rightarrow> bool \<Rightarrow> bool" where
  "HasPrefix eqFold s pfx caseSensitive =
     (if caseSensitive then strHasPrefix s pfx
      else if length pfx > length s then False
      else eqFold (take (length pfx) s) pfx)"

definition HasSuffix :: "(string \<Rightarrow> string \<Rightarrow> bool) \<Rightarrow> string \<Rightarrow> string \<Rightarrow> bool \<Rightarrow> bool" where
  "HasSuffix eqFold s sfx caseSensitive =
     (if caseSensitive then strHasSuffix s sfx
      else if length sfx > length s then False
      else eqFold (drop (length s - length sfx) s) sfx)"

definition HasPrefixAndSuffixWithoutOverlap ::
  "(string \<Rightarrow> string \<Rightarrow> bool) \<Rightarrow> string \<Rightarrow> string \<Rightarrow> string \<Rightarrow> bool \<Rightarrow> bool" where
  "HasPrefixAndSuffixWithoutOverlap eqFold s pfx sfx caseSensitive =
     (if length pfx + length sfx > length s then False
      else HasPrefix eqFold s pfx caseSensitive \<and> HasSuffix eqFold s sfx caseSensitive)"

definition CompareStringsCaseInsensitiveThenSensitive :: "(rune \<Rightarrow> rune) \<Rightarrow> string \<Rightarrow> string \<Rightarrow> int" where
  "CompareStringsCaseInsensitiveThenSensitive toLower a b =
     (let cmp = CompareStringsCaseInsensitive toLower a b in
      if cmp \<noteq> 0 then cmp else CompareStringsCaseSensitive a b)"

definition CompareStringsCaseInsensitiveEslintCompatible :: "(rune \<Rightarrow> rune) \<Rightarrow> string \<Rightarrow> string \<Rightarrow> int" where
  \<comment> \<open>\<open>strings.ToLower\<close> is \<open>strings.Map\<close> of \<open>unicode.ToLower\<close>\<close>
  "CompareStringsCaseInsensitiveEslintCompatible toLower a b =
     (if a = b then 0 else strCompare (stringsMap toLower a) (stringsMap toLower b))"

section \<open>Properties\<close>

subsection \<open>Comparisons are comparators\<close>

definition compareNat :: "nat \<Rightarrow> nat \<Rightarrow> int" where
  \<comment> \<open>\<open>cmp.Compare\<close> on unsigned values\<close>
  "compareNat a b = (if a < b then -1 else if b < a then 1 else 0)"

interpretation compareNat: strict_comparator compareNat
  by unfold_locales (auto simp: compareNat_def split: if_splits)

lemma strCompare_CompareFunc: "strCompare s t = slicesCompareFunc compareNat (map byte_of s) (map byte_of t)"
  by (induction s t rule: strCompare.induct) (auto simp: compareNat_def)

lemma decodeRunes_unfold:
  "decodeRune s = (r, n) \<Longrightarrow> n \<noteq> 0 \<Longrightarrow> decodeRunes s = r # decodeRunes (drop n s)"
  using decodeRunes.simps [of s] decodeRune_size_zero [of s] by auto

text \<open>The rune loop of the case-insensitive comparison is the lexicographic comparison of the
  lower-cased rune sequences.\<close>

lemma compareFoldLoop_CompareFunc:
  "compareFoldLoop toLower a b =
     slicesCompareFunc compareNat (map toLower (decodeRunes a)) (map toLower (decodeRunes b))"
proof (induction toLower a b rule: compareFoldLoop.induct)
  case (1 toLower a b)
  obtain ca sa where a: "decodeRune a = (ca, sa)" by force
  obtain cb sb where b: "decodeRune b = (cb, sb)" by force
  have az: "sa = 0 \<longleftrightarrow> a = []" and bz: "sb = 0 \<longleftrightarrow> b = []"
    using decodeRune_size_zero [of a] decodeRune_size_zero [of b] a b by simp_all
  show ?case
  proof (cases "sa = 0 \<or> sb = 0")
    case True
    then show ?thesis using a b az bz decodeRunes_unfold [OF a] decodeRunes_unfold [OF b]
      by (subst compareFoldLoop.simps) auto
  next
    case False
    then show ?thesis
      using a b decodeRunes_unfold [OF a] decodeRunes_unfold [OF b] "1.IH" [OF a [symmetric] _ b [symmetric]]
        compareNat_def [of "toLower ca" "toLower cb"]
      by (subst compareFoldLoop.simps) auto
  qed
qed

lemma CompareStringsCaseInsensitive_eq:
  "CompareStringsCaseInsensitive toLower a b =
     slicesCompareFunc compareNat (map toLower (decodeRunes a)) (map toLower (decodeRunes b))"
  by (simp add: CompareStringsCaseInsensitive_def compareFoldLoop_CompareFunc
      compareNat.CompareFunc_refl)

interpretation foldCompare: comparator "CompareStringsCaseInsensitive toLower"
  unfolding CompareStringsCaseInsensitive_eq
  by unfold_locales (rule compareNat.CompareFunc_antisym, rule compareNat.CompareFunc_trans)

interpretation strCompare: strict_comparator strCompare
  by unfold_locales (auto intro: strCompare_antisym strCompare_trans)

interpretation thenCompare: strict_comparator "CompareStringsCaseInsensitiveThenSensitive toLower"
proof -
  have "CompareStringsCaseInsensitiveThenSensitive toLower =
      thenCmp (CompareStringsCaseInsensitive toLower) strCompare"
    by (simp add: fun_eq_iff CompareStringsCaseInsensitiveThenSensitive_def thenCmp_def
        CompareStringsCaseSensitive_def Let_def)
  moreover have "strict_comparator (thenCmp (CompareStringsCaseInsensitive toLower) strCompare)"
    by (rule foldCompare.thenCmp_strict) (rule strCompare.strict_comparator_axioms)
  ultimately show "strict_comparator (CompareStringsCaseInsensitiveThenSensitive toLower)" by simp
qed

end
