(* ===== verification/TsPath.thy ===== *)
theory TsPath
  imports StringUtil
begin

text \<open>
  Package \<open>internal/tspath\<close>, file \<open>path.go\<close>: the path algebra every other component computes
  file names with. A path is a byte string with \<open>/\<close> as the separator. The functions that fold
  case take \<open>eqFold\<close> (\<open>strings.EqualFold\<close>) and \<open>toLower\<close> (\<open>unicode.ToLower\<close>) as
  parameters, since both are given by the Unicode tables.
\<close>

section \<open>Path tests\<close>

definition isAnyDirectorySeparator :: "char \<Rightarrow> bool" where
  "isAnyDirectorySeparator c = (c = slash_char \<or> c = backslash_char)"

definition IsVolumeCharacter :: "char \<Rightarrow> bool" where
  "IsVolumeCharacter c =
     (byte_of CHR ''a'' \<le> byte_of c \<and> byte_of c \<le> byte_of CHR ''z''
      \<or> byte_of CHR ''A'' \<le> byte_of c \<and> byte_of c \<le> byte_of CHR ''Z'')"

definition getFileUrlVolumeSeparatorEnd :: "string \<Rightarrow> nat \<Rightarrow> nat option" where
  "getFileUrlVolumeSeparatorEnd url start =
     (if length url \<le> start then None
      else let ch0 = url ! start in
        if ch0 = CHR '':'' then Some (start + 1)
        else if ch0 = CHR ''%'' \<and> start + 2 < length url \<and> url ! (start + 1) = CHR ''3''
             \<and> (url ! (start + 2) = CHR ''a'' \<or> url ! (start + 2) = CHR ''A'')
        then Some (start + 3)
        else None)"

definition complement :: "nat \<Rightarrow> int" where
  \<comment> \<open>Go's \<open>^n\<close>\<close>
  "complement n = - int n - 1"

definition urlRootLength :: "string \<Rightarrow> nat \<Rightarrow> int" where
  \<comment> \<open>the branch of \<open>GetEncodedRootLength\<close> for a path with \<open>://\<close> at \<open>schemeEnd\<close>\<close>
  "urlRootLength path schemeEnd =
     (let authorityStart = schemeEnd + 3 in
      case strIndexByte (drop authorityStart path) slash_char of
        None \<Rightarrow> complement (length path)
      | Some authorityLength \<Rightarrow>
          let authorityEnd = authorityStart + authorityLength;
              scheme = take schemeEnd path;
              authority = slice path authorityStart authorityEnd
          in
          if scheme = ''file'' \<and> (authority = [] \<or> authority = ''localhost'')
             \<and> authorityEnd + 2 < length path \<and> IsVolumeCharacter (path ! (authorityEnd + 1))
          then (case getFileUrlVolumeSeparatorEnd path (authorityEnd + 2) of
                  Some volumeSeparatorEnd \<Rightarrow>
                    if volumeSeparatorEnd = length path then complement volumeSeparatorEnd
                    else if path ! volumeSeparatorEnd = slash_char
                    then complement (volumeSeparatorEnd + 1)
                    else complement (authorityEnd + 1)
                | None \<Rightarrow> complement (authorityEnd + 1))
          else complement (authorityEnd + 1))"

definition GetEncodedRootLength :: "string \<Rightarrow> int" where
  "GetEncodedRootLength path =
     (let ln = length path in
      if ln = 0 then 0
      else
        let ch0 = path ! 0 in
        if ch0 = slash_char \<or> ch0 = backslash_char then
          (if ln = 1 \<or> path ! 1 \<noteq> ch0 then 1
           else (case strIndexByte (drop 2 path) ch0 of
                   None \<Rightarrow> int ln
                 | Some p1 \<Rightarrow> int (p1 + 2 + 1)))
        else if IsVolumeCharacter ch0 \<and> 1 < ln \<and> path ! 1 = CHR '':'' \<and> ln = 2 then 2
        else if IsVolumeCharacter ch0 \<and> 1 < ln \<and> path ! 1 = CHR '':''
             \<and> (path ! 2 = slash_char \<or> path ! 2 = backslash_char) then 3
        else if ch0 = CHR ''^'' \<and> 1 < ln \<and> path ! 1 = slash_char then 2
        else (case strIndex path ''://'' of
                Some schemeEnd \<Rightarrow> urlRootLength path schemeEnd
              | None \<Rightarrow> 0))"

definition GetRootLength :: "string \<Rightarrow> nat" where
  "GetRootLength path =
     (let rootLength = GetEncodedRootLength path in
      if rootLength < 0 then nat (- rootLength - 1) else nat rootLength)"

definition IsUrl :: "string \<Rightarrow> bool" where
  "IsUrl path = (GetEncodedRootLength path < 0)"

definition IsRootedDiskPath :: "string \<Rightarrow> bool" where
  "IsRootedDiskPath path = (GetEncodedRootLength path > 0)"

definition IsDiskPathRoot :: "string \<Rightarrow> bool" where
  "IsDiskPathRoot path =
     (let rootLength = GetEncodedRootLength path in rootLength > 0 \<and> rootLength = int (length path))"

definition IsDynamicFileName :: "string \<Rightarrow> bool" where
  "IsDynamicFileName fileName = strHasPrefix fileName ''^/''"

definition PathIsAbsolute :: "string \<Rightarrow> bool" where
  "PathIsAbsolute path = (GetEncodedRootLength path \<noteq> 0)"

definition HasTrailingDirectorySeparator :: "string \<Rightarrow> bool" where
  "HasTrailingDirectorySeparator path =
     (length path > 0 \<and> isAnyDirectorySeparator (path ! (length path - 1)))"

definition NormalizeSlashes :: "string \<Rightarrow> string" where
  "NormalizeSlashes path = map (\<lambda>c. if c = backslash_char then slash_char else c) path"

definition RemoveTrailingDirectorySeparator :: "string \<Rightarrow> string" where
  "RemoveTrailingDirectorySeparator path =
     (if HasTrailingDirectorySeparator path then take (length path - 1) path else path)"

function RemoveTrailingDirectorySeparators :: "string \<Rightarrow> string" where
  "RemoveTrailingDirectorySeparators path =
     (if HasTrailingDirectorySeparator path
      then RemoveTrailingDirectorySeparators (RemoveTrailingDirectorySeparator path)
      else path)"
  by pat_completeness auto
termination
  by (relation "measure length")
    (auto simp: RemoveTrailingDirectorySeparator_def HasTrailingDirectorySeparator_def)

declare RemoveTrailingDirectorySeparators.simps [simp del]

definition EnsureTrailingDirectorySeparator :: "string \<Rightarrow> string" where
  "EnsureTrailingDirectorySeparator path =
     (if \<not> HasTrailingDirectorySeparator path then path @ ''/'' else path)"

section \<open>Combining and splitting paths\<close>

text \<open>\<open>CombinePaths\<close> keeps everything written so far in one builder and remembers where the
  current result starts.\<close>

fun combineLoop :: "string \<Rightarrow> nat \<Rightarrow> string list \<Rightarrow> string" where
  "combineLoop b start [] = drop start b"
| "combineLoop b start (trailingPath # paths) =
     (if trailingPath = [] then combineLoop b start paths
      else
        let trailing = NormalizeSlashes trailingPath; result = drop start b in
        if result = [] \<or> GetRootLength trailing \<noteq> 0
        then combineLoop (b @ trailing) (length b) paths
        else combineLoop
               ((if \<not> HasTrailingDirectorySeparator result then b @ ''/'' else b) @ trailing)
               start paths)"

definition CombinePaths :: "string \<Rightarrow> string list \<Rightarrow> string" where
  "CombinePaths firstPath paths = combineLoop (NormalizeSlashes firstPath) 0 paths"

definition pathComponents :: "string \<Rightarrow> nat \<Rightarrow> string list" where
  "pathComponents path rootLength =
     (let root = take rootLength path;
          rest = strSplit slash_char (drop rootLength path);
          rest' = (if length rest > 0 \<and> rest ! (length rest - 1) = [] then take (length rest - 1) rest else rest)
      in root # rest')"

definition GetPathComponents :: "string \<Rightarrow> string \<Rightarrow> string list" where
  "GetPathComponents path currentDirectory =
     (let combined = CombinePaths currentDirectory [path]
      in pathComponents combined (GetRootLength combined))"

definition GetPathFromPathComponents :: "string list \<Rightarrow> string" where
  "GetPathFromPathComponents components =
     (case components of
        [] \<Rightarrow> []
      | root # rest \<Rightarrow>
          (if root \<noteq> [] then EnsureTrailingDirectorySeparator root else root) @ strJoin ''/'' rest)"

text \<open>One iteration of the loop of \<open>reducePathComponents\<close>, which \<open>getNormalizedPathComponentsFromCombined\<close>
  repeats on the components it cuts out of the path.\<close>

definition reduceStep :: "string list \<Rightarrow> string \<Rightarrow> string list" where
  "reduceStep reduced component =
     (if component = [] then reduced
      else if component = ''.'' then reduced
      else if component = ''..'' \<and> length reduced > 1 \<and> reduced ! (length reduced - 1) \<noteq> ''..''
      then take (length reduced - 1) reduced
      else if component = ''..'' \<and> \<not> length reduced > 1 \<and> reduced ! 0 \<noteq> []
      then reduced
      else reduced @ [component])"

definition reducePathComponents :: "string list \<Rightarrow> string list" where
  "reducePathComponents components =
     (case components of
        [] \<Rightarrow> []
      | root # rest \<Rightarrow> foldl reduceStep [root] rest)"

function normalizedComponentsLoop :: "string \<Rightarrow> string list \<Rightarrow> string list" where
  \<comment> \<open>the first argument is the part of the path from index \<open>i\<close> on\<close>
  "normalizedComponentsLoop rest components =
     (let rest' = dropWhile (\<lambda>c. c = slash_char) rest in
      if rest' = [] then components
      else
        let component = takeWhile (\<lambda>c. c \<noteq> slash_char) rest' in
        normalizedComponentsLoop (dropWhile (\<lambda>c. c \<noteq> slash_char) rest') (reduceStep components component))"
  by pat_completeness auto
termination
proof (relation "measure (\<lambda>(rest, components). length rest)", goal_cases)
  case (2 rest components x y)
  then have ne: "x \<noteq> []" and x: "x = dropWhile (\<lambda>c. c = slash_char) rest" by simp_all
  have hd: "hd x \<noteq> slash_char" using hd_dropWhile [of "\<lambda>c. c = slash_char" rest] ne x by simp
  have "length (dropWhile (\<lambda>c. c \<noteq> slash_char) x) < length x"
    using ne hd length_dropWhile_le [of "\<lambda>c. c \<noteq> slash_char" "tl x"] by (cases x) auto
  also have "length x \<le> length rest" unfolding x by (rule length_dropWhile_le)
  finally show ?case by simp
qed simp

declare normalizedComponentsLoop.simps [simp del]

definition getNormalizedPathComponentsFromCombined :: "string \<Rightarrow> string list" where
  "getNormalizedPathComponentsFromCombined path =
     (let rootLength = GetRootLength path
      in normalizedComponentsLoop (drop rootLength path) [take rootLength path])"

definition GetNormalizedPathComponents :: "string \<Rightarrow> string \<Rightarrow> string list" where
  "GetNormalizedPathComponents path currentDirectory =
     getNormalizedPathComponentsFromCombined (CombinePaths currentDirectory [path])"

section \<open>Relative segments\<close>

fun relativeSegmentLoop :: "string \<Rightarrow> bool \<Rightarrow> nat \<Rightarrow> int \<Rightarrow> bool" where
  "relativeSegmentLoop [] prevSlash segLen dotCount =
     (segLen = 1 \<and> dotCount = 1 \<or> segLen = 2 \<and> dotCount = 2)"
| "relativeSegmentLoop (c # p) prevSlash segLen dotCount =
     (if c = slash_char then
        if prevSlash then True
        else if segLen = 1 \<and> dotCount = 1 \<or> segLen = 2 \<and> dotCount = 2 then True
        else relativeSegmentLoop p True 0 0
      else
        relativeSegmentLoop p False (segLen + 1)
          (if c = dot_char then if dotCount \<ge> 0 then dotCount + 1 else dotCount else -1))"

definition hasRelativePathSegment :: "string \<Rightarrow> bool" where
  "hasRelativePathSegment p =
     (let n = length p in
      if n = 0 then False
      else if p = ''.'' \<or> p = ''..'' then True
      else if p ! 0 = dot_char \<and> (n \<ge> 2 \<and> p ! 1 = slash_char) then True
      else if p ! 0 = dot_char \<and> (n \<ge> 3 \<and> p ! 1 = dot_char \<and> p ! 2 = slash_char) then True
      else if p ! (n - 1) = dot_char \<and> (n \<ge> 2 \<and> p ! (n - 2) = slash_char) then True
      else if p ! (n - 1) = dot_char \<and> (n \<ge> 3 \<and> p ! (n - 2) = dot_char \<and> p ! (n - 3) = slash_char) then True
      else relativeSegmentLoop p False 0 0)"

definition simpleNormalizePath :: "string \<Rightarrow> string option" where
  "simpleNormalizePath path =
     (if \<not> hasRelativePathSegment path then Some path
      else
        let simplified = strReplaceAll path ''/./'' ''/'';
            trimmed = strTrimPrefix simplified ''./'' in
        if trimmed \<noteq> path \<and> \<not> hasRelativePathSegment trimmed
           \<and> \<not> (trimmed \<noteq> simplified \<and> strHasPrefix trimmed ''/'')
        then Some trimmed
        else None)"

section \<open>Normalization\<close>

text \<open>State of the loop of \<open>GetNormalizedAbsolutePath\<close>, which copies nothing until it meets a segment
  that has to go.\<close>

record normState =
  ns_changed :: bool
  ns_normalized :: string
  ns_normalizedUpTo :: nat
  ns_seenNonDotDot :: bool

definition seenAfterPop :: "nat \<Rightarrow> string \<Rightarrow> bool" where
  "seenAfterPop rootLength normalized =
     ((length normalized \<noteq> rootLength \<or> rootLength \<noteq> 0) \<and> normalized \<noteq> ''..'' \<and> \<not> strHasSuffix normalized ''/..'')"

definition popTo :: "nat \<Rightarrow> string \<Rightarrow> nat option \<Rightarrow> string" where
  \<comment> \<open>\<open>s[:max(rootLength, lastSlash)]\<close>, where \<open>lastSlash\<close> may be \<open>-1\<close>\<close>
  "popTo rootLength s lastSlash =
     (case lastSlash of Some i \<Rightarrow> take (max rootLength i) s | None \<Rightarrow> take rootLength s)"

definition normalizeSegment :: "string \<Rightarrow> nat \<Rightarrow> nat \<Rightarrow> nat \<Rightarrow> normState \<Rightarrow> normState" where
  \<comment> \<open>the segment \<open>fileName[segmentStart:segmentEnd]\<close>, past any superfluous separators\<close>
  "normalizeSegment fileName rootLength segmentStart segmentEnd st =
     (let segmentLength = segmentEnd - segmentStart;
          normalized = ns_normalized st; upTo = ns_normalizedUpTo st in
      if segmentLength = 1 \<and> fileName ! segmentStart = dot_char then
        (if \<not> ns_changed st then st\<lparr>ns_normalized := take upTo fileName, ns_changed := True\<rparr> else st)
      else if segmentLength = 2 \<and> fileName ! segmentStart = dot_char \<and> fileName ! (segmentStart + 1) = dot_char then
        (if \<not> ns_seenNonDotDot st then
           (if ns_changed st
            then st\<lparr>ns_normalized := normalized @ (if length normalized = rootLength then ''..'' else ''/..'')\<rparr>
            else st\<lparr>ns_normalizedUpTo := segmentStart + 2\<rparr>)
         else if \<not> ns_changed st then
           (let norm = (if upTo \<ge> 1
                        then popTo rootLength fileName (strLastIndexByte (take (upTo - 1) fileName) slash_char)
                        else take upTo fileName)
            in st\<lparr>ns_normalized := norm, ns_changed := True, ns_seenNonDotDot := seenAfterPop rootLength norm\<rparr>)
         else
           (let norm = (case strLastIndexByte normalized slash_char of
                          Some lastSlash \<Rightarrow> take (max rootLength lastSlash) normalized
                        | None \<Rightarrow> take rootLength fileName)
            in st\<lparr>ns_normalized := norm, ns_seenNonDotDot := seenAfterPop rootLength norm\<rparr>))
      else if ns_changed st then
        st\<lparr>ns_normalized := (if length normalized \<noteq> rootLength then normalized @ ''/'' else normalized)
                             @ slice fileName segmentStart segmentEnd,
           ns_seenNonDotDot := True\<rparr>
      else st\<lparr>ns_seenNonDotDot := True, ns_normalizedUpTo := segmentEnd\<rparr>)"

definition segmentEndFrom :: "string \<Rightarrow> nat \<Rightarrow> nat" where
  "segmentEndFrom fileName index =
     (case strIndexByte (drop (index + 1) fileName) slash_char of
        None \<Rightarrow> length fileName
      | Some i \<Rightarrow> i + (index + 1))"

lemma segmentEndFrom_gt: "index < length fileName \<Longrightarrow> index < segmentEndFrom fileName index"
  by (auto simp: segmentEndFrom_def split: option.splits)

function normalizeLoop :: "string \<Rightarrow> nat \<Rightarrow> nat \<Rightarrow> normState \<Rightarrow> normState" where
  "normalizeLoop fileName rootLength index st =
     (if index < length fileName then
        let segmentStart = index + length (takeWhile (\<lambda>c. c = slash_char) (drop index fileName));
            st1 = (if index < segmentStart \<and> \<not> ns_changed st
                   then st\<lparr>ns_normalized := take (max rootLength (index - 1)) fileName, ns_changed := True\<rparr>
                   else st)
        in
        if index < segmentStart \<and> segmentStart = length fileName then st1
        else
          let segmentEnd = segmentEndFrom fileName segmentStart in
          normalizeLoop fileName rootLength (segmentEnd + 1)
            (normalizeSegment fileName rootLength segmentStart segmentEnd st1)
      else st)"
  by pat_completeness auto
termination
proof (relation "measure (\<lambda>(fileName, rootLength, index, st). length fileName - index)", goal_cases)
  case (2 fileName rootLength index st segmentStart st1 segmentEnd)
  have "segmentStart \<le> segmentEnd"
    using 2(5) by (auto simp: segmentEndFrom_def split: option.splits dest: strIndexByte_Some)
      (metis "2"(1,2) add_diff_inverse_nat length_drop length_takeWhile_le nat_add_left_cancel_le not_less_iff_gr_or_eq)
  with 2 show ?case by auto
qed simp

declare normalizeLoop.simps [simp del]

definition normalizeSlow :: "string \<Rightarrow> nat \<Rightarrow> string" where
  "normalizeSlow fileName rootLength =
     (let st = normalizeLoop fileName rootLength rootLength
                 \<lparr>ns_changed = False, ns_normalized = [], ns_normalizedUpTo = rootLength,
                  ns_seenNonDotDot = (rootLength \<noteq> 0)\<rparr> in
      if ns_changed st then ns_normalized st
      else if length fileName > rootLength then RemoveTrailingDirectorySeparators fileName
      else if length fileName = rootLength then EnsureTrailingDirectorySeparator fileName
      else fileName)"

definition GetNormalizedAbsolutePath :: "string \<Rightarrow> string \<Rightarrow> string" where
  "GetNormalizedAbsolutePath fileName0 currentDirectory =
     (let fileName = (if GetRootLength fileName0 = 0 \<and> currentDirectory \<noteq> []
                      then CombinePaths currentDirectory [fileName0]
                      else NormalizeSlashes fileName0);
          rootLength = GetRootLength fileName in
      case simpleNormalizePath fileName of
        Some simpleNormalized \<Rightarrow>
          if length simpleNormalized > rootLength then RemoveTrailingDirectorySeparator simpleNormalized
          else if length simpleNormalized = rootLength \<and> rootLength \<noteq> 0
          then EnsureTrailingDirectorySeparator simpleNormalized
          else simpleNormalized
      | None \<Rightarrow> normalizeSlow fileName rootLength)"

definition NormalizePath :: "string \<Rightarrow> string" where
  "NormalizePath path0 =
     (let path = NormalizeSlashes path0 in
      case simpleNormalizePath path of
        Some normalized \<Rightarrow> normalized
      | None \<Rightarrow>
          let normalized = GetNormalizedAbsolutePath path [] in
          if normalized \<noteq> [] \<and> HasTrailingDirectorySeparator path
          then EnsureTrailingDirectorySeparator normalized
          else normalized)"

end
