(* ===== verification/TsPath_Normalize.thy ===== *)
theory TsPath_Normalize
  imports TsPath
begin

text \<open>
  Correctness of the normalization of \<open>internal/tspath\<close>. The reference is the component algorithm:
  split the path after its root, resolve \<open>.\<close>, \<open>..\<close> and empty components with
  \<open>reducePathComponents\<close>, and put the components together again. The index-based component
  loop and the copy-avoiding loop of \<open>GetNormalizedAbsolutePath\<close> with its fast paths are
  shown to compute it.
\<close>

section \<open>Roots\<close>

lemma NormalizeSlashes_simps [simp]:
  "length (NormalizeSlashes p) = length p"
  "NormalizeSlashes [] = []"
  "NormalizeSlashes p = [] \<longleftrightarrow> p = []"
  "backslash_char \<notin> set (NormalizeSlashes p)"
  by (auto simp: NormalizeSlashes_def)

lemma NormalizeSlashes_id: "backslash_char \<notin> set p \<Longrightarrow> NormalizeSlashes p = p"
  by (auto simp: NormalizeSlashes_def intro!: map_idI)

lemma NormalizeSlashes_idem [simp]: "NormalizeSlashes (NormalizeSlashes p) = NormalizeSlashes p"
  by (simp add: NormalizeSlashes_id)

lemma complement_simps [simp]: "complement n < 0" "- complement n - 1 = int n"
  by (simp_all add: complement_def)

lemma getFileUrlVolumeSeparatorEnd_le:
  "getFileUrlVolumeSeparatorEnd url start = Some e \<Longrightarrow> start < e \<and> e \<le> length url"
  by (auto simp: getFileUrlVolumeSeparatorEnd_def Let_def split: if_splits)

text \<open>The URL branch: the root ends the path, or ends with a separator inside it.\<close>

lemma urlRootLength_cases:
  assumes "strIndex path ''://'' = Some schemeEnd"
  obtains n where "urlRootLength path schemeEnd = complement n" "0 < n" "n \<le> length path"
    "n < length path \<Longrightarrow> path ! (n - 1) = slash_char"
proof -
  have le: "schemeEnd + 3 \<le> length path" using strIndex_Some [OF assms] by simp
  show thesis
  proof (cases "strIndexByte (drop (schemeEnd + 3) path) slash_char")
    case None
    then show thesis using le by (intro that [of "length path"]) (auto simp: urlRootLength_def Let_def)
  next
    case (Some k)
    then have k: "schemeEnd + 3 + k < length path" "path ! (schemeEnd + 3 + k) = slash_char"
      using strIndexByte_Some [OF Some] le by (auto simp: less_diff_conv2 add.commute)
    define e where "e = schemeEnd + 3 + k"
    obtain C where u: "urlRootLength path schemeEnd =
        (if C then (case getFileUrlVolumeSeparatorEnd path (e + 2) of
             Some v \<Rightarrow> if v = length path then complement v
                       else if path ! v = slash_char then complement (v + 1) else complement (e + 1)
           | None \<Rightarrow> complement (e + 1))
         else complement (e + 1))"
      using Some by (simp only: urlRootLength_def Let_def option.case e_def)
    note k = k [folded e_def]
    show thesis
    proof (cases "urlRootLength path schemeEnd = complement (e + 1)")
      case True
      then show thesis using k by (intro that [of "e + 1"]) auto
    next
      case False
      then obtain v where v: "getFileUrlVolumeSeparatorEnd path (e + 2) = Some v"
        "v = length path \<or> path ! v = slash_char"
        "urlRootLength path schemeEnd = complement (if v = length path then v else v + 1)"
        using u by (auto split: if_splits option.splits)
      then show thesis using getFileUrlVolumeSeparatorEnd_le [OF v(1)]
        by (intro that [of "if v = length path then v else v + 1"]) (auto split: if_splits)
    qed
  qed
qed

lemma GetEncodedRootLength_cases:
  obtains (zero) "GetEncodedRootLength p = 0" "p = [] \<or> p ! 0 \<noteq> slash_char"
  | (disk) n where "GetEncodedRootLength p = int n" "0 < n" "n \<le> length p"
      "n < length p \<Longrightarrow> isAnyDirectorySeparator (p ! (n - 1))"
  | (url) n where "GetEncodedRootLength p = complement n" "0 < n" "n \<le> length p"
      "n < length p \<Longrightarrow> p ! (n - 1) = slash_char"
proof -
  note defs = GetEncodedRootLength_def Let_def isAnyDirectorySeparator_def
  let ?sep = "p ! 0 = slash_char \<or> p ! 0 = backslash_char"
  let ?vol = "IsVolumeCharacter (p ! 0) \<and> 1 < length p \<and> p ! 1 = CHR '':''"
  let ?sep2 = "p ! 2 = slash_char \<or> p ! 2 = backslash_char"
  consider (empty) "p = []" | (one) "p \<noteq> []" ?sep "length p = 1 \<or> p ! 1 \<noteq> p ! 0"
    | (unc) "p \<noteq> []" ?sep "\<not> (length p = 1 \<or> p ! 1 \<noteq> p ! 0)"
    | (dos2) "p \<noteq> []" "\<not> ?sep" ?vol "length p = 2"
    | (dos3) "p \<noteq> []" "\<not> ?sep" ?vol "length p \<noteq> 2" ?sep2
    | (rest) "p \<noteq> []" "\<not> ?sep" "\<not> (?vol \<and> length p = 2)" "\<not> (?vol \<and> ?sep2)"
    by blast
  then show thesis
  proof cases
    case empty
    then show thesis by (intro zero) (simp_all add: defs)
  next
    case one
    then show thesis by (intro disk [of 1]) (simp_all add: defs Suc_le_eq)
  next
    case unc
    show thesis
    proof (cases "strIndexByte (drop 2 p) (p ! 0)")
      case None
      then show thesis using unc by (intro disk [of "length p"]) (simp_all add: defs)
    next
      case (Some k)
      then have "k + 2 < length p" "p ! (k + 2) = p ! 0"
        using strIndexByte_Some [OF Some] by (auto simp: less_diff_conv add.commute)
      then show thesis using Some unc by (intro disk [of "k + 2 + 1"]) (simp_all add: defs)
    qed
  next
    case dos2
    then show thesis by (intro disk [of 2]) (simp_all add: defs)
  next
    case dos3
    then show thesis by (intro disk [of 3]) (auto simp: defs)
  next
    case rest
    show thesis
    proof (cases "p ! 0 = CHR ''^'' \<and> 1 < length p \<and> p ! 1 = slash_char")
      case True
      then show thesis using rest by (intro disk [of 2]) (auto simp: defs)
    next
      case False
      show thesis
      proof (cases "strIndex p ''://''")
        case None
        then show thesis using rest False by (intro zero) (auto simp: defs)
      next
        case (Some schemeEnd)
        then have "GetEncodedRootLength p = urlRootLength p schemeEnd"
          using rest False by (auto simp: defs)
        then show thesis using urlRootLength_cases [OF Some] url by metis
      qed
    qed
  qed
qed

lemma GetRootLength_le: "GetRootLength p \<le> length p"
  by (rule GetEncodedRootLength_cases [of p]) (simp_all add: GetRootLength_def Let_def)

lemma root_separator:
  "0 < GetRootLength p \<Longrightarrow> GetRootLength p < length p \<Longrightarrow>
     isAnyDirectorySeparator (p ! (GetRootLength p - 1))"
  by (rule GetEncodedRootLength_cases [of p])
    (auto simp: GetRootLength_def Let_def isAnyDirectorySeparator_def)

lemma no_root: "GetRootLength p = 0 \<Longrightarrow> p = [] \<or> p ! 0 \<noteq> slash_char"
  by (rule GetEncodedRootLength_cases [of p]) (auto simp: GetRootLength_def Let_def)

section \<open>The two component algorithms agree\<close>

lemma reduceStep_Nil [simp]: "reduceStep cs [] = cs"
  by (simp add: reduceStep_def)

lemma reduceStep_dot [simp]: "reduceStep cs ''.'' = cs"
  by (simp add: reduceStep_def)

lemma foldl_reduceStep_dropSlashes:
  "foldl reduceStep cs (strSplit slash_char (dropWhile (\<lambda>c. c = slash_char) s)) =
   foldl reduceStep cs (strSplit slash_char s)"
  by (induction s) auto

lemma foldl_reduceStep_component:
  assumes "slash_char \<notin> set seg" and "rest = [] \<or> hd rest = slash_char"
  shows "foldl reduceStep cs (strSplit slash_char (seg @ rest)) =
    foldl reduceStep (reduceStep cs seg) (strSplit slash_char rest)"
  using assms by (cases rest) (simp_all add: strSplit_notin strSplit_append)

lemma takeWhile_not_slash: "slash_char \<notin> set (takeWhile (\<lambda>c. c \<noteq> slash_char) s)"
  by (auto dest: set_takeWhileD)

lemma dropWhile_slash_hd:
  "dropWhile (\<lambda>c. c \<noteq> slash_char) s = [] \<or> hd (dropWhile (\<lambda>c. c \<noteq> slash_char) s) = slash_char"
  using hd_dropWhile [of "\<lambda>c. c \<noteq> slash_char" s] by auto

lemma normalizedComponentsLoop_eq:
  "normalizedComponentsLoop rest cs = foldl reduceStep cs (strSplit slash_char rest)"
proof (induction rest cs rule: normalizedComponentsLoop.induct)
  case (1 rest cs)
  define r where "r = dropWhile (\<lambda>c. c = slash_char) rest"
  have fold: "foldl reduceStep cs (strSplit slash_char rest) = foldl reduceStep cs (strSplit slash_char r)"
    unfolding r_def by (simp add: foldl_reduceStep_dropSlashes)
  show ?case
  proof (cases "r = []")
    case True
    then show ?thesis using fold by (subst normalizedComponentsLoop.simps) (simp add: Let_def flip: r_def)
  next
    case False
    have "foldl reduceStep cs (strSplit slash_char r) =
        foldl reduceStep (reduceStep cs (takeWhile (\<lambda>c. c \<noteq> slash_char) r))
          (strSplit slash_char (dropWhile (\<lambda>c. c \<noteq> slash_char) r))"
      using foldl_reduceStep_component [OF takeWhile_not_slash dropWhile_slash_hd, of cs r r] by simp
    then show ?thesis using False fold "1.IH" [OF r_def]
      by (subst normalizedComponentsLoop.simps) (simp add: Let_def flip: r_def)
  qed
qed

definition reducedComponents :: "string \<Rightarrow> nat \<Rightarrow> string list" where
  "reducedComponents p rootLength =
     foldl reduceStep [take rootLength p] (strSplit slash_char (drop rootLength p))"

lemma reducePathComponents_pathComponents:
  "reducePathComponents (pathComponents p rootLength) = reducedComponents p rootLength"
proof -
  let ?rest = "strSplit slash_char (drop rootLength p)"
  have "foldl reduceStep cs (butlast ?rest) = foldl reduceStep cs ?rest" if "last ?rest = []" for cs
    using that append_butlast_last_id [of ?rest] by (metis foldl_append foldl_Cons foldl_Nil reduceStep_Nil strSplit_not_Nil)
  then show ?thesis
    by (auto simp: reducePathComponents_def pathComponents_def reducedComponents_def Let_def
        last_conv_nth butlast_conv_take)
qed

lemma getNormalizedPathComponentsFromCombined_eq:
  "getNormalizedPathComponentsFromCombined p = reducedComponents p (GetRootLength p)"
  by (simp add: getNormalizedPathComponentsFromCombined_def normalizedComponentsLoop_eq
      reducedComponents_def Let_def)

section \<open>Rendering components\<close>

definition render :: "string list \<Rightarrow> string" where
  "render cs = hd cs @ strJoin ''/'' (tl cs)"

text \<open>Components below a root of length \<open>rl\<close>, as every reduction keeps them.\<close>

definition okComponents :: "nat \<Rightarrow> string list \<Rightarrow> bool" where
  "okComponents rl cs \<longleftrightarrow> cs \<noteq> [] \<and> length (hd cs) = rl \<and>
     (\<forall>c\<in>set (tl cs). c \<noteq> [] \<and> slash_char \<notin> set c \<and> (rl \<noteq> 0 \<longrightarrow> c \<noteq> ''..''))"

lemma okComponents_Nil [simp]: "okComponents rl [root] \<longleftrightarrow> length root = rl"
  by (simp add: okComponents_def)

lemma okComponents_snoc:
  "cs \<noteq> [] \<Longrightarrow> okComponents rl (cs @ [c]) \<longleftrightarrow>
     okComponents rl cs \<and> c \<noteq> [] \<and> slash_char \<notin> set c \<and> (rl \<noteq> 0 \<longrightarrow> c \<noteq> ''..'')"
  by (cases cs) (auto simp: okComponents_def)

lemma render_single [simp]: "render [root] = root"
  by (simp add: render_def)

lemma render_snoc:
  "cs \<noteq> [] \<Longrightarrow> render (cs @ [c]) = render cs @ (if tl cs = [] then c else ''/'' @ c)"
  by (cases cs) (auto simp: render_def strJoin_snoc)

lemma length_render:
  assumes "okComponents rl cs"
  shows "length (render cs) = rl \<longleftrightarrow> tl cs = []" and "rl \<le> length (render cs)"
proof -
  have "strJoin ''/'' xs = [] \<longleftrightarrow> xs = []" if "\<forall>x\<in>set xs. x \<noteq> []" for xs
    using that by (cases xs) (auto, metis append_is_Nil_conv strJoin.simps(2) strJoin_Cons)
  then have "strJoin ''/'' (tl cs) = [] \<longleftrightarrow> tl cs = []"
    using assms unfolding okComponents_def by blast
  then show "length (render cs) = rl \<longleftrightarrow> tl cs = []" and "rl \<le> length (render cs)"
    using assms by (simp_all add: render_def okComponents_def)
qed

lemma render_root: "okComponents rl cs \<Longrightarrow> take rl (render cs) = hd cs"
  by (auto simp: render_def okComponents_def)

lemma last_tl_cases:
  assumes "okComponents rl cs"
  obtains (root) r where "cs = [r]" "length r = rl" | (snoc) ds c where "cs = ds @ [c]" "ds \<noteq> []" "okComponents rl ds"
    "c \<noteq> []" "slash_char \<notin> set c" "rl \<noteq> 0 \<longrightarrow> c \<noteq> ''..''"
proof -
  have ne: "cs \<noteq> []" using assms by (simp add: okComponents_def)
  then have cs: "cs = butlast cs @ [last cs]" by simp
  show thesis
  proof (cases "butlast cs = []")
    case True
    with cs have "cs = [last cs]" by simp
    then show thesis using assms root by (metis okComponents_Nil)
  next
    case False
    with assms cs have "okComponents rl (butlast cs) \<and> last cs \<noteq> [] \<and> slash_char \<notin> set (last cs)
        \<and> (rl \<noteq> 0 \<longrightarrow> last cs \<noteq> ''..'')"
      by (metis okComponents_snoc)
    then show thesis using snoc [OF cs False] by blast
  qed
qed

lemma reduceStep_cases:
  assumes "okComponents rl cs" and "seg \<noteq> []" "seg \<noteq> ''.''"
  shows "reduceStep cs seg =
    (if seg = ''..'' then
       if tl cs = [] then (if rl \<noteq> 0 then cs else cs @ [''..''])
       else if last cs \<noteq> ''..'' then butlast cs else cs @ [''..'']
     else cs @ [seg])"
proof (cases "tl cs = []")
  case True
  then obtain r where "cs = [r]" using assms(1) by (cases cs) (auto simp: okComponents_def)
  then show ?thesis using assms by (auto simp: reduceStep_def)
next
  case False
  then have "length cs > 1" "last cs = cs ! (length cs - 1)" "butlast cs = take (length cs - 1) cs"
    by (cases cs; simp add: last_conv_nth butlast_conv_take)+
  then show ?thesis using assms False by (simp add: reduceStep_def)
qed

lemma okComponents_reduceStep:
  assumes "okComponents rl cs" "slash_char \<notin> set seg"
  shows "okComponents rl (reduceStep cs seg)"
proof (cases "seg = [] \<or> seg = ''.''")
  case True
  then show ?thesis using assms by auto
next
  case False
  then have ne: "seg \<noteq> []" "seg \<noteq> ''.''" by auto
  from assms(1) show ?thesis
  proof (cases rule: last_tl_cases)
    case root
    then show ?thesis using assms ne reduceStep_cases [OF assms(1) ne]
      by (auto simp: okComponents_def)
  next
    case (snoc ds c)
    then show ?thesis using assms ne reduceStep_cases [OF assms(1) ne]
      by (cases ds) (auto simp: okComponents_def)
  qed
qed

lemma okComponents_foldl:
  "okComponents rl cs \<Longrightarrow> (\<forall>x\<in>set xs. slash_char \<notin> set x) \<Longrightarrow> okComponents rl (foldl reduceStep cs xs)"
  by (induction xs arbitrary: cs) (auto intro: okComponents_reduceStep)

lemma okComponents_reducedComponents:
  "rl \<le> length p \<Longrightarrow> okComponents rl (reducedComponents p rl)"
  unfolding reducedComponents_def by (rule okComponents_foldl) (auto dest: strSplit_elem)

section \<open>The copy-avoiding loop\<close>

text \<open>Invariant of \<open>normalizeLoop\<close> at the start of a segment: \<open>cs\<close> are the reduced components of
  what has been read.\<close>

definition stInv :: "string \<Rightarrow> nat \<Rightarrow> normState \<Rightarrow> string list \<Rightarrow> bool" where
  "stInv f rl st cs \<longleftrightarrow> okComponents rl cs \<and> hd cs = take rl f \<and>
     (ns_seenNonDotDot st \<longleftrightarrow> rl \<noteq> 0 \<or> tl cs \<noteq> [] \<and> last cs \<noteq> ''..'') \<and>
     (if ns_changed st then ns_normalized st = render cs
      else take (ns_normalizedUpTo st) f = render cs \<and> ns_normalizedUpTo st \<le> length f)"

definition posInv :: "string \<Rightarrow> nat \<Rightarrow> nat \<Rightarrow> normState \<Rightarrow> string list \<Rightarrow> bool" where
  "posInv f rl index st cs \<longleftrightarrow> (\<not> ns_changed st \<longrightarrow>
     (if tl cs = [] then index = rl \<and> ns_normalizedUpTo st = rl
      else index = Suc (ns_normalizedUpTo st) \<and>
        (ns_normalizedUpTo st < length f \<longrightarrow> f ! ns_normalizedUpTo st = slash_char)))"

text \<open>Removing the last component is cutting at the last separator.\<close>

lemma render_pop:
  assumes "okComponents rl cs" "rl \<noteq> 0 \<longrightarrow> last (hd cs) = slash_char"
  shows "(case strLastIndexByte (render cs) slash_char of
            Some i \<Rightarrow> take (max rl i) (render cs) | None \<Rightarrow> hd cs) =
         (if tl cs = [] then hd cs else render (butlast cs))"
  using assms(1)
proof (cases rule: last_tl_cases)
  case (root r)
  then show ?thesis by (auto simp: split: option.splits)
next
  case (snoc ds c)
  have len: "length (hd ds) = rl" and hd: "hd cs = hd ds"
    using snoc by (simp_all add: okComponents_def)
  show ?thesis
  proof (cases "tl ds = []")
    case True
    then have r: "render cs = hd ds @ c" and ds: "ds = [hd ds]"
      using snoc by (cases ds; simp add: render_def)+
    have i: "strLastIndexByte (render cs) slash_char = strLastIndexByte (hd ds) slash_char"
      unfolding r using snoc(5) by (rule strLastIndexByte_append_notin)
    have "render (butlast cs) = hd ds" using snoc(1) ds by (metis butlast_snoc render_single)
    then show ?thesis using i r len hd snoc
      by (auto split: option.splits dest!: strLastIndexByte_Some)
  next
    case False
    then have r: "render cs = render ds @ slash_char # c" using snoc(1,2) by (simp add: render_snoc)
    then have "strLastIndexByte (render cs) slash_char = Some (length (render ds))"
      using snoc(5) by (simp add: strLastIndexByte_append)
    then show ?thesis using r snoc length_render(2) [OF snoc(3)] by (simp add: max_def)
  qed
qed

lemma suffix_component:
  assumes "slash_char \<notin> set c"
  shows "strHasSuffix (xs @ slash_char # c) ''/..'' \<longleftrightarrow> c = ''..''"
proof
  assume "strHasSuffix (xs @ slash_char # c) ''/..''"
  then obtain t where t: "xs @ slash_char # c = t @ slash_char # ''..''" by (auto simp: strHasSuffix_iff)
  have "length xs = length t"
    using strLastIndexByte_append [OF assms, of xs] strLastIndexByte_append [of slash_char "''..''" t] t by simp
  with t show "c = ''..''" by simp
next
  assume "c = ''..''"
  then show "strHasSuffix (xs @ slash_char # c) ''/..''" by (auto simp: strHasSuffix_iff)
qed

lemma no_suffix_component: "slash_char \<notin> set c \<Longrightarrow> \<not> strHasSuffix c ''/..''"
  by (auto simp: strHasSuffix_iff)

lemma seenAfterPop_render:
  assumes "okComponents rl cs" "rl \<noteq> 0 \<longrightarrow> last (hd cs) = slash_char"
  shows "seenAfterPop rl (render cs) \<longleftrightarrow> rl \<noteq> 0 \<or> tl cs \<noteq> [] \<and> last cs \<noteq> ''..''"
  using assms(1)
proof (cases rule: last_tl_cases)
  case (root r)
  then show ?thesis using assms(2)
    by (cases r rule: rev_cases) (auto simp: seenAfterPop_def strHasSuffix_iff)
next
  case (snoc ds c)
  have tl: "tl cs \<noteq> []" using snoc(1,2) by (cases ds) auto
  then have len: "length (render cs) \<noteq> rl" using length_render(1) [OF assms(1)] by simp
  consider (rel) "rl = 0" "render cs = c" | (sep) xs where "render cs = xs @ slash_char # c"
  proof (cases "tl ds = []")
    case True
    then have r: "render cs = hd ds @ c" using snoc(1,2) by (cases ds) (simp_all add: render_def)
    show thesis
    proof (cases "hd ds" rule: rev_cases)
      case Nil
      then show thesis using r snoc(3) rel by (simp add: okComponents_def)
    next
      case (snoc ys y)
      then have "y = slash_char" using assms(2) \<open>cs = ds @ [c]\<close> \<open>ds \<noteq> []\<close> \<open>okComponents rl ds\<close>
        by (auto simp: okComponents_def)
      then show thesis using r snoc sep by simp
    qed
  next
    case False
    then show thesis using snoc(1,2) sep by (simp add: render_snoc)
  qed
  then show ?thesis
  proof cases
    case rel
    then show ?thesis using len tl snoc(1,5) by (simp add: seenAfterPop_def no_suffix_component)
  next
    case (sep xs)
    then have "slash_char \<in> set (render cs)" by simp
    then have "render cs \<noteq> ''..''" by auto
    then show ?thesis using sep len tl snoc by (auto simp: seenAfterPop_def suffix_component)
  qed
qed

subsection \<open>One segment\<close>

text \<open>\<open>seg\<close> is the segment \<open>f[segStart:segEnd]\<close> of a normalized-slash path.\<close>

definition isSegment :: "string \<Rightarrow> nat \<Rightarrow> nat \<Rightarrow> string \<Rightarrow> bool" where
  "isSegment f segStart segEnd seg \<longleftrightarrow> seg = slice f segStart segEnd \<and> segStart < segEnd \<and> segEnd \<le> length f
     \<and> slash_char \<notin> set seg \<and> (segEnd < length f \<longrightarrow> f ! segEnd = slash_char)"

lemma isSegment_segmentEndFrom:
  assumes "segStart < length f" "f ! segStart \<noteq> slash_char"
  shows "isSegment f segStart (segmentEndFrom f segStart) (slice f segStart (segmentEndFrom f segStart))"
proof (cases "strIndexByte (drop (segStart + 1) f) slash_char")
  case None
  then have "slash_char \<notin> set (drop (segStart + 1) f)" by (simp add: strIndexByte_None)
  then have "slash_char \<notin> set (drop segStart f)"
    using assms by (metis Cons_nth_drop_Suc Suc_eq_plus1 set_ConsD)
  then show ?thesis using None assms
    by (auto simp: isSegment_def segmentEndFrom_def slice_def)
next
  case (Some i)
  note i = strIndexByte_Some [OF Some]
  have "drop segStart f = f ! segStart # drop (segStart + 1) f"
    using assms(1) by (metis Cons_nth_drop_Suc Suc_eq_plus1)
  then have "slash_char \<notin> set (take (Suc i) (drop segStart f))" using i assms(2) by simp
  moreover have "segmentEndFrom f segStart = i + (segStart + 1)" using Some by (simp add: segmentEndFrom_def)
  moreover have "f ! (i + (segStart + 1)) = slash_char" "i + (segStart + 1) < length f"
    using i by (auto simp: add.commute)
  ultimately show ?thesis by (simp add: isSegment_def slice_def Suc_diff_le)
qed

lemma isSegment_facts:
  assumes "isSegment f segStart segEnd seg"
  shows "length seg = segEnd - segStart" "seg \<noteq> []" "take segEnd f = take segStart f @ seg"
    "segEnd - segStart = 1 \<and> f ! segStart = dot_char \<longleftrightarrow> seg = ''.''"
    "segEnd - segStart = 2 \<and> f ! segStart = dot_char \<and> f ! (segStart + 1) = dot_char \<longleftrightarrow> seg = ''..''"
proof -
  have seg: "seg = take (segEnd - segStart) (drop segStart f)" and b: "segStart < segEnd" "segEnd \<le> length f"
    using assms by (simp_all add: isSegment_def slice_def)
  show len: "length seg = segEnd - segStart" using seg b by simp
  then show "seg \<noteq> []" using b by auto
  show "take segEnd f = take segStart f @ seg"
    using seg b take_add [of segStart "segEnd - segStart" f] by simp
  have nth: "seg ! i = f ! (segStart + i)" if "i < segEnd - segStart" for i
    using that seg b by simp
  show "segEnd - segStart = 1 \<and> f ! segStart = dot_char \<longleftrightarrow> seg = ''.''"
    using nth [of 0] len b by (auto simp: length_Suc_conv)
  show "segEnd - segStart = 2 \<and> f ! segStart = dot_char \<and> f ! (segStart + 1) = dot_char \<longleftrightarrow> seg = ''..''"
    using nth [of 0] nth [of 1] len b by (auto simp: length_Suc_conv numeral_2_eq_2)
qed

lemma reduceStep_pop:
  assumes "stInv f rl st cs" "ns_seenNonDotDot st"
  shows "reduceStep cs ''..'' = (if tl cs = [] then cs else butlast cs)"
proof -
  have ok: "okComponents rl cs" using assms(1) by (simp add: stInv_def)
  then have "tl cs \<noteq> [] \<Longrightarrow> rl \<noteq> 0 \<Longrightarrow> last cs \<noteq> ''..''"
    by (metis last_in_set last_tl okComponents_def)
  then show ?thesis using assms reduceStep_cases [OF ok, of "''..''"] by (auto simp: stInv_def)
qed

lemma popTo_render:
  assumes st: "stInv f rl st cs" and nc: "\<not> ns_changed st" and upTo: "tl cs = [] \<longrightarrow> ns_normalizedUpTo st = rl"
    and sep: "rl \<noteq> 0 \<longrightarrow> last (take rl f) = slash_char"
  shows "popTo rl f (strLastIndexByte (take (ns_normalizedUpTo st - 1) f) slash_char) =
    (if tl cs = [] then take rl f else render (butlast cs))"
proof -
  let ?u = "ns_normalizedUpTo st"
  have ok: "okComponents rl cs" and r: "take ?u f = render cs" and u: "?u \<le> length f" and hd: "hd cs = take rl f"
    using st nc by (simp_all add: stInv_def)
  then have len: "length (render cs) = ?u" by (metis length_take min.absorb2)
  show ?thesis
  proof (cases "tl cs = []")
    case True
    then show ?thesis using upTo
      by (auto simp: popTo_def max_def split: option.splits dest!: strLastIndexByte_Some)
  next
    case False
    with ok obtain ds c where c: "cs = ds @ [c]" "ds \<noteq> []" "c \<noteq> []" "slash_char \<notin> set c"
      by (cases rule: last_tl_cases) auto
    then obtain zs z where z: "c = zs @ [z]" "z \<noteq> slash_char" by (cases c rule: rev_cases) auto
    then obtain xs where xs: "render cs = xs @ [z]" using c by (cases "tl ds = []") (simp_all add: render_snoc)
    then have "take (?u - 1) f = xs" using r len by (metis butlast_snoc butlast_take diff_le_self length_append_singleton take_take min.absorb1 add_diff_cancel_right' butlast_conv_take)
    then have i: "strLastIndexByte (take (?u - 1) f) slash_char = strLastIndexByte (render cs) slash_char"
      using xs z(2) by (simp add: strLastIndexByte_append_notin)
    have rl: "rl \<le> ?u" using length_render(2) [OF ok] len by simp
    have "popTo rl f (strLastIndexByte (render cs) slash_char) =
        (case strLastIndexByte (render cs) slash_char of
            Some i \<Rightarrow> take (max rl i) (render cs) | None \<Rightarrow> hd cs)"
      using rl len hd unfolding popTo_def r [symmetric]
      by (auto split: option.splits dest!: strLastIndexByte_Some simp: min_def)
    then show ?thesis using False i render_pop [OF ok] sep hd by simp
  qed
qed

lemma segment_step:
  assumes st: "stInv f rl st cs" and pos: "posInv f rl segStart st cs"
    and seg: "isSegment f segStart segEnd seg" and sep: "rl \<noteq> 0 \<longrightarrow> last (take rl f) = slash_char"
  defines "st' \<equiv> normalizeSegment f rl segStart segEnd st"
  shows "stInv f rl st' (reduceStep cs seg) \<and> posInv f rl (Suc segEnd) st' (reduceStep cs seg)"
proof -
  note segf = isSegment_facts [OF seg]
  have ok: "okComponents rl cs" and hd: "hd cs = take rl f" using st by (simp_all add: stInv_def)
  have sep': "rl \<noteq> 0 \<longrightarrow> last (hd cs) = slash_char" using sep hd by simp
  have segEnd: "segEnd \<le> length f" "segEnd < length f \<longrightarrow> f ! segEnd = slash_char"
    and noslash: "slash_char \<notin> set seg" using seg unfolding isSegment_def by blast+
  have ok': "okComponents rl (reduceStep cs seg)" using ok noslash by (rule okComponents_reduceStep)
  have hd': "hd (reduceStep cs seg) = take rl f"
    using ok hd by (cases cs) (auto simp: reduceStep_def okComponents_def take_Cons')
  have upto: "take segEnd f = render (cs @ [seg])" if "\<not> ns_changed st"
  proof (cases "tl cs = []")
    case True
    then show ?thesis using that st pos segf(3) ok by (auto simp: stInv_def posInv_def render_snoc okComponents_def)
  next
    case False
    let ?u = "ns_normalizedUpTo st"
    have "segStart = Suc ?u" "?u < length f" "f ! ?u = slash_char"
      using False that pos seg by (auto simp: posInv_def isSegment_def)
    then have "take segStart f = render cs @ [slash_char]"
      using that st by (simp add: take_Suc_conv_app_nth stInv_def)
    then show ?thesis using False segf(3) ok by (simp add: render_snoc okComponents_def)
  qed
  have app: "tl (cs @ [x]) \<noteq> []" "last (cs @ [x]) = x" for x :: string
    using ok by (cases cs; simp add: okComponents_def)+
  consider (dot) "seg = ''.''" | (up) "seg = ''..''" "\<not> ns_seenNonDotDot st"
    | (pop) "seg = ''..''" "ns_seenNonDotDot st" | (plain) "seg \<noteq> ''.''" "seg \<noteq> ''..''"
    by blast
  then show ?thesis
  proof cases
    case dot
    then show ?thesis using st segf(4)
      by (auto simp: st'_def normalizeSegment_def Let_def stInv_def posInv_def)
  next
    case up
    then have red: "reduceStep cs seg = cs @ [''..'']" and rl: "rl = 0"
      using st ok reduceStep_cases [OF ok segf(2)] by (auto simp: stInv_def)
    have ncase: "st' = (if ns_changed st
        then st\<lparr>ns_normalized := ns_normalized st @ (if length (ns_normalized st) = rl then ''..'' else ''/..'')\<rparr>
        else st\<lparr>ns_normalizedUpTo := segEnd\<rparr>)"
      using up segf(1,4,5) seg by (auto simp: st'_def normalizeSegment_def Let_def isSegment_def)
    show ?thesis
      using ok' hd' st app ncase upto up red rl segEnd length_render(1) [OF ok] ok
      by (auto simp: stInv_def posInv_def render_snoc okComponents_def)
  next
    case pop
    have red: "render (reduceStep cs seg) = (if tl cs = [] then hd cs else render (butlast cs))"
      using pop(1) reduceStep_pop [OF st pop(2)] by (simp add: render_def)
    have dots: "segEnd - segStart = 2 \<and> f ! segStart = dot_char \<and> f ! (segStart + 1) = dot_char"
      "\<not> (segEnd - segStart = 1 \<and> f ! segStart = dot_char)"
      using segf(4,5) pop(1) by auto
    have norm: "ns_changed st' \<and> ns_normalized st' = render (reduceStep cs seg)
        \<and> ns_seenNonDotDot st' = seenAfterPop rl (ns_normalized st')"
    proof (cases "ns_changed st")
      case True
      then have "ns_normalized st = render cs" using st by (simp add: stInv_def)
      then show ?thesis
        using True pop(2) dots render_pop [OF ok sep'] unfolding red hd
        by (simp add: st'_def normalizeSegment_def Let_def)
    next
      case False
      have u: "tl cs = [] \<longrightarrow> ns_normalizedUpTo st = rl" using pos False by (simp add: posInv_def)
      have u1: "ns_normalizedUpTo st \<ge> 1"
        using False st pop(2) u length_render [OF ok] by (cases "ns_normalizedUpTo st") (auto simp: stInv_def)
      show ?thesis
        using False pop(2) dots u1 popTo_render [OF st False u sep] unfolding red hd
        by (simp add: st'_def normalizeSegment_def Let_def)
    qed
    then show ?thesis using ok' hd' sep seenAfterPop_render [OF ok'] by (auto simp: stInv_def posInv_def)
  next
    case plain
    then have red: "reduceStep cs seg = cs @ [seg]"
      using reduceStep_cases [OF ok segf(2)] by simp
    have ncase: "st' = (if ns_changed st
        then st\<lparr>ns_normalized := (if length (ns_normalized st) \<noteq> rl then ns_normalized st @ ''/'' else ns_normalized st) @ seg,
               ns_seenNonDotDot := True\<rparr>
        else st\<lparr>ns_seenNonDotDot := True, ns_normalizedUpTo := segEnd\<rparr>)"
      using plain segf(4,5) seg by (auto simp: st'_def normalizeSegment_def Let_def isSegment_def)
    show ?thesis
      using ok' hd' st app ncase upto plain red segEnd length_render(1) [OF ok] ok
      by (auto simp: stInv_def posInv_def render_snoc okComponents_def)
  qed
qed

subsection \<open>The whole loop\<close>

lemma skip_separators:
  assumes st: "stInv f rl st cs" and pos: "posInv f rl index st cs" and "index < length f"
    and "index \<le> segStart"
  defines "st1 \<equiv> (if index < segStart \<and> \<not> ns_changed st
    then st\<lparr>ns_normalized := take (max rl (index - 1)) f, ns_changed := True\<rparr> else st)"
  shows "stInv f rl st1 cs" "posInv f rl segStart st1 cs"
proof -
  have ok: "okComponents rl cs" using st by (simp add: stInv_def)
  have "take (max rl (index - 1)) f = render cs" if "\<not> ns_changed st"
  proof (cases "tl cs = []")
    case True
    then show ?thesis using that st pos by (auto simp: stInv_def posInv_def max_def)
  next
    case False
    have "rl \<le> ns_normalizedUpTo st"
      using that st length_render(2) [OF ok] by (metis length_take min.absorb2 stInv_def)
    then show ?thesis using False that st pos by (auto simp: stInv_def posInv_def max_def)
  qed
  then show "stInv f rl st1 cs" "posInv f rl segStart st1 cs"
    using st pos assms(4) by (auto simp: st1_def stInv_def posInv_def)
qed

lemma foldl_reduceStep_segment:
  assumes "isSegment f segStart segEnd seg"
  shows "foldl reduceStep cs (strSplit slash_char (drop segStart f)) =
    foldl reduceStep (reduceStep cs seg) (strSplit slash_char (drop (Suc segEnd) f))"
proof -
  have b: "segStart < segEnd" "segEnd \<le> length f" "slash_char \<notin> set seg" "seg = slice f segStart segEnd"
    and e: "segEnd < length f \<Longrightarrow> f ! segEnd = slash_char"
    using assms by (auto simp: isSegment_def)
  have split: "drop segStart f = seg @ drop segEnd f"
    unfolding b(4) slice_def using b(1)
    by (metis append_take_drop_id drop_drop le_add_diff_inverse2 less_imp_le_nat)
  have "drop segEnd f = [] \<or> hd (drop segEnd f) = slash_char"
    using e by (cases "segEnd < length f") (auto simp: hd_drop_conv_nth)
  then have *: "foldl reduceStep cs (strSplit slash_char (drop segStart f)) =
      foldl reduceStep (reduceStep cs seg) (strSplit slash_char (drop segEnd f))"
    unfolding split using b(3) by (rule foldl_reduceStep_component [rotated])
  show ?thesis
  proof (cases "segEnd < length f")
    case True
    then have "drop segEnd f = slash_char # drop (Suc segEnd) f"
      using e by (metis Cons_nth_drop_Suc)
    then show ?thesis using * by simp
  qed (use * in simp)
qed

lemma drop_takeWhile_slashes:
  "drop (index + length (takeWhile (\<lambda>c. c = slash_char) (drop index f))) f =
   dropWhile (\<lambda>c. c = slash_char) (drop index f)"
  by (metis drop_drop add.commute dropWhile_eq_drop)

lemma normalizeLoop_inv:
  assumes "stInv f rl st cs" "posInv f rl index st cs" "rl \<noteq> 0 \<longrightarrow> last (take rl f) = slash_char"
  shows "\<exists>idx. length f \<le> idx
    \<and> stInv f rl (normalizeLoop f rl index st) (foldl reduceStep cs (strSplit slash_char (drop index f)))
    \<and> posInv f rl idx (normalizeLoop f rl index st) (foldl reduceStep cs (strSplit slash_char (drop index f)))"
  using assms
proof (induction f rl index st arbitrary: cs rule: normalizeLoop.induct)
  case (1 f rl index st)
  show ?case
  proof (cases "index < length f")
    case False
    then have "normalizeLoop f rl index st = st" by (subst normalizeLoop.simps) simp
    then show ?thesis using 1(2,3) False by (intro exI [of _ index]) auto
  next
    case idx: True
    define segStart where "segStart = index + length (takeWhile (\<lambda>c. c = slash_char) (drop index f))"
    define st1 where "st1 = (if index < segStart \<and> \<not> ns_changed st
      then st\<lparr>ns_normalized := take (max rl (index - 1)) f, ns_changed := True\<rparr> else st)"
    have inv1: "stInv f rl st1 cs" "posInv f rl segStart st1 cs"
      using skip_separators [OF 1(2,3) idx, of segStart] by (auto simp: st1_def segStart_def)
    have fold: "foldl reduceStep cs (strSplit slash_char (drop index f)) =
        foldl reduceStep cs (strSplit slash_char (drop segStart f))"
      unfolding segStart_def drop_takeWhile_slashes foldl_reduceStep_dropSlashes ..
    show ?thesis
    proof (cases "segStart < length f")
      case False
      then have "segStart = length f"
        using idx length_takeWhile_le [of "\<lambda>c. c = slash_char" "drop index f"] by (simp add: segStart_def)
      then have "normalizeLoop f rl index st = st1"
        using idx by (subst normalizeLoop.simps) (simp add: Let_def st1_def flip: segStart_def)
      moreover have "ns_changed st1" using idx \<open>segStart = length f\<close> by (simp add: st1_def)
      ultimately show ?thesis using inv1 fold False by (auto simp: posInv_def intro: exI [of _ "length f"])
    next
      case True
      define segEnd where "segEnd = segmentEndFrom f segStart"
      have "f ! segStart \<noteq> slash_char"
        using True hd_dropWhile [of "\<lambda>c. c = slash_char" "drop index f"]
        unfolding drop_takeWhile_slashes [symmetric] segStart_def [symmetric]
        by (simp add: hd_drop_conv_nth)
      then have seg: "isSegment f segStart segEnd (slice f segStart segEnd)"
        unfolding segEnd_def using True by (intro isSegment_segmentEndFrom)
      have eq: "normalizeLoop f rl index st =
          normalizeLoop f rl (segEnd + 1) (normalizeSegment f rl segStart segEnd st1)"
        using idx True by (subst normalizeLoop.simps) (simp add: Let_def flip: segStart_def st1_def segEnd_def)
      have cond: "\<not> (index < segStart \<and> segStart = length f)" using True by simp
      show ?thesis
        unfolding eq fold foldl_reduceStep_segment [OF seg]
        using "1.IH" [OF idx segStart_def st1_def cond segEnd_def] segment_step [OF inv1 seg 1(4)] 1(4)
        by simp
    qed
  qed
qed

text \<open>The loop computes the rendering of the reduced components.\<close>

lemma RemoveTrailing_noop: "p = [] \<or> \<not> isAnyDirectorySeparator (last p) \<Longrightarrow> RemoveTrailingDirectorySeparators p = p"
  by (subst RemoveTrailingDirectorySeparators.simps) (auto simp: HasTrailingDirectorySeparator_def last_conv_nth)

lemma RemoveTrailing_one:
  "p = [] \<or> \<not> isAnyDirectorySeparator (last p) \<Longrightarrow> RemoveTrailingDirectorySeparators (p @ ''/'') = p"
  by (subst RemoveTrailingDirectorySeparators.simps)
    (simp add: HasTrailingDirectorySeparator_def RemoveTrailingDirectorySeparator_def
      isAnyDirectorySeparator_def nth_append RemoveTrailing_noop)

lemma last_render:
  assumes "okComponents rl cs" "tl cs \<noteq> []"
  shows "last (render cs) = last (last cs) \<and> last cs \<noteq> [] \<and> slash_char \<notin> set (last cs)"
  using assms(1)
proof (cases rule: last_tl_cases)
  case (snoc ds c)
  then show ?thesis by (auto simp: render_snoc)
qed (use assms(2) in auto)

lemma normalizeSlow_render:
  assumes rl: "rl < length f" and sep: "rl \<noteq> 0 \<longrightarrow> f ! (rl - 1) = slash_char" and nb: "backslash_char \<notin> set f"
  shows "normalizeSlow f rl = render (reducedComponents f rl)"
proof -
  let ?cs = "reducedComponents f rl"
  define st0 where "st0 = \<lparr>ns_changed = False, ns_normalized = [], ns_normalizedUpTo = rl, ns_seenNonDotDot = (rl \<noteq> 0)\<rparr>"
  define st where "st = normalizeLoop f rl rl st0"
  have last: "rl \<noteq> 0 \<longrightarrow> last (take rl f) = slash_char"
    using rl sep by (cases f) (auto simp: last_conv_nth)
  have "stInv f rl st0 [take rl f]" "posInv f rl rl st0 [take rl f]"
    using rl by (simp_all add: stInv_def posInv_def st0_def)
  from normalizeLoop_inv [OF this last] obtain idx where
    inv: "length f \<le> idx" "stInv f rl st ?cs" "posInv f rl idx st ?cs"
    unfolding st_def reducedComponents_def by blast
  have slow: "normalizeSlow f rl =
      (if ns_changed st then ns_normalized st else RemoveTrailingDirectorySeparators f)"
    using rl unfolding normalizeSlow_def Let_def st_def st0_def by simp
  show ?thesis
  proof (cases "ns_changed st")
    case True
    then show ?thesis using inv(2) slow by (simp add: stInv_def)
  next
    case False
    let ?u = "ns_normalizedUpTo st"
    have ok: "okComponents rl ?cs" and r: "take ?u f = render ?cs" and u: "?u \<le> length f"
      using inv(2) False by (simp_all add: stInv_def)
    have tl: "tl ?cs \<noteq> []" using inv(1,3) False rl by (auto simp: posInv_def)
    then have u2: "length f \<le> Suc ?u" "?u < length f \<longrightarrow> f ! ?u = slash_char"
      using inv(1,3) False by (auto simp: posInv_def)
    have ne: "render ?cs \<noteq> []" using length_render [OF ok] tl by auto
    have "last (render ?cs) \<noteq> slash_char" using last_render [OF ok tl] by (metis last_in_set)
    moreover have "last (render ?cs) \<in> set f" using r ne by (metis in_set_takeD last_in_set)
    ultimately have last: "\<not> isAnyDirectorySeparator (last (render ?cs))"
      using nb by (auto simp: isAnyDirectorySeparator_def)
    have "f = render ?cs \<or> f = render ?cs @ ''/''"
    proof (cases "?u < length f")
      case True
      then have "f = take ?u f @ f ! ?u # []" using u2 by (metis id_take_nth_drop drop_eq_Nil)
      then show ?thesis using True u2 r by simp
    qed (use u r in simp)
    then have "RemoveTrailingDirectorySeparators f = render ?cs"
      using last by (metis RemoveTrailing_noop RemoveTrailing_one)
    then show ?thesis using False slow by simp
  qed
qed

section \<open>The fast paths\<close>

text \<open>The scan for relative segments is the test on the list of segments.\<close>

definition relativeSegments :: "string list \<Rightarrow> bool" where
  "relativeSegments segs \<longleftrightarrow> ''.'' \<in> set segs \<or> ''..'' \<in> set segs \<or> [] \<in> set (butlast (tl segs))"

definition dotsOf :: "string \<Rightarrow> int" where
  "dotsOf pre = (if set pre \<subseteq> {dot_char} then int (length pre) else -1)"

lemma dots_segment: "length pre = 1 \<and> dotsOf pre = 1 \<or> length pre = 2 \<and> dotsOf pre = 2 \<longleftrightarrow> pre = ''.'' \<or> pre = ''..''"
proof -
  have "length pre = 1 \<and> set pre \<subseteq> {dot_char} \<longleftrightarrow> pre = ''.''"
    by (cases pre) auto
  moreover have "length pre = 2 \<and> set pre \<subseteq> {dot_char} \<longleftrightarrow> pre = ''..''"
    by (cases pre; cases "tl pre") auto
  ultimately show ?thesis by (auto simp: dotsOf_def)
qed

lemma dotsOf_snoc:
  "dotsOf (pre @ [c]) = (if c = dot_char then if dotsOf pre \<ge> 0 then dotsOf pre + 1 else dotsOf pre else -1)"
  by (auto simp: dotsOf_def)

lemma relativeSegmentLoop_eq:
  assumes "slash_char \<notin> set pre" "prevSlash \<longrightarrow> pre = []"
  shows "relativeSegmentLoop p prevSlash (length pre) (dotsOf pre) \<longleftrightarrow>
    (let segs = strSplit slash_char (pre @ p) in
     ''.'' \<in> set segs \<or> ''..'' \<in> set segs \<or> [] \<in> set (butlast (if prevSlash then segs else tl segs)))"
  using assms
proof (induction p arbitrary: pre prevSlash)
  case Nil
  then show ?case using dots_segment [of pre] by (auto simp: strSplit_notin)
next
  case (Cons c p)
  show ?case
  proof (cases "c = slash_char")
    case True
    have "relativeSegmentLoop p True 0 0 \<longleftrightarrow> ''.'' \<in> set (strSplit slash_char p)
        \<or> ''..'' \<in> set (strSplit slash_char p) \<or> [] \<in> set (butlast (strSplit slash_char p))"
      using Cons.IH [of "[]" True] by (simp add: dotsOf_def Let_def)
    moreover have "prevSlash \<Longrightarrow> pre = []" using Cons.prems(2) by simp
    ultimately show ?thesis using True dots_segment [of pre] Cons.prems(1)
      by (auto simp: strSplit_append)
  next
    case False
    let ?segs = "strSplit slash_char (pre @ c # p)"
    have hd: "hd ?segs \<noteq> []" using False Cons.prems(1) by (cases pre) auto
    then have "[] \<in> set (butlast ?segs) \<longleftrightarrow> [] \<in> set (butlast (tl ?segs))" by (cases ?segs) auto
    then show ?thesis
      using False Cons.prems Cons.IH [of "pre @ [c]" False] by (auto simp: Let_def dotsOf_snoc)
  qed
qed

lemma relativeSegmentLoop_start:
  "relativeSegmentLoop p False 0 0 \<longleftrightarrow> relativeSegments (strSplit slash_char p)"
  using relativeSegmentLoop_eq [of "[]" False p] by (simp add: relativeSegments_def dotsOf_def Let_def)

lemma strSplit_append_sep:
  "strSplit b (xs @ b # ys) = strSplit b xs @ strSplit b ys"
  by (induction xs) auto

lemma relativeSegments_ends:
  assumes "seg = ''.'' \<or> seg = ''..''"
  shows "relativeSegments (strSplit slash_char seg)"
    and "relativeSegments (strSplit slash_char (seg @ slash_char # q))"
    and "relativeSegments (strSplit slash_char (q @ slash_char # seg))"
  using assms by (auto simp: strSplit_append_sep relativeSegments_def)

lemma length_ge_2_front: "2 \<le> length p \<Longrightarrow> p = p ! 0 # p ! 1 # drop 2 p"
  by (cases p; cases "tl p") auto

lemma length_ge_3_front: "3 \<le> length p \<Longrightarrow> p = p ! 0 # p ! 1 # p ! 2 # drop 3 p"
  by (cases p; cases "tl p"; cases "tl (tl p)") (auto simp: eval_nat_numeral)

lemma hasRelativePathSegment_eq:
  "hasRelativePathSegment p \<longleftrightarrow> relativeSegments (strSplit slash_char p)"
proof -
  have front: "relativeSegments (strSplit slash_char p)" if "\<exists>seg\<in>{''.'', ''..''}. \<exists>q. p = seg @ slash_char # q"
    using that relativeSegments_ends(2) by blast
  have rear: "relativeSegments (strSplit slash_char p)" if "\<exists>seg\<in>{''.'', ''..''}. \<exists>q. p = q @ slash_char # seg"
    using that relativeSegments_ends(3) by blast
  have front2: "relativeSegments (strSplit slash_char p)"
    if "p ! 0 = dot_char" "length p \<ge> 2" "p ! 1 = slash_char"
    using length_ge_2_front [of p] that by (intro front bexI [of _ "''.''"] exI [of _ "drop 2 p"]) simp_all
  have front3: "relativeSegments (strSplit slash_char p)"
    if "p ! 0 = dot_char" "length p \<ge> 3" "p ! 1 = dot_char" "p ! 2 = slash_char"
    using length_ge_3_front [of p] that by (intro front bexI [of _ "''..''"] exI [of _ "drop 3 p"]) simp_all
  have back2: "relativeSegments (strSplit slash_char p)"
    if "p ! (length p - 1) = dot_char" "length p \<ge> 2" "p ! (length p - 2) = slash_char"
  proof -
    have "Suc (length p - 2) = length p - 1" using that(2) by linarith
    then have "drop (length p - 2) p = slash_char # ''.''"
      using length_ge_2_front [of "drop (length p - 2) p"] that by simp
    then have "p = take (length p - 2) p @ slash_char # ''.''" by (metis append_take_drop_id)
    then show ?thesis by (intro rear) blast
  qed
  have back3: "relativeSegments (strSplit slash_char p)"
    if "p ! (length p - 1) = dot_char" "length p \<ge> 3" "p ! (length p - 2) = dot_char" "p ! (length p - 3) = slash_char"
  proof -
    have "Suc (length p - 3) = length p - 2" "Suc (Suc (length p - 3)) = length p - 1" using that(2) by linarith+
    then have "drop (length p - 3) p = slash_char # ''..''"
      using length_ge_3_front [of "drop (length p - 3) p"] that by (simp add: numeral_2_eq_2)
    then have "p = take (length p - 3) p @ slash_char # ''..''" by (metis append_take_drop_id)
    then show ?thesis by (intro rear) blast
  qed
  have "\<not> relativeSegments (strSplit slash_char [])" by (simp add: relativeSegments_def)
  then show ?thesis
    using front2 front3 back2 back3 relativeSegments_ends(1) [of p] relativeSegmentLoop_start [of p]
    unfolding hasRelativePathSegment_def Let_def by (auto split: if_splits)
qed

end
