(* ===== verification/TsPath_Absolute.thy ===== *)
theory TsPath_Absolute
  imports TsPath_Normalize
begin

text \<open>
  \<open>GetNormalizedAbsolutePath\<close> and \<open>NormalizePath\<close> as a whole: both fast paths and the
  copy-avoiding loop give the path of the reduced components.
\<close>

section \<open>A path without relative segments\<close>

definition finishSimple :: "string \<Rightarrow> nat \<Rightarrow> string" where
  "finishSimple p rl =
     (if length p > rl then RemoveTrailingDirectorySeparator p
      else if length p = rl \<and> rl \<noteq> 0 then EnsureTrailingDirectorySeparator p
      else p)"

text \<open>A root of length \<open>rl\<close> as every path with normalized slashes has it.\<close>

definition rootOk :: "string \<Rightarrow> nat \<Rightarrow> bool" where
  "rootOk p rl \<longleftrightarrow> rl \<le> length p \<and> backslash_char \<notin> set p
     \<and> (if rl = 0 then p = [] \<or> p ! 0 \<noteq> slash_char else rl < length p \<longrightarrow> p ! (rl - 1) = slash_char)"

lemma last_take_nth: "0 < n \<Longrightarrow> n \<le> length p \<Longrightarrow> last (take n p) = p ! (n - 1)"
  by (cases p) (auto simp: last_conv_nth)

lemma HasTrailing_last: "HasTrailingDirectorySeparator p \<longleftrightarrow> p \<noteq> [] \<and> isAnyDirectorySeparator (last p)"
  by (cases "p = []") (simp_all add: HasTrailingDirectorySeparator_def last_conv_nth)

lemma RemoveTrailing_slash: "RemoveTrailingDirectorySeparator (q @ ''/'') = q"
  by (simp add: RemoveTrailingDirectorySeparator_def HasTrailing_last isAnyDirectorySeparator_def)

lemma separator_normalized: "backslash_char \<notin> set p \<Longrightarrow> c \<in> set p \<Longrightarrow> isAnyDirectorySeparator c \<longleftrightarrow> c = slash_char"
  by (auto simp: isAnyDirectorySeparator_def)

lemma rootOk_GetRootLength:
  assumes "backslash_char \<notin> set p"
  shows "rootOk p (GetRootLength p)"
proof -
  have "isAnyDirectorySeparator (p ! i) \<longleftrightarrow> p ! i = slash_char" if "i < length p" for i
    using separator_normalized [OF assms nth_mem [OF that]] .
  then show ?thesis
    using assms GetRootLength_le [of p] no_root [of p] root_separator [of p] by (auto simp: rootOk_def)
qed

lemma GetPathFromPathComponents_render:
  assumes "cs \<noteq> []" "hd cs = [] \<or> last (hd cs) = slash_char"
  shows "GetPathFromPathComponents cs = render cs"
  using assms
  by (cases cs) (auto simp: GetPathFromPathComponents_def render_def EnsureTrailingDirectorySeparator_def
      HasTrailing_last isAnyDirectorySeparator_def)

lemma foldl_reduceStep_plain:
  assumes "cs \<noteq> []" "\<forall>x\<in>set xs. x \<noteq> [] \<and> x \<noteq> ''.'' \<and> x \<noteq> ''..''"
  shows "foldl reduceStep cs xs = cs @ xs"
  using assms
proof (induction xs arbitrary: cs)
  case (Cons x xs)
  then show ?case by (auto simp: reduceStep_def)
qed simp

text \<open>What is left of a path without relative segments: only a trailing empty segment can go.\<close>

lemma plain_segments:
  assumes "rootOk p rl" "\<not> hasRelativePathSegment p"
  defines "segs \<equiv> strSplit slash_char (drop rl p)"
  assumes "rl < length p"
  shows "[] \<notin> set (butlast segs)" "''.'' \<notin> set segs" "''..'' \<notin> set segs"
proof -
  let ?all = "strSplit slash_char p"
  have rel: "\<not> relativeSegments ?all" using assms(2) by (simp add: hasRelativePathSegment_eq)
  have "set segs \<subseteq> set ?all \<and> set (butlast segs) \<subseteq> set (butlast ?all) \<and> [] \<notin> set (butlast segs)"
  proof (cases "rl = 0")
    case True
    then have "hd ?all \<noteq> []" using assms(1,4) by (cases p) (auto simp: rootOk_def)
    then have "[] \<in> set (butlast ?all) \<Longrightarrow> [] \<in> set (butlast (tl ?all))" by (cases ?all) (auto split: if_splits)
    then show ?thesis using rel True by (auto simp: segs_def relativeSegments_def)
  next
    case False
    then have "p ! (rl - 1) = slash_char" using assms(1,4) by (simp add: rootOk_def)
    then have "p = take (rl - 1) p @ slash_char # drop rl p"
      using False assms(4) id_take_nth_drop [of "rl - 1" p] by simp
    then have all: "?all = strSplit slash_char (take (rl - 1) p) @ segs"
      using strSplit_append_sep [of slash_char "take (rl - 1) p" "drop rl p"] unfolding segs_def by simp
    have "segs \<noteq> []" unfolding segs_def by simp
    then have "set (butlast segs) \<subseteq> set (butlast (tl ?all))"
      unfolding all by (cases "strSplit slash_char (take (rl - 1) p)") (auto simp: butlast_append)
    then show ?thesis using rel all \<open>segs \<noteq> []\<close> by (auto simp: relativeSegments_def butlast_append)
  qed
  then show "[] \<notin> set (butlast segs)" "''.'' \<notin> set segs" "''..'' \<notin> set segs"
    using rel by (auto simp: relativeSegments_def)
qed

lemma finishSimple_reduced:
  assumes "rootOk p rl" "\<not> hasRelativePathSegment p"
  shows "finishSimple p rl = GetPathFromPathComponents (reducedComponents p rl)"
proof (cases "rl < length p")
  case False
  then have "rl = length p" using assms(1) by (simp add: rootOk_def)
  then show ?thesis
    by (simp add: finishSimple_def reducedComponents_def GetPathFromPathComponents_def)
next
  case True
  let ?segs = "strSplit slash_char (drop rl p)"
  note plain = plain_segments [OF assms True]
  have join: "strJoin ''/'' ?segs = drop rl p" by (rule strJoin_strSplit)
  have root: "take rl p = [] \<or> last (take rl p) = slash_char"
    using assms(1) True by (cases "rl = 0") (auto simp: rootOk_def last_take_nth)
  have nb: "backslash_char \<notin> set p" using assms(1) by (simp add: rootOk_def)
  show ?thesis
  proof (cases "last ?segs = []")
    case False
    then have "[] \<notin> set ?segs" using plain(1) by (metis append_butlast_last_id in_set_conv_decomp_last
          rotate1.simps(2) set_ConsD set_rotate1 strSplit_not_Nil)
    then have red: "reducedComponents p rl = take rl p # ?segs"
      unfolding reducedComponents_def using plain by (subst foldl_reduceStep_plain) auto
    have "last p \<noteq> slash_char"
    proof
      assume "last p = slash_char"
      then have "drop rl p = butlast (drop rl p) @ slash_char # []" using True
        by (metis append_butlast_last_id drop_eq_Nil last_drop leD)
      then show False using False strSplit_append_sep [of slash_char "butlast (drop rl p)" "[]"] by simp
    qed
    moreover have "last p \<in> set p" using True by (cases p) auto
    ultimately have "\<not> isAnyDirectorySeparator (last p)" using nb by (auto simp: separator_normalized)
    then have "RemoveTrailingDirectorySeparator p = p"
      by (simp add: RemoveTrailingDirectorySeparator_def HasTrailing_last)
    then show ?thesis
      using True red root join GetPathFromPathComponents_render [of "take rl p # ?segs"]
      by (simp add: finishSimple_def render_def)
  next
    case l: True
    let ?b = "butlast ?segs"
    have segs: "?segs = ?b @ [[]]" using l by (metis append_butlast_last_id strSplit_not_Nil)
    have "?b \<noteq> []" using join segs True by (metis append_Nil drop_eq_Nil leD strJoin.simps(2))
    then have p: "p = take rl p @ strJoin ''/'' ?b @ ''/''"
      using join segs strJoin_snoc [of ?b "''/''" "[]"] by (metis append_Nil2 append_take_drop_id)
    have red: "reducedComponents p rl = take rl p # ?b"
      unfolding reducedComponents_def using plain in_set_butlastD [of _ ?segs]
      by (subst segs) (simp, subst foldl_reduceStep_plain, auto)
    have "RemoveTrailingDirectorySeparator p = take rl p @ strJoin ''/'' ?b"
      using p RemoveTrailing_slash [of "take rl p @ strJoin ''/'' ?b"] by (metis append_assoc)
    then show ?thesis
      using True red root GetPathFromPathComponents_render [of "take rl p # ?b"]
      by (simp add: finishSimple_def render_def)
  qed
qed

section \<open>Dropping current-directory segments\<close>

abbreviation noDots :: "string list \<Rightarrow> string list" where
  "noDots \<equiv> filter (\<lambda>seg. seg \<noteq> ''.'')"

lemma noDots_hd_tl:
  "hd xs = hd ys \<Longrightarrow> noDots (tl xs) = noDots (tl ys) \<Longrightarrow> xs \<noteq> [] \<Longrightarrow> ys \<noteq> [] \<Longrightarrow> noDots xs = noDots ys"
  by (cases xs; cases ys) auto

lemma strReplaceAll_segments:
  defines "R \<equiv> \<lambda>s. strReplaceAll s ''/./'' ''/''"
  shows "hd (strSplit slash_char (R s)) = hd (strSplit slash_char s)
    \<and> noDots (tl (strSplit slash_char (R s))) = noDots (tl (strSplit slash_char s))
    \<and> last (strSplit slash_char (R s)) = last (strSplit slash_char s)
    \<and> (tl (strSplit slash_char (R s)) = [] \<longleftrightarrow> tl (strSplit slash_char s) = [])"
proof (induction "length s" arbitrary: s rule: less_induct)
  case less
  have full: "noDots (strSplit slash_char (R t)) = noDots (strSplit slash_char t)"
    "last (strSplit slash_char (R t)) = last (strSplit slash_char t)" if "length t < length s" for t
    using less [OF that] by (auto intro: noDots_hd_tl)
  show ?case
  proof (cases s)
    case Nil
    then show ?thesis by (simp add: R_def)
  next
    case (Cons c s')
    show ?thesis
    proof (cases "strHasPrefix s ''/./''")
      case True
      then obtain t where t: "s = ''/./'' @ t" by (auto simp: strHasPrefix_iff)
      then have "R s = slash_char # R t" by (simp add: R_def)
      then show ?thesis using t full [of t] by simp
    next
      case False
      then have "R s = c # R s'" using Cons by (auto simp: R_def)
      then show ?thesis using Cons full [of s'] less [of s'] by (auto simp: last_tl)
    qed
  qed
qed

lemma set_strReplaceAll: "set (strReplaceAll s old new) \<subseteq> set s \<union> set new"
proof (induction s old new rule: strReplaceAll.induct)
  case (2 c s old new)
  then show ?case using set_drop_subset [of "length old" "c # s"] by (auto split: if_splits)
qed simp

lemma in_butlast_split: "x \<in> set (butlast xs) \<Longrightarrow> \<exists>A B. xs = A @ x # B \<and> B \<noteq> []"
proof -
  assume x: "x \<in> set (butlast xs)"
  then obtain A C where "butlast xs = A @ x # C" by (metis split_list)
  moreover have "xs \<noteq> []" using x by auto
  ultimately have "xs = A @ x # (C @ [last xs])" by (metis append_butlast_last_id append_Cons append_assoc)
  then show ?thesis by blast
qed

lemma trimmed_segments:
  fixes f
  defines "simplified \<equiv> strReplaceAll f ''/./'' ''/''"
  defines "t \<equiv> strTrimPrefix simplified ''./''"
  assumes rel: "\<not> hasRelativePathSegment t" and pre: "\<not> (t \<noteq> simplified \<and> strHasPrefix t ''/'')"
  shows "strSplit slash_char t = noDots (strSplit slash_char f)"
    and "[] \<notin> set (butlast (tl (strSplit slash_char f)))"
    and "last (strSplit slash_char f) \<noteq> ''.''"
proof -
  let ?S = "strSplit slash_char"
  note seg = strReplaceAll_segments [of f, folded simplified_def]
  have nodot: "''.'' \<notin> set (?S t)" "[] \<notin> set (butlast (tl (?S t)))"
    using rel by (simp_all add: hasRelativePathSegment_eq relativeSegments_def)
  have hdtl: "?S f = hd (?S f) # tl (?S f)" "?S simplified = hd (?S simplified) # tl (?S simplified)" by simp_all
  have "?S t = noDots (?S f) \<and> last (?S f) = last (?S t) \<and> (hd (?S f) \<noteq> ''.'' \<or> \<not> strHasPrefix t ''/'')"
  proof (cases "t = simplified")
    case True
    have "hd (?S t) \<noteq> ''.''" using nodot(1) by (metis list.set_sel(1) strSplit_not_Nil)
    moreover have "noDots (?S t) = ?S t" using nodot(1) by (auto simp: filter_id_conv)
    moreover have "noDots (?S f) = noDots (?S simplified)" using seg by (auto intro: noDots_hd_tl)
    ultimately show ?thesis using seg True by simp
  next
    case False
    then have "simplified = ''./'' @ t" by (auto simp: t_def strTrimPrefix_def strHasPrefix_iff split: if_splits)
    then have s: "?S simplified = ''.'' # ?S t" by simp
    moreover have "noDots (?S t) = ?S t" using nodot(1) by (auto simp: filter_id_conv)
    moreover have "noDots (?S f) = noDots (?S simplified)" using seg by (auto intro: noDots_hd_tl)
    ultimately have "?S t = noDots (?S f)" by simp
    moreover have "last (?S f) = last (?S t)" using seg unfolding s by simp
    ultimately show ?thesis using False pre by blast
  qed
  then have eq: "?S t = noDots (?S f)" and lasteq: "last (?S f) = last (?S t)"
    and hd: "hd (?S f) \<noteq> ''.'' \<or> \<not> strHasPrefix t ''/''" by blast+
  show last: "last (?S f) \<noteq> ''.''" using nodot(1) lasteq by (metis last_in_set strSplit_not_Nil)
  show "[] \<notin> set (butlast (tl (?S f)))"
  proof
    assume "[] \<in> set (butlast (tl (?S f)))"
    from in_butlast_split [OF this] obtain A B where tl: "tl (?S f) = A @ [] # B" "B \<noteq> []"
      by (elim exE conjE)
    then have "last (?S f) = last B" by (subst hdtl(1)) simp
    then have "last B \<noteq> ''.''" using last by simp
    then have B: "noDots B \<noteq> []" 
      using last_in_set [OF tl(2)] by (auto simp: filter_empty_conv)
    have St: "?S t = noDots [hd (?S f)] @ noDots A @ [] # noDots B"
      using tl(1) unfolding eq by (subst hdtl(1)) simp
    show False
    proof (cases "noDots [hd (?S f)] @ noDots A")
      case Nil
      then have "hd (?S t) = []" "tl (?S t) \<noteq> []" "hd (?S f) = ''.''" using St B by (auto split: if_splits)
      then have "strHasPrefix t ''/''" by (cases t) (auto split: if_splits)
      then show False using hd \<open>hd (?S f) = ''.''\<close> by simp
    next
      case (Cons x xs)
      then have "?S t = (x # xs) @ [] # noDots B" using St by (metis append_assoc)
      then have "[] \<in> set (butlast (tl (?S t)))" using B by (auto simp: butlast_append)
      then show False using nodot(2) by simp
    qed
  qed
  show "?S t = noDots (?S f)" by (rule eq)
qed

lemma scheme_inner_empty:
  assumes "strIndex p ''://'' = Some i"
  shows "[] \<in> set (butlast (tl (strSplit slash_char p)))"
proof -
  obtain b where "drop i p = '':'' @ slash_char # slash_char # b"
    using strIndex_Some [OF assms] by (auto simp: strHasPrefix_iff)
  then have "p = (take i p @ '':'') @ slash_char # slash_char # b"
    by (metis append.assoc append_take_drop_id)
  then have "strSplit slash_char p = strSplit slash_char (take i p @ '':'') @ [] # strSplit slash_char b"
    by (metis strSplit.simps(2) strSplit_append_sep)
  then show ?thesis by (cases "strSplit slash_char (take i p @ '':'')") (simp_all add: butlast_append)
qed

text \<open>A path with no empty inner segment has an empty root, or one that is its first segment.\<close>

lemma root_first_segment:
  assumes nb: "backslash_char \<notin> set p" and inner: "[] \<notin> set (butlast (tl (strSplit slash_char p)))"
    and rl: "GetRootLength p \<noteq> 0"
  shows "length p = 2 \<and> p ! 1 = CHR '':'' \<or>
    (\<exists>h t. p = h @ slash_char # t \<and> slash_char \<notin> set h \<and> h \<noteq> ''.'' \<and> GetRootLength p = Suc (length h))"
proof (cases p)
  case Nil
  then show ?thesis using rl by (simp add: GetRootLength_def GetEncodedRootLength_def)
next
  case (Cons c q)
  have len: "strIndex p ''://'' = None" 
    using scheme_inner_empty [of p] inner by (cases "strIndex p ''://''") auto
  have c: "c \<noteq> backslash_char" using nb Cons by auto
  note root = GetRootLength_def GetEncodedRootLength_def Let_def
  consider (slash) "c = slash_char" | (vol2) "c \<noteq> slash_char" "IsVolumeCharacter c" "q = '':''"
    | (vol3) r where "c \<noteq> slash_char" "IsVolumeCharacter c" "q = CHR '':'' # slash_char # r"
    | (dyn) r where "c = CHR ''^''" "q = slash_char # r"
    | (none) "GetEncodedRootLength p = 0"
  proof -
    have q: "\<exists>d r. q = CHR '':'' # d # r \<and> p ! 2 = d \<and> d \<noteq> backslash_char"
      if "p ! 1 = CHR '':''" "length p \<noteq> 2" "1 < length p"
      using that Cons nb by (cases q; cases "tl q") auto
    have "GetEncodedRootLength p = 0" if "c \<noteq> slash_char"
      "\<not> (IsVolumeCharacter c \<and> 1 < length p \<and> p ! 1 = CHR '':'' \<and> length p = 2)"
      "\<not> (IsVolumeCharacter c \<and> 1 < length p \<and> p ! 1 = CHR '':'' \<and> (p ! 2 = slash_char \<or> p ! 2 = backslash_char))"
      "\<not> (c = CHR ''^'' \<and> 1 < length p \<and> p ! 1 = slash_char)"
      unfolding GetEncodedRootLength_def Let_def using that Cons c len by (auto simp del: strIndex.simps)
    moreover have "q = '':''" if "1 < length p" "p ! 1 = CHR '':''" "length p = 2"
      using that Cons by (cases q) auto
    moreover have "\<exists>r. q = slash_char # r" if "1 < length p" "p ! 1 = slash_char"
      using that Cons by (cases q) auto
    ultimately show thesis using slash vol2 vol3 dyn none q by metis
  qed
  then show ?thesis
  proof cases
    case slash
    have "\<not> (\<exists>r. q = slash_char # r)" using inner Cons slash by auto
    then have "GetRootLength p = 1" using Cons slash c by (cases q) (auto simp: root)
    then show ?thesis using Cons slash by (intro disjI2 exI [of _ "[]"] exI [of _ q]) simp
  next
    case vol2
    then show ?thesis using Cons by simp
  next
    case (vol3 r)
    then have "GetRootLength p = 3" using Cons c by (auto simp: root)
    then show ?thesis using Cons vol3 by (intro disjI2 exI [of _ "[c, CHR '':'']"] exI [of _ r]) auto
  next
    case (dyn r)
    then have "GetRootLength p = 2" using Cons by (auto simp: root IsVolumeCharacter_def)
    then show ?thesis using Cons dyn by (intro disjI2 exI [of _ "''^''"] exI [of _ r]) auto
  next
    case none
    then show ?thesis using rl by (simp add: root)
  qed
qed

lemma foldl_reduceStep_noDots: "foldl reduceStep cs (noDots xs) = foldl reduceStep cs xs"
  by (induction xs arbitrary: cs) auto

lemma trimmed_reduced:
  fixes f
  defines "simplified \<equiv> strReplaceAll f ''/./'' ''/''"
  defines "t \<equiv> strTrimPrefix simplified ''./''"
  assumes nb: "backslash_char \<notin> set f" and relf: "hasRelativePathSegment f"
    and rel: "\<not> hasRelativePathSegment t" and pre: "\<not> (t \<noteq> simplified \<and> strHasPrefix t ''/'')"
  shows "reducedComponents t (GetRootLength f) = reducedComponents f (GetRootLength f)" (is ?red)
    and "rootOk t (GetRootLength f)" (is ?ok)
proof -
  let ?S = "strSplit slash_char"
  note seg = trimmed_segments [of f, folded simplified_def, folded t_def, OF rel pre]
  have "set t \<subseteq> set simplified" by (auto simp: t_def strTrimPrefix_def dest: in_set_dropD)
  then have nbt: "backslash_char \<notin> set t" using nb set_strReplaceAll [of f "''/./''" "''/''"] by (auto simp: simplified_def)
  have "?red \<and> ?ok"
  proof (cases "GetRootLength f = 0")
    case True
    have "t ! 0 \<noteq> slash_char" if "t \<noteq> []"
    proof
      assume "t ! 0 = slash_char"
      then obtain q where t: "t = slash_char # q" using \<open>t \<noteq> []\<close> by (metis hd_conv_nth list.collapse)
      then have "t = simplified" using pre by simp
      then have "hd (?S f) = []" 
        using strReplaceAll_segments [of f, folded simplified_def] t by (metis list.sel(1) strSplit.simps(2))
      then have "f = []" using no_root [OF True] by (cases f) auto
      then show False using relf by (simp add: hasRelativePathSegment_def)
    qed
    then show ?thesis using True nbt seg(1) by (auto simp: reducedComponents_def rootOk_def foldl_reduceStep_noDots)
  next
    case False
    have "\<not> (length f = 2 \<and> f ! 1 = CHR '':'')"
    proof
      assume "length f = 2 \<and> f ! 1 = CHR '':''"
      then obtain c where "f = [c, CHR '':'']" by (auto simp: length_Suc_conv numeral_2_eq_2)
      then show False using relf by (auto simp: hasRelativePathSegment_def split: if_splits)
    qed
    then obtain h r where h: "f = h @ slash_char # r" "slash_char \<notin> set h" "h \<noteq> ''.''" "GetRootLength f = Suc (length h)"
      using root_first_segment [OF nb seg(2) False] by blast
    have Sf: "?S f = h # ?S r" using h by (simp add: strSplit_append)
    have ne: "noDots (?S r) \<noteq> []"
      using seg(3) last_in_set [OF strSplit_not_Nil, of slash_char r] unfolding Sf by (auto simp: filter_empty_conv)
    have St: "?S t = h # noDots (?S r)" using seg(1) Sf h(3) by simp
    have t: "t = h @ slash_char # strJoin ''/'' (noDots (?S r))"
      using strJoin_strSplit [of slash_char t] ne unfolding St by (simp add: strJoin_Cons)
    have "?S (strJoin ''/'' (noDots (?S r))) = noDots (?S r)"
      using ne strSplit_elem [of _ slash_char r] by (intro strSplit_strJoin) auto
    then have ?red using t h by (simp add: reducedComponents_def foldl_reduceStep_noDots)
    moreover have ?ok using nbt t h(4) by (simp add: rootOk_def nth_append)
    ultimately show ?thesis ..
  qed
  then show ?red and ?ok by blast+
qed

section \<open>The normalized absolute path\<close>

lemma simple_reduced:
  assumes nb: "backslash_char \<notin> set f" and simple: "simpleNormalizePath f = Some s"
  shows "finishSimple s (GetRootLength f) = GetPathFromPathComponents (reducedComponents f (GetRootLength f))"
proof (cases "hasRelativePathSegment f")
  case False
  then show ?thesis using simple finishSimple_reduced [OF rootOk_GetRootLength [OF nb]]
    by (simp add: simpleNormalizePath_def)
next
  case True
  then show ?thesis using simple finishSimple_reduced trimmed_reduced [OF nb True]
    by (auto simp: simpleNormalizePath_def Let_def split: if_splits)
qed

lemma hd_foldl_reduceStep: "cs \<noteq> [] \<Longrightarrow> hd (foldl reduceStep cs xs) = hd cs"
proof (induction xs arbitrary: cs)
  case (Cons x xs)
  then have "reduceStep cs x \<noteq> []" "hd (reduceStep cs x) = hd cs"
    by (auto simp: reduceStep_def hd_append split: if_splits)
  then show ?case using Cons by simp
qed simp

lemma hd_reducedComponents: "hd (reducedComponents p rl) = take rl p"
  by (simp add: reducedComponents_def hd_foldl_reduceStep)

lemma slow_reduced:
  assumes nb: "backslash_char \<notin> set f" and "f \<noteq> []"
  shows "normalizeSlow f (GetRootLength f) = GetPathFromPathComponents (reducedComponents f (GetRootLength f))"
proof -
  let ?rl = "GetRootLength f"
  note ok = rootOk_GetRootLength [OF nb]
  show ?thesis
  proof (cases "?rl < length f")
    case True
    then have sep: "?rl \<noteq> 0 \<longrightarrow> f ! (?rl - 1) = slash_char" using ok by (auto simp: rootOk_def)
    note hd = hd_reducedComponents [of f ?rl]
    have "reducedComponents f ?rl \<noteq> []"
      using okComponents_reducedComponents [of ?rl f] True by (simp add: okComponents_def)
    moreover have "hd (reducedComponents f ?rl) = [] \<or> last (hd (reducedComponents f ?rl)) = slash_char"
      using True sep unfolding hd by (cases "?rl = 0") (simp_all add: last_take_nth)
    ultimately show ?thesis
      using True sep nb by (simp add: normalizeSlow_render GetPathFromPathComponents_render)
  next
    case False
    then have rl: "?rl = length f" using GetRootLength_le [of f] by simp
    then show ?thesis using assms(2)
      by (simp add: normalizeSlow_def normalizeLoop.simps reducedComponents_def GetPathFromPathComponents_def)
  qed
qed

lemma strIndex_NormalizeSlashes:
  "strIndex p ''://'' \<noteq> None \<Longrightarrow> strIndex (NormalizeSlashes p) ''://'' \<noteq> None"
  by (induction p) (auto simp: NormalizeSlashes_def strHasPrefix_iff split: if_splits)

lemma rootless:
  "GetRootLength p = 0 \<longleftrightarrow> p = [] \<or>
     \<not> isAnyDirectorySeparator (p ! 0)
     \<and> \<not> (IsVolumeCharacter (p ! 0) \<and> 1 < length p \<and> p ! 1 = CHR '':'' \<and> (length p = 2 \<or> isAnyDirectorySeparator (p ! 2)))
     \<and> \<not> (p ! 0 = CHR ''^'' \<and> 1 < length p \<and> p ! 1 = slash_char)
     \<and> strIndex p ''://'' = None"
proof -
  have enc: "GetRootLength p = 0 \<longleftrightarrow> GetEncodedRootLength p = 0"
    by (rule GetEncodedRootLength_cases [of p]) (simp_all add: GetRootLength_def Let_def complement_def)
  have url: "urlRootLength p i \<noteq> 0" if "strIndex p ''://'' = Some i" for i
    by (rule urlRootLength_cases [OF that]) (simp add: complement_def)
  show ?thesis unfolding enc GetEncodedRootLength_def Let_def isAnyDirectorySeparator_def
    using url by (cases "strIndex p ''://''") (auto split: option.splits)
qed

lemma GetRootLength_NormalizeSlashes:
  assumes "GetRootLength (NormalizeSlashes p) = 0"
  shows "GetRootLength p = 0"
proof -
  let ?n = "NormalizeSlashes p"
  have nth: "?n ! i = (if p ! i = backslash_char then slash_char else p ! i)" if "i < length p" for i
    using that by (simp add: NormalizeSlashes_def)
  have sep: "isAnyDirectorySeparator (?n ! i) \<longleftrightarrow> isAnyDirectorySeparator (p ! i)" if "i < length p" for i
    using nth [OF that] by (auto simp: isAnyDirectorySeparator_def)
  have same: "?n ! i = p ! i" if "i < length p" "\<not> isAnyDirectorySeparator (p ! i)" for i
    using nth [OF that(1)] that(2) by (auto simp: isAnyDirectorySeparator_def)
  show ?thesis
  proof (cases "p = []")
    case False
    then have len: "0 < length p" by simp
    have n: "\<not> isAnyDirectorySeparator (p ! 0)" "?n ! 0 = p ! 0"
      using assms False sep [OF len] same [OF len] by (auto simp: rootless)
    have "?n ! 1 = p ! 1" if "1 < length p" "p ! 1 = CHR '':'' \<or> p ! 1 = slash_char"
      using nth [OF that(1)] that(2) by auto
    moreover have "isAnyDirectorySeparator (?n ! 2)" if "length p \<noteq> 2" "1 < length p" "isAnyDirectorySeparator (p ! 2)"
      using sep [of 2] that by linarith
    moreover have "strIndex p ''://'' = None"
      using strIndex_NormalizeSlashes [of p] assms False unfolding rootless NormalizeSlashes_simps
      by (cases "strIndex p ''://''") (simp_all del: strIndex.simps)
    ultimately show ?thesis using assms n False unfolding rootless by (auto simp del: strIndex.simps)
  qed (simp add: rootless)
qed

text \<open>Combining with the current directory is the same as what \<open>GetNormalizedAbsolutePath\<close> does.\<close>

lemma CombinePaths_absolute:
  "CombinePaths cwd [f] =
     (if GetRootLength f = 0 \<and> cwd \<noteq> [] then CombinePaths cwd [f] else NormalizeSlashes f)"
proof (cases "cwd = []")
  case True
  then show ?thesis by (simp add: CombinePaths_def Let_def)
next
  case False
  show ?thesis
  proof (cases "GetRootLength f = 0")
    case False
    then have "GetRootLength (NormalizeSlashes f) \<noteq> 0" "f \<noteq> []"
      using GetRootLength_NormalizeSlashes [of f] rootless [of "[]"] by auto
    then show ?thesis using False by (simp add: CombinePaths_def Let_def)
  qed (use False in simp)
qed

lemma backslash_CombinePaths: "backslash_char \<notin> set (CombinePaths cwd [f])"
  by (auto simp: CombinePaths_def Let_def dest!: in_set_dropD)

lemma GetNormalizedAbsolutePath_reduced:
  "GetNormalizedAbsolutePath f cwd =
     GetPathFromPathComponents (reducedComponents (CombinePaths cwd [f]) (GetRootLength (CombinePaths cwd [f])))"
proof -
  define p where "p = CombinePaths cwd [f]"
  have nb: "backslash_char \<notin> set p" unfolding p_def by (rule backslash_CombinePaths)
  have eq: "GetNormalizedAbsolutePath f cwd =
      (case simpleNormalizePath p of Some s \<Rightarrow> finishSimple s (GetRootLength p)
       | None \<Rightarrow> normalizeSlow p (GetRootLength p))"
    unfolding GetNormalizedAbsolutePath_def Let_def finishSimple_def p_def
    using CombinePaths_absolute [of cwd f] by (simp only: split: option.splits)
  show ?thesis
  proof (cases "simpleNormalizePath p")
    case None
    then have "p \<noteq> []" by (auto simp: simpleNormalizePath_def hasRelativePathSegment_def)
    then show ?thesis unfolding eq using None slow_reduced [OF nb] by (simp flip: p_def)
  next
    case (Some s)
    then show ?thesis unfolding eq using simple_reduced [OF nb Some] by (simp flip: p_def)
  qed
qed

text \<open>C1. The optimised normalization is the component algorithm: with its two fast paths and its
  copy-avoiding loop, \<open>GetNormalizedAbsolutePath\<close> returns, for every file name and current
  directory, the path of the reduced components.\<close>

theorem GetNormalizedAbsolutePath_components:
  "GetNormalizedAbsolutePath fileName currentDirectory =
     GetPathFromPathComponents (reducePathComponents (GetPathComponents fileName currentDirectory))"
  by (simp add: GetNormalizedAbsolutePath_reduced GetPathComponents_def reducePathComponents_pathComponents Let_def)

section \<open>NormalizePath\<close>

lemma last_split_trailing: "p \<noteq> [] \<Longrightarrow> last (strSplit slash_char p) = [] \<longleftrightarrow> last p = slash_char"
proof
  assume ne: "p \<noteq> []" and "last p = slash_char"
  then have "p = butlast p @ slash_char # []" by (metis append_butlast_last_id)
  then have "strSplit slash_char p = strSplit slash_char (butlast p) @ [[]]"
    by (metis strSplit.simps(1) strSplit_append_sep)
  then show "last (strSplit slash_char p) = []" by simp
next
  assume ne: "p \<noteq> []" and l: "last (strSplit slash_char p) = []"
  then have S: "strSplit slash_char p = butlast (strSplit slash_char p) @ [[]]"
    by (metis append_butlast_last_id strSplit_not_Nil)
  then have "butlast (strSplit slash_char p) \<noteq> []" using ne strJoin_strSplit [of slash_char p]
    by (metis append_Nil strJoin.simps(2))
  then have "p = strJoin ''/'' (butlast (strSplit slash_char p)) @ ''/''"
    using S strJoin_strSplit [of slash_char p] strJoin_snoc [of "butlast (strSplit slash_char p)" "''/''" "[]"] by simp
  then show "last p = slash_char" by (metis last_snoc)
qed

lemma finishSimple_trailing:
  assumes ok: "rootOk s rl" and ne: "s \<noteq> []" and root: "length s = rl \<longrightarrow> last s = slash_char"
    and rel: "\<not> hasRelativePathSegment s"
  shows "finishSimple s rl \<noteq> [] \<and> s =
    (if last s = slash_char then EnsureTrailingDirectorySeparator (finishSimple s rl) else finishSimple s rl)"
proof (cases "last s = slash_char \<and> rl < length s")
  case False
  have sep: "HasTrailingDirectorySeparator s \<longleftrightarrow> last s = slash_char"
    using ok ne separator_normalized [of s "last s"] by (simp add: HasTrailing_last rootOk_def)
  have le: "rl \<le> length s" using ok by (simp add: rootOk_def)
  then have "finishSimple s rl = s"
    using False root sep
    by (auto simp: finishSimple_def EnsureTrailingDirectorySeparator_def RemoveTrailingDirectorySeparator_def)
  then show ?thesis using ne sep by (simp add: EnsureTrailingDirectorySeparator_def)
next
  case True
  then obtain q where q: "s = q @ ''/''" using ne by (metis append_butlast_last_id)
  then have fin: "finishSimple s rl = q" using True by (simp add: finishSimple_def RemoveTrailing_slash)
  have qne: "q \<noteq> []" using True q ok by (cases "rl = 0") (auto simp: rootOk_def)
  have "last q \<noteq> slash_char"
  proof
    assume "last q = slash_char"
    then obtain q' where "s = q' @ slash_char # slash_char # []" using q qne by (metis append_butlast_last_id append.assoc append_Cons append_Nil)
    then have "strSplit slash_char s = strSplit slash_char q' @ [[], []]" by (simp add: strSplit_append_sep)
    then show False using rel
      by (cases "strSplit slash_char q'") (auto simp: hasRelativePathSegment_eq relativeSegments_def butlast_append)
  qed
  then have "\<not> isAnyDirectorySeparator (last q)"
    using ok q last_in_set [OF qne] by (auto simp: isAnyDirectorySeparator_def rootOk_def)
  then show ?thesis using True q fin qne by (simp add: EnsureTrailingDirectorySeparator_def HasTrailing_last)
qed

lemma last_filter: "xs \<noteq> [] \<Longrightarrow> P (last xs) \<Longrightarrow> last (filter P xs) = last xs"
  by (induction xs rule: rev_induct) auto

lemma NormalizePath_simple:
  assumes nb: "backslash_char \<notin> set p" and simple: "simpleNormalizePath p = Some s"
    and vol: "\<not> (length p = 2 \<and> p ! 1 = CHR '':'')"
  defines "n \<equiv> finishSimple s (GetRootLength p)"
  shows "s = (if n \<noteq> [] \<and> HasTrailingDirectorySeparator p then EnsureTrailingDirectorySeparator n else n)"
proof (cases "s = []")
  case True
  then have "n = []" by (auto simp: n_def finishSimple_def)
  then show ?thesis using True by simp
next
  case False
  let ?S = "strSplit slash_char"
  let ?rl = "GetRootLength p"
  have pne: "p \<noteq> []" using simple False by (auto simp: simpleNormalizePath_def hasRelativePathSegment_def)
  have trail: "HasTrailingDirectorySeparator p \<longleftrightarrow> last (?S p) = []"
    using separator_normalized [OF nb last_in_set [OF pne]] pne last_split_trailing [OF pne] by (simp add: HasTrailing_last)
  have s: "rootOk s ?rl \<and> \<not> hasRelativePathSegment s \<and> last (?S s) = last (?S p)
      \<and> take ?rl s = take ?rl p \<and> [] \<notin> set (butlast (tl (?S p)))"
  proof (cases "hasRelativePathSegment p")
    case True
    define t where "t = strTrimPrefix (strReplaceAll p ''/./'' ''/'') ''./''"
    have t: "s = t" "\<not> hasRelativePathSegment t" "\<not> (t \<noteq> strReplaceAll p ''/./'' ''/'' \<and> strHasPrefix t ''/'')"
      using True simple by (auto simp: simpleNormalizePath_def Let_def t_def split: if_splits)
    note seg = trimmed_segments [of p, folded t_def, OF t(2,3)]
    have "last (?S t) = last (?S p)"
      unfolding seg(1) using seg(3) by (simp add: last_filter)
    then show ?thesis
      using t seg(2) trimmed_reduced [OF nb True, folded t_def, OF t(2,3)] by (metis hd_reducedComponents)
  next
    case False
    then show ?thesis using simple rootOk_GetRootLength [OF nb]
      by (auto simp: simpleNormalizePath_def hasRelativePathSegment_eq relativeSegments_def)
  qed
  have "last s = slash_char" if "length s = ?rl"
  proof -
    have "?rl \<noteq> 0" using that False by (metis length_0_conv)
    then obtain h r where "p = h @ slash_char # r" "?rl = Suc (length h)"
      using root_first_segment [OF nb, of] s vol by blast
    then have "take ?rl p = h @ ''/''" by simp
    then have "s = h @ ''/''" using s that by (metis order_refl take_all)
    then show ?thesis by simp
  qed
  then show ?thesis
    using finishSimple_trailing [of s ?rl] s False trail last_split_trailing [OF False] unfolding n_def by auto
qed

text \<open>C34. \<open>NormalizePath\<close> is the normalized path with the trailing separator of its input kept. The
  only exception is a bare volume \<open>c:\<close>, which \<open>NormalizePath\<close> leaves alone and
  \<open>GetNormalizedAbsolutePath\<close> completes to \<open>c:/\<close>.\<close>

theorem NormalizePath_eq:
  assumes "\<not> (length path = 2 \<and> path ! 1 = CHR '':'')"
  shows "NormalizePath path =
    (let normalized = GetNormalizedAbsolutePath path [] in
     if normalized \<noteq> [] \<and> HasTrailingDirectorySeparator path
     then EnsureTrailingDirectorySeparator normalized else normalized)"
proof -
  let ?p = "NormalizeSlashes path"
  have abs: "GetNormalizedAbsolutePath path [] = GetNormalizedAbsolutePath ?p []"
    using CombinePaths_absolute [of "[]"] by (simp add: GetNormalizedAbsolutePath_reduced)
  have trail: "HasTrailingDirectorySeparator path = HasTrailingDirectorySeparator ?p"
    by (auto simp: HasTrailingDirectorySeparator_def NormalizeSlashes_def isAnyDirectorySeparator_def)
  have vol: "\<not> (length ?p = 2 \<and> ?p ! 1 = CHR '':'')" using assms by (auto simp: NormalizeSlashes_def split: if_splits)
  show ?thesis
  proof (cases "simpleNormalizePath ?p")
    case None
    then show ?thesis unfolding NormalizePath_def abs trail by (simp add: Let_def)
  next
    case (Some s)
    then have "GetNormalizedAbsolutePath ?p [] = finishSimple s (GetRootLength ?p)"
      by (simp add: GetNormalizedAbsolutePath_def finishSimple_def Let_def)
    then show ?thesis using NormalizePath_simple [OF _ Some vol] Some
      unfolding NormalizePath_def abs trail by (simp add: Let_def)
  qed
qed

theorem NormalizePath_eq_witness:
  "NormalizePath ''/a/./b/../c/'' = ''/a/c/''"
proof -
  have "\<not> (length ''/a/./b/../c/'' = 2 \<and> ''/a/./b/../c/'' ! 1 = CHR '':'')" by simp
  note NormalizePath_eq [OF this]
  also have "(let normalized = GetNormalizedAbsolutePath ''/a/./b/../c/'' [] in
     if normalized \<noteq> [] \<and> HasTrailingDirectorySeparator ''/a/./b/../c/''
     then EnsureTrailingDirectorySeparator normalized else normalized) = ''/a/c/''" by code_simp
  finally show ?thesis .
qed

end
