(* ===== verification/TsPath_Relative.thy ===== *)
theory TsPath_Relative
  imports TsPath_Absolute
begin

text \<open>
  The rest of \<open>internal/tspath/path.go\<close>: directory and base names, canonical names, relative
  paths, extensions, comparison and containment of paths, and the walk up the directories.
  \<open>GetCommonParents\<close> is not here: it depends on how Go slices share their arrays.
\<close>

section \<open>Directory and base name\<close>

definition GetDirectoryPath :: "string \<Rightarrow> string" where
  "GetDirectoryPath path0 =
     (let path = NormalizeSlashes path0; rootLength = GetRootLength path in
      if rootLength = length path then path
      else
        let path' = RemoveTrailingDirectorySeparator path in
        case strLastIndexByte path' slash_char of
          Some i \<Rightarrow> take (max rootLength i) path'
        | None \<Rightarrow> take rootLength path')"

definition GetBaseFileName :: "string \<Rightarrow> string" where
  "GetBaseFileName path0 =
     (let path = NormalizeSlashes path0; rootLength = GetRootLength path in
      if rootLength = length path then []
      else
        let path' = RemoveTrailingDirectorySeparator path in
        case strLastIndexByte path' slash_char of
          Some i \<Rightarrow> drop (max (GetRootLength path') (i + 1)) path'
        | None \<Rightarrow> drop (GetRootLength path') path')"

section \<open>Resolution and canonical names\<close>

definition ResolvePath :: "string \<Rightarrow> string list \<Rightarrow> string" where
  "ResolvePath path paths =
     NormalizePath (if length paths > 0 then CombinePaths path paths else NormalizeSlashes path)"

definition ResolveTripleslashReference :: "string \<Rightarrow> string \<Rightarrow> string" where
  "ResolveTripleslashReference moduleName containingFile =
     (let basePath = GetDirectoryPath containingFile in
      if IsRootedDiskPath moduleName then NormalizePath moduleName
      else NormalizePath (CombinePaths basePath [moduleName]))"

definition GetNormalizedAbsolutePathWithoutRoot :: "string \<Rightarrow> string \<Rightarrow> string" where
  "GetNormalizedAbsolutePathWithoutRoot fileName currentDirectory =
     (let absolutePath = GetNormalizedAbsolutePath fileName currentDirectory
      in drop (GetRootLength absolutePath) absolutePath)"

definition asciiLowerByte :: "char \<Rightarrow> char" where
  "asciiLowerByte c =
     (if byte_of CHR ''A'' \<le> byte_of c \<and> byte_of c \<le> byte_of CHR ''Z'' then char_of (byte_of c + 32) else c)"

definition IWithDot :: rune where "IWithDot = 0x130"

definition ToFileNameLowerCase :: "(rune \<Rightarrow> rune) \<Rightarrow> string \<Rightarrow> string" where
  "ToFileNameLowerCase toLower fileName =
     (if list_all (\<lambda>c. byte_of c < 0x80) fileName then
        if \<not> list_ex (\<lambda>c. byte_of CHR ''A'' \<le> byte_of c \<and> byte_of c \<le> byte_of CHR ''Z'') fileName then fileName
        else map asciiLowerByte fileName
      else stringsMap (\<lambda>r. if r = IWithDot then r else toLower r) fileName)"

definition GetCanonicalFileName :: "(rune \<Rightarrow> rune) \<Rightarrow> string \<Rightarrow> bool \<Rightarrow> string" where
  "GetCanonicalFileName toLower fileName useCaseSensitiveFileNames =
     (if useCaseSensitiveFileNames then fileName else ToFileNameLowerCase toLower fileName)"

definition ToPath :: "(rune \<Rightarrow> rune) \<Rightarrow> string \<Rightarrow> string \<Rightarrow> bool \<Rightarrow> string" where
  "ToPath toLower fileName basePath useCaseSensitiveFileNames =
     (let nonCanonicalizedPath =
            (if IsRootedDiskPath fileName then NormalizePath fileName
             else GetNormalizedAbsolutePath fileName basePath)
      in GetCanonicalFileName toLower nonCanonicalizedPath useCaseSensitiveFileNames)"

section \<open>Comparison options\<close>

record ComparePathsOptions =
  UseCaseSensitiveFileNames :: bool
  CurrentDirectory :: string

definition GetComparer :: "(rune \<Rightarrow> rune) \<Rightarrow> ComparePathsOptions \<Rightarrow> string \<Rightarrow> string \<Rightarrow> int" where
  "GetComparer toLower o' = GetStringComparer toLower (\<not> UseCaseSensitiveFileNames o')"

definition getEqualityComparer ::
  "(string \<Rightarrow> string \<Rightarrow> bool) \<Rightarrow> ComparePathsOptions \<Rightarrow> string \<Rightarrow> string \<Rightarrow> bool" where
  "getEqualityComparer eqFold o' = GetStringEqualityComparer eqFold (\<not> UseCaseSensitiveFileNames o')"

section \<open>Relative paths\<close>

fun commonPrefixLength :: "('a \<Rightarrow> 'a \<Rightarrow> bool) \<Rightarrow> 'a list \<Rightarrow> 'a list \<Rightarrow> nat" where
  "commonPrefixLength eq (x # xs) (y # ys) = (if eq x y then Suc (commonPrefixLength eq xs ys) else 0)"
| "commonPrefixLength eq _ _ = 0"

definition commonComponents ::
  "(string \<Rightarrow> string \<Rightarrow> bool) \<Rightarrow> ComparePathsOptions \<Rightarrow> string list \<Rightarrow> string list \<Rightarrow> nat" where
  \<comment> \<open>the loop that counts \<open>start\<close>: the roots are compared without case\<close>
  "commonComponents eqFold options fromComponents toComponents =
     (case (fromComponents, toComponents) of
        (f # fs, t # ts) \<Rightarrow>
          if EquateStringCaseInsensitive eqFold f t
          then Suc (commonPrefixLength (getEqualityComparer eqFold options) fs ts) else 0
      | _ \<Rightarrow> 0)"

definition GetPathComponentsRelativeTo ::
  "(string \<Rightarrow> string \<Rightarrow> bool) \<Rightarrow> string \<Rightarrow> string \<Rightarrow> ComparePathsOptions \<Rightarrow> string list" where
  "GetPathComponentsRelativeTo eqFold from to options =
     (let fromComponents = reducePathComponents (GetPathComponents from (CurrentDirectory options));
          toComponents = reducePathComponents (GetPathComponents to (CurrentDirectory options));
          start = commonComponents eqFold options fromComponents toComponents in
      if start = 0 then toComponents
      else [] # replicate (length fromComponents - start) ''..'' @ drop start toComponents)"

definition GetRelativePathFromDirectory ::
  "(string \<Rightarrow> string \<Rightarrow> bool) \<Rightarrow> string \<Rightarrow> string \<Rightarrow> ComparePathsOptions \<Rightarrow> string or_panic" where
  "GetRelativePathFromDirectory eqFold fromDirectory to options =
     (if (GetRootLength fromDirectory > 0) \<noteq> (GetRootLength to > 0)
      then Inl ''paths must either both be absolute or both be relative''
      else Inr (GetPathFromPathComponents (GetPathComponentsRelativeTo eqFold fromDirectory to options)))"

definition PathIsRelative :: "string \<Rightarrow> bool" where
  "PathIsRelative path =
     (if path = ''.'' \<or> path = ''..'' then True
      else if length path \<ge> 2 \<and> path ! 0 = dot_char \<and> (path ! 1 = slash_char \<or> path ! 1 = backslash_char) then True
      else if length path \<ge> 3 \<and> path ! 0 = dot_char \<and> path ! 1 = dot_char
           \<and> (path ! 2 = slash_char \<or> path ! 2 = backslash_char) then True
      else False)"

definition EnsurePathIsNonModuleName :: "string \<Rightarrow> string" where
  "EnsurePathIsNonModuleName path =
     (if \<not> PathIsAbsolute path \<and> \<not> PathIsRelative path then ''./'' @ path else path)"

definition IsExternalModuleNameRelative :: "string \<Rightarrow> bool" where
  "IsExternalModuleNameRelative moduleName = (PathIsRelative moduleName \<or> IsRootedDiskPath moduleName)"

definition GetRelativePathFromFile ::
  "(string \<Rightarrow> string \<Rightarrow> bool) \<Rightarrow> string \<Rightarrow> string \<Rightarrow> ComparePathsOptions \<Rightarrow> string or_panic" where
  "GetRelativePathFromFile eqFold from to options =
     map_sum id EnsurePathIsNonModuleName (GetRelativePathFromDirectory eqFold (GetDirectoryPath from) to options)"

definition GetRelativePathToDirectoryOrUrl ::
  "(string \<Rightarrow> string \<Rightarrow> bool) \<Rightarrow> string \<Rightarrow> string \<Rightarrow> bool \<Rightarrow> ComparePathsOptions \<Rightarrow> string" where
  "GetRelativePathToDirectoryOrUrl eqFold directoryPathOrUrl relativeOrAbsolutePath isAbsolutePathAnUrl options =
     (let pathComponents = GetPathComponentsRelativeTo eqFold directoryPathOrUrl relativeOrAbsolutePath options;
          firstComponent = pathComponents ! 0 in
      if isAbsolutePathAnUrl \<and> IsRootedDiskPath firstComponent
      then GetPathFromPathComponents
             (pathComponents[0 := (if firstComponent ! 0 = slash_char then ''file://'' else ''file:///'') @ firstComponent])
      else GetPathFromPathComponents pathComponents)"

definition ConvertToRelativePath :: "(string \<Rightarrow> string \<Rightarrow> bool) \<Rightarrow> string \<Rightarrow> ComparePathsOptions \<Rightarrow> string" where
  "ConvertToRelativePath eqFold absoluteOrRelativePath options =
     (if \<not> IsRootedDiskPath absoluteOrRelativePath then absoluteOrRelativePath
      else GetRelativePathToDirectoryOrUrl eqFold (CurrentDirectory options) absoluteOrRelativePath False options)"

section \<open>Extensions\<close>

definition tryGetExtensionFromPath :: "string \<Rightarrow> string \<Rightarrow> (string \<Rightarrow> string \<Rightarrow> bool) \<Rightarrow> string" where
  "tryGetExtensionFromPath path extension0 stringEqualityComparer =
     (let extension = (if \<not> strHasPrefix extension0 ''.'' then ''.'' @ extension0 else extension0) in
      if length path \<ge> length extension \<and> path ! (length path - length extension) = dot_char
      then
        let pathExtension = drop (length path - length extension) path in
        if stringEqualityComparer pathExtension extension then pathExtension else []
      else [])"

fun getAnyExtensionFromPathWorker :: "string \<Rightarrow> string list \<Rightarrow> (string \<Rightarrow> string \<Rightarrow> bool) \<Rightarrow> string" where
  "getAnyExtensionFromPathWorker path [] stringEqualityComparer = []"
| "getAnyExtensionFromPathWorker path (extension # extensions) stringEqualityComparer =
     (let result = tryGetExtensionFromPath path extension stringEqualityComparer in
      if result \<noteq> [] then result
      else getAnyExtensionFromPathWorker path extensions stringEqualityComparer)"

definition GetAnyExtensionFromPath :: "(string \<Rightarrow> string \<Rightarrow> bool) \<Rightarrow> string \<Rightarrow> string list \<Rightarrow> bool \<Rightarrow> string" where
  "GetAnyExtensionFromPath eqFold path extensions ignoreCase =
     (if length extensions > 0
      then getAnyExtensionFromPathWorker (RemoveTrailingDirectorySeparator path) extensions
             (GetStringEqualityComparer eqFold ignoreCase)
      else
        let baseFileName = GetBaseFileName path in
        case strLastIndexByte baseFileName dot_char of
          Some extensionIndex \<Rightarrow> drop extensionIndex baseFileName
        | None \<Rightarrow> [])"

definition FileExtensionIs :: "string \<Rightarrow> string \<Rightarrow> bool" where
  "FileExtensionIs path extension = (length path > length extension \<and> strHasSuffix path extension)"

definition HasExtension :: "string \<Rightarrow> bool" where
  "HasExtension fileName = strContains (GetBaseFileName fileName) ''.''"

section \<open>Comparison and containment\<close>

fun compareComponents :: "(string \<Rightarrow> string \<Rightarrow> int) \<Rightarrow> string list \<Rightarrow> string list \<Rightarrow> int" where
  \<comment> \<open>the loop over \<open>sharedLength\<close> and the final comparison of the lengths\<close>
  "compareComponents cmp (x # xs) (y # ys) = (if cmp x y \<noteq> 0 then cmp x y else compareComponents cmp xs ys)"
| "compareComponents cmp xs ys = compareNat (length xs) (length ys)"

definition ComparePaths :: "(rune \<Rightarrow> rune) \<Rightarrow> string \<Rightarrow> string \<Rightarrow> ComparePathsOptions \<Rightarrow> int" where
  "ComparePaths toLower a0 b0 options =
     (let a = CombinePaths (CurrentDirectory options) [a0];
          b = CombinePaths (CurrentDirectory options) [b0] in
      if a = b then 0
      else if a = [] then -1
      else if b = [] then 1
      else
        let aRoot = take (GetRootLength a) a; bRoot = take (GetRootLength b) b;
            result = CompareStringsCaseInsensitive toLower aRoot bRoot in
        if result \<noteq> 0 then result
        else
          let aRest = drop (length aRoot) a; bRest = drop (length bRoot) b in
          if \<not> hasRelativePathSegment aRest \<and> \<not> hasRelativePathSegment bRest
          then GetComparer toLower options aRest bRest
          else compareComponents (GetComparer toLower options)
                 (tl (reducePathComponents (GetPathComponents a [])))
                 (tl (reducePathComponents (GetPathComponents b []))))"

definition ComparePathsCaseSensitive :: "(rune \<Rightarrow> rune) \<Rightarrow> string \<Rightarrow> string \<Rightarrow> string \<Rightarrow> int" where
  "ComparePathsCaseSensitive toLower a b currentDirectory =
     ComparePaths toLower a b \<lparr>UseCaseSensitiveFileNames = True, CurrentDirectory = currentDirectory\<rparr>"

definition ComparePathsCaseInsensitive :: "(rune \<Rightarrow> rune) \<Rightarrow> string \<Rightarrow> string \<Rightarrow> string \<Rightarrow> int" where
  "ComparePathsCaseInsensitive toLower a b currentDirectory =
     ComparePaths toLower a b \<lparr>UseCaseSensitiveFileNames = False, CurrentDirectory = currentDirectory\<rparr>"

definition ContainsPath ::
  "(string \<Rightarrow> string \<Rightarrow> bool) \<Rightarrow> string \<Rightarrow> string \<Rightarrow> ComparePathsOptions \<Rightarrow> bool" where
  "ContainsPath eqFold parent0 child0 options =
     (let parent = CombinePaths (CurrentDirectory options) [parent0];
          child = CombinePaths (CurrentDirectory options) [child0] in
      if parent = [] \<or> child = [] then False
      else if parent = child then True
      else
        let parentComponents = reducePathComponents (GetPathComponents parent []);
            childComponents = reducePathComponents (GetPathComponents child []) in
        if length childComponents < length parentComponents then False
        else list_all (\<lambda>i. (if i = 0 then EquateStringCaseInsensitive eqFold else getEqualityComparer eqFold options)
                             (parentComponents ! i) (childComponents ! i))
               [0..<length parentComponents])"

definition Path_ContainsPath :: "string \<Rightarrow> string \<Rightarrow> bool" where
  "Path_ContainsPath p child =
     (if length p = 0 then False
      else p = child \<or> length child > length p \<and> strHasPrefix child p
           \<and> (p ! (length p - 1) = slash_char \<or> child ! length p = slash_char))"

definition StartsWithDirectory :: "(rune \<Rightarrow> rune) \<Rightarrow> string \<Rightarrow> string \<Rightarrow> bool \<Rightarrow> bool" where
  "StartsWithDirectory toLower fileName directoryName useCaseSensitiveFileNames =
     (if directoryName = [] then False
      else
        let canonicalFileName = GetCanonicalFileName toLower fileName useCaseSensitiveFileNames;
            d0 = GetCanonicalFileName toLower directoryName useCaseSensitiveFileNames;
            canonicalDirectoryName = strTrimSuffix (strTrimSuffix d0 ''/'') [backslash_char]
        in strHasPrefix canonicalFileName (canonicalDirectoryName @ ''/'')
           \<or> strHasPrefix canonicalFileName (canonicalDirectoryName @ [backslash_char]))"

definition CompareNumberOfDirectorySeparators :: "string \<Rightarrow> string \<Rightarrow> int" where
  "CompareNumberOfDirectorySeparators path1 path2 =
     compareNat (count_list path1 slash_char) (count_list path2 slash_char)"

definition SplitVolumePath :: "string \<Rightarrow> string \<times> string \<times> bool" where
  "SplitVolumePath path =
     (if length path \<ge> 2 \<and> IsVolumeCharacter (path ! 0) \<and> path ! 1 = CHR '':''
      then (map asciiLowerByte (take 2 path), drop 2 path, True)
      else ([], path, False))"

section \<open>The walk up the directories\<close>

lemma length_RemoveTrailing: "length (RemoveTrailingDirectorySeparator p) \<le> length p"
  by (simp add: RemoveTrailingDirectorySeparator_def)

lemma RemoveTrailing_prefix: "\<exists>k. RemoveTrailingDirectorySeparator p = take k p"
  by (metis RemoveTrailingDirectorySeparator_def take_all order_refl)

lemma GetDirectoryPath_prefix: "\<exists>k. GetDirectoryPath p = take k (NormalizeSlashes p)"
proof -
  obtain k where k: "RemoveTrailingDirectorySeparator (NormalizeSlashes p) = take k (NormalizeSlashes p)"
    using RemoveTrailing_prefix by blast
  have "\<exists>j. GetDirectoryPath p = take j (NormalizeSlashes p)
      \<or> GetDirectoryPath p = take j (RemoveTrailingDirectorySeparator (NormalizeSlashes p))"
    unfolding GetDirectoryPath_def Let_def by (auto split: option.splits intro: exI [of _ "length p"])
  then show ?thesis unfolding k take_take by blast
qed

definition dirMeasure :: "string \<Rightarrow> nat" where
  "dirMeasure p = length p + count_list p backslash_char"

lemma dirMeasure_GetDirectoryPath:
  assumes "GetDirectoryPath p \<noteq> p"
  shows "dirMeasure (GetDirectoryPath p) < dirMeasure p"
proof -
  obtain k where k: "GetDirectoryPath p = take k (NormalizeSlashes p)" using GetDirectoryPath_prefix by blast
  then have "backslash_char \<notin> set (GetDirectoryPath p)" by (metis NormalizeSlashes_simps(4) in_set_takeD)
  then have m: "dirMeasure (GetDirectoryPath p) = length (GetDirectoryPath p)" by (simp add: dirMeasure_def)
  show ?thesis
  proof (cases "backslash_char \<in> set p")
    case True
    then have "0 < count_list p backslash_char" by (metis count_list_0_iff neq0_conv)
    then show ?thesis using m k by (simp add: dirMeasure_def)
  next
    case False
    then have "GetDirectoryPath p = take k p" using k by (simp add: NormalizeSlashes_id)
    moreover from this have "k < length p" using assms by (metis not_less take_all)
    ultimately show ?thesis using m by (simp add: dirMeasure_def)
  qed
qed

function ForEachAncestorDirectory :: "'t \<Rightarrow> string \<Rightarrow> (string \<Rightarrow> 't \<times> bool) \<Rightarrow> 't \<times> bool" where
  \<comment> \<open>the first argument is the zero value of \<open>T\<close>\<close>
  "ForEachAncestorDirectory zero directory callback =
     (let (result, stop) = callback directory in
      if stop then (result, True)
      else
        let parentPath = GetDirectoryPath directory in
        if parentPath = directory then (zero, False)
        else ForEachAncestorDirectory zero parentPath callback)"
  by pat_completeness auto
termination
  by (relation "measure (\<lambda>(zero, directory, callback). dirMeasure directory)")
    (auto simp: dirMeasure_GetDirectoryPath)

declare ForEachAncestorDirectory.simps [simp del]

definition ForEachAncestorDirectoryStoppingAtGlobalCache ::
  "'t \<Rightarrow> string \<Rightarrow> string \<Rightarrow> (string \<Rightarrow> 't \<times> bool) \<Rightarrow> 't" where
  "ForEachAncestorDirectoryStoppingAtGlobalCache zero globalCacheLocation directory callback =
     fst (ForEachAncestorDirectory zero directory
       (\<lambda>ancestorDirectory.
          let (result, stop) = callback ancestorDirectory in
          if stop \<or> ancestorDirectory = globalCacheLocation then (result, True) else (result, False)))"

end
