(* ===== verification/TsPath_Props.thy ===== *)
theory TsPath_Props
  imports TsPath_Relative
begin

text \<open>
  Properties of \<open>internal/tspath\<close> that relate several of its operations, on paths below the root
  \<open>/\<close>: relative paths lead back to their target, the string test for containment is the component
  test, and the walk up the directories visits every ancestor once.
\<close>

section \<open>Paths below the root\<close>

definition plainSegment :: "string \<Rightarrow> bool" where
  "plainSegment x \<longleftrightarrow> x \<noteq> [] \<and> x \<noteq> ''.'' \<and> x \<noteq> ''..'' \<and> slash_char \<notin> set x \<and> backslash_char \<notin> set x"

definition absPath :: "string list \<Rightarrow> string" where
  "absPath xs = GetPathFromPathComponents (''/'' # xs)"

lemma absPath_eq: "absPath xs = slash_char # strJoin ''/'' xs"
  by (simp add: absPath_def GetPathFromPathComponents_def EnsureTrailingDirectorySeparator_def
      HasTrailing_last isAnyDirectorySeparator_def)

lemma absPath_simps [simp]: "absPath [] = ''/''" "absPath xs \<noteq> []" "absPath xs ! 0 = slash_char"
  by (simp_all add: absPath_eq)

lemma plain_foldl:
  assumes "list_all plainSegment xs" "\<forall>x\<in>set ys. slash_char \<notin> set x \<and> backslash_char \<notin> set x"
  shows "\<exists>zs. foldl reduceStep (''/'' # xs) ys = ''/'' # zs \<and> list_all plainSegment zs"
  using assms
proof (induction ys arbitrary: xs)
  case (Cons y ys)
  have "\<exists>zs. reduceStep (''/'' # xs) y = ''/'' # zs \<and> list_all plainSegment zs"
  proof (cases xs rule: rev_cases)
    case Nil
    then show ?thesis using Cons.prems(2) by (auto simp: reduceStep_def plainSegment_def)
  next
    case (snoc ws w)
    then have ws: "list_all plainSegment ws" "list_all plainSegment xs" using Cons.prems(1) by simp_all
    have "plainSegment y" if "y \<noteq> []" "y \<noteq> ''.''" "y \<noteq> ''..''" using that Cons.prems(2) by (simp add: plainSegment_def)
    moreover have "w \<noteq> ''..''" using ws(2) snoc by (simp add: plainSegment_def)
    ultimately show ?thesis using snoc ws by (auto simp: reduceStep_def nth_append)
  qed
  then show ?case using Cons.IH Cons.prems(2) by fastforce
qed auto

lemma strSplit_subset: "x \<in> set (strSplit b s) \<Longrightarrow> set x \<subseteq> set s"
proof (induction s arbitrary: x)
  case (Cons c s)
  have "hd (strSplit b s) \<in> set (strSplit b s)" "set (tl (strSplit b s)) \<subseteq> set (strSplit b s)"
    by (simp, metis list.set_sel(2) strSplit_not_Nil subsetI)
  moreover have "x \<in> set (strSplit b s) \<or> x = [] \<or> x = c # hd (strSplit b s) \<or> x \<in> set (tl (strSplit b s))"
    using Cons.prems by (auto split: if_splits)
  ultimately show ?case using Cons.IH [of x] Cons.IH [of "hd (strSplit b s)"] by auto
qed simp

text \<open>The reduced components of a path below \<open>/\<close>.\<close>

lemma slash_rooted:
  assumes "GetRootLength p = 1" "backslash_char \<notin> set p"
  obtains xs where "reducedComponents p 1 = ''/'' # xs" "list_all plainSegment xs"
proof -
  have p: "p \<noteq> []" using assms(1) GetRootLength_le [of p] by auto
  have "p ! 0 = slash_char"
  proof (cases "1 < length p")
    case True
    then have "isAnyDirectorySeparator (p ! 0)" using root_separator [of p] assms(1) by simp
    then show ?thesis using separator_normalized [OF assms(2)] p by (metis length_greater_0_conv nth_mem)
  next
    case False
    then have "length p = 1" using p by (cases p) auto
    then obtain c where c: "p = [c]" by (metis One_nat_def length_0_conv length_Suc_conv)
    then show ?thesis using assms rootless [of p]
      by (auto simp: isAnyDirectorySeparator_def strHasPrefix_def)
  qed
  then have "take 1 p = ''/''" using p by (cases p) auto
  then show thesis
    using plain_foldl [of "[]" "strSplit slash_char (drop 1 p)"] that strSplit_elem [of _ slash_char "drop 1 p"]
      strSplit_subset [of _ slash_char "drop 1 p"] assms(2) set_drop_subset [of 1 p]
    unfolding reducedComponents_def by (metis (no_types, lifting) list.pred_inject(1) subsetD)
qed

lemma GetRootLength_absPath:
  assumes "list_all plainSegment xs"
  shows "GetRootLength (absPath xs) = 1"
proof (cases xs)
  case Nil
  then show ?thesis by (simp add: GetRootLength_def GetEncodedRootLength_def)
next
  case (Cons x ys)
  then obtain c y where x: "x = c # y" "c \<noteq> slash_char" using assms by (cases x) (auto simp: plainSegment_def)
  then obtain z where "strJoin ''/'' xs = c # z" using Cons by (cases ys) auto
  then show ?thesis using x by (simp add: absPath_eq GetRootLength_def GetEncodedRootLength_def)
qed

lemma set_strJoin: "set (strJoin sep xs) \<subseteq> (\<Union>x\<in>set xs. set x) \<union> set sep"
  by (induction sep xs rule: strJoin.induct) auto

lemma notin_strJoin: "\<forall>x\<in>set xs. b \<notin> set x \<Longrightarrow> b \<notin> set sep \<Longrightarrow> b \<notin> set (strJoin sep xs)"
  using set_strJoin [of sep xs] by blast

lemma absPath_no_backslash: "list_all plainSegment xs \<Longrightarrow> backslash_char \<notin> set (absPath xs)"
  using set_strJoin [of "''/''" xs] by (auto simp: absPath_eq plainSegment_def list_all_iff)

lemma strSplit_join_plain:
  "list_all plainSegment xs \<Longrightarrow> strSplit slash_char (strJoin ''/'' xs) = (if xs = [] then [[]] else xs)"
  by (auto simp: strSplit_strJoin plainSegment_def list_all_iff)

lemma foldl_plain: "list_all plainSegment xs \<Longrightarrow> cs \<noteq> [] \<Longrightarrow> foldl reduceStep cs xs = cs @ xs"
  by (rule foldl_reduceStep_plain) (auto simp: plainSegment_def list_all_iff)

lemma last_absPath:
  assumes "list_all plainSegment xs"
  shows "HasTrailingDirectorySeparator (absPath xs) \<longleftrightarrow> xs = []"
proof (cases xs rule: rev_cases)
  case Nil
  then show ?thesis by (simp add: HasTrailing_last isAnyDirectorySeparator_def)
next
  case (snoc ys y)
  then have y: "y \<noteq> []" "last y \<in> set y" "slash_char \<notin> set y" "backslash_char \<notin> set y"
    using assms by (auto simp: plainSegment_def)
  moreover have "last (absPath xs) = last y"
    using snoc y(1) by (cases "ys = []") (simp_all add: absPath_eq strJoin_snoc)
  ultimately show ?thesis using snoc by (metis HasTrailing_last append_is_Nil_conv isAnyDirectorySeparator_def not_Cons_self2)
qed

text \<open>Normalizing a relative path against a normalized directory continues the reduction.\<close>

lemma GetNormalizedAbsolutePath_absPath:
  assumes xs: "list_all plainSegment xs" and r: "GetRootLength r = 0" "backslash_char \<notin> set r"
  shows "GetNormalizedAbsolutePath r (absPath xs) =
    GetPathFromPathComponents (foldl reduceStep (''/'' # xs) (strSplit slash_char r))"
proof -
  have nb: "NormalizeSlashes (absPath xs) = absPath xs" "NormalizeSlashes r = r"
    using absPath_no_backslash [OF xs] r(2) by (simp_all add: NormalizeSlashes_id)
  define sep where "sep = (if xs = [] then [] else ''/'')"
  show ?thesis
  proof (cases "r = []")
    case True
    then have "CombinePaths (absPath xs) [r] = absPath xs" using nb by (simp add: CombinePaths_def)
    moreover have "reducedComponents (absPath xs) 1 = ''/'' # xs"
      using strSplit_join_plain [OF xs] foldl_plain [OF xs, of "[''/'']"]
      by (simp add: reducedComponents_def absPath_eq)
    ultimately show ?thesis using True GetRootLength_absPath [OF xs] by (simp add: GetNormalizedAbsolutePath_reduced)
  next
    case False
    then have c: "CombinePaths (absPath xs) [r] = absPath xs @ sep @ r"
      using nb r(1) last_absPath [OF xs] by (simp add: CombinePaths_def Let_def sep_def)
    have r0: "r ! 0 \<noteq> slash_char" using no_root [OF r(1)] False by simp
    have rl: "GetRootLength (absPath xs @ sep @ r) = 1"
    proof (cases "xs = []")
      case True
      then show ?thesis using False r0
        by (cases r) (simp_all add: sep_def GetRootLength_def GetEncodedRootLength_def)
    next
      case ne: False
      then obtain c z where "absPath xs = slash_char # c # z" "c \<noteq> slash_char"
        using xs by (cases xs rule: list.exhaust; cases "hd xs"; cases "tl xs")
          (auto simp: absPath_eq plainSegment_def)
      then show ?thesis by (simp add: GetRootLength_def GetEncodedRootLength_def)
    qed
    have split: "foldl reduceStep cs (strSplit slash_char (strJoin ''/'' xs @ sep @ r)) =
        foldl reduceStep (foldl reduceStep cs xs) (strSplit slash_char r)" for cs
      using strSplit_join_plain [OF xs]
      by (cases "xs = []") (simp_all add: sep_def strSplit_append_sep)
    show ?thesis
      using c rl split foldl_plain [OF xs, of "[''/'']"]
      by (simp add: GetNormalizedAbsolutePath_reduced reducedComponents_def absPath_eq)
  qed
qed

section \<open>Relative paths\<close>

lemma commonPrefixLength_le:
  "commonPrefixLength eq xs ys \<le> length xs" "commonPrefixLength eq xs ys \<le> length ys"
  by (induction eq xs ys rule: commonPrefixLength.induct) auto

lemma commonPrefixLength_take:
  "(\<And>a b. eq a b \<Longrightarrow> a = b) \<Longrightarrow> take (commonPrefixLength eq xs ys) xs = take (commonPrefixLength eq xs ys) ys"
  by (induction eq xs ys rule: commonPrefixLength.induct) auto

lemma foldl_dots:
  "n \<le> length xs \<Longrightarrow> list_all plainSegment xs \<Longrightarrow>
     foldl reduceStep (''/'' # xs) (replicate n ''..'') = ''/'' # take (length xs - n) xs"
proof (induction n arbitrary: xs)
  case (Suc n)
  then obtain ys y where xs: "xs = ys @ [y]" by (cases xs rule: rev_cases) auto
  then have "reduceStep (''/'' # xs) ''..'' = ''/'' # ys"
    using Suc.prems by (simp add: reduceStep_def plainSegment_def nth_append)
  then show ?case using Suc xs by simp
qed simp

lemma relative_chars:
  assumes "list_all plainSegment zs"
  shows "\<forall>x\<in>set (replicate n ''..'' @ zs). slash_char \<notin> set x"
    and "\<forall>x\<in>set (replicate n ''..'' @ zs). backslash_char \<notin> set x"
proof -
  have "x = ''..'' \<or> plainSegment x" if "x \<in> set (replicate n ''..'' @ zs)" for x
    using that assms unfolding list_all_iff set_append by (metis Un_iff in_set_replicate)
  then show "\<forall>x\<in>set (replicate n ''..'' @ zs). slash_char \<notin> set x"
    and "\<forall>x\<in>set (replicate n ''..'' @ zs). backslash_char \<notin> set x"
    unfolding plainSegment_def by fastforce+
qed

lemma strSplit_join_relative:
  assumes "list_all plainSegment zs"
  shows "foldl reduceStep cs (strSplit slash_char (strJoin ''/'' (replicate n ''..'' @ zs))) =
    foldl reduceStep (foldl reduceStep cs (replicate n ''..'')) zs"
proof -
  let ?ds = "replicate n ''..'' @ zs"
  have "strSplit slash_char (strJoin ''/'' ?ds) = (if ?ds = [] then [[]] else ?ds)"
  proof (cases "?ds = []")
    case False
    have "\<forall>x\<in>set ?ds. slash_char \<notin> set x" using assms by (rule relative_chars(1))
    then have "strSplit slash_char (strJoin ''/'' ?ds) = ?ds" using False by (intro strSplit_strJoin)
    then show ?thesis using False by presburger
  qed simp
  then have "foldl reduceStep cs (strSplit slash_char (strJoin ''/'' ?ds)) = foldl reduceStep cs ?ds"
    by (cases "?ds = []") simp_all
  then show ?thesis by simp
qed

text \<open>C30. The relative path from a directory to a target leads back to the target: for two paths below
  \<open>/\<close>, both given as absolute or both as relative, with case-sensitive names, \<open>GetRelativePathFromDirectory\<close> does not panic, and
  its result, resolved against the directory, is the normalized target, unless the result itself
  reads as an absolute path (a component named like a volume or a dynamic file root).\<close>

theorem GetRelativePathFromDirectory_resolves:
  assumes sens: "UseCaseSensitiveFileNames options" and refl: "eqFold ''/'' ''/''"
    and hfrom: "GetRootLength (CombinePaths (CurrentDirectory options) [from]) = 1"
    and hto: "GetRootLength (CombinePaths (CurrentDirectory options) [to]) = 1"
    and both: "(GetRootLength from > 0) = (GetRootLength to > 0)"
  shows "\<exists>r. GetRelativePathFromDirectory eqFold from to options = Inr r \<and>
    (GetRootLength r = 0 \<longrightarrow>
     GetNormalizedAbsolutePath r (GetNormalizedAbsolutePath from (CurrentDirectory options)) =
     GetNormalizedAbsolutePath to (CurrentDirectory options))"
proof -
  let ?cwd = "CurrentDirectory options"
  obtain fs where fs: "reducedComponents (CombinePaths ?cwd [from]) 1 = ''/'' # fs" "list_all plainSegment fs"
    using slash_rooted [OF hfrom backslash_CombinePaths] by blast
  obtain ts where ts: "reducedComponents (CombinePaths ?cwd [to]) 1 = ''/'' # ts" "list_all plainSegment ts"
    using slash_rooted [OF hto backslash_CombinePaths] by blast
  define k where "k = commonPrefixLength EquateStringCaseSensitive fs ts"
  have k: "k \<le> length fs" "k \<le> length ts" "take k fs = take k ts"
    unfolding k_def using commonPrefixLength_le commonPrefixLength_take [of EquateStringCaseSensitive fs ts]
    by (auto simp: EquateStringCaseSensitive_def)
  let ?zs = "replicate (length fs - k) ''..'' @ drop k ts"
  have pz: "list_all plainSegment (drop k ts)" using ts(2) by (auto simp: list_all_iff dest: in_set_dropD)
  have "GetPathComponentsRelativeTo eqFold from to options = [] # ?zs"
    using sens refl hfrom hto fs ts
    by (simp add: GetPathComponentsRelativeTo_def GetPathComponents_def reducePathComponents_pathComponents Let_def
        commonComponents_def EquateStringCaseInsensitive_def getEqualityComparer_def GetStringEqualityComparer_def k_def)
  then have rel: "GetRelativePathFromDirectory eqFold from to options = Inr (strJoin ''/'' ?zs)"
    using both by (simp add: GetRelativePathFromDirectory_def GetPathFromPathComponents_def)
  have nb: "backslash_char \<notin> set (strJoin ''/'' ?zs)"
  proof -
    have "\<forall>x\<in>set ?zs. backslash_char \<notin> set x" using pz by (rule relative_chars(2))
    then show ?thesis by (intro notin_strJoin) simp_all
  qed
  have "foldl reduceStep (''/'' # fs) (strSplit slash_char (strJoin ''/'' ?zs)) = ''/'' # ts"
    unfolding strSplit_join_relative [OF pz]
    using k fs(2) foldl_dots [of "length fs - k" fs] foldl_plain [OF pz, of "''/'' # take k fs"] by simp
  then have "GetNormalizedAbsolutePath (strJoin ''/'' ?zs) (absPath fs) = absPath ts"
    if "GetRootLength (strJoin ''/'' ?zs) = 0"
    using GetNormalizedAbsolutePath_absPath [OF fs(2) that nb] by (simp add: absPath_def)
  then show ?thesis using rel hfrom hto fs ts by (simp add: GetNormalizedAbsolutePath_reduced absPath_def)
qed

theorem GetRelativePathFromDirectory_resolves_witness:
  "GetRelativePathFromDirectory (=) ''/a/b'' ''/a/c/d'' \<lparr>UseCaseSensitiveFileNames = True, CurrentDirectory = ''/''\<rparr>
     = Inr ''../c/d'' \<and> GetNormalizedAbsolutePath ''../c/d'' ''/a/b'' = ''/a/c/d''"
proof -
  let ?o = "\<lparr>UseCaseSensitiveFileNames = True, CurrentDirectory = ''/''\<rparr>"
  have r: "GetRelativePathFromDirectory (=) ''/a/b'' ''/a/c/d'' ?o = Inr ''../c/d''" by code_simp
  have n: "GetNormalizedAbsolutePath ''/a/b'' ''/'' = ''/a/b''" "GetNormalizedAbsolutePath ''/a/c/d'' ''/'' = ''/a/c/d''"
    "GetRootLength ''../c/d'' = 0" by code_simp+
  have h: "GetRootLength (CombinePaths ''/'' [''/a/b'']) = 1" "GetRootLength (CombinePaths ''/'' [''/a/c/d'']) = 1"
    "(GetRootLength ''/a/b'' > 0) = (GetRootLength ''/a/c/d'' > 0)" by code_simp+
  show ?thesis
    using GetRelativePathFromDirectory_resolves [of ?o "(=)" "''/a/b''" "''/a/c/d''"] r n h by auto
qed

section \<open>Containment\<close>

lemma absPath_inj: "list_all plainSegment ps \<Longrightarrow> list_all plainSegment qs \<Longrightarrow> absPath ps = absPath qs \<longleftrightarrow> ps = qs"
proof
  assume p: "list_all plainSegment ps" and q: "list_all plainSegment qs" and "absPath ps = absPath qs"
  then have "strSplit slash_char (strJoin ''/'' ps) = strSplit slash_char (strJoin ''/'' qs)" by (simp add: absPath_eq)
  then show "ps = qs" using strSplit_join_plain [OF p] strSplit_join_plain [OF q] p q
    by (auto simp: plainSegment_def split: if_splits)
qed simp

lemma absPath_append: "ps \<noteq> [] \<Longrightarrow> rs \<noteq> [] \<Longrightarrow> absPath (ps @ rs) = absPath ps @ slash_char # strJoin ''/'' rs"
proof (induction rs rule: rev_induct)
  case (snoc r rs)
  then show ?case
    by (cases "rs = []") (simp_all add: absPath_eq strJoin_snoc strJoin_snoc [of "ps @ rs" for rs, unfolded append_assoc])
qed simp

lemma Path_ContainsPath_absPath:
  assumes p: "list_all plainSegment ps" and q: "list_all plainSegment qs"
  shows "Path_ContainsPath (absPath ps) (absPath qs) \<longleftrightarrow> prefix ps qs"
proof
  assume pre: "prefix ps qs"
  then obtain rs where rs: "qs = ps @ rs" by (auto simp: prefix_def)
  show "Path_ContainsPath (absPath ps) (absPath qs)"
  proof (cases "ps = [] \<or> rs = []")
    case True
    then show ?thesis using rs q
      by (cases qs; cases "hd qs"; cases "tl qs") (auto simp: Path_ContainsPath_def absPath_eq plainSegment_def)
  next
    case False
    then show ?thesis using absPath_append [of ps rs] rs by (simp add: Path_ContainsPath_def nth_append)
  qed
next
  assume c: "Path_ContainsPath (absPath ps) (absPath qs)"
  show "prefix ps qs"
  proof (cases "ps = [] \<or> absPath ps = absPath qs")
    case True
    then show ?thesis using absPath_inj [OF p q] by auto
  next
    case False
    then have "last (absPath ps) \<noteq> slash_char"
      using last_absPath [OF p] by (auto simp: HasTrailing_last isAnyDirectorySeparator_def)
    then have "length (absPath qs) > length (absPath ps)" "strHasPrefix (absPath qs) (absPath ps)"
      "absPath qs ! length (absPath ps) = slash_char"
      using c False by (auto simp: Path_ContainsPath_def last_conv_nth split: if_splits)
    then obtain t where t: "absPath qs = absPath ps @ slash_char # t"
      by (metis append_take_drop_id id_take_nth_drop strHasPrefix_def)
    then have "strJoin ''/'' qs = strJoin ''/'' ps @ slash_char # t" by (simp add: absPath_eq)
    then have "strSplit slash_char (strJoin ''/'' qs) = ps @ strSplit slash_char t"
      using strSplit_join_plain [OF p] False by (simp add: strSplit_append_sep)
    moreover have "qs \<noteq> []" using t False by (auto simp: absPath_eq)
    ultimately show ?thesis using strSplit_join_plain [OF q] by simp
  qed
qed

lemma list_all_prefix:
  "length ps \<le> length qs \<Longrightarrow> list_all (\<lambda>i. ps ! i = qs ! i) [0..<length ps] \<longleftrightarrow> prefix ps qs"
  by (auto simp: list_all_iff prefix_def nth_append intro!: exI [of _ "drop (length ps) qs"] nth_equalityI)

lemma CombinePaths_Nil: "backslash_char \<notin> set p \<Longrightarrow> CombinePaths [] [p] = p"
  by (cases "p = []") (simp_all add: CombinePaths_def Let_def NormalizeSlashes_id)

lemma ContainsPath_prefix:
  assumes sens: "UseCaseSensitiveFileNames options" and refl: "eqFold ''/'' ''/''"
    and p: "GetRootLength (CombinePaths (CurrentDirectory options) [p]) = 1"
      "reducedComponents (CombinePaths (CurrentDirectory options) [p]) 1 = ''/'' # ps"
    and q: "GetRootLength (CombinePaths (CurrentDirectory options) [q]) = 1"
      "reducedComponents (CombinePaths (CurrentDirectory options) [q]) 1 = ''/'' # qs"
  shows "ContainsPath eqFold p q options \<longleftrightarrow> prefix ps qs"
proof -
  let ?P = "CombinePaths (CurrentDirectory options) [p]" and ?Q = "CombinePaths (CurrentDirectory options) [q]"
  have comps: "reducePathComponents (GetPathComponents ?P []) = ''/'' # ps"
    "reducePathComponents (GetPathComponents ?Q []) = ''/'' # qs"
    using p q by (simp_all add: GetPathComponents_def reducePathComponents_pathComponents
        CombinePaths_Nil backslash_CombinePaths)
  have ne: "?P \<noteq> []" "?Q \<noteq> []" using p(1) q(1) GetRootLength_le [of ?P] GetRootLength_le [of ?Q] by auto
  have eq: "getEqualityComparer eqFold options = (=)"
    using sens by (auto simp: getEqualityComparer_def GetStringEqualityComparer_def EquateStringCaseSensitive_def fun_eq_iff)
  have "list_all (\<lambda>i. (if i = 0 then EquateStringCaseInsensitive eqFold else (=)) ((''/'' # ps) ! i) ((''/'' # qs) ! i))
      [0..<length (''/'' # ps)] \<longleftrightarrow> list_all (\<lambda>i. ps ! i = qs ! i) [0..<length ps]"
    using refl unfolding list_all_iff set_upt atLeastLessThan_iff Ball_def
    by (auto simp: EquateStringCaseInsensitive_def less_Suc_eq_0_disj)
  moreover have "?P = ?Q \<Longrightarrow> ps = qs" using p q by simp
  moreover have "prefix ps qs \<Longrightarrow> length ps \<le> length qs" by (rule prefix_length_le)
  ultimately show ?thesis
    unfolding ContainsPath_def Let_def comps eq using ne list_all_prefix [of ps qs] by auto
qed

text \<open>On normalized paths the string-prefix test of the \<open>Path\<close> type is the component-wise
  containment test: for two names below \<open>/\<close> and case-sensitive names,
  \<open>Path.ContainsPath\<close> of their normalized forms agrees with \<open>ContainsPath\<close>.\<close>

theorem Path_ContainsPath_ContainsPath:
  assumes "UseCaseSensitiveFileNames options" and "eqFold ''/'' ''/''"
    and parent: "GetRootLength (CombinePaths (CurrentDirectory options) [parent]) = 1"
    and child: "GetRootLength (CombinePaths (CurrentDirectory options) [child]) = 1"
  shows "Path_ContainsPath (GetNormalizedAbsolutePath parent (CurrentDirectory options))
           (GetNormalizedAbsolutePath child (CurrentDirectory options))
         = ContainsPath eqFold parent child options"
proof -
  obtain ps where ps: "reducedComponents (CombinePaths (CurrentDirectory options) [parent]) 1 = ''/'' # ps"
    "list_all plainSegment ps" using slash_rooted [OF parent backslash_CombinePaths] by blast
  obtain qs where qs: "reducedComponents (CombinePaths (CurrentDirectory options) [child]) 1 = ''/'' # qs"
    "list_all plainSegment qs" using slash_rooted [OF child backslash_CombinePaths] by blast
  show ?thesis
    using ContainsPath_prefix [of options eqFold parent ps child qs] assms Path_ContainsPath_absPath [OF ps(2) qs(2)]
      parent child ps(1) qs(1) by (simp add: GetNormalizedAbsolutePath_reduced absPath_def)
qed

theorem Path_ContainsPath_ContainsPath_witness:
  "Path_ContainsPath ''/a/b'' ''/a/b/c''
   \<and> ContainsPath (=) ''/a/./b'' ''/a/b/x/../c'' \<lparr>UseCaseSensitiveFileNames = True, CurrentDirectory = ''/''\<rparr>"
proof -
  let ?o = "\<lparr>UseCaseSensitiveFileNames = True, CurrentDirectory = ''/''\<rparr>"
  have n: "GetNormalizedAbsolutePath ''/a/./b'' ''/'' = ''/a/b''" "GetNormalizedAbsolutePath ''/a/b/x/../c'' ''/'' = ''/a/b/c''"
    "Path_ContainsPath ''/a/b'' ''/a/b/c''" by code_simp+
  have h: "GetRootLength (CombinePaths ''/'' [''/a/./b'']) = 1" "GetRootLength (CombinePaths ''/'' [''/a/b/x/../c'']) = 1"
    by code_simp+
  show ?thesis
    using Path_ContainsPath_ContainsPath [of ?o "(=)" "''/a/./b''" "''/a/b/x/../c''"] n h by simp
qed

section \<open>Directory and base names\<close>

lemma GetDirectoryPath_absPath_root: "GetDirectoryPath (absPath []) = absPath []"
  by code_simp

lemma absPath_snoc: "absPath (xs @ [x]) = absPath xs @ (if xs = [] then x else slash_char # x)"
  by (simp add: absPath_eq strJoin_snoc)

lemma directory_base_absPath:
  assumes "list_all plainSegment (xs @ [x])"
  shows "GetDirectoryPath (absPath (xs @ [x])) = absPath xs"
    and "GetBaseFileName (absPath (xs @ [x])) = x"
proof -
  let ?p = "absPath (xs @ [x])"
  have x: "slash_char \<notin> set x" "x \<noteq> []" using assms by (simp_all add: plainSegment_def)
  have nb: "NormalizeSlashes ?p = ?p" using absPath_no_backslash [OF assms] by (rule NormalizeSlashes_id)
  have rl: "GetRootLength ?p = 1" by (rule GetRootLength_absPath [OF assms])
  have rt: "RemoveTrailingDirectorySeparator ?p = ?p"
    using last_absPath [OF assms] by (simp add: RemoveTrailingDirectorySeparator_def)
  have len: "length ?p \<noteq> 1" using x(2) unfolding absPath_snoc by (simp add: absPath_eq)
  have "GetDirectoryPath ?p = absPath xs \<and> GetBaseFileName ?p = x"
  proof (cases "xs = []")
    case True
    then have "strLastIndexByte ?p slash_char = Some 0"
      using strLastIndexByte_append [OF x(1), of "[]"] by (simp add: absPath_eq)
    then show ?thesis unfolding GetDirectoryPath_def GetBaseFileName_def Let_def nb rl rt
      using len True by (simp add: absPath_eq)
  next
    case False
    then have p: "?p = absPath xs @ slash_char # x" by (simp add: absPath_snoc)
    then have "strLastIndexByte ?p slash_char = Some (length (absPath xs))"
      using strLastIndexByte_append [OF x(1)] by simp
    moreover have "1 \<le> length (absPath xs)" by (simp add: absPath_eq)
    ultimately show ?thesis unfolding GetDirectoryPath_def GetBaseFileName_def Let_def nb rl rt
      using len by (simp add: p max_def)
  qed
  then show "GetDirectoryPath ?p = absPath xs" and "GetBaseFileName ?p = x" by blast+
qed

text \<open>The walk up the directories visits, from the longest to \<open>/\<close>, exactly the prefixes of
  the components of a normalized path, and returns the first answer that stops it.\<close>

theorem ForEachAncestorDirectory_prefixes:
  assumes "list_all plainSegment components"
  shows "ForEachAncestorDirectory zero (absPath components) callback =
    (case find (\<lambda>d. snd (callback d)) (map absPath (rev (prefixes components))) of
       Some d \<Rightarrow> (fst (callback d), True) | None \<Rightarrow> (zero, False))"
  using assms
proof (induction components rule: rev_induct)
  case Nil
  show ?case using GetDirectoryPath_absPath_root
    by (subst ForEachAncestorDirectory.simps) (simp add: split_beta)
next
  case (snoc x xs)
  have ne: "absPath xs \<noteq> absPath (xs @ [x])" using snoc.prems by (auto simp: absPath_snoc plainSegment_def)
  have "rev (prefixes (xs @ [x])) = (xs @ [x]) # rev (prefixes xs)" by (simp add: prefixes_snoc)
  then show ?case
    using snoc ne directory_base_absPath(1) [OF snoc.prems]
    by (subst ForEachAncestorDirectory.simps) (simp add: split_beta Let_def)
qed

theorem ForEachAncestorDirectory_prefixes_witness:
  "ForEachAncestorDirectory [] ''/a/b/c'' (\<lambda>d. (d, length d \<le> 2)) = (''/a'', True)"
proof -
  have "list_all plainSegment [''a'', ''b'', ''c'']" by (simp add: plainSegment_def)
  note ForEachAncestorDirectory_prefixes [OF this, of "[]" "\<lambda>d. (d, length d \<le> 2)"]
  then show ?thesis by (simp add: absPath_eq)
qed

section \<open>Comparison\<close>

text \<open>\<open>ComparePaths\<close> is not an order: its fast path compares the strings, where a
  separator sorts after \<open>-\<close>, and its slow path compares the components. So \<open>/a-b\<close>
  comes before \<open>/a/b\<close> and after \<open>/./a/b\<close>, two spellings of one path that compare equal.\<close>

theorem ComparePaths_not_transitive:
  "ComparePathsCaseSensitive toLower ''/a/b'' ''/./a/b'' [] = 0
   \<and> ComparePathsCaseSensitive toLower ''/./a/b'' ''/a-b'' [] = -1
   \<and> ComparePathsCaseSensitive toLower ''/a-b'' ''/a/b'' [] = -1"
proof -
  have r: "CombinePaths [] [''/a/b''] = ''/a/b''" "CombinePaths [] [''/./a/b''] = ''/./a/b''"
    "CombinePaths [] [''/a-b''] = ''/a-b''" by code_simp+
  have rl: "GetRootLength ''/a/b'' = 1" "GetRootLength ''/./a/b'' = 1" "GetRootLength ''/a-b'' = 1" by code_simp+
  have rel: "\<not> hasRelativePathSegment ''a/b''" "hasRelativePathSegment ''./a/b''" "\<not> hasRelativePathSegment ''a-b''"
    by code_simp+
  have c: "reducePathComponents (GetPathComponents ''/a/b'' []) = [''/'', ''a'', ''b'']"
    "reducePathComponents (GetPathComponents ''/./a/b'' []) = [''/'', ''a'', ''b'']"
    "reducePathComponents (GetPathComponents ''/a-b'' []) = [''/'', ''a-b'']" by code_simp+
  have s: "strCompare ''a'' ''a-b'' = -1" "strCompare ''a-b'' ''a/b'' = -1" by code_simp+
  show ?thesis
    unfolding ComparePathsCaseSensitive_def ComparePaths_def
    by (simp add: r rl rel c s Let_def CompareStringsCaseInsensitive_def GetComparer_def GetStringComparer_def
        CompareStringsCaseSensitive_def compareNat_def)
qed

end
