(* ===== verification/TsPath_Extension.thy ===== *)
theory TsPath_Extension
  imports TsPath_Relative
begin

text \<open>
  Package \<open>internal/tspath\<close>, files \<open>extension.go\<close> and \<open>ignoredpaths.go\<close>: the known file
  extensions, removing and replacing them, declaration files, and the ignored paths. A slice whose
  bounds the source does not check is an \<open>or_panic\<close>.
\<close>

section \<open>The extensions\<close>

definition ExtensionTs :: string where "ExtensionTs = ''.ts''"
definition ExtensionTsx :: string where "ExtensionTsx = ''.tsx''"
definition ExtensionDts :: string where "ExtensionDts = ''.d.ts''"
definition ExtensionJs :: string where "ExtensionJs = ''.js''"
definition ExtensionJsx :: string where "ExtensionJsx = ''.jsx''"
definition ExtensionJson :: string where "ExtensionJson = ''.json''"
definition ExtensionMjs :: string where "ExtensionMjs = ''.mjs''"
definition ExtensionMts :: string where "ExtensionMts = ''.mts''"
definition ExtensionDmts :: string where "ExtensionDmts = ''.d.mts''"
definition ExtensionCjs :: string where "ExtensionCjs = ''.cjs''"
definition ExtensionCts :: string where "ExtensionCts = ''.cts''"
definition ExtensionDcts :: string where "ExtensionDcts = ''.d.cts''"

lemmas extension_defs = ExtensionTs_def ExtensionTsx_def ExtensionDts_def ExtensionJs_def ExtensionJsx_def
  ExtensionJson_def ExtensionMjs_def ExtensionMts_def ExtensionDmts_def ExtensionCjs_def ExtensionCts_def
  ExtensionDcts_def

definition SupportedDeclarationExtensions :: "string list" where
  "SupportedDeclarationExtensions = [ExtensionDts, ExtensionDcts, ExtensionDmts]"

definition SupportedTSImplementationExtensions :: "string list" where
  "SupportedTSImplementationExtensions = [ExtensionTs, ExtensionTsx, ExtensionMts, ExtensionCts]"

definition supportedTSExtensionsForExtractExtension :: "string list" where
  "supportedTSExtensionsForExtractExtension =
     [ExtensionDts, ExtensionDcts, ExtensionDmts, ExtensionTs, ExtensionTsx, ExtensionMts, ExtensionCts]"

definition SupportedTSExtensionsFlat :: "string list" where
  "SupportedTSExtensionsFlat =
     [ExtensionTs, ExtensionTsx, ExtensionDts, ExtensionCts, ExtensionDcts, ExtensionMts, ExtensionDmts]"

definition SupportedJSExtensionsFlat :: "string list" where
  "SupportedJSExtensionsFlat = [ExtensionJs, ExtensionJsx, ExtensionMjs, ExtensionCjs]"

definition extensionsToRemove :: "string list" where
  "extensionsToRemove =
     [ExtensionDts, ExtensionDmts, ExtensionDcts, ExtensionMjs, ExtensionMts, ExtensionCjs, ExtensionCts,
      ExtensionTs, ExtensionJs, ExtensionTsx, ExtensionJsx, ExtensionJson]"

section \<open>Operations\<close>

definition ExtensionIsTs :: "string \<Rightarrow> bool" where
  "ExtensionIsTs ext =
     (ext = ExtensionTs \<or> ext = ExtensionTsx \<or> ext = ExtensionDts \<or> ext = ExtensionMts \<or> ext = ExtensionDmts
      \<or> ext = ExtensionCts \<or> ext = ExtensionDcts
      \<or> length ext \<ge> 7 \<and> take 3 ext = ''.d.'' \<and> drop (length ext - 3) ext = ''.ts'')"

fun filepathExtLoop :: "(char \<Rightarrow> bool) \<Rightarrow> string \<Rightarrow> string \<Rightarrow> string" where
  \<comment> \<open>\<open>filepath.Ext\<close>: scan back to the last dot of the last element; the first list is the reversed path\<close>
  "filepathExtLoop isSep [] ext = []"
| "filepathExtLoop isSep (c # rp) ext =
     (if isSep c then [] else if c = dot_char then c # ext else filepathExtLoop isSep rp (c # ext))"

definition filepathExt :: "(char \<Rightarrow> bool) \<Rightarrow> string \<Rightarrow> string" where
  \<comment> \<open>\<open>isSep\<close> is \<open>os.IsPathSeparator\<close>, which depends on the platform\<close>
  "filepathExt isSep path = filepathExtLoop isSep (rev path) []"

definition RemoveFileExtension :: "(char \<Rightarrow> bool) \<Rightarrow> string \<Rightarrow> string" where
  "RemoveFileExtension isSep path =
     (case find (\<lambda>ext. strHasSuffix path ext) extensionsToRemove of
        Some ext \<Rightarrow> take (length path - length ext) path
      | None \<Rightarrow> take (length path - length (filepathExt isSep path)) path)"

definition TryGetExtensionFromPath :: "string \<Rightarrow> string" where
  "TryGetExtensionFromPath p =
     (case find (\<lambda>ext. FileExtensionIs p ext) extensionsToRemove of Some ext \<Rightarrow> ext | None \<Rightarrow> [])"

definition RemoveExtension :: "string \<Rightarrow> string \<Rightarrow> string or_panic" where
  "RemoveExtension path extension =
     (if length extension \<le> length path then Inr (take (length path - length extension) path)
      else Inl ''slice bounds out of range'')"

definition FileExtensionIsOneOf :: "string \<Rightarrow> string list \<Rightarrow> bool" where
  "FileExtensionIsOneOf path extensions = list_ex (\<lambda>ext. FileExtensionIs path ext) extensions"

definition TryExtractTSExtension :: "string \<Rightarrow> string" where
  "TryExtractTSExtension fileName =
     (case find (\<lambda>ext. FileExtensionIs fileName ext) supportedTSExtensionsForExtractExtension of
        Some ext \<Rightarrow> ext | None \<Rightarrow> [])"

definition GetDeclarationFileExtension :: "string \<Rightarrow> string" where
  "GetDeclarationFileExtension fileName =
     (let base = GetBaseFileName fileName in
      case find (\<lambda>ext. strHasSuffix base ext) SupportedDeclarationExtensions of
        Some ext \<Rightarrow> ext
      | None \<Rightarrow>
          if strHasSuffix base ExtensionTs
          then (case strIndex base ''.d.'' of Some index \<Rightarrow> drop index base | None \<Rightarrow> [])
          else [])"

definition IsDeclarationFileName :: "string \<Rightarrow> bool" where
  "IsDeclarationFileName fileName = (GetDeclarationFileExtension fileName \<noteq> [])"

definition HasTSFileExtension :: "string \<Rightarrow> bool" where
  "HasTSFileExtension path = FileExtensionIsOneOf path SupportedTSExtensionsFlat"

definition HasImplementationTSFileExtension :: "string \<Rightarrow> bool" where
  "HasImplementationTSFileExtension path =
     (FileExtensionIsOneOf path SupportedTSImplementationExtensions \<and> \<not> IsDeclarationFileName path)"

definition HasJSFileExtension :: "string \<Rightarrow> bool" where
  "HasJSFileExtension path = FileExtensionIsOneOf path SupportedJSExtensionsFlat"

definition HasJSONFileExtension :: "string \<Rightarrow> bool" where
  "HasJSONFileExtension path = FileExtensionIs path ExtensionJson"

definition ExtensionIsOneOf :: "string \<Rightarrow> string list \<Rightarrow> bool" where
  "ExtensionIsOneOf ext extensions = (ext \<in> set extensions)"

definition GetDeclarationEmitExtensionForPath :: "(string \<Rightarrow> string \<Rightarrow> bool) \<Rightarrow> string \<Rightarrow> string" where
  "GetDeclarationEmitExtensionForPath eqFold path =
     (if FileExtensionIsOneOf path [ExtensionMjs, ExtensionMts] then ExtensionDmts
      else if FileExtensionIsOneOf path [ExtensionCjs, ExtensionCts] then ExtensionDcts
      else if FileExtensionIsOneOf path [ExtensionTs, ExtensionTsx, ExtensionJs, ExtensionJsx] then ExtensionDts
      else
        let ext = GetAnyExtensionFromPath eqFold path [] False in
        if ext \<noteq> [] then ''.d'' @ ext @ ''.ts'' else ExtensionDts)"

definition ChangeAnyExtension ::
  "(string \<Rightarrow> string \<Rightarrow> bool) \<Rightarrow> string \<Rightarrow> string \<Rightarrow> string list \<Rightarrow> bool \<Rightarrow> string or_panic" where
  "ChangeAnyExtension eqFold path ext extensions ignoreCase =
     (let pathext = GetAnyExtensionFromPath eqFold path extensions ignoreCase in
      if pathext \<noteq> [] then
        bind_panic (RemoveExtension path pathext) (\<lambda>result.
          if ext = [] then Inr result
          else if strHasPrefix ext ''.'' then Inr (result @ ext)
          else Inr (result @ ''.'' @ ext))
      else Inr path)"

definition ChangeExtension :: "(string \<Rightarrow> string \<Rightarrow> bool) \<Rightarrow> string \<Rightarrow> string \<Rightarrow> string or_panic" where
  "ChangeExtension eqFold path newExtension = ChangeAnyExtension eqFold path newExtension extensionsToRemove False"

definition ChangeFullExtension :: "(string \<Rightarrow> string \<Rightarrow> bool) \<Rightarrow> string \<Rightarrow> string \<Rightarrow> string or_panic" where
  "ChangeFullExtension eqFold path newExtension =
     (let declarationExtension = GetDeclarationFileExtension path in
      if declarationExtension \<noteq> [] then
        let ext = (if \<not> strHasPrefix newExtension ''.'' then ''.'' @ newExtension else newExtension)
        in bind_panic (RemoveExtension path declarationExtension) (\<lambda>result. Inr (result @ ext))
      else ChangeExtension eqFold path newExtension)"

definition GetPossibleOriginalInputExtensionForExtension :: "string \<Rightarrow> string list or_panic" where
  "GetPossibleOriginalInputExtensionForExtension path =
     (if FileExtensionIsOneOf path [ExtensionDmts, ExtensionMjs, ExtensionMts] then Inr [ExtensionMts, ExtensionMjs]
      else if FileExtensionIsOneOf path [ExtensionDcts, ExtensionCjs, ExtensionCts] then Inr [ExtensionCts, ExtensionCjs]
      else
        let ext = GetDeclarationFileExtension path in
        if ext \<noteq> [] \<and> ext \<noteq> ExtensionDts then
          if 3 \<le> length ext - 3 \<and> 3 \<le> length ext
          then Inr [''.'' @ slice ext 3 (length ext - 3)]
          else Inl ''slice bounds out of range''
        else Inr [ExtensionTsx, ExtensionTs, ExtensionJsx, ExtensionJs])"

definition ignoredPaths :: "string list" where
  "ignoredPaths = [''/node_modules/.'', ''/.git'', ''.#'']"

definition ContainsIgnoredPath :: "string \<Rightarrow> bool" where
  "ContainsIgnoredPath path = list_ex (\<lambda>pattern. strContains path pattern) ignoredPaths"

section \<open>Slices stay in bounds\<close>

lemma length_GetBaseFileName: "length (GetBaseFileName p) \<le> length p"
  using length_RemoveTrailing [of "NormalizeSlashes p"]
  by (auto simp: GetBaseFileName_def Let_def split: option.splits)

lemma length_tryGetExtension: "length (tryGetExtensionFromPath path ext eq) \<le> length path"
  by (simp add: tryGetExtensionFromPath_def Let_def)

lemma length_getAnyExtensionWorker: "length (getAnyExtensionFromPathWorker path exts eq) \<le> length path"
  by (induction path exts eq rule: getAnyExtensionFromPathWorker.induct)
    (auto simp: Let_def length_tryGetExtension)

lemma length_GetAnyExtension: "length (GetAnyExtensionFromPath eqFold path exts ignoreCase) \<le> length path"
  using length_getAnyExtensionWorker [of "RemoveTrailingDirectorySeparator path" exts] length_RemoveTrailing [of path]
    length_GetBaseFileName [of path]
  by (auto simp: GetAnyExtensionFromPath_def Let_def split: option.splits intro: order_trans)

lemma GetDeclarationFileExtension_cases:
  assumes "GetDeclarationFileExtension p = ext" "ext \<noteq> []"
  shows "ext \<in> set SupportedDeclarationExtensions \<or>
    strHasPrefix ext ''.d.'' \<and> strHasSuffix ext ''.ts'' \<and> \<not> strHasSuffix ext ''.d.ts''"
    and "length ext \<le> length p"
proof -
  let ?base = "GetBaseFileName p"
  have *: "(ext \<in> set SupportedDeclarationExtensions \<and> strHasSuffix ?base ext) \<or>
    (\<exists>i. strIndex ?base ''.d.'' = Some i \<and> ext = drop i ?base \<and> strHasSuffix ?base ''.ts''
       \<and> \<not> strHasSuffix ?base ''.d.ts'')"
    using assms unfolding GetDeclarationFileExtension_def Let_def
    by (cases "find (\<lambda>ext. strHasSuffix ?base ext) SupportedDeclarationExtensions")
      (auto simp: find_Some_iff find_None_iff SupportedDeclarationExtensions_def extension_defs in_set_conv_nth
        split: if_splits option.splits)
  then show "length ext \<le> length p"
    using length_GetBaseFileName [of p] by (auto dest: length_strHasSuffix)
  show "ext \<in> set SupportedDeclarationExtensions \<or>
    strHasPrefix ext ''.d.'' \<and> strHasSuffix ext ''.ts'' \<and> \<not> strHasSuffix ext ''.d.ts''"
    using *
  proof (elim disjE exE conjE)
    fix i
    assume i: "strIndex ?base ''.d.'' = Some i" "ext = drop i ?base"
      and suf: "strHasSuffix ?base ''.ts''" "\<not> strHasSuffix ?base ''.d.ts''"
    then have pre: "strHasPrefix ext ''.d.''" and le: "i + 3 \<le> length ?base" using strIndex_Some [OF i(1)] by simp_all
    obtain t where t: "?base = t @ ''.ts''" using suf(1) by (auto simp: strHasSuffix_iff)
    have "drop i ?base = drop i t @ ''.ts''" using t le by simp
    then have "strHasSuffix ext ''.ts''" using i(2) by simp
    moreover have "\<not> strHasSuffix ext ''.d.ts''"
      using suf(2) i(2) by (metis append_take_drop_id append.assoc strHasSuffix_iff)
    ultimately show ?thesis using pre by blast
  qed blast
qed

lemma ChangeAnyExtension_no_panic:
  "\<exists>r. ChangeAnyExtension eqFold path ext extensions ignoreCase = Inr r"
  using length_GetAnyExtension [of eqFold path extensions ignoreCase]
  by (auto simp: ChangeAnyExtension_def RemoveExtension_def Let_def)

text \<open>None of the unchecked slices of \<open>extension.go\<close> is out of range: changing an extension,
  changing a full declaration extension and finding the possible input extensions return for
  every path.\<close>

theorem extension_operations_return:
  "(\<exists>r. ChangeAnyExtension eqFold path ext extensions ignoreCase = Inr r)
   \<and> (\<exists>r. ChangeFullExtension eqFold path ext = Inr r)
   \<and> (\<exists>r. GetPossibleOriginalInputExtensionForExtension path = Inr r)"
proof (intro conjI)
  show "\<exists>r. ChangeAnyExtension eqFold path ext extensions ignoreCase = Inr r" by (rule ChangeAnyExtension_no_panic)
  let ?d = "GetDeclarationFileExtension path"
  note decl = GetDeclarationFileExtension_cases [of path ?d]
  show "\<exists>r. ChangeFullExtension eqFold path ext = Inr r"
    using decl(2) ChangeAnyExtension_no_panic [of eqFold path ext extensionsToRemove False]
    by (auto simp: ChangeFullExtension_def ChangeExtension_def RemoveExtension_def Let_def)
  have "6 \<le> length ?d" if ne: "?d \<noteq> []" and "?d \<noteq> ExtensionDts"
  proof (rule ccontr)
    assume short: "\<not> 6 \<le> length ?d"
    have "?d \<notin> set SupportedDeclarationExtensions"
      using that(2) short by (auto simp: SupportedDeclarationExtensions_def extension_defs)
    then obtain s t where d: "?d = ''.d.'' @ s" "?d = t @ ''.ts''" and nd: "\<not> strHasSuffix ?d ''.d.ts''"
      using decl(1) [OF refl ne] by (auto simp: strHasPrefix_iff strHasSuffix_iff)
    have "length s \<le> 2" using d short by simp
    then consider "s = []" | a where "s = [a]" | a b where "s = [a, b]"
      by (cases s; cases "tl s"; cases "tl (tl s)") auto
    then show False using d nd by cases (auto simp: append_eq_Cons_conv strHasSuffix_def)
  qed
  then show "\<exists>r. GetPossibleOriginalInputExtensionForExtension path = Inr r"
    by (auto simp: GetPossibleOriginalInputExtensionForExtension_def Let_def)
qed

text \<open>A path with a trailing separator keeps part of its extension: the extension is found on the
  path without the separator and then cut from the path with it, so \<open>/a/f.ts/\<close> becomes
  \<open>/a/f..js\<close>.\<close>

theorem ChangeExtension_trailing_separator:
  "ChangeExtension eqFold ''/a/f.ts/'' ''.js'' = Inr ''/a/f..js''"
proof -
  have "GetAnyExtensionFromPath eqFold ''/a/f.ts/'' extensionsToRemove False = ''.ts''"
    by (simp add: GetAnyExtensionFromPath_def extensionsToRemove_def extension_defs tryGetExtensionFromPath_def
        RemoveTrailingDirectorySeparator_def HasTrailingDirectorySeparator_def isAnyDirectorySeparator_def
        GetStringEqualityComparer_def EquateStringCaseSensitive_def Let_def)
  then show ?thesis by (simp add: ChangeExtension_def ChangeAnyExtension_def RemoveExtension_def Let_def)
qed

end
