(* ===== verification/Collections.thy ===== *)
theory Collections
  imports Go_Prelude "HOL-Library.AList"
begin

text \<open>
  Package \<open>internal/collections\<close>: \<open>OrderedMap\<close>, \<open>OrderedSet\<close>, \<open>MultiMap\<close> and \<open>Set\<close>. A Go map is a
  partial function; a nil map reads as the empty one and is allocated on the first write, so the two
  are one value here. The methods of \<open>OrderedMap\<close> are those of a non-nil receiver. Iterators are
  the sequences they yield when the loop body does not change the collection. A \<open>*Set\<close> may be nil
  and is an option. JSON marshalling and the concurrent variants are not modelled.
\<close>

section \<open>OrderedMap\<close>

record ('k, 'v) OrderedMap =
  om_keys :: "'k list"
  om_mp :: "'k \<rightharpoonup> 'v"

definition newMapWithSizeHint :: "('k, 'v) OrderedMap" where
  "newMapWithSizeHint = \<lparr>om_keys = [], om_mp = Map.empty\<rparr>"

definition OM_Set :: "'k \<Rightarrow> 'v \<Rightarrow> ('k, 'v) OrderedMap \<Rightarrow> ('k, 'v) OrderedMap" where
  "OM_Set key v m =
     (let m' = (if om_mp m key = None then m\<lparr>om_keys := om_keys m @ [key]\<rparr> else m)
      in m'\<lparr>om_mp := (om_mp m')(key \<mapsto> v)\<rparr>)"

definition NewOrderedMapFromList :: "('k \<times> 'v) list \<Rightarrow> ('k, 'v) OrderedMap" where
  "NewOrderedMapFromList items = foldl (\<lambda>m (k, v). OM_Set k v m) newMapWithSizeHint items"

definition OM_Get :: "'k \<Rightarrow> ('k, 'v) OrderedMap \<Rightarrow> 'v option" where
  "OM_Get key m = om_mp m key"

definition OM_GetOrZero :: "'v \<Rightarrow> 'k \<Rightarrow> ('k, 'v) OrderedMap \<Rightarrow> 'v" where
  "OM_GetOrZero zero key m = (case om_mp m key of Some v \<Rightarrow> v | None \<Rightarrow> zero)"

definition OM_EntryAt :: "'v \<Rightarrow> int \<Rightarrow> ('k, 'v) OrderedMap \<Rightarrow> ('k \<times> 'v) option" where
  "OM_EntryAt zero index m =
     (if index < 0 \<or> index \<ge> int (length (om_keys m)) then None
      else let key = om_keys m ! nat index in Some (key, OM_GetOrZero zero key m))"

definition OM_Has :: "'k \<Rightarrow> ('k, 'v) OrderedMap \<Rightarrow> bool" where
  "OM_Has key m = (om_mp m key \<noteq> None)"

fun slicesIndex :: "'a list \<Rightarrow> 'a \<Rightarrow> nat option" where
  "slicesIndex [] x = None"
| "slicesIndex (y # ys) x = (if y = x then Some 0 else map_option Suc (slicesIndex ys x))"

definition OM_Delete :: "'k \<Rightarrow> ('k, 'v) OrderedMap \<Rightarrow> ('v option \<times> ('k, 'v) OrderedMap) or_panic" where
  \<comment> \<open>a key that is in the map and not in the list makes the removal from the list panic\<close>
  "OM_Delete key m =
     (case om_mp m key of
        None \<Rightarrow> Inr (None, m)
      | Some v \<Rightarrow>
          let mp' = (om_mp m)(key := None); keys = om_keys m; end' = length keys - 1 in
          case slicesIndex keys key of
            None \<Rightarrow> Inl ''slice bounds out of range''
          | Some i \<Rightarrow>
              if i = 0 then Inr (Some v, \<lparr>om_keys = drop 1 keys, om_mp = mp'\<rparr>)
              else if i = end' then Inr (Some v, \<lparr>om_keys = take end' keys, om_mp = mp'\<rparr>)
              else Inr (Some v, \<lparr>om_keys = take i keys @ drop (i + 1) keys, om_mp = mp'\<rparr>))"

definition OM_Keys :: "('k, 'v) OrderedMap \<Rightarrow> 'k list" where
  "OM_Keys m = om_keys m"

definition OM_Values :: "'v \<Rightarrow> ('k, 'v) OrderedMap \<Rightarrow> 'v list" where
  "OM_Values zero m = map (\<lambda>k. OM_GetOrZero zero k m) (om_keys m)"

definition OM_Entries :: "'v \<Rightarrow> ('k, 'v) OrderedMap \<Rightarrow> ('k \<times> 'v) list" where
  "OM_Entries zero m = map (\<lambda>k. (k, OM_GetOrZero zero k m)) (om_keys m)"

definition OM_Clear :: "('k, 'v) OrderedMap \<Rightarrow> ('k, 'v) OrderedMap" where
  "OM_Clear m = m\<lparr>om_keys := [], om_mp := Map.empty\<rparr>"

definition OM_Size :: "('k, 'v) OrderedMap \<Rightarrow> nat" where
  "OM_Size m = length (om_keys m)"

definition OM_Clone :: "('k, 'v) OrderedMap \<Rightarrow> ('k, 'v) OrderedMap" where
  "OM_Clone m = \<lparr>om_keys = om_keys m, om_mp = om_mp m\<rparr>"

text \<open>The callbacks of \<open>DiffOrderedMapsFunc\<close> as the list of the calls.\<close>

datatype ('k, 'v) diffCall = OnAdded 'k 'v | OnRemoved 'k 'v | OnModified 'k 'v 'v

definition DiffOrderedMapsFunc ::
  "'v \<Rightarrow> ('k, 'v) OrderedMap \<Rightarrow> ('k, 'v) OrderedMap \<Rightarrow> ('v \<Rightarrow> 'v \<Rightarrow> bool) \<Rightarrow> ('k, 'v) diffCall list" where
  "DiffOrderedMapsFunc zero m1 m2 equalValues =
     concat (map (\<lambda>(k, v2). if OM_Get k m1 = None then [OnAdded k v2] else []) (OM_Entries zero m2)) @
     concat (map (\<lambda>(k, v1). case OM_Get k m2 of
                              Some v2 \<Rightarrow> if \<not> equalValues v1 v2 then [OnModified k v1 v2] else []
                            | None \<Rightarrow> [OnRemoved k v1]) (OM_Entries zero m1))"

definition DiffOrderedMaps :: "'v \<Rightarrow> ('k, 'v) OrderedMap \<Rightarrow> ('k, 'v) OrderedMap \<Rightarrow> ('k, 'v) diffCall list" where
  "DiffOrderedMaps zero m1 m2 = DiffOrderedMapsFunc zero m1 m2 (\<lambda>a b. a = b)"

section \<open>The contract of an insertion-ordered map\<close>

text \<open>Clients see an association list in insertion order: setting a known key keeps its place,
  setting a new key appends it, deleting removes it. The laws below are all they rely on.\<close>

locale insertion_ordered_map =
  fixes empty :: 'm
    and put :: "'k \<Rightarrow> 'v \<Rightarrow> 'm \<Rightarrow> 'm"
    and remove :: "'k \<Rightarrow> 'm \<Rightarrow> ('v option \<times> 'm) or_panic"
    and entries :: "'m \<Rightarrow> ('k \<times> 'v) list"
    and ok :: "'m \<Rightarrow> bool"
  assumes ok_empty: "ok empty" and ok_put: "ok m \<Longrightarrow> ok (put k v m)"
    and entries_empty: "entries empty = []"
    and entries_put: "ok m \<Longrightarrow> entries (put k v m) = AList.update k v (entries m)"
    and remove_law: "ok m \<Longrightarrow> \<exists>m'. remove k m = Inr (map_of (entries m) k, m') \<and> ok m'
      \<and> entries m' = AList.delete k (entries m)"
    and entries_distinct: "ok m \<Longrightarrow> distinct (map fst (entries m))"
begin

definition puts :: "('k \<times> 'v) list \<Rightarrow> 'm \<Rightarrow> 'm" where
  "puts kvs m = foldl (\<lambda>m (k, v). put k v m) m kvs"

lemma lookup_put: "ok m \<Longrightarrow> map_of (entries (put k v m)) = (map_of (entries m))(k \<mapsto> v)"
  by (simp add: entries_put update_conv')

lemma keys_put:
  "ok m \<Longrightarrow> map fst (entries (put k v m)) =
     (if k \<in> fst ` set (entries m) then map fst (entries m) else map fst (entries m) @ [k])"
  by (simp add: entries_put update_keys)

lemma ok_puts: "ok m \<Longrightarrow> ok (puts kvs m)"
  unfolding puts_def by (induction kvs arbitrary: m) (auto simp: ok_put)

lemma lookup_puts: "ok m \<Longrightarrow> map_of (entries (puts kvs m)) = map_of (entries m) ++ map_of (rev kvs)"
  unfolding puts_def
proof (induction kvs arbitrary: m)
  case (Cons kv kvs)
  then show ?case by (cases kv) (auto simp: ok_put lookup_put map_add_def fun_eq_iff split: option.splits)
qed simp

text \<open>Filling an empty map lists every key once, in the order of its first occurrence.\<close>

lemma keys_puts: "map fst (entries (puts kvs empty)) = rev (remdups (rev (map fst kvs)))"
proof (induction kvs rule: rev_induct)
  case (snoc kv kvs)
  obtain k v where kv: "kv = (k, v)" by force
  have "k \<in> fst ` set (entries (puts kvs empty)) \<longleftrightarrow> k \<in> set (map fst kvs)"
    using snoc by (metis image_set set_rev set_remdups)
  moreover have "entries (puts (kvs @ [kv]) empty) = entries (put k v (puts kvs empty))" by (simp add: puts_def kv)
  ultimately show ?case using snoc keys_put [OF ok_puts [OF ok_empty], of k v kvs] kv by (simp add: image_iff)
qed (simp add: puts_def entries_empty)

end

section \<open>OrderedMap keeps the contract\<close>

definition OM_ok :: "('k, 'v) OrderedMap \<Rightarrow> bool" where
  "OM_ok m \<longleftrightarrow> distinct (om_keys m) \<and> dom (om_mp m) = set (om_keys m)"

definition OM_alist :: "('k, 'v) OrderedMap \<Rightarrow> ('k \<times> 'v) list" where
  \<comment> \<open>the abstraction: the entries in the order of the keys\<close>
  "OM_alist m = map (\<lambda>k. (k, the (om_mp m k))) (om_keys m)"

lemma OM_Entries_alist: "OM_ok m \<Longrightarrow> OM_Entries zero m = OM_alist m"
  by (auto simp: OM_Entries_def OM_alist_def OM_GetOrZero_def OM_ok_def split: option.splits)

lemma map_of_OM_alist: "OM_ok m \<Longrightarrow> map_of (OM_alist m) = om_mp m"
proof
  fix k
  assume ok: "OM_ok m"
  show "map_of (OM_alist m) k = om_mp m k"
  proof (cases "k \<in> set (om_keys m)")
    case True
    then have "om_mp m k \<noteq> None" using ok by (auto simp: OM_ok_def)
    then show ?thesis using True by (simp add: OM_alist_def map_of_map_restrict)
  next
    case False
    then have "om_mp m k = None" using ok by (auto simp: OM_ok_def)
    then show ?thesis using False by (simp add: OM_alist_def map_of_map_restrict)
  qed
qed

lemma update_map_pair:
  "distinct ks \<Longrightarrow> k \<in> set ks \<Longrightarrow> AList.update k v (map (\<lambda>k. (k, f k)) ks) = map (\<lambda>j. (j, if j = k then v else f j)) ks"
  by (induction ks) auto

lemma update_map_pair_new:
  "k \<notin> set ks \<Longrightarrow> AList.update k v (map (\<lambda>k. (k, f k)) ks) = map (\<lambda>k. (k, f k)) ks @ [(k, v)]"
  by (induction ks) auto

lemma delete_map_pair:
  "AList.delete k (map (\<lambda>k. (k, f k)) ks) = map (\<lambda>k. (k, f k)) (filter (\<lambda>j. j \<noteq> k) ks)"
  by (induction ks) auto

lemma OM_alist_Set:
  assumes "OM_ok m"
  shows "OM_alist (OM_Set k v m) = AList.update k v (OM_alist m)"
proof (cases "om_mp m k = None")
  case True
  then have "k \<notin> set (om_keys m)" using assms by (auto simp: OM_ok_def)
  then show ?thesis using True by (auto simp: OM_Set_def OM_alist_def update_map_pair_new)
next
  case False
  then have "k \<in> set (om_keys m)" using assms by (auto simp: OM_ok_def)
  then show ?thesis using False assms by (auto simp: OM_Set_def OM_alist_def OM_ok_def update_map_pair)
qed

lemma OM_ok_Set: "OM_ok m \<Longrightarrow> OM_ok (OM_Set k v m)"
  by (auto simp: OM_ok_def OM_Set_def Let_def split: if_splits)

lemma slicesIndex_Some: "slicesIndex xs x = Some i \<Longrightarrow> i < length xs \<and> xs ! i = x"
  by (induction xs arbitrary: i) (auto split: if_splits)

lemma slicesIndex_None: "slicesIndex xs x = None \<longleftrightarrow> x \<notin> set xs"
  by (induction xs) auto

lemma filter_remove_nth:
  assumes "distinct xs" "i < length xs"
  shows "filter (\<lambda>y. y \<noteq> xs ! i) xs = take i xs @ drop (i + 1) xs"
proof -
  have xs: "xs = take i xs @ xs ! i # drop (i + 1) xs" using assms(2) id_take_nth_drop by fastforce
  then have "distinct (take i xs @ xs ! i # drop (i + 1) xs)" using assms(1) by simp
  then have "filter (\<lambda>y. y \<noteq> xs ! i) (take i xs) = take i xs" "filter (\<lambda>y. y \<noteq> xs ! i) (drop (i + 1) xs) = drop (i + 1) xs"
    by (auto simp: filter_id_conv)
  then show ?thesis by (subst xs) simp
qed

lemma OM_Delete_law:
  assumes ok: "OM_ok m"
  shows "\<exists>m'. OM_Delete k m = Inr (map_of (OM_alist m) k, m') \<and> OM_ok m' \<and> OM_alist m' = AList.delete k (OM_alist m)"
proof (cases "om_mp m k")
  case None
  then have "k \<notin> set (om_keys m)" using ok by (auto simp: OM_ok_def)
  then have "filter (\<lambda>j. j \<noteq> k) (om_keys m) = om_keys m" by (intro filter_True) auto
  then have "AList.delete k (OM_alist m) = OM_alist m" by (simp add: OM_alist_def delete_map_pair)
  then show ?thesis using None ok by (simp add: OM_Delete_def map_of_OM_alist)
next
  case (Some v)
  then have "k \<in> set (om_keys m)" using ok by (auto simp: OM_ok_def)
  then obtain i where i: "slicesIndex (om_keys m) k = Some i"
    using slicesIndex_None [of "om_keys m" k] by (cases "slicesIndex (om_keys m) k") simp_all
  then have nth: "i < length (om_keys m)" "om_keys m ! i = k" using slicesIndex_Some [OF i] by simp_all
  define ks where "ks = take i (om_keys m) @ drop (i + 1) (om_keys m)"
  have ks: "ks = filter (\<lambda>j. j \<noteq> k) (om_keys m)"
    using filter_remove_nth [of "om_keys m" i] ok nth by (simp add: OM_ok_def ks_def)
  let ?m = "\<lparr>om_keys = ks, om_mp = (om_mp m)(k := None)\<rparr>"
  have "i = length (om_keys m) - 1 \<Longrightarrow> take (length (om_keys m) - 1) (om_keys m) = ks"
    using nth(1) by (simp add: ks_def)
  then have "OM_Delete k m = Inr (Some v, ?m)" using Some i by (simp add: OM_Delete_def Let_def ks_def)
  moreover have "OM_ok ?m" using ok ks by (auto simp: OM_ok_def)
  moreover have "OM_alist ?m = AList.delete k (OM_alist m)"
    by (simp add: OM_alist_def delete_map_pair ks)
  ultimately show ?thesis using ok Some by (auto simp: map_of_OM_alist)
qed

interpretation om: insertion_ordered_map newMapWithSizeHint OM_Set OM_Delete OM_alist OM_ok
proof
  fix m :: "('a, 'b) OrderedMap" and k v
  show "OM_ok newMapWithSizeHint" "OM_alist newMapWithSizeHint = []"
    by (simp_all add: newMapWithSizeHint_def OM_ok_def OM_alist_def)
  assume ok: "OM_ok m"
  show "OM_ok (OM_Set k v m)" by (rule OM_ok_Set [OF ok])
  show "OM_alist (OM_Set k v m) = AList.update k v (OM_alist m)" by (rule OM_alist_Set [OF ok])
  show "\<exists>m'. OM_Delete k m = Inr (map_of (OM_alist m) k, m') \<and> OM_ok m' \<and> OM_alist m' = AList.delete k (OM_alist m)"
    by (rule OM_Delete_law [OF ok])
  show "distinct (map fst (OM_alist m))" using ok by (simp add: OM_alist_def OM_ok_def comp_def)
qed

section \<open>Properties of OrderedMap\<close>

text \<open>C9. \<open>OrderedMap\<close> refines an insertion-ordered association list: on every map whose key list and
  map agree, \<open>Set\<close> replaces the value in place or appends the key, \<open>Delete\<close> never panics,
  returns the value that was there and removes exactly that entry, and both keep the agreement.\<close>

theorem OrderedMap_refines_alist:
  assumes "OM_ok m"
  shows "OM_ok (OM_Set k v m) \<and> OM_Entries zero (OM_Set k v m) = AList.update k v (OM_Entries zero m)
    \<and> (\<exists>m'. OM_Delete k m = Inr (OM_Get k m, m') \<and> OM_ok m' \<and> OM_Entries zero m' = AList.delete k (OM_Entries zero m))"
proof -
  obtain m' where m': "OM_Delete k m = Inr (map_of (OM_alist m) k, m')" "OM_ok m'" "OM_alist m' = AList.delete k (OM_alist m)"
    using om.remove_law [OF assms] by blast
  then show ?thesis using assms om.ok_put [OF assms] om.entries_put [OF assms]
    by (simp add: OM_Entries_alist map_of_OM_alist OM_Get_def)
qed

theorem OrderedMap_refines_alist_witness:
  "OM_Entries 0 (OM_Set (1::nat) (5::nat) (NewOrderedMapFromList [(1, 2), (3, 4)])) = [(1, 5), (3, 4)]"
proof -
  let ?m = "NewOrderedMapFromList [(1::nat, 2::nat), (3, 4)]"
  have m: "om_keys ?m = [1, 3]" "om_mp ?m = [1 \<mapsto> 2, 3 \<mapsto> 4]"
    by (simp_all add: NewOrderedMapFromList_def OM_Set_def newMapWithSizeHint_def)
  then have "OM_ok ?m" by (auto simp: OM_ok_def)
  from OrderedMap_refines_alist [OF this, of 1 5 0] show ?thesis
    using m by (simp add: OM_Entries_def OM_GetOrZero_def)
qed

text \<open>A map built from a list has every key once, in the order of its first occurrence, with the
  value of its last occurrence.\<close>

theorem NewOrderedMapFromList_entries:
  "OM_Keys (NewOrderedMapFromList items) = rev (remdups (rev (map fst items)))
   \<and> (\<forall>k. OM_Get k (NewOrderedMapFromList items) = map_of (rev items) k)"
proof -
  have eq: "NewOrderedMapFromList items = om.puts items newMapWithSizeHint"
    by (simp add: NewOrderedMapFromList_def om.puts_def)
  have ok: "OM_ok (NewOrderedMapFromList items)" unfolding eq by (rule om.ok_puts [OF om.ok_empty])
  have "om_keys (NewOrderedMapFromList items) = map fst (OM_alist (NewOrderedMapFromList items))"
    by (simp add: OM_alist_def comp_def)
  then show ?thesis
    using om.keys_puts [of items] om.lookup_puts [OF om.ok_empty, of items] map_of_OM_alist [OF ok]
    unfolding eq by (simp add: OM_Keys_def OM_Get_def om.entries_empty)
qed

text \<open>Applying the reported differences.\<close>

fun applyDiff :: "('k, 'v) diffCall \<Rightarrow> ('k \<rightharpoonup> 'v) \<Rightarrow> ('k \<rightharpoonup> 'v)" where
  "applyDiff (OnAdded k v) m = m(k \<mapsto> v)"
| "applyDiff (OnRemoved k v) m = m(k := None)"
| "applyDiff (OnModified k v v') m = m(k \<mapsto> v')"

fun diffKey :: "('k, 'v) diffCall \<Rightarrow> 'k" where
  "diffKey (OnAdded k v) = k" | "diffKey (OnRemoved k v) = k" | "diffKey (OnModified k v v') = k"

lemma applyDiff_other: "diffKey c \<noteq> k \<Longrightarrow> applyDiff c m k = m k"
  by (cases c) auto

lemma fold_applyDiff:
  "fold applyDiff cs m k = (case find (\<lambda>c. diffKey c = k) (rev cs) of Some c \<Rightarrow> applyDiff c m k | None \<Rightarrow> m k)"
proof (induction cs rule: rev_induct)
  case (snoc c cs)
  have same: "applyDiff c m' k = applyDiff c m k" if "diffKey c = k" for m' using that by (cases c) auto
  show ?case
  proof (cases "diffKey c = k")
    case True
    then show ?thesis using same [of "fold applyDiff cs m"] by simp
  next
    case False
    then show ?thesis using snoc applyDiff_other [of c k] by simp
  qed
qed simp

lemma in_concat_entries:
  assumes "OM_ok m"
  shows "x \<in> set (concat (map f (OM_alist m))) \<longleftrightarrow> (\<exists>k v. om_mp m k = Some v \<and> x \<in> set (f (k, v)))"
proof -
  have "kv \<in> set (OM_alist m) \<longleftrightarrow> om_mp m (fst kv) = Some (snd kv)" for kv
    using map_of_OM_alist [OF assms] om.entries_distinct [OF assms] by (metis map_of_eq_Some_iff prod.collapse)
  then show ?thesis by (auto simp: Bex_def)
qed

lemma DiffOrderedMaps_calls:
  assumes "OM_ok m1" "OM_ok m2"
  shows "c \<in> set (DiffOrderedMaps zero m1 m2) \<longleftrightarrow>
    (case c of OnAdded k v \<Rightarrow> om_mp m1 k = None \<and> om_mp m2 k = Some v
     | OnRemoved k v \<Rightarrow> om_mp m1 k = Some v \<and> om_mp m2 k = None
     | OnModified k v v' \<Rightarrow> om_mp m1 k = Some v \<and> om_mp m2 k = Some v' \<and> v \<noteq> v')"
  unfolding DiffOrderedMaps_def DiffOrderedMapsFunc_def OM_Entries_alist [OF assms(1)] OM_Entries_alist [OF assms(2)]
    set_append Un_iff in_concat_entries [OF assms(1)] in_concat_entries [OF assms(2)] OM_Get_def
  by (cases c) (auto split: option.splits if_splits)

lemma DiffOrderedMaps_hit:
  assumes "OM_ok m1" "OM_ok m2" "c \<in> set (DiffOrderedMaps zero m1 m2)"
  shows "applyDiff c (om_mp m1) (diffKey c) = om_mp m2 (diffKey c)"
  using DiffOrderedMaps_calls [OF assms(1,2), of c zero] assms(3) by (cases c) simp_all

lemma DiffOrderedMaps_miss:
  assumes "OM_ok m1" "OM_ok m2" "\<forall>c\<in>set (DiffOrderedMaps zero m1 m2). diffKey c \<noteq> k"
  shows "om_mp m1 k = om_mp m2 k"
proof -
  note calls = DiffOrderedMaps_calls [OF assms(1,2), of _ zero]
  have "(OnAdded k v :: ('a, 'b) diffCall) \<notin> set (DiffOrderedMaps zero m1 m2)"
    "(OnRemoved k v :: ('a, 'b) diffCall) \<notin> set (DiffOrderedMaps zero m1 m2)"
    "(OnModified k v v' :: ('a, 'b) diffCall) \<notin> set (DiffOrderedMaps zero m1 m2)" for v v'
    using assms(3) by (metis diffKey.simps)+
  then show ?thesis unfolding calls diffCall.case by (metis not_None_eq)
qed

text \<open>The difference of two ordered maps is complete and exact: applying the reported calls, in
  order, to the first map gives the second one.\<close>

theorem DiffOrderedMaps_complete:
  assumes "OM_ok m1" "OM_ok m2"
  shows "fold applyDiff (DiffOrderedMaps zero m1 m2) (om_mp m1) = om_mp m2"
proof
  fix k
  let ?cs = "DiffOrderedMaps zero m1 m2"
  show "fold applyDiff ?cs (om_mp m1) k = om_mp m2 k"
  proof (cases "find (\<lambda>c. diffKey c = k) (rev ?cs)")
    case None
    then have "\<forall>c\<in>set ?cs. diffKey c \<noteq> k" by (simp add: find_None_iff Ball_def)
    then show ?thesis using DiffOrderedMaps_miss [OF assms] None by (simp add: fold_applyDiff)
  next
    case (Some c)
    then have "diffKey c = k" "c \<in> set ?cs" by (metis (mono_tags, lifting) find_Some_iff nth_mem set_rev)+
    then show ?thesis using Some DiffOrderedMaps_hit [OF assms] by (auto simp: fold_applyDiff)
  qed
qed

theorem DiffOrderedMaps_complete_witness:
  "fold applyDiff (DiffOrderedMaps 0 (NewOrderedMapFromList [(1::nat, 2::nat)]) (NewOrderedMapFromList [(1, 3), (4, 5)])) [1 \<mapsto> 2] 4 = Some 5"
proof -
  let ?a = "NewOrderedMapFromList [(1::nat, 2::nat)]" and ?b = "NewOrderedMapFromList [(1::nat, 3::nat), (4, 5)]"
  have m: "om_mp ?a = [1 \<mapsto> 2]" "om_mp ?b = [1 \<mapsto> 3, 4 \<mapsto> 5]" "om_keys ?a = [1]" "om_keys ?b = [1, 4]"
    by (simp_all add: NewOrderedMapFromList_def OM_Set_def newMapWithSizeHint_def)
  then have "OM_ok ?a" "OM_ok ?b" by (auto simp: OM_ok_def)
  from DiffOrderedMaps_complete [OF this, of 0] show ?thesis using m by simp
qed

section \<open>OrderedSet\<close>

type_synonym 'a OrderedSet = "('a, unit) OrderedMap"

definition OS_Add :: "'a \<Rightarrow> 'a OrderedSet \<Rightarrow> 'a OrderedSet" where
  "OS_Add v s = OM_Set v () s"

definition OS_Has :: "'a \<Rightarrow> 'a OrderedSet \<Rightarrow> bool" where
  "OS_Has v s = OM_Has v s"

definition OS_Delete :: "'a \<Rightarrow> 'a OrderedSet \<Rightarrow> (bool \<times> 'a OrderedSet) or_panic" where
  "OS_Delete v s = bind_panic (OM_Delete v s) (\<lambda>(r, s'). Inr (r \<noteq> None, s'))"

definition OS_Values :: "'a OrderedSet \<Rightarrow> 'a list" where
  "OS_Values s = OM_Keys s"

definition OS_Clear :: "'a OrderedSet \<Rightarrow> 'a OrderedSet" where
  "OS_Clear s = OM_Clear s"

definition OS_Size :: "'a OrderedSet \<Rightarrow> nat" where
  "OS_Size s = OM_Size s"

definition OS_Clone :: "'a OrderedSet \<Rightarrow> 'a OrderedSet" where
  "OS_Clone s = OM_Clone s"

text \<open>\<open>OrderedSet\<close> is a duplicate-free list: adding a member changes nothing, adding a new value
  appends it, deleting removes exactly it and reports whether it was there.\<close>

theorem OrderedSet_operations:
  assumes "OM_ok s"
  shows "OS_Values (OS_Add v s) = (if OS_Has v s then OS_Values s else OS_Values s @ [v])
    \<and> (\<exists>s'. OS_Delete v s = Inr (OS_Has v s, s') \<and> OM_ok s' \<and> OS_Values s' = filter (\<lambda>x. x \<noteq> v) (OS_Values s))
    \<and> (OS_Has v s \<longleftrightarrow> v \<in> set (OS_Values s)) \<and> OS_Size s = card (set (OS_Values s))"
proof -
  have keys: "OS_Values x = map fst (OM_alist x)" for x :: "'a OrderedSet"
    by (simp add: OS_Values_def OM_Keys_def OM_alist_def comp_def)
  have has: "OS_Has v s \<longleftrightarrow> v \<in> fst ` set (OM_alist s)"
    using assms by (auto simp: OS_Has_def OM_Has_def OM_alist_def OM_ok_def image_iff)
  obtain s' where s': "OM_Delete v s = Inr (map_of (OM_alist s) v, s')" "OM_ok s'" "OM_alist s' = AList.delete v (OM_alist s)"
    using om.remove_law [OF assms] by blast
  have "OS_Delete v s = Inr (OS_Has v s, s')"
    using s'(1) has map_of_eq_None_iff [of "OM_alist s" v] by (cases "map_of (OM_alist s) v") (simp_all add: OS_Delete_def)
  moreover have "OS_Values s' = filter (\<lambda>x. x \<noteq> v) (OS_Values s)"
    unfolding keys s'(3) by (simp add: OM_alist_def delete_map_pair comp_def)
  moreover have "OS_Values (OS_Add v s) = (if OS_Has v s then OS_Values s else OS_Values s @ [v])"
    using om.keys_put [OF assms, of v "()"] has unfolding keys OS_Add_def by simp
  moreover have "OS_Size s = card (set (OS_Values s))"
    using assms by (simp add: OS_Size_def OM_Size_def OS_Values_def OM_Keys_def OM_ok_def distinct_card)
  ultimately show ?thesis using has s'(2) by (simp add: keys image_iff)
qed

theorem OrderedSet_operations_witness:
  "OS_Values (OS_Add (2::nat) (OS_Add 1 (OS_Add 2 newMapWithSizeHint))) = [2, 1]"
proof -
  let ?s = "OS_Add 1 (OS_Add (2::nat) newMapWithSizeHint)"
  have s: "om_keys ?s = [2, 1]" "om_mp ?s = [2 \<mapsto> (), 1 \<mapsto> ()]"
    by (simp_all add: OS_Add_def OM_Set_def newMapWithSizeHint_def)
  then have "OM_ok ?s" by (auto simp: OM_ok_def)
  from OrderedSet_operations [OF this, of 2] show ?thesis
    using s by (simp add: OS_Values_def OM_Keys_def OS_Has_def OM_Has_def)
qed

end
