(* ===== verification/Collections_Sets.thy ===== *)
theory Collections_Sets
  imports Collections
begin

text \<open>
  Package \<open>internal/collections\<close>: \<open>MultiMap\<close> and \<open>Set\<close>. The order in which Go ranges over a map is
  unspecified, so key sequences are sets. A nil \<open>*Set\<close> is \<open>None\<close>; a method that would dereference it
  panics.
\<close>

section \<open>MultiMap\<close>

record ('k, 'v) MultiMap =
  mm_M :: "'k \<rightharpoonup> 'v list"

definition NewMultiMapWithSizeHint :: "('k, 'v) MultiMap" where
  "NewMultiMapWithSizeHint = \<lparr>mm_M = Map.empty\<rparr>"

definition MM_Has :: "'k \<Rightarrow> ('k, 'v) MultiMap \<Rightarrow> bool" where
  "MM_Has key s = (mm_M s key \<noteq> None)"

definition MM_Get :: "'k \<Rightarrow> ('k, 'v) MultiMap \<Rightarrow> 'v list" where
  "MM_Get key s = (case mm_M s key of Some vs \<Rightarrow> vs | None \<Rightarrow> [])"

definition MM_Add :: "'k \<Rightarrow> 'v \<Rightarrow> ('k, 'v) MultiMap \<Rightarrow> ('k, 'v) MultiMap" where
  "MM_Add key v s = s\<lparr>mm_M := (mm_M s)(key \<mapsto> MM_Get key s @ [v])\<rparr>"

definition MM_Remove :: "'k \<Rightarrow> 'v \<Rightarrow> ('k, 'v) MultiMap \<Rightarrow> ('k, 'v) MultiMap" where
  "MM_Remove key v s =
     (case mm_M s key of
        None \<Rightarrow> s
      | Some values \<Rightarrow>
          (case slicesIndex values v of
             None \<Rightarrow> s
           | Some i \<Rightarrow>
               if length values = 1 then s\<lparr>mm_M := (mm_M s)(key := None)\<rparr>
               else s\<lparr>mm_M := (mm_M s)(key \<mapsto> take i values @ drop (i + 1) values)\<rparr>))"

definition MM_RemoveAll :: "'k \<Rightarrow> ('k, 'v) MultiMap \<Rightarrow> ('k, 'v) MultiMap" where
  "MM_RemoveAll key s = s\<lparr>mm_M := (mm_M s)(key := None)\<rparr>"

definition MM_Len :: "('k, 'v) MultiMap \<Rightarrow> nat" where
  "MM_Len s = card (dom (mm_M s))"

definition MM_Keys :: "('k, 'v) MultiMap \<Rightarrow> 'k set" where
  "MM_Keys s = dom (mm_M s)"

definition MM_Clear :: "('k, 'v) MultiMap \<Rightarrow> ('k, 'v) MultiMap" where
  "MM_Clear s = s\<lparr>mm_M := Map.empty\<rparr>"

definition GroupBy :: "'v list \<Rightarrow> ('v \<Rightarrow> 'k) \<Rightarrow> ('k, 'v) MultiMap" where
  "GroupBy items groupId = foldl (\<lambda>m item. MM_Add (groupId item) item m) \<lparr>mm_M = Map.empty\<rparr> items"

subsection \<open>Every key has a value\<close>

definition MM_ok :: "('k, 'v) MultiMap \<Rightarrow> bool" where
  "MM_ok s \<longleftrightarrow> (\<forall>k. mm_M s k \<noteq> Some [])"

lemma remove1_slicesIndex: "slicesIndex xs x = Some i \<Longrightarrow> remove1 x xs = take i xs @ drop (i + 1) xs"
  by (induction xs arbitrary: i) (auto split: if_splits)

lemma MM_Get_Add: "MM_Get j (MM_Add k v s) = (if j = k then MM_Get k s @ [v] else MM_Get j s)"
  by (simp add: MM_Get_def MM_Add_def)

lemma MM_Get_Remove:
  "MM_Get j (MM_Remove k v s) = (if j = k then remove1 v (MM_Get k s) else MM_Get j s)"
proof (cases "mm_M s k")
  case None
  then show ?thesis by (simp add: MM_Remove_def MM_Get_def)
next
  case (Some vs)
  show ?thesis
  proof (cases "slicesIndex vs v")
    case None
    then have "v \<notin> set vs" by (simp add: slicesIndex_None)
    then show ?thesis using Some None by (simp add: MM_Remove_def MM_Get_def remove1_idem)
  next
    case (Some i)
    have i: "i < length vs" using slicesIndex_Some [OF Some] by simp
    have one: "remove1 v vs = []" if "length vs = 1"
      using that remove1_slicesIndex [OF Some] i by simp
    show ?thesis
      using \<open>mm_M s k = Some vs\<close> Some remove1_slicesIndex [OF Some] one
      by (auto simp: MM_Remove_def MM_Get_def)
  qed
qed

lemma MM_ok_ops:
  assumes "MM_ok s"
  shows "MM_ok (MM_Add k v s)" "MM_ok (MM_Remove k v s)" "MM_ok (MM_RemoveAll k s)" "MM_ok (MM_Clear s)"
proof -
  show "MM_ok (MM_Add k v s)" "MM_ok (MM_RemoveAll k s)" "MM_ok (MM_Clear s)"
    using assms by (simp_all add: MM_ok_def MM_Add_def MM_RemoveAll_def MM_Clear_def)
  have "take i vs @ drop (i + 1) vs \<noteq> []" if "slicesIndex vs v = Some i" "length vs \<noteq> 1" for vs i
    using slicesIndex_Some [OF that(1)] that(2) by (cases vs) auto
  then show "MM_ok (MM_Remove k v s)"
    using assms by (auto simp: MM_ok_def MM_Remove_def split: option.splits)
qed

text \<open>\<open>MultiMap\<close> never keeps an empty bucket: every operation preserves that each present key has a
  value, \<open>Add\<close> appends to its key alone, and \<open>Remove\<close> removes the first occurrence from its key
  alone, dropping the key with its last value.\<close>

theorem MultiMap_operations:
  assumes "MM_ok s"
  shows "MM_ok (MM_Add k v s) \<and> MM_ok (MM_Remove k v s)
    \<and> MM_Get j (MM_Add k v s) = (if j = k then MM_Get k s @ [v] else MM_Get j s)
    \<and> MM_Get j (MM_Remove k v s) = (if j = k then remove1 v (MM_Get k s) else MM_Get j s)
    \<and> (MM_Has j (MM_Remove k v s) \<longleftrightarrow> MM_Get j (MM_Remove k v s) \<noteq> [])"
proof -
  have "MM_Has j t \<longleftrightarrow> MM_Get j t \<noteq> []" if "MM_ok t" for t :: "('a, 'b) MultiMap"
    using that by (cases "mm_M t j") (auto simp: MM_ok_def MM_Has_def MM_Get_def)
  then show ?thesis using MM_ok_ops [OF assms] by (simp add: MM_Get_Add MM_Get_Remove)
qed

theorem MultiMap_operations_witness:
  "MM_Get (1::nat) (MM_Remove 1 (7::nat) \<lparr>mm_M = [1 \<mapsto> [7, 8, 7]]\<rparr>) = [8, 7]"
proof -
  have "MM_ok \<lparr>mm_M = [1::nat \<mapsto> [7::nat, 8, 7]]\<rparr>" by (simp add: MM_ok_def)
  from MultiMap_operations [OF this, of 1 7 1] show ?thesis by (simp add: MM_Get_def)
qed

text \<open>\<open>GroupBy\<close> is a stable partition: the bucket of a key holds exactly the items of that group,
  in their original order, and only groups with an item are present.\<close>

theorem GroupBy_partition:
  "MM_Get k (GroupBy items groupId) = filter (\<lambda>item. groupId item = k) items
   \<and> MM_Keys (GroupBy items groupId) = groupId ` set items"
proof (induction items rule: rev_induct)
  case Nil
  then show ?case by (simp add: GroupBy_def MM_Get_def MM_Keys_def)
next
  case (snoc x xs)
  have "GroupBy (xs @ [x]) groupId = MM_Add (groupId x) x (GroupBy xs groupId)" by (simp add: GroupBy_def)
  moreover have "MM_Keys (MM_Add (groupId x) x m) = insert (groupId x) (MM_Keys m)" for m
    by (simp add: MM_Keys_def MM_Add_def)
  ultimately show ?case using snoc by (auto simp: MM_Get_Add)
qed

section \<open>Set\<close>

record 'a Set =
  set_M :: "'a set"

type_synonym 'a SetPtr = "'a Set option"

definition NewSetWithSizeHint :: "'a Set" where "NewSetWithSizeHint = \<lparr>set_M = {}\<rparr>"

definition Set_Has :: "'a SetPtr \<Rightarrow> 'a \<Rightarrow> bool" where
  "Set_Has s key = (case s of None \<Rightarrow> False | Some s \<Rightarrow> key \<in> set_M s)"

definition Set_Add :: "'a \<Rightarrow> 'a Set \<Rightarrow> 'a Set" where
  "Set_Add key s = s\<lparr>set_M := insert key (set_M s)\<rparr>"

definition Set_Delete :: "'a \<Rightarrow> 'a Set \<Rightarrow> 'a Set" where
  "Set_Delete key s = s\<lparr>set_M := set_M s - {key}\<rparr>"

definition Set_Len :: "'a SetPtr \<Rightarrow> nat" where
  "Set_Len s = (case s of None \<Rightarrow> 0 | Some s \<Rightarrow> card (set_M s))"

definition Set_Keys :: "'a SetPtr \<Rightarrow> 'a set" where
  "Set_Keys s = (case s of None \<Rightarrow> {} | Some s \<Rightarrow> set_M s)"

definition Set_Clear :: "'a SetPtr \<Rightarrow> 'a SetPtr" where
  "Set_Clear s = map_option (\<lambda>s. s\<lparr>set_M := {}\<rparr>) s"

definition Set_AddIfAbsent :: "'a \<Rightarrow> 'a Set \<Rightarrow> bool \<times> 'a Set" where
  "Set_AddIfAbsent key s = (if Set_Has (Some s) key then (False, s) else (True, Set_Add key s))"

definition Set_Clone :: "'a SetPtr \<Rightarrow> 'a SetPtr" where
  "Set_Clone s = map_option (\<lambda>s. \<lparr>set_M = set_M s\<rparr>) s"

definition Set_Union :: "'a SetPtr \<Rightarrow> 'a SetPtr \<Rightarrow> 'a SetPtr or_panic" where
  \<comment> \<open>the receiver after the call; \<open>other.M\<close> of a nil \<open>other\<close> is a nil dereference\<close>
  "Set_Union s other =
     (if Set_Len s = 0 \<and> Set_Len other = 0 then Inr s
      else case s of
        None \<Rightarrow> Inl ''cannot modify nil Set''
      | Some s' \<Rightarrow>
          (case other of
             None \<Rightarrow> Inl ''invalid memory address or nil pointer dereference''
           | Some other' \<Rightarrow> Inr (Some (s'\<lparr>set_M := set_M s' \<union> set_M other'\<rparr>))))"

definition Set_UnionedWith :: "'a SetPtr \<Rightarrow> 'a SetPtr \<Rightarrow> 'a SetPtr" where
  "Set_UnionedWith s other =
     (if s = None \<and> other = None then None
      else
        let result = Set_Clone s in
        case other of
          None \<Rightarrow> result
        | Some other' \<Rightarrow> Some \<lparr>set_M = Set_Keys result \<union> set_M other'\<rparr>)"

definition Set_Equals :: "'a SetPtr \<Rightarrow> 'a SetPtr \<Rightarrow> bool" where
  "Set_Equals s other =
     (case (s, other) of
        (None, None) \<Rightarrow> True
      | (Some a, Some b) \<Rightarrow> set_M a = set_M b
      | _ \<Rightarrow> False)"

definition Set_IsSubsetOf :: "'a SetPtr \<Rightarrow> 'a SetPtr \<Rightarrow> bool" where
  "Set_IsSubsetOf s other = (case s of None \<Rightarrow> True | Some s' \<Rightarrow> Set.Ball (set_M s') (Set_Has other))"

definition Set_Intersects :: "'a SetPtr \<Rightarrow> 'a SetPtr \<Rightarrow> bool" where
  "Set_Intersects s other =
     (if s = None \<or> other = None then False else Set.Bex (Set_Keys s) (Set_Has other))"

definition NewSetFromItems :: "'a list \<Rightarrow> 'a Set" where
  "NewSetFromItems items = foldl (\<lambda>s item. Set_Add item s) \<lparr>set_M = {}\<rparr> items"

lemma Set_Has_Keys: "Set_Has s x \<longleftrightarrow> x \<in> Set_Keys s"
  by (simp add: Set_Has_def Set_Keys_def split: option.splits)

text \<open>The relations of \<open>Set\<close> are those of the sets of their keys, a nil set being empty, and the
  non-destructive union has the keys of both; only \<open>Equals\<close> tells nil from empty.\<close>

theorem Set_relations:
  "(Set_IsSubsetOf s other \<longleftrightarrow> Set_Keys s \<subseteq> Set_Keys other)
   \<and> (Set_Intersects s other \<longleftrightarrow> Set_Keys s \<inter> Set_Keys other \<noteq> {})
   \<and> Set_Keys (Set_UnionedWith s other) = Set_Keys s \<union> Set_Keys other
   \<and> (Set_Equals s other \<longleftrightarrow> Set_Keys s = Set_Keys other \<and> (s = None \<longleftrightarrow> other = None))"
  by (cases s; cases other)
    (auto simp: Set_IsSubsetOf_def Set_Intersects_def Set_UnionedWith_def Set_Equals_def Set_Keys_def Set_Clone_def
      Set_Has_def Let_def)

text \<open>\<open>Union\<close> panics on a nil argument that it could ignore: the guard only covers a receiver that
  is empty too, so a non-empty finite set united with nil dereferences the nil pointer, while
  \<open>UnionedWith\<close> accepts the same arguments.\<close>

theorem Set_Union_nil_panics:
  assumes "finite (set_M s)" "set_M s \<noteq> {}"
  shows "(\<exists>msg. Set_Union (Some s) None = Inl msg) \<and> Set_Keys (Set_UnionedWith (Some s) None) = set_M s"
  using assms by (simp add: Set_Union_def Set_Len_def Set_UnionedWith_def Set_Clone_def Set_Keys_def card_eq_0_iff Let_def)

theorem Set_Union_nil_panics_witness:
  "\<exists>msg. Set_Union (Some \<lparr>set_M = {1::nat}\<rparr>) None = Inl msg"
  using Set_Union_nil_panics [of "\<lparr>set_M = {1::nat}\<rparr>"] by simp

end
