(* ===== verification/Semver.thy ===== *)
theory Semver
  imports StringUtil "HOL-Library.Word"
begin

text \<open>
  Package \<open>internal/semver\<close>, file \<open>version.go\<close>: versions, their precedence, printing and parsing. A
  component is a \<open>uint32\<close>, so a 32-bit word; increments wrap. The regular expressions are written as
  matchers on bytes: each is deterministic, since no repeated class contains the character that
  may follow it. The case-insensitive class \<open>[a-z]\<close> of Go also contains the long s and the Kelvin
  sign, which is kept. A \<open>*Version\<close> that may be nil is an option.
\<close>

section \<open>Character classes and digits\<close>

definition isDigitByte :: "char \<Rightarrow> bool" where
  "isDigitByte c = (48 \<le> byte_of c \<and> byte_of c \<le> 57)"

definition isLetterByte :: "char \<Rightarrow> bool" where
  "isLetterByte c = (65 \<le> byte_of c \<and> byte_of c \<le> 90 \<or> 97 \<le> byte_of c \<and> byte_of c \<le> 122)"

definition foldedLetters :: "string list" where
  \<comment> \<open>the UTF-8 encodings of U+017F and U+212A, which \<open>(?i)[a-z]\<close> matches\<close>
  "foldedLetters = [[CHR 0xC5, CHR 0xBF], [CHR 0xE2, CHR 0x84, CHR 0xAA]]"

function takeClass :: "string \<Rightarrow> string \<Rightarrow> string \<times> string" where
  \<comment> \<open>the longest prefix of letters, digits and bytes of \<open>extra\<close>, and the rest\<close>
  "takeClass extra s =
     (case s of
        [] \<Rightarrow> ([], [])
      | c # s' \<Rightarrow>
          if isDigitByte c \<or> isLetterByte c \<or> c \<in> set extra
          then (let (m, r) = takeClass extra s' in (c # m, r))
          else (case find (\<lambda>e. strHasPrefix s e) foldedLetters of
                  Some e \<Rightarrow> (let (m, r) = takeClass extra (drop (length e) s) in (e @ m, r))
                | None \<Rightarrow> ([], s)))"
  by pat_completeness auto
termination
  by (relation "measure (\<lambda>(extra, s). length s)")
    (auto simp: foldedLetters_def split: if_splits)

declare takeClass.simps [simp del]

fun digitsValue :: "nat \<Rightarrow> string \<Rightarrow> nat" where
  "digitsValue acc [] = acc"
| "digitsValue acc (c # s) = digitsValue (acc * 10 + (byte_of c - 48)) s"

definition getUintComponent :: "string \<Rightarrow> 32 word option" where
  \<comment> \<open>\<open>strconv.ParseUint(text, 10, 32)\<close>; \<open>None\<close> is its error\<close>
  "getUintComponent text =
     (if text = [] \<or> \<not> list_all isDigitByte text \<or> digitsValue 0 text \<ge> 2 ^ 32 then None
      else Some (of_nat (digitsValue 0 text)))"

fun showNat :: "nat \<Rightarrow> string" where
  \<comment> \<open>the verb \<open>%d\<close>\<close>
  "showNat n = (if n < 10 then [char_of (48 + n)] else showNat (n div 10) @ [char_of (48 + n mod 10)])"

declare showNat.simps [simp del]

section \<open>Versions\<close>

record Version =
  major :: "32 word"
  minor :: "32 word"
  patch :: "32 word"
  prerelease :: "string list"
  build :: "string list"

definition emptyVersion :: Version where
  \<comment> \<open>the zero value\<close>
  "emptyVersion = \<lparr>major = 0, minor = 0, patch = 0, prerelease = [], build = []\<rparr>"

definition versionZero :: Version where
  "versionZero = emptyVersion\<lparr>prerelease := [''0'']\<rparr>"

definition incrementMajor :: "Version \<Rightarrow> Version" where
  "incrementMajor v = emptyVersion\<lparr>major := major v + 1\<rparr>"

definition incrementMinor :: "Version \<Rightarrow> Version" where
  "incrementMinor v = emptyVersion\<lparr>major := major v, minor := minor v + 1\<rparr>"

definition incrementPatch :: "Version \<Rightarrow> Version" where
  "incrementPatch v = emptyVersion\<lparr>major := major v, minor := minor v, patch := patch v + 1\<rparr>"

section \<open>Precedence\<close>

definition cmpUint32 :: "32 word \<Rightarrow> 32 word \<Rightarrow> int" where
  "cmpUint32 a b = (if a < b then -1 else if b < a then 1 else 0)"

definition numericIdentifier :: "string \<Rightarrow> bool" where
  \<comment> \<open>\<open>^(?:0|[1-9]\d*)$\<close>\<close>
  "numericIdentifier s =
     (case s of [] \<Rightarrow> False | c # s' \<Rightarrow> c = CHR ''0'' \<and> s' = [] \<or> isDigitByte c \<and> c \<noteq> CHR ''0'' \<and> list_all isDigitByte s')"

definition comparePreReleaseIdentifier :: "string \<Rightarrow> string \<Rightarrow> int" where
  "comparePreReleaseIdentifier left right =
     (let compareResult = strCompare left right in
      if compareResult = 0 then compareResult
      else
        let leftIsNumeric = numericIdentifier left; rightIsNumeric = numericIdentifier right in
        if leftIsNumeric \<or> rightIsNumeric then
          if \<not> rightIsNumeric then -1
          else if \<not> leftIsNumeric then 1
          else (case (getUintComponent left, getUintComponent right) of
                  (Some leftAsNumber, Some rightAsNumber) \<Rightarrow> cmpUint32 leftAsNumber rightAsNumber
                | _ \<Rightarrow>
                    let lenCompare = compareNat (length left) (length right) in
                    if lenCompare = 0 then compareResult else lenCompare)
        else compareResult)"

definition comparePreReleaseIdentifiers :: "string list \<Rightarrow> string list \<Rightarrow> int" where
  "comparePreReleaseIdentifiers left right =
     (if length left = 0 then (if length right = 0 then 0 else 1)
      else if length right = 0 then -1
      else slicesCompareFunc comparePreReleaseIdentifier left right)"

definition compareVersions :: "Version \<Rightarrow> Version \<Rightarrow> int" where
  \<comment> \<open>\<open>Compare\<close> on two non-nil pointers\<close>
  "compareVersions a b =
     (let r = cmpUint32 (major a) (major b) in if r \<noteq> 0 then r
      else let r = cmpUint32 (minor a) (minor b) in if r \<noteq> 0 then r
      else let r = cmpUint32 (patch a) (patch b) in if r \<noteq> 0 then r
      else comparePreReleaseIdentifiers (prerelease a) (prerelease b))"

definition Version_Compare :: "Version option \<Rightarrow> Version option \<Rightarrow> int" where
  "Version_Compare a b =
     (case (a, b) of
        (None, None) \<Rightarrow> 0
      | (None, Some _) \<Rightarrow> -1
      | (Some _, None) \<Rightarrow> 1
      | (Some v, Some w) \<Rightarrow> compareVersions v w)"

section \<open>Printing and parsing\<close>

definition Version_String :: "Version \<Rightarrow> string" where
  "Version_String v =
     showNat (unat (major v)) @ ''.'' @ showNat (unat (minor v)) @ ''.'' @ showNat (unat (patch v))
     @ (if length (prerelease v) > 0 then ''-'' @ strJoin ''.'' (prerelease v) else [])
     @ (if length (build v) > 0 then ''+'' @ strJoin ''.'' (build v) else [])"

definition matchNumber :: "string \<Rightarrow> (string \<times> string) option" where
  \<comment> \<open>\<open>0|[1-9]\d*\<close> at the start of a string\<close>
  "matchNumber s =
     (case s of
        [] \<Rightarrow> None
      | c # s' \<Rightarrow>
          if c = CHR ''0'' then Some (''0'', s')
          else if isDigitByte c then Some (takeWhile isDigitByte s, dropWhile isDigitByte s)
          else None)"

definition identifierExtra :: string where "identifierExtra = ''-.''"

definition matchSuffix :: "string \<Rightarrow> (string \<times> string) option" where
  \<comment> \<open>\<open>(?:-([a-z0-9-.]+))?(?:\+([a-z0-9-.]+))?$\<close>: the pre-release and build strings\<close>
  "matchSuffix s =
     (let (pre, s1) =
        (case s of
           [] \<Rightarrow> ([], s)
         | c # s' \<Rightarrow>
             if c = CHR ''-'' then (let (m, r) = takeClass identifierExtra s' in if m = [] then ([], s) else (m, r))
             else ([], s)) in
      case s1 of
        [] \<Rightarrow> Some (pre, [])
      | c # s' \<Rightarrow>
          if c = CHR ''+'' then (let (m, r) = takeClass identifierExtra s' in if m \<noteq> [] \<and> r = [] then Some (pre, m) else None)
          else None)"

definition matchVersion :: "(string \<Rightarrow> (string \<times> string) option) \<Rightarrow> string
    \<Rightarrow> (string \<times> string \<times> string \<times> string \<times> string) option" where
  \<comment> \<open>the submatches of \<open>versionRegexp\<close> and, with another number, of \<open>partialRegExp\<close>\<close>
  "matchVersion number text =
     (case number text of
        None \<Rightarrow> None
      | Some (majorStr, s1) \<Rightarrow>
          if s1 = [] then Some (majorStr, [], [], [], [])
          else if hd s1 \<noteq> dot_char then None
          else (case number (tl s1) of
            None \<Rightarrow> None
          | Some (minorStr, s2) \<Rightarrow>
              if s2 = [] then Some (majorStr, minorStr, [], [], [])
              else if hd s2 \<noteq> dot_char then None
              else (case number (tl s2) of
                None \<Rightarrow> None
              | Some (patchStr, s3) \<Rightarrow>
                  (case matchSuffix s3 of
                     None \<Rightarrow> None
                   | Some (pre, bld) \<Rightarrow> Some (majorStr, minorStr, patchStr, pre, bld)))))"

definition prereleasePart :: "string \<Rightarrow> bool" where
  \<comment> \<open>\<open>0|[1-9]\d*|[a-z-][a-z0-9-]*\<close>\<close>
  "prereleasePart s =
     (numericIdentifier s \<or> s \<noteq> [] \<and> \<not> isDigitByte (hd s) \<and> snd (takeClass ''-'' s) = [])"

definition prereleaseMatches :: "string \<Rightarrow> bool" where
  "prereleaseMatches s = list_all prereleasePart (strSplit dot_char s)"

definition buildPart :: "string \<Rightarrow> bool" where
  "buildPart s = (s \<noteq> [] \<and> snd (takeClass ''-'' s) = [])"

definition buildMatches :: "string \<Rightarrow> bool" where
  "buildMatches s = list_all buildPart (strSplit dot_char s)"

text \<open>An error of \<open>TryParseVersion\<close> is a \<open>SemverParseError\<close> or the error of \<open>strconv.ParseUint\<close>.\<close>

datatype versionError = SemverParseError (origInput: string) | NumError (numText: string)

definition TryParseVersion :: "string \<Rightarrow> versionError + Version" where
  "TryParseVersion text =
     (case matchVersion matchNumber text of
        None \<Rightarrow> Inl (SemverParseError text)
      | Some (majorStr, minorStr, patchStr, prereleaseStr, buildStr) \<Rightarrow>
          (case getUintComponent majorStr of None \<Rightarrow> Inl (NumError majorStr) | Some majorNum \<Rightarrow>
          (case (if minorStr \<noteq> [] then getUintComponent minorStr else Some 0) of None \<Rightarrow> Inl (NumError minorStr) | Some minorNum \<Rightarrow>
          (case (if patchStr \<noteq> [] then getUintComponent patchStr else Some 0) of None \<Rightarrow> Inl (NumError patchStr) | Some patchNum \<Rightarrow>
           if prereleaseStr \<noteq> [] \<and> \<not> prereleaseMatches prereleaseStr then Inl (SemverParseError text)
           else if buildStr \<noteq> [] \<and> \<not> buildMatches buildStr then Inl (SemverParseError text)
           else Inr \<lparr>major = majorNum, minor = minorNum, patch = patchNum,
                     prerelease = (if prereleaseStr \<noteq> [] then strSplit dot_char prereleaseStr else []),
                     build = (if buildStr \<noteq> [] then strSplit dot_char buildStr else [])\<rparr>))))"

definition MustParse :: "string \<Rightarrow> versionError + Version" where
  \<comment> \<open>\<open>Inl\<close> is the panic with the error\<close>
  "MustParse text = (case TryParseVersion text of Inl err \<Rightarrow> Inl err | Inr v \<Rightarrow> Inr v)"

end
