(* ===== verification/Semver_Order.thy ===== *)
theory Semver_Order
  imports Semver
begin

text \<open>
  Properties of \<open>internal/semver/version.go\<close>: identifiers of digits compare as numbers of any
  size, precedence is a comparison function, and printing a parsed version parses back to it.
\<close>

section \<open>Digit strings\<close>

lemma digitsValue_acc: "digitsValue acc s = acc * 10 ^ length s + digitsValue 0 s"
proof (induction s arbitrary: acc)
  case (Cons c s)
  show ?case
    using Cons.IH [of "acc * 10 + (byte_of c - 48)"] Cons.IH [of "byte_of c - 48"]
    by (simp add: algebra_simps)
qed simp

lemma digitsValue_Cons: "digitsValue 0 (c # s) = (byte_of c - 48) * 10 ^ length s + digitsValue 0 s"
  using digitsValue_acc [of "byte_of c - 48" s] by simp

lemma digitsValue_less: "list_all isDigitByte s \<Longrightarrow> digitsValue 0 s < 10 ^ length s"
proof (induction s)
  case (Cons c s)
  have d: "byte_of c - 48 \<le> (9::nat)" using Cons.prems by (auto simp: isDigitByte_def)
  have "(byte_of c - 48) * 10 ^ length s \<le> 9 * 10 ^ length s"
    by (rule mult_right_mono [OF d]) simp
  moreover have "digitsValue 0 s < 10 ^ length s" using Cons by simp
  moreover have "(10::nat) ^ length (c # s) = 10 * 10 ^ length s" by simp
  ultimately show ?case unfolding digitsValue_Cons by linarith
qed simp

lemma digitsValue_ge:
  assumes "isDigitByte c" "c \<noteq> CHR ''0''"
  shows "10 ^ length s \<le> digitsValue 0 (c # s)"
proof -
  have zero: "byte_of CHR ''0'' = (48::nat)" by simp
  have "byte_of c \<noteq> (48::nat)" unfolding zero [symmetric] of_char_eq_iff by (rule assms(2))
  with assms(1) have "1 \<le> byte_of c - (48::nat)" unfolding isDigitByte_def by linarith
  then have "1 * 10 ^ length s \<le> (byte_of c - 48) * (10::nat) ^ length s" by (rule mult_right_mono) simp
  then show ?thesis unfolding digitsValue_Cons by linarith
qed

lemma strCompare_digits:
  "length s = length t \<Longrightarrow> list_all isDigitByte s \<Longrightarrow> list_all isDigitByte t \<Longrightarrow>
     strCompare s t = compareNat (digitsValue 0 s) (digitsValue 0 t)"
proof (induction s t rule: strCompare.induct)
  case (4 x xs y ys)
  have lt: "digitsValue 0 (a # as) < digitsValue 0 (b # bs)"
    if "byte_of a < byte_of b" "length as = length bs" "isDigitByte a" "isDigitByte b" "list_all isDigitByte as"
    for a b as bs
  proof -
    have "Suc (byte_of a - 48) \<le> byte_of b - (48::nat)" using that(1,3,4) unfolding isDigitByte_def by linarith
    then have "Suc (byte_of a - 48) * 10 ^ length bs \<le> (byte_of b - 48) * (10::nat) ^ length bs" by (rule mult_right_mono) simp
    then show ?thesis using digitsValue_less [OF that(5)] that(2) unfolding digitsValue_Cons by simp
  qed
  show ?case
  proof (cases "byte_of x = (byte_of y :: nat)")
    case True
    then show ?thesis using 4 by (simp add: compareNat_def digitsValue_Cons del: digitsValue.simps)
  next
    case False
    then show ?thesis using 4 lt [of x y xs ys] lt [of y x ys xs]
      by (auto simp: compareNat_def simp del: digitsValue.simps)
  qed
qed (auto simp: compareNat_def)

lemma numericIdentifier_digits: "numericIdentifier s \<Longrightarrow> s \<noteq> [] \<and> list_all isDigitByte s"
  by (auto simp: numericIdentifier_def isDigitByte_def split: list.splits)

lemma numericIdentifier_length_less:
  assumes s: "numericIdentifier s" and t: "numericIdentifier t" and len: "length s < length t"
  shows "digitsValue 0 s < digitsValue 0 t"
proof -
  obtain c t' where t': "t = c # t'" using len by (cases t) auto
  have "length s \<noteq> 0" using numericIdentifier_digits [OF s] by simp
  then have "t' \<noteq> []" using len t' by auto
  then have c: "isDigitByte c" "c \<noteq> CHR ''0''" using t unfolding t' by (auto simp: numericIdentifier_def)
  have "digitsValue 0 s < 10 ^ length s" using digitsValue_less numericIdentifier_digits [OF s] by blast
  also have "\<dots> \<le> 10 ^ length t'" by (rule power_increasing) (use len t' in auto)
  also have "\<dots> \<le> digitsValue 0 t" unfolding t' by (rule digitsValue_ge [OF c])
  finally show ?thesis .
qed

lemma numericIdentifier_compare:
  assumes s: "numericIdentifier s" and t: "numericIdentifier t"
  shows "compareNat (digitsValue 0 s) (digitsValue 0 t) =
    (if compareNat (length s) (length t) = 0 then strCompare s t else compareNat (length s) (length t))"
proof (rule linorder_cases [of "length s" "length t"])
  assume "length s < length t"
  then show ?thesis using numericIdentifier_length_less [OF s t] by (simp add: compareNat_def)
next
  assume "length t < length s"
  then show ?thesis using numericIdentifier_length_less [OF t s] by (simp add: compareNat_def)
next
  assume "length s = length t"
  then show ?thesis
    using strCompare_digits [of s t] numericIdentifier_digits [OF s] numericIdentifier_digits [OF t]
    by simp
qed

lemma getUintComponent_Some:
  "getUintComponent s = Some w \<Longrightarrow> unat w = digitsValue 0 s"
  by (auto simp: getUintComponent_def unat_of_nat take_bit_nat_eq_self split: if_splits)

lemma cmpUint32_unat: "cmpUint32 a b = compareNat (unat a) (unat b)"
  by (auto simp: cmpUint32_def compareNat_def word_less_nat_alt)

section \<open>Precedence\<close>

text \<open>The comparison the standard describes, on numbers of any size.\<close>

definition identifierPrecedence :: "string \<Rightarrow> string \<Rightarrow> int" where
  "identifierPrecedence left right =
     (if numericIdentifier left \<and> numericIdentifier right
      then compareNat (digitsValue 0 left) (digitsValue 0 right)
      else if numericIdentifier left then -1
      else if numericIdentifier right then 1
      else strCompare left right)"

lemma comparePreReleaseIdentifier_spec:
  "comparePreReleaseIdentifier left right = identifierPrecedence left right"
proof (cases "left = right")
  case True
  then show ?thesis by (simp add: comparePreReleaseIdentifier_def identifierPrecedence_def compareNat_def)
next
  case False
  show ?thesis
  proof (cases "numericIdentifier left \<and> numericIdentifier right")
    case True
    then show ?thesis
      using False numericIdentifier_compare [of left right]
      by (auto simp: comparePreReleaseIdentifier_def identifierPrecedence_def cmpUint32_unat Let_def
          split: option.splits dest!: getUintComponent_Some)
  next
    case nn: False
    with \<open>left \<noteq> right\<close> show ?thesis
      by (auto simp: comparePreReleaseIdentifier_def identifierPrecedence_def Let_def)
  qed
qed

lemma numericIdentifier_inj:
  assumes "numericIdentifier s" "numericIdentifier t" "compareNat (digitsValue 0 s) (digitsValue 0 t) = 0"
  shows "s = t"
  using numericIdentifier_compare [OF assms(1,2)] assms(3) by (auto split: if_splits)

interpretation identifiers: strict_comparator comparePreReleaseIdentifier
proof
  fix a b c :: string
  show "comparePreReleaseIdentifier b a = - comparePreReleaseIdentifier a b"
    using compareNat.antisym [of "digitsValue 0 b" "digitsValue 0 a"] strCompare.antisym [of b a]
    by (simp add: comparePreReleaseIdentifier_spec identifierPrecedence_def)
  show "comparePreReleaseIdentifier a b = 0 \<Longrightarrow> a = b"
    using numericIdentifier_inj [of a b]
    by (auto simp: comparePreReleaseIdentifier_spec identifierPrecedence_def split: if_splits)
  assume "comparePreReleaseIdentifier a b \<le> 0" "comparePreReleaseIdentifier b c \<le> 0"
  then show "comparePreReleaseIdentifier a c \<le> 0"
    using compareNat.trans [of "digitsValue 0 a" "digitsValue 0 b" "digitsValue 0 c"] strCompare.trans [of a b c]
    by (auto simp: comparePreReleaseIdentifier_spec identifierPrecedence_def split: if_splits)
qed

text \<open>A release follows its pre-releases.\<close>

interpretation identifierLists: strict_comparator comparePreReleaseIdentifiers
proof
  fix a b c :: "string list"
  show "comparePreReleaseIdentifiers b a = - comparePreReleaseIdentifiers a b"
    using identifiers.CompareFunc_antisym [of b a] by (simp add: comparePreReleaseIdentifiers_def)
  show "comparePreReleaseIdentifiers a b = 0 \<Longrightarrow> a = b"
    using identifiers.CompareFunc_eq_0 [of a b] by (simp add: comparePreReleaseIdentifiers_def split: if_splits)
  assume "comparePreReleaseIdentifiers a b \<le> 0" "comparePreReleaseIdentifiers b c \<le> 0"
  then show "comparePreReleaseIdentifiers a c \<le> 0"
    using identifiers.CompareFunc_trans [of a b c] by (simp add: comparePreReleaseIdentifiers_def split: if_splits)
qed

text \<open>The part of a version that takes part in precedence.\<close>

definition precedenceKey :: "Version \<Rightarrow> nat \<times> nat \<times> nat \<times> string list" where
  "precedenceKey v = (unat (major v), unat (minor v), unat (patch v), prerelease v)"

interpretation versions: comparator compareVersions
proof
  fix a b c :: Version
  show "compareVersions b a = - compareVersions a b"
    using identifierLists.antisym [of "prerelease b" "prerelease a"]
    by (simp add: compareVersions_def cmpUint32_unat compareNat_def Let_def)
  assume "compareVersions a b \<le> 0" "compareVersions b c \<le> 0"
  then show "compareVersions a c \<le> 0"
    using identifierLists.trans [of "prerelease a" "prerelease b" "prerelease c"]
    by (auto simp: compareVersions_def cmpUint32_unat compareNat_def Let_def split: if_splits)
qed

lemma compareVersions_eq_0: "compareVersions v w = 0 \<longleftrightarrow> precedenceKey v = precedenceKey w"
proof -
  have c: "compareNat m n = 0 \<longleftrightarrow> m = n" for m n by (rule compareNat.eq_0_iff)
  show ?thesis
    unfolding compareVersions_def precedenceKey_def cmpUint32_unat Let_def
    using c [of "unat (major v)" "unat (major w)"] c [of "unat (minor v)" "unat (minor w)"]
      c [of "unat (patch v)" "unat (patch w)"] identifierLists.eq_0_iff [of "prerelease v" "prerelease w"]
    by (simp only: prod.inject split: if_split) blast
qed

text \<open>C10. Version.Compare is a total preorder on versions: swapping the arguments negates the
  result, it is transitive, and it is 0 exactly on versions with the same numbers and pre-release
  identifiers, whatever their build metadata. Two pre-release identifiers compare as the standard
  asks, as numbers when both are numeric, however large: the fallback on overflow of uint32 agrees
  with the numbers.\<close>

theorem Version_Compare_order:
  "Version_Compare b a = - Version_Compare a b
   \<and> (Version_Compare a b \<le> 0 \<and> Version_Compare b c \<le> 0 \<longrightarrow> Version_Compare a c \<le> 0)
   \<and> (Version_Compare a b = 0 \<longleftrightarrow> map_option precedenceKey a = map_option precedenceKey b)
   \<and> comparePreReleaseIdentifier left right = identifierPrecedence left right"
proof (intro conjI impI)
  show "Version_Compare b a = - Version_Compare a b"
    using versions.antisym [of "the b" "the a"] by (cases a; cases b) (simp_all add: Version_Compare_def)
  show "Version_Compare a b \<le> 0 \<and> Version_Compare b c \<le> 0 \<Longrightarrow> Version_Compare a c \<le> 0"
    using versions.trans [of "the a" "the b" "the c"]
    by (cases a; cases b; cases c) (simp_all add: Version_Compare_def)
  show "Version_Compare a b = 0 \<longleftrightarrow> map_option precedenceKey a = map_option precedenceKey b"
    by (cases a; cases b) (simp_all add: Version_Compare_def compareVersions_eq_0)
  show "comparePreReleaseIdentifier left right = identifierPrecedence left right"
    by (rule comparePreReleaseIdentifier_spec)
qed

theorem Version_Compare_order_witness:
  "Version_Compare (Some versionZero) (Some emptyVersion) = -1 \<and> Version_Compare (Some versionZero) None = 1
   \<and> comparePreReleaseIdentifier ''5000000000'' ''10000000000'' = -1"
  using Version_Compare_order [of "Some versionZero" None "Some emptyVersion" "''5000000000''" "''10000000000''"]
  by (simp add: Version_Compare_def compareVersions_def cmpUint32_def versionZero_def emptyVersion_def
      comparePreReleaseIdentifiers_def identifierPrecedence_def numericIdentifier_def isDigitByte_def compareNat_def)

end
