(* ===== verification/Semver_Roundtrip.thy ===== *)
theory Semver_Roundtrip
  imports Semver_Order
begin

text \<open>Printing a version and parsing it again: shared by versions and by the operands of ranges.\<close>

section \<open>Numbers\<close>

lemma showNat_digits: "showNat n \<noteq> [] \<and> list_all isDigitByte (showNat n) \<and> (n > 0 \<longrightarrow> hd (showNat n) \<noteq> CHR ''0'')"
proof (induction n rule: less_induct)
  case (less n)
  have digit: "isDigitByte (char_of (48 + d))" "byte_of (char_of (48 + d)) = 48 + d" if "d < 10" for d :: nat
    using that by (simp_all add: isDigitByte_def of_char_of)
  have zero: "char_of (48 + d) \<noteq> CHR ''0''" if "d < 10" "d > 0" for d :: nat
  proof
    assume "char_of (48 + d) = CHR ''0''"
    then have "byte_of (char_of (48 + d)) = byte_of CHR ''0''" by (rule arg_cong)
    moreover have "byte_of CHR ''0'' = (48::nat)" by simp
    ultimately show False using digit(2) [OF that(1)] that(2) by linarith
  qed
  show ?case
  proof (cases "n < 10")
    case True
    then have s: "showNat n = [char_of (48 + n)]" by (subst showNat.simps) simp
    show ?thesis unfolding s using True digit(1) [of n] zero [of n] by simp
  next
    case False
    then have IH: "showNat (n div 10) \<noteq> []" "list_all isDigitByte (showNat (n div 10))" "hd (showNat (n div 10)) \<noteq> CHR ''0''"
      using less [of "n div 10"] by auto
    have s: "showNat n = showNat (n div 10) @ [char_of (48 + n mod 10)]"
      using False by (subst showNat.simps) simp
    show ?thesis using IH digit(1) [of "n mod 10"] unfolding s by simp
  qed
qed

lemma digitsValue_append: "digitsValue acc (s @ t) = digitsValue (digitsValue acc s) t"
  by (induction s arbitrary: acc) auto

lemma digitsValue_showNat: "digitsValue 0 (showNat n) = n"
proof (induction n rule: less_induct)
  case (less n)
  show ?case
  proof (cases "n < 10")
    case True
    then show ?thesis by (subst showNat.simps) (simp add: of_char_of)
  next
    case False
    have s: "showNat n = showNat (n div 10) @ [char_of (48 + n mod 10)]"
      using False by (subst showNat.simps) simp
    have b: "byte_of (char_of (48 + n mod 10)) = 48 + n mod 10" by (simp add: of_char_of)
    have "digitsValue 0 (showNat (n div 10)) = n div 10" using less [of "n div 10"] False by simp
    then show ?thesis unfolding s digitsValue_append digitsValue.simps b by simp
  qed
qed

lemma getUintComponent_showNat [simp]: "getUintComponent (showNat (unat w)) = Some w" for w :: "32 word"
proof -
  have "unat w < 2 ^ 32" using unsigned_less [of w, where 'a = nat] by simp
  then show ?thesis using showNat_digits [of "unat w"] by (simp add: getUintComponent_def digitsValue_showNat)
qed

lemma showNat_0: "showNat 0 = ''0''"
  by (subst showNat.simps) code_simp

definition stopsNumber :: "string \<Rightarrow> bool" where
  "stopsNumber r = (r = [] \<or> \<not> isDigitByte (hd r))"

lemma span_digits:
  "list_all isDigitByte s \<Longrightarrow> stopsNumber r \<Longrightarrow> takeWhile isDigitByte (s @ r) = s \<and> dropWhile isDigitByte (s @ r) = r"
  by (induction s) (cases r; auto simp: stopsNumber_def)+

lemma matchNumber_showNat: "stopsNumber r \<Longrightarrow> matchNumber (showNat n @ r) = Some (showNat n, r)"
proof (cases "n = 0")
  case True
  then show ?thesis by (simp add: matchNumber_def showNat_0)
next
  case False
  assume r: "stopsNumber r"
  obtain c s where s: "showNat n = c # s" using showNat_digits [of n] by (cases "showNat n") auto
  have c: "isDigitByte c" "c \<noteq> CHR ''0''" using showNat_digits [of n] False unfolding s by auto
  have "takeWhile isDigitByte (showNat n @ r) = showNat n" "dropWhile isDigitByte (showNat n @ r) = r"
    using span_digits [of "showNat n" r] r showNat_digits [of n] by blast+
  then show ?thesis using c unfolding s by (simp add: matchNumber_def)
qed

text \<open>For evaluation, the value is computed in binary.\<close>

fun digitsInt :: "int \<Rightarrow> string \<Rightarrow> int" where
  "digitsInt acc [] = acc"
| "digitsInt acc (c # s) = digitsInt (acc * 10 + (of_char c - 48)) s"

lemma digitsInt_eq: "list_all isDigitByte s \<Longrightarrow> digitsInt (int acc) s = int (digitsValue acc s)"
proof (induction s arbitrary: acc)
  case (Cons c s)
  have c: "(of_char c :: int) - 48 = int (byte_of c - 48)"
    using Cons.prems by (simp add: isDigitByte_def of_nat_diff of_nat_of_char)
  have e: "int acc * 10 + (of_char c - 48) = int (acc * 10 + (byte_of c - 48))" unfolding c by simp
  show ?case using Cons.IH [of "acc * 10 + (byte_of c - 48)"] Cons.prems unfolding digitsInt.simps e by simp
qed simp

lemma getUintComponent_code [code]:
  "getUintComponent text =
     (if text = [] \<or> \<not> list_all isDigitByte text \<or> digitsInt 0 text \<ge> 4294967296 then None
      else Some (word_of_int (digitsInt 0 text)))"
  using digitsInt_eq [of "text" 0] by (auto simp: getUintComponent_def)

section \<open>Identifier classes\<close>

lemma takeClass_append_id: "fst (takeClass extra s) @ snd (takeClass extra s) = s"
proof (induction extra s rule: takeClass.induct)
  case (1 extra s)
  show ?case
  proof (cases s)
    case Nil
    then show ?thesis by (simp add: takeClass.simps)
  next
    case (Cons c s')
    note IH = 1 [OF Cons]
    show ?thesis
    proof (cases "isDigitByte c \<or> isLetterByte c \<or> c \<in> set extra")
      case True
      then show ?thesis using IH(1) Cons by (subst (1 2) takeClass.simps) (simp add: split_beta)
    next
      case nc: False
      show ?thesis
      proof (cases "find (\<lambda>e. strHasPrefix s e) foldedLetters")
        case None
        then show ?thesis using nc Cons by (subst (1 2) takeClass.simps) simp
      next
        case (Some e)
        have pre: "take (length e) s = e"
          using Some by (auto simp: find_Some_iff strHasPrefix_def)
        have "e @ drop (length e) s = s" by (subst pre [symmetric]) simp
        then show ?thesis using IH(2) [OF nc] Some nc Cons by (subst (1 2) takeClass.simps) (simp add: split_beta)
      qed
    qed
  qed
qed

text \<open>\<open>inClass extra s\<close>: the whole of \<open>s\<close> lies in the class.\<close>

definition inClass :: "string \<Rightarrow> string \<Rightarrow> bool" where
  "inClass extra s = (snd (takeClass extra s) = [])"

lemma inClass_takeClass: "inClass extra s \<Longrightarrow> takeClass extra s = (s, [])"
  using takeClass_append_id [of extra s] by (cases "takeClass extra s") (simp add: inClass_def)

lemma foldedLetters_find:
  "find (\<lambda>e. strHasPrefix s e) foldedLetters =
     (if take 2 s = [CHR 0xC5, CHR 0xBF] then Some [CHR 0xC5, CHR 0xBF]
      else if take 3 s = [CHR 0xE2, CHR 0x84, CHR 0xAA] then Some [CHR 0xE2, CHR 0x84, CHR 0xAA] else None)"
  by (simp add: foldedLetters_def strHasPrefix_def numeral_2_eq_2 numeral_3_eq_3)

lemma inClass_Nil [simp]: "inClass extra []"
  by (simp add: inClass_def takeClass.simps)

lemma inClass_Cons:
  "inClass extra (c # s) \<longleftrightarrow>
     (if isDigitByte c \<or> isLetterByte c \<or> c \<in> set extra then inClass extra s
      else (c = CHR 0xC5 \<and> (\<exists>r. s = CHR 0xBF # r \<and> inClass extra r))
         \<or> (c = CHR 0xE2 \<and> (\<exists>r. s = CHR 0x84 # CHR 0xAA # r \<and> inClass extra r)))"
proof (cases "isDigitByte c \<or> isLetterByte c \<or> c \<in> set extra")
  case True
  then show ?thesis unfolding inClass_def by (subst takeClass.simps) (simp add: split_beta)
next
  case False
  show ?thesis
    using False unfolding inClass_def
    by (subst takeClass.simps)
      (cases s; cases "tl s"; auto simp: foldedLetters_find split_beta numeral_2_eq_2 numeral_3_eq_3)
qed

lemma inClass_induct [consumes 1, case_names Nil Plain Two Three]:
  assumes "inClass extra s"
    and "P []"
    and "\<And>c s. isDigitByte c \<or> isLetterByte c \<or> c \<in> set extra \<Longrightarrow> inClass extra s \<Longrightarrow> P s \<Longrightarrow> P (c # s)"
    and "\<And>s. CHR 0xC5 \<notin> set extra \<Longrightarrow> inClass extra s \<Longrightarrow> P s \<Longrightarrow> P (CHR 0xC5 # CHR 0xBF # s)"
    and "\<And>s. CHR 0xE2 \<notin> set extra \<Longrightarrow> inClass extra s \<Longrightarrow> P s \<Longrightarrow> P (CHR 0xE2 # CHR 0x84 # CHR 0xAA # s)"
  shows "P s"
  using assms(1)
proof (induction s rule: length_induct)
  case (1 s)
  show ?case
  proof (cases s)
    case Nil
    then show ?thesis using assms(2) by simp
  next
    case (Cons c s')
    show ?thesis
      using 1 assms(3-5) unfolding Cons inClass_Cons [of extra c s'] by (auto split: if_splits)
  qed
qed

lemma inClass_append: "inClass extra s \<Longrightarrow> inClass extra t \<Longrightarrow> inClass extra (s @ t)"
  by (induction s rule: inClass_induct) (auto simp: inClass_Cons isDigitByte_def isLetterByte_def)

lemma takeClass_stop:
  assumes "inClass extra s" and "takeClass extra t = ([], t)"
  shows "takeClass extra (s @ t) = (s, t)"
  using assms(1)
proof (induction s rule: inClass_induct)
  case Nil
  then show ?case using assms(2) by simp
next
  case (Plain c s)
  then show ?case by (subst append_Cons, subst takeClass.simps) simp
next
  case (Two s)
  then show ?case
    by (simp only: append_Cons, subst takeClass.simps) (simp add: foldedLetters_find isDigitByte_def isLetterByte_def)
next
  case (Three s)
  then show ?case
    by (simp only: append_Cons, subst takeClass.simps) (simp add: foldedLetters_find isDigitByte_def isLetterByte_def)
qed

lemma inClass_dash: "inClass ''-'' s \<Longrightarrow> inClass identifierExtra s \<and> dot_char \<notin> set s"
  by (induction s rule: inClass_induct) (auto simp: inClass_Cons identifierExtra_def isDigitByte_def isLetterByte_def)

lemma inClass_digits: "list_all isDigitByte s \<Longrightarrow> inClass extra s"
  by (induction s) (auto simp: inClass_Cons)

lemma inClass_strJoin:
  "(\<forall>x\<in>set xs. inClass identifierExtra x) \<Longrightarrow> inClass identifierExtra (strJoin ''.'' xs)"
proof (induction xs)
  case (Cons x xs)
  have dot: "inClass identifierExtra ''.''" by code_simp
  have "inClass identifierExtra (x @ ''.'' @ strJoin ''.'' xs)"
    using Cons dot by (intro inClass_append) simp_all
  then show ?case using Cons.prems by (cases xs) simp_all
qed simp

section \<open>Versions\<close>

text \<open>What a parser keeps in the pre-release and build fields: the parts of a non-empty string of
  the class.\<close>

definition identifiersOk :: "string list \<Rightarrow> bool" where
  "identifiersOk xs =
     (xs = [] \<or> strJoin ''.'' xs \<noteq> [] \<and> inClass identifierExtra (strJoin ''.'' xs) \<and> (\<forall>x\<in>set xs. dot_char \<notin> set x))"

lemma identifiersOk_split:
  assumes "s \<noteq> []" "inClass identifierExtra s"
  shows "identifiersOk (strSplit dot_char s)"
  using assms strJoin_strSplit [of dot_char s] strSplit_elem unfolding identifiersOk_def by auto

lemma identifiersOk_join:
  "identifiersOk xs \<Longrightarrow> xs \<noteq> [] \<Longrightarrow> strSplit dot_char (strJoin ''.'' xs) = xs"
  unfolding identifiersOk_def by (intro strSplit_strJoin) auto

definition suffixString :: "string list \<Rightarrow> string list \<Rightarrow> string" where
  "suffixString pre bld =
     (if length pre > 0 then ''-'' @ strJoin ''.'' pre else []) @ (if length bld > 0 then ''+'' @ strJoin ''.'' bld else [])"

lemma takeClass_plus: "takeClass identifierExtra (CHR ''+'' # s) = ([], CHR ''+'' # s)"
  by (subst takeClass.simps) (simp add: isDigitByte_def isLetterByte_def identifierExtra_def foldedLetters_find)

lemma takeClass_Nil: "takeClass extra [] = ([], [])"
  by (simp add: takeClass.simps)

lemma matchSuffix_suffixString:
  assumes "identifiersOk pre" "identifiersOk bld"
  shows "matchSuffix (suffixString pre bld) = Some (strJoin ''.'' pre, strJoin ''.'' bld)"
proof -
  let ?p = "strJoin ''.'' pre" and ?b = "strJoin ''.'' bld"
  have b: "takeClass identifierExtra ?b = (?b, [])" "bld \<noteq> [] \<Longrightarrow> ?b \<noteq> []"
    using assms(2) by (auto simp: identifiersOk_def takeClass_Nil intro: inClass_takeClass)
  have p: "takeClass identifierExtra (?p @ CHR ''+'' # r) = (?p, CHR ''+'' # r)" "takeClass identifierExtra ?p = (?p, [])"
    "pre \<noteq> [] \<Longrightarrow> ?p \<noteq> []" for r
    using assms(1)
    by (auto simp: identifiersOk_def takeClass_Nil takeClass_plus intro: inClass_takeClass takeClass_stop)
  show ?thesis
    using b p by (cases "pre = []"; cases "bld = []") (simp_all add: matchSuffix_def suffixString_def)
qed

lemma stopsNumber_simps [simp]: "stopsNumber []" "stopsNumber (CHR ''.'' # r)" "stopsNumber (CHR ''-'' # r)" "stopsNumber (CHR ''+'' # r)"
  by (simp_all add: stopsNumber_def isDigitByte_def)

lemma stopsNumber_suffixString [simp]: "stopsNumber (suffixString pre bld)"
  by (simp add: suffixString_def)

lemma matchVersion_String:
  assumes number: "\<And>n r. stopsNumber r \<Longrightarrow> number (showNat n @ r) = Some (showNat n, r)"
    and "identifiersOk (prerelease v)" "identifiersOk (build v)"
  shows "matchVersion number (Version_String v) =
    Some (showNat (unat (major v)), showNat (unat (minor v)), showNat (unat (patch v)),
      strJoin ''.'' (prerelease v), strJoin ''.'' (build v))"
proof -
  have "Version_String v = showNat (unat (major v)) @ dot_char # showNat (unat (minor v)) @ dot_char #
      showNat (unat (patch v)) @ suffixString (prerelease v) (build v)"
    by (simp add: Version_String_def suffixString_def)
  then show ?thesis
    using matchSuffix_suffixString [OF assms(2,3)] by (simp add: matchVersion_def number)
qed

lemma prereleasePart_inClass: "prereleasePart s \<Longrightarrow> s \<noteq> [] \<and> inClass identifierExtra s \<and> dot_char \<notin> set s"
  using inClass_dash [of s] inClass_digits [of s "''-''"] numericIdentifier_digits [of s]
  by (auto simp: prereleasePart_def inClass_def)

lemma buildPart_inClass: "buildPart s \<Longrightarrow> s \<noteq> [] \<and> inClass identifierExtra s \<and> dot_char \<notin> set s"
  using inClass_dash [of s] by (auto simp: buildPart_def inClass_def)

lemma strJoin_nonempty: "xs \<noteq> [] \<Longrightarrow> (\<forall>x\<in>set xs. x \<noteq> []) \<Longrightarrow> strJoin sep xs \<noteq> []"
  by (induction sep xs rule: strJoin.induct) auto

lemma identifiersOk_parts:
  assumes "\<And>s. P s \<Longrightarrow> s \<noteq> [] \<and> inClass identifierExtra s \<and> dot_char \<notin> set s" "list_all P xs"
  shows "identifiersOk xs"
  using assms strJoin_nonempty [of xs "''.''"] inClass_strJoin [of xs]
  by (auto simp: identifiersOk_def list_all_iff)

text \<open>The versions the parser accepts.\<close>

definition wfVersion :: "Version \<Rightarrow> bool" where
  "wfVersion v = (list_all prereleasePart (prerelease v) \<and> list_all buildPart (build v))"

lemma TryParseVersion_wf: "TryParseVersion text = Inr v \<Longrightarrow> wfVersion v"
  by (auto simp: TryParseVersion_def wfVersion_def prereleaseMatches_def buildMatches_def
      split: option.splits if_splits)

lemma TryParseVersion_String:
  assumes "wfVersion v"
  shows "TryParseVersion (Version_String v) = Inr v"
proof -
  have p: "identifiersOk (prerelease v)" and b: "identifiersOk (build v)"
    using assms identifiersOk_parts [OF prereleasePart_inClass] identifiersOk_parts [OF buildPart_inClass]
    unfolding wfVersion_def by blast+
  have ne: "showNat n \<noteq> []" for n using showNat_digits by blast
  have pj: "prerelease v \<noteq> [] \<Longrightarrow> strSplit dot_char (strJoin ''.'' (prerelease v)) = prerelease v"
    and bj: "build v \<noteq> [] \<Longrightarrow> strSplit dot_char (strJoin ''.'' (build v)) = build v"
    using identifiersOk_join p b by blast+
  have je: "strJoin ''.'' xs = [] \<longleftrightarrow> xs = []" if "identifiersOk xs" for xs using that by (auto simp: identifiersOk_def)
  have m: "matchVersion matchNumber (Version_String v) =
    Some (showNat (unat (major v)), showNat (unat (minor v)), showNat (unat (patch v)),
      strJoin ''.'' (prerelease v), strJoin ''.'' (build v))"
    by (rule matchVersion_String [OF _ p b]) (rule matchNumber_showNat)
  show ?thesis
    using assms pj bj
    by (cases "prerelease v = []"; cases "build v = []")
      (simp_all add: TryParseVersion_def m ne je [OF p] je [OF b] prereleaseMatches_def buildMatches_def wfVersion_def)
qed

text \<open>Printing a parsed version and parsing the result gives the version back: for every text
  that TryParseVersion accepts, with missing parts, pre-release identifiers and build metadata,
  String produces a text that TryParseVersion and MustParse accept and read as the same version.\<close>

theorem Version_String_roundtrip:
  assumes "TryParseVersion text = Inr v"
  shows "TryParseVersion (Version_String v) = Inr v \<and> MustParse (Version_String v) = Inr v"
  using TryParseVersion_String [OF TryParseVersion_wf [OF assms]] by (simp add: MustParse_def)

theorem Version_String_roundtrip_witness:
  "TryParseVersion ''1.2.0-rc.1+b7'' = Inr \<lparr>major = 1, minor = 2, patch = 0, prerelease = [''rc'', ''1''], build = [''b7'']\<rparr>
   \<and> MustParse (Version_String \<lparr>major = 1, minor = 2, patch = 0, prerelease = [''rc'', ''1''], build = [''b7'']\<rparr>)
     = Inr \<lparr>major = 1, minor = 2, patch = 0, prerelease = [''rc'', ''1''], build = [''b7'']\<rparr>"
proof -
  have "TryParseVersion ''1.2.0-rc.1+b7'' = Inr \<lparr>major = 1, minor = 2, patch = 0, prerelease = [''rc'', ''1''], build = [''b7'']\<rparr>"
    by code_simp
  then show ?thesis using Version_String_roundtrip by blast
qed

end
