(* ===== verification/Semver_Range.thy ===== *)
theory Semver_Range
  imports Semver_Roundtrip
begin

text \<open>
  Package \<open>internal/semver\<close>, file \<open>version_range.go\<close>: parsing, printing and testing ranges. The
  regular expressions are matchers on bytes, as in \<open>Semver\<close>. An operator stays a string, as in the
  source, so the panics on an unexpected operator are branches of the model. A pair of a result
  and a Boolean \<open>ok\<close> is an option.
\<close>

section \<open>White space\<close>

definition isSpaceByte :: "char \<Rightarrow> bool" where
  \<comment> \<open>\<open>\s\<close> of a regular expression\<close>
  "isSpaceByte c = (c \<in> {CHR 0x09, CHR 0x0A, CHR 0x0C, CHR 0x0D, CHR '' ''})"

function splitOr :: "string \<Rightarrow> string list" where
  \<comment> \<open>\<open>logicalOrRegExp.Split(text, -1)\<close>\<close>
  "splitOr s =
     (case strIndex s ''||'' of
        None \<Rightarrow> [s]
      | Some i \<Rightarrow> take i s # splitOr (drop (i + 2) s))"
  by pat_completeness auto
termination
  by (relation "measure length") (auto dest!: strIndex_Some)

declare splitOr.simps [simp del]

function splitSpaces :: "string \<Rightarrow> string list" where
  \<comment> \<open>\<open>whitespaceRegExp.Split(r, -1)\<close>\<close>
  "splitSpaces s =
     (case dropWhile (\<lambda>c. \<not> isSpaceByte c) s of
        [] \<Rightarrow> [s]
      | c # s' \<Rightarrow> takeWhile (\<lambda>c. \<not> isSpaceByte c) s # splitSpaces (dropWhile isSpaceByte s'))"
  by pat_completeness auto
termination
proof (relation "measure length")
  fix s c s'
  assume "dropWhile (\<lambda>c. \<not> isSpaceByte c) s = c # s'"
  then have "length (c # s') \<le> length s" by (metis length_dropWhile_le)
  then show "(dropWhile isSpaceByte s', s) \<in> measure length"
    using length_dropWhile_le [of isSpaceByte s'] by simp
qed simp

declare splitSpaces.simps [simp del]

section \<open>The grammar of ranges\<close>

definition rangeExtra :: string where "rangeExtra = ''-+.*''"

definition matchOperand :: "string \<Rightarrow> string option" where
  \<comment> \<open>\<open>\s*([a-z0-9-+.*]+)$\<close>\<close>
  "matchOperand s =
     (let r = dropWhile isSpaceByte s in if r \<noteq> [] \<and> snd (takeClass rangeExtra r) = [] then Some r else None)"

definition rangeMatch :: "string \<Rightarrow> (string \<times> string) option" where
  \<comment> \<open>\<open>rangeRegExp\<close>: the operator, empty when absent, and the operand\<close>
  "rangeMatch s =
     (case s of
        [] \<Rightarrow> None
      | c # s' \<Rightarrow>
          if c \<in> set ''~^<>='' then
            (case matchOperand s' of
               Some text \<Rightarrow> Some ([c], text)
             | None \<Rightarrow>
                 if c \<in> set ''<>'' \<and> s' \<noteq> [] \<and> hd s' = CHR ''=''
                 then map_option (\<lambda>text. ([c, CHR ''=''], text)) (matchOperand (tl s')) else None)
          else map_option (\<lambda>text. ([], text)) (matchOperand s))"

definition startsWithSpace :: "string \<Rightarrow> bool" where
  "startsWithSpace s = (s \<noteq> [] \<and> isSpaceByte (hd s))"

definition hyphenMatch :: "string \<Rightarrow> (string \<times> string) option" where
  \<comment> \<open>\<open>hyphenRegExp\<close>: the two operands\<close>
  "hyphenMatch r =
     (let (left, s1) = takeClass rangeExtra (dropWhile isSpaceByte r); s2 = dropWhile isSpaceByte s1 in
      if left = [] \<or> \<not> startsWithSpace s1 \<or> s2 = [] \<or> hd s2 \<noteq> CHR ''-'' \<or> \<not> startsWithSpace (tl s2) then None
      else
        let (right, s3) = takeClass rangeExtra (dropWhile isSpaceByte (tl s2)) in
        if right = [] \<or> dropWhile isSpaceByte s3 \<noteq> [] then None else Some (left, right))"

definition isWildcard :: "string \<Rightarrow> bool" where
  "isWildcard s = (s = ''*'' \<or> s = ''x'' \<or> s = ''X'')"

definition partialNumber :: "string \<Rightarrow> (string \<times> string) option" where
  \<comment> \<open>\<open>[x*0]|[1-9]\d*\<close>, ignoring case\<close>
  "partialNumber s =
     (case s of
        [] \<Rightarrow> None
      | c # s' \<Rightarrow>
          if c \<in> set ''xX*0'' then Some ([c], s')
          else if isDigitByte c then Some (takeWhile isDigitByte s, dropWhile isDigitByte s)
          else None)"

section \<open>Parsing\<close>

record versionComparator =
  operator :: string
  operand :: Version

record VersionRange =
  alternatives :: "versionComparator list list"

definition rangeLessThan :: string where "rangeLessThan = ''<''"
definition rangeLessThanEqual :: string where "rangeLessThanEqual = ''<=''"
definition rangeEqual :: string where "rangeEqual = ''=''"
definition rangeGreaterThanEqual :: string where "rangeGreaterThanEqual = ''>=''"
definition rangeGreaterThan :: string where "rangeGreaterThan = ''>''"

lemmas operator_defs = rangeLessThan_def rangeLessThanEqual_def rangeEqual_def rangeGreaterThanEqual_def rangeGreaterThan_def

record partialVersion =
  version :: Version
  majorStr :: string
  minorStr :: string
  patchStr :: string

definition parsePartial :: "string \<Rightarrow> partialVersion option" where
  "parsePartial s =
     (case matchVersion partialNumber s of
        None \<Rightarrow> None
      | Some (majS, minS0, patS0, prereleaseStr, buildStr) \<Rightarrow>
          let minS = (if minS0 = [] then ''*'' else minS0);
              patS = (if patS0 = [] then ''*'' else patS0);
              numbers =
                (if isWildcard majS then Some (0, 0, 0)
                 else case getUintComponent majS of None \<Rightarrow> None | Some majN \<Rightarrow>
                   if isWildcard minS then Some (majN, 0, 0)
                   else case getUintComponent minS of None \<Rightarrow> None | Some minN \<Rightarrow>
                     if isWildcard patS then Some (majN, minN, 0)
                     else case getUintComponent patS of None \<Rightarrow> None | Some patN \<Rightarrow> Some (majN, minN, patN)) in
          case numbers of
            None \<Rightarrow> None
          | Some (majN, minN, patN) \<Rightarrow>
              Some \<lparr>version = \<lparr>major = majN, minor = minN, patch = patN,
                        prerelease = (if prereleaseStr \<noteq> [] then strSplit dot_char prereleaseStr else []),
                        build = (if buildStr \<noteq> [] then strSplit dot_char buildStr else [])\<rparr>,
                    majorStr = majS, minorStr = minS, patchStr = patS\<rparr>)"

definition parseHyphen :: "string \<Rightarrow> string \<Rightarrow> versionComparator list option" where
  "parseHyphen left right =
     (case parsePartial left of None \<Rightarrow> None | Some leftResult \<Rightarrow>
     (case parsePartial right of None \<Rightarrow> None | Some rightResult \<Rightarrow>
        Some
         ((if \<not> isWildcard (majorStr leftResult)
           then [\<lparr>operator = rangeGreaterThanEqual, operand = version leftResult\<rparr>] else []) @
          (if \<not> isWildcard (majorStr rightResult)
           then
             [if isWildcard (minorStr rightResult)
              then \<lparr>operator = rangeLessThan, operand = incrementMajor (version rightResult)\<rparr>
              else if isWildcard (patchStr rightResult)
              then \<lparr>operator = rangeLessThan, operand = incrementMinor (version rightResult)\<rparr>
              else \<lparr>operator = rangeLessThanEqual, operand = version rightResult\<rparr>]
           else []))))"

definition beforeAll :: "Version \<Rightarrow> Version" where
  \<comment> \<open>\<open>version.prerelease = []string{"0"}\<close>\<close>
  "beforeAll v = v\<lparr>prerelease := [''0'']\<rparr>"

definition parseTilde :: "partialVersion \<Rightarrow> versionComparator list" where
  "parseTilde result =
     [\<lparr>operator = rangeGreaterThanEqual, operand = version result\<rparr>,
      \<lparr>operator = rangeLessThan,
       operand = (if isWildcard (minorStr result) then incrementMajor (version result) else incrementMinor (version result))\<rparr>]"

definition parseCaret :: "partialVersion \<Rightarrow> versionComparator list" where
  "parseCaret result =
     [\<lparr>operator = rangeGreaterThanEqual, operand = version result\<rparr>,
      \<lparr>operator = rangeLessThan,
       operand =
         (if major (version result) > 0 \<or> isWildcard (minorStr result) then incrementMajor (version result)
          else if minor (version result) > 0 \<or> isWildcard (patchStr result) then incrementMinor (version result)
          else incrementPatch (version result))\<rparr>]"

definition parseBound :: "string \<Rightarrow> partialVersion \<Rightarrow> versionComparator list" where
  \<comment> \<open>the cases \<open>"<", ">="\<close>\<close>
  "parseBound op result =
     [\<lparr>operator = op,
       operand = (if isWildcard (minorStr result) \<or> isWildcard (patchStr result)
                  then beforeAll (version result) else version result)\<rparr>]"

definition parseBeyond :: "string \<Rightarrow> partialVersion \<Rightarrow> versionComparator list" where
  \<comment> \<open>the cases \<open>"<=", ">"\<close>\<close>
  "parseBeyond op result =
     (let op' = (if op = rangeLessThanEqual then rangeLessThan else rangeGreaterThanEqual) in
      if isWildcard (minorStr result)
      then [\<lparr>operator = op', operand = beforeAll (incrementMajor (version result))\<rparr>]
      else if isWildcard (patchStr result)
      then [\<lparr>operator = op', operand = beforeAll (incrementMinor (version result))\<rparr>]
      else [\<lparr>operator = op, operand = version result\<rparr>])"

definition parseEqual :: "partialVersion \<Rightarrow> versionComparator list" where
  "parseEqual result =
     (if isWildcard (minorStr result) \<or> isWildcard (patchStr result) then
        [\<lparr>operator = rangeGreaterThanEqual, operand = beforeAll (version result)\<rparr>,
         \<lparr>operator = rangeLessThan,
          operand = beforeAll (if isWildcard (minorStr result) then incrementMajor (version result)
                               else incrementMinor (version result))\<rparr>]
      else [\<lparr>operator = rangeEqual, operand = version result\<rparr>])"

definition parseComparator :: "string \<Rightarrow> string \<Rightarrow> versionComparator list option or_panic" where
  "parseComparator op s =
     (case parsePartial s of
        None \<Rightarrow> Inr None
      | Some result \<Rightarrow>
          if \<not> isWildcard (majorStr result) then
            if op = ''~'' then Inr (Some (parseTilde result))
            else if op = ''^'' then Inr (Some (parseCaret result))
            else if op = ''<'' \<or> op = ''>='' then Inr (Some (parseBound op result))
            else if op = ''<='' \<or> op = ''>'' then Inr (Some (parseBeyond op result))
            else if op = ''='' \<or> op = [] then Inr (Some (parseEqual result))
            else Inl (''Unexpected operator: '' @ op)
          else if op = ''<'' \<or> op = ''>'' then Inr (Some [\<lparr>operator = rangeLessThan, operand = versionZero\<rparr>])
          else Inr (Some []))"

fun parseSimples :: "string list \<Rightarrow> versionComparator list option or_panic" where
  "parseSimples [] = Inr (Some [])"
| "parseSimples (simple # simples) =
     (case rangeMatch (TrimSpace simple) of
        None \<Rightarrow> Inr None
      | Some (op, s) \<Rightarrow>
          bind_panic (parseComparator op s) (\<lambda>parsed.
            case parsed of
              None \<Rightarrow> Inr None
            | Some comparators \<Rightarrow>
                bind_panic (parseSimples simples) (\<lambda>rest. Inr (map_option (\<lambda>cs. comparators @ cs) rest))))"

definition parseRange :: "string \<Rightarrow> versionComparator list option or_panic" where
  "parseRange r =
     (case hyphenMatch r of
        Some (left, right) \<Rightarrow> Inr (parseHyphen left right)
      | None \<Rightarrow> parseSimples (splitSpaces r))"

fun parseRanges :: "string list \<Rightarrow> versionComparator list list option or_panic" where
  "parseRanges [] = Inr (Some [])"
| "parseRanges (r0 # rs) =
     (let r = TrimSpace r0 in
      if r = [] then parseRanges rs
      else bind_panic (parseRange r) (\<lambda>parsed.
        case parsed of
          None \<Rightarrow> Inr None
        | Some comparators \<Rightarrow> bind_panic (parseRanges rs) (\<lambda>rest. Inr (map_option (\<lambda>as. comparators # as) rest))))"

definition parseAlternatives :: "string \<Rightarrow> versionComparator list list option or_panic" where
  "parseAlternatives s = parseRanges (splitOr (TrimSpace s))"

definition TryParseVersionRange :: "string \<Rightarrow> VersionRange option or_panic" where
  "TryParseVersionRange s =
     bind_panic (parseAlternatives s) (\<lambda>r. Inr (map_option (\<lambda>as. \<lparr>alternatives = as\<rparr>) r))"

section \<open>Printing and testing\<close>

definition formatComparator :: "versionComparator \<Rightarrow> string" where
  "formatComparator c = operator c @ Version_String (operand c)"

definition formatAlternative :: "versionComparator list \<Rightarrow> string" where
  "formatAlternative comparators = strJoin '' '' (map formatComparator comparators)"

definition formatDisjunction :: "versionComparator list list \<Rightarrow> string" where
  "formatDisjunction as =
     (let s = strJoin '' || '' (map formatAlternative as) in if s = [] then ''*'' else s)"

definition VersionRange_String :: "VersionRange \<Rightarrow> string" where
  "VersionRange_String v = formatDisjunction (alternatives v)"

definition testComparator :: "versionComparator \<Rightarrow> Version option \<Rightarrow> bool or_panic" where
  "testComparator cmpr v =
     (let cmp = Version_Compare v (Some (operand cmpr)) in
      if operator cmpr = rangeLessThan then Inr (cmp < 0)
      else if operator cmpr = rangeLessThanEqual then Inr (cmp \<le> 0)
      else if operator cmpr = rangeEqual then Inr (cmp = 0)
      else if operator cmpr = rangeGreaterThanEqual then Inr (cmp \<ge> 0)
      else if operator cmpr = rangeGreaterThan then Inr (cmp > 0)
      else Inl (''Unexpected operator: '' @ operator cmpr))"

fun testAlternative :: "versionComparator list \<Rightarrow> Version option \<Rightarrow> bool or_panic" where
  "testAlternative [] v = Inr True"
| "testAlternative (c # cs) v =
     bind_panic (testComparator c v) (\<lambda>b. if \<not> b then Inr False else testAlternative cs v)"

fun testAlternatives :: "versionComparator list list \<Rightarrow> Version option \<Rightarrow> bool or_panic" where
  "testAlternatives [] v = Inr False"
| "testAlternatives (a # as) v =
     bind_panic (testAlternative a v) (\<lambda>b. if b then Inr True else testAlternatives as v)"

definition testDisjunction :: "versionComparator list list \<Rightarrow> Version option \<Rightarrow> bool or_panic" where
  "testDisjunction as v = (if length as = 0 then Inr True else testAlternatives as v)"

definition VersionRange_Test :: "VersionRange \<Rightarrow> Version option \<Rightarrow> bool or_panic" where
  "VersionRange_Test r v = testDisjunction (alternatives r) v"

end
