(* ===== verification/Semver_Range_Props.thy ===== *)
theory Semver_Range_Props
  imports Semver_Range
begin

text \<open>
  Properties of \<open>internal/semver/version_range.go\<close>: parsing and testing never panic, a printed
  range parses back, and what the operators \<open>^\<close> and \<open>~\<close> accept.
\<close>

section \<open>No panics\<close>

definition operators :: "string list" where
  "operators = [rangeLessThan, rangeLessThanEqual, rangeEqual, rangeGreaterThanEqual, rangeGreaterThan]"

definition comparatorOk :: "versionComparator \<Rightarrow> bool" where
  \<comment> \<open>what every parsed comparator satisfies\<close>
  "comparatorOk c = (operator c \<in> set operators \<and> identifiersOk (prerelease (operand c)) \<and> identifiersOk (build (operand c)))"

lemma takeClass_inClass: "takeClass extra s = (m, r) \<Longrightarrow> inClass extra m"
proof (induction extra s arbitrary: m r rule: takeClass.induct)
  case (1 extra s)
  show ?case
  proof (cases s)
    case Nil
    then show ?thesis using 1(3) by (simp add: takeClass.simps)
  next
    case (Cons c s')
    show ?thesis
    proof (cases "isDigitByte c \<or> isLetterByte c \<or> c \<in> set extra")
      case True
      obtain m' r' where t: "takeClass extra s' = (m', r')" by force
      have "inClass extra m'" by (rule 1(1) [OF Cons True t])
      moreover have "m = c # m'" using 1(3) True t unfolding Cons by (subst (asm) takeClass.simps) simp
      ultimately show ?thesis using True by (simp add: inClass_Cons)
    next
      case nc: False
      show ?thesis
      proof (cases "find (\<lambda>e. strHasPrefix s e) foldedLetters")
        case None
        then show ?thesis using 1(3) nc unfolding Cons by (subst (asm) takeClass.simps) simp
      next
        case (Some e)
        obtain m' r' where t: "takeClass extra (drop (length e) s) = (m', r')" by force
        have "inClass extra m'" by (rule 1(2) [OF Cons nc Some t])
        moreover have "m = e @ m'" using 1(3) nc Some t unfolding Cons by (subst (asm) takeClass.simps) simp
        moreover have "s = c # s'" by (rule Cons)
        ultimately show ?thesis
          using Some nc by (auto simp: foldedLetters_find inClass_Cons split: if_splits)
      qed
    qed
  qed
qed

lemma matchSuffix_inClass:
  assumes "matchSuffix s = Some (pre, bld)"
  shows "inClass identifierExtra pre \<and> inClass identifierExtra bld"
  using assms takeClass_inClass [of identifierExtra]
  by (auto simp: matchSuffix_def Let_def split: list.splits if_splits prod.splits)

lemma matchVersion_inClass:
  assumes "matchVersion number s = Some (a, b, c, pre, bld)"
  shows "inClass identifierExtra pre \<and> inClass identifierExtra bld"
  using assms matchSuffix_inClass
  by (auto simp: matchVersion_def split: option.splits if_splits prod.splits)

lemma parsePartial_ok:
  assumes "parsePartial s = Some result"
  shows "identifiersOk (prerelease (version result)) \<and> identifiersOk (build (version result))"
proof -
  obtain a b c pre bld where m: "matchVersion partialNumber s = Some (a, b, c, pre, bld)"
    using assms by (auto simp: parsePartial_def split: option.splits)
  have "identifiersOk (if x \<noteq> [] then strSplit dot_char x else [])" if "inClass identifierExtra x" for x
    using that identifiersOk_split by (simp add: identifiersOk_def)
  moreover have "prerelease (version result) = (if pre \<noteq> [] then strSplit dot_char pre else [])"
    "build (version result) = (if bld \<noteq> [] then strSplit dot_char bld else [])"
    using assms m by (auto simp: parsePartial_def Let_def split: option.splits)
  ultimately show ?thesis using matchVersion_inClass [OF m] by metis
qed

lemma identifiersOk_simps [simp]: "identifiersOk []" "identifiersOk [''0'']"
  by (simp_all add: identifiersOk_def) code_simp

lemma increment_fields [simp]:
  "prerelease (incrementMajor v) = []" "prerelease (incrementMinor v) = []" "prerelease (incrementPatch v) = []"
  "build (incrementMajor v) = []" "build (incrementMinor v) = []" "build (incrementPatch v) = []"
  "prerelease (beforeAll v) = [''0'']" "build (beforeAll v) = build v"
  "prerelease versionZero = [''0'']" "build versionZero = []"
  by (simp_all add: incrementMajor_def incrementMinor_def incrementPatch_def emptyVersion_def beforeAll_def versionZero_def)

lemma parseHyphen_ok: "parseHyphen left right = Some cs \<Longrightarrow> list_all comparatorOk cs"
  by (auto simp: parseHyphen_def comparatorOk_def operators_def operator_defs parsePartial_ok split: option.splits)

lemmas parse_comparator_defs = parseTilde_def parseCaret_def parseBound_def parseBeyond_def parseEqual_def

lemma parseComparator_ok:
  "parseComparator op s = Inr (Some cs) \<Longrightarrow> list_all comparatorOk cs"
  by (auto simp: parseComparator_def parse_comparator_defs comparatorOk_def operators_def operator_defs Let_def
      parsePartial_ok split: option.splits if_splits)

lemma rangeMatch_operator:
  "rangeMatch s = Some (op, t) \<Longrightarrow> op \<in> {[], ''~'', ''^'', ''<'', ''>'', ''='', ''<='', ''>=''}"
  by (auto simp: rangeMatch_def split: list.splits if_splits option.splits)

lemma parseComparator_returns:
  "rangeMatch s = Some (op, t) \<Longrightarrow> \<exists>r. parseComparator op t = Inr r"
  using rangeMatch_operator [of s op t] by (auto simp: parseComparator_def split: option.splits)

lemma parseSimples_returns: "\<exists>r. parseSimples simples = Inr r \<and> (\<forall>cs. r = Some cs \<longrightarrow> list_all comparatorOk cs)"
proof (induction simples)
  case (Cons simple simples)
  show ?case
  proof (cases "rangeMatch (TrimSpace simple)")
    case (Some m)
    obtain op t where m: "m = (op, t)" by force
    obtain r where r: "parseComparator op t = Inr r" using parseComparator_returns Some m by blast
    obtain rest where rest: "parseSimples simples = Inr rest" "\<forall>cs. rest = Some cs \<longrightarrow> list_all comparatorOk cs"
      using Cons.IH by blast
    show ?thesis
      using rest r Some m by (cases r; cases rest) (auto dest: parseComparator_ok)
  qed simp
qed simp

lemma parseRange_returns: "\<exists>p. parseRange r = Inr p \<and> (\<forall>cs. p = Some cs \<longrightarrow> list_all comparatorOk cs)"
  using parseSimples_returns [of "splitSpaces r"] by (auto simp: parseRange_def parseHyphen_ok split: option.splits)

lemma parseRanges_returns: "\<exists>p. parseRanges rs = Inr p \<and> (\<forall>as. p = Some as \<longrightarrow> list_all (list_all comparatorOk) as)"
proof (induction rs)
  case (Cons r rs)
  obtain p where p: "parseRange (TrimSpace r) = Inr p" "\<forall>cs. p = Some cs \<longrightarrow> list_all comparatorOk cs"
    using parseRange_returns by blast
  obtain q where q: "parseRanges rs = Inr q" "\<forall>as. q = Some as \<longrightarrow> list_all (list_all comparatorOk) as"
    using Cons.IH by blast
  show ?case using p q by (cases p; cases q) (auto simp: Let_def)
qed simp

lemma TryParseVersionRange_returns:
  "\<exists>p. TryParseVersionRange s = Inr p \<and> (\<forall>r. p = Some r \<longrightarrow> list_all (list_all comparatorOk) (alternatives r))"
  using parseRanges_returns [of "splitOr (TrimSpace s)"]
  by (auto simp: TryParseVersionRange_def parseAlternatives_def)

text \<open>The meaning of a comparator, and of a range as a disjunction of conjunctions.\<close>

definition holds :: "versionComparator \<Rightarrow> Version option \<Rightarrow> bool" where
  "holds c v =
     (let r = Version_Compare v (Some (operand c)) in
      (operator c = ''<'' \<longrightarrow> r < 0) \<and> (operator c = ''<='' \<longrightarrow> r \<le> 0) \<and> (operator c = ''='' \<longrightarrow> r = 0)
      \<and> (operator c = ''>='' \<longrightarrow> r \<ge> 0) \<and> (operator c = ''>'' \<longrightarrow> r > 0))"

lemma testComparator_holds: "comparatorOk c \<Longrightarrow> testComparator c v = Inr (holds c v)"
  by (auto simp: testComparator_def holds_def comparatorOk_def operators_def operator_defs Let_def)

lemma testAlternative_holds:
  "list_all comparatorOk cs \<Longrightarrow> testAlternative cs v = Inr (\<forall>c\<in>set cs. holds c v)"
  by (induction cs) (auto simp: testComparator_holds)

lemma testDisjunction_holds:
  "list_all (list_all comparatorOk) as \<Longrightarrow>
     testDisjunction as v = Inr (as = [] \<or> (\<exists>cs\<in>set as. \<forall>c\<in>set cs. holds c v))"
proof -
  have "list_all (list_all comparatorOk) as \<Longrightarrow> testAlternatives as v = Inr (\<exists>cs\<in>set as. \<forall>c\<in>set cs. holds c v)"
    by (induction as) (auto simp: testAlternative_holds)
  then show "list_all (list_all comparatorOk) as \<Longrightarrow> ?thesis" by (auto simp: testDisjunction_def)
qed

text \<open>C32. Neither parsing a range nor testing a version against the result ever panics, although both
  switch on operators held as strings: for every text TryParseVersionRange returns, and when it
  accepts, Test answers for every version, also a nil one, whether some alternative has all its
  comparators satisfied, an empty disjunction accepting everything.\<close>

theorem VersionRange_total:
  "\<exists>p. TryParseVersionRange s = Inr p \<and>
     (case p of
        None \<Rightarrow> True
      | Some r \<Rightarrow> VersionRange_Test r v =
          Inr (alternatives r = [] \<or> list_ex (\<lambda>cs. list_all (\<lambda>c. holds c v) cs) (alternatives r)))"
proof -
  obtain p where p: "TryParseVersionRange s = Inr p"
      "\<And>r. p = Some r \<Longrightarrow> list_all (list_all comparatorOk) (alternatives r)"
    using TryParseVersionRange_returns [of s] by blast
  show ?thesis
  proof (intro exI conjI, rule p(1))
    show "case p of None \<Rightarrow> True | Some r \<Rightarrow> VersionRange_Test r v =
          Inr (alternatives r = [] \<or> list_ex (\<lambda>cs. list_all (\<lambda>c. holds c v) cs) (alternatives r))"
      using p(2) by (auto simp: VersionRange_Test_def testDisjunction_holds list_ex_iff list_all_iff [of "\<lambda>c. holds c v"] split: option.split)
  qed
qed

section \<open>Printing and parsing again\<close>

subsection \<open>Trimming and splitting\<close>

lemma printable_bytes:
  "c \<in> set ''<>='' \<Longrightarrow> 60 \<le> byte_of c \<and> byte_of c \<le> 62"
  "isDigitByte c \<or> isLetterByte c \<or> c \<in> set rangeExtra \<Longrightarrow> 42 \<le> byte_of c \<and> byte_of c \<le> 122 \<and> \<not> (60 \<le> byte_of c \<and> byte_of c \<le> 62)"
  "isSpaceByte c \<Longrightarrow> byte_of c \<le> 32"
  by (auto simp: isDigitByte_def isLetterByte_def rangeExtra_def isSpaceByte_def)

text \<open>A string that trimming keeps and that stops trimming on both sides.\<close>

definition trimmed :: "string \<Rightarrow> bool" where
  "trimmed s = (s \<noteq> [] \<and> hd s \<notin> firstBytes \<and> last s \<notin> lastBytes)"

definition blanks :: "string \<Rightarrow> bool" where
  "blanks b = (b = [] \<or> b = '' '')"

lemma TrimSpace_blanks:
  assumes "trimmed s" "blanks a" "blanks b"
  shows "TrimSpace (a @ s @ b) = s"
proof -
  have left: "trimLeft unicodeSpaces (s @ b) = s @ b"
    using assms(1) by (intro trimLeft_id) (auto simp: trimmed_def firstBytes_def)
  have right: "trimLeft (map rev unicodeSpaces) (rev s) = rev s"
    using assms(1) last_bytes by (intro trimLeft_id) (auto simp: trimmed_def hd_rev)
  show ?thesis
    using assms(2,3) left right by (auto simp: TrimSpace_def blanks_def trimLeft_blank)
qed

lemma TrimSpace_trimmed: "trimmed s \<Longrightarrow> TrimSpace s = s"
  using TrimSpace_blanks [of s "[]" "[]"] by (simp add: blanks_def)

lemma splitOr_none: "CHR ''|'' \<notin> set s \<Longrightarrow> splitOr s = [s]"
proof -
  assume "CHR ''|'' \<notin> set s"
  then have "strIndex s ''||'' = None" by (induction s) auto
  then show ?thesis by (subst splitOr.simps) simp
qed

lemma splitOr_append: "CHR ''|'' \<notin> set s \<Longrightarrow> splitOr (s @ ''||'' @ t) = s # splitOr t"
proof -
  assume "CHR ''|'' \<notin> set s"
  then have "strIndex (s @ ''||'' @ t) ''||'' = Some (length s)" by (induction s) auto
  then show ?thesis by (subst splitOr.simps) simp
qed

lemma splitSpaces_none: "(\<forall>c\<in>set s. \<not> isSpaceByte c) \<Longrightarrow> splitSpaces s = [s]"
proof -
  assume "\<forall>c\<in>set s. \<not> isSpaceByte c"
  then have d: "dropWhile (\<lambda>c. \<not> isSpaceByte c) s = []" by simp
  show ?thesis by (subst splitSpaces.simps) (simp only: d list.case)
qed

lemma splitSpaces_append:
  assumes "\<forall>c\<in>set s. \<not> isSpaceByte c" "t \<noteq> []" "\<not> isSpaceByte (hd t)"
  shows "splitSpaces (s @ '' '' @ t) = s # splitSpaces t"
proof -
  have sp: "isSpaceByte CHR '' ''" by (simp add: isSpaceByte_def)
  have "dropWhile (\<lambda>c. \<not> isSpaceByte c) (s @ '' '' @ t) = CHR '' '' # t"
    "takeWhile (\<lambda>c. \<not> isSpaceByte c) (s @ '' '' @ t) = s"
    using assms(1) sp by simp_all
  moreover have "dropWhile isSpaceByte t = t" using assms(2,3) by (cases t) simp_all
  ultimately show ?thesis by (subst splitSpaces.simps) simp
qed

subsection \<open>Comparators\<close>

lemma inClass_range:
  "inClass identifierExtra s \<Longrightarrow> inClass rangeExtra s"
  by (induction s rule: inClass_induct)
    (auto simp: inClass_Cons rangeExtra_def identifierExtra_def isDigitByte_def isLetterByte_def)

lemma inClass_range_bytes:
  "inClass rangeExtra s \<Longrightarrow>
     (\<forall>c\<in>set s. \<not> isSpaceByte c \<and> c \<noteq> CHR ''|'') \<and> (s \<noteq> [] \<longrightarrow> last s \<notin> lastBytes)"
proof (induction s rule: inClass_induct)
  case (Plain c s)
  have b: "42 \<le> byte_of c" "byte_of c \<le> 122" using printable_bytes(2) [OF Plain(1)] by auto
  have "\<not> isSpaceByte c" "c \<notin> lastBytes"
    using b space_bytes(2) [of c] printable_bytes(3) [of c] by linarith+
  moreover have "c \<noteq> CHR ''|''" using b by auto
  ultimately show ?case using Plain(3) by simp
next
  case (Two s)
  have "CHR 0xBF \<notin> lastBytes" using space_bytes(2) [of "CHR 0xBF"] by auto
  then show ?case using Two(3) by (simp add: isSpaceByte_def)
next
  case (Three s)
  have "CHR 0xAA \<notin> lastBytes" using space_bytes(2) [of "CHR 0xAA"] by auto
  then show ?case using Three(3) by (simp add: isSpaceByte_def)
qed simp

lemma inClass_Version_String:
  assumes "identifiersOk (prerelease v)" "identifiersOk (build v)"
  shows "inClass rangeExtra (Version_String v)"
proof -
  have n: "inClass rangeExtra (showNat k)" for k using showNat_digits [of k] by (intro inClass_digits) blast
  have c: "inClass rangeExtra ''.''" "inClass rangeExtra ''-''" "inClass rangeExtra ''+''" by code_simp+
  have j: "inClass rangeExtra (strJoin ''.'' xs)" if "identifiersOk xs" for xs
    using that by (auto simp: identifiersOk_def intro: inClass_range)
  show ?thesis
    unfolding Version_String_def using n c j [OF assms(1)] j [OF assms(2)]
      inClass_append [of rangeExtra "''-''"] inClass_append [of rangeExtra "''+''"]
    by (intro inClass_append) simp_all
qed

lemma Version_String_hd: "Version_String v \<noteq> [] \<and> isDigitByte (hd (Version_String v))"
  using showNat_digits [of "unat (major v)"] unfolding Version_String_def
  by (cases "showNat (unat (major v))") auto

lemma matchOperand_Version_String:
  assumes "identifiersOk (prerelease v)" "identifiersOk (build v)"
  shows "matchOperand (Version_String v) = Some (Version_String v)"
proof -
  have "\<not> isSpaceByte (hd (Version_String v))" "Version_String v \<noteq> []"
    using Version_String_hd [of v] by (auto simp: isSpaceByte_def isDigitByte_def)
  then have "dropWhile isSpaceByte (Version_String v) = Version_String v" by (cases "Version_String v") simp_all
  then show ?thesis
    using inClass_Version_String [OF assms] Version_String_hd [of v] by (simp add: matchOperand_def inClass_def)
qed

lemma matchOperand_equals: "matchOperand (CHR ''='' # s) = None"
proof -
  have "takeClass rangeExtra (CHR ''='' # s) = ([], CHR ''='' # s)"
    by (subst takeClass.simps) (simp add: isDigitByte_def isLetterByte_def rangeExtra_def foldedLetters_find)
  then show ?thesis by (simp add: matchOperand_def isSpaceByte_def)
qed

lemma rangeMatch_formatComparator:
  assumes "comparatorOk c"
  shows "rangeMatch (formatComparator c) = Some (operator c, Version_String (operand c))"
proof -
  have "matchOperand (Version_String (operand c)) = Some (Version_String (operand c))"
    using assms by (intro matchOperand_Version_String) (simp_all add: comparatorOk_def)
  then show ?thesis
    using assms by (auto simp: rangeMatch_def formatComparator_def comparatorOk_def operators_def operator_defs matchOperand_equals)
qed

lemma partialNumber_showNat: "stopsNumber r \<Longrightarrow> partialNumber (showNat n @ r) = Some (showNat n, r)"
proof (cases "n = 0")
  case True
  then show ?thesis by (simp add: partialNumber_def showNat_0)
next
  case False
  assume r: "stopsNumber r"
  obtain c s where s: "showNat n = c # s" using showNat_digits [of n] by (cases "showNat n") auto
  have c: "isDigitByte c" "c \<noteq> CHR ''0''" using showNat_digits [of n] False unfolding s by auto
  then have "c \<notin> set ''xX*0''" by (auto simp: isDigitByte_def)
  moreover have "takeWhile isDigitByte (showNat n @ r) = showNat n" "dropWhile isDigitByte (showNat n @ r) = r"
    using span_digits [of "showNat n" r] r showNat_digits [of n] by blast+
  ultimately show ?thesis using c unfolding s by (simp add: partialNumber_def)
qed

lemma isWildcard_showNat [simp]: "\<not> isWildcard (showNat n)"
  using showNat_digits [of n] by (auto simp: isWildcard_def isDigitByte_def)

lemma parsePartial_Version_String:
  assumes p: "identifiersOk (prerelease v)" and b: "identifiersOk (build v)"
  shows "parsePartial (Version_String v) = Some \<lparr>version = v, majorStr = showNat (unat (major v)),
    minorStr = showNat (unat (minor v)), patchStr = showNat (unat (patch v))\<rparr>"
proof -
  have m: "matchVersion partialNumber (Version_String v) =
    Some (showNat (unat (major v)), showNat (unat (minor v)), showNat (unat (patch v)),
      strJoin ''.'' (prerelease v), strJoin ''.'' (build v))"
    by (rule matchVersion_String [OF _ p b]) (rule partialNumber_showNat)
  have ne: "showNat n \<noteq> []" for n using showNat_digits by blast
  have j: "(if strJoin ''.'' xs \<noteq> [] then strSplit dot_char (strJoin ''.'' xs) else []) = xs" if "identifiersOk xs" for xs
    using that identifiersOk_join [of xs] by (cases "xs = []") (auto simp: identifiersOk_def)
  show ?thesis using j [OF p] j [OF b] by (simp add: parsePartial_def m ne Let_def del: if_split)
qed

lemma parseComparator_formatComparator:
  "comparatorOk c \<Longrightarrow> parseComparator (operator c) (Version_String (operand c)) = Inr (Some [c])"
  by (auto simp: parseComparator_def parsePartial_Version_String comparatorOk_def operators_def operator_defs
      parse_comparator_defs)

subsection \<open>Alternatives and ranges\<close>

definition tokenOk :: "string \<Rightarrow> bool" where
  "tokenOk t = (t \<noteq> [] \<and> hd t \<in> set ''<>='' \<and> (\<forall>c\<in>set t. \<not> isSpaceByte c \<and> c \<noteq> CHR ''|'') \<and> last t \<notin> lastBytes)"

lemma tokenOk_formatComparator: "comparatorOk c \<Longrightarrow> tokenOk (formatComparator c)"
proof -
  assume ok: "comparatorOk c"
  let ?v = "Version_String (operand c)"
  have v: "\<forall>c\<in>set ?v. \<not> isSpaceByte c \<and> c \<noteq> CHR ''|''" "last ?v \<notin> lastBytes" "?v \<noteq> []"
    using inClass_range_bytes [OF inClass_Version_String, of "operand c"] Version_String_hd [of "operand c"] ok
    unfolding comparatorOk_def by blast+
  have "operator c \<in> {''<'', ''<='', ''='', ''>='', ''>''}"
    using ok by (simp add: comparatorOk_def operators_def operator_defs)
  then have o: "operator c \<noteq> []" "hd (operator c) \<in> set ''<>=''" "\<forall>c\<in>set (operator c). \<not> isSpaceByte c \<and> c \<noteq> CHR ''|''"
    by (elim insertE; simp add: isSpaceByte_def)+
  show ?thesis
    using v o unfolding tokenOk_def formatComparator_def by (simp only: set_append ball_Un hd_append2 last_appendR append_is_Nil_conv simp_thms)
qed

lemma tokenOk_trimmed: "tokenOk t \<Longrightarrow> TrimSpace t = t"
  using printable_bytes(1) [of "hd t"] space_bytes(1) [of "hd t"]
  by (intro TrimSpace_trimmed) (auto simp: tokenOk_def trimmed_def)

lemma parseSimples_format:
  "list_all comparatorOk cs \<Longrightarrow> parseSimples (map formatComparator cs) = Inr (Some cs)"
  by (induction cs)
    (simp_all add: tokenOk_trimmed tokenOk_formatComparator rangeMatch_formatComparator parseComparator_formatComparator)

lemma splitSpaces_join:
  "ts \<noteq> [] \<Longrightarrow> list_all tokenOk ts \<Longrightarrow> splitSpaces (strJoin '' '' ts) = ts"
proof (induction ts)
  case (Cons t ts)
  show ?case
  proof (cases ts)
    case Nil
    then show ?thesis using Cons.prems by (auto simp: tokenOk_def intro!: splitSpaces_none)
  next
    case (Cons u us)
    have u: "strJoin '' '' ts \<noteq> []" "\<not> isSpaceByte (hd (strJoin '' '' ts))"
      using Cons.prems unfolding Cons by (cases us; auto simp: tokenOk_def isSpaceByte_def)+
    have "splitSpaces (t @ '' '' @ strJoin '' '' ts) = t # splitSpaces (strJoin '' '' ts)"
      using Cons.prems u by (intro splitSpaces_append) (auto simp: tokenOk_def)
    then show ?thesis using Cons.IH Cons.prems Cons by simp
  qed
qed simp

lemma join_tokens:
  "ts \<noteq> [] \<Longrightarrow> list_all tokenOk ts \<Longrightarrow>
     strJoin '' '' ts \<noteq> [] \<and> hd (strJoin '' '' ts) \<in> set ''<>='' \<and> last (strJoin '' '' ts) \<notin> lastBytes
     \<and> CHR ''|'' \<notin> set (strJoin '' '' ts)"
proof (induction ts)
  case (Cons t ts)
  then show ?case by (cases ts) (auto simp: tokenOk_def)
qed simp

lemma alternativeOk:
  assumes "list_all comparatorOk cs" "cs \<noteq> []"
  shows "trimmed (formatAlternative cs)" "CHR ''|'' \<notin> set (formatAlternative cs)"
    and "parseRange (formatAlternative cs) = Inr (Some cs)"
proof -
  let ?ts = "map formatComparator cs"
  have ts: "?ts \<noteq> []" "list_all tokenOk ?ts"
    using assms tokenOk_formatComparator by (auto simp: list_all_iff)
  note j = join_tokens [OF ts]
  let ?c = "hd (strJoin '' '' ?ts)"
  have c: "60 \<le> byte_of ?c \<and> byte_of ?c \<le> 62" using j by (intro printable_bytes(1)) blast
  then have "?c \<notin> firstBytes" using space_bytes(1) [of ?c] by linarith
  then show "trimmed (formatAlternative cs)" "CHR ''|'' \<notin> set (formatAlternative cs)"
    using j unfolding formatAlternative_def trimmed_def by blast+
  obtain c s where cs: "strJoin '' '' ?ts = c # s" using j by (cases "strJoin '' '' ?ts") blast+
  have b: "60 \<le> byte_of c" "byte_of c \<le> 62" using c unfolding cs by simp_all
  have nc: "\<not> (isDigitByte c \<or> isLetterByte c \<or> c \<in> set rangeExtra)" "\<not> isSpaceByte c"
    using b printable_bytes(2,3) [of c] by linarith+
  have "c \<noteq> CHR 0xC5" "c \<noteq> CHR 0xE2" using b by auto
  then have "takeClass rangeExtra (c # s) = ([], c # s)"
    using nc by (subst takeClass.simps) (simp add: foldedLetters_find)
  then have "hyphenMatch (formatAlternative cs) = None" using nc(2) by (simp add: hyphenMatch_def formatAlternative_def cs)
  then show "parseRange (formatAlternative cs) = Inr (Some cs)"
    using splitSpaces_join [OF ts] parseSimples_format [OF assms(1)] by (simp add: parseRange_def formatAlternative_def)
qed

lemma parseRanges_format:
  assumes "as \<noteq> []" "list_all (\<lambda>cs. cs \<noteq> [] \<and> list_all comparatorOk cs) as" "blanks p"
  shows "parseRanges (splitOr (p @ strJoin '' || '' (map formatAlternative as))) = Inr (Some as)"
  using assms
proof (induction as arbitrary: p)
  case (Cons a as)
  have a: "trimmed (formatAlternative a)" "CHR ''|'' \<notin> set (formatAlternative a)"
    "parseRange (formatAlternative a) = Inr (Some a)"
    using alternativeOk [of a] Cons.prems by auto
  have ne: "formatAlternative a \<noteq> []" using a(1) by (simp add: trimmed_def)
  have p: "CHR ''|'' \<notin> set p" using Cons.prems(3) by (auto simp: blanks_def)
  show ?case
  proof (cases "as = []")
    case True
    have "splitOr (p @ formatAlternative a) = [p @ formatAlternative a]" using a(2) p by (intro splitOr_none) simp
    moreover have "TrimSpace (p @ formatAlternative a) = formatAlternative a"
      using TrimSpace_blanks [OF a(1) Cons.prems(3), of "[]"] by (simp add: blanks_def)
    ultimately show ?thesis using a(3) ne True by simp
  next
    case False
    let ?rest = "'' '' @ strJoin '' || '' (map formatAlternative as)"
    have s: "p @ strJoin '' || '' (map formatAlternative (a # as)) = (p @ formatAlternative a @ '' '') @ ''||'' @ ?rest"
      using False by (cases as) simp_all
    have "splitOr ((p @ formatAlternative a @ '' '') @ ''||'' @ ?rest) = (p @ formatAlternative a @ '' '') # splitOr ?rest"
      using a(2) p by (intro splitOr_append) simp
    moreover have "TrimSpace (p @ formatAlternative a @ '' '') = formatAlternative a"
      by (rule TrimSpace_blanks [OF a(1) Cons.prems(3)]) (simp add: blanks_def)
    moreover have "parseRanges (splitOr ?rest) = Inr (Some as)"
      by (rule Cons.IH [OF False]) (use Cons.prems in \<open>simp_all add: blanks_def\<close>)
    ultimately show ?thesis using a(3) ne unfolding s by simp
  qed
qed simp

lemma trimmed_join: "xs \<noteq> [] \<Longrightarrow> list_all trimmed xs \<Longrightarrow> trimmed (strJoin sep xs)"
  by (induction sep xs rule: strJoin.induct) (auto simp: trimmed_def)

text \<open>Printing a parsed range and parsing the text again gives the same range, comparator by
  comparator, when every alternative of it has a comparator: the operators, the numbers, the
  pre-release and build identifiers, the order of alternatives and of comparators all survive.\<close>

theorem VersionRange_String_roundtrip:
  assumes parsed: "TryParseVersionRange s = Inr (Some r)"
    and "alternatives r \<noteq> []" "list_all (\<lambda>cs. cs \<noteq> []) (alternatives r)"
  shows "TryParseVersionRange (VersionRange_String r) = Inr (Some r)"
proof -
  let ?s = "strJoin '' || '' (map formatAlternative (alternatives r))"
  have ok: "list_all (list_all comparatorOk) (alternatives r)"
    using TryParseVersionRange_returns [of s] parsed by auto
  then have as: "list_all (\<lambda>cs. cs \<noteq> [] \<and> list_all comparatorOk cs) (alternatives r)"
    using assms(3) by (simp add: list_all_iff)
  have fa: "list_all trimmed (map formatAlternative (alternatives r))"
    using as alternativeOk(1) by (auto simp: list_all_iff)
  have t: "trimmed ?s" using trimmed_join [OF _ fa] assms(2) by simp
  then have "TrimSpace ?s = ?s" by (rule TrimSpace_trimmed)
  moreover have "VersionRange_String r = ?s" using t by (simp add: VersionRange_String_def formatDisjunction_def trimmed_def Let_def)
  ultimately show ?thesis
    using parseRanges_format [OF assms(2) as, of "[]"]
    by (simp add: TryParseVersionRange_def parseAlternatives_def blanks_def)
qed

definition witnessRange :: VersionRange where
  "witnessRange = \<lparr>alternatives =
     [[\<lparr>operator = ''>='', operand = emptyVersion\<lparr>major := 1, minor := 2\<rparr>\<rparr>,
       \<lparr>operator = ''<'', operand = emptyVersion\<lparr>major := 2\<rparr>\<rparr>],
      [\<lparr>operator = ''='', operand = emptyVersion\<lparr>major := 3\<rparr>\<rparr>]]\<rparr>"

theorem VersionRange_String_roundtrip_witness:
  "TryParseVersionRange ''^1.2 || 3.0.0'' = Inr (Some witnessRange)
   \<and> TryParseVersionRange (VersionRange_String witnessRange) = Inr (Some witnessRange)"
proof -
  have p: "TryParseVersionRange ''^1.2 || 3.0.0'' = Inr (Some witnessRange)" by code_simp
  have "alternatives witnessRange \<noteq> []" "list_all (\<lambda>cs. cs \<noteq> []) (alternatives witnessRange)"
    by (simp_all add: witnessRange_def)
  then show ?thesis using VersionRange_String_roundtrip [OF p] p by blast
qed

text \<open>The text of a range with an empty alternative means less than the range: the range
  accepts every version through its wildcard alternative, and what its text parses to accepts
  only the other one.\<close>

theorem VersionRange_String_drops_wildcard:
  "\<exists>r r'. TryParseVersionRange ''* || 1.0.0'' = Inr (Some r)
     \<and> TryParseVersionRange (VersionRange_String r) = Inr (Some r')
     \<and> VersionRange_Test r (Some (emptyVersion\<lparr>major := 2\<rparr>)) = Inr True
     \<and> VersionRange_Test r' (Some (emptyVersion\<lparr>major := 2\<rparr>)) = Inr False"
proof -
  let ?c = "\<lparr>operator = ''='', operand = emptyVersion\<lparr>major := 1\<rparr>\<rparr>"
  have p: "TryParseVersionRange ''* || 1.0.0'' = Inr (Some \<lparr>alternatives = [[], [?c]]\<rparr>)" by code_simp
  have s: "VersionRange_String \<lparr>alternatives = [[], [?c]]\<rparr> = '' || =1.0.0''"
  proof -
    have "Version_String (emptyVersion\<lparr>major := 1\<rparr>) = ''1.0.0''"
      by (simp add: Version_String_def emptyVersion_def showNat.simps) code_simp
    then show ?thesis
      by (simp add: VersionRange_String_def formatDisjunction_def formatAlternative_def formatComparator_def)
  qed
  have q: "TryParseVersionRange '' || =1.0.0'' = Inr (Some \<lparr>alternatives = [[?c]]\<rparr>)" by code_simp
  have t: "VersionRange_Test \<lparr>alternatives = [[], [?c]]\<rparr> (Some (emptyVersion\<lparr>major := 2\<rparr>)) = Inr True"
    "VersionRange_Test \<lparr>alternatives = [[?c]]\<rparr> (Some (emptyVersion\<lparr>major := 2\<rparr>)) = Inr False" by code_simp+
  show ?thesis using p q s t by metis
qed

section \<open>Caret and tilde\<close>

lemma parse_single:
  assumes op: "op = ''^'' \<or> op = ''~''" and v: "identifiersOk (prerelease v)" "identifiersOk (build v)"
  shows "TryParseVersionRange (op @ Version_String v) =
    bind_panic (parseComparator op (Version_String v)) (\<lambda>p. Inr (map_option (\<lambda>cs. \<lparr>alternatives = [cs]\<rparr>) p))"
proof -
  let ?v = "Version_String v"
  obtain c where c: "op = [c]" "c \<in> {CHR ''^'', CHR ''~''}" using op by auto
  have vb: "\<forall>c\<in>set ?v. \<not> isSpaceByte c \<and> c \<noteq> CHR ''|''" "last ?v \<notin> lastBytes" "?v \<noteq> []"
    using inClass_range_bytes [OF inClass_Version_String [OF v]] Version_String_hd [of v] by blast+
  have b: "byte_of c = 94 \<or> byte_of c = 126" using c(2) by auto
  then have f: "c \<notin> firstBytes" "\<not> isSpaceByte c" "c \<noteq> CHR ''|''"
    using space_bytes(1) [of c] printable_bytes(3) [of c] by auto
  have "trimmed (c # ?v)" using f(1) vb(2,3) by (simp add: trimmed_def)
  then have trim: "TrimSpace (c # ?v) = c # ?v" by (rule TrimSpace_trimmed)
  have cv: "\<forall>c\<in>set (c # ?v). \<not> isSpaceByte c" "CHR ''|'' \<notin> set (c # ?v)" using vb(1) f(2,3) by auto
  note split = splitOr_none [OF cv(2)] splitSpaces_none [OF cv(1)]
  have nc: "\<not> isDigitByte c" "\<not> isLetterByte c" "c \<notin> set rangeExtra" "c \<noteq> CHR 0xC5" "c \<noteq> CHR 0xE2"
    using c(2) by (auto simp: isDigitByte_def isLetterByte_def rangeExtra_def)
  then have "takeClass rangeExtra (c # ?v) = ([], c # ?v)"
    by (subst takeClass.simps) (simp add: foldedLetters_find)
  then have hyphen: "hyphenMatch (c # ?v) = None" using f(2) by (simp add: hyphenMatch_def)
  have m: "rangeMatch (c # ?v) = Some (op, ?v)"
    using c matchOperand_Version_String [OF v] by (auto simp: rangeMatch_def)
  have simples: "parseSimples [c # ?v] = bind_panic (parseComparator op ?v) Inr"
    by (cases "parseComparator op ?v") (simp_all add: trim m split: option.split)
  have e: "op @ ?v = c # ?v" by (simp add: c(1))
  have "parseRanges [c # ?v] =
      bind_panic (parseComparator op ?v) (\<lambda>p. Inr (map_option (\<lambda>cs. [cs]) p))"
    using simples by (cases "parseComparator op ?v")
      (simp_all add: trim parseRange_def hyphen split split: option.split del: parseSimples.simps)
  then show ?thesis
    unfolding e TryParseVersionRange_def parseAlternatives_def trim split
    by (cases "parseComparator op ?v") (simp_all add: option.map_comp comp_def del: parseRanges.simps)
qed

lemma compareVersions_release:
  assumes "prerelease w = []" "prerelease u = []"
  shows "compareVersions w u < 0 \<longleftrightarrow>
    unat (major w) < unat (major u) \<or> unat (major w) = unat (major u) \<and>
      (unat (minor w) < unat (minor u) \<or> unat (minor w) = unat (minor u) \<and> unat (patch w) < unat (patch u))"
  using assms
  by (simp add: compareVersions_def cmpUint32_unat compareNat_def comparePreReleaseIdentifiers_def Let_def)

lemma compareVersions_lower:
  assumes "compareVersions v w \<le> 0"
  shows "unat (major v) < unat (major w) \<or> unat (major v) = unat (major w) \<and>
      (unat (minor v) < unat (minor w) \<or> unat (minor v) = unat (minor w) \<and> unat (patch v) \<le> unat (patch w))"
  using assms by (auto simp: compareVersions_def cmpUint32_unat compareNat_def Let_def split: if_splits)

lemma unat_plus_1: "n + 1 \<noteq> 0 \<Longrightarrow> unat (n + 1) = Suc (unat n)" for n :: "32 word"
  using unatSuc [of n] by (simp add: add.commute)

lemma below_increment:
  assumes w: "prerelease w = []" and le: "compareVersions v w \<le> 0"
  shows "major v + 1 \<noteq> 0 \<Longrightarrow> compareVersions w (incrementMajor v) < 0 \<longleftrightarrow> major w = major v"
    and "minor v + 1 \<noteq> 0 \<Longrightarrow> compareVersions w (incrementMinor v) < 0 \<longleftrightarrow> major w = major v \<and> minor w = minor v"
    and "patch v + 1 \<noteq> 0 \<Longrightarrow> compareVersions w (incrementPatch v) < 0 \<longleftrightarrow>
      major w = major v \<and> minor w = minor v \<and> patch w = patch v"
proof -
  note fields = incrementMajor_def incrementMinor_def incrementPatch_def emptyVersion_def
  note low = compareVersions_lower [OF le]
  show "compareVersions w (incrementMajor v) < 0 \<longleftrightarrow> major w = major v" if h: "major v + 1 \<noteq> 0"
    using low unat_plus_1 [OF h] unfolding compareVersions_release [OF w increment_fields(1)] word_unat_eq_iff
    by (simp add: fields) linarith
  show "compareVersions w (incrementMinor v) < 0 \<longleftrightarrow> major w = major v \<and> minor w = minor v" if h: "minor v + 1 \<noteq> 0"
    using low unat_plus_1 [OF h] unfolding compareVersions_release [OF w increment_fields(2)] word_unat_eq_iff
    by (simp add: fields) linarith
  show "compareVersions w (incrementPatch v) < 0 \<longleftrightarrow> major w = major v \<and> minor w = minor v \<and> patch w = patch v"
    if h: "patch v + 1 \<noteq> 0"
    using low unat_plus_1 [OF h] unfolding compareVersions_release [OF w increment_fields(3)] word_unat_eq_iff
    by (simp add: fields) linarith
qed

lemma holds_ge_less:
  "holds \<lparr>operator = rangeGreaterThanEqual, operand = u\<rparr> (Some w) \<longleftrightarrow> compareVersions u w \<le> 0"
  "holds \<lparr>operator = rangeLessThan, operand = u\<rparr> (Some w) \<longleftrightarrow> compareVersions w u < 0"
  using versions.antisym [of u w] by (auto simp: holds_def operator_defs Version_Compare_def)

lemma Test_single:
  assumes "TryParseVersionRange s = Inr (Some \<lparr>alternatives = [cs]\<rparr>)"
  shows "VersionRange_Test \<lparr>alternatives = [cs]\<rparr> v = Inr (\<forall>c\<in>set cs. holds c v)"
proof -
  have "list_all (list_all comparatorOk) [cs]" using TryParseVersionRange_returns [of s] assms by auto
  then show ?thesis using testDisjunction_holds [of "[cs]" v] by (simp add: VersionRange_Test_def)
qed

text \<open>C15. What the caret and the tilde accept, from the text of the range on: for a version v that
  can be printed and whose numbers can be incremented, \<open>^v\<close> accepts exactly the releases from v on
  that agree with v up to its leftmost non-zero number, and \<open>~v\<close> those that agree with v on major
  and minor.\<close>

theorem caret_tilde_accept:
  assumes "wfVersion v" "prerelease w = []" "major v + 1 \<noteq> 0" "minor v + 1 \<noteq> 0" "patch v + 1 \<noteq> 0"
  shows "\<exists>r t. TryParseVersionRange (''^'' @ Version_String v) = Inr (Some r)
     \<and> TryParseVersionRange (''~'' @ Version_String v) = Inr (Some t)
     \<and> VersionRange_Test r (Some w) =
         Inr (compareVersions v w \<le> 0 \<and> major w = major v
            \<and> (major v > 0 \<or> minor w = minor v \<and> (minor v > 0 \<or> patch w = patch v)))
     \<and> VersionRange_Test t (Some w) = Inr (compareVersions v w \<le> 0 \<and> major w = major v \<and> minor w = minor v)"
proof -
  have ids: "identifiersOk (prerelease v)" "identifiersOk (build v)"
    using assms(1) identifiersOk_parts [OF prereleasePart_inClass] identifiersOk_parts [OF buildPart_inClass]
    unfolding wfVersion_def by blast+
  define res where "res = \<lparr>version = v, majorStr = showNat (unat (major v)), minorStr = showNat (unat (minor v)),
    patchStr = showNat (unat (patch v))\<rparr>"
  have pp: "parsePartial (Version_String v) = Some res" unfolding res_def by (rule parsePartial_Version_String [OF ids])
  have caret: "TryParseVersionRange (''^'' @ Version_String v) = Inr (Some \<lparr>alternatives = [parseCaret res]\<rparr>)"
    and tilde: "TryParseVersionRange (''~'' @ Version_String v) = Inr (Some \<lparr>alternatives = [parseTilde res]\<rparr>)"
    using parse_single [OF _ ids, of "''^''"] parse_single [OF _ ids, of "''~''"] pp
    by (simp_all add: parseComparator_def res_def)
  have "VersionRange_Test \<lparr>alternatives = [parseCaret res]\<rparr> (Some w) =
         Inr (compareVersions v w \<le> 0 \<and> major w = major v
            \<and> (major v > 0 \<or> minor w = minor v \<and> (minor v > 0 \<or> patch w = patch v)))"
    using below_increment [OF assms(2), of v] assms(3-5)
    unfolding Test_single [OF caret] by (auto simp: parseCaret_def res_def holds_ge_less word_gt_0)
  moreover have "VersionRange_Test \<lparr>alternatives = [parseTilde res]\<rparr> (Some w) =
      Inr (compareVersions v w \<le> 0 \<and> major w = major v \<and> minor w = minor v)"
    using below_increment [OF assms(2), of v] assms(3-5)
    unfolding Test_single [OF tilde] by (auto simp: parseTilde_def res_def holds_ge_less)
  ultimately show ?thesis using caret tilde by blast
qed

theorem caret_tilde_accept_witness:
  "\<exists>r. TryParseVersionRange (''^'' @ Version_String (emptyVersion\<lparr>minor := 3\<rparr>)) = Inr (Some r)
     \<and> VersionRange_Test r (Some (emptyVersion\<lparr>minor := 3, patch := 9\<rparr>)) = Inr True"
proof -
  let ?v = "emptyVersion\<lparr>minor := 3\<rparr>" and ?w = "emptyVersion\<lparr>minor := 3, patch := 9\<rparr>"
  have "wfVersion ?v" "prerelease ?w = []" "major ?v + 1 \<noteq> 0" "minor ?v + 1 \<noteq> 0" "patch ?v + 1 \<noteq> 0"
    "compareVersions ?v ?w \<le> 0 \<and> major ?w = major ?v \<and> (major ?v > 0 \<or> minor ?w = minor ?v \<and> (minor ?v > 0 \<or> patch ?w = patch ?v))"
    by code_simp+
  then show ?thesis using caret_tilde_accept [of ?v ?w] by auto
qed

text \<open>C37. At the end of the number range the increment wraps and the range is empty:
  \<open>^4294967295.0.0\<close> does not accept 4294967295.0.0, which it names, nor any other release.\<close>

theorem caret_wraps:
  "\<exists>r. TryParseVersionRange ''^4294967295.0.0'' = Inr (Some r)
     \<and> VersionRange_Test r (Some (emptyVersion\<lparr>major := 4294967295\<rparr>)) = Inr False
     \<and> (\<forall>w. prerelease w = [] \<longrightarrow> VersionRange_Test r (Some w) = Inr False)"
proof -
  let ?cs = "[\<lparr>operator = ''>='', operand = emptyVersion\<lparr>major := 4294967295\<rparr>\<rparr>, \<lparr>operator = ''<'', operand = emptyVersion\<rparr>]"
  have p: "TryParseVersionRange ''^4294967295.0.0'' = Inr (Some \<lparr>alternatives = [?cs]\<rparr>)" by code_simp
  have "VersionRange_Test \<lparr>alternatives = [?cs]\<rparr> (Some w) = Inr False" if "prerelease w = []" for w
    unfolding Test_single [OF p] using compareVersions_release [of w emptyVersion] that
      holds_ge_less(2) [of emptyVersion w]
    by (simp add: operator_defs emptyVersion_def)
  moreover have "prerelease (emptyVersion\<lparr>major := 4294967295\<rparr>) = []" by (simp add: emptyVersion_def)
  ultimately show ?thesis using p by blast
qed

theorem caret_wraps_witness:
  "\<exists>r. TryParseVersionRange ''^4294967295.0.0'' = Inr (Some r)
     \<and> VersionRange_Test r (Some (emptyVersion\<lparr>major := 7\<rparr>)) = Inr False"
proof -
  have "prerelease (emptyVersion\<lparr>major := 7\<rparr>) = []" by (simp add: emptyVersion_def)
  then show ?thesis using caret_wraps by blast
qed

end
