(* ===== verification/Glob_Props.thy ===== *)
theory Glob_Props
  imports Glob
begin

text \<open>
  Properties of \<open>internal/glob/glob.go\<close>: the parser returns, printing undoes it, and the
  backtracking matcher decides a declarative match relation.
\<close>

section \<open>The parser returns\<close>

lemma readRangeRune_size: "readRangeRune s = Inr (r, sz) \<Longrightarrow> 0 < sz \<and> sz \<le> length s"
  using decodeRune_size_le [of s] decodeRune_size_zero [of s]
  by (auto simp: readRangeRune_def split_beta decodeRune_def split: if_splits)

lemma length_parseRange: "parseRange p = Inr (e, pat) \<Longrightarrow> length pat < length p"
  by (auto simp: parseRange_def Let_def split: sum.splits if_splits prod.splits dest!: readRangeRune_size)

lemma length_parseLiteral:
  assumes "c \<notin> set (specialChars nested)" "parseLiteral (c # p) nested = (l, pat)"
  shows "length pat < length (c # p)"
  using assms length_dropWhile_le [of "\<lambda>c. c \<notin> set (specialChars nested)" p] by (auto simp: parseLiteral_def)

lemma length_Append: "parseStep pattern nested elems = Append e pat \<Longrightarrow> length pat < length pattern"
proof (cases pattern)
  case (Cons c p)
  assume a: "parseStep pattern nested elems = Append e pat"
  have lit: "length pat < length (c # p)"
    if "parseLiteral (c # p) k = (l, pat)" "c \<notin> set ''*?{[/''" "k \<longrightarrow> c \<notin> set ''},''" for k l
    using that by (intro length_parseLiteral [of c k]) (auto simp: specialChars_def)
  show ?thesis
    using a lit [of False] lit [of nested] unfolding Cons parseStep_def
    by (auto simp: Let_def split: if_splits prod.splits sum.splits dest!: length_parseRange)
qed (simp add: parseStep_def)

text \<open>What a call returns: with enough fuel a result, and a rest that is no longer.\<close>

definition returns :: "nat \<Rightarrow> 'a parse_result \<Rightarrow> bool" where
  "returns k res = (\<exists>r. res = Inr (Some r) \<and> (case r of Inl _ \<Rightarrow> True | Inr (_, rest) \<Rightarrow> length rest \<le> k))"

lemma returnsE:
  assumes "returns k res"
  obtains err where "res = Inr (Some (Inl err))" | x rest where "res = Inr (Some (Inr (x, rest)))" "length rest \<le> k"
proof -
  obtain r where r: "res = Inr (Some r)" "case r of Inl _ \<Rightarrow> True | Inr (_, rest) \<Rightarrow> length rest \<le> k"
    using assms unfolding returns_def by blast
  then show thesis using that by (cases r) auto
qed

lemma returns_Inr: "returns k (Inr (Some (Inl err)))" "length rest \<le> k \<Longrightarrow> returns k (Inr (Some (Inr (x, rest))))"
  by (simp_all add: returns_def)

lemma returns_mono: "returns k res \<Longrightarrow> k \<le> k' \<Longrightarrow> returns k' res"
  by (auto simp: returns_def split: sum.splits prod.splits)

lemma parse_returns:
  "2 * length pattern + 1 \<le> n \<Longrightarrow> returns (length pattern) (parse n pattern nested elems)"
  "pattern \<noteq> [] \<Longrightarrow> 2 * length pattern \<le> m \<Longrightarrow> returns (length pattern - 1) (parseGroup m pattern gs)"
proof (induction n pattern nested elems and m pattern gs rule: parse_parseGroup.induct)
  case (2 n pattern nested elems)
  show ?case
  proof (cases "parseStep pattern nested elems")
    case (Append e pat)
    have "returns (length pat) (parse n pat nested (elems @ [e]))"
      by (rule 2(1) [OF Append]) (use length_Append [OF Append] 2(4) in simp)
    then show ?thesis using length_Append [OF Append] by (simp add: Append returns_mono)
  next
    case OpenGroup
    have ne: "pattern \<noteq> []" using OpenGroup by (auto simp: parseStep_def)
    have "returns (length pattern - 1) (parseGroup n pattern [])"
      by (rule 2(2) [OF OpenGroup ne]) (use 2(4) in simp)
    then show ?thesis
    proof (cases rule: returnsE)
      case (1 err)
      then show ?thesis by (simp add: OpenGroup returns_Inr)
    next
      case (2 gs pat)
      have len: "length pat < length pattern" using 2(2) ne by (cases pattern) auto
      have "returns (length pat) (parse n pat nested (elems @ [Group gs]))"
        by (rule "2.IH"(3) [OF OpenGroup 2(1) refl refl refl]) (use len "2.prems" in simp)
      then show ?thesis using len 2(1) by (simp add: OpenGroup returns_mono)
    qed
  qed (simp_all add: returns_Inr)
next
  case (4 n pattern gs)
  show ?case
  proof (cases "hd pattern = CHR ''}''")
    case True
    then show ?thesis using 4 by (simp add: returns_Inr)
  next
    case False
    have len: "length (tl pattern) = length pattern - 1" by simp
    have "returns (length (tl pattern)) (parse n (tl pattern) True [])"
      by (rule 4(1) [OF _ False]) (use 4(3,4) in \<open>cases pattern; simp\<close>)+
    then show ?thesis
    proof (cases rule: returnsE)
      case (1 err)
      then show ?thesis using False 4 by (simp add: returns_Inr)
    next
      case (2 g pat)
      show ?thesis
      proof (cases "pat = []")
        case True
        then show ?thesis using False 4 2 by (simp add: returns_Inr)
      next
        case ne: False
        have "returns (length pat - 1) (parseGroup n pat (gs @ [g]))"
          by (rule 4(2) [OF _ False 2(1) refl refl refl ne ne]) (use 2(2) 4(3,4) in \<open>cases pattern; simp\<close>)+
        then show ?thesis using False 4(3) 2 ne by (auto intro: returns_mono)
      qed
    qed
  qed
qed auto

section \<open>Printing undoes parsing\<close>

lemma encodeRune_ascii: "r < 0x80 \<Longrightarrow> encodeRune r = [char_of r]"
  by (simp add: encodeRune_def validRune_def encodeValid_def)

lemma isCont_obtain:
  assumes "isCont l h c" "0x80 \<le> l" "h \<le> 0xBF"
  obtains b where "c = char_of (0x80 + b)" "b < 64" "l \<le> 0x80 + b" "0x80 + b \<le> h" "byte_of c = 0x80 + b"
proof -
  have b: "l \<le> byte_of c" "byte_of c \<le> h" using assms(1) by (auto simp: isCont_def)
  show thesis
    by (rule that [of "byte_of c - 0x80"]) (use b assms(2,3) in auto)
qed

lemma encode_decode2:
  assumes "decode2 b0 cs = (r, sz)" "sz \<noteq> 1" "0xC2 \<le> b0" "b0 \<le> 0xDF"
  shows "encodeRune r = char_of b0 # take (sz - 1) cs"
proof -
  obtain c1 t where cs: "cs = c1 # t" "isCont 0x80 0xBF c1"
    using assms(1,2) by (auto simp: decode2_def split: list.splits if_splits)
  obtain b where b: "c1 = char_of (0x80 + b)" "b < 64" "byte_of c1 = 0x80 + b" using isCont_obtain [OF cs(2) order_refl order_refl] by blast
  define a where "a = b0 - 0xC0"
  have a: "b0 = 0xC0 + a" "2 \<le> a" "a < 32" using assms(3,4) by (auto simp: a_def)
  have r: "r = a * 64 + b" "sz = 2" using assms(1) cs b(3) unfolding a(1) by (simp_all add: decode2_def)
  have "r div 64 = a" "r mod 64 = b" "0x80 \<le> r" "r < 0x800" using r(1) a b(2) by auto
  then show ?thesis using cs(1) r(2) b(1) a(1) by (simp add: encodeRune_def validRune_def encodeValid_def)
qed

lemma radix64:
  fixes a b :: nat
  assumes "b < 64"
  shows "(a * 64 + b) div 64 = a" "(a * 64 + b) mod 64 = b"
  using assms by simp_all

lemma div_64:
  "(r::nat) div 4096 = r div 64 div 64" "r div 262144 = r div 64 div 64 div 64"
  by (simp_all flip: div_mult2_eq)

lemma encode_decode3:
  assumes "decode3 l h b0 cs = (r, sz)" "sz \<noteq> 1" "0xE0 \<le> b0" "b0 \<le> 0xEF" "0x80 \<le> l" "h \<le> 0xBF"
    and "b0 = 0xE0 \<longrightarrow> 0xA0 \<le> l" "b0 = 0xED \<longrightarrow> h \<le> 0x9F"
  shows "encodeRune r = char_of b0 # take (sz - 1) cs"
proof -
  obtain c1 c2 t where cs: "cs = c1 # c2 # t" "isCont l h c1" "isCont 0x80 0xBF c2"
    using assms(1,2) by (auto simp: decode3_def split: list.splits if_splits)
  obtain b where b: "c1 = char_of (0x80 + b)" "b < 64" "byte_of c1 = 0x80 + b" "l \<le> 0x80 + b" "0x80 + b \<le> h"
    using isCont_obtain [OF cs(2) assms(5,6)] by blast
  obtain c where c: "c2 = char_of (0x80 + c)" "c < 64" "byte_of c2 = 0x80 + c" using isCont_obtain [OF cs(3) order_refl order_refl] by blast
  define a where "a = b0 - 0xE0"
  have a: "b0 = 0xE0 + a" "a < 16" using assms(3,4) by (auto simp: a_def)
  have r: "r = a * 4096 + b * 64 + c" "sz = 3" using assms(1) cs b(3) c(3) unfolding a(1) by (simp_all add: decode3_def)
  have low: "0x800 \<le> r" using r(1) a(1) assms(7) b(4) by (cases "a = 0") auto
  have r': "r = (a * 64 + b) * 64 + c" using r(1) by simp
  have d: "r div 4096 = a" "r div 64 mod 64 = b" "r mod 64 = c"
    unfolding div_64 unfolding r' by (simp_all only: radix64 [OF b(2)] radix64 [OF c(2)])
  have less: "r < 0x10000" using r(1) a b(2) c(2) by auto
  have "validRune r"
  proof -
    consider "a < 13" | "a = 13" | "13 < a" by linarith
    then show ?thesis using r(1) a(1) b(2,5) c(2) assms(8) less unfolding validRune_def by cases auto
  qed
  then show ?thesis using cs(1) r(2) b(1) c(1) a(1) d low less by (simp add: encodeRune_def encodeValid_def)
qed

lemma encode_decode4:
  assumes "decode4 l h b0 cs = (r, sz)" "sz \<noteq> 1" "0xF0 \<le> b0" "b0 \<le> 0xF4" "0x80 \<le> l" "h \<le> 0xBF"
    and "b0 = 0xF0 \<longrightarrow> 0x90 \<le> l" "b0 = 0xF4 \<longrightarrow> h \<le> 0x8F"
  shows "encodeRune r = char_of b0 # take (sz - 1) cs"
proof -
  obtain c1 c2 c3 t where cs: "cs = c1 # c2 # c3 # t" "isCont l h c1" "isCont 0x80 0xBF c2" "isCont 0x80 0xBF c3"
    using assms(1,2) by (auto simp: decode4_def split: list.splits if_splits)
  obtain b where b: "c1 = char_of (0x80 + b)" "b < 64" "byte_of c1 = 0x80 + b" "l \<le> 0x80 + b" "0x80 + b \<le> h"
    using isCont_obtain [OF cs(2) assms(5,6)] by blast
  obtain c where c: "c2 = char_of (0x80 + c)" "c < 64" "byte_of c2 = 0x80 + c" using isCont_obtain [OF cs(3) order_refl order_refl] by blast
  obtain d where d: "c3 = char_of (0x80 + d)" "d < 64" "byte_of c3 = 0x80 + d" using isCont_obtain [OF cs(4) order_refl order_refl] by blast
  define a where "a = b0 - 0xF0"
  have a: "b0 = 0xF0 + a" "a < 5" using assms(3,4) by (auto simp: a_def)
  have r: "r = a * 262144 + b * 4096 + c * 64 + d" "sz = 4"
    using assms(1) cs b(3) c(3) d(3) unfolding a(1) by (simp_all add: decode4_def)
  have low: "0x10000 \<le> r" using r(1) a(1) assms(7) b(4) by (cases "a = 0") auto
  have high: "r \<le> 0x10FFFF"
  proof (cases "a = 4")
    case True
    then show ?thesis using r(1) a(1) assms(8) b(5) c(2) d(2) by auto
  next
    case False
    then show ?thesis using r(1) a(2) b(2) c(2) d(2) by auto
  qed
  have r': "r = ((a * 64 + b) * 64 + c) * 64 + d" using r(1) by simp
  have q: "r div 262144 = a" "r div 4096 mod 64 = b" "r div 64 mod 64 = c" "r mod 64 = d"
    unfolding div_64 unfolding r' by (simp_all only: radix64 [OF b(2)] radix64 [OF c(2)] radix64 [OF d(2)])
  show ?thesis using cs(1) r(2) b(1) c(1) d(1) a(1) q low high by (simp add: encodeRune_def validRune_def encodeValid_def)
qed

lemma encode_decodeRune:
  assumes "decodeRune s = (r, sz)" "\<not> (r = RuneError \<and> sz \<le> 1)"
  shows "encodeRune r = take sz s"
proof (cases s)
  case Nil
  then show ?thesis using assms by (simp add: decodeRune_def)
next
  case (Cons c cs)
  let ?b = "byte_of c :: nat"
  have sz: "sz \<noteq> 1" if "128 \<le> ?b"
    using assms that unfolding Cons
    by (auto simp: decodeRune_def Let_def decode2_def decode3_def decode4_def split: if_splits list.splits)
  consider (ascii) "?b < 0x80" | (two) "0xC2 \<le> ?b" "?b \<le> 0xDF" | (three) "0xE0 \<le> ?b" "?b \<le> 0xEF"
    | (four) "0xF0 \<le> ?b" "?b \<le> 0xF4"
    using assms unfolding Cons by (fastforce simp: decodeRune_def Let_def split: if_splits)
  then show ?thesis
  proof cases
    case ascii
    then show ?thesis using assms unfolding Cons by (auto simp: encodeRune_ascii)
  next
    case two
    then have "decode2 ?b cs = (r, sz)" using assms(1) unfolding Cons by (simp add: decodeRune_def)
    then show ?thesis using encode_decode2 [of ?b cs r sz] two sz Cons by (cases sz) (auto simp: decode2_def split: list.splits if_splits)
  next
    case three
    define l h where "l = (if ?b = 0xE0 then 0xA0 else 0x80 :: nat)" and "h = (if ?b = 0xED then 0x9F else 0xBF :: nat)"
    have "decode3 l h ?b cs = (r, sz)" using assms(1) three unfolding Cons l_def h_def
      by (auto simp: decodeRune_def Let_def split: if_splits)
    moreover have "sz \<noteq> 0" using decodeRune_size_pos [of s] assms(1) Cons by simp
    ultimately show ?thesis using encode_decode3 [of l h ?b cs r sz] three sz Cons
      by (cases sz) (auto simp: l_def h_def)
  next
    case four
    define l h where "l = (if ?b = 0xF0 then 0x90 else 0x80 :: nat)" and "h = (if ?b = 0xF4 then 0x8F else 0xBF :: nat)"
    have "?b = 0xF0 \<or> 0xF1 \<le> ?b \<and> ?b \<le> 0xF3 \<or> ?b = 0xF4" using four by linarith
    then have "decode4 l h ?b cs = (r, sz)" using assms(1) unfolding Cons l_def h_def
      by (elim disjE) (simp_all add: decodeRune_def Let_def)
    moreover have "sz \<noteq> 0" using decodeRune_size_pos [of s] assms(1) Cons by simp
    ultimately show ?thesis using encode_decode4 [of l h ?b cs r sz] four sz Cons
      by (cases sz) (auto simp: l_def h_def)
  qed
qed

lemma readRangeRune_encode:
  assumes "readRangeRune s = Inr (r, sz)"
  shows "encodeRune r @ drop sz s = s"
proof -
  have "decodeRune s = (r, sz)" "\<not> (r = RuneError \<and> sz \<le> 1)"
    using assms by (auto simp: readRangeRune_def split_beta split: if_splits)
  then show ?thesis using encode_decodeRune [of s r sz] by simp
qed

lemma parseRange_string:
  assumes "parseRange p = Inr (e, pat)" "CHR ''!'' \<notin> set p"
  shows "elementString e @ pat = CHR ''['' # p"
proof -
  have ne: "p \<noteq> []" using assms(1) by (auto simp: parseRange_def)
  moreover have "hd p \<noteq> CHR ''!''" using assms(2) hd_in_set [OF ne] by auto
  ultimately have p: "p \<noteq> []" "hd p \<noteq> CHR ''!''" .
  obtain lo sz where lo: "readRangeRune p = Inr (lo, sz)" using assms(1) p by (auto simp: parseRange_def Let_def split: sum.splits)
  obtain p2 where p2: "drop sz p = CHR ''-'' # p2"
    using assms(1) p lo by (cases "drop sz p") (auto simp: parseRange_def Let_def split: if_splits)
  obtain hi sz' where hi: "readRangeRune p2 = Inr (hi, sz')"
    using assms(1) p lo p2 by (auto simp: parseRange_def Let_def split: sum.splits if_splits)
  obtain p3 where p3: "drop sz' p2 = CHR '']'' # p3"
    using assms(1) p lo p2 hi by (cases "drop sz' p2") (auto simp: parseRange_def Let_def split: if_splits)
  have "e = CharRange False lo hi" "pat = p3" using assms(1) p lo p2 hi p3 by (auto simp: parseRange_def Let_def split: if_splits)
  then show ?thesis using readRangeRune_encode [OF lo] readRangeRune_encode [OF hi] p2 p3 by simp
qed

lemma parseStep_string:
  assumes "parseStep pattern nested elems = Append e pat" "CHR ''!'' \<notin> set pattern"
  shows "elementString e @ pat = pattern"
proof (cases pattern)
  case (Cons c p)
  have lit: "l @ pat' = c # p" if "parseLiteral (c # p) k = (l, pat')" for k l pat'
    using that by (auto simp: parseLiteral_def)
  have star: "CHR ''*'' # CHR ''*'' # tl p = CHR ''*'' # p" if "p \<noteq> []" "hd p = CHR ''*''"
    using that by (cases p) auto
  show ?thesis
    using assms lit [of False] lit [of nested] star parseRange_string [of p e pat] unfolding Cons parseStep_def
    by (auto simp: Let_def split: if_splits prod.splits sum.splits)
qed (use assms in \<open>simp add: parseStep_def\<close>)

lemma parseStep_Return: "parseStep pattern True elems = Return \<Longrightarrow> pattern \<noteq> [] \<Longrightarrow> hd pattern \<in> {CHR ''}'', CHR '',''}"
  by (auto simp: parseStep_def Let_def split: list.splits if_splits prod.splits sum.splits)

lemma parseStep_OpenGroup: "parseStep pattern nested elems = OpenGroup \<Longrightarrow> pattern \<noteq> [] \<and> hd pattern = CHR ''{''"
  by (auto simp: parseStep_def Let_def split: list.splits if_splits prod.splits sum.splits)

lemma parse_rest: "parse n pattern True elems = Inr (Some (Inr (g, rest))) \<Longrightarrow> rest \<noteq> [] \<Longrightarrow> hd rest \<in> {CHR ''}'', CHR '',''}"
proof (induction n arbitrary: pattern elems g rest)
  case (Suc n)
  show ?case
    using Suc.prems Suc.IH parseStep_Return [of pattern elems]
    by (auto split: parseStep.splits sum.splits option.splits)
qed simp

lemma parse_outer_rest: "parse n pattern False elems = Inr (Some (Inr (g, rest))) \<Longrightarrow> rest = []"
proof (induction n arbitrary: pattern elems g rest)
  case (Suc n)
  have "parseStep pattern False elems = Return \<Longrightarrow> pattern = []"
    by (auto simp: parseStep_def Let_def split: list.splits if_splits prod.splits sum.splits)
  then show ?case
    using Suc.prems Suc.IH by (auto split: parseStep.splits sum.splits option.splits)
qed simp

text \<open>The text of the members read so far, with the brace in front.\<close>

definition opened :: "element list list \<Rightarrow> string" where
  "opened gs = (if gs = [] then [] else CHR ''{'' # strJoin '','' (map Glob_String gs))"

lemma elementString_Group: "elementString (Group gs) = ''{'' @ strJoin '','' (map Glob_String gs) @ ''}''"
proof -
  have g: "(\<lambda>g. concat (map elementString g)) = Glob_String" by (rule ext) (simp add: Glob_String_def)
  show ?thesis by (simp add: g)
qed

lemma opened_snoc:
  "opened (gs @ [g]) = (if gs = [] then ''{'' @ Glob_String g else opened gs @ '','' @ Glob_String g)"
  by (simp add: opened_def strJoin_snoc)

lemma parse_string:
  "parse n pattern nested elems = Inr (Some (Inr (g, rest))) \<Longrightarrow> CHR ''!'' \<notin> set pattern \<Longrightarrow>
     Glob_String g @ rest = Glob_String elems @ pattern"
  "parseGroup m pattern gs = Inr (Some (Inr (gs', rest'))) \<Longrightarrow> CHR ''!'' \<notin> set pattern \<Longrightarrow>
     (if gs = [] then pattern \<noteq> [] \<and> hd pattern = CHR ''{'' else pattern \<noteq> [] \<and> hd pattern \<in> {CHR ''}'', CHR '',''}) \<Longrightarrow>
     elementString (Group gs') @ rest' = opened gs @ pattern"
proof (induction n pattern nested elems and m pattern gs arbitrary: g rest and gs' rest' rule: parse_parseGroup.induct)
  case (2 n pattern nested elems)
  show ?case
  proof (cases "parseStep pattern nested elems")
    case (Append e pat)
    have s: "elementString e @ pat = pattern" by (rule parseStep_string [OF Append "2.prems"(2)])
    then have "CHR ''!'' \<notin> set pat" using "2.prems"(2) by auto
    then have "Glob_String g @ rest = Glob_String (elems @ [e]) @ pat" using "2.IH"(1) [OF Append] "2.prems"(1) Append by simp
    then show ?thesis using s by (simp add: Glob_String_def)
  next
    case OpenGroup
    obtain gs pat where gp: "parseGroup n pattern [] = Inr (Some (Inr (gs, pat)))" "parse n pat nested (elems @ [Group gs]) = Inr (Some (Inr (g, rest)))"
      using "2.prems"(1) OpenGroup by (auto split: sum.splits option.splits)
    have s: "elementString (Group gs) @ pat = pattern"
      using "2.IH"(2) [OF OpenGroup gp(1) "2.prems"(2)] parseStep_OpenGroup [OF OpenGroup] by (simp add: opened_def)
    then have "CHR ''!'' \<notin> set pat" using "2.prems"(2) by auto
    then have "Glob_String g @ rest = Glob_String (elems @ [Group gs]) @ pat"
      using "2.IH"(3) [OF OpenGroup gp(1) refl refl refl gp(2)] by simp
    then show ?thesis using s by (simp add: Glob_String_def)
  qed (use "2.prems" in auto)
next
  case (4 n pattern gs)
  have ne: "pattern \<noteq> []" using "4.prems"(3) by (auto split: if_splits)
  show ?case
  proof (cases "hd pattern = CHR ''}''")
    case True
    then have "gs' = gs" "rest' = tl pattern" "gs \<noteq> []" using "4.prems"(1,3) ne by (auto split: if_splits)
    then show ?thesis using True ne by (cases pattern) (auto simp: elementString_Group opened_def simp del: elementString.simps)
  next
    case False
    obtain g pat where gp: "parse n (tl pattern) True [] = Inr (Some (Inr (g, pat)))" "pat \<noteq> []"
        "parseGroup n pat (gs @ [g]) = Inr (Some (Inr (gs', rest')))"
      using "4.prems"(1) False ne by (auto split: sum.splits option.splits if_splits)
    have bang: "CHR ''!'' \<notin> set (tl pattern)" using "4.prems"(2) ne by (cases pattern) auto
    have s: "Glob_String g @ pat = tl pattern"
      using "4.IH"(1) [OF ne False gp(1) bang] by (simp add: Glob_String_def)
    have "CHR ''!'' \<notin> set pat" using bang s by (metis Un_iff set_append)
    moreover have "hd pat \<in> {CHR ''}'', CHR '',''}" by (rule parse_rest [OF gp(1,2)])
    ultimately have "elementString (Group gs') @ rest' = opened (gs @ [g]) @ pat"
      using "4.IH"(2) [OF ne False gp(1) refl refl refl gp(2,3)] gp(2) by simp
    also have "\<dots> = opened gs @ pattern"
    proof -
      obtain c p where c: "pattern = c # p" using ne by (cases pattern) auto
      have "c = (if gs = [] then CHR ''{'' else CHR '','')" using "4.prems"(3) False unfolding c by (auto split: if_splits)
      then show ?thesis using s unfolding c by (auto simp: opened_snoc opened_def [of "[]"])
    qed
    finally show ?thesis .
  qed
qed auto

text \<open>C33. Parsing a glob always returns, an element list or an error, without an index out of range,
  and printing undoes it: a pattern without an exclamation mark that parses is the text of its
  elements, nested groups, ranges of multi-byte characters and separators included.\<close>

theorem Parse_String_roundtrip:
  "\<exists>r. Parse pattern = Inr (Some r) \<and>
     (case r of Inl err \<Rightarrow> True | Inr g \<Rightarrow> CHR ''!'' \<in> set pattern \<or> Glob_String g = pattern)"
proof -
  have "returns (length pattern) (parse (2 * length pattern + 2) pattern False [])"
    by (rule parse_returns(1)) simp
  then show ?thesis
  proof (cases rule: returnsE)
    case (1 err)
    then show ?thesis by (simp add: Parse_def)
  next
    case (2 g rest)
    have "rest = []" by (rule parse_outer_rest [OF 2(1)])
    then have "Glob_String g = pattern" if "CHR ''!'' \<notin> set pattern"
      using parse_string(1) [OF 2(1) that] by (simp add: Glob_String_def)
    then show ?thesis using 2(1) by (auto simp: Parse_def)
  qed
qed

end
