(* ===== verification/Glob_Match.thy ===== *)
theory Glob_Match
  imports Glob_Props
begin

text \<open>
  The backtracking matcher of \<open>internal/glob/glob.go\<close> decides a declarative relation between
  patterns and paths, on every path that does not end in a slash; and the consequences of its
  treatment of slashes and negated ranges.
\<close>

section \<open>The relation\<close>

definition segmentSplit :: "string \<Rightarrow> string \<Rightarrow> string \<Rightarrow> bool" where
  \<comment> \<open>the first segment of a path and what follows its separators\<close>
  "segmentSplit s seg rest =
     (slash_char \<notin> set seg \<and> (\<exists>k. s = seg @ replicate k slash_char @ rest \<and> (rest = [] \<or> 0 < k \<and> hd rest \<noteq> slash_char)))"

definition segmentStart :: "string \<Rightarrow> string \<Rightarrow> bool" where
  \<comment> \<open>\<open>i\<close> is the whole path or starts a later segment of it\<close>
  "segmentStart s i = (i \<noteq> [] \<and> (i = s \<or> hd i \<noteq> slash_char \<and> (\<exists>p. s = p @ slash_char # i)))"

inductive matches :: "element list \<Rightarrow> string \<Rightarrow> bool" where
  Empty: "matches [] []"
| SlashM: "0 < k \<Longrightarrow> s \<noteq> [] \<Longrightarrow> hd s \<noteq> slash_char \<Longrightarrow> matches es s \<Longrightarrow> matches (Slash # es) (replicate k slash_char @ s)"
| LiteralM: "matches es s \<Longrightarrow> matches (Literal l # es) (l @ s)"
| AnyCharM: "c \<noteq> slash_char \<Longrightarrow> matches es s \<Longrightarrow> matches (AnyChar # es) (c # s)"
| CharRangeM: "s \<noteq> [] \<Longrightarrow> hd s \<noteq> slash_char \<Longrightarrow> lo \<le> fst (decodeRune s) \<Longrightarrow> fst (decodeRune s) \<le> hi \<Longrightarrow>
    matches es (drop (snd (decodeRune s)) s) \<Longrightarrow> matches (CharRange neg lo hi # es) s"
| GroupM: "g \<in> set gs \<Longrightarrow> matches (g @ es) s \<Longrightarrow> matches (Group gs # es) s"
| StarStarEnd: "tl es = [] \<Longrightarrow> matches (StarStar # es) s"
| StarStarM: "tl es \<noteq> [] \<Longrightarrow> segmentStart s i \<Longrightarrow> matches (tl es) i \<Longrightarrow> matches (StarStar # es) s"
| StarEnd: "segmentSplit s seg rest \<Longrightarrow> es = [] \<or> hd es = Slash \<Longrightarrow> matches es rest \<Longrightarrow> matches (Star # es) s"
| StarM: "segmentSplit s seg rest \<Longrightarrow> ses \<noteq> [] \<Longrightarrow> Slash \<notin> set ses \<Longrightarrow> es = [] \<or> hd es = Slash \<Longrightarrow>
    i < length seg \<Longrightarrow> matches ses (drop i seg) \<Longrightarrow> matches es rest \<Longrightarrow> matches (Star # ses @ es) s"

inductive_simps matches_Nil: "matches [] s"
inductive_simps matches_Slash: "matches (Slash # es) s"
inductive_simps matches_Literal: "matches (Literal l # es) s"
inductive_simps matches_AnyChar: "matches (AnyChar # es) s"
inductive_simps matches_CharRange: "matches (CharRange neg lo hi # es) s"
inductive_simps matches_Group: "matches (Group gs # es) s"
inductive_simps matches_StarStar: "matches (StarStar # es) s"

section \<open>Splitting\<close>

lemma takeWhile_slashes: "takeWhile (\<lambda>c. c = slash_char) s = replicate (length (takeWhile (\<lambda>c. c = slash_char) s)) slash_char"
  by (induction s) auto

lemma dropWhile_replicate:
  "s = [] \<or> hd s \<noteq> slash_char \<Longrightarrow> dropWhile (\<lambda>c. c = slash_char) (replicate k slash_char @ s) = s"
  by (induction k) (cases s; simp)+

lemma split_segmentSplit: "split s = (seg, rest) \<longleftrightarrow> segmentSplit s seg rest"
proof
  assume a: "split s = (seg, rest)"
  let ?d = "dropWhile (\<lambda>c. c \<noteq> slash_char) s"
  let ?k = "length (takeWhile (\<lambda>c. c = slash_char) ?d)"
  have seg: "seg = takeWhile (\<lambda>c. c \<noteq> slash_char) s" and rest: "rest = dropWhile (\<lambda>c. c = slash_char) ?d"
    using a by (auto simp: split_def)
  have s: "s = seg @ replicate ?k slash_char @ rest"
    unfolding seg rest takeWhile_slashes [symmetric] by simp
  have "rest = [] \<or> 0 < ?k \<and> hd rest \<noteq> slash_char"
  proof (cases "rest = []")
    case False
    then have ne: "?d \<noteq> []" unfolding rest by (metis dropWhile.simps(1))
    then have "hd ?d = slash_char" using hd_dropWhile [OF ne] by simp
    then have "0 < ?k" using ne by (cases ?d) auto
    moreover have "hd rest \<noteq> slash_char" using hd_dropWhile [of "\<lambda>c. c = slash_char" ?d] False unfolding rest by simp
    ultimately show ?thesis by simp
  qed simp
  moreover have "slash_char \<notin> set seg" unfolding seg by (auto dest: set_takeWhileD)
  ultimately show "segmentSplit s seg rest" unfolding segmentSplit_def using s by blast
next
  assume "segmentSplit s seg rest"
  then obtain k where k: "slash_char \<notin> set seg" "s = seg @ replicate k slash_char @ rest" "rest = [] \<or> 0 < k \<and> hd rest \<noteq> slash_char"
    by (auto simp: segmentSplit_def)
  have r: "takeWhile (\<lambda>c. c \<noteq> slash_char) (replicate k slash_char @ rest) = []"
    "dropWhile (\<lambda>c. c \<noteq> slash_char) (replicate k slash_char @ rest) = replicate k slash_char @ rest"
    using k(3) by (cases k; auto)+
  have "takeWhile (\<lambda>c. c \<noteq> slash_char) s = seg" "dropWhile (\<lambda>c. c \<noteq> slash_char) s = replicate k slash_char @ rest"
    using takeWhile_append2 [of seg "\<lambda>c. c \<noteq> slash_char"] dropWhile_append2 [of seg "\<lambda>c. c \<noteq> slash_char"] k(1) r
    unfolding k(2) by (metis append_Nil2)+
  then show "split s = (seg, rest)" using dropWhile_replicate [of rest k] k(3) by (auto simp: split_def)
qed

lemma segmentStart_split:
  assumes "segmentSplit s seg rest" "i \<noteq> []" "i \<noteq> s"
  shows "segmentStart s i \<longleftrightarrow> segmentStart rest i"
proof -
  obtain k where k: "slash_char \<notin> set seg" "s = seg @ replicate k slash_char @ rest" "rest = [] \<or> 0 < k \<and> hd rest \<noteq> slash_char"
    using assms(1) by (auto simp: segmentSplit_def)
  show ?thesis
  proof
    assume "segmentStart s i"
    then obtain p where p: "s = p @ slash_char # i" "hd i \<noteq> slash_char" using assms(3) by (auto simp: segmentStart_def)
    have "length seg \<le> length p"
    proof (rule ccontr)
      assume "\<not> length seg \<le> length p"
      then have "s ! length p = seg ! length p" "seg ! length p \<in> set seg" using k(2) by (simp_all add: nth_append)
      moreover have "s ! length p = slash_char" using p(1) by simp
      ultimately show False using k(1) by simp
    qed
    then have "drop (length seg) s = drop (length seg) p @ slash_char # i" unfolding p(1) by simp
    moreover have "drop (length seg) s = replicate k slash_char @ rest" unfolding k(2) by simp
    ultimately obtain q where q: "replicate k slash_char @ rest = q @ slash_char # i" by metis
    show "segmentStart rest i"
    proof (cases "length q < k")
      case True
      define j where "j = k - Suc (length q)"
      have k': "k = Suc (length q) + j" using True by (simp add: j_def)
      have "drop (Suc (length q)) (replicate k slash_char @ rest) = i" unfolding q by simp
      then have "replicate j slash_char @ rest = i" unfolding k' by simp
      then have "rest = i" using p(2) by (cases j) auto
      then show ?thesis using assms(2) by (simp add: segmentStart_def)
    next
      case False
      have "drop k (replicate k slash_char @ rest) = drop k q @ slash_char # i" using False unfolding q by simp
      then show ?thesis using p(2) assms(2) by (auto simp: segmentStart_def)
    qed
  next
    assume r: "segmentStart rest i"
    then have ne: "rest \<noteq> []" using assms(2) by (auto simp: segmentStart_def)
    then obtain j where j: "k = Suc j" "hd rest \<noteq> slash_char" using k(3) by (cases k) auto
    have s: "s = (seg @ replicate j slash_char) @ slash_char # rest" unfolding k(2) j(1) by (simp add: replicate_append_same [symmetric])
    show "segmentStart s i"
    proof (cases "i = rest")
      case True
      then show ?thesis using assms(2) j(2) s unfolding segmentStart_def by blast
    next
      case False
      then obtain p where "rest = p @ slash_char # i" "hd i \<noteq> slash_char" using r by (auto simp: segmentStart_def)
      then have "s = (seg @ replicate j slash_char @ slash_char # p) @ slash_char # i" using s by simp
      then show ?thesis using \<open>hd i \<noteq> slash_char\<close> assms(2) unfolding segmentStart_def by blast
    qed
  qed
qed

lemma starStarInputs_segmentStart: "i \<in> set (starStarInputs s) \<longleftrightarrow> segmentStart s i"
proof (induction s rule: starStarInputs.induct)
  case (1 s)
  show ?case
  proof (cases "s = []")
    case True
    then show ?thesis by (simp add: starStarInputs.simps segmentStart_def)
  next
    case False
    have sp: "segmentSplit s (fst (split s)) (snd (split s))" using split_segmentSplit [of s "fst (split s)" "snd (split s)"] by simp
    have "i \<in> set (starStarInputs s) \<longleftrightarrow> i = s \<or> segmentStart (snd (split s)) i"
      using 1 [OF False] False by (subst starStarInputs.simps) simp
    moreover have "segmentStart x i \<Longrightarrow> i \<noteq> []" for x by (simp add: segmentStart_def)
    moreover have "segmentStart s s" using False by (simp add: segmentStart_def)
    ultimately show ?thesis using segmentStart_split [OF sp, of i] by blast
  qed
qed

section \<open>The matcher decides the relation\<close>

definition endsOk :: "string \<Rightarrow> bool" where
  "endsOk s = (s = [] \<or> last s \<noteq> slash_char)"

lemma endsOk_drop: "endsOk s \<Longrightarrow> endsOk (drop n s)"
  by (auto simp: endsOk_def last_drop)

lemma endsOk_suffix: "endsOk (p @ s) \<Longrightarrow> endsOk s"
  by (auto simp: endsOk_def split: if_splits)

lemma endsOk_segment:
  assumes "segmentSplit s seg rest" "endsOk s"
  shows "endsOk rest" "endsOk (drop i seg)"
proof -
  obtain k where k: "slash_char \<notin> set seg" "s = (seg @ replicate k slash_char) @ rest"
    using assms(1) by (auto simp: segmentSplit_def)
  then show "endsOk rest" using assms(2) endsOk_suffix by blast
  have "endsOk seg" using k(1) last_in_set [of seg] unfolding endsOk_def by metis
  then show "endsOk (drop i seg)" by (rule endsOk_drop)
qed

lemma endsOk_segmentStart: "segmentStart s i \<Longrightarrow> endsOk s \<Longrightarrow> endsOk i"
  by (auto simp: segmentStart_def endsOk_def)

lemma anyPanic_Inr: "(\<And>x. x \<in> set xs \<Longrightarrow> f x = Inr (P x)) \<Longrightarrow> anyPanic f xs = Inr (\<exists>x\<in>set xs. P x)"
  by (induction xs) auto

lemma takeWhile_dropWhile_Slash:
  assumes "Slash \<notin> set ses" "es = [] \<or> hd es = Slash"
  shows "takeWhile (\<lambda>e. e \<noteq> Slash) (ses @ es) = ses" "dropWhile (\<lambda>e. e \<noteq> Slash) (ses @ es) = es"
  using assms by (induction ses) (cases es; auto)+

lemma matches_Star:
  assumes "segmentSplit s seg rest"
  shows "matches (Star # elems) s \<longleftrightarrow>
    (let ses = takeWhile (\<lambda>e. e \<noteq> Slash) elems; es = dropWhile (\<lambda>e. e \<noteq> Slash) elems in
     (ses = [] \<or> (\<exists>i<length seg. matches ses (drop i seg))) \<and> matches es rest)"
proof -
  let ?ses = "takeWhile (\<lambda>e. e \<noteq> Slash) elems" and ?es = "dropWhile (\<lambda>e. e \<noteq> Slash) elems"
  have uniq: "seg' = seg \<and> rest' = rest" if "segmentSplit s seg' rest'" for seg' rest'
    using assms that split_segmentSplit by (metis Pair_inject)
  have es: "?es = [] \<or> hd ?es = Slash" using hd_dropWhile [of "\<lambda>e. e \<noteq> Slash" elems] by blast
  have ses: "Slash \<notin> set ?ses" by (auto dest: set_takeWhileD)
  have split: "elems = ?ses @ ?es" by simp
  show ?thesis
  proof
    assume "matches (Star # elems) s"
    then show "let ses = ?ses; es = ?es in (ses = [] \<or> (\<exists>i<length seg. matches ses (drop i seg))) \<and> matches es rest"
    proof (cases rule: matches.cases)
      case (StarEnd seg' rest')
      then show ?thesis using uniq [of seg' rest'] takeWhile_dropWhile_Slash [of "[]" elems] by auto
    next
      case (StarM seg' rest' ses' es' i)
      then show ?thesis using uniq [of seg' rest'] takeWhile_dropWhile_Slash [of ses' es'] by auto
    qed
  next
    assume "let ses = ?ses; es = ?es in (ses = [] \<or> (\<exists>i<length seg. matches ses (drop i seg))) \<and> matches es rest"
    then have r: "?ses = [] \<or> (\<exists>i<length seg. matches ?ses (drop i seg))" "matches ?es rest" by (auto simp: Let_def)
    show "matches (Star # elems) s"
    proof (cases "?ses = []")
      case True
      then have e: "?es = elems" using split by simp
      show ?thesis using StarEnd [OF assms, of elems] es r(2) unfolding e by blast
    next
      case False
      then obtain i where "i < length seg" "matches ?ses (drop i seg)" using r(1) by blast
      then have "matches (Star # ?ses @ ?es) s" using StarM [OF assms False ses es] r(2) by blast
      then show ?thesis using split by simp
    qed
  qed
qed

lemma matches_Slash_dropWhile:
  assumes "s \<noteq> []" "hd s = slash_char" "dropWhile (\<lambda>c. c = slash_char) s \<noteq> []"
  shows "matches (Slash # es) s \<longleftrightarrow> matches es (dropWhile (\<lambda>c. c = slash_char) s)"
proof -
  let ?r = "dropWhile (\<lambda>c. c = slash_char) s" and ?k = "length (takeWhile (\<lambda>c. c = slash_char) s)"
  have hd: "hd ?r \<noteq> slash_char" using hd_dropWhile [OF assms(3)] by simp
  have k: "0 < ?k" using assms(1,2) by (cases s) auto
  have s: "s = replicate ?k slash_char @ ?r" unfolding takeWhile_slashes [symmetric] by simp
  show ?thesis
  proof
    assume "matches (Slash # es) s"
    then obtain k' t where "s = replicate k' slash_char @ t" "t \<noteq> []" "hd t \<noteq> slash_char" "matches es t"
      unfolding matches_Slash by blast
    then show "matches es ?r" using dropWhile_replicate [of t k'] by simp
  next
    assume "matches es ?r"
    then have "matches (Slash # es) (replicate ?k slash_char @ ?r)" by (rule SlashM [OF k assms(3) hd])
    then show "matches (Slash # es) s" using s by argo
  qed
qed

lemma endsOk_slashes: "endsOk s \<Longrightarrow> s \<noteq> [] \<Longrightarrow> dropWhile (\<lambda>c. c = slash_char) s \<noteq> []"
  using last_in_set [of s] unfolding endsOk_def dropWhile_eq_Nil_conv by blast

lemma endsOk_dropWhile: "endsOk s \<Longrightarrow> endsOk (dropWhile P s)"
  using endsOk_suffix [of "takeWhile P s" "dropWhile P s"] by simp

lemma match_decides: "endsOk input \<Longrightarrow> match elems input = Inr (matches elems input)"
proof (induction elems input rule: match.induct)
  case (1 input)
  then show ?case by (simp add: matches_Nil)
next
  case (2 e elems input)
  show ?case
  proof (cases e)
    case Slash
    show ?thesis
    proof (cases "input = [] \<or> hd input \<noteq> slash_char")
      case True
      have "\<not> matches (Slash # elems) input"
      proof
        assume "matches (Slash # elems) input"
        then obtain k t where "0 < k" "input = replicate k slash_char @ t" unfolding matches_Slash by blast
        then show False using True by (cases k) auto
      qed
      then show ?thesis using True Slash by (simp add: match.simps)
    next
      case False
      let ?r = "dropWhile (\<lambda>c. c = slash_char) input"
      have ne: "?r \<noteq> []" using endsOk_slashes "2.prems" False by blast
      have "match elems ?r = Inr (matches elems ?r)"
        by (rule "2.IH"(1) [OF Slash False refl ne endsOk_dropWhile [OF "2.prems"]])
      then show ?thesis using False ne Slash matches_Slash_dropWhile [of input elems] by (simp add: match.simps Let_def)
    qed
  next
    case (Literal l)
    show ?thesis
    proof (cases "strHasPrefix input l")
      case True
      then obtain t where t: "input = l @ t" by (auto simp: strHasPrefix_iff)
      have "match elems (drop (length l) input) = Inr (matches elems (drop (length l) input))"
        using "2.IH"(2) [OF Literal] True endsOk_drop [OF "2.prems"] by blast
      then show ?thesis using True Literal t by (simp add: match.simps matches_Literal)
    next
      case False
      then show ?thesis using Literal by (auto simp: match.simps matches_Literal)
    qed
  next
    case Star
    obtain seg rest where sp: "split input = (seg, rest)" by force
    then have ss: "segmentSplit input seg rest" using split_segmentSplit by blast
    let ?ses = "takeWhile (\<lambda>e. e \<noteq> Slash) elems" and ?es = "dropWhile (\<lambda>e. e \<noteq> Slash) elems"
    have rest: "match ?es rest = Inr (matches ?es rest)"
      using "2.IH"(3,5) [OF Star refl sp [symmetric] refl refl] endsOk_segment(1) [OF ss "2.prems"] by blast
    show ?thesis
    proof (cases "?ses = []")
      case True
      then show ?thesis using rest Star sp matches_Star [OF ss, of elems] by (simp add: match.simps Let_def)
    next
      case False
      have "match ?ses (drop i seg) = Inr (matches ?ses (drop i seg))" if "i \<in> set [0..<length seg]" for i
        using "2.IH"(4) [OF Star refl sp [symmetric] refl refl False that] endsOk_segment(2) [OF ss "2.prems"] by blast
      then have "anyPanic (\<lambda>i. match ?ses (drop i seg)) [0..<length seg] = Inr (\<exists>i\<in>set [0..<length seg]. matches ?ses (drop i seg))"
        by (rule anyPanic_Inr)
      then show ?thesis
        using False rest Star sp matches_Star [OF ss, of elems] by (auto simp: match.simps Let_def)
    qed
  next
    case AnyChar
    show ?thesis
    proof (cases "input = [] \<or> hd input = slash_char")
      case True
      then show ?thesis using AnyChar by (auto simp: match.simps matches_AnyChar)
    next
      case False
      have "match elems (tl input) = Inr (matches elems (tl input))"
        using "2.IH"(6) [OF AnyChar False] endsOk_drop [OF "2.prems", of 1] by (simp add: drop_Suc)
      then show ?thesis using False AnyChar by (cases input) (auto simp: match.simps matches_AnyChar)
    qed
  next
    case StarStar
    show ?thesis
    proof (cases "tl elems = []")
      case True
      then show ?thesis using StarStar by (simp add: match.simps matches_StarStar)
    next
      case False
      have "match (tl elems) i = Inr (matches (tl elems) i)" if "i \<in> set (starStarInputs input)" for i
        using "2.IH"(7) [OF StarStar refl False that] endsOk_segmentStart [of input i] that "2.prems"
        unfolding starStarInputs_segmentStart by blast
      then have "anyPanic (\<lambda>i. match (tl elems) i) (starStarInputs input) = Inr (\<exists>i\<in>set (starStarInputs input). matches (tl elems) i)"
        by (rule anyPanic_Inr)
      then show ?thesis using False StarStar starStarInputs_segmentStart
        by (auto simp: match.simps matches_StarStar)
    qed
  next
    case (Group gs)
    have "match (g @ elems) input = Inr (matches (g @ elems) input)" if "g \<in> set gs" for g
      using "2.IH"(8) [OF Group that "2.prems"] .
    then have "anyPanic (\<lambda>g. match (g @ elems) input) gs = Inr (\<exists>g\<in>set gs. matches (g @ elems) input)" by (rule anyPanic_Inr)
    then show ?thesis using Group by (auto simp: match.simps matches_Group)
  next
    case (CharRange neg lo hi)
    obtain c sz where d: "decodeRune input = (c, sz)" by force
    have "match elems (drop sz input) = Inr (matches elems (drop sz input))"
      if "\<not> (input = [] \<or> hd input = slash_char)" "\<not> (c < lo \<or> c > hi)"
      using "2.IH"(9) [OF CharRange that(1) refl d [symmetric] that(2)] endsOk_drop [OF "2.prems"] by blast
    then show ?thesis using CharRange d by (auto simp: match.simps matches_CharRange Let_def)
  qed
qed

text \<open>Match decides the glob relation: on every path that does not end in a slash it returns,
  for every pattern, and answers whether the pattern matches the path in the declarative sense,
  where \<open>**\<close> skips whole segments, \<open>*\<close> stays inside one, a group offers its members and a slash
  stands for a run of slashes with something behind it. The relation is that of the code, which ignores the
  negation of a range and drops the separator behind a star, against the package comment. The backtracking over characters,
  segments and group members misses no match and invents none.\<close>

theorem Match_decides:
  assumes "input = [] \<or> last input \<noteq> slash_char"
  shows "Match g input = Inr (matches g input)"
  using match_decides [of input g] assms by (simp add: Match_def endsOk_def)

theorem Match_decides_witness:
  "Parse ''src/**/*.{ts,js}'' = Inr (Some (Inr [Literal ''src'', Slash, StarStar, Slash, Star, Literal ''.'',
       Group [[Literal ''ts''], [Literal ''js'']]]))
   \<and> matches [Literal ''src'', Slash, StarStar, Slash, Star, Literal ''.'', Group [[Literal ''ts''], [Literal ''js'']]] ''src/a/b/m.js''"
proof -
  let ?g = "[Literal ''src'', Slash, StarStar, Slash, Star, Literal ''.'', Group [[Literal ''ts''], [Literal ''js'']]]"
  have "Parse ''src/**/*.{ts,js}'' = Inr (Some (Inr ?g))" "Match ?g ''src/a/b/m.js'' = Inr True" by code_simp+
  moreover have "''src/a/b/m.js'' = [] \<or> last ''src/a/b/m.js'' \<noteq> slash_char" by simp
  ultimately show ?thesis using Match_decides [of "''src/a/b/m.js''" ?g] by auto
qed

text \<open>A path that ends in slashes is not only rejected: the loop that skips a run of slashes
  reads behind the end of the path, so a pattern that ends in a slash makes Match panic on every
  path it should accept.\<close>

theorem Match_trailing_slash_panics:
  "\<exists>msg. Match [Literal name, Slash] (name @ replicate (Suc k) slash_char) = Inl msg"
proof -
  have "dropWhile (\<lambda>c. c = slash_char) (replicate k slash_char) = []" by (induction k) auto
  then show ?thesis by (simp add: Match_def match.simps Let_def)
qed

text \<open>A star consumes the separator behind its segment and the next element asks for it again:
  a pattern with a star right before a slash matches no path at all, so \<open>*/a\<close> does not match
  \<open>b/a\<close>.\<close>

theorem Match_star_slash_never:
  "Match (Star # Slash # elems) input = Inr False"
proof -
  obtain seg rest where sp: "split input = (seg, rest)" by force
  then have "rest = [] \<or> hd rest \<noteq> slash_char" using split_segmentSplit [of input seg rest] by (auto simp: segmentSplit_def)
  then show ?thesis using sp by (auto simp: Match_def match.simps Let_def)
qed

text \<open>Negation of a character range is parsed and then ignored: \<open>[!a-c]\<close> and \<open>[a-c]\<close> match the
  same paths, at any place of a pattern, and print the same.\<close>

theorem negated_range_ignored:
  "Parse ''[!a-c]'' = Inr (Some (Inr [CharRange True 97 99]))
   \<and> Match (CharRange True lo hi # elems) input = Match (CharRange False lo hi # elems) input
   \<and> elementString (CharRange True lo hi) = elementString (CharRange False lo hi)"
proof -
  have "parseRange ''!a-c]'' = Inr (CharRange True 97 99, [])"
    by (simp add: parseRange_def readRangeRune_def RuneError_def)
  then have "parseStep ''[!a-c]'' False [] = Append (CharRange True 97 99) []" by (simp add: parseStep_def)
  moreover have "parseStep [] nested elems = Return" for nested elems by (simp add: parseStep_def)
  ultimately have "Parse ''[!a-c]'' = Inr (Some (Inr [CharRange True 97 99]))"
    by (simp add: Parse_def numeral_eq_Suc)
  then show ?thesis by (simp only: Match_def match.simps(2) element.case elementString.simps simp_thms)
qed

end
