(* ===== verification/SourceMap_Decoder.thy ===== *)
theory SourceMap_Decoder
  imports Go_Prelude "HOL-Library.Word"
begin

text \<open>
  Package \<open>internal/sourcemap\<close>, file \<open>decoder.go\<close>: the incremental decoder of a source map's
  \<open>mappings\<close> string. Columns, lines and indices are Go \<open>int\<close>s, so every addition and shift wraps
  with \<open>go_int\<close>. The arena the mappings are allocated in is not part of the state.
\<close>

unbundle bit_operations_syntax

section \<open>Mappings and decoder state\<close>

record Mapping =
  GeneratedLine :: int
  GeneratedCharacter :: int
  SourceIndex :: int
  SourceLine :: int
  SourceCharacter :: int
  NameIndex :: int

definition MissingSource :: int where "MissingSource = -1"
definition MissingName :: int where "MissingName = -1"
definition MissingLineOrColumn :: int where "MissingLineOrColumn = -1"
definition MissingUTF16Column :: int where "MissingUTF16Column = -1"

definition Mapping_Equals :: "Mapping \<Rightarrow> Mapping \<Rightarrow> bool" where
  "Mapping_Equals m other =
     (GeneratedLine m = GeneratedLine other \<and> GeneratedCharacter m = GeneratedCharacter other
      \<and> SourceIndex m = SourceIndex other \<and> SourceLine m = SourceLine other
      \<and> SourceCharacter m = SourceCharacter other \<and> NameIndex m = NameIndex other)"

definition IsSourceMapping :: "Mapping \<Rightarrow> bool" where
  "IsSourceMapping m =
     (SourceIndex m \<noteq> MissingSource \<and> SourceLine m \<noteq> MissingLineOrColumn \<and> SourceCharacter m \<noteq> MissingUTF16Column)"

record MappingsDecoder =
  d_mappings :: string
  d_done :: bool
  d_pos :: nat
  d_generatedLine :: int
  d_generatedCharacter :: int
  d_sourceIndex :: int
  d_sourceLine :: int
  d_sourceCharacter :: int
  d_nameIndex :: int
  d_error :: go_error

definition DecodeMappings :: "string \<Rightarrow> MappingsDecoder" where
  "DecodeMappings mappings =
     \<lparr>d_mappings = mappings, d_done = False, d_pos = 0, d_generatedLine = 0, d_generatedCharacter = 0,
      d_sourceIndex = 0, d_sourceLine = 0, d_sourceCharacter = 0, d_nameIndex = 0, d_error = None\<rparr>"

section \<open>Base64 VLQ\<close>

definition base64FormatDecode :: "char \<Rightarrow> int" where
  "base64FormatDecode ch =
     (let c = (of_char ch :: int) in
      if 65 \<le> c \<and> c \<le> 90 then c - 65
      else if 97 \<le> c \<and> c \<le> 122 then c - 97 + 26
      else if 48 \<le> c \<and> c \<le> 57 then c - 48 + 52
      else if ch = CHR ''+'' then 62
      else if ch = CHR ''/'' then 63
      else -1)"

definition setError :: "string \<Rightarrow> MappingsDecoder \<Rightarrow> MappingsDecoder" where
  "setError err d = d\<lparr>d_error := Some err\<rparr>"

definition hasReportedError :: "MappingsDecoder \<Rightarrow> bool" where
  "hasReportedError d = (d_error d \<noteq> None)"

definition vlqSigned :: "int \<Rightarrow> int" where
  \<comment> \<open>the least significant bit is the sign\<close>
  "vlqSigned value = (if value AND 1 = 0 then drop_bit 1 value else go_int (- drop_bit 1 value))"

function vlqLoop :: "MappingsDecoder \<Rightarrow> nat \<Rightarrow> int \<Rightarrow> int \<times> MappingsDecoder" where
  "vlqLoop d shiftCount val =
     (if length (d_mappings d) \<le> d_pos d
      then (-1, setError ''Error in decoding base64VLQFormatDecode, past the mapping string'' d)
      else
        let currentByte = base64FormatDecode (d_mappings d ! d_pos d) in
        if currentByte = -1 then (-1, setError ''Invalid character in VLQ'' d)
        else
          let moreDigits = (currentByte AND 32 \<noteq> 0);
              val' = val OR go_int (push_bit shiftCount (currentByte AND 31));
              d' = d\<lparr>d_pos := d_pos d + 1\<rparr> in
          if moreDigits then vlqLoop d' (shiftCount + 5) val'
          else (vlqSigned val', d'))"
  by pat_completeness auto
termination
  by (relation "measure (\<lambda>(d, shiftCount, val). length (d_mappings d) - d_pos d)") auto

declare vlqLoop.simps [simp del]

definition base64VLQFormatDecode :: "MappingsDecoder \<Rightarrow> int \<times> MappingsDecoder" where
  "base64VLQFormatDecode d = vlqLoop d 0 0"

section \<open>The iterator\<close>

definition isSourceMappingSegmentEnd :: "MappingsDecoder \<Rightarrow> bool" where
  "isSourceMappingSegmentEnd d =
     (d_pos d = length (d_mappings d) \<or> d_mappings d ! d_pos d = CHR '','' \<or> d_mappings d ! d_pos d = CHR '';'')"

definition captureMapping :: "bool \<Rightarrow> bool \<Rightarrow> MappingsDecoder \<Rightarrow> Mapping" where
  "captureMapping hasSource hasName d =
     \<lparr>GeneratedLine = d_generatedLine d,
      GeneratedCharacter = d_generatedCharacter d,
      SourceIndex = (if hasSource then d_sourceIndex d else MissingSource),
      SourceLine = (if hasSource then d_sourceLine d else MissingLineOrColumn),
      SourceCharacter = (if hasSource then d_sourceCharacter d else MissingUTF16Column),
      NameIndex = (if hasName then d_nameIndex d else MissingName)\<rparr>"

definition State :: "MappingsDecoder \<Rightarrow> Mapping" where
  "State d = captureMapping True True d"

text \<open>\<open>Next\<close> returns a mapping, or \<open>None\<close> for \<open>done\<close>, and the new state.\<close>

definition stopIterating :: "MappingsDecoder \<Rightarrow> Mapping option \<times> MappingsDecoder" where
  "stopIterating d = (None, d\<lparr>d_done := True\<rparr>)"

definition setErrorAndStopIterating :: "string \<Rightarrow> MappingsDecoder \<Rightarrow> Mapping option \<times> MappingsDecoder" where
  "setErrorAndStopIterating err d = stopIterating (setError err d)"

definition decodeName :: "MappingsDecoder \<Rightarrow> Mapping option \<times> MappingsDecoder" where
  "decodeName d0 =
     (let (v, d1) = base64VLQFormatDecode d0; d = d1\<lparr>d_nameIndex := go_int (d_nameIndex d1 + v)\<rparr> in
      if hasReportedError d then stopIterating d
      else if d_nameIndex d < 0 then setErrorAndStopIterating ''Invalid nameIndex found'' d
      else if \<not> isSourceMappingSegmentEnd d
      then setErrorAndStopIterating ''Unsupported Error Format: Entries after nameIndex'' d
      else (Some (captureMapping True True d), d))"

definition decodeSourceCharacter :: "MappingsDecoder \<Rightarrow> Mapping option \<times> MappingsDecoder" where
  "decodeSourceCharacter d0 =
     (let (v, d1) = base64VLQFormatDecode d0; d = d1\<lparr>d_sourceCharacter := go_int (d_sourceCharacter d1 + v)\<rparr> in
      if hasReportedError d then stopIterating d
      else if d_sourceCharacter d < 0 then setErrorAndStopIterating ''Invalid sourceCharacter found'' d
      else if \<not> isSourceMappingSegmentEnd d then decodeName d
      else (Some (captureMapping True False d), d))"

definition decodeSourceLine :: "MappingsDecoder \<Rightarrow> Mapping option \<times> MappingsDecoder" where
  "decodeSourceLine d0 =
     (let (v, d1) = base64VLQFormatDecode d0; d = d1\<lparr>d_sourceLine := go_int (d_sourceLine d1 + v)\<rparr> in
      if hasReportedError d then stopIterating d
      else if d_sourceLine d < 0 then setErrorAndStopIterating ''Invalid sourceLine found'' d
      else if isSourceMappingSegmentEnd d
      then setErrorAndStopIterating ''Unsupported Format: No entries after sourceLine'' d
      else decodeSourceCharacter d)"

definition decodeSource :: "MappingsDecoder \<Rightarrow> Mapping option \<times> MappingsDecoder" where
  "decodeSource d0 =
     (let (v, d1) = base64VLQFormatDecode d0; d = d1\<lparr>d_sourceIndex := go_int (d_sourceIndex d1 + v)\<rparr> in
      if hasReportedError d then stopIterating d
      else if d_sourceIndex d < 0 then setErrorAndStopIterating ''Invalid sourceIndex found'' d
      else if isSourceMappingSegmentEnd d
      then setErrorAndStopIterating ''Unsupported Format: No entries after sourceIndex'' d
      else decodeSourceLine d)"

definition decodeSegment :: "MappingsDecoder \<Rightarrow> Mapping option \<times> MappingsDecoder" where
  "decodeSegment d0 =
     (let (v, d1) = base64VLQFormatDecode d0;
          d = d1\<lparr>d_generatedCharacter := go_int (d_generatedCharacter d1 + v)\<rparr> in
      if hasReportedError d then stopIterating d
      else if d_generatedCharacter d < 0 then setErrorAndStopIterating ''Invalid generatedCharacter found'' d
      else if \<not> isSourceMappingSegmentEnd d then decodeSource d
      else (Some (captureMapping False False d), d))"

function Next :: "MappingsDecoder \<Rightarrow> Mapping option \<times> MappingsDecoder" where
  "Next d =
     (if \<not> d_done d \<and> d_pos d < length (d_mappings d) then
        let ch = d_mappings d ! d_pos d in
        if ch = CHR '';'' then
          Next (d\<lparr>d_generatedLine := go_int (d_generatedLine d + 1), d_generatedCharacter := 0, d_pos := d_pos d + 1\<rparr>)
        else if ch = CHR '','' then Next (d\<lparr>d_pos := d_pos d + 1\<rparr>)
        else decodeSegment d
      else stopIterating d)"
  by pat_completeness auto
termination
  by (relation "measure (\<lambda>d. length (d_mappings d) - d_pos d)") auto

declare Next.simps [simp del]

text \<open>\<open>Values\<close>, run to its end: the mappings it yields and the decoder it leaves. The loop stops
  because every \<open>Next\<close> that yields has moved forward.\<close>

lemma vlqLoop_error:
  "length (d_mappings d) \<le> d_pos d \<or> base64FormatDecode (d_mappings d ! d_pos d) = -1 \<Longrightarrow>
     \<exists>msg. vlqLoop d k v = (-1, d\<lparr>d_error := Some msg\<rparr>)"
  by (subst vlqLoop.simps) (auto simp: setError_def)

lemma vlqLoop_digit:
  assumes "d_pos d < length (d_mappings d)" "base64FormatDecode (d_mappings d ! d_pos d) = b" "b \<noteq> -1"
  shows "vlqLoop d k v =
    (let v' = v OR go_int (push_bit k (b AND 31)); d' = d\<lparr>d_pos := d_pos d + 1\<rparr>
     in if b AND 32 \<noteq> 0 then vlqLoop d' (k + 5) v' else (vlqSigned v', d'))"
  using assms by (subst vlqLoop.simps) (simp add: Let_def)

lemma vlqLoop_frame:
  "\<exists>x p e. vlqLoop d k v = (x, d\<lparr>d_pos := p, d_error := e\<rparr>) \<and> d_pos d \<le> p
     \<and> (e = None \<longrightarrow> d_error d = None \<and> d_pos d < p)
     \<and> (d_pos d \<le> length (d_mappings d) \<longrightarrow> p \<le> length (d_mappings d))"
proof (induction "length (d_mappings d) - d_pos d" arbitrary: d k v rule: less_induct)
  case less
  show ?case
  proof (cases "length (d_mappings d) \<le> d_pos d \<or> base64FormatDecode (d_mappings d ! d_pos d) = -1")
    case True
    then obtain msg where "vlqLoop d k v = (-1, d\<lparr>d_error := Some msg\<rparr>)" using vlqLoop_error by blast
    then show ?thesis by (intro exI [of _ "-1"] exI [of _ "d_pos d"] exI [of _ "Some msg"]) simp
  next
    case False
    define b where "b = base64FormatDecode (d_mappings d ! d_pos d)"
    define v' where "v' = v OR go_int (push_bit k (b AND 31))"
    have eq: "vlqLoop d k v = (if b AND 32 \<noteq> 0 then vlqLoop (d\<lparr>d_pos := d_pos d + 1\<rparr>) (k + 5) v'
        else (vlqSigned v', d\<lparr>d_pos := d_pos d + 1\<rparr>))"
      using False vlqLoop_digit [of d b k v] by (simp add: b_def v'_def)
    show ?thesis
    proof (cases "b AND 32 \<noteq> 0")
      case True
      obtain x p e where "vlqLoop (d\<lparr>d_pos := d_pos d + 1\<rparr>) (k + 5) v' = (x, d\<lparr>d_pos := p, d_error := e\<rparr>)"
        "d_pos d + 1 \<le> p" "e = None \<longrightarrow> d_error d = None \<and> d_pos d + 1 < p"
        "d_pos d + 1 \<le> length (d_mappings d) \<longrightarrow> p \<le> length (d_mappings d)"
        using less [of "d\<lparr>d_pos := d_pos d + 1\<rparr>" "k + 5" v'] False by (auto simp: diff_less_mono2)
      then show ?thesis unfolding eq using True False
        by (intro exI [of _ x] exI [of _ p] exI [of _ e]) auto
    next
      case False
      then show ?thesis unfolding eq using \<open>\<not> (length (d_mappings d) \<le> d_pos d \<or> _)\<close>
        by (intro exI [of _ "vlqSigned v'"] exI [of _ "d_pos d + 1"] exI [of _ "d_error d"]) auto
    qed
  qed
qed

lemma base64VLQFormatDecode_frame:
  obtains x p e where "base64VLQFormatDecode d = (x, d\<lparr>d_pos := p, d_error := e\<rparr>)" "d_pos d \<le> p"
    "e = None \<Longrightarrow> d_error d = None \<and> d_pos d < p" "d_pos d \<le> length (d_mappings d) \<Longrightarrow> p \<le> length (d_mappings d)"
  using vlqLoop_frame [of d 0 0] unfolding base64VLQFormatDecode_def by blast

text \<open>What every step keeps: the string, and a position that only moves forward, strictly when a
  mapping is returned.\<close>

definition advances :: "MappingsDecoder \<Rightarrow> Mapping option \<times> MappingsDecoder \<Rightarrow> bool" where
  "advances d r \<longleftrightarrow> d_mappings (snd r) = d_mappings d \<and> d_pos d \<le> d_pos (snd r)
     \<and> (fst r \<noteq> None \<longrightarrow> d_pos d < d_pos (snd r) \<and> d_done (snd r) = d_done d)
     \<and> (d_pos d \<le> length (d_mappings d) \<longrightarrow> d_pos (snd r) \<le> length (d_mappings d))
     \<and> (fst r = None \<longrightarrow> d_done (snd r))"

lemma advances_stop [simp]:
  "advances d (stopIterating d')
     \<longleftrightarrow> d_mappings d' = d_mappings d \<and> d_pos d \<le> d_pos d'
       \<and> (d_pos d \<le> length (d_mappings d) \<longrightarrow> d_pos d' \<le> length (d_mappings d))"
  "advances d (setErrorAndStopIterating err d') \<longleftrightarrow> advances d (stopIterating d')"
  by (auto simp: advances_def stopIterating_def setErrorAndStopIterating_def setError_def)

lemma advances_trans:
  "advances d' r \<Longrightarrow> d_mappings d' = d_mappings d \<Longrightarrow> d_pos d \<le> d_pos d' \<Longrightarrow> d_done d' = d_done d \<Longrightarrow>
     (d_pos d \<le> length (d_mappings d) \<Longrightarrow> d_pos d' \<le> length (d_mappings d)) \<Longrightarrow> advances d r"
  by (auto simp: advances_def)

lemma advances_decodeName: "advances d (decodeName d)"
proof -
  obtain x p e where f: "base64VLQFormatDecode d = (x, d\<lparr>d_pos := p, d_error := e\<rparr>)" "d_pos d \<le> p"
    "e = None \<Longrightarrow> d_error d = None \<and> d_pos d < p" "d_pos d \<le> length (d_mappings d) \<Longrightarrow> p \<le> length (d_mappings d)"
    using base64VLQFormatDecode_frame [of d] by blast
  then show ?thesis by (auto simp: decodeName_def Let_def hasReportedError_def) (auto simp: advances_def)
qed

lemma advances_decodeSourceCharacter: "advances d (decodeSourceCharacter d)"
proof -
  obtain x p e where f: "base64VLQFormatDecode d = (x, d\<lparr>d_pos := p, d_error := e\<rparr>)" "d_pos d \<le> p"
    "e = None \<Longrightarrow> d_error d = None \<and> d_pos d < p" "d_pos d \<le> length (d_mappings d) \<Longrightarrow> p \<le> length (d_mappings d)"
    using base64VLQFormatDecode_frame [of d] by blast
  then show ?thesis by (auto simp: decodeSourceCharacter_def Let_def hasReportedError_def
        intro!: advances_trans [OF advances_decodeName]) (auto simp: advances_def)
qed

lemma advances_decodeSourceLine: "advances d (decodeSourceLine d)"
proof -
  obtain x p e where f: "base64VLQFormatDecode d = (x, d\<lparr>d_pos := p, d_error := e\<rparr>)" "d_pos d \<le> p"
    "e = None \<Longrightarrow> d_error d = None \<and> d_pos d < p" "d_pos d \<le> length (d_mappings d) \<Longrightarrow> p \<le> length (d_mappings d)"
    using base64VLQFormatDecode_frame [of d] by blast
  then show ?thesis by (auto simp: decodeSourceLine_def Let_def hasReportedError_def
        intro!: advances_trans [OF advances_decodeSourceCharacter])
qed

lemma advances_decodeSource: "advances d (decodeSource d)"
proof -
  obtain x p e where f: "base64VLQFormatDecode d = (x, d\<lparr>d_pos := p, d_error := e\<rparr>)" "d_pos d \<le> p"
    "e = None \<Longrightarrow> d_error d = None \<and> d_pos d < p" "d_pos d \<le> length (d_mappings d) \<Longrightarrow> p \<le> length (d_mappings d)"
    using base64VLQFormatDecode_frame [of d] by blast
  then show ?thesis by (auto simp: decodeSource_def Let_def hasReportedError_def
        intro!: advances_trans [OF advances_decodeSourceLine])
qed

lemma advances_decodeSegment: "advances d (decodeSegment d)"
proof -
  obtain x p e where f: "base64VLQFormatDecode d = (x, d\<lparr>d_pos := p, d_error := e\<rparr>)" "d_pos d \<le> p"
    "e = None \<Longrightarrow> d_error d = None \<and> d_pos d < p" "d_pos d \<le> length (d_mappings d) \<Longrightarrow> p \<le> length (d_mappings d)"
    using base64VLQFormatDecode_frame [of d] by blast
  then show ?thesis by (auto simp: decodeSegment_def Let_def hasReportedError_def
        intro!: advances_trans [OF advances_decodeSource]) (auto simp: advances_def)
qed

lemma advances_Next: "advances d (Next d)"
proof (induction d rule: Next.induct)
  case (1 d)
  consider (stop) "d_done d \<or> length (d_mappings d) \<le> d_pos d"
    | (line) "\<not> d_done d \<and> d_pos d < length (d_mappings d)" "d_mappings d ! d_pos d = CHR '';''"
    | (comma) "\<not> d_done d \<and> d_pos d < length (d_mappings d)" "d_mappings d ! d_pos d = CHR '',''"
    | (seg) "\<not> d_done d \<and> d_pos d < length (d_mappings d)" "d_mappings d ! d_pos d \<noteq> CHR '',''" "d_mappings d ! d_pos d \<noteq> CHR '';''"
    by (meson not_le)
  then show ?case
  proof cases
    case stop
    then show ?thesis by (subst Next.simps) auto
  next
    case line
    have eq: "Next d = Next (d\<lparr>d_generatedLine := go_int (d_generatedLine d + 1), d_generatedCharacter := 0, d_pos := d_pos d + 1\<rparr>)"
      using line by (subst Next.simps) simp
    show ?thesis unfolding eq using line(1) by (intro advances_trans [OF "1.IH"(1) [OF line(1) refl line(2)]]) simp_all
  next
    case comma
    then have ne: "d_mappings d ! d_pos d \<noteq> CHR '';''" by simp
    have eq: "Next d = Next (d\<lparr>d_pos := d_pos d + 1\<rparr>)" using comma by (subst Next.simps) simp
    show ?thesis unfolding eq using comma(1) by (intro advances_trans [OF "1.IH"(2) [OF comma(1) refl ne comma(2)]]) simp_all
  next
    case seg
    then show ?thesis by (subst Next.simps) (simp add: Let_def advances_decodeSegment)
  qed
qed

lemma Next_Some:
  assumes "Next d = (Some m, d')"
  shows "d_pos d < d_pos d'" "d_mappings d' = d_mappings d" "d_pos d < length (d_mappings d)"
    "d_pos d' \<le> length (d_mappings d)" "d_done d' = d_done d"
proof -
  show "d_pos d < length (d_mappings d)"
    using assms by (subst (asm) Next.simps) (auto simp: stopIterating_def split: if_splits)
  then show "d_pos d < d_pos d'" "d_mappings d' = d_mappings d" "d_pos d' \<le> length (d_mappings d)" "d_done d' = d_done d"
    using advances_Next [of d] assms by (simp_all add: advances_def)
qed

function Values :: "MappingsDecoder \<Rightarrow> Mapping list \<times> MappingsDecoder" where
  "Values d =
     (case Next d of
        (None, d') \<Rightarrow> ([], d')
      | (Some m, d') \<Rightarrow> let (ms, d'') = Values d' in (m # ms, d''))"
  by pat_completeness auto
termination
proof (relation "measure (\<lambda>d. Suc (length (d_mappings d)) - d_pos d)", goal_cases)
  case (2 d x d' m)
  then have "Next d = (Some m, d')" by simp
  from Next_Some [OF this] show ?case by simp
qed simp

declare Values.simps [simp del]

text \<open>C31. Decoding a \<open>mappings\<close> string always ends, whatever the string: the iterator stops with the
  position inside the string, and a stopped decoder stays stopped.\<close>

theorem Values_stops:
  "let d' = snd (Values (DecodeMappings mappings)) in
     d_done d' \<and> d_mappings d' = mappings \<and> d_pos d' \<le> length mappings \<and> Next d' = (None, d')"
proof -
  define d' where "d' = snd (Values (DecodeMappings mappings))"
  have "d_done (snd (Values d)) \<and> d_mappings (snd (Values d)) = d_mappings d
      \<and> d_pos (snd (Values d)) \<le> length (d_mappings d)" if "d_pos d \<le> length (d_mappings d)" for d
    using that
  proof (induction d rule: Values.induct)
    case (1 d)
    obtain r d1 where n: "Next d = (r, d1)" by force
    have a: "advances d (r, d1)" using advances_Next [of d] n by simp
    show ?case
    proof (cases r)
      case None
      then show ?thesis using a n "1.prems" by (subst (1 2 3) Values.simps) (simp add: advances_def)
    next
      case (Some m)
      then have "d_done (snd (Values d1)) \<and> d_mappings (snd (Values d1)) = d_mappings d1
          \<and> d_pos (snd (Values d1)) \<le> length (d_mappings d1)"
        using "1.IH" [OF n [symmetric] Some] a "1.prems" by (simp add: advances_def)
      then show ?thesis using a n Some by (subst (1 2 3) Values.simps) (simp add: advances_def split_beta Let_def)
    qed
  qed
  from this [of "DecodeMappings mappings"]
  have "d_done d'" "d_mappings d' = mappings" "d_pos d' \<le> length mappings"
    unfolding d'_def by (simp_all add: DecodeMappings_def)
  then show ?thesis unfolding d'_def [symmetric] Let_def by (subst Next.simps) (simp add: stopIterating_def)
qed

end
