(* ===== verification/SourceMap_Generator.thy ===== *)
theory SourceMap_Generator
  imports SourceMap_Decoder TsPath_Relative
begin

text \<open>
  Package \<open>internal/sourcemap\<close>, file \<open>generator.go\<close>: building a source map. The maps from sources
  and names to their indices are partial functions (a nil map reads as the empty map), the string
  builder is the string written so far. Serialising the result as JSON and as a data URL is not
  modelled.
\<close>

section \<open>State\<close>

record Generator =
  g_pathOptions :: ComparePathsOptions
  g_file :: string
  g_sourceRoot :: string
  g_sourcesDirectoryPath :: string
  g_rawSources :: "string list"
  g_sources :: "string list"
  g_sourceToSourceIndexMap :: "string \<rightharpoonup> int"
  g_sourcesContent :: "string option list"
  g_names :: "string list"
  g_nameToNameIndexMap :: "string \<rightharpoonup> int"
  g_mappings :: string
  g_lastGeneratedLine :: int
  g_lastGeneratedCharacter :: int
  g_lastSourceIndex :: int
  g_lastSourceLine :: int
  g_lastSourceCharacter :: int
  g_lastNameIndex :: int
  g_hasLast :: bool
  g_pendingGeneratedLine :: int
  g_pendingGeneratedCharacter :: int
  g_pendingSourceIndex :: int
  g_pendingSourceLine :: int
  g_pendingSourceCharacter :: int
  g_pendingNameIndex :: int
  g_hasPending :: bool
  g_hasPendingSource :: bool
  g_hasPendingName :: bool

record RawSourceMap =
  rs_Version :: int
  rs_File :: string
  rs_SourceRoot :: string
  rs_Sources :: "string list"
  rs_Names :: "string list"
  rs_Mappings :: string
  rs_SourcesContent :: "string option list"

definition sourceIndexNotSet :: int where "sourceIndexNotSet = -1"
definition nameIndexNotSet :: int where "nameIndexNotSet = -1"
definition notSet :: int where "notSet = -1"
definition notSetUTF16 :: int where "notSetUTF16 = -1"

lemmas notSet_defs = sourceIndexNotSet_def nameIndexNotSet_def notSet_def notSetUTF16_def

definition NewGenerator :: "string \<Rightarrow> string \<Rightarrow> string \<Rightarrow> ComparePathsOptions \<Rightarrow> Generator" where
  "NewGenerator file sourceRoot sourcesDirectoryPath options =
     \<lparr>g_pathOptions = options, g_file = file, g_sourceRoot = sourceRoot,
      g_sourcesDirectoryPath = sourcesDirectoryPath, g_rawSources = [], g_sources = [],
      g_sourceToSourceIndexMap = Map.empty, g_sourcesContent = [], g_names = [],
      g_nameToNameIndexMap = Map.empty, g_mappings = [],
      g_lastGeneratedLine = 0, g_lastGeneratedCharacter = 0, g_lastSourceIndex = 0, g_lastSourceLine = 0,
      g_lastSourceCharacter = 0, g_lastNameIndex = 0, g_hasLast = False,
      g_pendingGeneratedLine = 0, g_pendingGeneratedCharacter = 0, g_pendingSourceIndex = 0,
      g_pendingSourceLine = 0, g_pendingSourceCharacter = 0, g_pendingNameIndex = 0,
      g_hasPending = False, g_hasPendingSource = False, g_hasPendingName = False\<rparr>"

section \<open>Sources and names\<close>

definition AddSource :: "(string \<Rightarrow> string \<Rightarrow> bool) \<Rightarrow> string \<Rightarrow> Generator \<Rightarrow> int \<times> Generator" where
  "AddSource eqFold fileName gen =
     (let source = GetRelativePathToDirectoryOrUrl eqFold (g_sourcesDirectoryPath gen) fileName True (g_pathOptions gen) in
      case g_sourceToSourceIndexMap gen source of
        Some sourceIndex \<Rightarrow> (sourceIndex, gen)
      | None \<Rightarrow>
          let sourceIndex = int (length (g_sources gen)) in
          (sourceIndex,
           gen\<lparr>g_sources := g_sources gen @ [source], g_rawSources := g_rawSources gen @ [fileName],
               g_sourceToSourceIndexMap := (g_sourceToSourceIndexMap gen)(source \<mapsto> sourceIndex)\<rparr>))"

definition SetSourceContent :: "int \<Rightarrow> string \<Rightarrow> Generator \<Rightarrow> go_error \<times> Generator" where
  "SetSourceContent sourceIndex content gen =
     (if sourceIndex < 0 \<or> sourceIndex \<ge> int (length (g_sources gen)) then (Some ''sourceIndex is out of range'', gen)
      else
        let i = nat sourceIndex; sc = g_sourcesContent gen;
            padded = sc @ replicate (Suc i - length sc) None
        in (None, gen\<lparr>g_sourcesContent := padded[i := Some content]\<rparr>))"

definition AddName :: "string \<Rightarrow> Generator \<Rightarrow> int \<times> Generator" where
  "AddName name gen =
     (case g_nameToNameIndexMap gen name of
        Some nameIndex \<Rightarrow> (nameIndex, gen)
      | None \<Rightarrow>
          let nameIndex = int (length (g_names gen)) in
          (nameIndex,
           gen\<lparr>g_names := g_names gen @ [name],
               g_nameToNameIndexMap := (g_nameToNameIndexMap gen)(name \<mapsto> nameIndex)\<rparr>))"

section \<open>Mappings\<close>

definition isNewGeneratedPosition :: "int \<Rightarrow> int \<Rightarrow> Generator \<Rightarrow> bool" where
  "isNewGeneratedPosition generatedLine generatedCharacter gen =
     (\<not> g_hasPending gen \<or> g_pendingGeneratedLine gen \<noteq> generatedLine
      \<or> g_pendingGeneratedCharacter gen \<noteq> generatedCharacter)"

definition isBacktrackingSourcePosition :: "int \<Rightarrow> int \<Rightarrow> int \<Rightarrow> Generator \<Rightarrow> bool" where
  "isBacktrackingSourcePosition sourceIndex sourceLine sourceCharacter gen =
     (sourceIndex \<noteq> sourceIndexNotSet \<and> sourceLine \<noteq> notSet \<and> sourceCharacter \<noteq> notSetUTF16
      \<and> g_pendingSourceIndex gen = sourceIndex
      \<and> (g_pendingSourceLine gen > sourceLine
         \<or> g_pendingSourceLine gen = sourceLine \<and> g_pendingSourceCharacter gen > sourceCharacter))"

definition shouldCommitMapping :: "Generator \<Rightarrow> bool" where
  "shouldCommitMapping gen =
     (g_hasPending gen \<and> (\<not> g_hasLast gen
      \<or> g_lastGeneratedLine gen \<noteq> g_pendingGeneratedLine gen
      \<or> g_lastGeneratedCharacter gen \<noteq> g_pendingGeneratedCharacter gen
      \<or> g_lastSourceIndex gen \<noteq> g_pendingSourceIndex gen
      \<or> g_lastSourceLine gen \<noteq> g_pendingSourceLine gen
      \<or> g_lastSourceCharacter gen \<noteq> g_pendingSourceCharacter gen
      \<or> g_lastNameIndex gen \<noteq> g_pendingNameIndex gen))"

definition base64FormatEncode :: "int \<Rightarrow> char or_panic" where
  "base64FormatEncode v =
     (if v \<ge> 0 \<and> v < 26 then Inr (char_of (65 + v))
      else if v \<ge> 26 \<and> v < 52 then Inr (char_of (97 + v - 26))
      else if v \<ge> 52 \<and> v < 62 then Inr (char_of (48 + v - 52))
      else if v = 62 then Inr CHR ''+''
      else if v = 63 then Inr CHR ''/''
      else Inl ''not a base64 value'')"

function vlqAppendLoop :: "int \<Rightarrow> string \<Rightarrow> string or_panic" where
  "vlqAppendLoop inValue b =
     (let inValue' = drop_bit 5 inValue;
          currentDigit = (if inValue' > 0 then (inValue AND 31) OR 32 else inValue AND 31) in
      bind_panic (base64FormatEncode currentDigit) (\<lambda>c.
        if inValue' \<le> 0 then Inr (b @ [c]) else vlqAppendLoop inValue' (b @ [c])))"
  by pat_completeness auto
termination
proof (relation "measure (\<lambda>(inValue, b). nat inValue)", goal_cases)
  case (2 inValue b x xa xb)
  then have "0 < inValue div 32" by (simp add: drop_bit_eq_div)
  then have "0 < inValue" by (simp add: pos_imp_zdiv_pos_iff)
  then show ?case using 2 by (auto simp: drop_bit_eq_div)
qed simp

declare vlqAppendLoop.simps [simp del]

definition appendBase64VLQ :: "int \<Rightarrow> string \<Rightarrow> string or_panic" where
  "appendBase64VLQ inValue b =
     vlqAppendLoop (if inValue < 0 then go_int (go_int (push_bit 1 (go_int (- inValue))) + 1)
                    else go_int (push_bit 1 inValue)) b"

function lineDelimiters :: "int \<Rightarrow> int \<Rightarrow> string \<Rightarrow> int \<times> string" where
  \<comment> \<open>the loop that writes \<open>;\<close>; its first argument is \<open>lastGeneratedLine\<close>\<close>
  "lineDelimiters lastLine pendingLine b =
     (if lastLine + 1 \<ge> pendingLine then (lastLine + 1, b @ '';'')
      else lineDelimiters (lastLine + 1) pendingLine (b @ '';''))"
  by pat_completeness auto
termination
  by (relation "measure (\<lambda>(lastLine, pendingLine, b). nat (pendingLine - lastLine))") auto

declare lineDelimiters.simps [simp del]

definition writeDelimiters :: "Generator \<Rightarrow> Generator or_panic" where
  "writeDelimiters gen =
     (if g_lastGeneratedLine gen < g_pendingGeneratedLine gen then
        let (ln, b) = lineDelimiters (g_lastGeneratedLine gen) (g_pendingGeneratedLine gen) (g_mappings gen)
        in Inr (gen\<lparr>g_mappings := b, g_lastGeneratedLine := ln, g_lastGeneratedCharacter := 0\<rparr>)
      else if g_lastGeneratedLine gen \<noteq> g_pendingGeneratedLine gen then Inl ''generatedLine cannot backtrack''
      else Inr (if g_hasLast gen then gen\<lparr>g_mappings := g_mappings gen @ '',''\<rparr> else gen))"

definition writeName :: "Generator \<Rightarrow> Generator or_panic" where
  "writeName gen =
     (if g_hasPendingName gen then
        bind_panic (appendBase64VLQ (go_int (g_pendingNameIndex gen - g_lastNameIndex gen)) (g_mappings gen)) (\<lambda>b.
          Inr (gen\<lparr>g_mappings := b, g_lastNameIndex := g_pendingNameIndex gen\<rparr>))
      else Inr gen)"

definition writeSource :: "Generator \<Rightarrow> Generator or_panic" where
  "writeSource gen =
     (if g_hasPendingSource gen then
        bind_panic (appendBase64VLQ (go_int (g_pendingSourceIndex gen - g_lastSourceIndex gen)) (g_mappings gen)) (\<lambda>b1.
        bind_panic (appendBase64VLQ (go_int (g_pendingSourceLine gen - g_lastSourceLine gen)) b1) (\<lambda>b2.
        bind_panic (appendBase64VLQ (go_int (g_pendingSourceCharacter gen - g_lastSourceCharacter gen)) b2) (\<lambda>b3.
        writeName (gen\<lparr>g_mappings := b3, g_lastSourceIndex := g_pendingSourceIndex gen,
          g_lastSourceLine := g_pendingSourceLine gen, g_lastSourceCharacter := g_pendingSourceCharacter gen\<rparr>))))
      else Inr gen)"

definition commitPendingMapping :: "Generator \<Rightarrow> Generator or_panic" where
  "commitPendingMapping gen0 =
     (if \<not> shouldCommitMapping gen0 then Inr gen0
      else
        bind_panic (writeDelimiters gen0) (\<lambda>gen.
        bind_panic (appendBase64VLQ (go_int (g_pendingGeneratedCharacter gen - g_lastGeneratedCharacter gen)) (g_mappings gen)) (\<lambda>b.
        bind_panic (writeSource (gen\<lparr>g_mappings := b, g_lastGeneratedCharacter := g_pendingGeneratedCharacter gen\<rparr>)) (\<lambda>gen'.
        Inr (gen'\<lparr>g_hasLast := True\<rparr>)))))"

definition addMapping :: "int \<Rightarrow> int \<Rightarrow> int \<Rightarrow> int \<Rightarrow> int \<Rightarrow> int \<Rightarrow> Generator \<Rightarrow> Generator or_panic" where
  "addMapping generatedLine generatedCharacter sourceIndex sourceLine sourceCharacter nameIndex gen0 =
     bind_panic
       (if isNewGeneratedPosition generatedLine generatedCharacter gen0
           \<or> isBacktrackingSourcePosition sourceIndex sourceLine sourceCharacter gen0
        then bind_panic (commitPendingMapping gen0) (\<lambda>gen.
               Inr (gen\<lparr>g_pendingGeneratedLine := generatedLine, g_pendingGeneratedCharacter := generatedCharacter,
                        g_hasPendingSource := False, g_hasPendingName := False, g_hasPending := True\<rparr>))
        else Inr gen0)
       (\<lambda>gen.
          if sourceIndex \<noteq> sourceIndexNotSet \<and> sourceLine \<noteq> notSet \<and> sourceCharacter \<noteq> notSetUTF16 then
            let gen' = gen\<lparr>g_pendingSourceIndex := sourceIndex, g_pendingSourceLine := sourceLine,
                           g_pendingSourceCharacter := sourceCharacter, g_hasPendingSource := True\<rparr>
            in Inr (if nameIndex \<noteq> nameIndexNotSet
                    then gen'\<lparr>g_pendingNameIndex := nameIndex, g_hasPendingName := True\<rparr> else gen')
          else Inr gen)"

type_synonym mapping_result = "(go_error \<times> Generator) or_panic"

definition accept :: "Generator or_panic \<Rightarrow> mapping_result" where
  "accept r = bind_panic r (\<lambda>gen. Inr (None, gen))"

definition AddGeneratedMapping :: "int \<Rightarrow> int \<Rightarrow> Generator \<Rightarrow> mapping_result" where
  "AddGeneratedMapping generatedLine generatedCharacter gen =
     (if generatedLine < g_pendingGeneratedLine gen then Inr (Some ''generatedLine cannot backtrack'', gen)
      else if generatedCharacter < 0 then Inr (Some ''generatedCharacter cannot be negative'', gen)
      else accept (addMapping generatedLine generatedCharacter sourceIndexNotSet notSet notSetUTF16 nameIndexNotSet gen))"

definition AddSourceMapping :: "int \<Rightarrow> int \<Rightarrow> int \<Rightarrow> int \<Rightarrow> int \<Rightarrow> Generator \<Rightarrow> mapping_result" where
  "AddSourceMapping generatedLine generatedCharacter sourceIndex sourceLine sourceCharacter gen =
     (if generatedLine < g_pendingGeneratedLine gen then Inr (Some ''generatedLine cannot backtrack'', gen)
      else if generatedCharacter < 0 then Inr (Some ''generatedCharacter cannot be negative'', gen)
      else if sourceIndex < 0 \<or> sourceIndex \<ge> int (length (g_sources gen)) then Inr (Some ''sourceIndex is out of range'', gen)
      else if sourceLine < 0 then Inr (Some ''sourceLine cannot be negative'', gen)
      else if sourceCharacter < 0 then Inr (Some ''sourceCharacter cannot be negative'', gen)
      else accept (addMapping generatedLine generatedCharacter sourceIndex sourceLine sourceCharacter nameIndexNotSet gen))"

definition AddNamedSourceMapping :: "int \<Rightarrow> int \<Rightarrow> int \<Rightarrow> int \<Rightarrow> int \<Rightarrow> int \<Rightarrow> Generator \<Rightarrow> mapping_result" where
  "AddNamedSourceMapping generatedLine generatedCharacter sourceIndex sourceLine sourceCharacter nameIndex gen =
     (if generatedLine < g_pendingGeneratedLine gen then Inr (Some ''generatedLine cannot backtrack'', gen)
      else if generatedCharacter < 0 then Inr (Some ''generatedCharacter cannot be negative'', gen)
      else if sourceIndex < 0 \<or> sourceIndex \<ge> int (length (g_sources gen)) then Inr (Some ''sourceIndex is out of range'', gen)
      else if sourceLine < 0 then Inr (Some ''sourceLine cannot be negative'', gen)
      else if sourceCharacter < 0 then Inr (Some ''sourceCharacter cannot be negative'', gen)
      else if nameIndex < 0 \<or> nameIndex \<ge> int (length (g_names gen)) then Inr (Some ''nameIndex is out of range'', gen)
      else accept (addMapping generatedLine generatedCharacter sourceIndex sourceLine sourceCharacter nameIndex gen))"

definition Generator_RawSourceMap :: "Generator \<Rightarrow> (RawSourceMap \<times> Generator) or_panic" where
  \<comment> \<open>method \<open>RawSourceMap\<close>; the name is taken by its result type\<close>
  "Generator_RawSourceMap gen0 =
     bind_panic (commitPendingMapping gen0) (\<lambda>gen.
       Inr (\<lparr>rs_Version = 3, rs_File = g_file gen, rs_SourceRoot = g_sourceRoot gen, rs_Sources = g_sources gen,
             rs_Names = g_names gen, rs_Mappings = g_mappings gen, rs_SourcesContent = g_sourcesContent gen\<rparr>, gen))"

end
