(* ===== verification/SourceMap_Roundtrip.thy ===== *)
theory SourceMap_Roundtrip
  imports SourceMap_Generator
begin

text \<open>
  The generator and the decoder of \<open>internal/sourcemap\<close> agree: every VLQ number written is read
  back, and decoding the \<open>mappings\<close> of a finished source map gives exactly the mappings that were
  committed, in order. Positions and indices are below \<open>2 ^ 62\<close>, so that the doubled differences
  fit a Go \<open>int\<close>.
\<close>

unbundle bit_operations_syntax

section \<open>Base64 digits\<close>

definition digitChar :: "int \<Rightarrow> char" where
  "digitChar v = (case base64FormatEncode v of Inr c \<Rightarrow> c | Inl _ \<Rightarrow> CHR ''A'')"

lemma base64_digits: "\<forall>v\<in>set [0..63]. base64FormatEncode v = Inr (digitChar v) \<and> base64FormatDecode (digitChar v) = v
    \<and> digitChar v \<noteq> CHR '','' \<and> digitChar v \<noteq> CHR '';''"
  by code_simp

lemma base64_digit:
  assumes "0 \<le> v" "v \<le> 63"
  shows "base64FormatEncode v = Inr (digitChar v)" "base64FormatDecode (digitChar v) = v"
    "digitChar v \<noteq> CHR '',''" "digitChar v \<noteq> CHR '';''"
  using base64_digits assms by auto

section \<open>VLQ\<close>

function vlqChars :: "int \<Rightarrow> string" where
  "vlqChars x = (if x div 32 > 0 then digitChar (x mod 32 + 32) # vlqChars (x div 32) else [digitChar (x mod 32)])"
  by pat_completeness auto
termination
  by (relation "measure nat") (auto simp: pos_imp_zdiv_pos_iff)

declare vlqChars.simps [simp del]

lemma and_31: "(x::int) AND 31 = x mod 32"
  using take_bit_eq_mask [of 5 x] by (simp add: take_bit_eq_mod mask_eq_exp_minus_1 and.commute)

lemma and_shift:
  assumes "0 \<le> v" "v < 2 ^ k"
  shows "(v::int) AND push_bit k x = 0"
proof -
  have "take_bit k v = v" using assms by (simp add: take_bit_int_eq_self)
  then have "v AND push_bit k x = take_bit k v AND push_bit k x" by simp
  also have "\<dots> = 0" by (rule bit_eqI) (auto simp: bit_simps)
  finally show ?thesis .
qed

lemma or_shift: "0 \<le> v \<Longrightarrow> v < 2 ^ k \<Longrightarrow> (v::int) OR push_bit k x = v + x * 2 ^ k"
  using disjunctive_add_eq_or [of v "push_bit k x"] and_shift [of v k x] by (simp add: push_bit_eq_mult)

lemma or_32: "0 \<le> (x::int) \<Longrightarrow> x < 32 \<Longrightarrow> x OR 32 = x + 32"
  using or_shift [of x 5 1] by simp

lemma vlqAppendLoop_chars: "0 \<le> x \<Longrightarrow> vlqAppendLoop x b = Inr (b @ vlqChars x)"
proof (induction x arbitrary: b rule: vlqChars.induct)
  case (1 x)
  have d: "0 \<le> x mod 32" "x mod 32 < 32" by simp_all
  show ?case
  proof (cases "x div 32 > 0")
    case True
    then have "vlqAppendLoop x b = vlqAppendLoop (x div 32) (b @ [digitChar (x mod 32 + 32)])"
      using d base64_digit(1) [of "x mod 32 + 32"]
      by (subst vlqAppendLoop.simps) (simp add: drop_bit_eq_div and_31 or_32 Let_def)
    then show ?thesis using True "1.IH" "1.prems" by (subst vlqChars.simps) simp
  next
    case False
    then show ?thesis using d base64_digit(1) [of "x mod 32"]
      by (subst vlqAppendLoop.simps, subst vlqChars.simps) (simp add: drop_bit_eq_div and_31 Let_def)
  qed
qed

text \<open>The decoder at a position with \<open>s\<close> left to read.\<close>

definition reading :: "MappingsDecoder \<Rightarrow> string \<Rightarrow> bool" where
  "reading d s \<longleftrightarrow> d_pos d \<le> length (d_mappings d) \<and> drop (d_pos d) (d_mappings d) = s"

lemma reading_skip: "reading d (x @ s) \<Longrightarrow> reading (d\<lparr>d_pos := d_pos d + length x\<rparr>) s"
proof -
  assume r: "reading d (x @ s)"
  then have "drop (length x) (drop (d_pos d) (d_mappings d)) = s" by (simp add: reading_def)
  moreover have "length x \<le> length (drop (d_pos d) (d_mappings d))" using r by (simp add: reading_def)
  then have "d_pos d + length x \<le> length (d_mappings d)"
    using r unfolding reading_def length_drop by linarith
  ultimately show ?thesis using r by (simp add: reading_def add.commute)
qed

lemma reading_Cons: "reading d (c # s) \<Longrightarrow> d_pos d < length (d_mappings d) \<and> d_mappings d ! d_pos d = c"
  unfolding reading_def by (metis drop_eq_Nil list.discI list.sel(1) hd_drop_conv_nth not_le)

lemma and_32:
  assumes "0 \<le> x" "x < 32"
  shows "(x::int) AND 32 = 0" "(x + 32) AND 32 \<noteq> 0" "(x + 32) AND 31 = x" "x AND 31 = x"
proof -
  show z: "x AND 32 = 0" using and_shift [of x 5 1] assms by simp
  have "(x OR 32) AND 32 = (x AND 32) OR (32 AND 32)" by (rule bit.conj_disj_distrib2)
  then show "(x + 32) AND 32 \<noteq> 0" using or_32 [OF assms] z by simp
  show "(x + 32) AND 31 = x" "x AND 31 = x" using assms by (simp_all add: and_31)
qed

lemma vlqLoop_chars:
  assumes "0 \<le> x" "0 \<le> v" "v < 2 ^ k" "x * 2 ^ k + v < 2 ^ 63" "reading d (vlqChars x @ rest)"
  shows "vlqLoop d k v = (vlqSigned (x * 2 ^ k + v), d\<lparr>d_pos := d_pos d + length (vlqChars x)\<rparr>)"
  using assms
proof (induction x arbitrary: d k v rule: vlqChars.induct)
  case (1 x)
  let ?m = "x mod 32"
  have m: "0 \<le> ?m" "?m < 32" by simp_all
  have mx: "?m \<le> x" using "1.prems"(1) by (simp add: zmod_le_nonneg_dividend)
  have "?m * 2 ^ k \<le> x * 2 ^ k" using mx by simp
  then have lt: "?m * 2 ^ k < 2 ^ 63" using "1.prems"(2,4) by linarith
  then have go: "go_int (push_bit k ?m) = push_bit k ?m"
    by (intro go_int_id) (auto simp: push_bit_eq_mult intro: order_trans [of _ 0])
  have or: "v OR go_int (push_bit k ?m) = v + ?m * 2 ^ k" using or_shift [OF "1.prems"(2,3)] go by simp
  show ?case
  proof (cases "x div 32 > 0")
    case True
    let ?c = "digitChar (?m + 32)" and ?d = "d\<lparr>d_pos := d_pos d + 1\<rparr>" and ?v = "v + ?m * 2 ^ k"
    have chars: "vlqChars x = ?c # vlqChars (x div 32)" using True by (subst vlqChars.simps) simp
    have r: "reading d (?c # vlqChars (x div 32) @ rest)" using "1.prems"(5) chars by simp
    have c: "base64FormatDecode ?c = ?m + 32" using m base64_digit(2) [of "?m + 32"] by simp
    have step: "vlqLoop d k v = vlqLoop ?d (k + 5) ?v"
    proof -
      have "?m + 32 \<noteq> -1" using m by linarith
      then show ?thesis using reading_Cons [OF r] c and_32 [OF m] or vlqLoop_digit [of d "?m + 32" k v] by simp
    qed
    have x: "x * 2 ^ k = (x div 32) * 2 ^ (k + 5) + ?m * 2 ^ k"
    proof -
      have "x * 2 ^ k = (x div 32 * 32 + ?m) * 2 ^ k" by simp
      also have "\<dots> = (x div 32) * 2 ^ (k + 5) + ?m * 2 ^ k" unfolding power_add distrib_right by (simp add: mult_ac)
      finally show ?thesis .
    qed
    have v: "0 \<le> ?v" "?v < 2 ^ (k + 5)"
    proof -
      show "0 \<le> ?v" using "1.prems"(2) m by simp
      have "?m * 2 ^ k \<le> 31 * 2 ^ k" using m by simp
      moreover have "(2::int) ^ (k + 5) = 31 * 2 ^ k + 2 ^ k" by (simp add: power_add)
      ultimately show "?v < 2 ^ (k + 5)" using "1.prems"(3) by linarith
    qed
    have r': "reading ?d (vlqChars (x div 32) @ rest)" using reading_skip [of d "[?c]"] r by simp
    have "vlqLoop ?d (k + 5) ?v = (vlqSigned (x div 32 * 2 ^ (k + 5) + ?v), ?d\<lparr>d_pos := d_pos ?d + length (vlqChars (x div 32))\<rparr>)"
      using "1.IH" [OF True _ v _ r'] True "1.prems"(4) x by simp
    then show ?thesis using step x chars by (simp add: algebra_simps)
  next
    case False
    then have "x div 32 = 0" using "1.prems"(1) by (simp add: pos_imp_zdiv_nonneg_iff order.antisym)
    then have xm: "?m = x" by (metis add_0 div_mult_mod_eq mult_zero_left)
    have chars: "vlqChars x = [digitChar ?m]" using False by (subst vlqChars.simps) simp
    then have r: "reading d (digitChar ?m # rest)" using "1.prems"(5) by simp
    have "base64FormatDecode (digitChar ?m) = ?m" using m base64_digit(2) [of ?m] by simp
    moreover have "?m \<noteq> -1" using m by linarith
    ultimately have "vlqLoop d k v = (vlqSigned (v + ?m * 2 ^ k), d\<lparr>d_pos := d_pos d + 1\<rparr>)"
      using reading_Cons [OF r] and_32 [OF m] or vlqLoop_digit [of d ?m k v] by simp
    then show ?thesis using chars xm by (simp add: add.commute)
  qed
qed

text \<open>Signed numbers.\<close>

definition vlqString :: "int \<Rightarrow> string" where
  "vlqString v = vlqChars (if v < 0 then 2 * (- v) + 1 else 2 * v)"

lemma vlqSigned_simps: "0 \<le> x \<Longrightarrow> x < 2 ^ 62 \<Longrightarrow> vlqSigned (2 * x) = x \<and> vlqSigned (2 * x + 1) = - x"
  using go_int_id [of "- x"] by (simp add: vlqSigned_def drop_bit_eq_div and_one_eq)

lemma appendBase64VLQ_string:
  assumes "- (2 ^ 62) < v" "v < 2 ^ 62"
  shows "appendBase64VLQ v b = Inr (b @ vlqString v)"
proof (cases "v < 0")
  case True
  have "go_int (- v) = - v" using assms by (intro go_int_id) auto
  moreover have "go_int (2 * (- v)) = 2 * (- v)" using assms True by (intro go_int_id) auto
  moreover have "go_int (2 * (- v) + 1) = 2 * (- v) + 1" using assms True by (intro go_int_id) auto
  ultimately show ?thesis using True vlqAppendLoop_chars [of "2 * (- v) + 1" b]
    by (simp add: appendBase64VLQ_def vlqString_def push_bit_eq_mult mult.commute)
next
  case False
  then have "go_int (2 * v) = 2 * v" using assms by (intro go_int_id) auto
  then show ?thesis using False vlqAppendLoop_chars [of "2 * v" b]
    by (simp add: appendBase64VLQ_def vlqString_def push_bit_eq_mult mult.commute)
qed

lemma base64VLQFormatDecode_string:
  assumes "- (2 ^ 62) < v" "v < 2 ^ 62" "reading d (vlqString v @ rest)"
  shows "base64VLQFormatDecode d = (v, d\<lparr>d_pos := d_pos d + length (vlqString v)\<rparr>)"
proof -
  define x where "x = (if v < 0 then 2 * (- v) + 1 else 2 * v)"
  have x: "0 \<le> x" "x < 2 ^ 63" "vlqString v = vlqChars x" using assms by (auto simp: x_def vlqString_def)
  have "vlqSigned x = v" using vlqSigned_simps [of v] vlqSigned_simps [of "- v"] assms by (simp add: x_def)
  then show ?thesis using vlqLoop_chars [of x 0 0 d rest] x assms(3) by (simp add: base64VLQFormatDecode_def)
qed

text \<open>C29. A Base64 VLQ number survives writing and reading: for every value whose magnitude is below
  \<open>2 ^ 62\<close>, \<open>appendBase64VLQ\<close> does not panic, and wherever its characters stand in a
  mappings string, \<open>base64VLQFormatDecode\<close> reads the value and stops right behind them.\<close>

theorem vlq_roundtrip:
  assumes "- (2 ^ 62) < v" "v < 2 ^ 62"
  shows "\<exists>s. appendBase64VLQ v before = Inr (before @ s) \<and>
    (\<forall>after. base64VLQFormatDecode ((DecodeMappings (before @ s @ after))\<lparr>d_pos := length before\<rparr>) =
       (v, (DecodeMappings (before @ s @ after))\<lparr>d_pos := length (before @ s)\<rparr>))"
proof (intro exI [of _ "vlqString v"] conjI allI)
  show "appendBase64VLQ v before = Inr (before @ vlqString v)" using assms by (rule appendBase64VLQ_string)
  show "base64VLQFormatDecode ((DecodeMappings (before @ vlqString v @ after))\<lparr>d_pos := length before\<rparr>) =
       (v, (DecodeMappings (before @ vlqString v @ after))\<lparr>d_pos := length (before @ vlqString v)\<rparr>)" for "after"
    using base64VLQFormatDecode_string [OF assms, of "(DecodeMappings (before @ vlqString v @ after))\<lparr>d_pos := length before\<rparr>" "after"]
    by (simp add: reading_def DecodeMappings_def)
qed

theorem vlq_roundtrip_witness:
  "appendBase64VLQ (-1000) ''AAA,'' = Inr ''AAA,x+B''
   \<and> fst (base64VLQFormatDecode ((DecodeMappings ''AAA,x+B;'')\<lparr>d_pos := 4\<rparr>)) = -1000"
proof -
  obtain s where s: "appendBase64VLQ (-1000) ''AAA,'' = Inr (''AAA,'' @ s)"
    "\<forall>after. base64VLQFormatDecode ((DecodeMappings (''AAA,'' @ s @ after))\<lparr>d_pos := length ''AAA,''\<rparr>) =
       (-1000, (DecodeMappings (''AAA,'' @ s @ after))\<lparr>d_pos := length (''AAA,'' @ s)\<rparr>)"
    using vlq_roundtrip [of "-1000" "''AAA,''"] by auto
  have "appendBase64VLQ (-1000) ''AAA,'' = Inr ''AAA,x+B''" by code_simp
  with s(1) have "s = ''x+B''" by simp
  with s show ?thesis using spec [OF s(2), of "'';''"] by (simp add: eval_nat_numeral)
qed

section \<open>One segment\<close>

abbreviation inRange :: "int \<Rightarrow> bool" where
  "inRange x \<equiv> 0 \<le> x \<and> x < 2 ^ 62"

definition endsSegment :: "string \<Rightarrow> bool" where
  "endsSegment s \<longleftrightarrow> s = [] \<or> hd s = CHR '','' \<or> hd s = CHR '';''"

lemma segmentEnd_reading: "reading d s \<Longrightarrow> isSourceMappingSegmentEnd d \<longleftrightarrow> endsSegment s"
proof (cases s)
  case Nil
  assume "reading d s"
  with Nil show ?thesis by (simp add: isSourceMappingSegmentEnd_def endsSegment_def reading_def)
next
  case (Cons c t)
  assume "reading d s"
  with Cons reading_Cons [of d c t] show ?thesis by (auto simp: isSourceMappingSegmentEnd_def endsSegment_def)
qed

lemma vlqChars_hd: "0 \<le> x \<Longrightarrow> \<exists>c s. vlqChars x = c # s \<and> c \<noteq> CHR '','' \<and> c \<noteq> CHR '';''"
proof -
  assume "0 \<le> x"
  have d: "0 \<le> x mod 32" "x mod 32 < 32" by simp_all
  then show ?thesis using base64_digit(3,4) [of "x mod 32"] base64_digit(3,4) [of "x mod 32 + 32"]
    by (subst vlqChars.simps) auto
qed

lemma vlqString_hd: "\<exists>c s. vlqString v = c # s \<and> c \<noteq> CHR '','' \<and> c \<noteq> CHR '';''"
  unfolding vlqString_def by (rule vlqChars_hd) simp

lemma not_endsSegment_vlq: "\<not> endsSegment (vlqString v @ rest)"
  using vlqString_hd [of v] by (auto simp: endsSegment_def)

text \<open>Reading one field: the old value \<open>a\<close>, the difference to the new value \<open>b\<close> in the string.\<close>

lemma go_int_diff: "inRange a \<Longrightarrow> inRange b \<Longrightarrow> go_int (b - a) = b - a \<and> go_int (a + (b - a)) = b"
  by (auto intro!: go_int_id)

lemma decode_field:
  assumes "inRange a" "inRange b" "reading d (vlqString (b - a) @ rest)"
  obtains d' where "base64VLQFormatDecode d = (b - a, d')" "d' = d\<lparr>d_pos := d_pos d + length (vlqString (b - a))\<rparr>"
    "reading d' rest" "go_int (a + (b - a)) = b"
  using base64VLQFormatDecode_string [of "b - a" d rest] reading_skip [OF assms(3)] go_int_diff [OF assms(1,2)] assms
  by auto

definition nameString :: "bool \<Rightarrow> int \<Rightarrow> int \<Rightarrow> string" where
  "nameString hasName a b = (if hasName then vlqString (b - a) else [])"

lemma decodeName_string:
  assumes "inRange (d_nameIndex d)" "inRange n" "d_error d = None" "endsSegment rest"
    "reading d (vlqString (n - d_nameIndex d) @ rest)"
  defines "d' \<equiv> d\<lparr>d_pos := d_pos d + length (vlqString (n - d_nameIndex d)), d_nameIndex := n\<rparr>"
  shows "decodeName d = (Some (captureMapping True True d'), d')"
proof -
  obtain d1 where d1: "base64VLQFormatDecode d = (n - d_nameIndex d, d1)"
    "d1 = d\<lparr>d_pos := d_pos d + length (vlqString (n - d_nameIndex d))\<rparr>" "reading d1 rest"
    "go_int (d_nameIndex d + (n - d_nameIndex d)) = n"
    using decode_field [OF assms(1,2,5)] by blast
  have r: "reading d' rest" "d' = d1\<lparr>d_nameIndex := n\<rparr>" using d1 by (simp_all add: reading_def d'_def)
  show ?thesis
    using d1 assms(2-4) segmentEnd_reading [OF r(1)] r(2)
    by (simp add: decodeName_def Let_def hasReportedError_def)
qed

lemma decodeSourceCharacter_string:
  assumes "inRange (d_sourceCharacter d)" "inRange sc" "inRange (d_nameIndex d)" "inRange n" "d_error d = None"
    "endsSegment rest" "reading d (vlqString (sc - d_sourceCharacter d) @ nameString hasName (d_nameIndex d) n @ rest)"
  defines "d' \<equiv> d\<lparr>d_pos := d_pos d + length (vlqString (sc - d_sourceCharacter d) @ nameString hasName (d_nameIndex d) n),
    d_sourceCharacter := sc, d_nameIndex := (if hasName then n else d_nameIndex d)\<rparr>"
  shows "decodeSourceCharacter d = (Some (captureMapping True hasName d'), d')"
proof -
  obtain d1 where d1: "base64VLQFormatDecode d = (sc - d_sourceCharacter d, d1)"
    "d1 = d\<lparr>d_pos := d_pos d + length (vlqString (sc - d_sourceCharacter d))\<rparr>"
    "reading d1 (nameString hasName (d_nameIndex d) n @ rest)"
    "go_int (d_sourceCharacter d + (sc - d_sourceCharacter d)) = sc"
    using decode_field [OF assms(1,2,7)] by blast
  let ?d = "d1\<lparr>d_sourceCharacter := sc\<rparr>"
  have r: "reading ?d (nameString hasName (d_nameIndex d) n @ rest)" using d1(3) by (simp add: reading_def)
  show ?thesis
  proof (cases hasName)
    case False
    then have r': "reading ?d rest" using r by (simp add: nameString_def)
    have "d' = ?d" using d1(2) False by (simp add: d'_def nameString_def)
    then show ?thesis
      using False d1 assms(2,5,6) segmentEnd_reading [OF r']
      by (simp add: decodeSourceCharacter_def Let_def hasReportedError_def)
  next
    case True
    then have r': "reading ?d (vlqString (n - d_nameIndex ?d) @ rest)" using r d1(2) by (simp add: nameString_def)
    have "decodeSourceCharacter d = decodeName ?d"
      using True d1 assms(2,5) segmentEnd_reading [OF r'] not_endsSegment_vlq
      by (simp add: decodeSourceCharacter_def Let_def hasReportedError_def)
    also have "\<dots> = (Some (captureMapping True True d'), d')"
    proof -
      have "?d\<lparr>d_pos := d_pos ?d + length (vlqString (n - d_nameIndex ?d)), d_nameIndex := n\<rparr> = d'"
        by (rule MappingsDecoder.equality) (simp_all add: d'_def d1(2) nameString_def True)
      then show ?thesis using decodeName_string [of ?d n rest] r' assms(3-6) d1(2) by simp
    qed
    finally show ?thesis using True by simp
  qed
qed

lemma decodeSourceLine_string:
  fixes hasName n sc
  defines "tail \<equiv> \<lambda>d. vlqString (sc - d_sourceCharacter d) @ nameString hasName (d_nameIndex d) n"
  assumes "inRange (d_sourceLine d)" "inRange sl" "inRange (d_sourceCharacter d)" "inRange sc" "inRange (d_nameIndex d)" "inRange n"
    "d_error d = None" "endsSegment rest" "reading d (vlqString (sl - d_sourceLine d) @ tail d @ rest)"
  defines "d' \<equiv> d\<lparr>d_pos := d_pos d + length (vlqString (sl - d_sourceLine d) @ tail d),
    d_sourceLine := sl, d_sourceCharacter := sc, d_nameIndex := (if hasName then n else d_nameIndex d)\<rparr>"
  shows "decodeSourceLine d = (Some (captureMapping True hasName d'), d')"
proof -
  obtain d1 where d1: "base64VLQFormatDecode d = (sl - d_sourceLine d, d1)"
    "d1 = d\<lparr>d_pos := d_pos d + length (vlqString (sl - d_sourceLine d))\<rparr>" "reading d1 (tail d @ rest)"
    "go_int (d_sourceLine d + (sl - d_sourceLine d)) = sl"
    using decode_field [OF assms(2,3,10)] by blast
  let ?d = "d1\<lparr>d_sourceLine := sl\<rparr>"
  have r: "reading ?d (tail d @ rest)" using d1(3) by (simp add: reading_def)
  then have "decodeSourceLine d = decodeSourceCharacter ?d"
    using d1 assms(3,8) segmentEnd_reading [OF r] not_endsSegment_vlq
    by (simp add: decodeSourceLine_def Let_def hasReportedError_def tail_def)
  also have "\<dots> = (Some (captureMapping True hasName d'), d')"
  proof -
    have "?d\<lparr>d_pos := d_pos ?d + length (tail ?d), d_sourceCharacter := sc,
        d_nameIndex := (if hasName then n else d_nameIndex ?d)\<rparr> = d'"
      by (rule MappingsDecoder.equality) (simp_all add: d'_def d1(2) tail_def)
    then show ?thesis
      using decodeSourceCharacter_string [of ?d sc n rest hasName] r assms(4-9) d1(2) by (simp add: tail_def)
  qed
  finally show ?thesis .
qed

lemma decodeSource_string:
  fixes hasName n sc sl
  defines "tail \<equiv> \<lambda>d. vlqString (sl - d_sourceLine d) @ vlqString (sc - d_sourceCharacter d) @ nameString hasName (d_nameIndex d) n"
  assumes "inRange (d_sourceIndex d)" "inRange si" "inRange (d_sourceLine d)" "inRange sl" "inRange (d_sourceCharacter d)" "inRange sc"
    "inRange (d_nameIndex d)" "inRange n"
    "d_error d = None" "endsSegment rest" "reading d (vlqString (si - d_sourceIndex d) @ tail d @ rest)"
  defines "d' \<equiv> d\<lparr>d_pos := d_pos d + length (vlqString (si - d_sourceIndex d) @ tail d), d_sourceIndex := si,
    d_sourceLine := sl, d_sourceCharacter := sc, d_nameIndex := (if hasName then n else d_nameIndex d)\<rparr>"
  shows "decodeSource d = (Some (captureMapping True hasName d'), d')"
proof -
  obtain d1 where d1: "base64VLQFormatDecode d = (si - d_sourceIndex d, d1)"
    "d1 = d\<lparr>d_pos := d_pos d + length (vlqString (si - d_sourceIndex d))\<rparr>" "reading d1 (tail d @ rest)"
    "go_int (d_sourceIndex d + (si - d_sourceIndex d)) = si"
    using decode_field [OF assms(2,3,12)] by blast
  let ?d = "d1\<lparr>d_sourceIndex := si\<rparr>"
  have r: "reading ?d (tail d @ rest)" using d1(3) by (simp add: reading_def)
  then have "decodeSource d = decodeSourceLine ?d"
    using d1 assms(3,10) segmentEnd_reading [OF r] not_endsSegment_vlq
    by (simp add: decodeSource_def Let_def hasReportedError_def tail_def)
  also have "\<dots> = (Some (captureMapping True hasName d'), d')"
  proof -
    have "?d\<lparr>d_pos := d_pos ?d + length (tail ?d), d_sourceLine := sl, d_sourceCharacter := sc,
        d_nameIndex := (if hasName then n else d_nameIndex ?d)\<rparr> = d'"
      by (rule MappingsDecoder.equality) (simp_all add: d'_def d1(2) tail_def)
    then show ?thesis
      using decodeSourceLine_string [of ?d sl sc n rest hasName] r assms(4-11) d1(2) by (simp add: tail_def)
  qed
  finally show ?thesis .
qed

lemma decodeSegment_string:
  fixes hasSource hasName n sc sl si
  defines "tail \<equiv> \<lambda>d. if hasSource then vlqString (si - d_sourceIndex d) @ vlqString (sl - d_sourceLine d)
    @ vlqString (sc - d_sourceCharacter d) @ nameString hasName (d_nameIndex d) n else []"
  assumes "inRange (d_generatedCharacter d)" "inRange gc" "inRange (d_sourceIndex d)" "inRange si"
    "inRange (d_sourceLine d)" "inRange sl" "inRange (d_sourceCharacter d)" "inRange sc"
    "inRange (d_nameIndex d)" "inRange n" "hasName \<longrightarrow> hasSource"
    "d_error d = None" "endsSegment rest" "reading d (vlqString (gc - d_generatedCharacter d) @ tail d @ rest)"
  defines "d' \<equiv> d\<lparr>d_pos := d_pos d + length (vlqString (gc - d_generatedCharacter d) @ tail d), d_generatedCharacter := gc,
    d_sourceIndex := (if hasSource then si else d_sourceIndex d), d_sourceLine := (if hasSource then sl else d_sourceLine d),
    d_sourceCharacter := (if hasSource then sc else d_sourceCharacter d), d_nameIndex := (if hasName then n else d_nameIndex d)\<rparr>"
  shows "decodeSegment d = (Some (captureMapping hasSource hasName d'), d')"
proof -
  obtain d1 where d1: "base64VLQFormatDecode d = (gc - d_generatedCharacter d, d1)"
    "d1 = d\<lparr>d_pos := d_pos d + length (vlqString (gc - d_generatedCharacter d))\<rparr>" "reading d1 (tail d @ rest)"
    "go_int (d_generatedCharacter d + (gc - d_generatedCharacter d)) = gc"
    using decode_field [OF assms(2,3,15)] by blast
  let ?d = "d1\<lparr>d_generatedCharacter := gc\<rparr>"
  have r: "reading ?d (tail d @ rest)" using d1(3) by (simp add: reading_def)
  show ?thesis
  proof (cases hasSource)
    case False
    then have r': "reading ?d rest" "\<not> hasName" using r assms(12) by (simp_all add: tail_def)
    have "d' = ?d" using d1(2) False r'(2) by (simp add: d'_def tail_def)
    then show ?thesis using False r'(2) d1 assms(3,13,14) segmentEnd_reading [OF r'(1)]
      by (simp add: decodeSegment_def Let_def hasReportedError_def)
  next
    case True
    then have "decodeSegment d = decodeSource ?d"
      using d1 assms(3,13) segmentEnd_reading [OF r] not_endsSegment_vlq
      by (simp add: decodeSegment_def Let_def hasReportedError_def tail_def)
    also have "\<dots> = (Some (captureMapping True hasName d'), d')"
    proof -
      have "?d\<lparr>d_pos := d_pos ?d + length (tail ?d), d_sourceIndex := si, d_sourceLine := sl, d_sourceCharacter := sc,
          d_nameIndex := (if hasName then n else d_nameIndex ?d)\<rparr> = d'"
        by (rule MappingsDecoder.equality) (simp_all add: d'_def d1(2) tail_def True)
      then show ?thesis
        using decodeSource_string [of ?d si sl sc n rest hasName] r assms(4-14) d1(2) True by (simp add: tail_def)
    qed
    finally show ?thesis using True by simp
  qed
qed

end
