(* ===== verification/SourceMap_Correct.thy ===== *)
theory SourceMap_Correct
  imports SourceMap_Roundtrip
begin

text \<open>
  Correctness of the source map generator: an invariant that every operation keeps, under which no
  commit panics, and which says that the text written so far decodes to the mappings committed so
  far. The round trip of a whole run and the tables of sources and names follow.
\<close>

section \<open>Committing a mapping\<close>

definition genBounds :: "Generator \<Rightarrow> bool" where
  "genBounds g \<longleftrightarrow> inRange (g_lastGeneratedLine g) \<and> inRange (g_lastGeneratedCharacter g)
     \<and> inRange (g_lastSourceIndex g) \<and> inRange (g_lastSourceLine g) \<and> inRange (g_lastSourceCharacter g)
     \<and> inRange (g_lastNameIndex g) \<and> inRange (g_pendingGeneratedLine g) \<and> inRange (g_pendingGeneratedCharacter g)
     \<and> inRange (g_pendingSourceIndex g) \<and> inRange (g_pendingSourceLine g) \<and> inRange (g_pendingSourceCharacter g)
     \<and> inRange (g_pendingNameIndex g)"

definition genFlags :: "Generator \<Rightarrow> bool" where
  "genFlags g \<longleftrightarrow> g_lastGeneratedLine g \<le> g_pendingGeneratedLine g
     \<and> (g_hasPendingName g \<longrightarrow> g_hasPendingSource g) \<and> (g_hasPendingSource g \<longrightarrow> g_hasPending g)
     \<and> (g_hasLast g \<longrightarrow> g_hasPending g)
     \<and> (\<not> g_hasPendingSource g \<longrightarrow> g_pendingSourceIndex g = g_lastSourceIndex g
          \<and> g_pendingSourceLine g = g_lastSourceLine g \<and> g_pendingSourceCharacter g = g_lastSourceCharacter g)
     \<and> (\<not> g_hasPendingName g \<longrightarrow> g_pendingNameIndex g = g_lastNameIndex g)"

definition pendingMapping :: "Generator \<Rightarrow> Mapping" where
  "pendingMapping g =
     \<lparr>GeneratedLine = g_pendingGeneratedLine g, GeneratedCharacter = g_pendingGeneratedCharacter g,
      SourceIndex = (if g_hasPendingSource g then g_pendingSourceIndex g else MissingSource),
      SourceLine = (if g_hasPendingSource g then g_pendingSourceLine g else MissingLineOrColumn),
      SourceCharacter = (if g_hasPendingSource g then g_pendingSourceCharacter g else MissingUTF16Column),
      NameIndex = (if g_hasPendingName g then g_pendingNameIndex g else MissingName)\<rparr>"

definition delimiters :: "Generator \<Rightarrow> string" where
  "delimiters g = (if g_lastGeneratedLine g < g_pendingGeneratedLine g
     then replicate (nat (g_pendingGeneratedLine g - g_lastGeneratedLine g)) CHR '';''
     else if g_hasLast g then '','' else [])"

definition lastColumn :: "Generator \<Rightarrow> int" where
  "lastColumn g = (if g_lastGeneratedLine g < g_pendingGeneratedLine g then 0 else g_lastGeneratedCharacter g)"

definition segment :: "Generator \<Rightarrow> string" where
  "segment g = vlqString (g_pendingGeneratedCharacter g - lastColumn g) @
     (if g_hasPendingSource g
      then vlqString (g_pendingSourceIndex g - g_lastSourceIndex g) @ vlqString (g_pendingSourceLine g - g_lastSourceLine g)
        @ vlqString (g_pendingSourceCharacter g - g_lastSourceCharacter g)
        @ nameString (g_hasPendingName g) (g_lastNameIndex g) (g_pendingNameIndex g)
      else [])"

definition committed :: "Generator \<Rightarrow> Generator" where
  "committed g = g\<lparr>g_mappings := g_mappings g @ delimiters g @ segment g,
     g_lastGeneratedLine := g_pendingGeneratedLine g, g_lastGeneratedCharacter := g_pendingGeneratedCharacter g,
     g_lastSourceIndex := g_pendingSourceIndex g, g_lastSourceLine := g_pendingSourceLine g,
     g_lastSourceCharacter := g_pendingSourceCharacter g, g_lastNameIndex := g_pendingNameIndex g, g_hasLast := True\<rparr>"

lemma lineDelimiters_eq:
  "a < p \<Longrightarrow> lineDelimiters a p b = (p, b @ replicate (nat (p - a)) CHR '';'')"
proof (induction a p b rule: lineDelimiters.induct)
  case (1 a p b)
  show ?case
  proof (cases "a + 1 \<ge> p")
    case True
    then have "p = a + 1" using "1.prems" by simp
    then show ?thesis by (subst lineDelimiters.simps) simp
  next
    case False
    then have "nat (p - a) = Suc (nat (p - (a + 1)))" using "1.prems" by simp
    then show ?thesis using "1.IH" False by (subst lineDelimiters.simps) simp
  qed
qed

lemma writeDelimiters_eq:
  assumes "g_lastGeneratedLine g \<le> g_pendingGeneratedLine g"
  shows "writeDelimiters g = Inr (g\<lparr>g_mappings := g_mappings g @ delimiters g,
    g_lastGeneratedLine := g_pendingGeneratedLine g, g_lastGeneratedCharacter := lastColumn g\<rparr>)"
  using assms
  by (cases "g_lastGeneratedLine g < g_pendingGeneratedLine g")
    (auto simp: writeDelimiters_def lineDelimiters_eq delimiters_def lastColumn_def Let_def intro!: Generator.equality)

lemma append_diff:
  "inRange a \<Longrightarrow> inRange b \<Longrightarrow> appendBase64VLQ (go_int (b - a)) s = Inr (s @ vlqString (b - a))"
  using go_int_diff [of a b] by (simp add: appendBase64VLQ_string)

lemma writeName_eq:
  assumes "inRange (g_pendingNameIndex g)" "inRange (g_lastNameIndex g)"
    "\<not> g_hasPendingName g \<longrightarrow> g_pendingNameIndex g = g_lastNameIndex g"
  shows "writeName g = Inr (g\<lparr>g_mappings := g_mappings g @ nameString (g_hasPendingName g) (g_lastNameIndex g) (g_pendingNameIndex g),
    g_lastNameIndex := g_pendingNameIndex g\<rparr>)"
  using assms by (auto simp: writeName_def nameString_def append_diff intro!: Generator.equality)

lemma commitPendingMapping_eq:
  assumes "genBounds g" "genFlags g" "shouldCommitMapping g"
  shows "commitPendingMapping g = Inr (committed g)"
proof -
  have b: "inRange (lastColumn g)" using assms(1) by (simp add: genBounds_def lastColumn_def)
  let ?g1 = "g\<lparr>g_mappings := g_mappings g @ delimiters g, g_lastGeneratedLine := g_pendingGeneratedLine g,
    g_lastGeneratedCharacter := lastColumn g\<rparr>"
  let ?g2 = "?g1\<lparr>g_mappings := g_mappings ?g1 @ vlqString (g_pendingGeneratedCharacter g - lastColumn g),
    g_lastGeneratedCharacter := g_pendingGeneratedCharacter g\<rparr>"
  have "writeSource ?g2 = Inr (?g2\<lparr>g_mappings := g_mappings g @ delimiters g @ segment g,
      g_lastSourceIndex := g_pendingSourceIndex g, g_lastSourceLine := g_pendingSourceLine g,
      g_lastSourceCharacter := g_pendingSourceCharacter g, g_lastNameIndex := g_pendingNameIndex g\<rparr>)"
  proof (cases "g_hasPendingSource g")
    case True
    then show ?thesis using assms(1,2)
      by (auto simp: writeSource_def genBounds_def genFlags_def append_diff writeName_eq segment_def
          intro!: Generator.equality)
  next
    case False
    then show ?thesis using assms(2)
      by (auto simp: writeSource_def genFlags_def segment_def intro!: Generator.equality)
  qed
  moreover have "appendBase64VLQ (go_int (g_pendingGeneratedCharacter g - lastColumn g)) s
      = Inr (s @ vlqString (g_pendingGeneratedCharacter g - lastColumn g))" for s
    using append_diff [OF b] assms(1) by (simp add: genBounds_def)
  moreover have "writeDelimiters g = Inr ?g1" using assms(2) by (intro writeDelimiters_eq) (simp add: genFlags_def)
  ultimately show ?thesis using assms(3)
    by (simp add: commitPendingMapping_def committed_def)
qed

section \<open>Decoding what was committed\<close>

text \<open>The decoder behind the text of \<open>g\<close>, with \<open>rest\<close> still to read.\<close>

definition decoderOf :: "Generator \<Rightarrow> string \<Rightarrow> MappingsDecoder" where
  "decoderOf g rest =
     \<lparr>d_mappings = g_mappings g @ rest, d_done = False, d_pos = length (g_mappings g),
      d_generatedLine = g_lastGeneratedLine g, d_generatedCharacter = g_lastGeneratedCharacter g,
      d_sourceIndex = g_lastSourceIndex g, d_sourceLine = g_lastSourceLine g,
      d_sourceCharacter = g_lastSourceCharacter g, d_nameIndex = g_lastNameIndex g, d_error = None\<rparr>"

lemma Next_line:
  "\<not> d_done d \<Longrightarrow> reading d (CHR '';'' # s) \<Longrightarrow> Next d =
     Next (d\<lparr>d_generatedLine := go_int (d_generatedLine d + 1), d_generatedCharacter := 0, d_pos := d_pos d + 1\<rparr>)"
  using reading_Cons [of d "CHR '';''" s] by (subst Next.simps) simp

lemma Next_comma: "\<not> d_done d \<Longrightarrow> reading d (CHR '','' # s) \<Longrightarrow> Next d = Next (d\<lparr>d_pos := d_pos d + 1\<rparr>)"
  using reading_Cons [of d "CHR '',''" s] by (subst Next.simps) simp

lemma Next_segment:
  "\<not> d_done d \<Longrightarrow> reading d (vlqString v @ s) \<Longrightarrow> Next d = decodeSegment d"
  using vlqString_hd [of v] reading_Cons [of d _ "_ @ s"] by (subst Next.simps) fastforce

lemma Next_lines:
  assumes "\<not> d_done d" "reading d (replicate (Suc n) CHR '';'' @ s)" "0 \<le> d_generatedLine d"
    "d_generatedLine d + int (Suc n) < 2 ^ 62"
  shows "Next d = Next (d\<lparr>d_generatedLine := d_generatedLine d + int (Suc n), d_generatedCharacter := 0, d_pos := d_pos d + Suc n\<rparr>)"
  using assms
proof (induction n arbitrary: d)
  case 0
  then show ?case using Next_line [of d s] go_int_id [of "d_generatedLine d + 1"] by simp
next
  case (Suc n)
  let ?d = "d\<lparr>d_generatedLine := d_generatedLine d + 1, d_generatedCharacter := 0, d_pos := d_pos d + 1\<rparr>"
  have "Next d = Next ?d"
    using Suc.prems Next_line [of d "replicate (Suc n) CHR '';'' @ s"] go_int_id [of "d_generatedLine d + 1"] by simp
  also have "\<dots> = Next (?d\<lparr>d_generatedLine := d_generatedLine ?d + int (Suc n), d_generatedCharacter := 0, d_pos := d_pos ?d + Suc n\<rparr>)"
    using Suc.prems reading_skip [of d "'';''" "replicate (Suc n) CHR '';'' @ s"]
    by (intro Suc.IH) (auto simp: reading_def)
  finally show ?case by (simp add: add.assoc)
qed

lemma Next_committed:
  assumes "genBounds g" "genFlags g" "endsSegment rest"
  shows "Next (decoderOf g (delimiters g @ segment g @ rest)) = (Some (pendingMapping g), decoderOf (committed g) rest)"
proof -
  let ?d = "decoderOf g (delimiters g @ segment g @ rest)"
  let ?d1 = "?d\<lparr>d_generatedLine := g_pendingGeneratedLine g, d_generatedCharacter := lastColumn g,
    d_pos := length (g_mappings g) + length (delimiters g)\<rparr>"
  have r: "reading ?d (delimiters g @ segment g @ rest)" by (simp add: reading_def decoderOf_def)
  have r1: "reading ?d1 (segment g @ rest)" by (simp add: reading_def decoderOf_def)
  obtain v s where seg: "segment g = vlqString v @ s" unfolding segment_def by blast
  have b: "inRange (g_lastGeneratedLine g)" "inRange (g_pendingGeneratedLine g)" "inRange (lastColumn g)"
    and le: "g_lastGeneratedLine g \<le> g_pendingGeneratedLine g"
    using assms by (simp_all add: genBounds_def genFlags_def lastColumn_def)
  have "Next ?d = Next ?d1"
  proof (cases "g_lastGeneratedLine g < g_pendingGeneratedLine g")
    case True
    then obtain n where n: "nat (g_pendingGeneratedLine g - g_lastGeneratedLine g) = Suc n" by (cases "nat (g_pendingGeneratedLine g - g_lastGeneratedLine g)") auto
    then have n': "g_lastGeneratedLine g + int (Suc n) = g_pendingGeneratedLine g" by linarith
    have del: "delimiters g = replicate (Suc n) CHR '';''" using True n by (simp add: delimiters_def)
    have "Next ?d = Next (?d\<lparr>d_generatedLine := d_generatedLine ?d + int (Suc n), d_generatedCharacter := 0, d_pos := d_pos ?d + Suc n\<rparr>)"
      using r del b n' by (intro Next_lines [of ?d n "segment g @ rest"]) (auto simp: decoderOf_def)
    then show ?thesis using n' True del by (simp add: decoderOf_def lastColumn_def)
  next
    case False
    then have eq: "g_lastGeneratedLine g = g_pendingGeneratedLine g" using le by simp
    show ?thesis
    proof (cases "g_hasLast g")
      case True
      then have "delimiters g = '',''" using False by (simp add: delimiters_def)
      then show ?thesis using Next_comma [of ?d "segment g @ rest"] r eq False by (simp add: decoderOf_def lastColumn_def)
    next
      case nl: False
      then have "delimiters g = []" using False by (simp add: delimiters_def)
      then show ?thesis using eq False by (simp add: decoderOf_def lastColumn_def)
    qed
  qed
  also have "\<dots> = decodeSegment ?d1" using Next_segment [of ?d1 v "s @ rest"] r1 seg by (simp add: decoderOf_def)
  also have "\<dots> = (Some (pendingMapping g), decoderOf (committed g) rest)"
  proof -
    define d1 where "d1 = ?d1"
    have f: "d_generatedCharacter d1 = lastColumn g" "d_sourceIndex d1 = g_lastSourceIndex g"
      "d_sourceLine d1 = g_lastSourceLine g" "d_sourceCharacter d1 = g_lastSourceCharacter g"
      "d_nameIndex d1 = g_lastNameIndex g" "d_error d1 = None"
      by (simp_all add: d1_def decoderOf_def)
    define d2 where "d2 = d1\<lparr>d_pos := d_pos d1 + length (segment g), d_generatedCharacter := g_pendingGeneratedCharacter g,
      d_sourceIndex := (if g_hasPendingSource g then g_pendingSourceIndex g else g_lastSourceIndex g),
      d_sourceLine := (if g_hasPendingSource g then g_pendingSourceLine g else g_lastSourceLine g),
      d_sourceCharacter := (if g_hasPendingSource g then g_pendingSourceCharacter g else g_lastSourceCharacter g),
      d_nameIndex := (if g_hasPendingName g then g_pendingNameIndex g else g_lastNameIndex g)\<rparr>"
    have "d2 = decoderOf (committed g) rest"
      using assms(2) by (intro MappingsDecoder.equality) (auto simp: d1_def d2_def decoderOf_def committed_def genFlags_def)
    moreover have "captureMapping (g_hasPendingSource g) (g_hasPendingName g) d2 = pendingMapping g"
      by (simp add: captureMapping_def pendingMapping_def decoderOf_def d1_def d2_def)
    moreover have "decodeSegment d1 = (Some (captureMapping (g_hasPendingSource g) (g_hasPendingName g) d2), d2)"
      using decodeSegment_string [where d = d1 and gc = "g_pendingGeneratedCharacter g" and si = "g_pendingSourceIndex g"
            and sl = "g_pendingSourceLine g" and sc = "g_pendingSourceCharacter g" and n = "g_pendingNameIndex g"
            and hasName = "g_hasPendingName g" and hasSource = "g_hasPendingSource g" and rest = rest]
        r1 assms b(3) unfolding f d1_def [symmetric] d2_def by (simp add: genBounds_def genFlags_def segment_def)
    ultimately show ?thesis unfolding d1_def by simp
  qed
  finally show ?thesis .
qed

section \<open>The invariant\<close>

definition decodesTo :: "Generator \<Rightarrow> Mapping list \<Rightarrow> bool" where
  "decodesTo g ms \<longleftrightarrow> (\<forall>rest. (g_hasLast g \<longrightarrow> endsSegment rest) \<longrightarrow>
     Values (DecodeMappings (g_mappings g @ rest)) =
       (ms @ fst (Values (decoderOf g rest)), snd (Values (decoderOf g rest))))"

definition genInv :: "Generator \<Rightarrow> Mapping list \<Rightarrow> bool" where
  "genInv g ms \<longleftrightarrow> genBounds g \<and> genFlags g \<and> decodesTo g ms"

definition commitLog :: "Generator \<Rightarrow> Mapping list" where
  "commitLog g = (if shouldCommitMapping g then [pendingMapping g] else [])"

lemma genInv_NewGenerator: "genInv (NewGenerator file root dir options) []"
  by (simp add: genInv_def genBounds_def genFlags_def decodesTo_def NewGenerator_def decoderOf_def DecodeMappings_def)

lemma endsSegment_delimiters:
  assumes "genFlags g" "g_hasLast g"
  shows "endsSegment (delimiters g @ s)"
proof (cases "g_lastGeneratedLine g < g_pendingGeneratedLine g")
  case True
  then obtain n where "nat (g_pendingGeneratedLine g - g_lastGeneratedLine g) = Suc n"
    by (cases "nat (g_pendingGeneratedLine g - g_lastGeneratedLine g)") auto
  then show ?thesis using True by (simp add: delimiters_def endsSegment_def)
next
  case False
  then show ?thesis using assms by (simp add: delimiters_def endsSegment_def)
qed

lemma decodesTo_committed:
  assumes "genInv g ms"
  shows "decodesTo (committed g) (ms @ [pendingMapping g])"
  unfolding decodesTo_def
proof (intro allI impI)
  fix rest
  assume "g_hasLast (committed g) \<longrightarrow> endsSegment rest"
  then have rest: "endsSegment rest" by (simp add: committed_def)
  have b: "genBounds g" "genFlags g" using assms by (simp_all add: genInv_def)
  let ?r = "delimiters g @ segment g @ rest"
  have v: "Values (decoderOf g ?r) =
      (pendingMapping g # fst (Values (decoderOf (committed g) rest)), snd (Values (decoderOf (committed g) rest)))"
    using Next_committed [OF b rest] by (subst Values.simps) (simp add: split_beta Let_def)
  have "g_hasLast g \<longrightarrow> endsSegment ?r" using endsSegment_delimiters [OF b(2)] by blast
  then have "Values (DecodeMappings (g_mappings g @ ?r)) = (ms @ fst (Values (decoderOf g ?r)), snd (Values (decoderOf g ?r)))"
    using assms by (simp add: genInv_def decodesTo_def)
  then show "Values (DecodeMappings (g_mappings (committed g) @ rest)) =
      ((ms @ [pendingMapping g]) @ fst (Values (decoderOf (committed g) rest)), snd (Values (decoderOf (committed g) rest)))"
    unfolding v by (simp add: committed_def)
qed

lemma commit_inv:
  assumes "genInv g ms"
  obtains g' where "commitPendingMapping g = Inr g'" "genInv g' (ms @ commitLog g)"
    "g_pendingSourceIndex g' = g_lastSourceIndex g'" "g_pendingSourceLine g' = g_lastSourceLine g'"
    "g_pendingSourceCharacter g' = g_lastSourceCharacter g'" "g_pendingNameIndex g' = g_lastNameIndex g'"
    "g_pendingGeneratedLine g' = g_pendingGeneratedLine g" "g_sources g' = g_sources g" "g_names g' = g_names g"
    "g_hasLast g' \<Longrightarrow> g_hasPending g \<and> g_lastGeneratedLine g' = g_pendingGeneratedLine g
       \<and> g_lastGeneratedCharacter g' = g_pendingGeneratedCharacter g"
proof (cases "shouldCommitMapping g")
  case True
  have b: "genBounds g" "genFlags g" using assms by (simp_all add: genInv_def)
  have "commitPendingMapping g = Inr (committed g)" by (rule commitPendingMapping_eq [OF b True])
  moreover have "genInv (committed g) (ms @ commitLog g)"
    using decodesTo_committed [OF assms] b True
    by (simp add: genInv_def commitLog_def) (simp add: committed_def genBounds_def genFlags_def shouldCommitMapping_def)
  moreover have "g_hasPending g" using True by (simp add: shouldCommitMapping_def)
  ultimately show thesis by (intro that [of "committed g"]) (simp_all add: committed_def)
next
  case False
  have flags: "genFlags g" using assms by (simp add: genInv_def)
  have "commitPendingMapping g = Inr g" using False by (simp add: commitPendingMapping_def)
  then show thesis using assms False flags
    by (intro that [of g]) (auto simp: commitLog_def shouldCommitMapping_def genFlags_def)
qed

text \<open>Setting the pending mapping does not touch what is written.\<close>

lemma decodesTo_cong:
  assumes "g_mappings g' = g_mappings g" "g_hasLast g' = g_hasLast g"
    "g_lastGeneratedLine g' = g_lastGeneratedLine g" "g_lastGeneratedCharacter g' = g_lastGeneratedCharacter g"
    "g_lastSourceIndex g' = g_lastSourceIndex g" "g_lastSourceLine g' = g_lastSourceLine g"
    "g_lastSourceCharacter g' = g_lastSourceCharacter g" "g_lastNameIndex g' = g_lastNameIndex g"
  shows "decodesTo g' ms \<longleftrightarrow> decodesTo g ms"
  using assms by (simp add: decodesTo_def decoderOf_def)

definition callOk :: "int \<Rightarrow> int \<Rightarrow> int \<Rightarrow> int \<Rightarrow> int \<Rightarrow> int \<Rightarrow> bool" where
  "callOk gl gc si sl sc n \<longleftrightarrow> inRange gl \<and> inRange gc \<and>
     (si = -1 \<and> sl = -1 \<and> sc = -1 \<or> inRange si \<and> inRange sl \<and> inRange sc) \<and> (n = -1 \<or> inRange n)"

definition callLog :: "int \<Rightarrow> int \<Rightarrow> int \<Rightarrow> int \<Rightarrow> int \<Rightarrow> Generator \<Rightarrow> Mapping list" where
  "callLog gl gc si sl sc g =
     (if isNewGeneratedPosition gl gc g \<or> isBacktrackingSourcePosition si sl sc g then commitLog g else [])"

lemma addMapping_inv:
  assumes inv: "genInv g ms" and ok: "callOk gl gc si sl sc n" and le: "g_pendingGeneratedLine g \<le> gl"
  obtains g' where "addMapping gl gc si sl sc n g = Inr g'" "genInv g' (ms @ callLog gl gc si sl sc g)"
    "g_sources g' = g_sources g" "g_names g' = g_names g"
    "g_pendingGeneratedLine g' = gl" "g_pendingGeneratedCharacter g' = gc" "g_hasPending g'"
    "si \<noteq> -1 \<Longrightarrow> g_hasPendingSource g' \<and> g_pendingSourceIndex g' = si \<and> g_pendingSourceLine g' = sl
       \<and> g_pendingSourceCharacter g' = sc"
    "si \<noteq> -1 \<Longrightarrow> n \<noteq> -1 \<Longrightarrow> g_hasPendingName g' \<and> g_pendingNameIndex g' = n"
    "isNewGeneratedPosition gl gc g \<Longrightarrow> si = -1 \<Longrightarrow> \<not> g_hasPendingSource g'"
    "isNewGeneratedPosition gl gc g \<Longrightarrow> n = -1 \<Longrightarrow> \<not> g_hasPendingName g'"
    "isNewGeneratedPosition gl gc g \<Longrightarrow> shouldCommitMapping g'"
proof -
  let ?new = "isNewGeneratedPosition gl gc g \<or> isBacktrackingSourcePosition si sl sc g"
  define src :: "Generator \<Rightarrow> Generator" where "src = (\<lambda>g. if si \<noteq> -1 then
      (let g' = g\<lparr>g_pendingSourceIndex := si, g_pendingSourceLine := sl, g_pendingSourceCharacter := sc, g_hasPendingSource := True\<rparr>
       in if n \<noteq> -1 then g'\<lparr>g_pendingNameIndex := n, g_hasPendingName := True\<rparr> else g') else g)"
  have cond: "si \<noteq> sourceIndexNotSet \<and> sl \<noteq> notSet \<and> sc \<noteq> notSetUTF16 \<longleftrightarrow> si \<noteq> -1"
    using ok by (auto simp: callOk_def notSet_defs)
  have keep: "genInv (src h) ms'" if "genInv h ms'" "g_hasPending h" for h ms'
  proof -
    have "decodesTo (src h) ms' \<longleftrightarrow> decodesTo h ms'" by (rule decodesTo_cong) (simp_all add: src_def Let_def)
    then show ?thesis using that ok
      by (auto simp: genInv_def genBounds_def genFlags_def callOk_def src_def Let_def)
  qed
  obtain h where h: "genInv h (ms @ callLog gl gc si sl sc g)" "g_hasPending h"
    "addMapping gl gc si sl sc n g = Inr (src h)" "g_sources h = g_sources g" "g_names h = g_names g"
    "g_pendingGeneratedLine h = gl" "g_pendingGeneratedCharacter h = gc"
    "?new \<Longrightarrow> \<not> g_hasPendingSource h \<and> \<not> g_hasPendingName h"
    "isNewGeneratedPosition gl gc g \<Longrightarrow> shouldCommitMapping (src h)"
  proof (cases ?new)
    case True
    obtain g1 where g1: "commitPendingMapping g = Inr g1" "genInv g1 (ms @ commitLog g)"
      "g_pendingSourceIndex g1 = g_lastSourceIndex g1" "g_pendingSourceLine g1 = g_lastSourceLine g1"
      "g_pendingSourceCharacter g1 = g_lastSourceCharacter g1" "g_pendingNameIndex g1 = g_lastNameIndex g1"
      "g_pendingGeneratedLine g1 = g_pendingGeneratedLine g" "g_sources g1 = g_sources g" "g_names g1 = g_names g"
      "g_hasLast g1 \<Longrightarrow> g_hasPending g \<and> g_lastGeneratedLine g1 = g_pendingGeneratedLine g
       \<and> g_lastGeneratedCharacter g1 = g_pendingGeneratedCharacter g"
      using commit_inv [OF inv] by blast
    let ?h = "g1\<lparr>g_pendingGeneratedLine := gl, g_pendingGeneratedCharacter := gc,
      g_hasPendingSource := False, g_hasPendingName := False, g_hasPending := True\<rparr>"
    have "decodesTo ?h m \<longleftrightarrow> decodesTo g1 m" for m by (rule decodesTo_cong) simp_all
    then have "genInv ?h (ms @ callLog gl gc si sl sc g)"
      using g1 ok le True by (auto simp: genInv_def genBounds_def genFlags_def callOk_def callLog_def)
    moreover have "shouldCommitMapping (src ?h)" if "isNewGeneratedPosition gl gc g"
      using g1(10) that by (auto simp: shouldCommitMapping_def isNewGeneratedPosition_def src_def Let_def)
    ultimately show thesis using g1 True cond
      by (intro that [of ?h]) (simp_all add: addMapping_def src_def nameIndexNotSet_def Let_def)
  next
    case False
    then show thesis using inv cond
      by (intro that [of g]) (auto simp: addMapping_def src_def nameIndexNotSet_def callLog_def isNewGeneratedPosition_def Let_def)
  qed
  show thesis using h keep [OF h(1,2)] ok by (intro that [of "src h"] h(9)) (auto simp: src_def Let_def)
qed

section \<open>Runs of the generator\<close>

text \<open>The calls a client makes. A call that returns an error leaves the generator as it is; the log
  collects the mappings in the order in which they are committed.\<close>

datatype genCall =
    CallAddSource string
  | CallSetSourceContent int string
  | CallAddName string
  | CallAddGeneratedMapping int int
  | CallAddSourceMapping int int int int int
  | CallAddNamedSourceMapping int int int int int int

fun genCallArgs :: "genCall \<Rightarrow> int list" where
  "genCallArgs (CallAddGeneratedMapping gl gc) = [gl, gc]"
| "genCallArgs (CallAddSourceMapping gl gc si sl sc) = [gl, gc, si, sl, sc]"
| "genCallArgs (CallAddNamedSourceMapping gl gc si sl sc n) = [gl, gc, si, sl, sc, n]"
| "genCallArgs _ = []"

definition logged :: "Mapping list \<Rightarrow> Mapping list \<Rightarrow> mapping_result \<Rightarrow> (Generator \<times> Mapping list) or_panic" where
  "logged log new r = bind_panic r (\<lambda>(err, g). Inr (g, if err = None then log @ new else log))"

fun genStep :: "(string \<Rightarrow> string \<Rightarrow> bool) \<Rightarrow> genCall \<Rightarrow> Generator \<times> Mapping list \<Rightarrow> (Generator \<times> Mapping list) or_panic" where
  "genStep eqFold (CallAddSource f) (g, log) = Inr (snd (AddSource eqFold f g), log)"
| "genStep eqFold (CallSetSourceContent i c) (g, log) = Inr (snd (SetSourceContent i c g), log)"
| "genStep eqFold (CallAddName n) (g, log) = Inr (snd (AddName n g), log)"
| "genStep eqFold (CallAddGeneratedMapping gl gc) (g, log) =
     logged log (callLog gl gc sourceIndexNotSet notSet notSetUTF16 g) (AddGeneratedMapping gl gc g)"
| "genStep eqFold (CallAddSourceMapping gl gc si sl sc) (g, log) =
     logged log (callLog gl gc si sl sc g) (AddSourceMapping gl gc si sl sc g)"
| "genStep eqFold (CallAddNamedSourceMapping gl gc si sl sc n) (g, log) =
     logged log (callLog gl gc si sl sc g) (AddNamedSourceMapping gl gc si sl sc n g)"

fun genRun :: "(string \<Rightarrow> string \<Rightarrow> bool) \<Rightarrow> genCall list \<Rightarrow> Generator \<times> Mapping list \<Rightarrow> (Generator \<times> Mapping list) or_panic" where
  "genRun eqFold [] st = Inr st"
| "genRun eqFold (c # cs) st = bind_panic (genStep eqFold c st) (genRun eqFold cs)"

lemma genInv_cong_tables:
  "genInv (g\<lparr>g_sources := a, g_rawSources := b, g_sourceToSourceIndexMap := c\<rparr>) ms = genInv g ms"
  "genInv (g\<lparr>g_names := a', g_nameToNameIndexMap := c'\<rparr>) ms = genInv g ms"
  "genInv (g\<lparr>g_sourcesContent := d\<rparr>) ms = genInv g ms"
  by (simp_all add: genInv_def genBounds_def genFlags_def decodesTo_def decoderOf_def)

lemma genInv_tables:
  assumes "genInv g ms"
  shows "genInv (snd (AddSource eqFold f g)) ms" "genInv (snd (SetSourceContent i c g)) ms" "genInv (snd (AddName n g)) ms"
  using assms
  by (simp_all add: AddSource_def SetSourceContent_def AddName_def Let_def genInv_cong_tables split: option.splits)

lemma logged_addMapping:
  assumes inv: "genInv g ms" and ok: "callOk gl gc si sl sc n" and le: "\<not> gl < g_pendingGeneratedLine g"
  shows "\<exists>g' ms'. logged ms (callLog gl gc si sl sc g) (accept (addMapping gl gc si sl sc n g)) = Inr (g', ms') \<and> genInv g' ms'"
proof -
  obtain g' where "addMapping gl gc si sl sc n g = Inr g'" "genInv g' (ms @ callLog gl gc si sl sc g)"
    using addMapping_inv [OF inv ok] le by (metis not_less)
  then show ?thesis by (simp add: logged_def accept_def)
qed

lemma genStep_inv:
  assumes inv: "genInv g ms" and args: "\<forall>x\<in>set (genCallArgs c). x < 2 ^ 62"
  shows "\<exists>g' ms'. genStep eqFold c (g, ms) = Inr (g', ms') \<and> genInv g' ms'"
proof -
  have err: "\<exists>g' ms'. logged ms new (Inr (Some e, g)) = Inr (g', ms') \<and> genInv g' ms'" for new e
    using inv by (simp add: logged_def)
  have pl: "0 \<le> g_pendingGeneratedLine g" using inv by (simp add: genInv_def genBounds_def)
  show ?thesis
  proof (cases c)
    case (CallAddGeneratedMapping gl gc)
    show ?thesis
    proof (cases "gl < g_pendingGeneratedLine g \<or> gc < 0")
      case True
      then show ?thesis using CallAddGeneratedMapping err by (auto simp: AddGeneratedMapping_def)
    next
      case False
      then have "callOk gl gc (-1) (-1) (-1) (-1)" using args pl CallAddGeneratedMapping by (simp add: callOk_def)
      then show ?thesis using False CallAddGeneratedMapping logged_addMapping [OF inv]
        by (simp add: AddGeneratedMapping_def notSet_defs)
    qed
  next
    case (CallAddSourceMapping gl gc si sl sc)
    show ?thesis
    proof (cases "gl < g_pendingGeneratedLine g \<or> gc < 0 \<or> si < 0 \<or> si \<ge> int (length (g_sources g)) \<or> sl < 0 \<or> sc < 0")
      case True
      then show ?thesis using CallAddSourceMapping err by (auto simp: AddSourceMapping_def)
    next
      case False
      then have "callOk gl gc si sl sc (-1)" using args pl CallAddSourceMapping by (simp add: callOk_def)
      then show ?thesis using False CallAddSourceMapping logged_addMapping [OF inv]
        by (simp add: AddSourceMapping_def notSet_defs)
    qed
  next
    case (CallAddNamedSourceMapping gl gc si sl sc n)
    show ?thesis
    proof (cases "gl < g_pendingGeneratedLine g \<or> gc < 0 \<or> si < 0 \<or> si \<ge> int (length (g_sources g)) \<or> sl < 0 \<or> sc < 0
        \<or> n < 0 \<or> n \<ge> int (length (g_names g))")
      case True
      then show ?thesis using CallAddNamedSourceMapping err by (auto simp: AddNamedSourceMapping_def)
    next
      case False
      then have "callOk gl gc si sl sc n" using args pl CallAddNamedSourceMapping by (simp add: callOk_def)
      then show ?thesis using False CallAddNamedSourceMapping logged_addMapping [OF inv]
        by (simp add: AddNamedSourceMapping_def)
    qed
  qed (use inv in \<open>simp_all add: genInv_tables\<close>)
qed

lemma genRun_inv:
  "genInv g ms \<Longrightarrow> \<forall>c\<in>set cs. \<forall>x\<in>set (genCallArgs c). x < 2 ^ 62 \<Longrightarrow>
     \<exists>g' ms'. genRun eqFold cs (g, ms) = Inr (g', ms') \<and> genInv g' ms'"
proof (induction cs arbitrary: g ms)
  case (Cons c cs)
  obtain g1 ms1 where "genStep eqFold c (g, ms) = Inr (g1, ms1)" "genInv g1 ms1"
    using genStep_inv [OF Cons.prems(1), of c eqFold] Cons.prems(2) by auto
  then show ?case using Cons by simp
qed simp

lemma Values_end: "Values (decoderOf g []) = ([], (decoderOf g [])\<lparr>d_done := True\<rparr>)"
  by (subst Values.simps, subst Next.simps) (simp add: decoderOf_def stopIterating_def)

lemma RawSourceMap_decodes:
  assumes "genInv g ms"
  shows "\<exists>raw g'. Generator_RawSourceMap g = Inr (raw, g')
    \<and> fst (Values (DecodeMappings (rs_Mappings raw))) = ms @ commitLog g
    \<and> d_error (snd (Values (DecodeMappings (rs_Mappings raw)))) = None"
proof -
  obtain g' where g': "commitPendingMapping g = Inr g'" "genInv g' (ms @ commitLog g)"
    using commit_inv [OF assms] by blast
  have "Values (DecodeMappings (g_mappings g' @ [])) = ((ms @ commitLog g) @ [], (decoderOf g' [])\<lparr>d_done := True\<rparr>)"
    using g'(2) Values_end [of g'] unfolding genInv_def decodesTo_def
    by (metis endsSegment_def fst_conv snd_conv)
  then show ?thesis using g'(1) by (simp add: Generator_RawSourceMap_def decoderOf_def)
qed

text \<open>C7. Encoding and decoding source maps are inverse. Whatever sequence of calls a client makes on a
  new generator, with every position and index below \<open>2 ^ 62\<close>, no call panics, and decoding
  the \<open>Mappings\<close> of the finished map reports no error and yields exactly the mappings that were
  committed, in order, the pending one last.\<close>

theorem generator_decoder_roundtrip:
  assumes "\<forall>c\<in>set calls. \<forall>x\<in>set (genCallArgs c). x < 2 ^ 62"
  shows "\<exists>g log raw g'. genRun eqFold calls (NewGenerator file root dir options, []) = Inr (g, log)
    \<and> Generator_RawSourceMap g = Inr (raw, g')
    \<and> fst (Values (DecodeMappings (rs_Mappings raw))) = log @ commitLog g
    \<and> d_error (snd (Values (DecodeMappings (rs_Mappings raw)))) = None"
proof -
  obtain g log where "genRun eqFold calls (NewGenerator file root dir options, []) = Inr (g, log)" "genInv g log"
    using genRun_inv [OF genInv_NewGenerator assms] by blast
  then show ?thesis using RawSourceMap_decodes by blast
qed

definition witnessCalls :: "genCall list" where
  "witnessCalls = [CallAddSource ''/a.ts'', CallAddName ''f'', CallAddSourceMapping 0 0 0 0 0,
     CallAddNamedSourceMapping 0 7 0 2 5 0, CallAddGeneratedMapping 2 3]"

theorem generator_decoder_roundtrip_witness:
  "\<exists>g log raw g'. genRun (=) witnessCalls (NewGenerator ''a.js'' [] ''/'' \<lparr>UseCaseSensitiveFileNames = True, CurrentDirectory = ''/''\<rparr>, []) = Inr (g, log)
    \<and> Generator_RawSourceMap g = Inr (raw, g')
    \<and> fst (Values (DecodeMappings (rs_Mappings raw))) = log @ commitLog g
    \<and> d_error (snd (Values (DecodeMappings (rs_Mappings raw)))) = None"
  by (rule generator_decoder_roundtrip) (simp add: witnessCalls_def)

text \<open>What a client adds is what a reader finds: when a mapping with a source is accepted at a new
  generated position, the source map finished right after decodes, without error, to a list whose
  last mapping is that position with that source position and no name.\<close>

theorem AddSourceMapping_decoded:
  assumes "\<forall>c\<in>set calls. \<forall>x\<in>set (genCallArgs c). x < 2 ^ 62"
    and run: "genRun eqFold calls (NewGenerator file root dir options, []) = Inr (g, log)"
    and fresh: "isNewGeneratedPosition gl gc g" and small: "gl < 2 ^ 62" "gc < 2 ^ 62" "si < 2 ^ 62" "sl < 2 ^ 62" "sc < 2 ^ 62"
    and acc: "AddSourceMapping gl gc si sl sc g = Inr (None, g1)"
  shows "\<exists>raw g' ms. Generator_RawSourceMap g1 = Inr (raw, g')
    \<and> fst (Values (DecodeMappings (rs_Mappings raw))) = ms @
        [\<lparr>GeneratedLine = gl, GeneratedCharacter = gc, SourceIndex = si, SourceLine = sl, SourceCharacter = sc,
          NameIndex = MissingName\<rparr>]
    \<and> d_error (snd (Values (DecodeMappings (rs_Mappings raw)))) = None"
proof -
  have "\<exists>g' ms'. genRun eqFold calls (NewGenerator file root dir options, []) = Inr (g', ms') \<and> genInv g' ms'"
    by (rule genRun_inv [OF genInv_NewGenerator assms(1)])
  then have inv: "genInv g log" using run by auto
  then have pl: "0 \<le> g_pendingGeneratedLine g" by (simp add: genInv_def genBounds_def)
  have ok: "callOk gl gc si sl sc (-1)" "g_pendingGeneratedLine g \<le> gl" "si \<noteq> -1"
    and add: "addMapping gl gc si sl sc (-1) g = Inr g1"
    using acc small pl by (auto simp: AddSourceMapping_def callOk_def accept_def notSet_defs split: if_splits)
  obtain g2 where g2: "addMapping gl gc si sl sc (-1) g = Inr g2" "genInv g2 (log @ callLog gl gc si sl sc g)"
    "g_pendingGeneratedLine g2 = gl" "g_pendingGeneratedCharacter g2 = gc" "g_hasPendingSource g2 \<and> g_pendingSourceIndex g2 = si
       \<and> g_pendingSourceLine g2 = sl \<and> g_pendingSourceCharacter g2 = sc" "\<not> g_hasPendingName g2" "shouldCommitMapping g2"
    using addMapping_inv [OF inv ok(1,2)] fresh ok(3) by metis
  then have "commitLog g1 = [\<lparr>GeneratedLine = gl, GeneratedCharacter = gc, SourceIndex = si, SourceLine = sl,
      SourceCharacter = sc, NameIndex = MissingName\<rparr>]" "genInv g1 (log @ callLog gl gc si sl sc g)"
    using add by (auto simp: commitLog_def pendingMapping_def)
  then show ?thesis using RawSourceMap_decodes [of g1] by metis
qed

theorem AddSourceMapping_decoded_witness:
  "\<exists>g log g1 raw g' ms. genRun (=) witnessCalls (NewGenerator ''a.js'' [] ''/'' \<lparr>UseCaseSensitiveFileNames = True, CurrentDirectory = ''/''\<rparr>, []) = Inr (g, log)
    \<and> AddSourceMapping 4 1 0 9 9 g = Inr (None, g1) \<and> Generator_RawSourceMap g1 = Inr (raw, g')
    \<and> fst (Values (DecodeMappings (rs_Mappings raw))) = ms @
        [\<lparr>GeneratedLine = 4, GeneratedCharacter = 1, SourceIndex = 0, SourceLine = 9, SourceCharacter = 9, NameIndex = MissingName\<rparr>]"
proof -
  let ?g0 = "NewGenerator ''a.js'' [] ''/'' \<lparr>UseCaseSensitiveFileNames = True, CurrentDirectory = ''/''\<rparr>"
  have small: "\<forall>c\<in>set witnessCalls. \<forall>x\<in>set (genCallArgs c). x < 2 ^ 62" by (simp add: witnessCalls_def)
  have c: "case genRun (=) witnessCalls (?g0, []) of Inl _ \<Rightarrow> False
     | Inr (g, log) \<Rightarrow> isNewGeneratedPosition 4 1 g \<and> (case AddSourceMapping 4 1 0 9 9 g of Inr (e, g1) \<Rightarrow> e = None | Inl _ \<Rightarrow> False)"
    by code_simp
  then obtain g log g1 where run: "genRun (=) witnessCalls (?g0, []) = Inr (g, log)"
    "isNewGeneratedPosition 4 1 g" "AddSourceMapping 4 1 0 9 9 g = Inr (None, g1)"
    by (auto split: sum.splits prod.splits)
  show ?thesis using AddSourceMapping_decoded [OF small run(1,2) _ _ _ _ _ run(3)] run by fastforce
qed

section \<open>A mapping that is dropped\<close>

text \<open>A mapping can be lost at a generated position that is used three times: after a mapping without
  a source, one with an earlier source position (which commits the first) and one with the last
  committed source position, \<open>shouldCommitMapping\<close> finds every compared field equal to the last
  committed one, although that one was written without a source. Four mappings are accepted, and
  the finished map has only two, neither of them with a source at the position.\<close>

theorem accepted_mapping_dropped:
  "\<exists>g log raw g'. genRun (=) [CallAddSource ''/a.ts'', CallAddSourceMapping 0 0 0 5 0, CallAddGeneratedMapping 1 0,
      CallAddSourceMapping 1 0 0 4 0, CallAddSourceMapping 1 0 0 5 0]
      (NewGenerator ''a.js'' [] ''/'' \<lparr>UseCaseSensitiveFileNames = True, CurrentDirectory = ''/''\<rparr>, []) = Inr (g, log)
    \<and> Generator_RawSourceMap g = Inr (raw, g')
    \<and> map (\<lambda>m. (GeneratedLine m, SourceIndex m, SourceLine m)) (fst (Values (DecodeMappings (rs_Mappings raw)))) =
        [(0, 0, 5), (1, MissingSource, MissingLineOrColumn)]"
proof -
  let ?r = "genRun (=) [CallAddSource ''/a.ts'', CallAddSourceMapping 0 0 0 5 0, CallAddGeneratedMapping 1 0,
      CallAddSourceMapping 1 0 0 4 0, CallAddSourceMapping 1 0 0 5 0]
      (NewGenerator ''a.js'' [] ''/'' \<lparr>UseCaseSensitiveFileNames = True, CurrentDirectory = ''/''\<rparr>, [])"
  have "case ?r of Inl _ \<Rightarrow> False | Inr (g, log) \<Rightarrow> (case Generator_RawSourceMap g of Inl _ \<Rightarrow> False
    | Inr (raw, g') \<Rightarrow> map (\<lambda>m. (GeneratedLine m, SourceIndex m, SourceLine m)) (fst (Values (DecodeMappings (rs_Mappings raw)))) =
        [(0, 0, 5), (1, MissingSource, MissingLineOrColumn)])"
    by code_simp
  then show ?thesis by (auto split: sum.splits prod.splits)
qed

section \<open>The tables of sources and names\<close>

text \<open>Interface of a table that hands out indices: an entry gets the index of its key, the keys stay
  where they are, and no key appears twice.\<close>

locale index_table =
  fixes keys :: "'s \<Rightarrow> string list"
    and key :: "string \<Rightarrow> 's \<Rightarrow> string"
    and add :: "string \<Rightarrow> 's \<Rightarrow> int \<times> 's"
    and ok :: "'s \<Rightarrow> bool"
  assumes add_ok: "ok s \<Longrightarrow> ok (snd (add x s))"
    and add_extends: "ok s \<Longrightarrow> \<exists>ys. keys (snd (add x s)) = keys s @ ys"
    and add_index: "ok s \<Longrightarrow> 0 \<le> fst (add x s) \<and> nat (fst (add x s)) < length (keys (snd (add x s)))
      \<and> keys (snd (add x s)) ! nat (fst (add x s)) = key x s"
    and ok_distinct: "ok s \<Longrightarrow> distinct (keys s)"
    and key_frame: "key x (snd (add y s)) = key x s"
begin

lemma stable: "ok s \<Longrightarrow> i < length (keys s) \<Longrightarrow> keys (snd (add x s)) ! i = keys s ! i"
  using add_extends [of s x] by (auto simp: nth_append)

lemma two_adds:
  assumes "ok s"
  shows "(fst (add y (snd (add x s))) = fst (add x s) \<longleftrightarrow> key y s = key x s)
    \<and> keys (snd (add y (snd (add x s)))) ! nat (fst (add x s)) = key x s"
proof -
  let ?s1 = "snd (add x s)" and ?i = "fst (add x s)"
  let ?s2 = "snd (add y ?s1)" and ?j = "fst (add y ?s1)"
  have ok1: "ok ?s1" and ok2: "ok ?s2" using assms add_ok by blast+
  have i: "0 \<le> ?i" "nat ?i < length (keys ?s1)" "keys ?s1 ! nat ?i = key x s" using add_index [OF assms, of x] by auto
  have j: "0 \<le> ?j" "nat ?j < length (keys ?s2)" "keys ?s2 ! nat ?j = key y s"
    using add_index [OF ok1, of y] key_frame by auto
  have st: "keys ?s2 ! nat ?i = key x s" using stable [OF ok1 i(2)] i(3) by simp
  have "nat ?i < length (keys ?s2)" using i(2) add_extends [OF ok1, of y] by auto
  then have "nat ?j = nat ?i \<longleftrightarrow> key y s = key x s"
    using ok_distinct [OF ok2] j st by (metis nth_eq_iff_index_eq)
  then show ?thesis using st i(1) j(1) by auto
qed

end

definition tableOk :: "string list \<Rightarrow> (string \<rightharpoonup> int) \<Rightarrow> bool" where
  "tableOk keys m \<longleftrightarrow> distinct keys \<and> (\<forall>k i. m k = Some i \<longleftrightarrow> 0 \<le> i \<and> nat i < length keys \<and> keys ! nat i = k)"

lemma tableOk_None: "tableOk keys m \<Longrightarrow> m k = None \<Longrightarrow> k \<notin> set keys"
proof
  assume t: "tableOk keys m" and n: "m k = None" and "k \<in> set keys"
  then obtain i where "i < length keys" "keys ! i = k" by (metis in_set_conv_nth)
  then have "m k = Some (int i)" using t by (simp add: tableOk_def)
  then show False using n by simp
qed

lemma tableOk_add:
  assumes t: "tableOk keys m" and n: "m k = None"
  shows "tableOk (keys @ [k]) (m(k \<mapsto> int (length keys)))"
proof -
  have new: "k \<notin> set keys" using tableOk_None [OF assms] .
  then have "m j \<noteq> Some i" if "i = int (length keys)" for i j using t that by (auto simp: tableOk_def)
  then show ?thesis using t new by (auto simp: tableOk_def nth_append less_Suc_eq nat_eq_iff2 split: if_splits dest: nth_mem)
qed

definition namesOk :: "Generator \<Rightarrow> bool" where
  "namesOk g = tableOk (g_names g) (g_nameToNameIndexMap g)"

definition sourcesOk :: "Generator \<Rightarrow> bool" where
  "sourcesOk g = (tableOk (g_sources g) (g_sourceToSourceIndexMap g) \<and> length (g_rawSources g) = length (g_sources g))"

definition sourceKey :: "(string \<Rightarrow> string \<Rightarrow> bool) \<Rightarrow> string \<Rightarrow> Generator \<Rightarrow> string" where
  "sourceKey eqFold f g = GetRelativePathToDirectoryOrUrl eqFold (g_sourcesDirectoryPath g) f True (g_pathOptions g)"

interpretation names: index_table g_names "\<lambda>n g. n" AddName namesOk
proof
  fix s :: Generator and x y
  assume ok: "namesOk s"
  then have t: "tableOk (g_names s) (g_nameToNameIndexMap s)" by (simp add: namesOk_def)
  show "namesOk (snd (AddName x s))"
    using t tableOk_add by (auto simp: namesOk_def AddName_def Let_def split: option.splits)
  show "\<exists>ys. g_names (snd (AddName x s)) = g_names s @ ys" by (auto simp: AddName_def Let_def split: option.splits)
  show "0 \<le> fst (AddName x s) \<and> nat (fst (AddName x s)) < length (g_names (snd (AddName x s)))
      \<and> g_names (snd (AddName x s)) ! nat (fst (AddName x s)) = x"
    using t by (auto simp: AddName_def tableOk_def Let_def split: option.splits)
  show "distinct (g_names s)" using t by (simp add: tableOk_def)
qed simp

interpretation srcs: index_table g_sources "sourceKey eqFold" "AddSource eqFold" sourcesOk for eqFold
proof
  fix s :: Generator and x y
  show "sourceKey eqFold x (snd (AddSource eqFold y s)) = sourceKey eqFold x s"
    by (auto simp: sourceKey_def AddSource_def Let_def split: option.splits)
  assume ok: "sourcesOk s"
  then have t: "tableOk (g_sources s) (g_sourceToSourceIndexMap s)" by (simp add: sourcesOk_def)
  show "sourcesOk (snd (AddSource eqFold x s))"
    using ok tableOk_add by (auto simp: sourcesOk_def AddSource_def Let_def split: option.splits)
  show "\<exists>ys. g_sources (snd (AddSource eqFold x s)) = g_sources s @ ys" by (auto simp: AddSource_def Let_def split: option.splits)
  show "0 \<le> fst (AddSource eqFold x s) \<and> nat (fst (AddSource eqFold x s)) < length (g_sources (snd (AddSource eqFold x s)))
      \<and> g_sources (snd (AddSource eqFold x s)) ! nat (fst (AddSource eqFold x s)) = sourceKey eqFold x s"
    using t by (auto simp: AddSource_def tableOk_def sourceKey_def Let_def split: option.splits)
  show "distinct (g_sources s)" using t by (simp add: tableOk_def)
qed

text \<open>Sources are numbered by their relative path: on a generator whose source table is consistent,
  as it is after any sequence of calls, adding two files gives the same index exactly when they
  have the same path relative to the map, and the index of the first keeps naming its path.\<close>

theorem AddSource_indices:
  assumes "genRun eqFold (map CallAddSource files) (NewGenerator file root dir options, []) = Inr (g, log)"
  shows "(fst (AddSource eqFold b (snd (AddSource eqFold a g))) = fst (AddSource eqFold a g)
      \<longleftrightarrow> sourceKey eqFold b g = sourceKey eqFold a g)
    \<and> g_sources (snd (AddSource eqFold b (snd (AddSource eqFold a g)))) ! nat (fst (AddSource eqFold a g)) = sourceKey eqFold a g"
proof -
  have "sourcesOk g" if "genRun eqFold (map CallAddSource files) (g0, l0) = Inr (g, log)" "sourcesOk g0" for g0 l0
    using that srcs.add_ok by (induction files arbitrary: g0 l0) auto
  moreover have "sourcesOk (NewGenerator file root dir options)"
    by (auto simp: sourcesOk_def tableOk_def NewGenerator_def)
  ultimately show ?thesis using assms srcs.two_adds by blast
qed

theorem AddSource_indices_witness:
  "\<exists>g log. genRun (=) [CallAddSource ''/s/a.ts''] (NewGenerator ''a.js'' [] ''/s'' \<lparr>UseCaseSensitiveFileNames = True, CurrentDirectory = ''/''\<rparr>, []) = Inr (g, log)
    \<and> fst (AddSource (=) ''/s/x/../b.ts'' (snd (AddSource (=) ''/s/b.ts'' g))) = fst (AddSource (=) ''/s/b.ts'' g)"
proof -
  let ?r = "genRun (=) [CallAddSource ''/s/a.ts''] (NewGenerator ''a.js'' [] ''/s'' \<lparr>UseCaseSensitiveFileNames = True, CurrentDirectory = ''/''\<rparr>, [])"
  have "case ?r of Inl _ \<Rightarrow> False | Inr (g, log) \<Rightarrow> sourceKey (=) ''/s/x/../b.ts'' g = sourceKey (=) ''/s/b.ts'' g"
    by code_simp
  then obtain g log where "?r = Inr (g, log)" "sourceKey (=) ''/s/x/../b.ts'' g = sourceKey (=) ''/s/b.ts'' g"
    by (auto split: sum.splits prod.splits)
  then show ?thesis using AddSource_indices [of "(=)" "[''/s/a.ts'']"] by fastforce
qed

end
