(* ===== verification/Core_Slices.thy ===== *)
theory Core_Slices
  imports Comparator StringUtil "HOL-Library.Multiset"
begin

text \<open>
  Package \<open>internal/core\<close>: the helpers on slices of \<open>core.go\<close>, \<open>binarysearch.go\<close> and \<open>stack.go\<close>. A
  slice is the list of its elements; where a helper writes into the array of its argument, the new
  content of that array is part of the result. Loops that copy only once something changes are
  written as they are, with the index at which they leave the fast path. A zero value is an
  argument \<open>zero\<close>. Functions that index without a check return \<open>or_panic\<close>.
\<close>

section \<open>Filtering and mapping\<close>

fun filterRest :: "('a \<Rightarrow> bool) \<Rightarrow> 'a list \<Rightarrow> 'a list \<Rightarrow> 'a list" where
  \<comment> \<open>the inner loop: \<open>result\<close> and the elements from the next index on\<close>
  "filterRest f result [] = result"
| "filterRest f result (x # xs) = filterRest f (if f x then result @ [x] else result) xs"

fun filterLoop :: "('a \<Rightarrow> bool) \<Rightarrow> 'a list \<Rightarrow> nat \<Rightarrow> 'a list \<Rightarrow> 'a list" where
  \<comment> \<open>the outer loop at index \<open>i\<close>\<close>
  "filterLoop f sl i [] = sl"
| "filterLoop f sl i (x # xs) =
     (if \<not> f x then filterRest f (take i sl) (drop (Suc i) sl) else filterLoop f sl (Suc i) xs)"

definition Filter :: "'a list \<Rightarrow> ('a \<Rightarrow> bool) \<Rightarrow> 'a list" where
  "Filter sl f = filterLoop f sl 0 sl"

definition Map :: "'a list \<Rightarrow> ('a \<Rightarrow> 'b) \<Rightarrow> 'b list" where
  "Map sl f = map f sl"

fun tryMapLoop :: "('a \<Rightarrow> 'e + 'b) \<Rightarrow> 'b list \<Rightarrow> 'a list \<Rightarrow> 'e + 'b list" where
  "tryMapLoop f result [] = Inr result"
| "tryMapLoop f result (x # xs) =
     (case f x of Inl err \<Rightarrow> Inl err | Inr mapped \<Rightarrow> tryMapLoop f (result @ [mapped]) xs)"

definition TryMap :: "'a list \<Rightarrow> ('a \<Rightarrow> 'e + 'b) \<Rightarrow> 'e + 'b list" where
  "TryMap sl f = (if length sl = 0 then Inr [] else tryMapLoop f [] sl)"

fun mapNonNilLoop :: "'b \<Rightarrow> ('a \<Rightarrow> 'b) \<Rightarrow> 'b list \<Rightarrow> 'a list \<Rightarrow> 'b list" where
  "mapNonNilLoop zero f result [] = result"
| "mapNonNilLoop zero f result (x # xs) =
     (let mapped = f x in mapNonNilLoop zero f (if mapped \<noteq> zero then result @ [mapped] else result) xs)"

definition MapNonNil :: "'b \<Rightarrow> 'a list \<Rightarrow> ('a \<Rightarrow> 'b) \<Rightarrow> 'b list" where
  "MapNonNil zero sl f = mapNonNilLoop zero f [] sl"

fun mapFilteredLoop :: "('a \<Rightarrow> 'b \<times> bool) \<Rightarrow> 'b list \<Rightarrow> 'a list \<Rightarrow> 'b list" where
  "mapFilteredLoop f result [] = result"
| "mapFilteredLoop f result (x # xs) =
     (let (mapped, ok) = f x in mapFilteredLoop f (if ok then result @ [mapped] else result) xs)"

definition MapFiltered :: "'a list \<Rightarrow> ('a \<Rightarrow> 'b \<times> bool) \<Rightarrow> 'b list" where
  "MapFiltered sl f = mapFilteredLoop f [] sl"

fun flatMapLoop :: "('a \<Rightarrow> 'b list) \<Rightarrow> 'b list \<Rightarrow> 'a list \<Rightarrow> 'b list" where
  "flatMapLoop f result [] = result"
| "flatMapLoop f result (x # xs) =
     (let mapped = f x in flatMapLoop f (if length mapped \<noteq> 0 then result @ mapped else result) xs)"

definition FlatMap :: "'a list \<Rightarrow> ('a \<Rightarrow> 'b list) \<Rightarrow> 'b list" where
  "FlatMap sl f = flatMapLoop f [] sl"

fun sameMapLoop :: "('a \<Rightarrow> 'a) \<Rightarrow> 'a list \<Rightarrow> nat \<Rightarrow> 'a list \<Rightarrow> 'a list" where
  "sameMapLoop f sl i [] = sl"
| "sameMapLoop f sl i (x # xs) =
     (let mapped = f x in
      if mapped \<noteq> x then take i sl @ [mapped] @ map f (drop (Suc i) sl)
      else sameMapLoop f sl (Suc i) xs)"

definition SameMap :: "'a list \<Rightarrow> ('a \<Rightarrow> 'a) \<Rightarrow> 'a list" where
  "SameMap sl f = sameMapLoop f sl 0 sl"

definition Flatten :: "'a list list \<Rightarrow> 'a list" where
  "Flatten array = fold (\<lambda>subArray result. result @ subArray) array []"

section \<open>Searching\<close>

fun Some_slice :: "'a list \<Rightarrow> ('a \<Rightarrow> bool) \<Rightarrow> bool" where
  "Some_slice [] f = False"
| "Some_slice (x # xs) f = (if f x then True else Some_slice xs f)"

fun Every :: "'a list \<Rightarrow> ('a \<Rightarrow> bool) \<Rightarrow> bool" where
  "Every [] f = True"
| "Every (x # xs) f = (if \<not> f x then False else Every xs f)"

fun Or :: "('a \<Rightarrow> bool) list \<Rightarrow> 'a \<Rightarrow> bool" where
  "Or [] input = False"
| "Or (f # fs) input = (if f input then True else Or fs input)"

fun Find :: "'a \<Rightarrow> 'a list \<Rightarrow> ('a \<Rightarrow> bool) \<Rightarrow> 'a" where
  "Find zero [] f = zero"
| "Find zero (x # xs) f = (if f x then x else Find zero xs f)"

fun findIndexLoop :: "nat \<Rightarrow> 'a list \<Rightarrow> ('a \<Rightarrow> bool) \<Rightarrow> int" where
  "findIndexLoop i [] f = -1"
| "findIndexLoop i (x # xs) f = (if f x then int i else findIndexLoop (Suc i) xs f)"

definition FindIndex :: "'a list \<Rightarrow> ('a \<Rightarrow> bool) \<Rightarrow> int" where
  "FindIndex sl f = findIndexLoop 0 sl f"

fun findLastLoop :: "nat \<Rightarrow> 'a list \<Rightarrow> ('a \<Rightarrow> bool) \<Rightarrow> int" where
  \<comment> \<open>the loop from index \<open>n - 1\<close> down\<close>
  "findLastLoop 0 sl f = -1"
| "findLastLoop (Suc n) sl f = (if f (sl ! n) then int n else findLastLoop n sl f)"

definition FindLastIndex :: "'a list \<Rightarrow> ('a \<Rightarrow> bool) \<Rightarrow> int" where
  "FindLastIndex sl f = findLastLoop (length sl) sl f"

definition FindLast :: "'a \<Rightarrow> 'a list \<Rightarrow> ('a \<Rightarrow> bool) \<Rightarrow> 'a" where
  "FindLast zero sl f =
     (let i = findLastLoop (length sl) sl f in if i \<ge> 0 then sl ! nat i else zero)"

definition FirstOrNil :: "'a \<Rightarrow> 'a list \<Rightarrow> 'a" where
  "FirstOrNil zero sl = (if length sl \<noteq> 0 then sl ! 0 else zero)"

definition LastOrNil :: "'a \<Rightarrow> 'a list \<Rightarrow> 'a" where
  "LastOrNil zero sl = (if length sl \<noteq> 0 then sl ! (length sl - 1) else zero)"

definition ElementOrNil :: "'a \<Rightarrow> 'a list \<Rightarrow> int \<Rightarrow> 'a or_panic" where
  "ElementOrNil zero sl index =
     (if index < int (length sl)
      then if index < 0 then Inl ''index out of range'' else Inr (sl ! nat index)
      else Inr zero)"

fun FirstNonNil :: "'b \<Rightarrow> 'a list \<Rightarrow> ('a \<Rightarrow> 'b) \<Rightarrow> 'b" where
  "FirstNonNil zero [] f = zero"
| "FirstNonNil zero (x # xs) f = (let mapped = f x in if mapped \<noteq> zero then mapped else FirstNonNil zero xs f)"

fun FirstNonZero :: "'a \<Rightarrow> 'a list \<Rightarrow> 'a" where
  "FirstNonZero zero [] = zero"
| "FirstNonZero zero (v # vs) = (if v \<noteq> zero then v else FirstNonZero zero vs)"

fun countLoop :: "('a \<Rightarrow> bool) \<Rightarrow> nat \<Rightarrow> 'a list \<Rightarrow> nat" where
  "countLoop f n [] = n"
| "countLoop f n (x # xs) = countLoop f (if f x then n + 1 else n) xs"

definition CountWhere :: "'a list \<Rightarrow> ('a \<Rightarrow> bool) \<Rightarrow> nat" where
  "CountWhere sl f = countLoop f 0 sl"

text \<open>\<open>BinarySearchUniqueFunc\<close>: \<open>high\<close> may become \<open>-1\<close>, so the bounds are integers; the midpoint
  is between them, so the slice is never indexed out of range.\<close>

function binarySearchLoop :: "'a list \<Rightarrow> (int \<Rightarrow> 'a \<Rightarrow> int) \<Rightarrow> int \<Rightarrow> int \<Rightarrow> int \<times> bool" where
  "binarySearchLoop x cmp low high =
     (if low \<le> high then
        let middle = low + (high - low) div 2; v = cmp middle (x ! nat middle) in
        if v < 0 then binarySearchLoop x cmp (middle + 1) high
        else if v > 0 then binarySearchLoop x cmp low (middle - 1)
        else (middle, True)
      else (low, False))"
  by pat_completeness auto
termination
  by (relation "measure (\<lambda>(x, cmp, low, high). nat (high - low + 1))") auto

declare binarySearchLoop.simps [simp del]

definition BinarySearchUniqueFunc :: "'a list \<Rightarrow> (int \<Rightarrow> 'a \<Rightarrow> int) \<Rightarrow> int \<times> bool" where
  "BinarySearchUniqueFunc x cmp =
     (if length x = 0 then (0, False) else binarySearchLoop x cmp 0 (int (length x) - 1))"

text \<open>\<open>sort.Search\<close> of the Go library, which \<open>slices.BinarySearchFunc\<close> and the line table use.\<close>

function sortSearchLoop :: "(nat \<Rightarrow> bool) \<Rightarrow> nat \<Rightarrow> nat \<Rightarrow> nat" where
  "sortSearchLoop f i j =
     (if i < j then
        let h = (i + j) div 2 in
        if \<not> f h then sortSearchLoop f (h + 1) j else sortSearchLoop f i h
      else i)"
  by pat_completeness auto
termination
  by (relation "measure (\<lambda>(f, i, j). j - i)") auto

declare sortSearchLoop.simps [simp del]

definition sortSearch :: "nat \<Rightarrow> (nat \<Rightarrow> bool) \<Rightarrow> nat" where
  "sortSearch n f = sortSearchLoop f 0 n"

definition BinarySearchFunc :: "'a list \<Rightarrow> 'b \<Rightarrow> ('a \<Rightarrow> 'b \<Rightarrow> int) \<Rightarrow> nat \<times> bool" where
  \<comment> \<open>\<open>slices.BinarySearchFunc\<close>\<close>
  "BinarySearchFunc x target cmp =
     (let i = sortSearch (length x) (\<lambda>h. cmp (x ! h) target \<ge> 0) in
      (i, i < length x \<and> cmp (x ! i) target = 0))"

section \<open>Building slices\<close>

definition Concatenate :: "'a list \<Rightarrow> 'a list \<Rightarrow> 'a list" where
  "Concatenate s1 s2 = (if length s2 = 0 then s1 else if length s1 = 0 then s2 else s1 @ s2)"

definition Splice :: "'a list \<Rightarrow> int \<Rightarrow> int \<Rightarrow> 'a list \<Rightarrow> 'a list" where
  "Splice s1 start deleteCount items =
     (let n = int (length s1);
          start1 = (if start < 0 then n + start else start);
          start2 = (if start1 < 0 then 0 else start1);
          start3 = (if start2 > n then n else start2);
          deleteCount1 = (if deleteCount < 0 then 0 else deleteCount);
          end = min (start3 + max deleteCount1 0) n in
      if start3 = end \<and> length items = 0 then s1
      else take (nat start3) s1 @ items @ drop (nat end) s1)"

definition ReplaceElement :: "'a list \<Rightarrow> int \<Rightarrow> 'a \<Rightarrow> 'a list or_panic" where
  "ReplaceElement sl i t =
     (if 0 \<le> i \<and> i < int (length sl) then Inr (sl[nat i := t]) else Inl ''index out of range'')"

definition InsertSorted :: "'a list \<Rightarrow> 'a \<Rightarrow> ('a \<Rightarrow> 'a \<Rightarrow> int) \<Rightarrow> 'a list" where
  "InsertSorted sl element cmp =
     (let (i, found) = BinarySearchFunc sl element cmp in take i sl @ [element] @ drop i sl)"

fun minAllLoop :: "('a \<Rightarrow> 'a \<Rightarrow> int) \<Rightarrow> 'a \<Rightarrow> 'a list \<Rightarrow> 'a list \<Rightarrow> 'a list" where
  "minAllLoop cmp m mins [] = mins"
| "minAllLoop cmp m mins (x # xs) =
     (let c = cmp x m in
      if c < 0 then minAllLoop cmp x [x] xs
      else if c = 0 then minAllLoop cmp m (mins @ [x]) xs
      else minAllLoop cmp m mins xs)"

definition MinAllFunc :: "'a list \<Rightarrow> ('a \<Rightarrow> 'a \<Rightarrow> int) \<Rightarrow> 'a list" where
  "MinAllFunc xs cmp = (case xs of [] \<Rightarrow> [] | m # rest \<Rightarrow> minAllLoop cmp m [m] rest)"

definition AppendIfUnique :: "'a list \<Rightarrow> 'a \<Rightarrow> 'a list" where
  "AppendIfUnique sl element = (if element \<in> set sl then sl else sl @ [element])"

fun dedupRest :: "'a list \<Rightarrow> 'a list \<Rightarrow> 'a list" where
  "dedupRest result [] = result"
| "dedupRest result (x # xs) = dedupRest (if x \<notin> set result then result @ [x] else result) xs"

fun dedupLoop :: "'a list \<Rightarrow> nat \<Rightarrow> 'a list \<Rightarrow> 'a list" where
  "dedupLoop sl i [] = sl"
| "dedupLoop sl i (x # xs) =
     (if x \<in> set (take i sl) then dedupRest (take i sl) (drop (Suc i) sl) else dedupLoop sl (Suc i) xs)"

definition Deduplicate :: "'a list \<Rightarrow> 'a list" where
  "Deduplicate sl = (if length sl > 1 then dedupLoop sl 0 sl else sl)"

text \<open>\<open>DeduplicateSorted\<close> appends to \<open>slice[:1]\<close>, so it writes into the array of its argument: the
  state is that array and the length of the result. It returns the result and the array.\<close>

fun dedupSortedLoop :: "('a \<Rightarrow> 'a \<Rightarrow> bool) \<Rightarrow> 'a \<Rightarrow> nat \<Rightarrow> 'a list \<Rightarrow> nat \<Rightarrow> nat \<Rightarrow> nat \<times> 'a list" where
  \<comment> \<open>the last kept element, the length of the result, the array, the index and the rounds left\<close>
  "dedupSortedLoop isEqual lst m arr i 0 = (m, arr)"
| "dedupSortedLoop isEqual lst m arr i (Suc k) =
     (let next = arr ! i in
      if isEqual lst next then dedupSortedLoop isEqual lst m arr (Suc i) k
      else dedupSortedLoop isEqual next (Suc m) (arr[m := next]) (Suc i) k)"

definition DeduplicateSorted :: "'a list \<Rightarrow> ('a \<Rightarrow> 'a \<Rightarrow> bool) \<Rightarrow> 'a list \<times> 'a list" where
  "DeduplicateSorted sl isEqual =
     (if length sl = 0 then (sl, sl)
      else let (m, arr) = dedupSortedLoop isEqual (sl ! 0) 1 sl 1 (length sl - 1) in (take m arr, arr))"

fun countUp :: "'a list \<Rightarrow> ('a \<Rightarrow> int) \<Rightarrow> 'a \<Rightarrow> int" where
  "countUp [] counts = counts"
| "countUp (v # vs) counts = countUp vs (counts(v := counts v + 1))"

fun countDown :: "'a list \<Rightarrow> ('a \<Rightarrow> int) \<Rightarrow> bool" where
  "countDown [] counts = True"
| "countDown (v # vs) counts =
     (let counts' = counts(v := counts v - 1) in if counts' v < 0 then False else countDown vs counts')"

definition UnorderedEqual :: "'a list \<Rightarrow> 'a list \<Rightarrow> bool" where
  "UnorderedEqual s1 s2 =
     (if length s1 \<noteq> length s2 then False else countDown s2 (countUp s1 (\<lambda>_. 0)))"

definition CompareBooleans :: "bool \<Rightarrow> bool \<Rightarrow> int" where
  "CompareBooleans a b = (if a \<and> \<not> b then 1 else if \<not> a \<and> b then -1 else 0)"

definition IndexAfter :: "string \<Rightarrow> string \<Rightarrow> nat \<Rightarrow> nat option or_panic" where
  "IndexAfter s pattern startIndex =
     (if startIndex > length s then Inl ''sl bounds out of range''
      else Inr (map_option (\<lambda>matched. matched + startIndex) (strIndex (drop startIndex s) pattern)))"

section \<open>Stack\<close>

record 'a Stack =
  data :: "'a list"

definition Push :: "'a \<Rightarrow> 'a Stack \<Rightarrow> 'a Stack" where
  "Push item s = s\<lparr>data := data s @ [item]\<rparr>"

definition Pop :: "'a Stack \<Rightarrow> ('a \<times> 'a Stack) or_panic" where
  "Pop s =
     (let l = length (data s) in
      if l = 0 then Inl ''stack is empty''
      else Inr (data s ! (l - 1), s\<lparr>data := take (l - 1) (data s)\<rparr>))"

definition Peek :: "'a Stack \<Rightarrow> 'a or_panic" where
  "Peek s =
     (let l = length (data s) in if l = 0 then Inl ''stack is empty'' else Inr (data s ! (l - 1)))"

definition Stack_Len :: "'a Stack \<Rightarrow> nat" where
  "Stack_Len s = length (data s)"

end
