(* ===== verification/Core_Slices_Props.thy ===== *)
theory Core_Slices_Props
  imports Core_Slices
begin

text \<open>
  Properties of the slice helpers of \<open>internal/core\<close>: the copy-avoiding loops compute their
  reference functions, the searches find what a sorted slice has, and the helpers that take a
  comparison function keep what its contract promises.
\<close>

section \<open>Copy-avoiding loops\<close>

lemma filterRest_eq: "filterRest f result xs = result @ filter f xs"
  by (induction f result xs rule: filterRest.induct) auto

lemma filterLoop_eq:
  "drop i sl = xs \<Longrightarrow> i \<le> length sl \<Longrightarrow> (\<forall>x\<in>set (take i sl). f x) \<Longrightarrow> filterLoop f sl i xs = filter f sl"
proof (induction f sl i xs rule: filterLoop.induct)
  case (1 f sl i)
  then show ?case by (simp add: filter_id_conv)
next
  case (2 f sl i x xs)
  have i: "i < length sl" using 2(2) by (cases "i < length sl") auto
  have t: "take (Suc i) sl = take i sl @ [x]" "drop (Suc i) sl = xs"
    using 2(2) i by (auto simp: take_Suc_conv_app_nth nth_via_drop drop_Suc tl_drop [symmetric])
  have sl: "sl = take i sl @ x # xs" using 2(2) by (metis append_take_drop_id)
  show ?case
  proof (cases "f x")
    case True
    then show ?thesis using 2 t i by simp
  next
    case False
    have "filter f sl = filter f (take i sl) @ filter f (x # xs)" by (subst sl) (simp only: filter_append)
    moreover have "filter f (take i sl) = take i sl" using 2(4) by (simp add: filter_id_conv)
    ultimately show ?thesis using False t by (simp add: filterRest_eq)
  qed
qed

lemma sameMapLoop_eq:
  "drop i sl = xs \<Longrightarrow> i \<le> length sl \<Longrightarrow> map f (take i sl) = take i sl \<Longrightarrow> sameMapLoop f sl i xs = map f sl"
proof (induction f sl i xs rule: sameMapLoop.induct)
  case (1 f sl i)
  then show ?case by simp
next
  case (2 f sl i x xs)
  have i: "i < length sl" using 2(2) by (cases "i < length sl") auto
  have t: "take (Suc i) sl = take i sl @ [x]" "drop (Suc i) sl = xs"
    using 2(2) i by (auto simp: take_Suc_conv_app_nth nth_via_drop drop_Suc tl_drop [symmetric])
  have sl: "sl = take i sl @ x # xs" using 2(2) by (metis append_take_drop_id)
  have "map f sl = map f (take i sl) @ f x # map f xs" by (subst sl) (simp only: map_append list.map)
  then show ?case using 2 t i by (auto simp: Let_def)
qed

definition firstOccurrences :: "'a list \<Rightarrow> 'a list" where
  "firstOccurrences xs = rev (remdups (rev xs))"

lemma firstOccurrences_snoc:
  "firstOccurrences (xs @ [x]) = (if x \<in> set xs then firstOccurrences xs else firstOccurrences xs @ [x])"
  by (simp add: firstOccurrences_def)

lemma set_firstOccurrences [simp]: "set (firstOccurrences xs) = set xs"
  by (simp add: firstOccurrences_def)

lemma firstOccurrences_distinct: "distinct xs \<Longrightarrow> firstOccurrences xs = xs"
  by (simp add: firstOccurrences_def distinct_remdups_id)

lemma dedupRest_eq: "dedupRest (firstOccurrences ys) xs = firstOccurrences (ys @ xs)"
proof (induction xs arbitrary: ys)
  case (Cons x xs)
  have e: "(if x \<notin> set (firstOccurrences ys) then firstOccurrences ys @ [x] else firstOccurrences ys) =
      firstOccurrences (ys @ [x])"
    by (simp add: firstOccurrences_snoc)
  show ?case using Cons [of "ys @ [x]"] unfolding dedupRest.simps e by simp
qed simp

lemma dedupLoop_eq:
  "drop i sl = xs \<Longrightarrow> i \<le> length sl \<Longrightarrow> distinct (take i sl) \<Longrightarrow> dedupLoop sl i xs = firstOccurrences sl"
proof (induction sl i xs rule: dedupLoop.induct)
  case (1 sl i)
  then show ?case by (simp add: firstOccurrences_distinct)
next
  case (2 sl i x xs)
  have i: "i < length sl" using 2(2) by (cases "i < length sl") auto
  have t: "take (Suc i) sl = take i sl @ [x]" "drop (Suc i) sl = xs"
    using 2(2) i by (auto simp: take_Suc_conv_app_nth nth_via_drop drop_Suc tl_drop [symmetric])
  have sl: "(take i sl @ [x]) @ xs = sl" using 2(2) by (metis append_take_drop_id append.assoc append_Cons append_Nil)
  show ?case
  proof (cases "x \<in> set (take i sl)")
    case True
    have "firstOccurrences (take i sl @ [x]) = take i sl"
      using True 2(4) by (simp add: firstOccurrences_snoc firstOccurrences_distinct)
    then show ?thesis using dedupRest_eq [of "take i sl @ [x]" xs] True t unfolding sl by simp
  next
    case False
    then show ?thesis using 2 t i by simp
  qed
qed

lemma Deduplicate_eq: "Deduplicate sl = firstOccurrences sl"
proof (cases "length sl > 1")
  case True
  then show ?thesis using dedupLoop_eq [of 0 sl sl] by (simp add: Deduplicate_def)
next
  case False
  then have "sl = [] \<or> (\<exists>x. sl = [x])" by (cases sl) auto
  then show ?thesis by (auto simp: Deduplicate_def firstOccurrences_def)
qed

lemma countUp_eq: "countUp xs counts v = counts v + int (count (mset xs) v)"
  by (induction xs counts arbitrary: v rule: countUp.induct) auto

lemma countDown_iff:
  "(\<forall>v. counts v \<ge> 0) \<Longrightarrow> countDown xs counts \<longleftrightarrow> (\<forall>v. int (count (mset xs) v) \<le> counts v)"
proof (induction xs arbitrary: counts)
  case (Cons x xs)
  let ?c = "counts(x := counts x - 1)"
  show ?case
  proof (cases "counts x = 0")
    case True
    then show ?thesis by (auto simp: Let_def intro!: exI [of _ x])
  next
    case False
    then have "\<forall>v. ?c v \<ge> 0" using Cons.prems by (auto simp: order_neq_le_trans)
    then have "countDown xs ?c \<longleftrightarrow> (\<forall>v. int (count (mset xs) v) \<le> ?c v)" by (rule Cons.IH)
    moreover have "(\<forall>v. int (count (mset xs) v) \<le> ?c v) \<longleftrightarrow> (\<forall>v. int (count (mset (x # xs)) v) \<le> counts v)"
      by (intro iff_allI) auto
    moreover have "\<not> ?c x < 0" using \<open>\<forall>v. ?c v \<ge> 0\<close> by (metis not_less)
    ultimately show ?thesis by (simp add: Let_def)
  qed
qed simp

lemma UnorderedEqual_mset: "UnorderedEqual s1 s2 \<longleftrightarrow> mset s1 = mset s2"
proof (cases "length s1 = length s2")
  case False
  then show ?thesis by (auto simp: UnorderedEqual_def dest: mset_eq_length)
next
  case True
  have "UnorderedEqual s1 s2 \<longleftrightarrow> (\<forall>v. count (mset s2) v \<le> count (mset s1) v)"
    using True countDown_iff [of "countUp s1 (\<lambda>_. 0)" s2] by (simp add: UnorderedEqual_def countUp_eq)
  also have "\<dots> \<longleftrightarrow> mset s2 \<subseteq># mset s1" by (simp add: subseteq_mset_def)
  also have "\<dots> \<longleftrightarrow> mset s1 = mset s2"
    using True by (metis size_mset subset_mset.order_refl subset_mset.le_less mset_subset_size order_less_irrefl)
  finally show ?thesis .
qed

text \<open>Dropping the elements equal to the last kept one.\<close>

fun keepNew :: "('a \<Rightarrow> 'a \<Rightarrow> bool) \<Rightarrow> 'a \<Rightarrow> 'a list \<Rightarrow> 'a list" where
  "keepNew eq l [] = []"
| "keepNew eq l (x # xs) = (if eq l x then keepNew eq l xs else x # keepNew eq x xs)"

lemma dedupSortedLoop_eq:
  assumes "length sl = i + k" "length res = m" "m \<le> i"
  shows "dedupSortedLoop eq lst m (res @ drop m sl) i k =
    (let r = res @ keepNew eq lst (drop i sl) in (length r, r @ drop (length r) sl))"
  using assms
proof (induction k arbitrary: i m res lst)
  case 0
  then show ?case by simp
next
  case (Suc k)
  let ?arr = "res @ drop m sl"
  have i: "i < length sl" using Suc.prems(1) by simp
  have nx: "?arr ! i = sl ! i" using Suc.prems i by (simp add: nth_append)
  have d: "drop i sl = sl ! i # drop (Suc i) sl" using i by (simp add: Cons_nth_drop_Suc)
  show ?case
  proof (cases "eq lst (sl ! i)")
    case True
    then show ?thesis using Suc.IH [of "Suc i" res m lst] Suc.prems nx unfolding d by (simp add: Let_def)
  next
    case False
    have m: "m < length sl" using Suc.prems by simp
    have "drop m sl = sl ! m # drop (Suc m) sl" using m by (simp add: Cons_nth_drop_Suc)
    then have "?arr[m := sl ! i] = (res @ [sl ! i]) @ drop (Suc m) sl" using Suc.prems(2) by (simp add: list_update_append)
    then show ?thesis
      using False Suc.IH [of "Suc i" "res @ [sl ! i]" "Suc m" "sl ! i"] Suc.prems nx unfolding d by (simp add: Let_def)
  qed
qed

lemma DeduplicateSorted_eq:
  "DeduplicateSorted (x # xs) eq = (let r = x # keepNew eq x xs in (r, r @ drop (length r) (x # xs)))"
  using dedupSortedLoop_eq [of "x # xs" 1 "length xs" "[x]" 1 eq x] by (simp add: DeduplicateSorted_def Let_def)

text \<open>The helpers that avoid copying or count their way return what the plain list functions
  return: Filter and SameMap leave the fast path at the first element that changes and still give
  the filtered and the mapped slice, Deduplicate keeps the first occurrences in order, and
  UnorderedEqual decides equality as multisets. DeduplicateSorted keeps each element that differs
  from the last kept one, and writes them into the front of the array of its argument, whose rest
  stays as it was.\<close>

theorem slice_helpers_reference:
  "Filter sl f = filter f sl \<and> SameMap sl g = map g sl \<and> Deduplicate sl = rev (remdups (rev sl))
   \<and> (UnorderedEqual s1 s2 \<longleftrightarrow> mset s1 = mset s2)
   \<and> DeduplicateSorted (x # xs) eq =
       (x # keepNew eq x xs, x # keepNew eq x xs @ drop (length (keepNew eq x xs)) xs)"
  using filterLoop_eq [of 0 sl sl f] sameMapLoop_eq [of 0 sl sl g] UnorderedEqual_mset [of s1 s2] Deduplicate_eq [of sl]
    DeduplicateSorted_eq [of x xs eq]
  by (simp add: Filter_def SameMap_def firstOccurrences_def Let_def)

section \<open>Searching\<close>

text \<open>What the comparison has to promise: it is negative up to some index, positive behind, and zero
  at most once in between.\<close>

definition separates :: "'a list \<Rightarrow> (int \<Rightarrow> 'a \<Rightarrow> int) \<Rightarrow> bool" where
  "separates x cmp = (\<forall>j < length x. \<forall>i < j. cmp (int j) (x ! j) \<le> 0 \<longrightarrow> cmp (int i) (x ! i) < 0)"

definition located :: "'a list \<Rightarrow> (int \<Rightarrow> 'a \<Rightarrow> int) \<Rightarrow> int \<times> bool \<Rightarrow> bool" where
  \<comment> \<open>the index of the match, or the place where it would be inserted\<close>
  "located x cmp r =
     (let (k, found) = r in
      0 \<le> k \<and> k \<le> int (length x)
      \<and> (if found then k < int (length x) \<and> cmp k (x ! nat k) = 0
         else (\<forall>i < length x. if int i < k then cmp (int i) (x ! i) < 0 else cmp (int i) (x ! i) > 0)))"

lemma separates_below: "separates x cmp \<Longrightarrow> j < length x \<Longrightarrow> i \<le> j \<Longrightarrow> cmp (int j) (x ! j) < 0 \<Longrightarrow> cmp (int i) (x ! i) < 0"
  unfolding separates_def by (cases "i = j") auto

lemma separates_above: "separates x cmp \<Longrightarrow> j < length x \<Longrightarrow> i \<le> j \<Longrightarrow> cmp (int i) (x ! i) > 0 \<Longrightarrow> cmp (int j) (x ! j) > 0"
  unfolding separates_def by (metis le_less less_asym not_le)

lemma binarySearchLoop_located:
  assumes "separates x cmp" "0 \<le> low" "low \<le> high + 1" "high < int (length x)"
    and "\<forall>i < length x. int i < low \<longrightarrow> cmp (int i) (x ! i) < 0"
    and "\<forall>i < length x. high < int i \<longrightarrow> cmp (int i) (x ! i) > 0"
  shows "located x cmp (binarySearchLoop x cmp low high)"
  using assms
proof (induction x cmp low high rule: binarySearchLoop.induct)
  case (1 x cmp low high)
  show ?case
  proof (cases "low \<le> high")
    case False
    then have "low = high + 1" using 1(5) by simp
    then show ?thesis using False 1(4,6-8) by (subst binarySearchLoop.simps) (auto simp: located_def)
  next
    case True
    define mid where "mid = low + (high - low) div 2"
    have mid: "low \<le> mid" "mid \<le> high" "0 \<le> mid" using True 1(4) unfolding mid_def by auto
    then have n: "nat mid < length x" "int (nat mid) = mid" using 1(6) by auto
    have e: "binarySearchLoop x cmp low high =
      (if cmp mid (x ! nat mid) < 0 then binarySearchLoop x cmp (mid + 1) high
       else if cmp mid (x ! nat mid) > 0 then binarySearchLoop x cmp low (mid - 1) else (mid, True))"
      using True by (subst binarySearchLoop.simps) (simp add: mid_def Let_def)
    consider (less) "cmp mid (x ! nat mid) < 0" | (greater) "cmp mid (x ! nat mid) > 0" | (eq) "cmp mid (x ! nat mid) = 0"
      by linarith
    then show ?thesis
    proof cases
      case less
      have below: "\<forall>i < length x. int i < mid + 1 \<longrightarrow> cmp (int i) (x ! i) < 0"
        using separates_below [OF 1(3) n(1)] less n(2) by auto
      have "located x cmp (binarySearchLoop x cmp (mid + 1) high)"
        by (rule 1(1) [OF True mid_def refl less 1(3) _ _ 1(6) below 1(8)]) (use mid in simp_all)
      then show ?thesis using e less by simp
    next
      case greater
      have above: "\<forall>i < length x. mid - 1 < int i \<longrightarrow> cmp (int i) (x ! i) > 0"
        using separates_above [OF 1(3), of _ "nat mid"] greater n(2) by auto
      have "located x cmp (binarySearchLoop x cmp low (mid - 1))"
        by (rule 1(2) [OF True mid_def refl _ greater 1(3) 1(4) _ _ 1(7) above]) (use greater mid 1(6) in simp_all)
      then show ?thesis using e greater by simp
    next
      case eq
      then show ?thesis using e mid 1(6) by (simp add: located_def)
    qed
  qed
qed

text \<open>BinarySearchUniqueFunc finds the match if there is one and otherwise the place where it
  would stand: for a comparison that is negative before the target and positive behind it, the
  returned index is in range, a reported match compares equal, and without a match everything
  before the index compares below and everything from it on above the target.\<close>

theorem BinarySearchUniqueFunc_locates:
  assumes "separates x cmp"
  shows "located x cmp (BinarySearchUniqueFunc x cmp)"
  using binarySearchLoop_located [OF assms, of 0 "int (length x) - 1"]
  by (cases "x = []") (auto simp: BinarySearchUniqueFunc_def located_def)

theorem BinarySearchUniqueFunc_locates_witness:
  "located [2, 4, 6 :: int] (\<lambda>_ v. v - 4) (BinarySearchUniqueFunc [2, 4, 6] (\<lambda>_ v. v - 4))
   \<and> BinarySearchUniqueFunc [2, 4, 6 :: int] (\<lambda>_ v. v - 4) = (1, True)"
proof -
  have "separates [2, 4, 6 :: int] (\<lambda>_ v. v - 4)" unfolding separates_def by (simp add: All_less_Suc)
  moreover have "BinarySearchUniqueFunc [2, 4, 6 :: int] (\<lambda>_ v. v - 4) = (1, True)" by code_simp
  ultimately show ?thesis using BinarySearchUniqueFunc_locates by blast
qed

text \<open>\<open>sort.Search\<close> on a predicate that, once true, stays true.\<close>

lemma sortSearchLoop_first:
  assumes "\<forall>a b. a \<le> b \<and> b < n \<and> f a \<longrightarrow> f b" "i \<le> j" "j \<le> n" "\<forall>a<i. \<not> f a" "\<forall>b. j \<le> b \<and> b < n \<longrightarrow> f b"
  shows "sortSearchLoop f i j \<le> n \<and> (\<forall>a < sortSearchLoop f i j. \<not> f a) \<and> (\<forall>b. sortSearchLoop f i j \<le> b \<and> b < n \<longrightarrow> f b)"
  using assms
proof (induction f i j rule: sortSearchLoop.induct)
  case (1 f i j)
  show ?case
  proof (cases "i < j")
    case False
    then have e: "sortSearchLoop f i j = i" by (subst sortSearchLoop.simps) simp
    show ?thesis unfolding e using False 1(4-7) by auto
  next
    case True
    define h where "h = (i + j) div 2"
    have h: "i \<le> h" "h < j" using True unfolding h_def by auto
    have e: "sortSearchLoop f i j = (if \<not> f h then sortSearchLoop f (h + 1) j else sortSearchLoop f i h)"
      using True by (subst sortSearchLoop.simps) (simp add: h_def Let_def)
    show ?thesis
    proof (cases "f h")
      case False
      have below: "\<forall>a<h + 1. \<not> f a"
      proof (intro allI impI notI)
        fix a
        assume "a < h + 1" "f a"
        moreover have "h < n" using h(2) 1(5) by simp
        ultimately have "f h" using 1(3) [rule_format, of a h] by simp
        then show False using False by simp
      qed
      have "h + 1 \<le> j" using h by simp
      then show ?thesis using 1(1) [OF True h_def False 1(3) _ 1(5) below 1(7)] e False by simp
    next
      case fh: True
      have above: "\<forall>b. h \<le> b \<and> b < n \<longrightarrow> f b" using fh 1(3) by blast
      have "h \<le> n" "\<not> \<not> f h" using h 1(5) fh by simp_all
      then show ?thesis using 1(2) [OF True h_def _ 1(3) h(1) _ 1(6) above] e fh by simp
    qed
  qed
qed

lemma sortSearch_first:
  assumes "\<forall>a b. a \<le> b \<and> b < n \<and> f a \<longrightarrow> f b"
  shows "sortSearch n f \<le> n \<and> (\<forall>a < sortSearch n f. \<not> f a) \<and> (\<forall>b. sortSearch n f \<le> b \<and> b < n \<longrightarrow> f b)"
  unfolding sortSearch_def by (rule sortSearchLoop_first [OF assms]) auto

section \<open>Helpers with a comparison function\<close>

context comparator
begin

definition ordered :: "'a list \<Rightarrow> bool" where
  "ordered xs = sorted_wrt (\<lambda>a b. cmp a b \<le> 0) xs"

lemma ordered_nth: "ordered xs \<Longrightarrow> i \<le> j \<Longrightarrow> j < length xs \<Longrightarrow> cmp (xs ! i) (xs ! j) \<le> 0"
  unfolding ordered_def by (cases "i = j") (auto simp: sorted_wrt_iff_nth_less)

lemma BinarySearchFunc_bound:
  assumes "ordered xs" "BinarySearchFunc xs e cmp = (i, found)"
  shows "i \<le> length xs" "\<forall>a\<in>set (take i xs). cmp a e < 0" "\<forall>b\<in>set (drop i xs). cmp e b \<le> 0"
proof -
  let ?f = "\<lambda>h. cmp (xs ! h) e \<ge> 0"
  have i: "i = sortSearch (length xs) ?f" using assms(2) by (simp add: BinarySearchFunc_def Let_def)
  have mono: "\<forall>a b. a \<le> b \<and> b < length xs \<and> ?f a \<longrightarrow> ?f b"
  proof (intro allI impI)
    fix a b
    assume h: "a \<le> b \<and> b < length xs \<and> ?f a"
    have "cmp e (xs ! a) \<le> 0" using h antisym [of "xs ! a" e] by simp
    then have "cmp e (xs ! b) \<le> 0" using trans ordered_nth [OF assms(1)] h by blast
    then show "?f b" using antisym [of "xs ! b" e] by simp
  qed
  note first = sortSearch_first [OF mono, folded i]
  show "i \<le> length xs" using first by blast
  show "\<forall>a\<in>set (take i xs). cmp a e < 0" using first by (auto simp: in_set_conv_nth not_le)
  show "\<forall>b\<in>set (drop i xs). cmp e b \<le> 0"
  proof
    fix b
    assume "b \<in> set (drop i xs)"
    then obtain j where "j < length (drop i xs)" "b = drop i xs ! j" by (metis in_set_conv_nth)
    then have j: "b = xs ! (i + j)" "i + j < length xs" by simp_all
    then have "?f (i + j)" using first by simp
    then show "cmp e b \<le> 0" using antisym [of b e] j(1) by simp
  qed
qed

lemma InsertSorted_ordered:
  assumes "ordered xs"
  shows "ordered (InsertSorted xs e cmp)" "mset (InsertSorted xs e cmp) = add_mset e (mset xs)"
proof -
  obtain i found where b: "BinarySearchFunc xs e cmp = (i, found)" by force
  note bound = BinarySearchFunc_bound [OF assms b]
  have r: "InsertSorted xs e cmp = take i xs @ [e] @ drop i xs" by (simp add: InsertSorted_def b)
  have xs: "sorted_wrt (\<lambda>a b. cmp a b \<le> 0) (take i xs @ drop i xs)" using assms by (simp add: ordered_def)
  show "ordered (InsertSorted xs e cmp)"
    using xs bound(2,3) unfolding r ordered_def sorted_wrt_append by force
  show "mset (InsertSorted xs e cmp) = add_mset e (mset xs)"
    unfolding r by (metis append_take_drop_id mset_append union_mset_add_mset_right mset.simps append_Cons append_Nil)
qed

lemma minAllLoop_eq:
  assumes "\<forall>y\<in>set ys. cmp m y \<le> 0" "mins = filter (\<lambda>y. cmp y m \<le> 0) ys" "m \<in> set ys"
  shows "minAllLoop cmp m mins xs = filter (\<lambda>x. \<forall>y\<in>set (ys @ xs). cmp x y \<le> 0) (ys @ xs)"
  using assms
proof (induction xs arbitrary: m mins ys)
  case Nil
  have "cmp y m \<le> 0 \<longleftrightarrow> (\<forall>z\<in>set ys. cmp y z \<le> 0)" for y using Nil trans by blast
  then show ?case using Nil by simp
next
  case (Cons x xs)
  have split: "(ys @ [x]) @ xs = ys @ x # xs" by simp
  consider "cmp x m < 0" | "cmp x m = 0" | "cmp x m > 0" by linarith
  then show ?case
  proof cases
    case 1
    have less: "cmp x y < 0" if "y \<in> set ys" for y using 1 Cons.prems(1) that less_trans by blast
    then have f: "[x] = filter (\<lambda>y. cmp y x \<le> 0) (ys @ [x])"
      using antisym [of x] by (auto simp: filter_empty_conv not_le)
    have all: "\<forall>y\<in>set (ys @ [x]). cmp x y \<le> 0" using less by fastforce
    have "minAllLoop cmp m mins (x # xs) = minAllLoop cmp x [x] xs" using 1 by (simp add: Let_def)
    also note Cons.IH [OF all f, unfolded split]
    finally show ?thesis by simp
  next
    case 2
    then have f: "mins @ [x] = filter (\<lambda>y. cmp y m \<le> 0) (ys @ [x])" using Cons.prems(2) by simp
    have "cmp m x \<le> 0" using 2 antisym [of x m] by simp
    then have all: "\<forall>y\<in>set (ys @ [x]). cmp m y \<le> 0" using Cons.prems(1) by simp
    have "minAllLoop cmp m mins (x # xs) = minAllLoop cmp m (mins @ [x]) xs" using 2 by (simp add: Let_def)
    also note Cons.IH [OF all f, unfolded split]
    finally show ?thesis using Cons.prems(3) by simp
  next
    case 3
    then have f: "mins = filter (\<lambda>y. cmp y m \<le> 0) (ys @ [x])" using Cons.prems(2) by simp
    have "cmp m x \<le> 0" using 3 antisym [of x m] by simp
    then have all: "\<forall>y\<in>set (ys @ [x]). cmp m y \<le> 0" using Cons.prems(1) by simp
    have "minAllLoop cmp m mins (x # xs) = minAllLoop cmp m mins xs" using 3 by (simp add: Let_def)
    also note Cons.IH [OF all f, unfolded split]
    finally show ?thesis using Cons.prems(3) by simp
  qed
qed

lemma MinAllFunc_eq: "MinAllFunc xs cmp = filter (\<lambda>x. \<forall>y\<in>set xs. cmp x y \<le> 0) xs"
proof (cases xs)
  case (Cons m rest)
  then show ?thesis using minAllLoop_eq [of "[m]" m "[m]" rest] by (simp add: MinAllFunc_def)
qed (simp add: MinAllFunc_def)

end

text \<open>The helpers with a comparison function rely on no more than its contract: for every
  antisymmetric and transitive comparison, also one that identifies different elements,
  InsertSorted puts a new element into a sorted slice at a place that keeps it sorted and loses
  nothing, and MinAllFunc returns exactly the elements that are minimal, in their order.\<close>

theorem comparison_helpers:
  assumes "comparator cmp" "sorted_wrt (\<lambda>a b. cmp a b \<le> 0) xs"
  shows "sorted_wrt (\<lambda>a b. cmp a b \<le> 0) (InsertSorted xs e cmp)
    \<and> mset (InsertSorted xs e cmp) = add_mset e (mset xs)
    \<and> MinAllFunc ys cmp = filter (\<lambda>x. list_all (\<lambda>y. cmp x y \<le> 0) ys) ys"
  using comparator.InsertSorted_ordered [OF assms(1), of xs e] comparator.MinAllFunc_eq [OF assms(1), of ys] assms(2)
  unfolding comparator.ordered_def [OF assms(1)] list_all_iff by blast

theorem comparison_helpers_witness:
  "sorted_wrt (\<lambda>a b. strCompare a b \<le> 0) (InsertSorted [''a'', ''c''] ''b'' strCompare)
   \<and> MinAllFunc [''c'', ''a'', ''b'', ''a''] strCompare = [''a'', ''a'']"
proof -
  have "sorted_wrt (\<lambda>a b. strCompare a b \<le> 0) [''a'', ''c'']" by code_simp
  from comparison_helpers [OF strCompare.comparator_axioms this, of "''b''" "[''c'', ''a'', ''b'', ''a'']"]
  show ?thesis by simp
qed

end
