(* ===== verification/Core_Text.thy ===== *)
theory Core_Text
  imports Core_Slices_Props
begin

text \<open>
  Package \<open>internal/core\<close>: positions and ranges of a text (\<open>text.go\<close>), edits (\<open>textchange.go\<close>),
  line tables and UTF-16 lengths (\<open>core.go\<close>), module name patterns (\<open>pattern.go\<close>) and three-valued
  options (\<open>tristate.go\<close>). A \<open>TextPos\<close> is an \<open>int32\<close>, kept as an integer that conversions wrap.
  The line table is computed for texts below \<open>2 ^ 31\<close> bytes, whose positions all fit.
\<close>

section \<open>Ranges\<close>

definition textPos :: "int \<Rightarrow> int" where
  \<comment> \<open>the conversion to \<open>int32\<close>\<close>
  "textPos x = signed_take_bit 31 x"

record TextRange =
  tr_pos :: int
  tr_end :: int

definition NewTextRange :: "int \<Rightarrow> int \<Rightarrow> TextRange" where
  "NewTextRange p e = \<lparr>tr_pos = textPos p, tr_end = textPos e\<rparr>"

definition UndefinedTextRange :: TextRange where
  "UndefinedTextRange = \<lparr>tr_pos = -1, tr_end = -1\<rparr>"

definition TextRange_Pos :: "TextRange \<Rightarrow> int" where "TextRange_Pos t = tr_pos t"

definition TextRange_End :: "TextRange \<Rightarrow> int" where "TextRange_End t = tr_end t"

definition TextRange_Len :: "TextRange \<Rightarrow> int" where
  "TextRange_Len t = textPos (tr_end t - tr_pos t)"

definition TextRange_IsValid :: "TextRange \<Rightarrow> bool" where
  "TextRange_IsValid t = (tr_pos t \<ge> 0 \<or> tr_end t \<ge> 0)"

definition TextRange_Contains :: "TextRange \<Rightarrow> int \<Rightarrow> bool" where
  "TextRange_Contains t p = (p \<ge> tr_pos t \<and> p < tr_end t)"

definition ContainsInclusive :: "TextRange \<Rightarrow> int \<Rightarrow> bool" where
  "ContainsInclusive t p = (p \<ge> tr_pos t \<and> p \<le> tr_end t)"

definition ContainsExclusive :: "TextRange \<Rightarrow> int \<Rightarrow> bool" where
  "ContainsExclusive t p = (tr_pos t < p \<and> p < tr_end t)"

definition WithPos :: "TextRange \<Rightarrow> int \<Rightarrow> TextRange" where
  "WithPos t p = \<lparr>tr_pos = textPos p, tr_end = tr_end t\<rparr>"

definition WithEnd :: "TextRange \<Rightarrow> int \<Rightarrow> TextRange" where
  "WithEnd t e = \<lparr>tr_pos = tr_pos t, tr_end = textPos e\<rparr>"

definition ContainedBy :: "TextRange \<Rightarrow> TextRange \<Rightarrow> bool" where
  "ContainedBy t t2 = (tr_pos t2 \<le> tr_pos t \<and> tr_end t2 \<ge> tr_end t)"

definition Overlaps :: "TextRange \<Rightarrow> TextRange \<Rightarrow> bool" where
  "Overlaps t t2 = (max (tr_pos t) (tr_pos t2) < min (tr_end t) (tr_end t2))"

definition Intersects :: "TextRange \<Rightarrow> TextRange \<Rightarrow> bool" where
  "Intersects t t2 = (max (tr_pos t) (tr_pos t2) \<le> min (tr_end t) (tr_end t2))"

definition CompareTextRanges :: "TextRange \<Rightarrow> TextRange \<Rightarrow> int" where
  \<comment> \<open>the differences are taken as \<open>int\<close> and do not wrap\<close>
  "CompareTextRanges r1 r2 = (let c = tr_pos r1 - tr_pos r2 in if c \<noteq> 0 then c else tr_end r1 - tr_end r2)"

interpretation textRanges: strict_comparator CompareTextRanges
  by unfold_locales (auto simp: CompareTextRanges_def Let_def split: if_splits)

section \<open>Edits\<close>

record TextChange =
  tc_range :: TextRange
  NewText :: string

definition sliceOf :: "string \<Rightarrow> int \<Rightarrow> int \<Rightarrow> string or_panic" where
  \<comment> \<open>\<open>text[a:b]\<close>\<close>
  "sliceOf s a b =
     (if 0 \<le> a \<and> a \<le> b \<and> b \<le> int (length s) then Inr (slice s (nat a) (nat b))
      else Inl ''slice bounds out of range'')"

definition ApplyTo :: "TextChange \<Rightarrow> string \<Rightarrow> string or_panic" where
  "ApplyTo t s =
     bind_panic (sliceOf s 0 (TextRange_Pos (tc_range t))) (\<lambda>left.
     bind_panic (sliceOf s (TextRange_End (tc_range t)) (int (length s))) (\<lambda>right.
     Inr (left @ NewText t @ right)))"

fun bulkLoop :: "string \<Rightarrow> int \<Rightarrow> string \<Rightarrow> TextChange list \<Rightarrow> string or_panic" where
  "bulkLoop s lastEnd b [] = bind_panic (sliceOf s lastEnd (int (length s))) (\<lambda>rest. Inr (b @ rest))"
| "bulkLoop s lastEnd b (e # edits) =
     (let start = TextRange_Pos (tc_range e) in
      bind_panic (if start \<noteq> lastEnd then sliceOf s lastEnd (TextRange_Pos (tc_range e)) else Inr []) (\<lambda>kept.
        bulkLoop s (TextRange_End (tc_range e)) (b @ kept @ NewText e) edits))"

definition ApplyBulkEdits :: "string \<Rightarrow> TextChange list \<Rightarrow> string or_panic" where
  "ApplyBulkEdits s edits = bulkLoop s 0 [] edits"

section \<open>Lines\<close>

lemma decode_step:
  assumes "p < length s" "(ch, sz) = decodeRune (drop p s)"
  shows "0 < sz" "length s - (p + sz) < length s - p"
proof -
  show "0 < sz" using decodeRune_size_pos [of "drop p s"] assms by (cases "decodeRune (drop p s)") simp
  then show "length s - (p + sz) < length s - p" using assms(1) by simp
qed

function lineStartsLoop :: "string \<Rightarrow> nat \<Rightarrow> nat \<Rightarrow> nat list" where
  \<comment> \<open>the values yielded from \<open>pos\<close> on\<close>
  "lineStartsLoop s p lineStart =
     (if p < length s then
        let b = byte_of (s ! p) in
        if b < 0x80 then
          let p1 = p + 1 in
          if b = 13 then
            let p2 = (if p1 < length s \<and> byte_of (s ! p1) = 10 then p1 + 1 else p1) in
            lineStart # lineStartsLoop s p2 p2
          else if b = 10 then lineStart # lineStartsLoop s p1 p1
          else lineStartsLoop s p1 lineStart
        else
          let (ch, size) = decodeRune (drop p s); p1 = p + size in
          if IsLineBreak ch then lineStart # lineStartsLoop s p1 p1 else lineStartsLoop s p1 lineStart
      else [lineStart])"
  by pat_completeness auto
termination
  by (relation "measure (\<lambda>(s, p, lineStart). length s - p)") (auto intro: decode_step(2) split: if_splits)

declare lineStartsLoop.simps [simp del]

definition ComputeECMALineStarts :: "string \<Rightarrow> nat list" where
  "ComputeECMALineStarts s = lineStartsLoop s 0 0"

definition PositionToLineAndByteOffset :: "int \<Rightarrow> nat list \<Rightarrow> (int \<times> int) or_panic" where
  "PositionToLineAndByteOffset position lineStarts =
     (let line = max (int (sortSearch (length lineStarts) (\<lambda>i. int (lineStarts ! i) > position)) - 1) 0 in
      if line < int (length lineStarts) then Inr (line, position - int (lineStarts ! nat line))
      else Inl ''index out of range'')"

definition utf16RuneLen :: "rune \<Rightarrow> int" where
  \<comment> \<open>\<open>utf16.RuneLen\<close>\<close>
  "utf16RuneLen r = (if r < 0xD800 \<or> 0xE000 \<le> r \<and> r < 0x10000 then 1 else if 0x10000 \<le> r \<and> r \<le> 0x10FFFF then 2 else -1)"

fun utf16Loop :: "string \<Rightarrow> nat \<Rightarrow> string \<Rightarrow> int" where
  "utf16Loop s i [] = int (length s)"
| "utf16Loop s i (c # cs) =
     (if byte_of c \<ge> 0x80 then int i + sum_list (map utf16RuneLen (decodeRunes (drop i s))) else utf16Loop s (Suc i) cs)"

definition UTF16Len :: "string \<Rightarrow> int" where
  "UTF16Len s = utf16Loop s 0 s"

section \<open>Patterns\<close>

record Pattern =
  pat_Text :: string
  StarIndex :: int

definition TryParsePattern :: "string \<Rightarrow> Pattern" where
  "TryParsePattern pattern =
     (case strIndex pattern ''*'' of
        None \<Rightarrow> \<lparr>pat_Text = pattern, StarIndex = -1\<rparr>
      | Some starIndex \<Rightarrow>
          if \<not> strContains (drop (starIndex + 1) pattern) ''*''
          then \<lparr>pat_Text = pattern, StarIndex = int starIndex\<rparr>
          else \<lparr>pat_Text = [], StarIndex = 0\<rparr>)"

definition Pattern_IsValid :: "Pattern \<Rightarrow> bool" where
  "Pattern_IsValid p = (StarIndex p = -1 \<or> StarIndex p < int (length (pat_Text p)))"

definition Pattern_Matches :: "Pattern \<Rightarrow> string \<Rightarrow> bool or_panic" where
  "Pattern_Matches p candidate =
     (if StarIndex p = -1 then Inr (pat_Text p = candidate)
      else if int (length candidate) < StarIndex p then Inr False
      else bind_panic (sliceOf (pat_Text p) 0 (StarIndex p)) (\<lambda>prefix.
        if \<not> strHasPrefix candidate prefix then Inr False
        else bind_panic (sliceOf (pat_Text p) (StarIndex p + 1) (int (length (pat_Text p)))) (\<lambda>suffix.
          Inr (strHasSuffix candidate suffix))))"

definition MatchedText :: "Pattern \<Rightarrow> string \<Rightarrow> string or_panic" where
  "MatchedText p candidate =
     bind_panic (Pattern_Matches p candidate) (\<lambda>m.
       if \<not> m then Inl ''candidate does not match pattern''
       else if StarIndex p = -1 then Inr []
       else sliceOf candidate (StarIndex p) (int (length candidate) - int (length (pat_Text p)) + StarIndex p + 1))"

fun bestPatternLoop :: "('a \<Rightarrow> Pattern) \<Rightarrow> string \<Rightarrow> 'a \<Rightarrow> int \<Rightarrow> 'a list \<Rightarrow> 'a or_panic" where
  "bestPatternLoop getPattern candidate best longest [] = Inr best"
| "bestPatternLoop getPattern candidate best longest (v # values) =
     (let p = getPattern v in
      if StarIndex p = -1 \<or> StarIndex p > longest then
        bind_panic (Pattern_Matches p candidate) (\<lambda>m.
          if m then bestPatternLoop getPattern candidate v (StarIndex p) values
          else bestPatternLoop getPattern candidate best longest values)
      else bestPatternLoop getPattern candidate best longest values)"

definition FindBestPatternMatch :: "'a \<Rightarrow> 'a list \<Rightarrow> ('a \<Rightarrow> Pattern) \<Rightarrow> string \<Rightarrow> 'a or_panic" where
  "FindBestPatternMatch zero values getPattern candidate = bestPatternLoop getPattern candidate zero (-1) values"

section \<open>Tristate\<close>

datatype Tristate = TSUnknown | TSFalse | TSTrue

definition IsTrue :: "Tristate \<Rightarrow> bool" where "IsTrue t = (t = TSTrue)"
definition IsTrueOrUnknown :: "Tristate \<Rightarrow> bool" where "IsTrueOrUnknown t = (t = TSTrue \<or> t = TSUnknown)"
definition IsFalse :: "Tristate \<Rightarrow> bool" where "IsFalse t = (t = TSFalse)"
definition IsFalseOrUnknown :: "Tristate \<Rightarrow> bool" where "IsFalseOrUnknown t = (t = TSFalse \<or> t = TSUnknown)"
definition IsUnknown :: "Tristate \<Rightarrow> bool" where "IsUnknown t = (t = TSUnknown)"

definition DefaultIfUnknown :: "Tristate \<Rightarrow> Tristate \<Rightarrow> Tristate" where
  "DefaultIfUnknown t v = (if t = TSUnknown then v else t)"

definition Tristate_UnmarshalJSON :: "string \<Rightarrow> Tristate" where
  "Tristate_UnmarshalJSON s = (if s = ''true'' then TSTrue else if s = ''false'' then TSFalse else TSUnknown)"

definition Tristate_MarshalJSON :: "Tristate \<Rightarrow> string" where
  "Tristate_MarshalJSON t = (case t of TSTrue \<Rightarrow> ''true'' | TSFalse \<Rightarrow> ''false'' | TSUnknown \<Rightarrow> ''null'')"

definition BoolToTristate :: "bool \<Rightarrow> Tristate" where
  "BoolToTristate b = (if b then TSTrue else TSFalse)"

end
