(* ===== verification/Core_Text_Props.thy ===== *)
theory Core_Text_Props
  imports Core_Text
begin

text \<open>
  Properties of the text helpers of \<open>internal/core\<close>: bulk edits agree with single edits, the line
  table inverts positions, lengths in UTF-16 agree with the runes, and patterns match what lies
  around their star.
\<close>

section \<open>Bulk edits\<close>

fun editsOk :: "int \<Rightarrow> int \<Rightarrow> TextChange list \<Rightarrow> bool" where
  \<comment> \<open>edits in order that do not overlap, from \<open>lst\<close> to the end \<open>n\<close> of the text\<close>
  "editsOk lst n [] = (lst \<le> n)"
| "editsOk lst n (e # edits) =
     (lst \<le> tr_pos (tc_range e) \<and> tr_pos (tc_range e) \<le> tr_end (tc_range e) \<and> editsOk (tr_end (tc_range e)) n edits)"

lemma editsOk_le: "editsOk lst n edits \<Longrightarrow> lst \<le> n"
  by (induction edits arbitrary: lst) force+

text \<open>The reference: each edit on its own, the last one first.\<close>

definition applyLastFirst :: "TextChange list \<Rightarrow> string \<Rightarrow> string or_panic" where
  "applyLastFirst edits s = foldr (\<lambda>e r. bind_panic r (ApplyTo e)) edits (Inr s)"

lemma sliceOf_Inr: "0 \<le> a \<Longrightarrow> a \<le> b \<Longrightarrow> b \<le> int (length s) \<Longrightarrow> sliceOf s a b = Inr (slice s (nat a) (nat b))"
  by (simp add: sliceOf_def)

lemma bulkLoop_eq:
  assumes "editsOk lst (int (length s)) edits" "0 \<le> lst"
  shows "\<exists>r. bulkLoop s lst b edits = Inr (b @ r) \<and> applyLastFirst edits s = Inr (take (nat lst) s @ r)"
  using assms
proof (induction edits arbitrary: lst b)
  case Nil
  then have "sliceOf s lst (int (length s)) = Inr (drop (nat lst) s)" by (simp add: sliceOf_Inr slice_def)
  then show ?case by (simp add: applyLastFirst_def)
next
  case (Cons e edits)
  let ?p = "tr_pos (tc_range e)" and ?q = "tr_end (tc_range e)"
  have h: "lst \<le> ?p" "?p \<le> ?q" "editsOk ?q (int (length s)) edits" "0 \<le> ?q" "?q \<le> int (length s)"
    using Cons.prems editsOk_le [of ?q "int (length s)" edits] by auto
  define kept where "kept = slice s (nat lst) (nat ?p)"
  obtain r where r: "bulkLoop s ?q (b @ kept @ NewText e) edits = Inr ((b @ kept @ NewText e) @ r)"
      "applyLastFirst edits s = Inr (take (nat ?q) s @ r)"
    using Cons.IH [OF h(3,4)] by blast
  have k: "(if ?p \<noteq> lst then sliceOf s lst ?p else Inr []) = Inr kept"
    using h Cons.prems(2) by (auto simp: kept_def sliceOf_Inr slice_def)
  have t: "take (nat lst) s @ kept = take (nat ?p) s"
    unfolding kept_def slice_def using h(1) by (metis add_diff_inverse_nat nat_mono not_less take_add)
  have a: "ApplyTo e (take (nat ?q) s @ r) = Inr (take (nat ?p) s @ NewText e @ r)"
  proof -
    have len: "length (take (nat ?q) s) = nat ?q" using h by simp
    have "sliceOf (take (nat ?q) s @ r) 0 ?p = Inr (take (nat ?p) s)"
      using h Cons.prems(2) len by (subst sliceOf_Inr) (auto simp: slice_def nat_mono)
    moreover have "sliceOf (take (nat ?q) s @ r) ?q (int (length (take (nat ?q) s @ r))) = Inr r"
      using h len by (subst sliceOf_Inr) (auto simp: slice_def)
    ultimately show ?thesis by (simp add: ApplyTo_def TextRange_Pos_def TextRange_End_def)
  qed
  have "applyLastFirst (e # edits) s = Inr (take (nat lst) s @ kept @ NewText e @ r)"
    using r(2) a t by (simp add: applyLastFirst_def)
  moreover have "bulkLoop s lst b (e # edits) = Inr (b @ kept @ NewText e @ r)"
    using r(1) unfolding bulkLoop.simps Let_def TextRange_Pos_def TextRange_End_def k by simp
  ultimately show ?case by blast
qed

text \<open>C28. Applying edits in bulk is applying them one by one: for edits in order that do not overlap
  and lie inside the text, ApplyBulkEdits does not panic and gives the text that applying each
  edit with ApplyTo gives, from the last edit to the first.\<close>

theorem ApplyBulkEdits_sequential:
  assumes "editsOk 0 (int (length s)) edits"
  shows "ApplyBulkEdits s edits = applyLastFirst edits s \<and> (\<exists>r. ApplyBulkEdits s edits = Inr r)"
  using bulkLoop_eq [OF assms, of "[]"] by (auto simp: ApplyBulkEdits_def)

theorem ApplyBulkEdits_sequential_witness:
  "let edits = [\<lparr>tc_range = NewTextRange 0 1, NewText = ''xy''\<rparr>, \<lparr>tc_range = NewTextRange 2 2, NewText = ''-''\<rparr>] in
   editsOk 0 (int (length ''abc'')) edits \<and> applyLastFirst edits ''abc'' = Inr ''xyb-c'' \<and> ApplyBulkEdits ''abc'' edits = Inr ''xyb-c''"
proof -
  let ?e = "[\<lparr>tc_range = NewTextRange 0 1, NewText = ''xy''\<rparr>, \<lparr>tc_range = NewTextRange 2 2, NewText = ''-''\<rparr>]"
  have "editsOk 0 (int (length ''abc'')) ?e" "applyLastFirst ?e ''abc'' = Inr ''xyb-c''" by code_simp+
  then show ?thesis using ApplyBulkEdits_sequential [of "''abc''" ?e] by simp
qed

section \<open>Lines\<close>

lemma lineStartsLoop_sorted:
  assumes "lineStart \<le> p" "p \<le> length s"
  shows "\<exists>rest. lineStartsLoop s p lineStart = lineStart # rest \<and> sorted_wrt (<) (lineStart # rest)
    \<and> (\<forall>x\<in>set rest. p < x \<and> x \<le> length s)"
  using assms
proof (induction s p lineStart rule: lineStartsLoop.induct)
  case (1 s p lineStart)
  show ?case
  proof (cases "p < length s")
    case False
    then show ?thesis by (subst lineStartsLoop.simps) simp
  next
    case True
    have step: "\<exists>rest. lineStart # lineStartsLoop s q q = lineStart # rest \<and> sorted_wrt (<) (lineStart # rest)
        \<and> (\<forall>x\<in>set rest. p < x \<and> x \<le> length s)"
      if "p < q" "q \<le> length s" "\<exists>rest. lineStartsLoop s q q = q # rest \<and> sorted_wrt (<) (q # rest)
        \<and> (\<forall>x\<in>set rest. q < x \<and> x \<le> length s)" for q
      using that 1(6) by fastforce
    have keep: "\<exists>rest. lineStartsLoop s q lineStart = lineStart # rest \<and> sorted_wrt (<) (lineStart # rest)
        \<and> (\<forall>x\<in>set rest. p < x \<and> x \<le> length s)"
      if "p < q" "\<exists>rest. lineStartsLoop s q lineStart = lineStart # rest \<and> sorted_wrt (<) (lineStart # rest)
        \<and> (\<forall>x\<in>set rest. q < x \<and> x \<le> length s)" for q
      using that by fastforce
    let ?b = "byte_of (s ! p) :: nat"
    show ?thesis
    proof (cases "?b < 0x80")
      case ascii: True
      define q where "q = (if ?b = 13 \<and> p + 1 < length s \<and> byte_of (s ! (p + 1)) = (10::nat) then p + 2 else p + 1)"
      have q: "p < q" "q \<le> length s" using True by (auto simp: q_def)
      consider (cr) "?b = 13" | (lf) "?b \<noteq> 13" "?b = 10" | (other) "?b \<noteq> 13" "?b \<noteq> 10" by blast
      then show ?thesis
      proof cases
        case cr
        then have e: "lineStartsLoop s p lineStart = lineStart # lineStartsLoop s q q"
          using True by (subst lineStartsLoop.simps) (simp add: q_def Let_def)
        show ?thesis unfolding e
          by (rule step [OF q]) (rule 1(1) [OF True refl ascii refl cr], use q cr in \<open>simp_all add: q_def\<close>)
      next
        case lf
        then have qq: "q = p + 1" by (simp add: q_def)
        have e: "lineStartsLoop s p lineStart = lineStart # lineStartsLoop s (p + 1) (p + 1)"
          using True lf by (subst lineStartsLoop.simps) (simp add: Let_def)
        show ?thesis unfolding e
          by (rule step) (use True in simp, use True in simp, rule 1(2) [OF True refl ascii refl lf], use True in simp_all)
      next
        case other
        have e: "lineStartsLoop s p lineStart = lineStartsLoop s (p + 1) lineStart"
          using True ascii other by (subst lineStartsLoop.simps) (simp add: Let_def)
        show ?thesis unfolding e
          by (rule keep, simp, rule 1(3) [OF True refl ascii refl other]) (use True 1(6) in simp_all)
      qed
    next
      case multi: False
      obtain ch sz where d: "decodeRune (drop p s) = (ch, sz)" by force
      have sz: "0 < sz" "p + sz \<le> length s"
        using decode_step(1) [OF True d [symmetric]] decodeRune_size_le [of "drop p s"] d True by auto
      show ?thesis
      proof (cases "IsLineBreak ch")
        case lb: True
        have e: "lineStartsLoop s p lineStart = lineStart # lineStartsLoop s (p + sz) (p + sz)"
          using True multi d lb by (subst lineStartsLoop.simps) (simp add: Let_def)
        show ?thesis unfolding e
          by (rule step) (use sz in simp, use sz in simp, rule 1(4) [OF True refl multi d [symmetric] refl refl lb], use sz in simp_all)
      next
        case nlb: False
        have e: "lineStartsLoop s p lineStart = lineStartsLoop s (p + sz) lineStart"
          using True multi d nlb by (subst lineStartsLoop.simps) (simp add: Let_def)
        show ?thesis unfolding e
          by (rule keep, use sz in simp, rule 1(5) [OF True refl multi d [symmetric] refl refl nlb]) (use sz 1(6) in simp_all)
      qed
    qed
  qed
qed

lemma ComputeECMALineStarts_sorted:
  "\<exists>rest. ComputeECMALineStarts s = 0 # rest \<and> sorted_wrt (<) (ComputeECMALineStarts s)
     \<and> (\<forall>x\<in>set (ComputeECMALineStarts s). x \<le> length s)"
  using lineStartsLoop_sorted [of 0 0 s] by (auto simp: ComputeECMALineStarts_def)

lemma PositionToLine_found:
  assumes "sorted_wrt (<) starts" "starts \<noteq> []" "int (starts ! 0) \<le> position"
  shows "\<exists>line < length starts. PositionToLineAndByteOffset position starts = Inr (int line, position - int (starts ! line))
    \<and> int (starts ! line) \<le> position \<and> (\<forall>j. line < j \<and> j < length starts \<longrightarrow> position < int (starts ! j))"
proof -
  let ?f = "\<lambda>i. int (starts ! i) > position"
  let ?k = "sortSearch (length starts) ?f"
  have "\<forall>a b. a \<le> b \<and> b < length starts \<and> ?f a \<longrightarrow> ?f b"
  proof (intro allI impI)
    fix a b
    assume h: "a \<le> b \<and> b < length starts \<and> ?f a"
    have "starts ! a \<le> starts ! b"
      using sorted_wrt_nth_less [OF assms(1), of a b] h by (cases "a = b") simp_all
    then show "?f b" using h by linarith
  qed
  note first = sortSearch_first [OF this]
  have k: "0 < ?k"
  proof (rule ccontr)
    assume "\<not> 0 < ?k"
    then have "?f 0" using first [THEN conjunct2, THEN conjunct2, rule_format, of 0] assms(2) by simp
    then show False using assms(3) by linarith
  qed
  have line: "?k - 1 < length starts" "max (int ?k - 1) 0 = int (?k - 1)" using first [THEN conjunct1] k by (auto simp: of_nat_diff)
  have "\<not> ?f (?k - 1)" using first [THEN conjunct2, THEN conjunct1, rule_format, of "?k - 1"] k by simp
  moreover have "position < int (starts ! j)" if "?k - 1 < j" "j < length starts" for j
  proof -
    have "?k \<le> j" using that(1) k by simp
    then show ?thesis using first that(2) by blast
  qed
  moreover have "PositionToLineAndByteOffset position starts = Inr (int (?k - 1), position - int (starts ! (?k - 1)))"
    using line unfolding PositionToLineAndByteOffset_def Let_def by simp
  ultimately show ?thesis using line(1) unfolding not_less by blast
qed

lemma utf16Loop_eq:
  "drop i s = cs \<Longrightarrow> i \<le> length s \<Longrightarrow> (\<forall>c\<in>set (take i s). byte_of c < 128) \<Longrightarrow>
     utf16Loop s i cs = int i + sum_list (map utf16RuneLen (decodeRunes (drop i s)))"
proof (induction cs arbitrary: i)
  case Nil
  then show ?case by simp
next
  case (Cons c cs)
  have i: "i < length s" using Cons.prems(1) by (cases "i < length s") auto
  have d: "drop (Suc i) s = cs" using Cons.prems(1) by (metis drop_Suc list.sel(3) tl_drop)
  show ?case
  proof (cases "byte_of c < 128")
    case False
    then show ?thesis by simp
  next
    case True
    have t: "take (Suc i) s = take i s @ [c]" using Cons.prems(1) i by (simp add: take_Suc_conv_app_nth nth_via_drop)
    have "decodeRunes (drop i s) = byte_of c # decodeRunes cs"
      using True Cons.prems(1) by (subst decodeRunes.simps) simp
    moreover have "utf16RuneLen (byte_of c) = 1" using True by (simp add: utf16RuneLen_def)
    ultimately show ?thesis using True Cons.IH [OF d] i t Cons.prems(3) d by simp
  qed
qed

text \<open>The line table inverts positions: ComputeECMALineStarts returns an increasing list that
  begins with 0 and stays inside the text, and PositionToLineAndByteOffset, by binary search in
  it, answers for every position from 0 on the line that starts at or before the position while
  every later line starts behind it, with the distance to its start. UTF16Len, with its shortcut
  for ASCII text, is the sum over the runes of the text.\<close>

theorem line_table_positions:
  assumes "0 \<le> position"
  shows "\<exists>line. line < length (ComputeECMALineStarts s)
     \<and> PositionToLineAndByteOffset position (ComputeECMALineStarts s) = Inr (int line, position - int (ComputeECMALineStarts s ! line))
     \<and> int (ComputeECMALineStarts s ! line) \<le> position
     \<and> (\<forall>j. line < j \<and> j < length (ComputeECMALineStarts s) \<longrightarrow> position < int (ComputeECMALineStarts s ! j))
     \<and> sorted_wrt (<) (ComputeECMALineStarts s) \<and> hd (ComputeECMALineStarts s) = 0
     \<and> list_all (\<lambda>x. x \<le> length s) (ComputeECMALineStarts s)
     \<and> UTF16Len s = sum_list (map utf16RuneLen (decodeRunes s))"
proof -
  obtain rest where r: "ComputeECMALineStarts s = 0 # rest" "sorted_wrt (<) (ComputeECMALineStarts s)"
      "\<forall>x\<in>set (ComputeECMALineStarts s). x \<le> length s"
    using ComputeECMALineStarts_sorted [of s] by blast
  have ne: "ComputeECMALineStarts s \<noteq> []" and z: "int (ComputeECMALineStarts s ! 0) \<le> position" "hd (ComputeECMALineStarts s) = 0"
    using r(1) assms by simp_all
  have "UTF16Len s = sum_list (map utf16RuneLen (decodeRunes s))"
    using utf16Loop_eq [of 0 s s] by (simp add: UTF16Len_def)
  then show ?thesis
    using PositionToLine_found [OF r(2) ne z(1)] r(2,3) z(2) unfolding list_all_iff by blast
qed

theorem line_table_positions_witness:
  "\<exists>line. PositionToLineAndByteOffset 4 (ComputeECMALineStarts [CHR ''a'', CHR 0x0D, CHR 0x0A, CHR ''b'', CHR ''c'']) =
     Inr (int line, 4 - int (ComputeECMALineStarts [CHR ''a'', CHR 0x0D, CHR 0x0A, CHR ''b'', CHR ''c''] ! line))"
  using line_table_positions [of 4 "[CHR ''a'', CHR 0x0D, CHR 0x0A, CHR ''b'', CHR ''c'']"] by auto

section \<open>Patterns\<close>

lemma strIndex_star: "CHR ''*'' \<notin> set pre \<Longrightarrow> strIndex (pre @ CHR ''*'' # suf) ''*'' = Some (length pre)"
  by (induction pre) auto

lemma strIndex_no_star: "CHR ''*'' \<notin> set s \<Longrightarrow> strIndex s ''*'' = None"
  by (induction s) auto

lemma TryParsePattern_star:
  "CHR ''*'' \<notin> set pre \<Longrightarrow> CHR ''*'' \<notin> set suf \<Longrightarrow>
     TryParsePattern (pre @ ''*'' @ suf) = \<lparr>pat_Text = pre @ ''*'' @ suf, StarIndex = int (length pre)\<rparr>"
  using strIndex_star [of pre suf] strIndex_no_star [of suf] by (simp add: TryParsePattern_def strContains_def)

lemma Pattern_Matches_star:
  "Pattern_Matches \<lparr>pat_Text = pre @ ''*'' @ suf, StarIndex = int (length pre)\<rparr> c =
     Inr (strHasPrefix c pre \<and> strHasSuffix c suf)"
proof -
  have "sliceOf (pre @ ''*'' @ suf) 0 (int (length pre)) = Inr pre"
    "sliceOf (pre @ ''*'' @ suf) (int (length pre) + 1) (int (length (pre @ ''*'' @ suf))) = Inr suf"
    by (simp_all add: sliceOf_def slice_def nat_add_distrib)
  then show ?thesis
    using length_strHasPrefix [of c pre] by (auto simp: Pattern_Matches_def)
qed

text \<open>A pattern with one star matches by its ends: it matches exactly the candidates with the
  text before the star as a prefix and the text behind it as a suffix, and for every candidate
  made of the prefix, some text and the suffix MatchedText returns that text. The prefix and the
  suffix may overlap in a shorter candidate: it matches, and MatchedText then slices out of range.\<close>

theorem Pattern_matches_ends:
  assumes "CHR ''*'' \<notin> set pre" "CHR ''*'' \<notin> set suf"
  shows "Pattern_Matches (TryParsePattern (pre @ ''*'' @ suf)) c = Inr (strHasPrefix c pre \<and> strHasSuffix c suf)
    \<and> MatchedText (TryParsePattern (pre @ ''*'' @ suf)) (pre @ m @ suf) = Inr m
    \<and> (strHasPrefix c pre \<and> strHasSuffix c suf \<and> length c < length pre + length suf \<longrightarrow>
        (\<exists>msg. MatchedText (TryParsePattern (pre @ ''*'' @ suf)) c = Inl msg))"
proof -
  have suffix: "strHasSuffix (pre @ m @ suf) suf" unfolding strHasSuffix_iff by (metis append.assoc)
  have m: "MatchedText (TryParsePattern (pre @ ''*'' @ suf)) (pre @ m @ suf) = Inr m"
    using suffix unfolding MatchedText_def TryParsePattern_star [OF assms] Pattern_Matches_star
    by (simp add: sliceOf_def slice_def nat_add_distrib)
  show ?thesis
    using m unfolding TryParsePattern_star [OF assms] Pattern_Matches_star MatchedText_def
    by (simp add: sliceOf_def)
qed

theorem Pattern_matches_ends_witness:
  "MatchedText (TryParsePattern ''@/*.js'') ''@/lib/x.js'' = Inr ''lib/x''
   \<and> (\<exists>msg. MatchedText (TryParsePattern ''ab*ba'') ''aba'' = Inl msg)"
proof -
  have "CHR ''*'' \<notin> set ''@/''" "CHR ''*'' \<notin> set ''.js''" "CHR ''*'' \<notin> set ''ab''" "CHR ''*'' \<notin> set ''ba''" by simp_all
  moreover have "strHasPrefix ''aba'' ''ab'' \<and> strHasSuffix ''aba'' ''ba'' \<and> length ''aba'' < length ''ab'' + length ''ba''"
    by code_simp
  ultimately show ?thesis
    using Pattern_matches_ends [of "''@/''" "''.js''" _ "''lib/x''"] Pattern_matches_ends [of "''ab''" "''ba''" "''aba''"]
    by auto
qed

text \<open>An exact name wins over a pattern only when it comes later in the list: it resets the length
  to beat to -1, and the next pattern that matches replaces it.\<close>

lemma FindBestPatternMatch_order:
  "FindBestPatternMatch [] [''a'', ''*''] TryParsePattern ''a'' = Inr ''*''"
  "FindBestPatternMatch [] [''*'', ''a''] TryParsePattern ''a'' = Inr ''a''"
  by code_simp+

end
