(* ===== verification/Scanner_Lines.thy ===== *)
theory Scanner_Lines
  imports Core_Text_Props
begin

text \<open>
  Package \<open>internal/scanner\<close>: the conversions between byte positions and lines with UTF-16
  characters at the end of \<open>scanner.go\<close>. A source file is its text and its line table. Failed
  assertions and explicit panics are panics.
\<close>

section \<open>The conversions\<close>

function lineOfPositionLoop :: "nat list \<Rightarrow> int \<Rightarrow> int \<Rightarrow> int \<Rightarrow> int" where
  "lineOfPositionLoop lineStarts p low high =
     (if low \<le> high then
        let middle = low + (high - low) div 2; v = int (lineStarts ! nat middle) in
        if v < p then lineOfPositionLoop lineStarts p (middle + 1) high
        else if v > p then lineOfPositionLoop lineStarts p low (middle - 1)
        else middle
      else low - 1)"
  by pat_completeness auto
termination
  by (relation "measure (\<lambda>(lineStarts, p, low, high). nat (high - low + 1))") auto

declare lineOfPositionLoop.simps [simp del]

definition ComputeLineOfPosition :: "nat list \<Rightarrow> int \<Rightarrow> int" where
  "ComputeLineOfPosition lineStarts p = lineOfPositionLoop lineStarts p 0 (int (length lineStarts) - 1)"

definition lineStartOf :: "nat list \<Rightarrow> int \<Rightarrow> int or_panic" where
  \<comment> \<open>\<open>lineStarts[line]\<close>\<close>
  "lineStartOf lineStarts line =
     (if 0 \<le> line \<and> line < int (length lineStarts) then Inr (int (lineStarts ! nat line)) else Inl ''index out of range'')"

definition GetECMALineAndUTF16CharacterOfPosition :: "string \<Rightarrow> nat list \<Rightarrow> int \<Rightarrow> (int \<times> int) or_panic" where
  "GetECMALineAndUTF16CharacterOfPosition s lineMap p =
     (let line = ComputeLineOfPosition lineMap p in
      bind_panic (lineStartOf lineMap line) (\<lambda>start.
      bind_panic (sliceOf s start p) (\<lambda>t. Inr (line, UTF16Len t))))"

definition GetECMALineAndByteOffsetOfPosition :: "nat list \<Rightarrow> int \<Rightarrow> (int \<times> int) or_panic" where
  "GetECMALineAndByteOffsetOfPosition lineMap p =
     (let line = ComputeLineOfPosition lineMap p in
      bind_panic (lineStartOf lineMap line) (\<lambda>start. Inr (line, p - start)))"

definition ComputePositionOfLineAndByteOffset :: "nat list \<Rightarrow> int \<Rightarrow> int \<Rightarrow> int or_panic" where
  "ComputePositionOfLineAndByteOffset lineStarts line byteOffset =
     (if line < 0 \<or> line \<ge> int (length lineStarts) then Inl ''Bad line number.''
      else Inr (int (lineStarts ! nat line) + byteOffset))"

lemma validRune_decodeRune: "validRune (fst (decodeRune s))"
proof (cases s)
  case Nil
  then show ?thesis by (simp add: decodeRune_def validRune_def RuneError_def)
next
  case (Cons c cs)
  have err: "validRune RuneError" by (simp add: validRune_def RuneError_def)
  have ascii: "validRune b" if "b < 0x80" for b using that by (simp add: validRune_def)
  have two: "validRune (fst (decode2 b cs))" if "b \<le> 0xDF" for b
    using that err by (auto simp: decode2_def isCont_def validRune_def split: list.splits)
  have three: "validRune (fst (decode3 l h b cs))" if "b \<le> 0xEF" "h \<le> 0xBF" "b \<noteq> 0xED \<or> h \<le> 0x9F" "0x80 \<le> l" for l h b
  proof -
    have "validRune ((b - 224) * 4096 + (x - 128) * 64 + (y - 128))" if "l \<le> x" "x \<le> h" "y \<le> 191" for x y
    proof (cases "b < 0xED")
      case True
      then show ?thesis using that \<open>h \<le> 0xBF\<close> unfolding validRune_def by auto
    next
      case False
      then show ?thesis using that \<open>b \<le> 0xEF\<close> \<open>h \<le> 0xBF\<close> \<open>b \<noteq> 0xED \<or> h \<le> 0x9F\<close> unfolding validRune_def by (cases "b = 0xED") auto
    qed
    then show ?thesis using err by (auto simp: decode3_def isCont_def simp del: Nat.add_diff_assoc split: list.splits)
  qed
  have four: "validRune (fst (decode4 l h b cs))" if "0xF0 \<le> b" "b \<le> 0xF4" "h \<le> 0xBF" "b \<noteq> 0xF4 \<or> h \<le> 0x8F" "b \<noteq> 0xF0 \<or> 0x90 \<le> l" "0x80 \<le> l" for l h b
  proof -
    have "validRune ((b - 240) * 262144 + (x - 128) * 4096 + (y - 128) * 64 + (z - 128))" if "l \<le> x" "x \<le> h" "y \<le> 191" "z \<le> 191" for x y z
      using that \<open>0xF0 \<le> b\<close> \<open>b \<le> 0xF4\<close> \<open>h \<le> 0xBF\<close> \<open>b \<noteq> 0xF4 \<or> h \<le> 0x8F\<close> \<open>b \<noteq> 0xF0 \<or> 0x90 \<le> l\<close>
      unfolding validRune_def by (cases "b = 0xF0"; cases "b = 0xF4") auto
    then show ?thesis using err by (auto simp: decode4_def isCont_def simp del: Nat.add_diff_assoc split: list.splits)
  qed
  show ?thesis
    unfolding Cons decodeRune_def list.case Let_def
    by (simp add: ascii err two three four)
qed

lemma utf16RuneLen_pos: "1 \<le> utf16RuneLen (fst (decodeRune s))"
  using validRune_decodeRune [of s] by (auto simp: utf16RuneLen_def validRune_def)

function utf16Scan :: "string \<Rightarrow> nat \<Rightarrow> int \<Rightarrow> nat \<Rightarrow> int \<Rightarrow> (nat \<times> int) or_panic" where
  \<comment> \<open>the scanning loop: it returns \<open>pos\<close> and \<open>utf16Count\<close>\<close>
  "utf16Scan s lineEnd character p n =
     (if p < lineEnd \<and> \<not> n \<ge> character then
        if length s < p then Inl ''slice bounds out of range''
        else
          utf16Scan s lineEnd character (p + snd (decodeRune (drop p s))) (n + utf16RuneLen (fst (decodeRune (drop p s))))
      else Inr (p, n))"
  by pat_completeness auto
termination
proof (relation "measure (\<lambda>(s, lineEnd, character, p, n). nat (character - n))", goal_cases)
  case (2 s lineEnd character p n)
  then show ?case using utf16RuneLen_pos [of "drop p s"] by simp
qed simp

declare utf16Scan.simps [simp del]

definition ComputePositionOfLineAndUTF16Character :: "nat list \<Rightarrow> int \<Rightarrow> int \<Rightarrow> string \<Rightarrow> bool \<Rightarrow> nat or_panic" where
  "ComputePositionOfLineAndUTF16Character lineStarts line0 character s allowEdits =
     (if (line0 < 0 \<or> line0 \<ge> int (length lineStarts)) \<and> \<not> allowEdits then Inl ''Bad line number.''
      else
        let line = (if line0 < 0 then 0 else if line0 \<ge> int (length lineStarts) then int (length lineStarts) - 1 else line0) in
        if line < 0 \<or> line \<ge> int (length lineStarts) then Inl ''index out of range''
        else
          let lineStart = lineStarts ! nat line in
          if character > 0 then
            let lineEnd = (if line + 1 < int (length lineStarts) then lineStarts ! nat (line + 1) else length s) in
            bind_panic (utf16Scan s lineEnd character lineStart 0) (\<lambda>(p, n).
              if \<not> allowEdits then
                if p = lineEnd \<and> n < character then Inl ''Bad UTF-16 character offset.''
                else if p \<le> length s then Inr p else Inl ''Debug failure.''
              else if p > length s then Inr (length s) else Inr p)
          else if allowEdits then (if lineStart > length s then Inr (length s) else Inr lineStart)
          else if lineStart \<le> length s then Inr lineStart else Inl ''Debug failure.'')"

section \<open>The line of a position\<close>

lemma lineOfPositionLoop_search:
  "lineOfPositionLoop starts p low high =
     (case binarySearchLoop starts (\<lambda>_ v. int v - p) low high of (k, found) \<Rightarrow> if found then k else k - 1)"
proof (induction starts p low high rule: lineOfPositionLoop.induct)
  case (1 starts p low high)
  show ?case
  proof (cases "low \<le> high")
    case False
    then show ?thesis by (subst lineOfPositionLoop.simps, subst binarySearchLoop.simps) simp
  next
    case True
    define mid where "mid = low + (high - low) div 2"
    note IH = 1 [OF True mid_def refl]
    show ?thesis
      using True IH by (subst lineOfPositionLoop.simps, subst binarySearchLoop.simps) (simp add: mid_def [symmetric] Let_def)
  qed
qed

lemma ComputeLineOfPosition_found:
  assumes "sorted_wrt (<) starts" "starts \<noteq> []" "int (starts ! 0) \<le> p"
  shows "\<exists>line < length starts. ComputeLineOfPosition starts p = int line \<and> int (starts ! line) \<le> p
    \<and> (\<forall>j. line < j \<and> j < length starts \<longrightarrow> p < int (starts ! j))"
proof -
  let ?cmp = "\<lambda>_ v. int v - p"
  have less: "starts ! i < starts ! j" if "i < j" "j < length starts" for i j
    using sorted_wrt_nth_less [OF assms(1) that(1)] that(2) by simp
  have "separates starts ?cmp" unfolding separates_def using less by fastforce
  then have loc: "located starts ?cmp (binarySearchLoop starts ?cmp 0 (int (length starts) - 1))"
    by (rule binarySearchLoop_located) auto
  obtain k found where kf: "binarySearchLoop starts ?cmp 0 (int (length starts) - 1) = (k, found)" by force
  have line: "ComputeLineOfPosition starts p = (if found then k else k - 1)"
    unfolding ComputeLineOfPosition_def lineOfPositionLoop_search kf by simp
  note loc = loc [unfolded kf located_def Let_def prod.case]
  show ?thesis
  proof (cases found)
    case True
    then have k: "0 \<le> k" "k < int (length starts)" "int (starts ! nat k) = p" using loc by auto
    have "p < int (starts ! j)" if "nat k < j" "j < length starts" for j using less [OF that] k(3) by linarith
    then show ?thesis using k True line by (intro exI [of _ "nat k"]) auto
  next
    case False
    then have k: "0 \<le> k" "k \<le> int (length starts)" "\<And>i. i < length starts \<Longrightarrow> int i < k \<Longrightarrow> int (starts ! i) < p"
      "\<And>i. i < length starts \<Longrightarrow> k \<le> int i \<Longrightarrow> p < int (starts ! i)"
      using loc by (auto split: if_splits)
    have "0 < k"
    proof (rule ccontr)
      assume "\<not> 0 < k"
      then have "p < int (starts ! 0)" using k(4) [of 0] assms(2) by simp
      then show False using assms(3) by simp
    qed
    then have n: "nat (k - 1) < length starts" "int (nat (k - 1)) = k - 1" using k(2) by auto
    have "int (starts ! nat (k - 1)) \<le> p" using k(3) [OF n(1)] n(2) by simp
    moreover have "p < int (starts ! j)" if "nat (k - 1) < j" "j < length starts" for j
      using k(4) [OF that(2)] that(1) n(2) by simp
    ultimately show ?thesis using False line n by (intro exI [of _ "nat (k - 1)"]) auto
  qed
qed

section \<open>Round trip of positions\<close>

function runeBoundary :: "string \<Rightarrow> nat \<Rightarrow> bool" where
  \<comment> \<open>\<open>n\<close> bytes of \<open>s\<close> are whole runes\<close>
  "runeBoundary s n =
     (if n = 0 then True else if s = [] then False
      else snd (decodeRune s) \<le> n \<and> runeBoundary (drop (snd (decodeRune s)) s) (n - snd (decodeRune s)))"
  by pat_completeness auto
termination
  by (relation "measure (\<lambda>(s, n). length s)") (auto simp: decodeRune_size_pos intro!: diff_less)

declare runeBoundary.simps [simp del]

lemma decodeRune_take:
  assumes "snd (decodeRune s) \<le> n" "s \<noteq> []"
  shows "decodeRune (take n s) = decodeRune s"
proof -
  obtain c cs where s: "s = c # cs" using assms(2) by (cases s) auto
  have "0 < n" using assms decodeRune_size_pos [of s] by linarith
  then obtain m where n: "n = Suc m" by (cases n) auto
  have two: "decode2 b (take m cs) = decode2 b cs" if "snd (decode2 b cs) \<le> Suc m" for b
    using that by (cases cs; cases m) (auto simp: decode2_def)
  have three: "decode3 l h b (take m cs) = decode3 l h b cs" if "snd (decode3 l h b cs) \<le> Suc m" for l h b
    using that by (cases cs; cases "tl cs"; cases m; cases "m - 1") (auto simp: decode3_def split: if_splits)
  have four: "decode4 l h b (take m cs) = decode4 l h b cs" if "snd (decode4 l h b cs) \<le> Suc m" for l h b
    using that by (cases cs; cases "tl cs"; cases "tl (tl cs)"; cases m; cases "m - 1"; cases "m - 2")
      (auto simp: decode4_def split: if_splits)
  show ?thesis
    using assms(1) two three four unfolding s n by (auto simp: decodeRune_def Let_def split: if_splits)
qed

lemma runeBoundary_le: "runeBoundary s n \<Longrightarrow> n \<le> length s"
proof (induction s n rule: runeBoundary.induct)
  case (1 s n)
  show ?case
  proof (cases "n = 0")
    case False
    have "s \<noteq> []" "snd (decodeRune s) \<le> n" "runeBoundary (drop (snd (decodeRune s)) s) (n - snd (decodeRune s))"
      using 1(2) False by (auto simp: runeBoundary.simps [of s n] split: if_splits)
    then show ?thesis using 1(1) [OF False] decodeRune_size_le [of s] by fastforce
  qed simp
qed

lemma UTF16Len_runes: "UTF16Len s = sum_list (map utf16RuneLen (decodeRunes s))"
  using utf16Loop_eq [of 0 s s] by (simp add: UTF16Len_def)

lemma UTF16Len_Nil [simp]: "UTF16Len [] = 0"
  by (simp add: UTF16Len_runes)

lemma UTF16Len_step:
  assumes "s \<noteq> []" "snd (decodeRune s) \<le> n"
  shows "UTF16Len (take n s) =
    utf16RuneLen (fst (decodeRune s)) + UTF16Len (take (n - snd (decodeRune s)) (drop (snd (decodeRune s)) s))"
proof -
  have ne: "take n s \<noteq> []" using assms decodeRune_size_pos [of s] by auto
  have "decodeRunes (take n s) = fst (decodeRune s) # decodeRunes (drop (snd (decodeRune s)) (take n s))"
    using ne decodeRune_take [OF assms(2,1)] by (subst decodeRunes.simps) simp
  then show ?thesis unfolding UTF16Len_runes by (simp add: drop_take)
qed

lemma UTF16Len_nonneg: "0 \<le> UTF16Len s"
proof -
  have "\<forall>r\<in>set (decodeRunes s). 0 \<le> utf16RuneLen r"
  proof (induction s rule: decodeRunes.induct)
    case (1 s)
    then show ?case using utf16RuneLen_pos [of s] by (subst decodeRunes.simps) auto
  qed
  then show ?thesis unfolding UTF16Len_runes by (intro sum_list_nonneg) auto
qed

lemma utf16Scan_boundary:
  assumes "runeBoundary t k" "t = drop p s" "p + k \<le> lineEnd" "p \<le> length s" "n + UTF16Len (take k t) = character"
  shows "utf16Scan s lineEnd character p n = Inr (p + k, character)"
  using assms
proof (induction t k arbitrary: p n rule: runeBoundary.induct)
  case (1 t k)
  show ?case
  proof (cases "k = 0")
    case True
    then show ?thesis using 1(6) by (subst utf16Scan.simps) simp
  next
    case False
    let ?sz = "snd (decodeRune t)"
    have b: "t \<noteq> []" "?sz \<le> k" "runeBoundary (drop ?sz t) (k - ?sz)"
      using 1(2) False by (auto simp: runeBoundary.simps [of t k] split: if_splits)
    have len: "UTF16Len (take k t) = utf16RuneLen (fst (decodeRune t)) + UTF16Len (take (k - ?sz) (drop ?sz t))"
      by (rule UTF16Len_step [OF b(1,2)])
    have "n < character" using len utf16RuneLen_pos [of t] UTF16Len_nonneg 1(6) by (smt (verit))
    moreover have "p < lineEnd" using 1(4) False by simp
    ultimately have "utf16Scan s lineEnd character p n =
        utf16Scan s lineEnd character (p + ?sz) (n + utf16RuneLen (fst (decodeRune t)))"
      using 1(3,5) by (subst utf16Scan.simps) simp
    also have "\<dots> = Inr (p + ?sz + (k - ?sz), character)"
    proof (rule 1(1) [OF False b(1) b(3)])
      show "drop ?sz t = drop (p + ?sz) s" using 1(3) by (simp add: add.commute)
      show "p + ?sz \<le> length s" using decodeRune_size_le [of t] 1(3,5) by auto
    qed (use 1(4,6) len b(2) in simp_all)
    finally show ?thesis using b(2) by simp
  qed
qed

text \<open>The line found for a position of the text, and the way back from a position of that line.\<close>

lemma line_table_line:
  assumes "p \<le> length s"
  obtains l where "l < length (ComputeECMALineStarts s)" "ComputeLineOfPosition (ComputeECMALineStarts s) (int p) = int l"
    "ComputeECMALineStarts s ! l \<le> p" "\<forall>j. l < j \<and> j < length (ComputeECMALineStarts s) \<longrightarrow> p < ComputeECMALineStarts s ! j"
proof -
  let ?t = "ComputeECMALineStarts s"
  obtain rest where r: "?t = 0 # rest" "sorted_wrt (<) ?t" using ComputeECMALineStarts_sorted [of s] by blast
  have "?t \<noteq> []" "int (?t ! 0) \<le> int p" using r(1) by simp_all
  then show thesis using ComputeLineOfPosition_found [OF r(2), of "int p"] that by fastforce
qed

lemma UTF16Len_boundary_pos:
  assumes "runeBoundary u n" "n \<noteq> 0"
  shows "UTF16Len (take n u) > 0"
proof -
  have "u \<noteq> []" "snd (decodeRune u) \<le> n"
    using assms by (auto simp: runeBoundary.simps [of u] split: if_splits)
  from UTF16Len_step [OF this] show ?thesis using utf16RuneLen_pos [of u] UTF16Len_nonneg by (smt (verit))
qed

lemma ComputePosition_of_line:
  assumes l: "l < length t" and p: "t ! l \<le> p" "p \<le> length s" "\<forall>j. l < j \<and> j < length t \<longrightarrow> p < t ! j"
    and b: "runeBoundary (drop (t ! l) s) (p - t ! l)"
  shows "ComputePositionOfLineAndUTF16Character t (int l) (UTF16Len (slice s (t ! l) p)) s allowEdits = Inr p"
proof -
  let ?c = "UTF16Len (slice s (t ! l) p)"
  have sl: "slice s (t ! l) p = take (p - t ! l) (drop (t ! l) s)" by (simp add: slice_def)
  have ll: "(int l < 0) = False" "(int l \<ge> int (length t)) = False" using l by simp_all
  define lineEnd where "lineEnd = (if int l + 1 < int (length t) then t ! nat (int l + 1) else length s)"
  have "nat (int l + 1) = Suc l" by simp
  then have "p \<le> lineEnd" using p(2,3) by (auto simp: lineEnd_def intro: less_imp_le)
  then have scan: "utf16Scan s lineEnd ?c (t ! l) 0 = Inr (t ! l + (p - t ! l), ?c)"
    using p(1,2) b unfolding sl by (intro utf16Scan_boundary) auto
  show ?thesis
  proof (cases "t ! l = p")
    case True
    then have "?c = 0" by (simp add: slice_def)
    then show ?thesis
      using l True p(2) unfolding ComputePositionOfLineAndUTF16Character_def Let_def by simp
  next
    case False
    then have "?c > 0" using UTF16Len_boundary_pos [OF b] p(1) unfolding sl by simp
    then have "ComputePositionOfLineAndUTF16Character t (int l) ?c s allowEdits =
        bind_panic (utf16Scan s lineEnd ?c (t ! l) 0) (\<lambda>(p, n).
          if \<not> allowEdits then
            if p = lineEnd \<and> n < ?c then Inl ''Bad UTF-16 character offset.''
            else if p \<le> length s then Inr p else Inl ''Debug failure.''
          else if p > length s then Inr (length s) else Inr p)"
      unfolding ComputePositionOfLineAndUTF16Character_def Let_def
      by (simp only: ll simp_thms if_False if_True nat_int lineEnd_def [symmetric])
    then show ?thesis unfolding scan using p(1,2) by simp
  qed
qed

text \<open>C24. Converting a position to a line and a UTF-16 character and back gives the position: for every
  byte position of a text that is not inside a rune of its line,
  GetECMALineAndUTF16CharacterOfPosition answers without a panic, the line is the one whose start
  is the last at or before the position, and ComputePositionOfLineAndUTF16Character maps the
  answer back, with and without clamping. The text may contain any line terminators, characters
  outside the basic plane and invalid UTF-8.\<close>

theorem line_character_roundtrip:
  assumes "p \<le> length s"
    and "runeBoundary (drop start s) (p - start)" "start = ComputeECMALineStarts s ! nat (ComputeLineOfPosition (ComputeECMALineStarts s) (int p))"
  shows "\<exists>line character. GetECMALineAndUTF16CharacterOfPosition s (ComputeECMALineStarts s) (int p) = Inr (line, character)
    \<and> start \<le> p \<and> (\<forall>j < length (ComputeECMALineStarts s). line < int j \<longrightarrow> p < ComputeECMALineStarts s ! j)
    \<and> ComputePositionOfLineAndUTF16Character (ComputeECMALineStarts s) line character s allowEdits = Inr p"
proof -
  let ?t = "ComputeECMALineStarts s"
  obtain l where l: "l < length ?t" "ComputeLineOfPosition ?t (int p) = int l" "?t ! l \<le> p"
      "\<forall>j. l < j \<and> j < length ?t \<longrightarrow> p < ?t ! j"
    using line_table_line [OF assms(1)] by blast
  have start: "start = ?t ! l" using assms(3) l(2) by simp
  have "GetECMALineAndUTF16CharacterOfPosition s ?t (int p) = Inr (int l, UTF16Len (slice s (?t ! l) p))"
    using l assms(1) by (simp add: GetECMALineAndUTF16CharacterOfPosition_def lineStartOf_def sliceOf_def)
  moreover note ComputePosition_of_line [OF l(1,3) assms(1) l(4) assms(2) [unfolded start]]
  ultimately show ?thesis using l(3,4) start by auto
qed

theorem line_character_roundtrip_witness:
  "\<exists>line character. GetECMALineAndUTF16CharacterOfPosition [CHR ''a'', CHR 0x0A, CHR 0xC3, CHR 0xA9, CHR ''b''] (ComputeECMALineStarts [CHR ''a'', CHR 0x0A, CHR 0xC3, CHR 0xA9, CHR ''b'']) 4 = Inr (line, character)
    \<and> ComputePositionOfLineAndUTF16Character (ComputeECMALineStarts [CHR ''a'', CHR 0x0A, CHR 0xC3, CHR 0xA9, CHR ''b'']) line character [CHR ''a'', CHR 0x0A, CHR 0xC3, CHR 0xA9, CHR ''b''] False = Inr 4"
proof -
  let ?s = "[CHR ''a'', CHR 0x0A, CHR 0xC3, CHR 0xA9, CHR ''b'']"
  have t: "ComputeECMALineStarts ?s = [0, 2]"
    by (simp add: ComputeECMALineStarts_def lineStartsLoop.simps decodeRune_def decode2_def isCont_def IsLineBreak_def Let_def)
  have "ComputeLineOfPosition [0, 2] (int 4) = 1" by code_simp
  then have line: "2 = ComputeECMALineStarts ?s ! nat (ComputeLineOfPosition (ComputeECMALineStarts ?s) (int 4))" unfolding t by simp
  have "runeBoundary (drop 2 ?s) (4 - 2)"
    by (simp add: runeBoundary.simps decodeRune_def decode2_def isCont_def Let_def)
  then show ?thesis using line_character_roundtrip [of 4 ?s 2 False, OF _ _ line] by auto
qed

end
