(* ===== verification/SourceMapper.thy ===== *)
theory SourceMapper
  imports SourceMap_Correct Scanner_Lines
begin

text \<open>
  The reader of source maps: \<open>source_mapper.go\<close>, \<open>lineinfo.go\<close> and \<open>util.go\<close> of
  \<open>internal/sourcemap\<close>. A host is a record of its three functions. Code outside the repository is
  a parameter: \<open>unmarshal\<close> (the JSON decoder, \<open>None\<close> for an error), \<open>toLower\<close> and \<open>eqFold\<close> (the
  Unicode tables), and \<open>sortFunc\<close>, the unstable \<open>slices.SortFunc\<close> of which only the documented
  contract is used: the result is an ordered permutation.
\<close>

section \<open>Line information\<close>

record ECMALineInfo =
  li_text :: string
  li_lineStarts :: "nat list"

definition CreateECMALineInfo :: "string \<Rightarrow> nat list \<Rightarrow> ECMALineInfo" where
  "CreateECMALineInfo s lineStarts = \<lparr>li_text = s, li_lineStarts = lineStarts\<rparr>"

definition LineCount :: "ECMALineInfo \<Rightarrow> nat" where
  "LineCount li = length (li_lineStarts li)"

definition LineText :: "ECMALineInfo \<Rightarrow> int \<Rightarrow> string or_panic" where
  "LineText li line =
     bind_panic (lineStartOf (li_lineStarts li) line) (\<lambda>p.
       let end = (if line + 1 < int (length (li_lineStarts li)) then int (li_lineStarts li ! nat (line + 1))
                  else textPos (int (length (li_text li))))
       in sliceOf (li_text li) p end)"

definition lineBreakEncodings :: "string list" where
  \<comment> \<open>the encodings of the runes that \<open>stringutil.IsLineBreak\<close> accepts\<close>
  "lineBreakEncodings = [[CHR 0x0A], [CHR 0x0D], [CHR 0xE2, CHR 0x80, CHR 0xA8], [CHR 0xE2, CHR 0x80, CHR 0xA9]]"

fun sourceMappingURLLoop :: "ECMALineInfo \<Rightarrow> nat \<Rightarrow> string or_panic" where
  \<comment> \<open>the lines below the given number are left\<close>
  "sourceMappingURLLoop li 0 = Inr []"
| "sourceMappingURLLoop li (Suc index) =
     bind_panic (LineText li (int index)) (\<lambda>line0.
       let line = trimRight lineBreakEncodings (trimLeft unicodeSpaces line0) in
       if length line = 0 then sourceMappingURLLoop li index
       else if length line < 4 \<or> \<not> strHasPrefix line ''//'' \<or> line ! 2 \<noteq> CHR ''#'' \<and> line ! 2 \<noteq> CHR ''@'' \<or> line ! 3 \<noteq> CHR '' ''
         then Inr []
       else
         let (url, found) = strCutPrefix (drop 4 line) ''sourceMappingURL='' in
         if found then Inr (trimRight unicodeSpaces url) else sourceMappingURLLoop li index)"

definition TryGetSourceMappingURL :: "ECMALineInfo option \<Rightarrow> string or_panic" where
  "TryGetSourceMappingURL lineInfo =
     (case lineInfo of None \<Rightarrow> Inr [] | Some li \<Rightarrow> sourceMappingURLLoop li (LineCount li))"

section \<open>Positions and hosts\<close>

record Host =
  h_UseCaseSensitiveFileNames :: bool
  h_GetECMALineInfo :: "string \<Rightarrow> ECMALineInfo option"
  h_ReadFile :: "string \<Rightarrow> string option"

record MappedPosition =
  mp_generatedPosition :: int
  mp_sourcePosition :: int
  mp_sourceIndex :: int
  mp_nameIndex :: int

definition missingPosition :: int where "missingPosition = -1"

definition isSourceMappedPosition :: "MappedPosition \<Rightarrow> bool" where
  "isSourceMappedPosition m = (mp_sourceIndex m \<noteq> MissingSource \<and> mp_sourcePosition m \<noteq> missingPosition)"

text \<open>\<open>sourceMappings\<close> is a Go map from source indices to lists; it is kept as an association list in
  the order of insertion, since its length is read and its iteration treats every key alone.\<close>

record DocumentPositionMapper =
  dm_useCaseSensitiveFileNames :: bool
  dm_sourceFileAbsolutePaths :: "string list"
  dm_sourceToSourceIndexMap :: "string \<Rightarrow> int option"
  dm_generatedAbsoluteFilePath :: string
  dm_generatedMappings :: "MappedPosition list"
  dm_sourceMappings :: "(int \<times> MappedPosition list) list"

record DocumentPosition =
  dp_FileName :: string
  dp_Pos :: int

type_synonym sort_func = "(MappedPosition \<Rightarrow> MappedPosition \<Rightarrow> int) \<Rightarrow> MappedPosition list \<Rightarrow> MappedPosition list"

section \<open>Building the mapper\<close>

definition pathAt :: "string list \<Rightarrow> int \<Rightarrow> string or_panic" where
  \<comment> \<open>\<open>sourceFileAbsolutePaths[i]\<close>\<close>
  "pathAt paths i = (if 0 \<le> i \<and> i < int (length paths) then Inr (paths ! nat i) else Inl ''index out of range'')"

definition positionIn :: "ECMALineInfo option \<Rightarrow> int \<Rightarrow> int \<Rightarrow> int or_panic" where
  \<comment> \<open>the position of a line and a character, or -1 without line information\<close>
  "positionIn lineInfo line character =
     (case lineInfo of
        None \<Rightarrow> Inr (-1)
      | Some li \<Rightarrow> bind_panic (ComputePositionOfLineAndUTF16Character (li_lineStarts li) line character (li_text li) True)
          (\<lambda>p. Inr (int p)))"

definition processMapping :: "Host \<Rightarrow> string \<Rightarrow> string list \<Rightarrow> Mapping \<Rightarrow> MappedPosition or_panic" where
  "processMapping host generatedAbsoluteFilePath sourceFileAbsolutePaths mapping =
     bind_panic (positionIn (h_GetECMALineInfo host generatedAbsoluteFilePath) (GeneratedLine mapping) (GeneratedCharacter mapping))
       (\<lambda>generatedPosition.
     bind_panic
       (if IsSourceMapping mapping then
          bind_panic (pathAt sourceFileAbsolutePaths (SourceIndex mapping)) (\<lambda>path.
            positionIn (h_GetECMALineInfo host path) (SourceLine mapping) (SourceCharacter mapping))
        else Inr (-1))
       (\<lambda>sourcePosition.
     Inr \<lparr>mp_generatedPosition = generatedPosition, mp_sourcePosition = sourcePosition,
          mp_sourceIndex = SourceIndex mapping, mp_nameIndex = NameIndex mapping\<rparr>))"

fun processMappings :: "Host \<Rightarrow> string \<Rightarrow> string list \<Rightarrow> Mapping list \<Rightarrow> MappedPosition list or_panic" where
  "processMappings host gen paths [] = Inr []"
| "processMappings host gen paths (m # ms) =
     bind_panic (processMapping host gen paths m) (\<lambda>p.
     bind_panic (processMappings host gen paths ms) (\<lambda>ps. Inr (p # ps)))"

definition getDecodedMappings :: "Host \<Rightarrow> string \<Rightarrow> string list \<Rightarrow> string \<Rightarrow> MappedPosition list or_panic" where
  "getDecodedMappings host gen paths mappings =
     (let (ms, decoder) = Values (DecodeMappings mappings) in
      bind_panic (processMappings host gen paths ms) (\<lambda>decoded.
        Inr (if d_error decoder \<noteq> None then [] else decoded)))"

fun appendAt :: "int \<Rightarrow> MappedPosition \<Rightarrow> (int \<times> MappedPosition list) list \<Rightarrow> (int \<times> MappedPosition list) list" where
  \<comment> \<open>\<open>sourceMappings[sourceIndex] = append(sourceMappings[sourceIndex], m)\<close>\<close>
  "appendAt i m [] = [(i, [m])]"
| "appendAt i m ((j, l) # rest) = (if j = i then (j, l @ [m]) # rest else (j, l) # appendAt i m rest)"

fun collectSourceMappings :: "MappedPosition list \<Rightarrow> (int \<times> MappedPosition list) list \<Rightarrow> (int \<times> MappedPosition list) list" where
  "collectSourceMappings [] acc = acc"
| "collectSourceMappings (m # ms) acc =
     collectSourceMappings ms (if \<not> isSourceMappedPosition m then acc else appendAt (mp_sourceIndex m) m acc)"

definition sameMappedPosition :: "MappedPosition \<Rightarrow> MappedPosition \<Rightarrow> bool" where
  "sameMappedPosition a b =
     (mp_generatedPosition a = mp_generatedPosition b \<and> mp_sourceIndex a = mp_sourceIndex b
      \<and> mp_sourcePosition a = mp_sourcePosition b)"

definition bySourcePosition :: "MappedPosition \<Rightarrow> MappedPosition \<Rightarrow> int" where
  "bySourcePosition a b = mp_sourcePosition a - mp_sourcePosition b"

definition byGeneratedPosition :: "MappedPosition \<Rightarrow> MappedPosition \<Rightarrow> int" where
  "byGeneratedPosition a b = mp_generatedPosition a - mp_generatedPosition b"

fun sortSourceMappings :: "sort_func \<Rightarrow> (int \<times> MappedPosition list) list \<Rightarrow> (int \<times> MappedPosition list) list or_panic" where
  \<comment> \<open>sorting compares every element with another one, so the assertion of the comparison fails as soon
     as two elements of a list have different source indices\<close>
  "sortSourceMappings sortFunc [] = Inr []"
| "sortSourceMappings sortFunc ((i, list) # rest) =
     (if \<not> list_all (\<lambda>m. mp_sourceIndex m = mp_sourceIndex (hd list)) list
      then Inl ''Debug failure. False expression: All source mappings should have the same source index''
      else bind_panic (sortSourceMappings sortFunc rest) (\<lambda>rest'.
        Inr ((i, fst (DeduplicateSorted (sortFunc bySourcePosition list) sameMappedPosition)) # rest')))"

fun sourceIndexMap :: "(rune \<Rightarrow> rune) \<Rightarrow> bool \<Rightarrow> nat \<Rightarrow> string list \<Rightarrow> (string \<Rightarrow> int option) \<Rightarrow> (string \<Rightarrow> int option)" where
  "sourceIndexMap toLower useCase i [] m = m"
| "sourceIndexMap toLower useCase i (source # rest) m =
     sourceIndexMap toLower useCase (Suc i) rest (m(GetCanonicalFileName toLower source useCase := Some (int i)))"

definition createDocumentPositionMapper ::
  "(rune \<Rightarrow> rune) \<Rightarrow> sort_func \<Rightarrow> Host \<Rightarrow> RawSourceMap \<Rightarrow> string \<Rightarrow> DocumentPositionMapper or_panic" where
  "createDocumentPositionMapper toLower sortFunc host sourceMap mapPath =
     (let mapDirectory = GetDirectoryPath mapPath;
          sourceRoot = (if rs_SourceRoot sourceMap \<noteq> [] then GetNormalizedAbsolutePath (rs_SourceRoot sourceMap) mapDirectory
                        else mapDirectory);
          generatedAbsoluteFilePath = GetNormalizedAbsolutePath (rs_File sourceMap) mapDirectory;
          sourceFileAbsolutePaths = Map (rs_Sources sourceMap) (\<lambda>source. GetNormalizedAbsolutePath source sourceRoot);
          useCaseSensitiveFileNames = h_UseCaseSensitiveFileNames host;
          sourceToSourceIndexMap = sourceIndexMap toLower useCaseSensitiveFileNames 0 sourceFileAbsolutePaths (\<lambda>_. None)
      in bind_panic (getDecodedMappings host generatedAbsoluteFilePath sourceFileAbsolutePaths (rs_Mappings sourceMap))
           (\<lambda>decodedMappings.
         bind_panic (sortSourceMappings sortFunc (collectSourceMappings decodedMappings [])) (\<lambda>sourceMappings.
         Inr \<lparr>dm_useCaseSensitiveFileNames = useCaseSensitiveFileNames,
              dm_sourceFileAbsolutePaths = sourceFileAbsolutePaths,
              dm_sourceToSourceIndexMap = sourceToSourceIndexMap,
              dm_generatedAbsoluteFilePath = generatedAbsoluteFilePath,
              dm_generatedMappings = fst (DeduplicateSorted (sortFunc byGeneratedPosition decodedMappings) sameMappedPosition),
              dm_sourceMappings = sourceMappings\<rparr>)))"

section \<open>Looking positions up\<close>

definition GetSourcePosition :: "DocumentPositionMapper option \<Rightarrow> DocumentPosition \<Rightarrow> DocumentPosition option or_panic" where
  "GetSourcePosition dm loc =
     (case dm of
        None \<Rightarrow> Inr None
      | Some d \<Rightarrow>
          if length (dm_generatedMappings d) = 0 then Inr None
          else
            let (targetIndex, _) = BinarySearchFunc (dm_generatedMappings d) (dp_Pos loc) (\<lambda>m p. mp_generatedPosition m - p) in
            if targetIndex \<ge> length (dm_generatedMappings d) then Inr None
            else
              let mapping = dm_generatedMappings d ! targetIndex in
              if \<not> isSourceMappedPosition mapping then Inr None
              else bind_panic (pathAt (dm_sourceFileAbsolutePaths d) (mp_sourceIndex mapping)) (\<lambda>fileName.
                Inr (Some \<lparr>dp_FileName = fileName, dp_Pos = mp_sourcePosition mapping\<rparr>)))"

definition GetGeneratedPosition :: "(rune \<Rightarrow> rune) \<Rightarrow> DocumentPositionMapper option \<Rightarrow> DocumentPosition \<Rightarrow> DocumentPosition option" where
  "GetGeneratedPosition toLower dm loc =
     (case dm of
        None \<Rightarrow> None
      | Some d \<Rightarrow>
          (case dm_sourceToSourceIndexMap d (GetCanonicalFileName toLower (dp_FileName loc) (dm_useCaseSensitiveFileNames d)) of
             None \<Rightarrow> None
           | Some sourceIndex \<Rightarrow>
               if sourceIndex < 0 \<or> sourceIndex \<ge> int (length (dm_sourceMappings d)) then None
               else
                 let sourceMappings = (case map_of (dm_sourceMappings d) sourceIndex of None \<Rightarrow> [] | Some l \<Rightarrow> l);
                     (targetIndex, _) = BinarySearchFunc sourceMappings (dp_Pos loc) (\<lambda>m p. mp_sourcePosition m - p) in
                 if targetIndex \<ge> length sourceMappings then None
                 else
                   let mapping = sourceMappings ! targetIndex in
                   if mp_sourceIndex mapping \<noteq> sourceIndex then None
                   else Some \<lparr>dp_FileName = dm_generatedAbsoluteFilePath d, dp_Pos = mp_generatedPosition mapping\<rparr>))"

section \<open>Finding the map of a file\<close>

definition tryParseBase64Url :: "(string \<Rightarrow> string \<Rightarrow> bool) \<Rightarrow> string \<Rightarrow> (string \<times> bool) or_panic" where
  "tryParseBase64Url eqFold url0 =
     (let (url1, found1) = strCutPrefix url0 ''data:'' in
      if \<not> found1 then Inr ([], False)
      else
        let (url2, found2) = strCutPrefix url1 ''application/json;'' in
        if \<not> found2 then Inr ([], True)
        else
          let (url3, found3) = strCutPrefix url2 ''charset='' in
          bind_panic
            (if found3 then
               bind_panic (sliceOf url3 0 (int (length ''utf-8;''))) (\<lambda>charset.
                 if \<not> eqFold charset ''utf-8;'' then Inr None else Inr (Some (drop (length ''utf-8;'') url3)))
             else Inr (Some url2))
            (\<lambda>rest. case rest of
               None \<Rightarrow> Inr ([], True)
             | Some url4 \<Rightarrow>
                 let (url5, found5) = strCutPrefix url4 ''base64,'' in
                 if \<not> found5 then Inr ([], True)
                 else if \<not> list_all (\<lambda>r. IsASCIILetter r \<or> IsDigit r \<or> r = byte_of CHR ''+'' \<or> r = byte_of CHR ''/'' \<or> r = byte_of CHR ''='') (decodeRunes url5)
                   then Inr ([], True)
                 else Inr (url5, True)))"

definition tryGetSourceMappingURL :: "Host \<Rightarrow> string \<Rightarrow> string or_panic" where
  "tryGetSourceMappingURL host fileName = TryGetSourceMappingURL (h_GetECMALineInfo host fileName)"

fun base64Decode :: "string \<Rightarrow> string option" where
  \<comment> \<open>\<open>base64.StdEncoding.DecodeString\<close> of text without line breaks, \<open>None\<close> for an error\<close>
  "base64Decode [] = Some []"
| "base64Decode (c0 # c1 # c2 # c3 # rest) =
     (let a = base64FormatDecode c0; b = base64FormatDecode c1; c = base64FormatDecode c2; d = base64FormatDecode c3;
          x = char_of (4 * a + b div 16); y = char_of (16 * (b mod 16) + c div 4); z = char_of (64 * (c mod 4) + d) in
      if a = -1 \<or> b = -1 then None
      else if c2 = CHR ''='' \<and> c3 = CHR ''='' \<and> rest = [] then Some [x]
      else if c = -1 then None
      else if c3 = CHR ''='' \<and> rest = [] then Some [x, y]
      else if d = -1 then None
      else map_option (\<lambda>r. x # y # z # r) (base64Decode rest))"
| "base64Decode _ = None"

definition tryParseRawSourceMap :: "(string \<Rightarrow> RawSourceMap option) \<Rightarrow> string \<Rightarrow> RawSourceMap option" where
  "tryParseRawSourceMap unmarshal contents =
     (case unmarshal contents of
        None \<Rightarrow> None
      | Some sourceMap \<Rightarrow> if rs_Version sourceMap \<noteq> 3 then None else Some sourceMap)"

definition convertDocumentToSourceMapper ::
  "(string \<Rightarrow> RawSourceMap option) \<Rightarrow> (rune \<Rightarrow> rune) \<Rightarrow> sort_func \<Rightarrow> Host \<Rightarrow> string \<Rightarrow> string \<Rightarrow> DocumentPositionMapper option or_panic" where
  "convertDocumentToSourceMapper unmarshal toLower sortFunc host contents mapFileName =
     (case tryParseRawSourceMap unmarshal contents of
        None \<Rightarrow> Inr None
      | Some sourceMap \<Rightarrow>
          if length (rs_Sources sourceMap) = 0 \<or> rs_File sourceMap = [] \<or> rs_Mappings sourceMap = [] then Inr None
          else if Some_slice (rs_SourcesContent sourceMap) (\<lambda>s. s \<noteq> None) then Inr None
          else bind_panic (createDocumentPositionMapper toLower sortFunc host sourceMap mapFileName) (\<lambda>d. Inr (Some d)))"

fun tryMapLocations ::
  "(string \<Rightarrow> RawSourceMap option) \<Rightarrow> (rune \<Rightarrow> rune) \<Rightarrow> sort_func \<Rightarrow> Host \<Rightarrow> string \<Rightarrow> string list \<Rightarrow> DocumentPositionMapper option or_panic" where
  "tryMapLocations unmarshal toLower sortFunc host generatedFileName [] = Inr None"
| "tryMapLocations unmarshal toLower sortFunc host generatedFileName (location # rest) =
     (let mapFileName = GetNormalizedAbsolutePath location (GetDirectoryPath generatedFileName) in
      case h_ReadFile host mapFileName of
        Some mapFileContents \<Rightarrow> convertDocumentToSourceMapper unmarshal toLower sortFunc host mapFileContents mapFileName
      | None \<Rightarrow> tryMapLocations unmarshal toLower sortFunc host generatedFileName rest)"

definition GetDocumentPositionMapper ::
  "(string \<Rightarrow> RawSourceMap option) \<Rightarrow> (rune \<Rightarrow> rune) \<Rightarrow> (string \<Rightarrow> string \<Rightarrow> bool) \<Rightarrow> sort_func \<Rightarrow> Host \<Rightarrow> string \<Rightarrow> DocumentPositionMapper option or_panic" where
  "GetDocumentPositionMapper unmarshal toLower eqFold sortFunc host generatedFileName =
     (let beside = (\<lambda>mapFileName. tryMapLocations unmarshal toLower sortFunc host generatedFileName
                      ((if mapFileName \<noteq> [] then [mapFileName] else []) @ [generatedFileName @ ''.map'']))
      in bind_panic (tryGetSourceMappingURL host generatedFileName) (\<lambda>mapFileName.
         if mapFileName \<noteq> [] then
           bind_panic (tryParseBase64Url eqFold mapFileName) (\<lambda>(base64Object, matched).
             if matched then
               (case (if base64Object \<noteq> [] then base64Decode base64Object else None) of
                  Some decoded \<Rightarrow> convertDocumentToSourceMapper unmarshal toLower sortFunc host decoded generatedFileName
                | None \<Rightarrow> beside [])
             else beside mapFileName)
         else beside []))"

end
