(* ===== verification/SourceMapper_Props.thy ===== *)
theory SourceMapper_Props
  imports SourceMapper
begin

text \<open>
  Properties of the source map reader: what it needs of the sorting function as a locale, and that
  both lookups return the closest mapping at or behind a position.
\<close>

section \<open>Sorting\<close>

text \<open>The contract of \<open>slices.SortFunc\<close>: for a comparison function with its own contract, the result
  is a permutation in ascending order. Nothing is promised of the order of equal elements.\<close>

locale sorting =
  fixes sortFunc :: "('a \<Rightarrow> 'a \<Rightarrow> int) \<Rightarrow> 'a list \<Rightarrow> 'a list"
  assumes sort_mset: "comparator cmp \<Longrightarrow> mset (sortFunc cmp xs) = mset xs"
    and sort_sorted: "comparator cmp \<Longrightarrow> sorted_wrt (\<lambda>a b. cmp a b \<le> 0) (sortFunc cmp xs)"
begin

lemma sort_set: "comparator cmp \<Longrightarrow> set (sortFunc cmp xs) = set xs"
  using sort_mset by (metis set_mset_mset)

lemma sort_key:
  assumes "\<And>a b. cmp a b = f a - f b"
  shows "set (sortFunc cmp xs) = set xs \<and> sorted_wrt (\<lambda>a b. f a \<le> f b) (sortFunc cmp xs)"
proof -
  have c: "comparator cmp" by unfold_locales (simp_all add: assms)
  then show ?thesis using sort_set [OF c] sort_sorted [OF c] by (simp add: assms)
qed

end

definition insertionSort :: "('a \<Rightarrow> 'a \<Rightarrow> int) \<Rightarrow> 'a list \<Rightarrow> 'a list" where
  "insertionSort cmp xs = foldr (\<lambda>e sl. InsertSorted sl e cmp) xs []"

interpretation insertion: sorting insertionSort
proof
  fix cmp :: "'a \<Rightarrow> 'a \<Rightarrow> int" and xs
  assume c: "comparator cmp"
  have "sorted_wrt (\<lambda>a b. cmp a b \<le> 0) (insertionSort cmp xs) \<and> mset (insertionSort cmp xs) = mset xs"
    using comparator.InsertSorted_ordered [OF c]
    by (induction xs) (simp_all add: insertionSort_def comparator.ordered_def [OF c])
  then show "mset (insertionSort cmp xs) = mset xs" "sorted_wrt (\<lambda>a b. cmp a b \<le> 0) (insertionSort cmp xs)" by blast+
qed

section \<open>Sorted slices without neighbouring duplicates\<close>

lemma sorted_wrt_subseq: "subseq xs ys \<Longrightarrow> sorted_wrt R ys \<Longrightarrow> sorted_wrt R xs"
  by (induction rule: list_emb.induct) (auto dest: list_emb_set)

lemma keepNew_subseq: "subseq (keepNew eq l xs) xs"
  by (induction eq l xs rule: keepNew.induct) auto

lemma keepNew_covers: "x \<in> set xs \<Longrightarrow> \<exists>y\<in>set (l # keepNew eq l xs). eq y x \<or> y = x"
  by (induction eq l xs rule: keepNew.induct) (auto split: if_splits)

lemma DeduplicateSorted_sorted:
  assumes "sorted_wrt R xs" "reflp eq"
  shows "sorted_wrt R (fst (DeduplicateSorted xs eq)) \<and> set (fst (DeduplicateSorted xs eq)) \<subseteq> set xs
    \<and> (\<forall>x\<in>set xs. \<exists>y\<in>set (fst (DeduplicateSorted xs eq)). eq y x)"
proof (cases xs)
  case Nil
  then show ?thesis by (simp add: DeduplicateSorted_def)
next
  case (Cons x rest)
  then have d: "fst (DeduplicateSorted xs eq) = x # keepNew eq x rest" by (simp add: DeduplicateSorted_eq Let_def)
  have sub: "subseq (x # keepNew eq x rest) xs" unfolding Cons using keepNew_subseq by auto
  have "\<exists>y\<in>set (x # keepNew eq x rest). eq y z" if "z \<in> set xs" for z
    using keepNew_covers [of z rest x eq] that assms(2) unfolding Cons reflp_def by auto
  moreover have "sorted_wrt R (x # keepNew eq x rest)" using sub assms(1) by (rule sorted_wrt_subseq)
  moreover have "set (x # keepNew eq x rest) \<subseteq> set xs" using sub by (auto dest: list_emb_set)
  ultimately show ?thesis unfolding d by blast
qed

section \<open>The closest mapping\<close>

definition closestTo :: "int \<Rightarrow> (MappedPosition \<Rightarrow> int) \<Rightarrow> MappedPosition list \<Rightarrow> MappedPosition \<Rightarrow> bool" where
  "closestTo p f ms m = (m \<in> set ms \<and> p \<le> f m \<and> list_all (\<lambda>m'. p \<le> f m' \<longrightarrow> f m \<le> f m') ms)"

lemma BinarySearchFunc_key:
  assumes "sorted_wrt (\<lambda>a b. f a \<le> f b) xs" "BinarySearchFunc xs t (\<lambda>m p. f m - p) = (i, found)"
  shows "i \<le> length xs \<and> (\<forall>a < i. f (xs ! a) < t) \<and> (\<forall>b. i \<le> b \<and> b < length xs \<longrightarrow> t \<le> f (xs ! b))"
proof -
  let ?P = "\<lambda>h. f (xs ! h) - t \<ge> 0"
  have i: "i = sortSearch (length xs) ?P" using assms(2) by (simp add: BinarySearchFunc_def Let_def)
  have "f (xs ! a) \<le> f (xs ! b)" if "a \<le> b" "b < length xs" for a b
    using assms(1) that by (cases "a = b") (auto simp: sorted_wrt_iff_nth_less)
  then have mono: "\<forall>a b. a \<le> b \<and> b < length xs \<and> ?P a \<longrightarrow> ?P b" by (fastforce simp: diff_ge_0_iff_ge intro: order_trans)
  show ?thesis using sortSearch_first [OF mono] unfolding i by (auto simp: not_le)
qed

lemma closest_in_sorted:
  assumes s: "sorted_wrt (\<lambda>a b. f a \<le> f b) ys" and sub: "set ys \<subseteq> set ms"
    and cover: "\<And>m. m \<in> set ms \<Longrightarrow> \<exists>y\<in>set ys. f y = f m"
    and b: "BinarySearchFunc ys p (\<lambda>m p. f m - p) = (i, found)"
  shows "if i < length ys then closestTo p f ms (ys ! i) else list_all (\<lambda>m. f m < p) ms"
proof -
  note key = BinarySearchFunc_key [OF s b]
  have at: "\<exists>j < length ys. f (ys ! j) = f m" if "m \<in> set ms" for m
    using cover [OF that] by (auto simp: in_set_conv_nth)
  show ?thesis
  proof (cases "i < length ys")
    case True
    have "f (ys ! i) \<le> f m" if m: "m \<in> set ms" "p \<le> f m" for m
    proof -
      obtain j where j: "j < length ys" "f (ys ! j) = f m" using at [OF m(1)] by blast
      have "\<not> j < i"
      proof
        assume "j < i"
        then have "f (ys ! j) < p" using key by blast
        then show False using j m(2) by simp
      qed
      then have "f (ys ! i) \<le> f (ys ! j)"
        using sorted_wrt_nth_less [OF s, of i j] j(1) by (cases "i = j") simp_all
      then show ?thesis using j by simp
    qed
    moreover have "p \<le> f (ys ! i)" using key True by blast
    ultimately show ?thesis using True sub nth_mem [OF True] by (auto simp: closestTo_def list_all_iff)
  next
    case False
    have "f m < p" if m: "m \<in> set ms" for m
    proof -
      obtain j where j: "j < length ys" "f (ys ! j) = f m" using at [OF m] by blast
      then have "j < i" using False by simp
      then have "f (ys ! j) < p" using key by blast
      then show ?thesis using j by simp
    qed
    then show ?thesis using False by (simp add: list_all_iff)
  qed
qed

lemma sameMappedPosition_refl: "reflp sameMappedPosition"
  by (simp add: reflp_def sameMappedPosition_def)

text \<open>A slice sorted by a key and freed of neighbouring duplicates answers a search with the closest
  element of the original.\<close>

lemma search_sorted:
  assumes "sorting sortFunc" "\<And>a b. cmp a b = f a - f b" "\<And>a b. sameMappedPosition a b \<Longrightarrow> f a = f b"
    and ys: "ys = fst (DeduplicateSorted (sortFunc cmp ms) sameMappedPosition)"
    and b: "BinarySearchFunc ys p (\<lambda>m p. f m - p) = (i, found)"
  shows "if i < length ys then closestTo p f ms (ys ! i) else list_all (\<lambda>m. f m < p) ms"
proof -
  have k: "set (sortFunc cmp ms) = set ms" "sorted_wrt (\<lambda>a b. f a \<le> f b) (sortFunc cmp ms)"
    using sorting.sort_key [OF assms(1), of cmp f ms, OF assms(2)] by simp_all
  note d = DeduplicateSorted_sorted [OF k(2) sameMappedPosition_refl, folded ys, unfolded k(1)]
  have cover: "\<exists>y\<in>set ys. f y = f m" if m: "m \<in> set ms" for m
  proof -
    obtain y where "y \<in> set ys" "sameMappedPosition y m" using d m by blast
    then show ?thesis using assms(3) [of y m] by blast
  qed
  have "sorted_wrt (\<lambda>a b. f a \<le> f b) ys" "set ys \<subseteq> set ms" using d by simp_all
  from closest_in_sorted [OF this cover b] show ?thesis .
qed

section \<open>From generated to source positions\<close>

lemma processMapping_index:
  assumes "processMapping host gen paths m = Inr p" "isSourceMappedPosition p"
  shows "0 \<le> mp_sourceIndex p \<and> mp_sourceIndex p < int (length paths)"
  using assms
  by (auto simp: processMapping_def pathAt_def isSourceMappedPosition_def missingPosition_def split: if_splits)

lemma processMappings_set:
  "processMappings host gen paths ms = Inr ps \<Longrightarrow> p \<in> set ps \<Longrightarrow> \<exists>m\<in>set ms. processMapping host gen paths m = Inr p"
  by (induction ms arbitrary: ps) auto

lemma getDecodedMappings_index:
  assumes "getDecodedMappings host gen paths mappings = Inr ps" "p \<in> set ps" "isSourceMappedPosition p"
  shows "0 \<le> mp_sourceIndex p \<and> mp_sourceIndex p < int (length paths)"
proof -
  have "\<exists>ms. processMappings host gen paths ms = Inr ps"
    using assms(1,2) by (auto simp: getDecodedMappings_def split_beta Let_def split: if_splits)
  then show ?thesis using processMappings_set assms(2,3) processMapping_index by blast
qed

lemma createDocumentPositionMapper_Inr:
  assumes "createDocumentPositionMapper toLower sortFunc host sm mapPath = Inr d"
  obtains ms where
    "getDecodedMappings host (dm_generatedAbsoluteFilePath d) (dm_sourceFileAbsolutePaths d) (rs_Mappings sm) = Inr ms"
    "dm_generatedMappings d = fst (DeduplicateSorted (sortFunc byGeneratedPosition ms) sameMappedPosition)"
    "sortSourceMappings sortFunc (collectSourceMappings ms []) = Inr (dm_sourceMappings d)"
  using assms unfolding createDocumentPositionMapper_def Let_def by (auto simp only: bind_panic_eq_Inr) simp

lemma GetSourcePosition_search:
  assumes "sorting sortFunc" and d: "createDocumentPositionMapper toLower sortFunc host sm mapPath = Inr d"
    and ms: "getDecodedMappings host (dm_generatedAbsoluteFilePath d) (dm_sourceFileAbsolutePaths d) (rs_Mappings sm) = Inr ms"
  shows "list_all (\<lambda>m. mp_generatedPosition m < dp_Pos loc) ms \<and> GetSourcePosition (Some d) loc = Inr None
    \<or> (\<exists>m. closestTo (dp_Pos loc) mp_generatedPosition ms m \<and> GetSourcePosition (Some d) loc =
        Inr (if isSourceMappedPosition m
             then Some \<lparr>dp_FileName = dm_sourceFileAbsolutePaths d ! nat (mp_sourceIndex m), dp_Pos = mp_sourcePosition m\<rparr>
             else None))"
proof -
  define ys where "ys = dm_generatedMappings d"
  have ys: "ys = fst (DeduplicateSorted (sortFunc byGeneratedPosition ms) sameMappedPosition)"
    using createDocumentPositionMapper_Inr [OF d] ms by (metis sum.inject(2) ys_def)
  obtain i found where b: "BinarySearchFunc ys (dp_Pos loc) (\<lambda>m p. mp_generatedPosition m - p) = (i, found)" by force
  have found: "if i < length ys then closestTo (dp_Pos loc) mp_generatedPosition ms (ys ! i)
      else list_all (\<lambda>m. mp_generatedPosition m < dp_Pos loc) ms"
    by (rule search_sorted [OF assms(1) _ _ ys b]) (simp_all add: byGeneratedPosition_def sameMappedPosition_def)
  have get: "GetSourcePosition (Some d) loc = (if i \<ge> length ys then Inr None else if \<not> isSourceMappedPosition (ys ! i) then Inr None
      else bind_panic (pathAt (dm_sourceFileAbsolutePaths d) (mp_sourceIndex (ys ! i))) (\<lambda>fileName.
        Inr (Some \<lparr>dp_FileName = fileName, dp_Pos = mp_sourcePosition (ys ! i)\<rparr>)))"
    using b by (simp add: GetSourcePosition_def ys_def [symmetric] Let_def)
  show ?thesis
  proof (cases "i < length ys")
    case False
    then show ?thesis using found get by simp
  next
    case True
    then have c: "closestTo (dp_Pos loc) mp_generatedPosition ms (ys ! i)" using found by simp
    then have "ys ! i \<in> set ms" by (simp add: closestTo_def)
    then show ?thesis
      using True get c getDecodedMappings_index [OF ms] by (intro disjI2 exI [of _ "ys ! i"]) (simp add: pathAt_def)
  qed
qed

text \<open>C18. A generated position is mapped to the closest mapping: when the mapper of a source map could
  be built, GetSourcePosition never panics, and it answers with the source position of a mapping
  whose generated position is the smallest at or behind the requested one, whatever order the
  sorting leaves equal positions in; it has no answer when every mapping lies before the position
  or that mapping has no source.\<close>

theorem GetSourcePosition_closest:
  assumes "sorting sortFunc" and d: "createDocumentPositionMapper toLower sortFunc host sm mapPath = Inr d"
    and ms: "getDecodedMappings host (dm_generatedAbsoluteFilePath d) (dm_sourceFileAbsolutePaths d) (rs_Mappings sm) = Inr ms"
  shows "list_all (\<lambda>m. mp_generatedPosition m < dp_Pos loc) ms \<and> GetSourcePosition (Some d) loc = Inr None
    \<or> (\<exists>m. closestTo (dp_Pos loc) mp_generatedPosition ms m \<and> GetSourcePosition (Some d) loc =
        Inr (if isSourceMappedPosition m
             then Some \<lparr>dp_FileName = dm_sourceFileAbsolutePaths d ! nat (mp_sourceIndex m), dp_Pos = mp_sourcePosition m\<rparr>
             else None))"
  by (rule GetSourcePosition_search [OF assms])

section \<open>From source to generated positions\<close>

lemma map_of_appendAt:
  "map_of (appendAt i m acc) j = (if j = i then Some ((case map_of acc i of None \<Rightarrow> [] | Some l \<Rightarrow> l) @ [m]) else map_of acc j)"
  by (induction i m acc rule: appendAt.induct) auto

lemma map_of_collect:
  "map_of (collectSourceMappings ms acc) j =
     (let new = filter (\<lambda>m. isSourceMappedPosition m \<and> mp_sourceIndex m = j) ms in
      if new = [] then map_of acc j else Some ((case map_of acc j of None \<Rightarrow> [] | Some l \<Rightarrow> l) @ new))"
  by (induction ms acc rule: collectSourceMappings.induct) (auto simp: map_of_appendAt Let_def split: option.splits)

lemma sortSourceMappings_Inr:
  assumes "sortSourceMappings sortFunc l = Inr l'"
  shows "map_of l' j = map_option (\<lambda>x. fst (DeduplicateSorted (sortFunc bySourcePosition x) sameMappedPosition)) (map_of l j)"
    and "length l' = length l"
  using assms by (induction sortFunc l arbitrary: l' rule: sortSourceMappings.induct) (auto split: if_splits)

text \<open>A source position is mapped back to the closest mapping of its file, if the index of the file
  is below the number of files that have mappings: GetGeneratedPosition then answers with the
  generated position of a mapping of that file whose source position is the smallest at or behind
  the requested one, and has no answer only when all of them lie before it. For a file with a larger
  index it never has an answer, whatever mappings the file has.\<close>

theorem GetGeneratedPosition_closest:
  assumes "sorting sortFunc" and d: "createDocumentPositionMapper toLower sortFunc host sm mapPath = Inr d"
    and ms: "getDecodedMappings host (dm_generatedAbsoluteFilePath d) (dm_sourceFileAbsolutePaths d) (rs_Mappings sm) = Inr ms"
    and i: "dm_sourceToSourceIndexMap d (GetCanonicalFileName toLower (dp_FileName loc) (dm_useCaseSensitiveFileNames d)) = Some i"
  shows "if 0 \<le> i \<and> i < int (length (dm_sourceMappings d)) then
      list_all (\<lambda>m. mp_sourcePosition m < dp_Pos loc) (filter (\<lambda>m. isSourceMappedPosition m \<and> mp_sourceIndex m = i) ms)
        \<and> GetGeneratedPosition toLower (Some d) loc = None
      \<or> (\<exists>m. closestTo (dp_Pos loc) mp_sourcePosition (filter (\<lambda>m. isSourceMappedPosition m \<and> mp_sourceIndex m = i) ms) m
          \<and> GetGeneratedPosition toLower (Some d) loc =
              Some \<lparr>dp_FileName = dm_generatedAbsoluteFilePath d, dp_Pos = mp_generatedPosition m\<rparr>)
    else GetGeneratedPosition toLower (Some d) loc = None"
proof (cases "0 \<le> i \<and> i < int (length (dm_sourceMappings d))")
  case False
  then show ?thesis using i by (auto simp: GetGeneratedPosition_def)
next
  case range: True
  let ?ms = "filter (\<lambda>m. isSourceMappedPosition m \<and> mp_sourceIndex m = i) ms"
  define ys where "ys = (case map_of (dm_sourceMappings d) i of None \<Rightarrow> [] | Some l \<Rightarrow> l)"
  have sorted: "sortSourceMappings sortFunc (collectSourceMappings ms []) = Inr (dm_sourceMappings d)"
    using createDocumentPositionMapper_Inr [OF d] ms by (metis sum.inject(2))
  obtain k found where b: "BinarySearchFunc ys (dp_Pos loc) (\<lambda>m p. mp_sourcePosition m - p) = (k, found)" by force
  have found: "if k < length ys then closestTo (dp_Pos loc) mp_sourcePosition ?ms (ys ! k)
      else list_all (\<lambda>m. mp_sourcePosition m < dp_Pos loc) ?ms"
  proof (cases "?ms = []")
    case True
    then have "ys = []" using sortSourceMappings_Inr(1) [OF sorted, of i] by (simp add: ys_def map_of_collect Let_def)
    then show ?thesis using True by simp
  next
    case False
    then have ys: "ys = fst (DeduplicateSorted (sortFunc bySourcePosition ?ms) sameMappedPosition)"
      using sortSourceMappings_Inr(1) [OF sorted, of i] by (simp add: ys_def map_of_collect Let_def)
    show ?thesis
      by (rule search_sorted [OF assms(1) _ _ ys b]) (simp_all add: bySourcePosition_def sameMappedPosition_def)
  qed
  have get: "GetGeneratedPosition toLower (Some d) loc = (if k \<ge> length ys then None else if mp_sourceIndex (ys ! k) \<noteq> i then None
      else Some \<lparr>dp_FileName = dm_generatedAbsoluteFilePath d, dp_Pos = mp_generatedPosition (ys ! k)\<rparr>)"
    using b i range by (simp add: GetGeneratedPosition_def ys_def [symmetric] Let_def)
  show ?thesis
  proof (cases "k < length ys")
    case True
    then have c: "closestTo (dp_Pos loc) mp_sourcePosition ?ms (ys ! k)" using found by simp
    then have "mp_sourceIndex (ys ! k) = i" by (simp add: closestTo_def)
    then show ?thesis using True get c range by auto
  qed (use found get range in simp)
qed

section \<open>When building the mapper panics\<close>

definition hostOk :: "Host \<Rightarrow> bool" where
  \<comment> \<open>the host computes the line information of a file from its text\<close>
  "hostOk host = (\<forall>f li. h_GetECMALineInfo host f = Some li \<longrightarrow> li_lineStarts li = ComputeECMALineStarts (li_text li))"

lemma bind_panic_returns: "(\<exists>y. bind_panic x f = Inr y) \<longleftrightarrow> (\<exists>a. x = Inr a \<and> (\<exists>y. f a = Inr y))"
  by auto

lemma utf16Scan_returns: "lineEnd \<le> length s \<Longrightarrow> \<exists>r. utf16Scan s lineEnd c p n = Inr r"
proof (induction s lineEnd c p n rule: utf16Scan.induct)
  case (1 s lineEnd c p n)
  then show ?case by (subst utf16Scan.simps) auto
qed

lemma ComputePosition_returns:
  assumes "t = ComputeECMALineStarts s"
  shows "\<exists>p. ComputePositionOfLineAndUTF16Character t line c s True = Inr p"
proof -
  have t: "t \<noteq> []" "\<forall>x\<in>set t. x \<le> length s" using ComputeECMALineStarts_sorted [of s] assms by auto
  define l where "l = (if line < 0 then 0 else if line \<ge> int (length t) then int (length t) - 1 else line)"
  have l: "\<not> (l < 0 \<or> l \<ge> int (length t))" using t(1) by (auto simp: l_def Suc_le_eq)
  define lineEnd where "lineEnd = (if l + 1 < int (length t) then t ! nat (l + 1) else length s)"
  have "lineEnd \<le> length s" using t(2) l by (auto simp: lineEnd_def)
  then obtain p n where "utf16Scan s lineEnd c (t ! nat l) 0 = Inr (p, n)" using utf16Scan_returns by fast
  then show ?thesis unfolding ComputePositionOfLineAndUTF16Character_def Let_def l_def [symmetric] lineEnd_def [symmetric]
    using l by simp
qed

lemma positionIn_returns: "hostOk host \<Longrightarrow> \<exists>p. positionIn (h_GetECMALineInfo host f) line c = Inr p"
proof (cases "h_GetECMALineInfo host f")
  case (Some li)
  assume "hostOk host"
  then have "li_lineStarts li = ComputeECMALineStarts (li_text li)" using Some by (simp add: hostOk_def)
  from ComputePosition_returns [OF this] show ?thesis using Some by (fastforce simp: positionIn_def)
qed (simp add: positionIn_def)

lemma processMapping_returns:
  assumes "hostOk host"
  shows "(\<exists>p. processMapping host gen paths m = Inr p) \<longleftrightarrow>
    (IsSourceMapping m \<longrightarrow> 0 \<le> SourceIndex m \<and> SourceIndex m < int (length paths))"
proof -
  obtain p q where "positionIn (h_GetECMALineInfo host gen) (GeneratedLine m) (GeneratedCharacter m) = Inr p"
    "positionIn (h_GetECMALineInfo host (paths ! nat (SourceIndex m))) (SourceLine m) (SourceCharacter m) = Inr q"
    using positionIn_returns [OF assms] by metis
  then show ?thesis by (simp add: processMapping_def pathAt_def)
qed

lemma processMappings_returns:
  assumes "hostOk host"
  shows "(\<exists>ps. processMappings host gen paths ms = Inr ps) \<longleftrightarrow>
    list_all (\<lambda>m. IsSourceMapping m \<longrightarrow> 0 \<le> SourceIndex m \<and> SourceIndex m < int (length paths)) ms"
  using processMapping_returns [OF assms] by (induction ms) auto

definition uniform :: "(int \<times> MappedPosition list) list \<Rightarrow> bool" where
  "uniform l = list_all (\<lambda>(i, ms). ms \<noteq> [] \<and> list_all (\<lambda>m. mp_sourceIndex m = i) ms) l"

lemma uniform_collect: "uniform acc \<Longrightarrow> uniform (collectSourceMappings ms acc)"
proof (induction ms acc rule: collectSourceMappings.induct)
  case (2 m ms acc)
  have "uniform (appendAt (mp_sourceIndex m) m acc)" using "2.prems"
    by (induction "mp_sourceIndex m" m acc rule: appendAt.induct) (auto simp: uniform_def)
  then show ?case using 2 by simp
qed simp

lemma sortSourceMappings_returns: "uniform l \<Longrightarrow> \<exists>l'. sortSourceMappings sortFunc l = Inr l'"
  by (induction sortFunc l rule: sortSourceMappings.induct) (auto simp: uniform_def list_all_iff)

lemma createDocumentPositionMapper_returns:
  assumes "hostOk host"
  shows "(\<exists>d. createDocumentPositionMapper toLower sortFunc host sm mapPath = Inr d) \<longleftrightarrow>
    list_all (\<lambda>m. IsSourceMapping m \<longrightarrow> 0 \<le> SourceIndex m \<and> SourceIndex m < int (length (rs_Sources sm)))
      (fst (Values (DecodeMappings (rs_Mappings sm))))"
proof -
  let ?v = "fst (Values (DecodeMappings (rs_Mappings sm)))"
  have sorted: "\<exists>l'. sortSourceMappings sortFunc (collectSourceMappings ms []) = Inr l'" for ms
    by (rule sortSourceMappings_returns, rule uniform_collect) (simp add: uniform_def)
  have decoded: "(\<exists>ms. getDecodedMappings host gen paths (rs_Mappings sm) = Inr ms) \<longleftrightarrow> (\<exists>ps. processMappings host gen paths ?v = Inr ps)"
    for gen paths by (auto simp: getDecodedMappings_def split_beta)
  show ?thesis
    unfolding createDocumentPositionMapper_def Let_def bind_panic_returns
    by (simp add: sorted decoded processMappings_returns [OF assms] Map_def)
qed

text \<open>Building a mapper panics exactly on a source map with a mapping into a file that its
  \<open>sources\<close> does not list: on a host that computes line tables from the texts, no other source map
  makes it fail, lines and characters beyond a text being clamped, and for such a map the index
  into the paths is out of range.\<close>

theorem createDocumentPositionMapper_panics:
  assumes "hostOk host"
  shows "(\<exists>msg. createDocumentPositionMapper toLower sortFunc host sm mapPath = Inl msg) \<longleftrightarrow>
    list_ex (\<lambda>m. IsSourceMapping m \<and> \<not> (0 \<le> SourceIndex m \<and> SourceIndex m < int (length (rs_Sources sm))))
      (fst (Values (DecodeMappings (rs_Mappings sm))))"
  using createDocumentPositionMapper_returns [OF assms, of toLower sortFunc sm mapPath]
  by (cases "createDocumentPositionMapper toLower sortFunc host sm mapPath") (auto simp: list_all_iff list_ex_iff)

section \<open>A concrete map\<close>

text \<open>Two generated characters mapped to the first two characters of the second of two sources.\<close>

definition exampleHost :: Host where
  "exampleHost = \<lparr>h_UseCaseSensitiveFileNames = True,
     h_GetECMALineInfo = (\<lambda>f. Some (CreateECMALineInfo ''xy'' (ComputeECMALineStarts ''xy''))),
     h_ReadFile = (\<lambda>_. None)\<rparr>"

definition exampleMap :: "string list \<Rightarrow> RawSourceMap" where
  "exampleMap sources = \<lparr>rs_Version = 3, rs_File = ''a.js'', rs_SourceRoot = [], rs_Sources = sources, rs_Names = [],
     rs_Mappings = ''ACAA,CAAC'', rs_SourcesContent = []\<rparr>"

definition exampleMapper :: "RawSourceMap \<Rightarrow> DocumentPositionMapper or_panic" where
  "exampleMapper sm = createDocumentPositionMapper id insertionSort exampleHost sm ''/o/a.js.map''"

lemma exampleHost_ok: "hostOk exampleHost"
  by (auto simp: hostOk_def exampleHost_def CreateECMALineInfo_def)

lemma example_paths:
  "GetDirectoryPath ''/o/a.js.map'' = ''/o''" "GetNormalizedAbsolutePath ''a.js'' ''/o'' = ''/o/a.js''"
  "GetNormalizedAbsolutePath ''a.ts'' ''/o'' = ''/o/a.ts''" "GetNormalizedAbsolutePath ''b.ts'' ''/o'' = ''/o/b.ts''"
  by code_simp+

lemma example_values:
  "fst (Values (DecodeMappings ''ACAA,CAAC'')) =
     [\<lparr>GeneratedLine = 0, GeneratedCharacter = 0, SourceIndex = 1, SourceLine = 0, SourceCharacter = 0, NameIndex = -1\<rparr>,
      \<lparr>GeneratedLine = 0, GeneratedCharacter = 1, SourceIndex = 1, SourceLine = 0, SourceCharacter = 1, NameIndex = -1\<rparr>]"
  "d_error (snd (Values (DecodeMappings ''ACAA,CAAC''))) = None"
  by code_simp+

lemma example_starts: "ComputeECMALineStarts ''xy'' = [0]"
  by (simp add: ComputeECMALineStarts_def lineStartsLoop.simps decodeRune_def IsLineBreak_def Let_def)

lemma example_positions:
  "ComputePositionOfLineAndUTF16Character [0] 0 0 ''xy'' True = Inr 0"
  "ComputePositionOfLineAndUTF16Character [0] 0 1 ''xy'' True = Inr 1"
  by (simp_all add: ComputePositionOfLineAndUTF16Character_def utf16Scan.simps decodeRune_def utf16RuneLen_def Let_def)

definition examplePositions :: "MappedPosition list" where
  "examplePositions =
     [\<lparr>mp_generatedPosition = 0, mp_sourcePosition = 0, mp_sourceIndex = 1, mp_nameIndex = -1\<rparr>,
      \<lparr>mp_generatedPosition = 1, mp_sourcePosition = 1, mp_sourceIndex = 1, mp_nameIndex = -1\<rparr>]"

lemma example_decoded: "getDecodedMappings exampleHost ''/o/a.js'' [''/o/a.ts'', ''/o/b.ts''] ''ACAA,CAAC'' = Inr examplePositions"
  by (simp add: getDecodedMappings_def split_beta example_values processMapping_def positionIn_def exampleHost_def
      CreateECMALineInfo_def example_starts example_positions pathAt_def IsSourceMapping_def MissingSource_def
      MissingLineOrColumn_def MissingUTF16Column_def examplePositions_def)

lemma exampleMapper_Inr:
  obtains d where "exampleMapper (exampleMap [''a.ts'', ''b.ts'']) = Inr d"
    "dm_generatedAbsoluteFilePath d = ''/o/a.js''" "dm_sourceFileAbsolutePaths d = [''/o/a.ts'', ''/o/b.ts'']"
    "dm_sourceToSourceIndexMap d ''/o/b.ts'' = Some 1" "dm_useCaseSensitiveFileNames d" "length (dm_sourceMappings d) = 1"
proof -
  have c: "collectSourceMappings examplePositions [] = [(1, examplePositions)]"
    by (simp add: examplePositions_def isSourceMappedPosition_def MissingSource_def missingPosition_def)
  have "list_all (\<lambda>m. mp_sourceIndex m = mp_sourceIndex (hd examplePositions)) examplePositions"
    by (simp add: examplePositions_def)
  then have "\<exists>d. exampleMapper (exampleMap [''a.ts'', ''b.ts'']) = Inr d
     \<and> dm_generatedAbsoluteFilePath d = ''/o/a.js'' \<and> dm_sourceFileAbsolutePaths d = [''/o/a.ts'', ''/o/b.ts'']
     \<and> dm_sourceToSourceIndexMap d ''/o/b.ts'' = Some 1 \<and> dm_useCaseSensitiveFileNames d \<and> length (dm_sourceMappings d) = 1"
    by (simp add: exampleMapper_def createDocumentPositionMapper_def exampleMap_def Let_def example_paths Map_def
        example_decoded c GetCanonicalFileName_def) (simp add: exampleHost_def)
  then show thesis using that by blast
qed

theorem GetSourcePosition_closest_witness:
  "\<exists>d. exampleMapper (exampleMap [''a.ts'', ''b.ts'']) = Inr d
     \<and> GetSourcePosition (Some d) \<lparr>dp_FileName = ''/o/a.js'', dp_Pos = 1\<rparr> = Inr (Some \<lparr>dp_FileName = ''/o/b.ts'', dp_Pos = 1\<rparr>)"
proof -
  obtain d where d: "exampleMapper (exampleMap [''a.ts'', ''b.ts'']) = Inr d" "dm_generatedAbsoluteFilePath d = ''/o/a.js''"
    "dm_sourceFileAbsolutePaths d = [''/o/a.ts'', ''/o/b.ts'']" by (rule exampleMapper_Inr)
  have "getDecodedMappings exampleHost (dm_generatedAbsoluteFilePath d) (dm_sourceFileAbsolutePaths d)
      (rs_Mappings (exampleMap [''a.ts'', ''b.ts''])) = Inr examplePositions"
    using d example_decoded by (simp add: exampleMap_def)
  from GetSourcePosition_closest [OF insertion.sorting_axioms d(1) [unfolded exampleMapper_def] this,
      of "\<lparr>dp_FileName = ''/o/a.js'', dp_Pos = 1\<rparr>"]
  have "GetSourcePosition (Some d) \<lparr>dp_FileName = ''/o/a.js'', dp_Pos = 1\<rparr> = Inr (Some \<lparr>dp_FileName = ''/o/b.ts'', dp_Pos = 1\<rparr>)"
    using d by (auto simp: examplePositions_def closestTo_def isSourceMappedPosition_def MissingSource_def missingPosition_def)
  then show ?thesis using d by blast
qed

theorem GetGeneratedPosition_closest_witness:
  "\<exists>d. exampleMapper (exampleMap [''a.ts'', ''b.ts'']) = Inr d
     \<and> GetGeneratedPosition id (Some d) \<lparr>dp_FileName = ''/o/b.ts'', dp_Pos = 1\<rparr> = None"
proof -
  obtain d where d: "exampleMapper (exampleMap [''a.ts'', ''b.ts'']) = Inr d" "dm_generatedAbsoluteFilePath d = ''/o/a.js''"
    "dm_sourceFileAbsolutePaths d = [''/o/a.ts'', ''/o/b.ts'']" "dm_sourceToSourceIndexMap d ''/o/b.ts'' = Some 1"
    "dm_useCaseSensitiveFileNames d" "length (dm_sourceMappings d) = 1" by (rule exampleMapper_Inr)
  have "getDecodedMappings exampleHost (dm_generatedAbsoluteFilePath d) (dm_sourceFileAbsolutePaths d)
      (rs_Mappings (exampleMap [''a.ts'', ''b.ts''])) = Inr examplePositions"
    using d example_decoded by (simp add: exampleMap_def)
  from GetGeneratedPosition_closest [OF insertion.sorting_axioms d(1) [unfolded exampleMapper_def] this,
      of "\<lparr>dp_FileName = ''/o/b.ts'', dp_Pos = 1\<rparr>" 1]
  have "GetGeneratedPosition id (Some d) \<lparr>dp_FileName = ''/o/b.ts'', dp_Pos = 1\<rparr> = None"
    using d by (simp add: GetCanonicalFileName_def)
  then show ?thesis using d by blast
qed

theorem createDocumentPositionMapper_panics_witness:
  "hostOk exampleHost \<and> (\<exists>msg. exampleMapper (exampleMap [''a.ts'']) = Inl msg)"
  using createDocumentPositionMapper_panics [OF exampleHost_ok, of id insertionSort "exampleMap [''a.ts'']" "''/o/a.js.map''"]
    exampleHost_ok
  by (simp add: exampleMapper_def exampleMap_def example_values IsSourceMapping_def MissingSource_def
      MissingLineOrColumn_def MissingUTF16Column_def)

end
