(* ===== verification/SourceMap_Pipeline.thy ===== *)
theory SourceMap_Pipeline
  imports SourceMapper_Props
begin

text \<open>
  From the emitter to the reader of a source map: the generator, the encoding, the decoder, the line
  tables and the position mapper together. The generator only commits mappings into sources that it
  has listed, so the mapper of its map can be built, and a position that was added is found again.
\<close>

section \<open>Indices of committed mappings\<close>

definition indexed :: "Generator \<Rightarrow> Mapping list \<Rightarrow> bool" where
  "indexed g ms = (list_all (\<lambda>m. -1 \<le> SourceIndex m \<and> SourceIndex m < int (length (g_sources g))) ms
     \<and> (g_hasPendingSource g \<longrightarrow> -1 \<le> g_pendingSourceIndex g \<and> g_pendingSourceIndex g < int (length (g_sources g))))"

definition sameSources :: "Generator \<Rightarrow> Generator \<Rightarrow> bool" where
  "sameSources g g' = (g_sources g' = g_sources g \<and> g_hasPendingSource g' = g_hasPendingSource g
     \<and> g_pendingSourceIndex g' = g_pendingSourceIndex g)"

lemma writeDelimiters_sources: "writeDelimiters g = Inr g' \<Longrightarrow> sameSources g g'"
  by (auto simp: writeDelimiters_def sameSources_def split_beta Let_def split: if_splits)

lemma writeName_sources: "writeName g = Inr g' \<Longrightarrow> sameSources g g'"
  by (auto simp: writeName_def sameSources_def split: if_splits)

lemma writeSource_sources: "writeSource g = Inr g' \<Longrightarrow> sameSources g g'"
  by (auto simp: writeSource_def sameSources_def split: if_splits dest!: writeName_sources [unfolded sameSources_def])

lemma commitPendingMapping_sources: "commitPendingMapping g = Inr g' \<Longrightarrow> sameSources g g'"
  by (auto simp: commitPendingMapping_def sameSources_def split: if_splits
      dest!: writeDelimiters_sources [unfolded sameSources_def] writeSource_sources [unfolded sameSources_def])

lemma indexed_commitLog: "indexed g ms \<Longrightarrow> indexed g (ms @ commitLog g)"
  by (auto simp: indexed_def commitLog_def pendingMapping_def MissingSource_def)

lemma indexed_cong: "sameSources g g' \<Longrightarrow> indexed g' ms = indexed g ms"
  by (simp add: sameSources_def indexed_def)

lemma addMapping_indexed:
  assumes "indexed g ms" "addMapping gl gc si sl sc n g = Inr g'" "-1 \<le> si" "si < int (length (g_sources g))"
  shows "indexed g' (ms @ callLog gl gc si sl sc g) \<and> g_sources g' = g_sources g"
proof -
  let ?ms = "ms @ callLog gl gc si sl sc g"
  obtain h where h: "indexed h ?ms" "g_sources h = g_sources g" "g_sources g' = g_sources h"
    "g_hasPendingSource g' \<Longrightarrow> g_hasPendingSource h \<and> g_pendingSourceIndex g' = g_pendingSourceIndex h \<or> g_pendingSourceIndex g' = si"
  proof (cases "isNewGeneratedPosition gl gc g \<or> isBacktrackingSourcePosition si sl sc g")
    case True
    obtain g1 where g1: "commitPendingMapping g = Inr g1"
      using assms(2) True by (cases "commitPendingMapping g") (simp_all add: addMapping_def)
    have g': "g_sources g' = g_sources g1 \<and> (g_hasPendingSource g' \<longrightarrow> g_pendingSourceIndex g' = si)"
      using assms(2) unfolding addMapping_def if_P [OF True] g1 bind_panic_simps Let_def
      by (auto split: if_splits)
    have "indexed g1 ?ms"
      using indexed_commitLog [OF assms(1)] indexed_cong [OF commitPendingMapping_sources [OF g1]] True by (simp add: callLog_def)
    then show thesis using g' commitPendingMapping_sources [OF g1] by (intro that [of g1]) (auto simp: sameSources_def)
  next
    case False
    then have "indexed g ?ms" using assms(1) by (simp add: callLog_def)
    then show thesis using False assms(2) by (intro that [of g]) (auto simp: addMapping_def Let_def split: if_splits)
  qed
  then show ?thesis using assms(3,4) by (auto simp: indexed_def)
qed

lemma genStep_indexed:
  assumes "genStep eqFold c (g, ms) = Inr (g', ms')" "indexed g ms"
  shows "indexed g' ms'"
proof -
  have grow: "indexed h ms" if "g_sources h = g_sources g @ ys" "g_hasPendingSource h = g_hasPendingSource g"
      "g_pendingSourceIndex h = g_pendingSourceIndex g" for h ys
    using assms(2) that by (auto simp: indexed_def list_all_iff)
  have add: "indexed g' ms'" if "logged ms (callLog gl gc si sl sc g) (accept (addMapping gl gc si sl sc n g)) = Inr (g', ms')"
      "-1 \<le> si" "si < int (length (g_sources g))" for gl gc si sl sc n
    using that addMapping_indexed [OF assms(2)] by (auto simp: logged_def accept_def)
  have err: "indexed g' ms'" if "logged ms l (Inr (Some e, g)) = Inr (g', ms')" for l e
    using that assms(2) by (simp add: logged_def)
  show ?thesis
  proof (cases c)
    case (CallAddSource f)
    then show ?thesis using assms(1) grow [of "snd (AddSource eqFold f g)"]
      by (auto simp: AddSource_def Let_def split: option.splits)
  next
    case (CallSetSourceContent i s)
    then show ?thesis using assms(1) grow [of "snd (SetSourceContent i s g)" "[]"]
      by (auto simp: SetSourceContent_def Let_def split: if_splits)
  next
    case (CallAddName n)
    then show ?thesis using assms(1) grow [of "snd (AddName n g)" "[]"]
      by (auto simp: AddName_def Let_def split: option.splits)
  next
    case (CallAddGeneratedMapping gl gc)
    then show ?thesis using assms(1) add err
      by (auto simp: AddGeneratedMapping_def notSet_defs split: if_splits)
  next
    case (CallAddSourceMapping gl gc si sl sc)
    then show ?thesis using assms(1) add err by (auto simp: AddSourceMapping_def split: if_splits)
  next
    case (CallAddNamedSourceMapping gl gc si sl sc n)
    then show ?thesis using assms(1) add err by (auto simp: AddNamedSourceMapping_def split: if_splits)
  qed
qed

lemma genRun_indexed: "genRun eqFold cs (g, ms) = Inr (g', ms') \<Longrightarrow> indexed g ms \<Longrightarrow> indexed g' ms'"
proof (induction cs arbitrary: g ms)
  case (Cons c cs)
  then obtain g1 ms1 where "genStep eqFold c (g, ms) = Inr (g1, ms1)" "genRun eqFold cs (g1, ms1) = Inr (g', ms')" by auto
  then show ?case using Cons.IH Cons.prems(2) genStep_indexed by blast
qed simp

lemma emitted_mappings:
  assumes "\<forall>c\<in>set calls. \<forall>x\<in>set (genCallArgs c). x < 2 ^ 62"
    and run: "genRun eqFold calls (NewGenerator file root dir options, []) = Inr (g, log)"
    and raw: "Generator_RawSourceMap g = Inr (raw, g')"
  shows "fst (Values (DecodeMappings (rs_Mappings raw))) = log @ commitLog g"
    and "d_error (snd (Values (DecodeMappings (rs_Mappings raw)))) = None"
    and "list_all (\<lambda>m. -1 \<le> SourceIndex m \<and> SourceIndex m < int (length (rs_Sources raw))) (log @ commitLog g)"
proof -
  have "\<exists>h ms. genRun eqFold calls (NewGenerator file root dir options, []) = Inr (h, ms) \<and> genInv h ms"
    by (rule genRun_inv [OF genInv_NewGenerator assms(1)])
  then have "genInv g log" using run by auto
  from RawSourceMap_decodes [OF this] raw
  show "fst (Values (DecodeMappings (rs_Mappings raw))) = log @ commitLog g"
    "d_error (snd (Values (DecodeMappings (rs_Mappings raw)))) = None" by auto
  have "indexed (NewGenerator file root dir options) []" by (simp add: indexed_def NewGenerator_def)
  then have "indexed g (log @ commitLog g)" using genRun_indexed [OF run] indexed_commitLog by blast
  moreover have "rs_Sources raw = g_sources g"
    using raw commitPendingMapping_sources by (auto simp: Generator_RawSourceMap_def sameSources_def)
  ultimately show "list_all (\<lambda>m. -1 \<le> SourceIndex m \<and> SourceIndex m < int (length (rs_Sources raw))) (log @ commitLog g)" by (simp add: indexed_def)
qed

section \<open>Positions in texts\<close>

text \<open>\<open>p\<close> is a position of \<open>s\<close> between two characters, and the scanner gives its line and character.\<close>

definition atPosition :: "string \<Rightarrow> nat \<Rightarrow> int \<Rightarrow> int \<Rightarrow> bool" where
  "atPosition s p line character =
     (let t = ComputeECMALineStarts s; start = t ! nat (ComputeLineOfPosition t (int p)) in
      p \<le> length s \<and> runeBoundary (drop start s) (p - start)
      \<and> GetECMALineAndUTF16CharacterOfPosition s t (int p) = Inr (line, character))"

lemma atPosition_compute:
  assumes "atPosition s p line c"
  shows "ComputePositionOfLineAndUTF16Character (ComputeECMALineStarts s) line c s allowEdits = Inr p"
proof -
  let ?t = "ComputeECMALineStarts s"
  have p: "p \<le> length s" and get: "GetECMALineAndUTF16CharacterOfPosition s ?t (int p) = Inr (line, c)"
    using assms by (simp_all add: atPosition_def Let_def)
  obtain l where l: "l < length ?t" "ComputeLineOfPosition ?t (int p) = int l" "?t ! l \<le> p"
      "\<forall>j. l < j \<and> j < length ?t \<longrightarrow> p < ?t ! j"
    using line_table_line [OF p] by blast
  have "runeBoundary (drop (?t ! l) s) (p - ?t ! l)" using assms l(2) by (simp add: atPosition_def Let_def)
  note ComputePosition_of_line [OF l(1,3) p l(4) this, of allowEdits]
  moreover have "line = int l \<and> c = UTF16Len (Go_Prelude.slice s (?t ! l) p)"
    using get l p by (simp add: GetECMALineAndUTF16CharacterOfPosition_def lineStartOf_def sliceOf_def)
  ultimately show ?thesis by simp
qed

text \<open>The mapping records position \<open>p\<close> of the generated and \<open>q\<close> of the source file, and no other
  mapping of the list is computed to the same generated position.\<close>

definition mapsBetween :: "Host \<Rightarrow> string \<Rightarrow> string \<Rightarrow> nat \<Rightarrow> nat \<Rightarrow> Mapping \<Rightarrow> bool" where
  "mapsBetween host gen src p q m =
     (case (h_GetECMALineInfo host gen, h_GetECMALineInfo host src) of
        (Some gli, Some sli) \<Rightarrow> IsSourceMapping m \<and> atPosition (li_text gli) p (GeneratedLine m) (GeneratedCharacter m)
          \<and> atPosition (li_text sli) q (SourceLine m) (SourceCharacter m)
      | _ \<Rightarrow> False)"

definition onlyAt :: "Host \<Rightarrow> string \<Rightarrow> nat \<Rightarrow> Mapping \<Rightarrow> Mapping list \<Rightarrow> bool" where
  "onlyAt host gen p m ms =
     list_all (\<lambda>m'. positionIn (h_GetECMALineInfo host gen) (GeneratedLine m') (GeneratedCharacter m') = Inr (int p) \<longrightarrow> m' = m) ms"

lemma positionIn_at:
  assumes "hostOk host" "h_GetECMALineInfo host f = Some li" "atPosition (li_text li) p line c"
  shows "positionIn (h_GetECMALineInfo host f) line c = Inr (int p)"
  using assms atPosition_compute [OF assms(3), of True] by (simp add: positionIn_def hostOk_def)

lemma processMapping_between:
  assumes "hostOk host" "mapsBetween host gen (paths ! nat (SourceIndex m)) p q m" "processMapping host gen paths m = Inr pm"
  shows "mp_generatedPosition pm = int p \<and> mp_sourcePosition pm = int q \<and> mp_sourceIndex pm = SourceIndex m \<and> isSourceMappedPosition pm"
proof -
  obtain gli sli where li: "h_GetECMALineInfo host gen = Some gli" "h_GetECMALineInfo host (paths ! nat (SourceIndex m)) = Some sli"
    and at: "IsSourceMapping m" "atPosition (li_text gli) p (GeneratedLine m) (GeneratedCharacter m)"
      "atPosition (li_text sli) q (SourceLine m) (SourceCharacter m)"
    using assms(2) by (auto simp: mapsBetween_def split: option.splits)
  show ?thesis
    using assms(3) at(1) positionIn_at [OF assms(1) li(1) at(2)] positionIn_at [OF assms(1) li(2) at(3)]
    by (auto simp: processMapping_def pathAt_def isSourceMappedPosition_def IsSourceMapping_def missingPosition_def split: if_splits)
qed

lemma processMappings_covers:
  "processMappings host gen paths ms = Inr ps \<Longrightarrow> m \<in> set ms \<Longrightarrow> \<exists>p\<in>set ps. processMapping host gen paths m = Inr p"
  by (induction ms arbitrary: ps) auto

lemma processMapping_generated:
  "processMapping host gen paths m = Inr p \<Longrightarrow>
     positionIn (h_GetECMALineInfo host gen) (GeneratedLine m) (GeneratedCharacter m) = Inr (mp_generatedPosition p)"
  by (auto simp: processMapping_def)

lemma GetSourcePosition_recorded:
  assumes "sorting sortFunc" "hostOk host" and d: "createDocumentPositionMapper toLower sortFunc host sm mapPath = Inr d"
    and vals: "fst (Values (DecodeMappings (rs_Mappings sm))) = ms" "d_error (snd (Values (DecodeMappings (rs_Mappings sm)))) = None"
    and m: "m \<in> set ms" "mapsBetween host (dm_generatedAbsoluteFilePath d) (dm_sourceFileAbsolutePaths d ! nat (SourceIndex m)) p q m"
      "onlyAt host (dm_generatedAbsoluteFilePath d) p m ms"
  shows "GetSourcePosition (Some d) \<lparr>dp_FileName = f, dp_Pos = int p\<rparr> =
    Inr (Some \<lparr>dp_FileName = dm_sourceFileAbsolutePaths d ! nat (SourceIndex m), dp_Pos = int q\<rparr>)"
proof -
  let ?gen = "dm_generatedAbsoluteFilePath d" and ?paths = "dm_sourceFileAbsolutePaths d"
  obtain ps where ps: "getDecodedMappings host ?gen ?paths (rs_Mappings sm) = Inr ps"
    using createDocumentPositionMapper_Inr [OF d] by blast
  then have proc: "processMappings host ?gen ?paths ms = Inr ps"
    using vals by (auto simp: getDecodedMappings_def split_beta)
  obtain pm where pm: "pm \<in> set ps" "processMapping host ?gen ?paths m = Inr pm"
    using processMappings_covers [OF proc m(1)] by blast
  note at = processMapping_between [OF assms(2) m(2) pm(2)]
  have only: "c = pm" if c: "closestTo (int p) mp_generatedPosition ps c" for c
  proof -
    have "c \<in> set ps" "mp_generatedPosition c = int p" using c pm(1) at by (auto simp: closestTo_def list_all_iff)
    then obtain m' where "m' \<in> set ms" "processMapping host ?gen ?paths m' = Inr c" using processMappings_set [OF proc] by blast
    moreover from this have "m' = m"
      using m(3) processMapping_generated [of host ?gen ?paths m' c] \<open>mp_generatedPosition c = int p\<close> by (auto simp: onlyAt_def list_all_iff)
    ultimately show ?thesis using pm(2) by simp
  qed
  have "\<not> list_all (\<lambda>m. mp_generatedPosition m < int p) ps" using pm(1) at by (auto simp: list_all_iff intro!: bexI [of _ pm])
  then show ?thesis
    using GetSourcePosition_search [OF assms(1) d ps, of "\<lparr>dp_FileName = f, dp_Pos = int p\<rparr>"] only at by auto
qed

text \<open>C4. What the emitter records is what the reader finds. Take any run of the generator with arguments below
  \<open>2 ^ 62\<close> and the map it returns: on a host that computes line tables from the texts, the position
  mapper of that map is built without a panic, and for every committed mapping that records a
  position \<open>p\<close> in the generated text and a position \<open>q\<close> in a source, neither inside a rune, by the line and UTF-16 character
  the scanner gives them, asking the mapper for \<open>p\<close> gives that source and \<open>q\<close>, provided that no other
  committed mapping is at the same generated position; where the generator has backtracked in the source there may be several.\<close>

theorem emitted_position_found:
  assumes "\<forall>c\<in>set calls. \<forall>x\<in>set (genCallArgs c). x < 2 ^ 62"
    and "genRun eqFold calls (NewGenerator file root dir options, []) = Inr (g, log)"
    and "Generator_RawSourceMap g = Inr (raw, g')"
    and "sorting sortFunc" "hostOk host"
  shows "\<exists>d. createDocumentPositionMapper toLower sortFunc host raw mapPath = Inr d
    \<and> (\<forall>m\<in>set (log @ commitLog g). \<forall>p q.
        mapsBetween host (dm_generatedAbsoluteFilePath d) (dm_sourceFileAbsolutePaths d ! nat (SourceIndex m)) p q m
        \<and> onlyAt host (dm_generatedAbsoluteFilePath d) p m (log @ commitLog g) \<longrightarrow>
        GetSourcePosition (Some d) \<lparr>dp_FileName = f, dp_Pos = int p\<rparr> =
          Inr (Some \<lparr>dp_FileName = dm_sourceFileAbsolutePaths d ! nat (SourceIndex m), dp_Pos = int q\<rparr>))"
proof -
  note emitted = emitted_mappings [OF assms(1-3)]
  have "\<exists>d. createDocumentPositionMapper toLower sortFunc host raw mapPath = Inr d"
    unfolding createDocumentPositionMapper_returns [OF assms(5)] emitted(1)
    by (rule list.pred_mono_strong [OF emitted(3)]) (auto simp: IsSourceMapping_def MissingSource_def)
  then show ?thesis using GetSourcePosition_recorded [OF assms(4,5) _ emitted(1,2)] by blast
qed

definition exampleRun :: "(Generator \<times> Mapping list) or_panic" where
  "exampleRun = genRun (=) [CallAddSource ''/o/b.ts'', CallAddSourceMapping 0 0 0 0 0, CallAddSourceMapping 0 1 0 0 1]
     (NewGenerator ''a.js'' [] ''/o'' \<lparr>UseCaseSensitiveFileNames = True, CurrentDirectory = ''/''\<rparr>, [])"

definition exampleMapping :: "int \<Rightarrow> Mapping" where
  "exampleMapping c = \<lparr>GeneratedLine = 0, GeneratedCharacter = c, SourceIndex = 0, SourceLine = 0, SourceCharacter = c, NameIndex = -1\<rparr>"

lemma exampleRun_Inr:
  obtains g log raw g' where "exampleRun = Inr (g, log)" "Generator_RawSourceMap g = Inr (raw, g')"
    "log @ commitLog g = [exampleMapping 0, exampleMapping 1]"
proof -
  have "case exampleRun of Inl _ \<Rightarrow> False | Inr (g, log) \<Rightarrow> log @ commitLog g = [exampleMapping 0, exampleMapping 1]
      \<and> (case Generator_RawSourceMap g of Inl _ \<Rightarrow> False | Inr _ \<Rightarrow> True)"
    by code_simp
  then show thesis using that by (auto split: sum.splits prod.splits)
qed

lemma example_between: "mapsBetween exampleHost gen src 1 1 (exampleMapping 1)"
proof -
  have "ComputeLineOfPosition [0] 1 = 0" by code_simp
  moreover have "UTF16Len ''x'' = 1" by (simp add: UTF16Len_def utf16RuneLen_def decodeRune_def)
  ultimately have "atPosition ''xy'' 1 0 1"
    by (simp add: atPosition_def example_starts runeBoundary.simps decodeRune_def GetECMALineAndUTF16CharacterOfPosition_def
        lineStartOf_def sliceOf_def Go_Prelude.slice_def)
  then show ?thesis
    by (simp add: mapsBetween_def exampleHost_def exampleMapping_def CreateECMALineInfo_def IsSourceMapping_def MissingSource_def
        MissingLineOrColumn_def MissingUTF16Column_def)
qed

lemma example_only: "onlyAt exampleHost gen 1 (exampleMapping 1) [exampleMapping 0, exampleMapping 1]"
  by (simp add: onlyAt_def positionIn_def exampleHost_def exampleMapping_def CreateECMALineInfo_def example_starts example_positions)

theorem emitted_position_found_witness:
  "\<exists>g log raw g' d. exampleRun = Inr (g, log) \<and> Generator_RawSourceMap g = Inr (raw, g') \<and> exampleMapper raw = Inr d
    \<and> GetSourcePosition (Some d) \<lparr>dp_FileName = ''/o/a.js'', dp_Pos = 1\<rparr> =
        Inr (Some \<lparr>dp_FileName = dm_sourceFileAbsolutePaths d ! 0, dp_Pos = 1\<rparr>)"
proof -
  obtain g log raw g' where r: "exampleRun = Inr (g, log)" "Generator_RawSourceMap g = Inr (raw, g')"
    "log @ commitLog g = [exampleMapping 0, exampleMapping 1]" by (rule exampleRun_Inr)
  have small: "\<forall>c\<in>set [CallAddSource ''/o/b.ts'', CallAddSourceMapping 0 0 0 0 0, CallAddSourceMapping 0 1 0 0 1].
      \<forall>x\<in>set (genCallArgs c). x < 2 ^ 62" by simp
  have "SourceIndex (exampleMapping 1) = 0" by (simp add: exampleMapping_def)
  with emitted_position_found [OF small r(1) [unfolded exampleRun_def] r(2) insertion.sorting_axioms exampleHost_ok,
      of id "''/o/a.js.map''" "''/o/a.js''", unfolded r(3)] example_between [of _ _] example_only
  show ?thesis using r(1,2) by (fastforce simp: exampleMapper_def)
qed

end
