(* ===== verification/RefCountCache.thy ===== *)
theory RefCountCache
  imports Go_Prelude
begin

text \<open>
  \<open>internal/project/refcountcache.go\<close>: the cache of parsed files that the snapshots of the language
  server share. Its operations run in several goroutines, so the model is a step relation: a program
  counter per goroutine, a heap of entries with their mutexes, and the concurrent map, each of whose
  methods is one atomic step. Fields of an entry are only touched under its mutex, so a whole
  critical section between two accesses of the map is one step. The references that clients hold
  are part of the state, since the contract of the cache is about them.
\<close>

section \<open>State\<close>

record 'v refCountCacheEntry =
  mu :: "nat option" \<comment> \<open>the goroutine that has locked the mutex\<close>
  entryValue :: 'v
  refCount :: int

text \<open>Who called \<open>loadOrStoreNewLockedEntry\<close>: \<open>Acquire\<close> with its argument, or \<open>Ref\<close>, which still has the
  deleted entry locked. The client of a \<open>Ref\<close> has a value, which it will hold twice.\<close>

datatype ('v, 'args) caller = InAcquire 'args | InRef nat 'v

datatype ('k, 'v, 'args) pc =
    Idle
  | LoadOrStore 'k "('v, 'args) caller"        \<comment> \<open>before \<open>entries.LoadOrStore\<close>\<close>
  | LockExisting 'k nat "('v, 'args) caller"   \<comment> \<open>before \<open>existing.mu.Lock\<close>\<close>
  | CheckExisting 'k nat "('v, 'args) caller"  \<comment> \<open>with \<open>existing\<close> locked\<close>
  | AcquireBody 'k nat bool 'args              \<comment> \<open>in \<open>Acquire\<close>, with \<open>entry\<close> locked and \<open>loaded\<close>\<close>
  | RefLoad 'k 'v                              \<comment> \<open>before \<open>entries.Load\<close> of \<open>Ref\<close>\<close>
  | RefLock 'k nat 'v
  | RefLocked 'k nat 'v
  | RefCopy 'k nat nat 'v                      \<comment> \<open>with the deleted and the new entry locked\<close>
  | DerefLoad 'k
  | DerefLock 'k nat
  | DerefLocked 'k nat
  | DerefDelete 'k nat                         \<comment> \<open>before \<open>entries.Delete\<close>, with the entry locked\<close>
  | DerefUnlock nat
  | Panicked

record ('k, 'v, 'args) cacheState =
  entries :: "'k \<Rightarrow> nat option"
  heap :: "nat \<Rightarrow> 'v refCountCacheEntry"
  nextAddr :: nat
  pcs :: "('k, 'v, 'args) pc list"
  held :: "'k \<Rightarrow> 'v list"

text \<open>What a step does with the program counter of its goroutine, an entry, and the client's references.\<close>

definition goto :: "nat \<Rightarrow> ('k, 'v, 'args) pc \<Rightarrow> ('k, 'v, 'args) cacheState \<Rightarrow> ('k, 'v, 'args) cacheState" where
  "goto t p s = s\<lparr>pcs := (pcs s)[t := p]\<rparr>"

definition setEntry :: "nat \<Rightarrow> 'v refCountCacheEntry \<Rightarrow> ('k, 'v, 'args) cacheState \<Rightarrow> ('k, 'v, 'args) cacheState" where
  "setEntry a e s = s\<lparr>heap := (heap s)(a := e)\<rparr>"

definition give :: "'k \<Rightarrow> 'v list \<Rightarrow> ('k, 'v, 'args) cacheState \<Rightarrow> ('k, 'v, 'args) cacheState" where
  "give k vs s = s\<lparr>held := (held s)(k := vs @ held s k)\<rparr>"

definition lockEntry :: "nat \<Rightarrow> nat \<Rightarrow> ('k, 'v, 'args) pc \<Rightarrow> ('k, 'v, 'args) cacheState \<Rightarrow> ('k, 'v, 'args) cacheState option" where
  \<comment> \<open>\<open>entry.mu.Lock()\<close>, which waits while the mutex is locked\<close>
  "lockEntry t a p s =
     (if mu (heap s a) = None then Some (goto t p (setEntry a ((heap s a)\<lparr>mu := Some t\<rparr>) s)) else None)"

definition returnEntry :: "'k \<Rightarrow> nat \<Rightarrow> bool \<Rightarrow> ('v, 'args) caller \<Rightarrow> ('k, 'v, 'args) pc" where
  \<comment> \<open>where \<open>loadOrStoreNewLockedEntry\<close> returns to\<close>
  "returnEntry k a loaded c = (case c of InAcquire args \<Rightarrow> AcquireBody k a loaded args | InRef old v \<Rightarrow> RefCopy k old a v)"

section \<open>Steps\<close>

fun step :: "bool \<Rightarrow> 'v \<Rightarrow> ('k \<Rightarrow> 'args \<Rightarrow> 'v) \<Rightarrow> nat \<Rightarrow> ('k, 'v, 'args) pc \<Rightarrow> ('k, 'v, 'args) cacheState \<Rightarrow> ('k, 'v, 'args) cacheState option" where
  \<comment> \<open>one step of goroutine \<open>t\<close> at the given program counter; \<open>None\<close> while it waits\<close>
  "step disableDeletion zero parse t Idle s = None"
| "step disableDeletion zero parse t (LoadOrStore k c) s =
     (case entries s k of
        Some existing \<Rightarrow> Some (goto t (LockExisting k existing c) s)
      | None \<Rightarrow>
          let entry = nextAddr s in
          Some (goto t (returnEntry k entry False c)
            (setEntry entry \<lparr>mu = Some t, entryValue = zero, refCount = 1\<rparr>
              (s\<lparr>entries := (entries s)(k := Some entry), nextAddr := Suc entry\<rparr>))))"
| "step disableDeletion zero parse t (LockExisting k existing c) s = lockEntry t existing (CheckExisting k existing c) s"
| "step disableDeletion zero parse t (CheckExisting k existing c) s =
     (let e = heap s existing in
      if refCount e \<le> 0 \<and> \<not> disableDeletion
      then Some (goto t (LoadOrStore k c) (setEntry existing (e\<lparr>mu := None\<rparr>) s))
      else Some (goto t (returnEntry k existing True c) (setEntry existing (e\<lparr>refCount := refCount e + 1\<rparr>) s)))"
| "step disableDeletion zero parse t (AcquireBody k entry loaded args) s =
     (let e = heap s entry; v = (if \<not> loaded then parse k args else entryValue e) in
      Some (give k [v] (goto t Idle (setEntry entry (e\<lparr>entryValue := v, mu := None\<rparr>) s))))"
| "step disableDeletion zero parse t (RefLoad k v) s =
     (case entries s k of
        None \<Rightarrow> Some (goto t Panicked s)
      | Some entry \<Rightarrow> Some (goto t (RefLock k entry v) s))"
| "step disableDeletion zero parse t (RefLock k entry v) s = lockEntry t entry (RefLocked k entry v) s"
| "step disableDeletion zero parse t (RefLocked k entry v) s =
     (let e = heap s entry in
      if refCount e \<le> 0 \<and> \<not> disableDeletion then Some (goto t (LoadOrStore k (InRef entry v)) s)
      else Some (give k [v, v] (goto t Idle (setEntry entry (e\<lparr>refCount := refCount e + 1, mu := None\<rparr>) s))))"
| "step disableDeletion zero parse t (RefCopy k entry newEntry v) s =
     (let e = heap s entry; n = (heap s newEntry)\<lparr>entryValue := entryValue e, mu := None\<rparr> in
      Some (give k [v, v] (goto t Idle (setEntry entry ((heap (setEntry newEntry n s) entry)\<lparr>mu := None\<rparr>) (setEntry newEntry n s)))))"
| "step disableDeletion zero parse t (DerefLoad k) s =
     (case entries s k of
        None \<Rightarrow> Some (goto t Idle s)
      | Some entry \<Rightarrow> Some (goto t (DerefLock k entry) s))"
| "step disableDeletion zero parse t (DerefLock k entry) s = lockEntry t entry (DerefLocked k entry) s"
| "step disableDeletion zero parse t (DerefLocked k entry) s =
     (let e = (heap s entry)\<lparr>refCount := refCount (heap s entry) - 1\<rparr> in
      if refCount e \<le> 0 \<and> \<not> disableDeletion then Some (goto t (DerefDelete k entry) (setEntry entry e s))
      else Some (goto t Idle (setEntry entry (e\<lparr>mu := None\<rparr>) s)))"
| "step disableDeletion zero parse t (DerefDelete k entry) s =
     Some (goto t (DerefUnlock entry) (s\<lparr>entries := (entries s)(k := None)\<rparr>))"
| "step disableDeletion zero parse t (DerefUnlock entry) s =
     Some (goto t Idle (setEntry entry ((heap s entry)\<lparr>mu := None\<rparr>) s))"
| "step disableDeletion zero parse t Panicked s = None"

definition Has :: "'k \<Rightarrow> ('k, 'v, 'args) cacheState \<Rightarrow> bool" where
  "Has k s = (entries s k \<noteq> None)"

definition NewRefCountCache :: "'v \<Rightarrow> nat \<Rightarrow> ('k, 'v, 'args) cacheState" where
  \<comment> \<open>an empty cache, with a number of goroutines that have not called it yet\<close>
  "NewRefCountCache zero n =
     \<lparr>entries = (\<lambda>_. None), heap = (\<lambda>_. \<lparr>mu = None, entryValue = zero, refCount = 0\<rparr>), nextAddr = 0,
      pcs = replicate n Idle, held = (\<lambda>_. [])\<rparr>"

section \<open>The clients\<close>

text \<open>A goroutine without a call may start one. The contract: whoever dereferences holds a reference, and
  gives it up; whoever adds a reference holds one for the whole call. \<open>Acquire\<close> needs nothing.\<close>

inductive clientStep :: "bool \<Rightarrow> 'v \<Rightarrow> ('k \<Rightarrow> 'args \<Rightarrow> 'v) \<Rightarrow> ('k, 'v, 'args) cacheState \<Rightarrow> ('k, 'v, 'args) cacheState \<Rightarrow> bool"
  for disableDeletion :: bool and zero :: 'v and parse :: "'k \<Rightarrow> 'args \<Rightarrow> 'v" where
  Acquire: "t < length (pcs s) \<Longrightarrow> pcs s ! t = Idle \<Longrightarrow>
     clientStep disableDeletion zero parse s (goto t (LoadOrStore k (InAcquire args)) s)"
| Ref: "t < length (pcs s) \<Longrightarrow> pcs s ! t = Idle \<Longrightarrow> held s k = v # vs \<Longrightarrow>
     clientStep disableDeletion zero parse s (goto t (RefLoad k v) (s\<lparr>held := (held s)(k := vs)\<rparr>))"
| Deref: "t < length (pcs s) \<Longrightarrow> pcs s ! t = Idle \<Longrightarrow> held s k = v # vs \<Longrightarrow>
     clientStep disableDeletion zero parse s (goto t (DerefLoad k) (s\<lparr>held := (held s)(k := vs)\<rparr>))"
| Run: "t < length (pcs s) \<Longrightarrow> step disableDeletion zero parse t (pcs s ! t) s = Some s' \<Longrightarrow>
     clientStep disableDeletion zero parse s s'"

inductive reachable :: "bool \<Rightarrow> 'v \<Rightarrow> ('k \<Rightarrow> 'args \<Rightarrow> 'v) \<Rightarrow> nat \<Rightarrow> ('k, 'v, 'args) cacheState \<Rightarrow> bool"
  for disableDeletion :: bool and zero :: 'v and parse :: "'k \<Rightarrow> 'args \<Rightarrow> 'v" and n :: nat where
  Init: "reachable disableDeletion zero parse n (NewRefCountCache zero n)"
| Step: "reachable disableDeletion zero parse n s \<Longrightarrow> clientStep disableDeletion zero parse s s' \<Longrightarrow>
     reachable disableDeletion zero parse n s'"

end
