(* ===== verification/RefCountCache_Props.thy ===== *)
theory RefCountCache_Props
  imports RefCountCache
begin

text \<open>
  What the reference-counting cache promises to clients that keep the contract, for every interleaving:
  the count of an entry is the number of references, all references to a key see one value, a held
  entry stays in the cache, an entry without references goes, and no goroutine waits forever for a lock.
\<close>

section \<open>The invariant\<close>

text \<open>The references to \<open>k\<close> that the call of a goroutine has on behalf of its client.\<close>

fun callerWeight :: "('v, 'args) caller \<Rightarrow> nat" where
  "callerWeight (InAcquire args) = 0"
| "callerWeight (InRef a v) = 1"

fun weight :: "'k \<Rightarrow> ('k, 'v, 'args) pc \<Rightarrow> nat" where
  "weight k (LoadOrStore k' c) = (if k' = k then callerWeight c else 0)"
| "weight k (LockExisting k' a c) = (if k' = k then callerWeight c else 0)"
| "weight k (CheckExisting k' a c) = (if k' = k then callerWeight c else 0)"
| "weight k (AcquireBody k' a loaded args) = (if k' = k then 1 else 0)"
| "weight k (RefLoad k' v) = (if k' = k then 1 else 0)"
| "weight k (RefLock k' a v) = (if k' = k then 1 else 0)"
| "weight k (RefLocked k' a v) = (if k' = k then 1 else 0)"
| "weight k (RefCopy k' a b v) = (if k' = k then 2 else 0)"
| "weight k (DerefLoad k') = (if k' = k then 1 else 0)"
| "weight k (DerefLock k' a) = (if k' = k then 1 else 0)"
| "weight k (DerefLocked k' a) = (if k' = k then 1 else 0)"
| "weight k _ = 0"

definition references :: "'k \<Rightarrow> ('k, 'v, 'args) cacheState \<Rightarrow> nat" where
  "references k s = length (held s k) + sum_list (map (weight k) (pcs s))"

fun callerLocks :: "('v, 'args) caller \<Rightarrow> nat set" where
  "callerLocks (InAcquire args) = {}"
| "callerLocks (InRef a v) = {a}"

fun locks :: "('k, 'v, 'args) pc \<Rightarrow> nat set" where
  "locks (LoadOrStore k c) = callerLocks c"
| "locks (LockExisting k a c) = callerLocks c"
| "locks (CheckExisting k a c) = insert a (callerLocks c)"
| "locks (AcquireBody k a loaded args) = {a}"
| "locks (RefLocked k a v) = {a}"
| "locks (RefCopy k a b v) = {a, b}"
| "locks (DerefLocked k a) = {a}"
| "locks (DerefDelete k a) = {a}"
| "locks (DerefUnlock a) = {a}"
| "locks _ = {}"

definition dead :: "nat \<Rightarrow> ('k, 'v, 'args) cacheState \<Rightarrow> bool" where
  "dead a s = (a < nextAddr s \<and> refCount (heap s a) \<le> 0 \<and> (\<forall>k. entries s k \<noteq> Some a))"

fun callerOk :: "('v, 'args) caller \<Rightarrow> bool" where
  "callerOk (InAcquire args) = True"
| "callerOk (InRef a v) = False"

fun pcOk :: "('k, 'v, 'args) cacheState \<Rightarrow> ('k, 'v, 'args) pc \<Rightarrow> bool" where
  "pcOk s Idle = True"
| "pcOk s (LoadOrStore k c) = callerOk c"
| "pcOk s (LockExisting k a c) = (callerOk c \<and> (entries s k = Some a \<or> dead a s))"
| "pcOk s (CheckExisting k a c) = (callerOk c \<and> (entries s k = Some a \<and> refCount (heap s a) > 0 \<or> dead a s))"
| "pcOk s (AcquireBody k a loaded args) = (entries s k = Some a \<and> (\<not> loaded \<longrightarrow> refCount (heap s a) = 1))"
| "pcOk s (RefLoad k v) = (\<exists>a. entries s k = Some a \<and> entryValue (heap s a) = v)"
| "pcOk s (RefLock k a v) = (entries s k = Some a \<and> entryValue (heap s a) = v)"
| "pcOk s (RefLocked k a v) = (entries s k = Some a \<and> entryValue (heap s a) = v)"
| "pcOk s (RefCopy k a b v) = False"
| "pcOk s (DerefLoad k) = (entries s k \<noteq> None)"
| "pcOk s (DerefLock k a) = (entries s k = Some a)"
| "pcOk s (DerefLocked k a) = (entries s k = Some a)"
| "pcOk s (DerefDelete k a) = (entries s k = Some a \<and> refCount (heap s a) = 0)"
| "pcOk s (DerefUnlock a) = dead a s"
| "pcOk s Panicked = False"

definition cacheInv :: "('k, 'v, 'args) cacheState \<Rightarrow> bool" where
  "cacheInv s =
    ((\<forall>a t. mu (heap s a) = Some t \<longleftrightarrow> t < length (pcs s) \<and> a \<in> locks (pcs s ! t))
     \<and> (\<forall>k a. entries s k = Some a \<longrightarrow> a < nextAddr s \<and> refCount (heap s a) = int (references k s))
     \<and> (\<forall>k k' a. entries s k = Some a \<and> entries s k' = Some a \<longrightarrow> k = k')
     \<and> (\<forall>k. entries s k = None \<longrightarrow> references k s = 0)
     \<and> (\<forall>k a. entries s k = Some a \<and> references k s = 0 \<longrightarrow> DerefDelete k a \<in> set (pcs s))
     \<and> (\<forall>k a v. entries s k = Some a \<and> v \<in> set (held s k) \<longrightarrow> entryValue (heap s a) = v)
     \<and> (\<forall>t < length (pcs s). pcOk s (pcs s ! t)))"

lemma cacheInv_init: "cacheInv (NewRefCountCache zero n)"
  by (auto simp: cacheInv_def NewRefCountCache_def references_def sum_list_replicate)

section \<open>Counting\<close>

lemma sum_list_upd:
  "t < length xs \<Longrightarrow> sum_list (map f (xs[t := x])) + f (xs ! t) = sum_list (map f xs) + (f x :: nat)"
  by (induction xs arbitrary: t) (auto split: nat.splits)

lemma weight_le: "t < length xs \<Longrightarrow> f (xs ! t) \<le> sum_list (map f xs :: nat list)"
  by (induction xs arbitrary: t) (auto simp: nth_Cons split: nat.splits, meson le_add2 le_trans)

lemma references_upd:
  assumes "t < length (pcs s)" "pcs s' = (pcs s)[t := p]"
  shows "references k s' + weight k (pcs s ! t) + length (held s k) = references k s + weight k p + length (held s' k)"
  using sum_list_upd [OF assms(1), of "weight k" p] assms(2) by (simp add: references_def)

lemma references_other:
  assumes "u < length (pcs s)" "t < length (pcs s)" "u \<noteq> t"
  shows "weight k (pcs s ! u) + weight k (pcs s ! t) + length (held s k) \<le> references k s"
proof -
  have "weight k (pcs s ! u) \<le> sum_list (map (weight k) ((pcs s)[t := Idle]))"
    using weight_le [of u "(pcs s)[t := Idle]" "weight k"] assms by simp
  moreover have "sum_list (map (weight k) ((pcs s)[t := Idle])) + weight k (pcs s ! t) = sum_list (map (weight k) (pcs s))"
    using sum_list_upd [OF assms(2), of "weight k" Idle] by simp
  ultimately show ?thesis by (simp add: references_def)
qed

section \<open>Steps that change one entry\<close>

text \<open>What another goroutine relies on survives a step that keeps the map, does not revive deleted
  entries and leaves counts of its locked entries and the values it relies on alone.\<close>

lemma pcOk_frame:
  assumes "pcOk s p"
    and "\<And>k a. entries s k = Some a \<Longrightarrow> entries s' k = Some a" "\<And>a. dead a s \<Longrightarrow> dead a s'"
    and "\<And>a. a \<in> locks p \<Longrightarrow> refCount (heap s' a) = refCount (heap s a)"
    and "\<And>k a. entries s k = Some a \<Longrightarrow> weight k p > 0 \<Longrightarrow> entryValue (heap s' a) = entryValue (heap s a)"
  shows "pcOk s' p"
  using assms(1)
proof (cases p)
  case (RefLoad k v)
  then show ?thesis using assms(1) assms(2,5) [of k] by auto
next
  case (RefLock k a v)
  then show ?thesis using assms(1) assms(2,5) [of k a] by auto
next
  case (RefLocked k a v)
  then show ?thesis using assms(1) assms(2,5) [of k a] by auto
qed (use assms(2-4) in auto)

lemma cacheInvD:
  assumes "cacheInv s"
  shows "mu (heap s a) = Some t \<longleftrightarrow> t < length (pcs s) \<and> a \<in> locks (pcs s ! t)"
    and "entries s k = Some a \<Longrightarrow> a < nextAddr s \<and> refCount (heap s a) = int (references k s)"
    and "entries s k = Some a \<Longrightarrow> entries s k' = Some a \<Longrightarrow> k = k'"
    and "entries s k = None \<Longrightarrow> references k s = 0"
    and "entries s k = Some a \<Longrightarrow> references k s = 0 \<Longrightarrow> DerefDelete k a \<in> set (pcs s)"
    and "entries s k = Some a \<Longrightarrow> v \<in> set (held s k) \<Longrightarrow> entryValue (heap s a) = v"
    and "t < length (pcs s) \<Longrightarrow> pcOk s (pcs s ! t)"
  using assms unfolding cacheInv_def by blast+

lemma cacheInvI:
  assumes "\<And>a t. mu (heap s a) = Some t \<longleftrightarrow> t < length (pcs s) \<and> a \<in> locks (pcs s ! t)"
    and "\<And>k a. entries s k = Some a \<Longrightarrow> a < nextAddr s \<and> refCount (heap s a) = int (references k s)"
    and "\<And>k k' a. entries s k = Some a \<Longrightarrow> entries s k' = Some a \<Longrightarrow> k = k'"
    and "\<And>k. entries s k = None \<Longrightarrow> references k s = 0"
    and "\<And>k a. entries s k = Some a \<Longrightarrow> references k s = 0 \<Longrightarrow> DerefDelete k a \<in> set (pcs s)"
    and "\<And>k a v. entries s k = Some a \<Longrightarrow> v \<in> set (held s k) \<Longrightarrow> entryValue (heap s a) = v"
    and "\<And>t. t < length (pcs s) \<Longrightarrow> pcOk s (pcs s ! t)"
  shows "cacheInv s"
  unfolding cacheInv_def using assms by blast

lemma exclusive:
  assumes "cacheInv s" "t < length (pcs s)" "u < length (pcs s)" "a \<in> locks (pcs s ! t)" "a \<in> locks (pcs s ! u)"
  shows "u = t"
  using cacheInvD(1) [OF assms(1), of a t] cacheInvD(1) [OF assms(1), of a u] assms(2-) by simp

lemma local_step:
  assumes inv: "cacheInv s" and t: "t < length (pcs s)" and p: "pcs s ! t = p"
    and s': "s' = s\<lparr>heap := (heap s)(a := e), pcs := (pcs s)[t := p'], held := h\<rparr>"
    and lk: "\<And>u. mu e = Some u \<longleftrightarrow> (if u = t then a \<in> locks p' else u < length (pcs s) \<and> a \<in> locks (pcs s ! u))"
    and lk': "\<And>b. b \<noteq> a \<Longrightarrow> b \<in> locks p' \<longleftrightarrow> b \<in> locks p"
    and cnt: "\<And>k. entries s k = Some a \<Longrightarrow>
      refCount e + int (weight k p + length (held s k)) = refCount (heap s a) + int (weight k p' + length (h k))"
    and cnt': "\<And>k. entries s k \<noteq> Some a \<Longrightarrow> weight k p' + length (h k) = weight k p + length (held s k)"
    and zero: "\<And>k. entries s k = Some a \<Longrightarrow> refCount e = 0 \<Longrightarrow> refCount (heap s a) \<noteq> 0 \<Longrightarrow> p' = DerefDelete k a"
    and nodel: "\<And>k b. p \<noteq> DerefDelete k b"
    and dd: "dead a s \<Longrightarrow> refCount e \<le> 0"
    and mine: "refCount e \<noteq> refCount (heap s a) \<Longrightarrow> a \<in> locks p"
    and vals: "\<And>k v. entries s k = Some a \<Longrightarrow> v \<in> set (h k) \<Longrightarrow> entryValue e = v"
    and vals': "\<And>k. entries s k \<noteq> Some a \<Longrightarrow> set (h k) \<subseteq> set (held s k)"
    and alone: "\<And>k. entryValue e \<noteq> entryValue (heap s a) \<Longrightarrow> entries s k = Some a \<Longrightarrow> references k s = weight k p"
    and ok: "pcOk s' p'"
  shows "cacheInv s'"
proof -
  have refs: "references k s' + weight k p + length (held s k) = references k s + weight k p' + length (h k)" for k
    using references_upd [OF t, of s' p' k] p s' by simp
  show ?thesis
  proof (rule cacheInvI)
    fix b u
    show "mu (heap s' b) = Some u \<longleftrightarrow> u < length (pcs s') \<and> b \<in> locks (pcs s' ! u)"
      using cacheInvD(1) [OF inv, of b u] lk [of u] lk' [of b] p t s' by (cases "u = t"; cases "b = a") auto
  next
    fix k b
    assume b: "entries s' k = Some b"
    then have b': "entries s k = Some b" using s' by simp
    note old = cacheInvD(2) [OF inv b']
    show "b < nextAddr s' \<and> refCount (heap s' b) = int (references k s')"
    proof (cases "b = a")
      case True
      then show ?thesis using old refs [of k] cnt [of k] b' s' by simp
    next
      case False
      then show ?thesis using old refs [of k] cnt' [of k] b' s' by simp
    qed
  next
    fix k k' b
    assume "entries s' k = Some b" "entries s' k' = Some b"
    then show "k = k'" using cacheInvD(3) [OF inv] s' by simp
  next
    fix k
    assume "entries s' k = None"
    then show "references k s' = 0" using cacheInvD(4) [OF inv, of k] refs [of k] cnt' [of k] s' by simp
  next
    fix k b
    assume b: "entries s' k = Some b" and z: "references k s' = 0"
    then have b': "entries s k = Some b" using s' by simp
    note old = cacheInvD(2) [OF inv b']
    have keep: "DerefDelete k b \<in> set (pcs s')" if r: "references k s = 0"
    proof -
      obtain u where u: "u < length (pcs s)" "pcs s ! u = DerefDelete k b"
        using cacheInvD(5) [OF inv b' r] by (auto simp: in_set_conv_nth)
      then have "u \<noteq> t" using nodel p by auto
      then have "pcs s' ! u = DerefDelete k b" "u < length (pcs s')" using u s' by simp_all
      then show ?thesis by (metis nth_mem)
    qed
    show "DerefDelete k b \<in> set (pcs s')"
    proof (cases "b = a")
      case True
      then have "refCount e = 0" using cnt [of k] old refs [of k] z b' by simp
      then show ?thesis using zero [of k] keep old b' True t s' by (cases "references k s = 0") (simp_all add: set_update_memI)
    next
      case False
      then have "references k s = 0" using refs [of k] cnt' [of k] z b' by simp
      then show ?thesis by (rule keep)
    qed
  next
    fix k b v
    assume "entries s' k = Some b" "v \<in> set (held s' k)"
    then show "entryValue (heap s' b) = v"
      using cacheInvD(6) [OF inv, of k b v] vals [of k v] vals' [of k] s' by (cases "b = a") auto
  next
    fix u
    assume u: "u < length (pcs s')"
    show "pcOk s' (pcs s' ! u)"
    proof (cases "u = t")
      case True
      then show ?thesis using ok t s' by simp
    next
      case False
      then have u': "u < length (pcs s)" "pcs s' ! u = pcs s ! u" using u s' by simp_all
      show ?thesis unfolding u'(2)
      proof (rule pcOk_frame [OF cacheInvD(7) [OF inv u'(1)]])
        fix b
        show "dead b s \<Longrightarrow> dead b s'" using dd s' by (cases "b = a") (auto simp: dead_def)
        assume "b \<in> locks (pcs s ! u)"
        then show "refCount (heap s' b) = refCount (heap s b)"
          using mine exclusive [OF inv t u'(1), of a] False p s' by (cases "b = a") auto
      next
        fix k b
        assume b: "entries s k = Some b" and w: "weight k (pcs s ! u) > 0"
        have "references k s \<noteq> weight k p" using references_other [OF u'(1) t False, of k] w p by simp
        then show "entryValue (heap s' b) = entryValue (heap s b)" using alone [of k] b s' by (cases "b = a") auto
      qed (use s' in simp)
    qed
  qed
qed

lemma pcOk_goto [simp]: "pcOk (s\<lparr>pcs := x, held := h\<rparr>) p = pcOk s p"
  by (cases p) (auto simp: dead_def)

lemma pcOk_goto' [simp]: "pcOk (s\<lparr>pcs := x\<rparr>) p = pcOk s p"
  by (cases p) (auto simp: dead_def)

lemma pcOk_held [simp]: "pcOk (s\<lparr>held := h\<rparr>) p = pcOk s p"
  by (cases p) (auto simp: dead_def)

lemma goto_step:
  assumes inv: "cacheInv s" and t: "t < length (pcs s)"
    and p': "locks p' = locks (pcs s ! t)" "\<And>k. weight k p' + length (h k) = weight k (pcs s ! t) + length (held s k)"
      "\<And>k. set (h k) \<subseteq> set (held s k)" "\<And>k b. pcs s ! t \<noteq> DerefDelete k b" "pcOk s p'"
  shows "cacheInv (goto t p' (s\<lparr>held := h\<rparr>))"
proof (rule local_step [OF inv t refl, where a = "nextAddr s" and e = "heap s (nextAddr s)" and p' = p' and h = h])
  fix u
  show "mu (heap s (nextAddr s)) = Some u \<longleftrightarrow>
      (if u = t then nextAddr s \<in> locks p' else u < length (pcs s) \<and> nextAddr s \<in> locks (pcs s ! u))"
    using cacheInvD(1) [OF inv] t p'(1) by auto
qed (use p' in \<open>auto simp: goto_def dead_def dest: cacheInvD(2) [OF inv]\<close>)

lemma lock_step:
  assumes inv: "cacheInv s" and t: "t < length (pcs s)" and l: "lockEntry t a p' s = Some s'"
    and p': "locks p' = insert a (locks (pcs s ! t))" "\<And>k. weight k p' = weight k (pcs s ! t)"
      "\<And>k b. pcs s ! t \<noteq> DerefDelete k b" "pcOk s p'"
  shows "cacheInv s'"
proof -
  have free: "mu (heap s a) = None" and s': "s' = goto t p' (setEntry a ((heap s a)\<lparr>mu := Some t\<rparr>) s)"
    using l by (auto simp: lockEntry_def split: if_splits)
  have no: "\<not> (u < length (pcs s) \<and> a \<in> locks (pcs s ! u))" for u using cacheInvD(1) [OF inv, of a u] free by simp
  have "pcOk s' p' = pcOk s p'" by (cases p') (auto simp: s' goto_def setEntry_def dead_def)
  then show ?thesis
    using p' no by (intro local_step [OF inv t refl, where a = a and e = "(heap s a)\<lparr>mu := Some t\<rparr>" and p' = p' and h = "held s"])
      (auto simp: s' goto_def setEntry_def dead_def dest: cacheInvD(6) [OF inv])
qed

text \<open>A locked entry of a key is not about to be deleted by another goroutine.\<close>

lemma unlocked_count:
  assumes "cacheInv s" "entries s k = Some a" "\<And>u. u < length (pcs s) \<Longrightarrow> pcs s ! u \<noteq> DerefDelete k a"
  shows "refCount (heap s a) > 0"
proof -
  have "references k s \<noteq> 0" using cacheInvD(5) [OF assms(1,2)] assms(3) by (metis in_set_conv_nth)
  then show ?thesis using cacheInvD(2) [OF assms(1,2)] by simp
qed

section \<open>Every step\<close>

lemma step_LoadOrStore_existing:
  assumes "cacheInv s" "t < length (pcs s)" "pcs s ! t = LoadOrStore k c" "entries s k = Some a"
  shows "cacheInv (goto t (LockExisting k a c) s)"
  using goto_step [OF assms(1,2), of "LockExisting k a c" "held s"] cacheInvD(7) [OF assms(1,2)] assms(3,4) by simp

lemma step_LoadOrStore_new:
  assumes inv: "cacheInv s" and t: "t < length (pcs s)" and p: "pcs s ! t = LoadOrStore k (InAcquire args)" and none: "entries s k = None"
  shows "cacheInv (goto t (AcquireBody k (nextAddr s) False args)
    (setEntry (nextAddr s) \<lparr>mu = Some t, entryValue = zero, refCount = 1\<rparr>
      (s\<lparr>entries := (entries s)(k := Some (nextAddr s)), nextAddr := Suc (nextAddr s)\<rparr>)))" (is "cacheInv ?s")
proof -
  let ?a = "nextAddr s" and ?p = "AcquireBody k (nextAddr s) False args"
  have fresh: "\<not> (u < length (pcs s) \<and> ?a \<in> locks (pcs s ! u))" for u
  proof
    assume u: "u < length (pcs s) \<and> ?a \<in> locks (pcs s ! u)"
    then have "pcOk s (pcs s ! u)" using cacheInvD(7) [OF inv] by blast
    then have "?a < nextAddr s" using u cacheInvD(2) [OF inv]
      by (cases "pcs s ! u") (auto simp: dead_def elim: callerOk.elims)
    then show False by simp
  qed
  have refs: "references k' ?s = references k' s + (if k' = k then 1 else 0)" for k'
    using references_upd [OF t, of ?s ?p k'] p by (auto simp: goto_def setEntry_def)
  have none': "held s k = []" using cacheInvD(4) [OF inv none] by (simp add: references_def)
  have old: "entries s k' \<noteq> Some ?a" for k' using cacheInvD(2) [OF inv, of k' ?a] by auto
  show ?thesis
  proof (rule cacheInvI)
    fix b u
    show "mu (heap ?s b) = Some u \<longleftrightarrow> u < length (pcs ?s) \<and> b \<in> locks (pcs ?s ! u)"
      using cacheInvD(1) [OF inv, of b u] fresh [of u] p t by (cases "u = t"; cases "b = ?a") (auto simp: goto_def setEntry_def)
  next
    fix k' b
    assume b: "entries ?s k' = Some b"
    show "b < nextAddr ?s \<and> refCount (heap ?s b) = int (references k' ?s)"
      using b refs [of k'] cacheInvD(2) [OF inv, of k' b] cacheInvD(4) [OF inv none] old [of k']
      by (cases "k' = k") (auto simp: goto_def setEntry_def)
  next
    fix k1 k2 b
    assume "entries ?s k1 = Some b" "entries ?s k2 = Some b"
    then show "k1 = k2" using cacheInvD(3) [OF inv, of k1 b k2] old by (auto simp: goto_def setEntry_def split: if_splits)
  next
    fix k'
    assume "entries ?s k' = None"
    then show "references k' ?s = 0" using refs [of k'] cacheInvD(4) [OF inv, of k'] by (auto simp: goto_def setEntry_def split: if_splits)
  next
    fix k' b
    assume b: "entries ?s k' = Some b" and z: "references k' ?s = 0"
    then have "k' \<noteq> k" "references k' s = 0" using refs [of k'] by auto
    then have "DerefDelete k' b \<in> set (pcs s)" using b cacheInvD(5) [OF inv, of k' b] by (simp add: goto_def setEntry_def)
    then obtain u where u: "u < length (pcs s)" "pcs s ! u = DerefDelete k' b" by (auto simp: in_set_conv_nth)
    then have "u \<noteq> t" using p by auto
    then have "u < length (pcs ?s)" "pcs ?s ! u = DerefDelete k' b" using u by (simp_all add: goto_def setEntry_def)
    then show "DerefDelete k' b \<in> set (pcs ?s)" by (metis nth_mem)
  next
    fix k' b v
    assume "entries ?s k' = Some b" "v \<in> set (held ?s k')"
    then show "entryValue (heap ?s b) = v"
      using none' old [of k'] cacheInvD(6) [OF inv, of k' b v] by (auto simp: goto_def setEntry_def split: if_splits)
  next
    fix u
    assume u: "u < length (pcs ?s)"
    show "pcOk ?s (pcs ?s ! u)"
    proof (cases "u = t")
      case True
      then show ?thesis using t by (simp add: goto_def setEntry_def)
    next
      case False
      then have u': "u < length (pcs s)" "pcs ?s ! u = pcs s ! u" using u by (simp_all add: goto_def setEntry_def)
      show ?thesis unfolding u'(2)
        by (rule pcOk_frame [OF cacheInvD(7) [OF inv u'(1)]])
          (use none old fresh u'(1) in \<open>auto simp: goto_def setEntry_def dead_def\<close>)
    qed
  qed
qed

lemma step_DerefDelete:
  assumes inv: "cacheInv s" and t: "t < length (pcs s)" and p: "pcs s ! t = DerefDelete k a"
  shows "cacheInv (goto t (DerefUnlock a) (s\<lparr>entries := (entries s)(k := None)\<rparr>))" (is "cacheInv ?s")
proof -
  have ok: "entries s k = Some a" "refCount (heap s a) = 0" using cacheInvD(7) [OF inv t] p by simp_all
  then have zero: "references k s = 0" using cacheInvD(2) [OF inv ok(1)] by simp
  have refs: "references k' ?s = references k' s" for k'
    using references_upd [OF t, of ?s "DerefUnlock a" k'] p by (simp add: goto_def)
  have only: "entries s k' \<noteq> Some a" if "k' \<noteq> k" for k' using cacheInvD(3) [OF inv ok(1), of k'] that by blast
  have dead: "dead b ?s" if "dead b s \<or> b = a" for b
    using that ok only cacheInvD(2) [OF inv ok(1)] by (auto simp: dead_def goto_def)
  show ?thesis
  proof (rule cacheInvI)
    fix b u
    show "mu (heap ?s b) = Some u \<longleftrightarrow> u < length (pcs ?s) \<and> b \<in> locks (pcs ?s ! u)"
      using cacheInvD(1) [OF inv, of b u] p t by (cases "u = t") (auto simp: goto_def)
  next
    fix k' b
    assume "entries ?s k' = Some b"
    then show "b < nextAddr ?s \<and> refCount (heap ?s b) = int (references k' ?s)"
      using refs [of k'] cacheInvD(2) [OF inv, of k' b] by (auto simp: goto_def split: if_splits)
  next
    fix k1 k2 b
    assume "entries ?s k1 = Some b" "entries ?s k2 = Some b"
    then show "k1 = k2" using cacheInvD(3) [OF inv, of k1 b k2] by (auto simp: goto_def split: if_splits)
  next
    fix k'
    assume "entries ?s k' = None"
    then show "references k' ?s = 0" using refs [of k'] zero cacheInvD(4) [OF inv, of k'] by (auto simp: goto_def split: if_splits)
  next
    fix k' b
    assume b: "entries ?s k' = Some b" and z: "references k' ?s = 0"
    then have "k' \<noteq> k" "DerefDelete k' b \<in> set (pcs s)"
      using refs [of k'] cacheInvD(5) [OF inv, of k' b] by (auto simp: goto_def split: if_splits)
    then obtain u where u: "u < length (pcs s)" "pcs s ! u = DerefDelete k' b" by (auto simp: in_set_conv_nth)
    then have "u \<noteq> t" using p \<open>k' \<noteq> k\<close> by auto
    then have "u < length (pcs ?s)" "pcs ?s ! u = DerefDelete k' b" using u by (simp_all add: goto_def)
    then show "DerefDelete k' b \<in> set (pcs ?s)" by (metis nth_mem)
  next
    fix k' b v
    assume "entries ?s k' = Some b" "v \<in> set (held ?s k')"
    then show "entryValue (heap ?s b) = v" using cacheInvD(6) [OF inv, of k' b v] by (auto simp: goto_def split: if_splits)
  next
    fix u
    assume u: "u < length (pcs ?s)"
    show "pcOk ?s (pcs ?s ! u)"
    proof (cases "u = t")
      case True
      then show ?thesis using t dead [of a] by (simp add: goto_def)
    next
      case False
      then have u': "u < length (pcs s)" "pcs ?s ! u = pcs s ! u" using u by (simp_all add: goto_def)
      have w: "weight k (pcs s ! u) = 0" using references_other [OF u'(1) t False, of k] zero by simp
      have l: "a \<notin> locks (pcs s ! u)" using exclusive [OF inv t u'(1), of a] p False by auto
      show ?thesis using cacheInvD(7) [OF inv u'(1)] w l ok only dead unfolding u'(2)
        by (cases "pcs s ! u") (auto simp: goto_def split: if_splits)
    qed
  qed
qed

text \<open>A step that ends its call: the entry \<open>a\<close>, locked by it alone, gets new contents and is unlocked.\<close>

lemma unlock_step:
  assumes inv: "cacheInv s" and t: "t < length (pcs s)" and p: "locks (pcs s ! t) = {a}" "locks p' = {}"
    and s': "s' = goto t p' (setEntry a (e\<lparr>mu := None\<rparr>) (s\<lparr>held := h\<rparr>))"
    and cnt: "\<And>k. entries s k = Some a \<Longrightarrow>
      refCount e + int (weight k (pcs s ! t) + length (held s k)) = refCount (heap s a) + int (weight k p' + length (h k))"
    and cnt': "\<And>k. entries s k \<noteq> Some a \<Longrightarrow> weight k p' + length (h k) = weight k (pcs s ! t) + length (held s k)"
    and nz: "\<And>k. entries s k = Some a \<Longrightarrow> refCount e \<noteq> 0" and nodel: "\<And>k b. pcs s ! t \<noteq> DerefDelete k b"
    and dd: "dead a s \<Longrightarrow> refCount e \<le> 0"
    and vals: "\<And>k v. entries s k = Some a \<Longrightarrow> v \<in> set (h k) \<Longrightarrow> entryValue e = v"
    and vals': "\<And>k. entries s k \<noteq> Some a \<Longrightarrow> set (h k) \<subseteq> set (held s k)"
    and alone: "\<And>k. entryValue e \<noteq> entryValue (heap s a) \<Longrightarrow> entries s k = Some a \<Longrightarrow> references k s = weight k (pcs s ! t)"
    and ok: "pcOk s' p'"
  shows "cacheInv s'"
proof (rule local_step [OF inv t refl, where a = a and e = "e\<lparr>mu := None\<rparr>" and p' = p' and h = h])
  fix u
  have "\<not> (u < length (pcs s) \<and> a \<in> locks (pcs s ! u))" if "u \<noteq> t" using exclusive [OF inv t, of u a] p(1) that by auto
  then show "mu (e\<lparr>mu := None\<rparr>) = Some u \<longleftrightarrow> (if u = t then a \<in> locks p' else u < length (pcs s) \<and> a \<in> locks (pcs s ! u))"
    using p(2) by auto
qed (use p s' cnt cnt' nz nodel dd vals vals' alone ok in \<open>auto simp: goto_def setEntry_def\<close>)

text \<open>A step that ends a call on the entry \<open>a\<close> of \<open>k\<close> and hands references to the client.\<close>

lemma finish_step:
  assumes inv: "cacheInv s" and t: "t < length (pcs s)" and p: "locks (pcs s ! t) = {a}" and k: "entries s k = Some a"
    and s': "s' = goto t Idle (setEntry a (e\<lparr>mu := None\<rparr>) (s\<lparr>held := (held s)(k := vs @ held s k)\<rparr>))"
    and w: "\<And>k'. weight k' (pcs s ! t) = (if k' = k then w else 0)" and nodel: "\<And>k b. pcs s ! t \<noteq> DerefDelete k b"
    and cnt: "refCount e + int w = refCount (heap s a) + int (length vs)" "refCount e > 0"
    and vals: "\<And>v. v \<in> set vs \<Longrightarrow> entryValue e = v"
    and alone: "entryValue e \<noteq> entryValue (heap s a) \<Longrightarrow> references k s = w"
  shows "cacheInv s'"
proof (rule unlock_step [OF inv t p _ s'])
  have key: "k' = k" if "entries s k' = Some a" for k' using cacheInvD(3) [OF inv k that] by simp
  have same: "entryValue e = entryValue (heap s a)" if "held s k \<noteq> []"
  proof (rule ccontr)
    assume "entryValue e \<noteq> entryValue (heap s a)"
    then have "references k s = w" by (rule alone)
    moreover have "w + length (held s k) \<le> references k s" using weight_le [OF t, of "weight k"] w [of k] by (simp add: references_def)
    ultimately show False using that by simp
  qed
  fix k'
  show "entries s k' = Some a \<Longrightarrow> refCount e + int (weight k' (pcs s ! t) + length (held s k')) =
      refCount (heap s a) + int (weight k' Idle + length (((held s)(k := vs @ held s k)) k'))"
    using key cnt(1) w [of k'] by auto
  show "entries s k' \<noteq> Some a \<Longrightarrow> weight k' Idle + length (((held s)(k := vs @ held s k)) k') = weight k' (pcs s ! t) + length (held s k')"
    using k w [of k'] by auto
  show "entries s k' \<noteq> Some a \<Longrightarrow> set (((held s)(k := vs @ held s k)) k') \<subseteq> set (held s k')" using k by auto
  show "dead a s \<Longrightarrow> refCount e \<le> 0" using k by (simp add: dead_def)
  show "entryValue e \<noteq> entryValue (heap s a) \<Longrightarrow> entries s k' = Some a \<Longrightarrow> references k' s = weight k' (pcs s ! t)"
    using key alone w by auto
  fix v
  assume "entries s k' = Some a" "v \<in> set (((held s)(k := vs @ held s k)) k')"
  moreover from this(1) have "k' = k" by (rule key)
  ultimately show "entryValue e = v" using vals same cacheInvD(6) [OF inv k, of v] by (cases "held s k = []") auto
qed (use nodel cnt(2) in simp_all)

text \<open>A step under the lock of \<open>a\<close> that keeps it.\<close>

lemma locked_step:
  assumes inv: "cacheInv s" and t: "t < length (pcs s)" and p: "locks (pcs s ! t) = {a}" "locks p' = {a}"
    and k: "entries s k = Some a"
    and s': "s' = goto t p' (setEntry a ((heap s a)\<lparr>refCount := n\<rparr>) s)"
    and cnt: "n + int (weight k (pcs s ! t)) = refCount (heap s a) + int (weight k p')"
    and cnt': "\<And>k'. k' \<noteq> k \<Longrightarrow> weight k' p' = weight k' (pcs s ! t)"
    and nz: "n = 0 \<Longrightarrow> p' = DerefDelete k a" and nodel: "\<And>k b. pcs s ! t \<noteq> DerefDelete k b"
    and ok: "pcOk s' p'"
  shows "cacheInv s'"
proof (rule local_step [OF inv t refl, where a = a and e = "(heap s a)\<lparr>refCount := n\<rparr>" and p' = p' and h = "held s"])
  note only = cacheInvD(3) [OF inv k]
  have key: "k' = k" if "entries s k' = Some a" for k' using only [OF that] by simp
  fix u
  show "mu ((heap s a)\<lparr>refCount := n\<rparr>) = Some u \<longleftrightarrow> (if u = t then a \<in> locks p' else u < length (pcs s) \<and> a \<in> locks (pcs s ! u))"
    using cacheInvD(1) [OF inv, of a u] p t by auto
  show "\<And>k'. entries s k' = Some a \<Longrightarrow> refCount ((heap s a)\<lparr>refCount := n\<rparr>) + int (weight k' (pcs s ! t) + length (held s k')) =
      refCount (heap s a) + int (weight k' p' + length (held s k'))" using key cnt by auto
  show "\<And>k'. entries s k' \<noteq> Some a \<Longrightarrow> weight k' p' + length (held s k') = weight k' (pcs s ! t) + length (held s k')"
    using k cnt' by (metis)
  show "\<And>k'. entries s k' = Some a \<Longrightarrow> refCount ((heap s a)\<lparr>refCount := n\<rparr>) = 0 \<Longrightarrow> refCount (heap s a) \<noteq> 0 \<Longrightarrow> p' = DerefDelete k' a"
    using key nz by auto
  show "\<And>k' v. entries s k' = Some a \<Longrightarrow> v \<in> set (held s k') \<Longrightarrow> entryValue ((heap s a)\<lparr>refCount := n\<rparr>) = v"
    using cacheInvD(6) [OF inv] by simp
qed (use k p s' nodel ok in \<open>auto simp: goto_def setEntry_def dead_def\<close>)

section \<open>The steps of the operations\<close>

lemma step_LockExisting:
  assumes inv: "cacheInv s" and t: "t < length (pcs s)" and p: "pcs s ! t = LockExisting k a c"
    and st: "step False zero parse t (pcs s ! t) s = Some s'"
  shows "cacheInv s'"
proof -
  note ok = cacheInvD(7) [OF inv t]
  obtain args where c: "c = InAcquire args" using ok p by (cases c) auto
  have "refCount (heap s a) > 0" if "entries s k = Some a" "mu (heap s a) = None"
    using unlocked_count [OF inv that(1)] cacheInvD(1) [OF inv, of a] that(2) by fastforce
  then show ?thesis
    using st p c ok lock_step [OF inv t, of a "CheckExisting k a c" s'] by (auto simp: lockEntry_def split: if_splits)
qed

lemma step_CheckExisting:
  assumes inv: "cacheInv s" and t: "t < length (pcs s)" and p: "pcs s ! t = CheckExisting k a c"
    and st: "step False zero parse t (pcs s ! t) s = Some s'"
  shows "cacheInv s'"
proof -
  note ok = cacheInvD(7) [OF inv t]
  obtain args where c: "c = InAcquire args" using ok p by (cases c) auto
  show ?thesis
  proof (cases "refCount (heap s a) \<le> 0")
    case True
    then have d: "dead a s" using ok p by auto
    show ?thesis
      by (rule unlock_step [OF inv t, where a = a and p' = "LoadOrStore k c" and e = "heap s a" and h = "held s"])
        (use st True p c d in \<open>auto simp: Let_def dead_def\<close>)
  next
    case False
    then have e: "entries s k = Some a" using ok p by (auto simp: dead_def)
    show ?thesis
      by (rule locked_step [OF inv t _ _ e, where p' = "AcquireBody k a True args" and n = "refCount (heap s a) + 1"])
        (use st False p c e in \<open>auto simp: Let_def returnEntry_def goto_def setEntry_def\<close>)
  qed
qed

lemma step_AcquireBody:
  assumes inv: "cacheInv s" and t: "t < length (pcs s)" and p: "pcs s ! t = AcquireBody k a loaded args"
    and st: "step False zero parse t (pcs s ! t) s = Some s'"
  shows "cacheInv s'"
proof -
  define v where "v = (if \<not> loaded then parse k args else entryValue (heap s a))"
  have e: "entries s k = Some a" "\<not> loaded \<longrightarrow> refCount (heap s a) = 1" using cacheInvD(7) [OF inv t] p by auto
  have "references k s \<ge> Suc (length (held s k))" using weight_le [OF t, of "weight k"] p by (simp add: references_def)
  then have pos: "refCount (heap s a) > 0" using cacheInvD(2) [OF inv e(1)] by simp
  show ?thesis
    by (rule finish_step [OF inv t _ e(1), where e = "(heap s a)\<lparr>entryValue := v\<rparr>" and vs = "[v]" and w = 1])
      (use st p e pos cacheInvD(2) [OF inv e(1)] in
        \<open>auto simp: Let_def v_def give_def goto_def setEntry_def split: if_splits\<close>)
qed

text \<open>The count of an entry that a goroutine has locked is positive, unless it is deleting it.\<close>

lemma locked_count:
  assumes inv: "cacheInv s" and t: "t < length (pcs s)" and "a \<in> locks (pcs s ! t)" "\<And>k. pcs s ! t \<noteq> DerefDelete k a" "entries s k = Some a"
  shows "refCount (heap s a) > 0"
proof (rule unlocked_count [OF inv assms(5)])
  fix u
  assume "u < length (pcs s)"
  then show "pcs s ! u \<noteq> DerefDelete k a" using exclusive [OF inv t, of u a] assms(3,4) by auto
qed

lemma step_RefLocked:
  assumes inv: "cacheInv s" and t: "t < length (pcs s)" and p: "pcs s ! t = RefLocked k a v"
    and st: "step False zero parse t (pcs s ! t) s = Some s'"
  shows "cacheInv s'"
proof -
  have e: "entries s k = Some a" "entryValue (heap s a) = v" using cacheInvD(7) [OF inv t] p by auto
  have pos: "refCount (heap s a) > 0" using p by (intro locked_count [OF inv t _ _ e(1)]) auto
  show ?thesis
    by (rule finish_step [OF inv t _ e(1), where e = "(heap s a)\<lparr>refCount := refCount (heap s a) + 1\<rparr>" and vs = "[v, v]" and w = 1])
      (use st p e pos in \<open>auto simp: Let_def give_def goto_def setEntry_def split: if_splits\<close>)
qed

lemma step_DerefLocked:
  assumes inv: "cacheInv s" and t: "t < length (pcs s)" and p: "pcs s ! t = DerefLocked k a"
    and st: "step False zero parse t (pcs s ! t) s = Some s'"
  shows "cacheInv s'"
proof -
  have e: "entries s k = Some a" using cacheInvD(7) [OF inv t] p by simp
  have pos: "refCount (heap s a) > 0" using p by (intro locked_count [OF inv t _ _ e]) auto
  show ?thesis
  proof (cases "refCount (heap s a) - 1 \<le> 0")
    case True
    show ?thesis
      by (rule locked_step [OF inv t _ _ e, where p' = "DerefDelete k a" and n = "refCount (heap s a) - 1"])
        (use st True pos p e in \<open>auto simp: Let_def goto_def setEntry_def\<close>)
  next
    case False
    show ?thesis
      by (rule finish_step [OF inv t _ e, where e = "(heap s a)\<lparr>refCount := refCount (heap s a) - 1\<rparr>" and vs = "[]" and w = 1])
        (use st p False in \<open>auto simp: Let_def goto_def setEntry_def split: if_splits\<close>)
  qed
qed

lemma step_inv:
  assumes inv: "cacheInv s" and t: "t < length (pcs s)" and st: "step False zero parse t (pcs s ! t) s = Some s'"
  shows "cacheInv s'"
proof -
  note ok = cacheInvD(7) [OF inv t]
  show ?thesis
  proof (cases "pcs s ! t")
    case (LoadOrStore k c)
    then obtain args where c: "c = InAcquire args" using ok by (cases c) auto
    show ?thesis using st LoadOrStore c step_LoadOrStore_existing [OF inv t LoadOrStore] step_LoadOrStore_new [OF inv t LoadOrStore [unfolded c]]
      by (auto simp: returnEntry_def Let_def split: option.splits)
  next
    case (RefLoad k v)
    then obtain a where "entries s k = Some a" "entryValue (heap s a) = v" using ok by auto
    then show ?thesis using st RefLoad goto_step [OF inv t, of "RefLock k a v" "held s"] by simp
  next
    case (RefLock k a v)
    then show ?thesis using st ok lock_step [OF inv t, of a "RefLocked k a v" s'] by simp
  next
    case (DerefLoad k)
    then obtain a where "entries s k = Some a" using ok by auto
    then show ?thesis using st DerefLoad goto_step [OF inv t, of "DerefLock k a" "held s"] by simp
  next
    case (DerefLock k a)
    then show ?thesis using st ok lock_step [OF inv t, of a "DerefLocked k a" s'] by simp
  next
    case (DerefDelete k a)
    show ?thesis using st DerefDelete step_DerefDelete [OF inv t DerefDelete] by simp
  next
    case (DerefUnlock a)
    show ?thesis
      by (rule unlock_step [OF inv t, where a = a and p' = Idle and e = "heap s a" and h = "held s"])
        (use st DerefUnlock ok in \<open>auto simp: dead_def\<close>)
  qed (use st ok step_LockExisting [OF inv t _ st] step_CheckExisting [OF inv t _ st] step_AcquireBody [OF inv t _ st]
        step_RefLocked [OF inv t _ st] step_DerefLocked [OF inv t _ st] in auto)
qed

lemma held_entry:
  assumes "cacheInv s" "v \<in> set (held s k)"
  shows "\<exists>a. entries s k = Some a \<and> entryValue (heap s a) = v"
proof -
  have "references k s \<noteq> 0" using assms(2) by (auto simp: references_def)
  then obtain a where "entries s k = Some a" using cacheInvD(4) [OF assms(1), of k] by (cases "entries s k") auto
  then show ?thesis using cacheInvD(6) [OF assms(1)] assms(2) by blast
qed

lemma clientStep_inv: "clientStep False zero parse s s' \<Longrightarrow> cacheInv s \<Longrightarrow> cacheInv s'"
proof (induction rule: clientStep.induct)
  case (Acquire t s k args)
  then show ?case using goto_step [of s t "LoadOrStore k (InAcquire args)" "held s"] by simp
next
  case (Ref t s k v vs)
  have h: "set (((held s)(k := vs)) k') \<subseteq> set (held s k')" for k' using Ref(3) by auto
  have "pcOk s (RefLoad k v)" using held_entry [of s v k] Ref by simp
  moreover have "weight k' (RefLoad k v) + length (((held s)(k := vs)) k') = weight k' (pcs s ! t) + length (held s k')" for k'
    using Ref(2,3) by (cases "k' = k") simp_all
  ultimately show ?case using Ref(1,2) h by (intro goto_step [OF Ref(4)]) simp_all
next
  case (Deref t s k v vs)
  have h: "set (((held s)(k := vs)) k') \<subseteq> set (held s k')" for k' using Deref(3) by auto
  have "pcOk s (DerefLoad k)" using held_entry [of s v k] Deref by auto
  moreover have "weight k' (DerefLoad k) + length (((held s)(k := vs)) k') = weight k' (pcs s ! t) + length (held s k')" for k'
    using Deref(2,3) by (cases "k' = k") simp_all
  ultimately show ?case using Deref(1,2) h by (intro goto_step [OF Deref(4)]) simp_all
next
  case (Run t s s')
  show ?case by (rule step_inv [OF Run(3,1,2)])
qed

lemma reachable_inv: "reachable False zero parse n s \<Longrightarrow> cacheInv s"
  by (induction rule: reachable.induct) (simp_all add: cacheInv_init clientStep_inv)

lemma reachable_length: "reachable d zero parse n s \<Longrightarrow> length (pcs s) = n"
proof (induction rule: reachable.induct)
  case (Step s s')
  have "length (pcs s') = length (pcs s)" if "step d zero parse t p s = Some s'" for t p
    using that by (induction d zero parse t p s rule: step.induct)
      (auto simp: goto_def setEntry_def give_def lockEntry_def Let_def split: option.splits if_splits)
  then show ?case using Step by (auto simp: goto_def elim!: clientStep.cases)
qed (simp add: NewRefCountCache_def)

section \<open>What clients get\<close>

text \<open>C6. A held file stays cached: whatever the interleaving of goroutines that acquire, reference and
  dereference, as long as some client holds a reference to a key, the key is in the cache, every
  reference to it sees the one value of its entry, the count of the entry is at least the number of
  references held, and no call has panicked.\<close>

theorem held_entries_stay:
  assumes "reachable False zero parse n s" "v \<in> set (held s k)"
  shows "Has k s \<and> Panicked \<notin> set (pcs s) \<and> set (held s k) = {v}
    \<and> (\<exists>a. entries s k = Some a \<and> entryValue (heap s a) = v \<and> int (length (held s k)) \<le> refCount (heap s a))"
proof -
  note inv = reachable_inv [OF assms(1)]
  obtain a where a: "entries s k = Some a" "entryValue (heap s a) = v" using held_entry [OF inv assms(2)] by blast
  have "set (held s k) = {v}" using cacheInvD(6) [OF inv a(1)] a(2) assms(2) by blast
  moreover have "int (length (held s k)) \<le> refCount (heap s a)" using cacheInvD(2) [OF inv a(1)] by (simp add: references_def)
  moreover have "Panicked \<notin> set (pcs s)"
  proof
    assume "Panicked \<in> set (pcs s)"
    then obtain t where "t < length (pcs s)" "pcs s ! t = Panicked" by (auto simp: in_set_conv_nth)
    then show False using cacheInvD(7) [OF inv, of t] by simp
  qed
  ultimately show ?thesis using a by (auto simp: Has_def)
qed

text \<open>C21. Nothing leaks: when no call is running, the cache has an entry for exactly the keys to which a
  client holds a reference, and its count is the number of these references.\<close>

theorem quiescent_cache:
  assumes "reachable False zero parse n s" "list_all (\<lambda>p. p = Idle) (pcs s)"
  shows "(Has k s \<longleftrightarrow> held s k \<noteq> [])
    \<and> (case entries s k of Some a \<Rightarrow> refCount (heap s a) = int (length (held s k)) | None \<Rightarrow> True)"
proof -
  note inv = reachable_inv [OF assms(1)]
  have "map (weight k) (pcs s) = replicate (length (pcs s)) 0"
    using assms(2) by (intro replicate_eqI) (auto simp: list_all_iff)
  then have refs: "references k s = length (held s k)" by (simp add: references_def)
  have "held s k \<noteq> []" if "entries s k = Some a" for a
    using cacheInvD(5) [OF inv that] refs assms(2) by (auto simp: list_all_iff)
  then show ?thesis
    using refs cacheInvD(2) [OF inv, of k] cacheInvD(4) [OF inv, of k] by (auto simp: Has_def split: option.splits)
qed

text \<open>C22. No deadlock: while some goroutine is inside a call, some goroutine inside a call can take a step.
  A goroutine only waits for the mutex of an entry, and the goroutine that has it never waits.\<close>

theorem calls_progress:
  assumes "reachable False zero parse n s" "t < n" "pcs s ! t \<noteq> Idle"
  shows "\<exists>u < n. pcs s ! u \<noteq> Idle \<and> (\<exists>s'. step False zero parse u (pcs s ! u) s = Some s')"
proof -
  note inv = reachable_inv [OF assms(1)] and n = reachable_length [OF assms(1)]
  have holder: "pcs s ! u \<noteq> Idle \<and> (\<exists>s'. step False zero parse u (pcs s ! u) s = Some s')"
    if "u < n" "a \<in> locks (pcs s ! u)" for u a
    using that cacheInvD(7) [OF inv, of u] n by (cases "pcs s ! u") (auto simp: Let_def elim: callerOk.elims)
  have wait: ?thesis if blocked: "lockEntry t a p s = None" for a p
  proof -
    obtain u where "mu (heap s a) = Some u" using blocked unfolding lockEntry_def by (cases "mu (heap s a)") auto
    then have "u < n" "a \<in> locks (pcs s ! u)" using cacheInvD(1) [OF inv, of a u] n by simp_all
    then show ?thesis using holder by blast
  qed
  show ?thesis
  proof (cases "\<exists>s'. step False zero parse t (pcs s ! t) s = Some s'")
    case False
    then show ?thesis using assms cacheInvD(7) [OF inv, of t] n wait
      by (cases "pcs s ! t") (auto simp: Let_def split: option.splits if_splits)
  qed (use assms in blast)
qed

section \<open>A run\<close>

text \<open>One goroutine acquires a key and keeps the reference; afterwards another starts to acquire it.\<close>

definition exampleParse :: "nat \<Rightarrow> nat \<Rightarrow> nat" where
  "exampleParse k args = k + args"

lemma reachable_run:
  assumes "reachable d zero parse n s" "t < n" "step d zero parse t (pcs s ! t) s = Some s'"
  shows "reachable d zero parse n s'"
  using assms reachable_length [OF assms(1)] by (metis reachable.Step clientStep.Run)

fun runAll :: "bool \<Rightarrow> 'v \<Rightarrow> ('k \<Rightarrow> 'args \<Rightarrow> 'v) \<Rightarrow> nat list \<Rightarrow> ('k, 'v, 'args) cacheState \<Rightarrow> ('k, 'v, 'args) cacheState option" where
  "runAll d zero parse [] s = Some s"
| "runAll d zero parse (t # ts) s =
     (case step d zero parse t (pcs s ! t) s of None \<Rightarrow> None | Some s' \<Rightarrow> runAll d zero parse ts s')"

lemma reachable_runAll:
  "runAll d zero parse ts s = Some s' \<Longrightarrow> reachable d zero parse n s \<Longrightarrow> \<forall>t\<in>set ts. t < n \<Longrightarrow> reachable d zero parse n s'"
  by (induction ts arbitrary: s) (auto split: option.splits intro: reachable_run)

lemma reachable_Acquire:
  "reachable d zero parse n s \<Longrightarrow> t < n \<Longrightarrow> pcs s ! t = Idle \<Longrightarrow> reachable d zero parse n (goto t (LoadOrStore k (InAcquire args)) s)"
  using reachable_length by (metis reachable.Step clientStep.Acquire)

definition exampleHeld :: "(nat, nat, nat) cacheState" where
  "exampleHeld = the (runAll False 0 exampleParse [0, 0] (goto 0 (LoadOrStore 7 (InAcquire 1)) (NewRefCountCache 0 2)))"

lemma exampleHeld_facts:
  "runAll False 0 exampleParse [0, 0] (goto 0 (LoadOrStore 7 (InAcquire 1)) (NewRefCountCache 0 2)) = Some exampleHeld"
  "held exampleHeld 7 = [8]" "pcs exampleHeld = [Idle, Idle]"
  by (simp_all add: exampleHeld_def goto_def NewRefCountCache_def returnEntry_def setEntry_def give_def exampleParse_def Let_def numeral_2_eq_2)

lemma exampleHeld_reachable: "reachable False 0 exampleParse 2 exampleHeld"
proof (rule reachable_runAll [OF exampleHeld_facts(1)])
  show "reachable False 0 exampleParse 2 (goto 0 (LoadOrStore 7 (InAcquire 1)) (NewRefCountCache 0 2))"
    by (rule reachable_Acquire [OF reachable.Init]) (simp_all add: NewRefCountCache_def)
qed simp

theorem held_entries_stay_witness: "Has 7 exampleHeld \<and> set (held exampleHeld 7) = {8}"
  using held_entries_stay [OF exampleHeld_reachable, of 8 7] exampleHeld_facts by simp

theorem quiescent_cache_witness: "Has 7 exampleHeld \<and> \<not> Has 8 exampleHeld \<longleftrightarrow> held exampleHeld 7 \<noteq> [] \<and> held exampleHeld 8 = []"
  using quiescent_cache [OF exampleHeld_reachable, of 7] quiescent_cache [OF exampleHeld_reachable, of 8] exampleHeld_facts(3) by auto

theorem calls_progress_witness:
  "\<exists>u < 2. pcs (goto 1 (LoadOrStore 7 (InAcquire 5)) exampleHeld) ! u \<noteq> Idle"
proof -
  let ?s = "goto 1 (LoadOrStore 7 (InAcquire 5)) exampleHeld"
  have "reachable False 0 exampleParse 2 ?s"
    by (rule reachable_Acquire) (simp_all add: exampleHeld_reachable exampleHeld_facts)
  from calls_progress [OF this, of 1] show ?thesis by (auto simp: goto_def exampleHeld_facts)
qed

section \<open>A race of Ref\<close>

text \<open>Three goroutines and one key, without the contract that \<open>Ref\<close> holds a reference during the call:
  the first acquires the key (value 8), the second starts \<open>Ref\<close> and loads the entry, the first
  dereferences the key, so the entry is deleted, the third acquires the key anew (value 12), and
  the second finishes.\<close>

definition racingRef :: "(nat, nat, nat) cacheState option" where
  "racingRef =
     Option.bind (runAll False 0 exampleParse [0, 0] (goto 0 (LoadOrStore 7 (InAcquire 1)) (NewRefCountCache 0 3))) (\<lambda>s1.
     Option.bind (runAll False 0 exampleParse [1] (goto 1 (RefLoad 7 8) s1)) (\<lambda>s2.
     Option.bind (runAll False 0 exampleParse [0, 0, 0, 0, 0] (goto 0 (DerefLoad 7) (s2\<lparr>held := (held s2)(7 := [])\<rparr>))) (\<lambda>s3.
     Option.bind (runAll False 0 exampleParse [2, 2] (goto 2 (LoadOrStore 7 (InAcquire 5)) s3)) (\<lambda>s4.
     runAll False 0 exampleParse [1, 1, 1, 1, 1, 1] s4))))"

text \<open>When the last reference goes while \<open>Ref\<close> waits for the lock, \<open>Ref\<close> copies the old value into
  the entry that it finds, also when another client has already acquired and parsed that entry: a
  client holds the value 12 of the key, and the cache hands out 8.\<close>

theorem Ref_overwrites_live_value:
  "case racingRef of None \<Rightarrow> False | Some s \<Rightarrow>
     pcs s = [Idle, Idle, Idle] \<and> 12 \<in> set (held s 7) \<and> map_option (\<lambda>a. entryValue (heap s a)) (entries s 7) = Some 8"
  by code_simp

end
