(* ===== verification/Dirty.thy ===== *)
theory Dirty
  imports Go_Prelude "HOL-Library.AList"
begin

text \<open>
  \<open>internal/project/dirty\<close>: the copy-on-write containers from which a snapshot of the language server
  builds the next one (\<open>entry.go\<close>, \<open>map.go\<close>, \<open>box.go\<close>, \<open>mapbuilder.go\<close>, \<open>util.go\<close>). Values are pointers
  to objects that callbacks change in place, so the model has a store of objects, with their indices
  as addresses; map entries are objects too, since a client may keep one across changes of the map.
  A Go map whose length is read is an association list.
\<close>

section \<open>Store and entries\<close>

record 'k mapEntry =
  e_key :: 'k
  e_original :: "nat option" \<comment> \<open>nil for an added entry\<close>
  e_value :: nat
  e_dirty :: bool
  e_delete :: bool

text \<open>The world of one \<open>Map\<close>: the objects behind values, the \<open>MapEntry\<close> objects, and the fields of the map.
  The base map is shared with the previous snapshot.\<close>

record ('k, 'v) DMap =
  objects :: "'v list"
  mapEntries :: "'k mapEntry list"
  dm_base :: "'k \<Rightarrow> nat option"
  dm_dirty :: "('k \<times> nat) list"

definition NewMap :: "'v list \<Rightarrow> ('k \<Rightarrow> nat option) \<Rightarrow> ('k, 'v) DMap" where
  \<comment> \<open>\<open>objs\<close>: the objects that exist\<close>
  "NewMap objs base = \<lparr>objects = objs, mapEntries = [], dm_base = base, dm_dirty = []\<rparr>"

definition Entry_Key :: "nat \<Rightarrow> ('k, 'v) DMap \<Rightarrow> 'k" where
  "Entry_Key e m = e_key (mapEntries m ! e)"

definition Entry_Original :: "nat \<Rightarrow> ('k, 'v) DMap \<Rightarrow> nat option" where
  "Entry_Original e m = e_original (mapEntries m ! e)"

definition Entry_Value :: "nat \<Rightarrow> ('k, 'v) DMap \<Rightarrow> nat option" where
  \<comment> \<open>\<open>None\<close> is the zero value, nil\<close>
  "Entry_Value e m = (if e_delete (mapEntries m ! e) then None else Some (e_value (mapEntries m ! e)))"

definition Entry_Dirty :: "nat \<Rightarrow> ('k, 'v) DMap \<Rightarrow> bool" where
  "Entry_Dirty e m = e_dirty (mapEntries m ! e)"

section \<open>Changing entries\<close>

definition updateEntry :: "nat \<Rightarrow> ('k mapEntry \<Rightarrow> 'k mapEntry) \<Rightarrow> ('k, 'v) DMap \<Rightarrow> ('k, 'v) DMap" where
  "updateEntry e f m = m\<lparr>mapEntries := (mapEntries m)[e := f (mapEntries m ! e)]\<rparr>"

definition markDirty :: "nat \<Rightarrow> ('k, 'v) DMap \<Rightarrow> ('k, 'v) DMap" where
  \<comment> \<open>\<open>e.m.dirty[e.key] = e\<close>\<close>
  "markDirty e m = m\<lparr>dm_dirty := AList.update (e_key (mapEntries m ! e)) e (dm_dirty m)\<rparr>"

definition cloneValue :: "('v \<Rightarrow> 'v) \<Rightarrow> nat \<Rightarrow> ('k, 'v) DMap \<Rightarrow> ('k, 'v) DMap" where
  \<comment> \<open>\<open>e.value = e.value.Clone()\<close>, a new object\<close>
  "cloneValue clone e m =
     updateEntry e (\<lambda>en. en\<lparr>e_value := length (objects m)\<rparr>)
       (m\<lparr>objects := objects m @ [clone (objects m ! e_value (mapEntries m ! e))]\<rparr>)"

definition applyTo :: "('v \<Rightarrow> 'v) \<Rightarrow> nat \<Rightarrow> ('k, 'v) DMap \<Rightarrow> ('k, 'v) DMap" where
  \<comment> \<open>\<open>apply(e.value)\<close>, which changes the object in place\<close>
  "applyTo f e m = m\<lparr>objects := (objects m)[e_value (mapEntries m ! e) := f (objects m ! e_value (mapEntries m ! e))]\<rparr>"

definition Entry_Change :: "('v \<Rightarrow> 'v) \<Rightarrow> ('v \<Rightarrow> 'v) \<Rightarrow> nat \<Rightarrow> ('k, 'v) DMap \<Rightarrow> ('k, 'v) DMap or_panic" where
  "Entry_Change clone f e m =
     (if e_delete (mapEntries m ! e) then Inl ''tried to change a deleted entry''
      else
        let m1 = (if \<not> e_dirty (mapEntries m ! e)
                  then markDirty e (updateEntry e (\<lambda>en. en\<lparr>e_dirty := True\<rparr>) (cloneValue clone e m)) else m)
        in Inr (applyTo f e m1))"

definition Entry_Replace :: "nat \<Rightarrow> nat \<Rightarrow> ('k, 'v) DMap \<Rightarrow> ('k, 'v) DMap or_panic" where
  "Entry_Replace newValue e m =
     (if e_delete (mapEntries m ! e) then Inl ''tried to change a deleted entry''
      else
        let m1 = (if \<not> e_dirty (mapEntries m ! e) then markDirty e (updateEntry e (\<lambda>en. en\<lparr>e_dirty := True\<rparr>) m) else m)
        in Inr (updateEntry e (\<lambda>en. en\<lparr>e_value := newValue\<rparr>) m1))"

definition Entry_ChangeIf :: "('v \<Rightarrow> 'v) \<Rightarrow> ('v option \<Rightarrow> bool) \<Rightarrow> ('v \<Rightarrow> 'v) \<Rightarrow> nat \<Rightarrow> ('k, 'v) DMap \<Rightarrow> (bool \<times> ('k, 'v) DMap) or_panic" where
  "Entry_ChangeIf clone cond f e m =
     (if cond (map_option ((!) (objects m)) (Entry_Value e m))
      then bind_panic (Entry_Change clone f e m) (\<lambda>m'. Inr (True, m'))
      else Inr (False, m))"

definition Entry_Delete :: "nat \<Rightarrow> ('k, 'v) DMap \<Rightarrow> ('k, 'v) DMap" where
  "Entry_Delete e m =
     updateEntry e (\<lambda>en. en\<lparr>e_delete := True\<rparr>) (if \<not> e_dirty (mapEntries m ! e) then markDirty e m else m)"

definition Entry_Locked :: "(nat \<Rightarrow> ('k, 'v) DMap \<Rightarrow> 'a) \<Rightarrow> nat \<Rightarrow> ('k, 'v) DMap \<Rightarrow> 'a" where
  "Entry_Locked fn e m = fn e m"

section \<open>The map\<close>

definition addEntry :: "'k mapEntry \<Rightarrow> ('k, 'v) DMap \<Rightarrow> nat \<times> ('k, 'v) DMap" where
  \<comment> \<open>\<open>&MapEntry{...}\<close>\<close>
  "addEntry en m = (length (mapEntries m), m\<lparr>mapEntries := mapEntries m @ [en]\<rparr>)"

definition Map_Get :: "'k \<Rightarrow> ('k, 'v) DMap \<Rightarrow> nat option \<times> ('k, 'v) DMap" where
  "Map_Get key m =
     (case map_of (dm_dirty m) key of
        Some e \<Rightarrow> if e_delete (mapEntries m ! e) then (None, m) else (Some e, m)
      | None \<Rightarrow>
          (case dm_base m key of
             None \<Rightarrow> (None, m)
           | Some v \<Rightarrow>
               let (e, m') = addEntry \<lparr>e_key = key, e_original = Some v, e_value = v, e_dirty = False, e_delete = False\<rparr> m
               in (Some e, m')))"

definition Map_Add :: "'k \<Rightarrow> nat \<Rightarrow> ('k, 'v) DMap \<Rightarrow> ('k, 'v) DMap" where
  "Map_Add key v m =
     (let (e, m') = addEntry \<lparr>e_key = key, e_original = None, e_value = v, e_dirty = True, e_delete = False\<rparr> m
      in m'\<lparr>dm_dirty := AList.update key e (dm_dirty m')\<rparr>)"

definition Map_Change :: "('v \<Rightarrow> 'v) \<Rightarrow> 'k \<Rightarrow> ('v \<Rightarrow> 'v) \<Rightarrow> ('k, 'v) DMap \<Rightarrow> ('k, 'v) DMap or_panic" where
  "Map_Change clone key f m =
     (case Map_Get key m of
        (Some e, m') \<Rightarrow> Entry_Change clone f e m'
      | (None, m') \<Rightarrow> Inl ''tried to change a non-existent entry'')"

definition Map_TryDelete :: "'k \<Rightarrow> ('k, 'v) DMap \<Rightarrow> bool \<times> ('k, 'v) DMap" where
  "Map_TryDelete key m =
     (case Map_Get key m of
        (Some e, m') \<Rightarrow> (True, Entry_Delete e m')
      | (None, m') \<Rightarrow> (False, m'))"

definition Map_Delete :: "'k \<Rightarrow> ('k, 'v) DMap \<Rightarrow> ('k, 'v) DMap or_panic" where
  "Map_Delete key m =
     (let (ok, m') = Map_TryDelete key m in if \<not> ok then Inl ''tried to delete a non-existent entry'' else Inr m')"

text \<open>\<open>Range\<close> iterates over Go maps, in an order that the runtime chooses: \<open>ds\<close> lists the dirty map and \<open>bs\<close> the
  base map in that order. The callback gets an entry and works on the map and on state of its own. A \<open>break\<close>
  leaves its own loop only.\<close>

fun rangeDirty :: "(nat \<Rightarrow> ('k, 'v) DMap \<times> 's \<Rightarrow> bool \<times> ('k, 'v) DMap \<times> 's) \<Rightarrow> ('k \<times> nat) list \<Rightarrow> 'k set
    \<Rightarrow> ('k, 'v) DMap \<times> 's \<Rightarrow> 'k set \<times> ('k, 'v) DMap \<times> 's" where
  "rangeDirty fn [] seen st = (seen, st)"
| "rangeDirty fn ((_, e) # ds) seen st =
     (let seen' = insert (e_key (mapEntries (fst st) ! e)) seen
      in if e_delete (mapEntries (fst st) ! e) then rangeDirty fn ds seen' st
         else case fn e st of (continue, st') \<Rightarrow> if continue then rangeDirty fn ds seen' st' else (seen', st'))"

fun rangeBase :: "(nat \<Rightarrow> ('k, 'v) DMap \<times> 's \<Rightarrow> bool \<times> ('k, 'v) DMap \<times> 's) \<Rightarrow> ('k \<times> nat) list \<Rightarrow> 'k set
    \<Rightarrow> ('k, 'v) DMap \<times> 's \<Rightarrow> ('k, 'v) DMap \<times> 's" where
  "rangeBase fn [] seen st = st"
| "rangeBase fn ((key, v) # bs) seen (m, s) =
     (if key \<in> seen then rangeBase fn bs seen (m, s)
      else
        let (e, m') = addEntry \<lparr>e_key = key, e_original = Some v, e_value = v, e_dirty = False, e_delete = False\<rparr> m
        in case fn e (m', s) of (continue, st') \<Rightarrow> if continue then rangeBase fn bs seen st' else st')"

definition Map_Range :: "(nat \<Rightarrow> ('k, 'v) DMap \<times> 's \<Rightarrow> bool \<times> ('k, 'v) DMap \<times> 's) \<Rightarrow> ('k \<times> nat) list \<Rightarrow> ('k \<times> nat) list
    \<Rightarrow> ('k, 'v) DMap \<times> 's \<Rightarrow> ('k, 'v) DMap \<times> 's" where
  "Map_Range fn ds bs st = (let (seen, st') = rangeDirty fn ds {} st in rangeBase fn bs seen st')"

definition Map_Clear :: "('k, 'v) DMap \<Rightarrow> ('k, 'v) DMap" where
  "Map_Clear m = m\<lparr>dm_dirty := [], dm_base := (\<lambda>_. None)\<rparr>"

fun finalizeLoop :: "('k, 'v) DMap \<Rightarrow> ('k \<times> nat) list \<Rightarrow> ('k \<Rightarrow> nat option) \<Rightarrow> ('k \<Rightarrow> nat option)" where
  "finalizeLoop m [] result = result"
| "finalizeLoop m ((key, e) # rest) result =
     finalizeLoop m rest
       (if e_delete (mapEntries m ! e) then result(key := None) else result(key := Some (e_value (mapEntries m ! e))))"

definition Map_Finalize :: "('k, 'v) DMap \<Rightarrow> ('k \<Rightarrow> nat option) \<times> bool" where
  "Map_Finalize m = (if dm_dirty m = [] then (dm_base m, False) else (finalizeLoop m (dm_dirty m) (dm_base m), True))"

section \<open>Box\<close>

record 'v Box =
  b_objects :: "'v list"
  b_original :: nat
  b_value :: nat
  b_dirty :: bool
  b_delete :: bool

definition NewBox :: "'v list \<Rightarrow> nat \<Rightarrow> 'v Box" where
  "NewBox objs original = \<lparr>b_objects = objs, b_original = original, b_value = original, b_dirty = False, b_delete = False\<rparr>"

definition Box_Value :: "'v Box \<Rightarrow> nat option" where
  "Box_Value b = (if b_delete b then None else Some (b_value b))"

definition Box_Original :: "'v Box \<Rightarrow> nat" where "Box_Original b = b_original b"

definition Box_Dirty :: "'v Box \<Rightarrow> bool" where "Box_Dirty b = b_dirty b"

definition Box_Set :: "nat \<Rightarrow> 'v Box \<Rightarrow> 'v Box" where
  "Box_Set v b = b\<lparr>b_value := v, b_delete := False, b_dirty := True\<rparr>"

definition Box_Change :: "('v \<Rightarrow> 'v) \<Rightarrow> ('v \<Rightarrow> 'v) \<Rightarrow> 'v Box \<Rightarrow> 'v Box" where
  "Box_Change clone f b =
     (let b1 = (if \<not> b_dirty b
                then b\<lparr>b_objects := b_objects b @ [clone (b_objects b ! b_value b)], b_value := length (b_objects b), b_dirty := True\<rparr>
                else b)
      in b1\<lparr>b_objects := (b_objects b1)[b_value b1 := f (b_objects b1 ! b_value b1)]\<rparr>)"

definition Box_ChangeIf :: "('v \<Rightarrow> 'v) \<Rightarrow> ('v \<Rightarrow> bool) \<Rightarrow> ('v \<Rightarrow> 'v) \<Rightarrow> 'v Box \<Rightarrow> bool \<times> 'v Box" where
  "Box_ChangeIf clone cond f b =
     (if cond (b_objects b ! b_value b) then (True, Box_Change clone f b) else (False, b))"

definition Box_Delete :: "'v Box \<Rightarrow> 'v Box" where "Box_Delete b = b\<lparr>b_delete := True\<rparr>"

definition Box_Locked :: "('v Box \<Rightarrow> 'a) \<Rightarrow> 'v Box \<Rightarrow> 'a" where "Box_Locked fn b = fn b"

definition Box_Finalize :: "'v Box \<Rightarrow> nat option \<times> bool" where
  "Box_Finalize b = (Box_Value b, b_dirty b \<or> b_delete b)"

section \<open>MapBuilder\<close>

record ('k, 'a, 'b) MapBuilder =
  mb_base :: "('k \<times> 'a) list"
  mb_dirty :: "('k \<times> 'b) list"
  mb_deleted :: "'k list"

definition NewMapBuilder :: "('k \<times> 'a) list \<Rightarrow> ('k, 'a, 'b) MapBuilder" where
  "NewMapBuilder base = \<lparr>mb_base = base, mb_dirty = [], mb_deleted = []\<rparr>"

definition MapBuilder_Set :: "'k \<Rightarrow> 'b \<Rightarrow> ('k, 'a, 'b) MapBuilder \<Rightarrow> ('k, 'a, 'b) MapBuilder" where
  "MapBuilder_Set key v mb = mb\<lparr>mb_dirty := AList.update key v (mb_dirty mb), mb_deleted := removeAll key (mb_deleted mb)\<rparr>"

definition MapBuilder_Delete :: "'k \<Rightarrow> ('k, 'a, 'b) MapBuilder \<Rightarrow> ('k, 'a, 'b) MapBuilder" where
  "MapBuilder_Delete key mb = mb\<lparr>mb_deleted := List.insert key (mb_deleted mb), mb_dirty := AList.delete key (mb_dirty mb)\<rparr>"

definition MapBuilder_Clear :: "('k, 'a, 'b) MapBuilder \<Rightarrow> ('k, 'a, 'b) MapBuilder" where
  "MapBuilder_Clear mb = mb\<lparr>mb_dirty := [], mb_deleted := remdups (map fst (mb_base mb))\<rparr>"

definition MapBuilder_Has :: "'k \<Rightarrow> ('k, 'a, 'b) MapBuilder \<Rightarrow> bool" where
  "MapBuilder_Has key mb =
     (if key \<in> set (mb_deleted mb) then False
      else if map_of (mb_dirty mb) key \<noteq> None then True
      else map_of (mb_base mb) key \<noteq> None)"

definition MapBuilder_Build :: "('b \<Rightarrow> 'a) \<Rightarrow> ('k, 'a, 'b) MapBuilder \<Rightarrow> ('k \<times> 'a) list" where
  "MapBuilder_Build build mb =
     (if mb_dirty mb = [] \<and> mb_deleted mb = [] then mb_base mb
      else fold (\<lambda>(key, v). AList.update key (build v)) (mb_dirty mb) (fold AList.delete (mb_deleted mb) (mb_base mb)))"

definition CloneMapIfNil :: "('k \<Rightarrow> 'v option) option \<Rightarrow> ('k \<Rightarrow> 'v option) option option \<Rightarrow> ('k \<Rightarrow> 'v option)" where
  \<comment> \<open>the map of the dirty object, nil or not, and that of the original, which may be nil itself\<close>
  "CloneMapIfNil dirtyMap original =
     (case dirtyMap of
        Some m \<Rightarrow> m
      | None \<Rightarrow> (case original of None \<Rightarrow> (\<lambda>_. None) | Some None \<Rightarrow> (\<lambda>_. None) | Some (Some m) \<Rightarrow> m))"

end
