(* ===== verification/Dirty_Props.thy ===== *)
theory Dirty_Props
  imports Dirty
begin

text \<open>
  What the copy-on-write containers promise: a map of pointers that behaves like a map of values, whose
  finished form has these values, and that never changes an object of the snapshot it started from.
\<close>

section \<open>The abstract map\<close>

definition contents :: "('k, 'v) DMap \<Rightarrow> 'k \<Rightarrow> 'v option" where
  "contents m k = map_option ((!) (objects m))
     (case map_of (dm_dirty m) k of Some e \<Rightarrow> Entry_Value e m | None \<Rightarrow> dm_base m k)"

text \<open>The operations of a client. \<open>Add\<close> is called with a fresh object.\<close>

datatype ('k, 'v) mapOp = OpAdd 'k 'v | OpChange 'k "'v \<Rightarrow> 'v" | OpDelete 'k | OpTryDelete 'k

fun runOp :: "('v \<Rightarrow> 'v) \<Rightarrow> ('k, 'v) mapOp \<Rightarrow> ('k, 'v) DMap \<Rightarrow> ('k, 'v) DMap or_panic" where
  "runOp clone (OpAdd k v) m = Inr (Map_Add k (length (objects m)) (m\<lparr>objects := objects m @ [v]\<rparr>))"
| "runOp clone (OpChange k f) m = Map_Change clone k f m"
| "runOp clone (OpDelete k) m = Map_Delete k m"
| "runOp clone (OpTryDelete k) m = Inr (snd (Map_TryDelete k m))"

fun absOp :: "('k, 'v) mapOp \<Rightarrow> ('k \<rightharpoonup> 'v) \<Rightarrow> ('k \<rightharpoonup> 'v) option" where
  "absOp (OpAdd k v) M = Some (M(k \<mapsto> v))"
| "absOp (OpChange k f) M = (case M k of None \<Rightarrow> None | Some v \<Rightarrow> Some (M(k \<mapsto> f v)))"
| "absOp (OpDelete k) M = (if M k = None then None else Some (M(k := None)))"
| "absOp (OpTryDelete k) M = Some (M(k := None))"

fun runOps :: "('v \<Rightarrow> 'v) \<Rightarrow> ('k, 'v) mapOp list \<Rightarrow> ('k, 'v) DMap \<Rightarrow> ('k, 'v) DMap or_panic" where
  "runOps clone [] m = Inr m"
| "runOps clone (c # cs) m = bind_panic (runOp clone c m) (runOps clone cs)"

fun absOps :: "('k, 'v) mapOp list \<Rightarrow> ('k \<rightharpoonup> 'v) \<Rightarrow> ('k \<rightharpoonup> 'v) option" where
  "absOps [] M = Some M"
| "absOps (c # cs) M = Option.bind (absOp c M) (absOps cs)"

section \<open>Invariant\<close>

text \<open>The objects below \<open>n\<close> are shared with the previous snapshot. A dirty entry that is not deleted has an
  object of its own above them.\<close>

definition entryOk :: "nat \<Rightarrow> ('k, 'v) DMap \<Rightarrow> 'k \<Rightarrow> nat \<Rightarrow> bool" where
  "entryOk n m k e =
     (e < length (mapEntries m) \<and> e_key (mapEntries m ! e) = k
      \<and> (\<not> e_delete (mapEntries m ! e) \<longrightarrow> e_dirty (mapEntries m ! e) \<and> n \<le> e_value (mapEntries m ! e)
           \<and> e_value (mapEntries m ! e) < length (objects m)))"

definition mapOk :: "nat \<Rightarrow> ('k, 'v) DMap \<Rightarrow> bool" where
  "mapOk n m =
     (n \<le> length (objects m) \<and> distinct (map fst (dm_dirty m))
      \<and> (\<forall>k v. dm_base m k = Some v \<longrightarrow> v < n)
      \<and> (\<forall>k e. map_of (dm_dirty m) k = Some e \<longrightarrow> entryOk n m k e)
      \<and> (\<forall>k k' e e'. map_of (dm_dirty m) k = Some e \<and> map_of (dm_dirty m) k' = Some e' \<and> k \<noteq> k' \<longrightarrow>
           e \<noteq> e' \<and> (\<not> e_delete (mapEntries m ! e) \<and> \<not> e_delete (mapEntries m ! e') \<longrightarrow>
             e_value (mapEntries m ! e) \<noteq> e_value (mapEntries m ! e'))))"

lemma mapOk_NewMap: "\<forall>k v. base k = Some v \<longrightarrow> v < length objs \<Longrightarrow> mapOk (length objs) (NewMap objs base)"
  by (simp add: mapOk_def NewMap_def)

lemma mapOkD:
  assumes "mapOk n m"
  shows "n \<le> length (objects m)" "distinct (map fst (dm_dirty m))" "dm_base m k = Some v \<Longrightarrow> v < n"
    "map_of (dm_dirty m) k = Some e \<Longrightarrow> entryOk n m k e"
    "map_of (dm_dirty m) k = Some e \<Longrightarrow> map_of (dm_dirty m) k' = Some e' \<Longrightarrow> k \<noteq> k' \<Longrightarrow> e \<noteq> e'"
    "map_of (dm_dirty m) k = Some e \<Longrightarrow> map_of (dm_dirty m) k' = Some e' \<Longrightarrow> k \<noteq> k' \<Longrightarrow>
       \<not> e_delete (mapEntries m ! e) \<Longrightarrow> \<not> e_delete (mapEntries m ! e') \<Longrightarrow> e_value (mapEntries m ! e) \<noteq> e_value (mapEntries m ! e')"
  using assms unfolding mapOk_def by blast+

lemma mapOkI:
  assumes "n \<le> length (objects m)" "distinct (map fst (dm_dirty m))" "\<And>k v. dm_base m k = Some v \<Longrightarrow> v < n"
    "\<And>k e. map_of (dm_dirty m) k = Some e \<Longrightarrow> entryOk n m k e"
    "\<And>k k' e e'. map_of (dm_dirty m) k = Some e \<Longrightarrow> map_of (dm_dirty m) k' = Some e' \<Longrightarrow> k \<noteq> k' \<Longrightarrow>
       e \<noteq> e' \<and> (\<not> e_delete (mapEntries m ! e) \<and> \<not> e_delete (mapEntries m ! e') \<longrightarrow> e_value (mapEntries m ! e) \<noteq> e_value (mapEntries m ! e'))"
  shows "mapOk n m"
  unfolding mapOk_def using assms by blast

text \<open>Registering an entry for \<open>k\<close> with an object \<open>a\<close> of its own, new or changed: what every change comes to.\<close>

lemma register:
  assumes ok: "mapOk n m" and e: "e < length es'" "es' ! e = en" "e_key en = k" "e_dirty en" "\<not> e_delete en"
    and a: "e_value en = a" "n \<le> a" "a < length objs'"
    and es: "\<And>k' e'. map_of (dm_dirty m) k' = Some e' \<Longrightarrow> k' \<noteq> k \<Longrightarrow> e' \<noteq> e \<and> e' < length es' \<and> es' ! e' = mapEntries m ! e'
      \<and> (\<not> e_delete (mapEntries m ! e') \<longrightarrow> e_value (mapEntries m ! e') \<noteq> a)"
    and objs: "length (objects m) \<le> length objs'" "\<And>b. b < length (objects m) \<Longrightarrow> b \<noteq> a \<Longrightarrow> objs' ! b = objects m ! b"
    and m': "m' = m\<lparr>objects := objs', mapEntries := es', dm_dirty := AList.update k e (dm_dirty m)\<rparr>"
  shows "mapOk n m' \<and> contents m' = (contents m)(k \<mapsto> objs' ! a) \<and> take n (objects m') = take n (objects m)"
proof (intro conjI)
  note n = mapOkD(1) [OF ok]
  have dirty: "map_of (dm_dirty m') = (map_of (dm_dirty m))(k \<mapsto> e)" using m' by (simp add: update_conv')
  show "mapOk n m'"
  proof (rule mapOkI)
    show "n \<le> length (objects m')" "distinct (map fst (dm_dirty m'))" using n objs m' mapOkD(2) [OF ok] by (simp_all add: distinct_update)
    fix k1 v
    show "dm_base m' k1 = Some v \<Longrightarrow> v < n" using mapOkD(3) [OF ok] m' by simp
  next
    fix k1 e1
    assume "map_of (dm_dirty m') k1 = Some e1"
    then show "entryOk n m' k1 e1"
      using e a es [of k1 e1] mapOkD(4) [OF ok, of k1 e1] objs(1) unfolding dirty by (auto simp: entryOk_def m' split: if_splits)
  next
    fix k1 k2 e1 e2
    assume "map_of (dm_dirty m') k1 = Some e1" "map_of (dm_dirty m') k2 = Some e2" "k1 \<noteq> k2"
    then show "e1 \<noteq> e2 \<and> (\<not> e_delete (mapEntries m' ! e1) \<and> \<not> e_delete (mapEntries m' ! e2) \<longrightarrow>
        e_value (mapEntries m' ! e1) \<noteq> e_value (mapEntries m' ! e2))"
      using e a es [of k1 e1] es [of k2 e2] mapOkD(5,6) [OF ok, of k1 e1 k2 e2] unfolding dirty
      by (auto simp: m' split: if_splits)
  qed
  show "contents m' = (contents m)(k \<mapsto> objs' ! a)"
  proof
    fix k1
    show "contents m' k1 = ((contents m)(k \<mapsto> objs' ! a)) k1"
    proof (cases "k1 = k")
      case True
      then show ?thesis using e a dirty by (simp add: contents_def Entry_Value_def m')
    next
      case False
      show ?thesis
      proof (cases "map_of (dm_dirty m) k1")
        case None
        then show ?thesis using False dirty a(2) objs(2) n mapOkD(3) [OF ok, of k1]
          by (cases "dm_base m k1") (auto simp: contents_def m')
      next
        case (Some e1)
        then show ?thesis using False dirty es [of k1 e1] mapOkD(4) [OF ok, of k1 e1] objs(2)
          by (auto simp: contents_def Entry_Value_def m' entryOk_def)
      qed
    qed
  qed
  show "take n (objects m') = take n (objects m)"
    using n objs a(2) by (intro nth_equalityI) (auto simp: m')
qed

lemma unregister:
  assumes ok: "mapOk n m" and e: "e < length es'" "e_key (es' ! e) = k" "e_delete (es' ! e)"
    and es: "\<And>k' e'. map_of (dm_dirty m) k' = Some e' \<Longrightarrow> k' \<noteq> k \<Longrightarrow> e' \<noteq> e \<and> e' < length es' \<and> es' ! e' = mapEntries m ! e'"
    and m': "m' = m\<lparr>mapEntries := es', dm_dirty := AList.update k e (dm_dirty m)\<rparr>"
  shows "mapOk n m' \<and> contents m' = (contents m)(k := None) \<and> take n (objects m') = take n (objects m)"
proof (intro conjI)
  have dirty: "map_of (dm_dirty m') = (map_of (dm_dirty m))(k \<mapsto> e)" using m' by (simp add: update_conv')
  show "mapOk n m'"
  proof (rule mapOkI)
    show "n \<le> length (objects m')" "distinct (map fst (dm_dirty m'))" using mapOkD(1,2) [OF ok] m' by (simp_all add: distinct_update)
    fix k1 v
    show "dm_base m' k1 = Some v \<Longrightarrow> v < n" using mapOkD(3) [OF ok] m' by simp
  next
    fix k1 e1
    assume "map_of (dm_dirty m') k1 = Some e1"
    then show "entryOk n m' k1 e1"
      using e es [of k1 e1] mapOkD(4) [OF ok, of k1 e1] unfolding dirty by (auto simp: entryOk_def m' split: if_splits)
  next
    fix k1 k2 e1 e2
    assume "map_of (dm_dirty m') k1 = Some e1" "map_of (dm_dirty m') k2 = Some e2" "k1 \<noteq> k2"
    then show "e1 \<noteq> e2 \<and> (\<not> e_delete (mapEntries m' ! e1) \<and> \<not> e_delete (mapEntries m' ! e2) \<longrightarrow>
        e_value (mapEntries m' ! e1) \<noteq> e_value (mapEntries m' ! e2))"
      using e es [of k1 e1] es [of k2 e2] mapOkD(5,6) [OF ok, of k1 e1 k2 e2] unfolding dirty
      by (auto simp: m' split: if_splits)
  qed
  show "contents m' = (contents m)(k := None)"
    using e es dirty by (auto simp: contents_def Entry_Value_def m' fun_eq_iff split: option.splits)
qed (simp add: m')

lemma update_same: "map_of al k = Some v \<Longrightarrow> AList.update k v al = al"
  by (induction al) (auto split: if_splits)

section \<open>The operations\<close>

text \<open>What \<open>Get\<close> finds: an entry of its own, registered or new.\<close>

lemma Map_Get_cases:
  assumes "mapOk n m"
  obtains (Missing) "contents m k = None" "Map_Get k m = (None, m)"
  | (Registered) e where "Map_Get k m = (Some e, m)" "map_of (dm_dirty m) k = Some e" "\<not> e_delete (mapEntries m ! e)"
      "contents m k = Some (objects m ! e_value (mapEntries m ! e))"
  | (Fresh) v where "map_of (dm_dirty m) k = None" "v < n" "contents m k = Some (objects m ! v)"
      "Map_Get k m = (Some (length (mapEntries m)),
        m\<lparr>mapEntries := mapEntries m @ [\<lparr>e_key = k, e_original = Some v, e_value = v, e_dirty = False, e_delete = False\<rparr>]\<rparr>)"
proof (cases "map_of (dm_dirty m) k")
  case None
  then show thesis using Missing Fresh mapOkD(3) [OF assms, of k]
    by (cases "dm_base m k") (auto simp: Map_Get_def contents_def addEntry_def)
next
  case (Some e)
  then show thesis using Missing Registered by (cases "e_delete (mapEntries m ! e)") (auto simp: Map_Get_def contents_def Entry_Value_def)
qed

lemma others_registered:
  assumes "mapOk n m" "map_of (dm_dirty m) k' = Some e'"
  shows "e' < length (mapEntries m)" "map_of (dm_dirty m) k = Some e \<Longrightarrow> k' \<noteq> k \<Longrightarrow> e' \<noteq> e"
    "\<not> e_delete (mapEntries m ! e') \<Longrightarrow> n \<le> e_value (mapEntries m ! e') \<and> e_value (mapEntries m ! e') < length (objects m)"
  using mapOkD(4,5) [OF assms(1)] assms(2) unfolding entryOk_def by blast+

lemma Map_Change_refines:
  assumes ok: "mapOk n m" and clone: "\<And>x. clone x = x"
  shows "case contents m k of None \<Rightarrow> \<exists>msg. Map_Change clone k f m = Inl msg
    | Some v \<Rightarrow> \<exists>m'. Map_Change clone k f m = Inr m' \<and> mapOk n m' \<and> contents m' = (contents m)(k \<mapsto> f v)
        \<and> take n (objects m') = take n (objects m)"
proof (rule Map_Get_cases [OF ok, of k], goal_cases Missing Registered Fresh)
  case Missing
  then show ?thesis by (simp add: Map_Change_def)
next
  case (Registered e)
  note en = mapOkD(4) [OF ok Registered(2)]
  let ?a = "e_value (mapEntries m ! e)"
  let ?m = "m\<lparr>objects := (objects m)[?a := f (objects m ! ?a)]\<rparr>"
  have "Map_Change clone k f m = Inr ?m"
    using Registered en by (simp add: Map_Change_def Entry_Change_def applyTo_def entryOk_def)
  moreover have "mapOk n ?m \<and> contents ?m = (contents m)(k \<mapsto> (objects m)[?a := f (objects m ! ?a)] ! ?a)
      \<and> take n (objects ?m) = take n (objects m)"
    by (rule register [OF ok, where e = e and es' = "mapEntries m" and en = "mapEntries m ! e" and a = ?a
          and objs' = "(objects m)[?a := f (objects m ! ?a)]"])
      (use en Registered mapOkD(6) [OF ok _ Registered(2)] others_registered [OF ok] in
        \<open>auto simp: entryOk_def update_same [OF Registered(2)]\<close>)
  ultimately show ?thesis using Registered en by (auto simp: entryOk_def)
next
  case (Fresh v)
  let ?L = "length (mapEntries m)" and ?a = "length (objects m)"
  let ?en = "\<lparr>e_key = k, e_original = Some v, e_value = ?a, e_dirty = True, e_delete = False\<rparr>"
  let ?m = "m\<lparr>objects := objects m @ [f (objects m ! v)], mapEntries := mapEntries m @ [?en], dm_dirty := AList.update k ?L (dm_dirty m)\<rparr>"
  have "Map_Change clone k f m = Inr ?m"
    using Fresh clone by (simp add: Map_Change_def Entry_Change_def applyTo_def cloneValue_def updateEntry_def markDirty_def Let_def)
  moreover have "mapOk n ?m \<and> contents ?m = (contents m)(k \<mapsto> (objects m @ [f (objects m ! v)]) ! ?a)
      \<and> take n (objects ?m) = take n (objects m)"
    by (rule register [OF ok, where e = ?L and es' = "mapEntries m @ [?en]" and en = ?en and a = ?a
          and objs' = "objects m @ [f (objects m ! v)]"])
      (use mapOkD(1) [OF ok] others_registered [OF ok] in \<open>fastforce simp: nth_append less_Suc_eq\<close>)+
  ultimately show ?thesis using Fresh by auto
qed

lemma Map_TryDelete_refines:
  assumes ok: "mapOk n m"
  shows "\<exists>m'. Map_TryDelete k m = (contents m k \<noteq> None, m') \<and> mapOk n m' \<and> contents m' = (contents m)(k := None)
    \<and> take n (objects m') = take n (objects m)"
proof (rule Map_Get_cases [OF ok, of k], goal_cases Missing Registered Fresh)
  case Missing
  then show ?thesis using ok by (auto simp: Map_TryDelete_def)
next
  case (Registered e)
  note en = mapOkD(4) [OF ok Registered(2)]
  let ?m = "m\<lparr>mapEntries := (mapEntries m)[e := (mapEntries m ! e)\<lparr>e_delete := True\<rparr>]\<rparr>"
  have "Map_TryDelete k m = (True, ?m)"
    using Registered en by (simp add: Map_TryDelete_def Entry_Delete_def updateEntry_def entryOk_def)
  moreover have "mapOk n ?m \<and> contents ?m = (contents m)(k := None) \<and> take n (objects ?m) = take n (objects m)"
    by (rule unregister [OF ok, where e = e])
      (use en Registered others_registered [OF ok] in \<open>auto simp: entryOk_def update_same [OF Registered(2)]\<close>)
  ultimately show ?thesis using Registered by auto
next
  case (Fresh v)
  let ?L = "length (mapEntries m)"
  let ?en = "\<lparr>e_key = k, e_original = Some v, e_value = v, e_dirty = False, e_delete = True\<rparr>"
  let ?m = "m\<lparr>mapEntries := mapEntries m @ [?en], dm_dirty := AList.update k ?L (dm_dirty m)\<rparr>"
  have "Map_TryDelete k m = (True, ?m)"
    using Fresh by (simp add: Map_TryDelete_def Entry_Delete_def updateEntry_def markDirty_def)
  moreover have "mapOk n ?m \<and> contents ?m = (contents m)(k := None) \<and> take n (objects ?m) = take n (objects m)"
    by (rule unregister [OF ok, where e = ?L]) (use others_registered [OF ok] in \<open>auto simp: nth_append less_Suc_eq\<close>)
  ultimately show ?thesis using Fresh by auto
qed

lemma Map_Add_refines:
  assumes ok: "mapOk n m"
  shows "\<exists>m'. runOp clone (OpAdd k v) m = Inr m' \<and> mapOk n m' \<and> contents m' = (contents m)(k \<mapsto> v)
    \<and> take n (objects m') = take n (objects m)"
proof -
  let ?L = "length (mapEntries m)" and ?a = "length (objects m)"
  let ?en = "\<lparr>e_key = k, e_original = None, e_value = ?a, e_dirty = True, e_delete = False\<rparr>"
  let ?m = "m\<lparr>objects := objects m @ [v], mapEntries := mapEntries m @ [?en], dm_dirty := AList.update k ?L (dm_dirty m)\<rparr>"
  have "mapOk n ?m \<and> contents ?m = (contents m)(k \<mapsto> (objects m @ [v]) ! ?a) \<and> take n (objects ?m) = take n (objects m)"
    by (rule register [OF ok, where e = ?L and es' = "mapEntries m @ [?en]" and en = ?en and a = ?a and objs' = "objects m @ [v]"])
      (use mapOkD(1) [OF ok] others_registered [OF ok] in \<open>fastforce simp: nth_append less_Suc_eq\<close>)+
  then show ?thesis by (simp add: Map_Add_def addEntry_def)
qed

lemma runOp_refines:
  assumes ok: "mapOk n m" and clone: "\<And>x. clone x = x"
  shows "case absOp c (contents m) of None \<Rightarrow> \<exists>msg. runOp clone c m = Inl msg
    | Some M \<Rightarrow> \<exists>m'. runOp clone c m = Inr m' \<and> mapOk n m' \<and> contents m' = M \<and> take n (objects m') = take n (objects m)"
proof (cases c)
  case (OpAdd k v)
  then show ?thesis using Map_Add_refines [OF ok] by simp
next
  case (OpChange k f)
  then show ?thesis using Map_Change_refines [OF ok, of clone k f] clone by (auto split: option.splits)
next
  case (OpDelete k)
  then show ?thesis using Map_TryDelete_refines [OF ok, of k] by (auto simp: Map_Delete_def)
next
  case (OpTryDelete k)
  then show ?thesis using Map_TryDelete_refines [OF ok, of k] by auto
qed

text \<open>No operation replaces the base map.\<close>

lemma base_kept: "runOp clone c m = Inr m' \<Longrightarrow> dm_base m' = dm_base m"
  by (cases c) (auto simp: Map_Add_def addEntry_def Map_Change_def Map_Delete_def Map_TryDelete_def Map_Get_def Entry_Change_def
      Entry_Delete_def updateEntry_def markDirty_def applyTo_def cloneValue_def Let_def split: option.splits if_splits prod.splits)

lemma runOps_refines:
  assumes "mapOk n m" and clone: "\<And>x. clone x = x"
  shows "case absOps cs (contents m) of None \<Rightarrow> \<exists>msg. runOps clone cs m = Inl msg
    | Some M \<Rightarrow> \<exists>m'. runOps clone cs m = Inr m' \<and> mapOk n m' \<and> contents m' = M \<and> take n (objects m') = take n (objects m)
        \<and> dm_base m' = dm_base m"
  using assms(1)
proof (induction cs arbitrary: m)
  case (Cons c cs)
  show ?case
  proof (cases "absOp c (contents m)")
    case None
    then show ?thesis using runOp_refines [OF Cons.prems clone, of c] by (auto simp: bind_panic_def)
  next
    case (Some M)
    then obtain m' where m': "runOp clone c m = Inr m'" "mapOk n m'" "contents m' = M" "take n (objects m') = take n (objects m)"
      using runOp_refines [OF Cons.prems clone, of c] by auto
    show ?thesis using Cons.IH [OF m'(2)] m' Some base_kept [OF m'(1)] by (auto simp: bind_panic_def split: option.splits)
  qed
qed simp

section \<open>Finalize\<close>

lemma finalizeLoop_lookup:
  "distinct (map fst al) \<Longrightarrow> finalizeLoop m al r k = (case map_of al k of Some e \<Rightarrow> Entry_Value e m | None \<Rightarrow> r k)"
proof (induction m al r rule: finalizeLoop.induct)
  case (2 m key e rest result)
  then show ?case by (cases "key = k") (auto simp: Entry_Value_def intro: rev_image_eqI split: option.splits)
qed simp

lemma Map_Finalize_contents:
  assumes "mapOk n m"
  shows "map_option ((!) (objects m)) (fst (Map_Finalize m) k) = contents m k"
  using mapOkD(2) [OF assms] by (simp add: Map_Finalize_def contents_def finalizeLoop_lookup)

text \<open>C8. A snapshot builder (\<open>dirty.Map\<close>) refines a map of values. For every sequence of Add, Change, Delete and
  TryDelete on a map built over the shared objects of the previous snapshot, and a faithful Clone: a call panics exactly
  when its key is missing in the abstract map; otherwise the objects of the previous snapshot are the ones
  they were, the finished map dereferences to the abstract result, and a finish reported as unchanged
  gives the base map itself back.\<close>

theorem dirty_map_runs:
  assumes "\<And>x. clone x = x" and "\<And>k v. base k = Some v \<Longrightarrow> v < length objs"
  shows "case absOps cs (\<lambda>k. map_option ((!) objs) (base k)) of
      None \<Rightarrow> \<exists>msg. runOps clone cs (NewMap objs base) = Inl msg
    | Some M \<Rightarrow> \<exists>m r changed. runOps clone cs (NewMap objs base) = Inr m \<and> Map_Finalize m = (r, changed)
        \<and> take (length objs) (objects m) = objs \<and> (\<lambda>k. map_option ((!) (objects m)) (r k)) = M
        \<and> (\<not> changed \<longrightarrow> r = base)"
proof -
  let ?m = "NewMap objs base"
  have ok: "mapOk (length objs) ?m" using assms(2) by (simp add: mapOk_NewMap)
  have c: "contents ?m = (\<lambda>k. map_option ((!) objs) (base k))" by (simp add: contents_def NewMap_def fun_eq_iff)
  show ?thesis
  proof (cases "absOps cs (contents ?m)")
    case None
    then show ?thesis using runOps_refines [OF ok assms(1), of cs] c by simp
  next
    case (Some M)
    then obtain m where m: "runOps clone cs ?m = Inr m" "mapOk (length objs) m" "contents m = M"
        "take (length objs) (objects m) = take (length objs) (objects ?m)" "dm_base m = dm_base ?m"
      using runOps_refines [OF ok assms(1), of cs] by auto
    have "(\<lambda>k. map_option ((!) (objects m)) (fst (Map_Finalize m) k)) = M"
      using Map_Finalize_contents [OF m(2)] m(3) by (simp add: fun_eq_iff)
    moreover have "\<not> snd (Map_Finalize m) \<Longrightarrow> fst (Map_Finalize m) = base"
      using m(5) by (simp add: Map_Finalize_def NewMap_def split: if_splits)
    ultimately show ?thesis using m Some c by (cases "Map_Finalize m") (simp add: NewMap_def)
  qed
qed

theorem dirty_map_runs_witness:
  "case absOps [OpChange (1 :: nat) ((+) 5), OpAdd 2 (7 :: nat), OpDelete 1] (\<lambda>k. map_option ((!) [10 :: nat]) (if k = 1 then Some 0 else None)) of
      None \<Rightarrow> \<exists>msg. runOps id [OpChange (1 :: nat) ((+) 5), OpAdd 2 (7 :: nat), OpDelete 1] (NewMap [10 :: nat] (\<lambda>k. if k = 1 then Some 0 else None)) = Inl msg
    | Some M \<Rightarrow> \<exists>m r changed. runOps id [OpChange (1 :: nat) ((+) 5), OpAdd 2 (7 :: nat), OpDelete 1] (NewMap [10 :: nat] (\<lambda>k. if k = 1 then Some 0 else None)) = Inr m
        \<and> Map_Finalize m = (r, changed)
        \<and> take (length [10 :: nat]) (objects m) = [10] \<and> (\<lambda>k. map_option ((!) (objects m)) (r k)) = M
        \<and> (\<not> changed \<longrightarrow> r = (\<lambda>k. if k = 1 then Some 0 else None))"
  by (rule dirty_map_runs) (auto split: if_splits)

section \<open>Range and Clear\<close>

text \<open>A callback that writes down the key and the value it is given.\<close>

fun record_entry :: "nat \<Rightarrow> ('k, 'v) DMap \<times> ('k \<times> 'v) list \<Rightarrow> bool \<times> ('k, 'v) DMap \<times> ('k \<times> 'v) list" where
  "record_entry e (m, s) = (True, m, s @ [(e_key (mapEntries m ! e), objects m ! e_value (mapEntries m ! e))])"

lemma rangeDirty_record:
  assumes "\<And>k e. (k, e) \<in> set ds \<Longrightarrow> e_key (mapEntries m ! e) = k"
  shows "rangeDirty record_entry ds seen (m, s) = (seen \<union> fst ` set ds, m,
    s @ map (\<lambda>(k, e). (k, objects m ! e_value (mapEntries m ! e))) (filter (\<lambda>(k, e). \<not> e_delete (mapEntries m ! e)) ds))"
  using assms
proof (induction ds arbitrary: seen s)
  case (Cons d ds)
  obtain k e where d: "d = (k, e)" by (cases d)
  have k: "e_key (mapEntries m ! e) = k" using Cons.prems d by simp
  have "rangeDirty record_entry ds (insert k seen) (m, s') = (insert k seen \<union> fst ` set ds, m,
      s' @ map (\<lambda>(k, e). (k, objects m ! e_value (mapEntries m ! e))) (filter (\<lambda>(k, e). \<not> e_delete (mapEntries m ! e)) ds))" for s'
    using Cons.IH Cons.prems by simp
  then show ?case using d k by (simp add: Let_def)
qed simp

lemma rangeBase_record:
  "\<exists>m'. rangeBase record_entry bs seen (m, s) = (m', s @ map (\<lambda>(k, v). (k, objects m ! v)) (filter (\<lambda>(k, v). k \<notin> seen) bs))
     \<and> objects m' = objects m"
proof (induction bs arbitrary: m s)
  case (Cons b bs)
  obtain k v where b: "b = (k, v)" by (cases b)
  show ?case
  proof (cases "k \<in> seen")
    case False
    let ?m = "m\<lparr>mapEntries := mapEntries m @ [\<lparr>e_key = k, e_original = Some v, e_value = v, e_dirty = False, e_delete = False\<rparr>]\<rparr>"
    show ?thesis using Cons.IH [of ?m "s @ [(k, objects m ! v)]"] False b by (simp add: addEntry_def nth_append)
  qed (use Cons.IH [of m s] b in simp)
qed simp

lemma Map_Range_enumerates:
  assumes ok: "mapOk n m" and ds: "distinct ds" "set ds = set (dm_dirty m)"
    and bs: "distinct (map fst bs)" "map_of bs = dm_base m"
  shows "distinct (map fst (snd (Map_Range record_entry ds bs (m, []))))
    \<and> map_of (snd (Map_Range record_entry ds bs (m, []))) = contents m"
proof -
  have inj: "inj_on fst (set ds)" using mapOkD(2) [OF ok] ds(2) by (simp add: distinct_map)
  then have dsk: "distinct (map fst ds)" using ds(1) by (simp add: distinct_map)
  have mo: "map_of ds = map_of (dm_dirty m)"
    using dsk mapOkD(2) [OF ok] ds(2) by (simp add: map_of_inject_set)
  have keys: "e_key (mapEntries m ! e) = k" if "(k, e) \<in> set ds" for k e
    using mapOkD(4) [OF ok, of k e] that dsk mo by (metis entryOk_def map_of_is_SomeI)
  let ?D = "map (\<lambda>(k, e). (k, objects m ! e_value (mapEntries m ! e))) (filter (\<lambda>(k, e). \<not> e_delete (mapEntries m ! e)) ds)"
  let ?B = "map (\<lambda>(k, v). (k, objects m ! v)) (filter (\<lambda>(k, v). k \<notin> fst ` set ds) bs)"
  have run: "snd (Map_Range record_entry ds bs (m, [])) = ?D @ ?B"
    using rangeBase_record [of bs "fst ` set ds" m ?D] rangeDirty_record [OF keys, of ds "{}" "[]"]
    by (auto simp: Map_Range_def)
  have fstD: "map fst ?D = map fst (filter (\<lambda>(k, e). \<not> e_delete (mapEntries m ! e)) ds)"
    and fstB: "map fst ?B = map fst (filter (\<lambda>(k, v). k \<notin> fst ` set ds) bs)" by (auto simp: case_prod_beta)
  have dD: "distinct (map fst ?D)" unfolding fstD using dsk by (rule distinct_map_filter)
  have dB: "distinct (map fst ?B)" unfolding fstB using bs(1) by (rule distinct_map_filter)
  have "set (map fst ?D) \<inter> set (map fst ?B) = {}" unfolding fstD fstB by (auto intro: rev_image_eqI)
  then have dist: "distinct (map fst (?D @ ?B))" using dD dB by (simp only: map_append distinct_append)
  moreover have "map_of (?D @ ?B) k = contents m k" for k
  proof -
    have "map_of (?D @ ?B) k = Some x \<longleftrightarrow> contents m k = Some x" for x
    proof -
      have "map_of (?D @ ?B) k = Some x \<longleftrightarrow> (k, x) \<in> set (?D @ ?B)" using dist by (rule map_of_eq_Some_iff)
      also have "\<dots> \<longleftrightarrow> (\<exists>e. map_of ds k = Some e \<and> \<not> e_delete (mapEntries m ! e) \<and> x = objects m ! e_value (mapEntries m ! e))
          \<or> map_of ds k = None \<and> (\<exists>v. map_of bs k = Some v \<and> x = objects m ! v)"
        using dsk bs(1) by (auto simp: map_of_eq_None_iff image_iff)
      also have "\<dots> \<longleftrightarrow> contents m k = Some x"
        using mo bs(2) by (auto simp: contents_def Entry_Value_def split: option.splits)
      finally show ?thesis .
    qed
    then show ?thesis by (cases "contents m k"; cases "map_of (?D @ ?B) k") auto
  qed
  ultimately show ?thesis unfolding run by auto
qed

text \<open>\<open>Map.Range\<close> with a callback that never stops visits every key of the map exactly once and gives its
  current value, whatever order Go chooses for its two maps: changed and added entries with their new objects,
  untouched ones with the base object, deleted ones not at all.\<close>

theorem Map_Range_visits:
  assumes "\<And>x. clone x = x" and "\<And>k v. base k = Some v \<Longrightarrow> v < length objs"
    and "runOps clone cs (NewMap objs base) = Inr m" and "absOps cs (\<lambda>k. map_option ((!) objs) (base k)) = Some M"
    and "distinct ds" "set ds = set (dm_dirty m)" and "distinct (map fst bs)" "map_of bs = base"
  shows "distinct (map fst (snd (Map_Range record_entry ds bs (m, []))))
    \<and> map_of (snd (Map_Range record_entry ds bs (m, []))) = M"
proof -
  let ?m = "NewMap objs base"
  have ok: "mapOk (length objs) ?m" using assms(2) by (simp add: mapOk_NewMap)
  have c: "contents ?m = (\<lambda>k. map_option ((!) objs) (base k))" by (simp add: contents_def NewMap_def fun_eq_iff)
  have m: "mapOk (length objs) m" "contents m = M" "dm_base m = base"
    using runOps_refines [OF ok assms(1), of cs] assms(3,4) c by (auto simp: NewMap_def)
  show ?thesis using Map_Range_enumerates [OF m(1) assms(5,6,7)] assms(8) m(2,3) by simp
qed

theorem Map_Range_visits_witness:
  "\<exists>m. runOps id [OpAdd (2 :: nat) (7 :: nat)] (NewMap [10] (map_of [(1, 0)])) = Inr m
    \<and> distinct (map fst (snd (Map_Range record_entry [(2, 0)] [(1, 0)] (m, []))))
    \<and> map_of (snd (Map_Range record_entry [(2, 0)] [(1, 0)] (m, []))) = (\<lambda>k. map_option ((!) [10]) (map_of [(1, 0)] k))(2 \<mapsto> 7)"
proof -
  let ?m = "\<lparr>objects = [10, 7 :: nat], mapEntries = [\<lparr>e_key = 2 :: nat, e_original = None, e_value = 1, e_dirty = True, e_delete = False\<rparr>],
    dm_base = map_of [(1, 0)], dm_dirty = [(2, 0)]\<rparr>"
  have run: "runOps id [OpAdd (2 :: nat) (7 :: nat)] (NewMap [10] (map_of [(1, 0)])) = Inr ?m"
    by (simp add: NewMap_def Map_Add_def addEntry_def bind_panic_def)
  have "distinct (map fst (snd (Map_Range record_entry [(2, 0)] [(1, 0)] (?m, []))))
      \<and> map_of (snd (Map_Range record_entry [(2, 0)] [(1, 0)] (?m, []))) = (\<lambda>k. map_option ((!) [10]) (map_of [(1, 0)] k))(2 \<mapsto> 7)"
    by (rule Map_Range_visits [OF _ _ run]) (auto split: if_splits)
  then show ?thesis using run by blast
qed

text \<open>\<open>Map.Range\<close> goes on after its callback has returned false: the \<open>break\<close> leaves the loop over the dirty map
  only. Over a base map with the keys 1 and 2, of which 1 was changed and 2 deleted, a callback that stops at
  once is called twice, the second time with the deleted entry 2 and its old value.\<close>

theorem Map_Range_after_break:
  "\<exists>m. runOps id [OpChange (1 :: nat) (\<lambda>_. 9), OpDelete 2] (NewMap [10, 20 :: nat] (map_of [(1, 0), (2, 1)])) = Inr m
    \<and> contents m 2 = None
    \<and> snd (Map_Range (\<lambda>e st. (False, snd (record_entry e st))) (dm_dirty m) [(1, 0), (2, 1)] (m, [])) = [(1, 9), (2, 20)]"
  by (simp add: NewMap_def Map_Change_def Map_Get_def addEntry_def Entry_Change_def cloneValue_def updateEntry_def markDirty_def
      applyTo_def Map_Delete_def Map_TryDelete_def Entry_Delete_def bind_panic_def contents_def Entry_Value_def Map_Range_def)

text \<open>\<open>Map.Clear\<close> drops the dirty entries with the base map, so \<open>Finalize\<close> reports a cleared map as unchanged,
  although the base map it was built from may have had entries; a caller that replaces its map only
  when told of a change (\<open>configFileRegistryBuilder.Finalize\<close>) keeps the old entries.\<close>

theorem Map_Clear_reported_unchanged:
  "Map_Finalize (Map_Clear (NewMap objs base)) = (\<lambda>_. None, False) \<and> snd (Map_Finalize (Map_Clear m)) = False"
  by (simp add: Map_Clear_def Map_Finalize_def)

section \<open>MapBuilder\<close>

datatype ('k, 'b) builderOp = BSet 'k 'b | BDelete 'k | BClear

fun runBuilder :: "('k, 'b) builderOp \<Rightarrow> ('k, 'a, 'b) MapBuilder \<Rightarrow> ('k, 'a, 'b) MapBuilder" where
  "runBuilder (BSet k v) mb = MapBuilder_Set k v mb"
| "runBuilder (BDelete k) mb = MapBuilder_Delete k mb"
| "runBuilder BClear mb = MapBuilder_Clear mb"

fun absBuilder :: "('b \<Rightarrow> 'a) \<Rightarrow> ('k, 'b) builderOp \<Rightarrow> ('k \<rightharpoonup> 'a) \<Rightarrow> ('k \<rightharpoonup> 'a)" where
  "absBuilder build (BSet k v) M = M(k \<mapsto> build v)"
| "absBuilder build (BDelete k) M = M(k := None)"
| "absBuilder build BClear M = Map.empty"

text \<open>The map a builder stands for. Its dirty keys and its deleted keys are disjoint.\<close>

definition builderMap :: "('b \<Rightarrow> 'a) \<Rightarrow> ('k, 'a, 'b) MapBuilder \<Rightarrow> 'k \<Rightarrow> 'a option" where
  "builderMap build mb k =
     (case map_of (mb_dirty mb) k of
        Some v \<Rightarrow> Some (build v)
      | None \<Rightarrow> if k \<in> set (mb_deleted mb) then None else map_of (mb_base mb) k)"

definition builderOk :: "('k, 'a, 'b) MapBuilder \<Rightarrow> bool" where
  "builderOk mb = (distinct (map fst (mb_dirty mb)) \<and> (\<forall>k \<in> set (mb_deleted mb). map_of (mb_dirty mb) k = None))"

lemma runBuilder_step:
  assumes "builderOk mb"
  shows "builderOk (runBuilder c mb)" "builderMap build (runBuilder c mb) = absBuilder build c (builderMap build mb)"
    "mb_base (runBuilder c mb) = mb_base mb"
proof -
  show "builderOk (runBuilder c mb)" using assms
    by (cases c) (auto simp: builderOk_def MapBuilder_Set_def MapBuilder_Delete_def MapBuilder_Clear_def distinct_update distinct_delete
        update_conv' delete_conv')
  show "builderMap build (runBuilder c mb) = absBuilder build c (builderMap build mb)"
    by (cases c) (auto simp: builderMap_def MapBuilder_Set_def MapBuilder_Delete_def MapBuilder_Clear_def fun_eq_iff
        update_conv' delete_conv' map_of_eq_None_iff [THEN iffD2] split: option.splits)
  show "mb_base (runBuilder c mb) = mb_base mb"
    by (cases c) (simp_all add: MapBuilder_Set_def MapBuilder_Delete_def MapBuilder_Clear_def)
qed

lemma fold_runBuilder:
  "builderOk mb \<Longrightarrow> builderOk (fold runBuilder cs mb) \<and> builderMap build (fold runBuilder cs mb) = fold (absBuilder build) cs (builderMap build mb)"
  by (induction cs arbitrary: mb) (simp_all add: runBuilder_step)

lemma map_of_fold_delete: "map_of (fold AList.delete ds al) k = (if k \<in> set ds then None else map_of al k)"
  by (induction ds arbitrary: al) (auto simp: delete_conv')

lemma map_of_fold_update:
  "distinct (map fst us) \<Longrightarrow> map_of (fold (\<lambda>(key, v). AList.update key (build v)) us al) k =
     (case map_of us k of Some v \<Rightarrow> Some (build v) | None \<Rightarrow> map_of al k)"
proof (induction us arbitrary: al)
  case (Cons u us)
  have "map_of us k = None" if "fst u = k" using Cons.prems that by (auto simp: map_of_eq_None_iff)
  then show ?case using Cons by (cases u; cases "fst u = k") (auto simp: update_conv' split: option.splits)
qed simp

lemma Build_builderMap: "builderOk mb \<Longrightarrow> map_of (MapBuilder_Build build mb) = builderMap build mb"
  by (auto simp: MapBuilder_Build_def builderMap_def builderOk_def map_of_fold_delete map_of_fold_update fun_eq_iff split: option.splits)

lemma Has_builderMap: "builderOk mb \<Longrightarrow> MapBuilder_Has k mb \<longleftrightarrow> builderMap build mb k \<noteq> None"
  by (auto simp: MapBuilder_Has_def builderMap_def builderOk_def split: option.splits)

text \<open>\<open>MapBuilder\<close> refines a map: after any sequence of Set, Delete and Clear, \<open>Build\<close> gives the base map
  with these operations done in order and the builders built, and \<open>Has\<close> says which keys it will have.\<close>

theorem MapBuilder_runs:
  "map_of (MapBuilder_Build build (fold runBuilder cs (NewMapBuilder base))) = fold (absBuilder build) cs (map_of base)
   \<and> (MapBuilder_Has k (fold runBuilder cs (NewMapBuilder base)) \<longleftrightarrow> fold (absBuilder build) cs (map_of base) k \<noteq> None)"
proof -
  have ok: "builderOk (NewMapBuilder base)" and start: "builderMap build (NewMapBuilder base) = map_of base"
    by (simp_all add: builderOk_def builderMap_def NewMapBuilder_def fun_eq_iff)
  note run = fold_runBuilder [OF ok, of cs build]
  show ?thesis
    using run Build_builderMap [of "fold runBuilder cs (NewMapBuilder base)" build]
      Has_builderMap [of "fold runBuilder cs (NewMapBuilder base)" k build] start by simp
qed

end
