(* ===== verification/Dirty_Sync.thy ===== *)
theory Dirty_Sync
  imports Dirty
begin

text \<open>
  \<open>internal/project/dirty/syncmap.go\<close>: the copy-on-write map that several goroutines use. Each call is
  modelled as one step, so that a run is a sequence of whole calls, on handles that were loaded at any earlier time;
  this is where two handles for one key meet and one becomes the proxy of the other. The mutexes that the
  running call holds are a set of entries: locking one of them again blocks for ever, which is the
  fault \<open>Deadlock\<close>. A method of the value type called on nil is the fault \<open>NilPointer\<close>.
\<close>

section \<open>Entries and locks\<close>

datatype syncFault = Deadlock | NilPointer

type_synonym 'a or_fault = "syncFault + 'a"

definition bind_fault :: "'a or_fault \<Rightarrow> ('a \<Rightarrow> 'b or_fault) \<Rightarrow> 'b or_fault" where
  "bind_fault r f = (case r of Inl e \<Rightarrow> Inl e | Inr x \<Rightarrow> f x)"

record 'k SyncMapEntry =
  s_key :: 'k
  s_original :: "nat option"
  s_value :: "nat option"
  s_dirty :: bool
  s_delete :: bool
  s_proxyFor :: "nat option"

record ('k, 'v) SyncMap =
  sobjects :: "'v list"
  sentries :: "'k SyncMapEntry list"
  sm_base :: "'k \<Rightarrow> nat option"
  sm_dirty :: "('k \<times> nat) list"

definition NewSyncMap :: "'v list \<Rightarrow> ('k \<Rightarrow> nat option) \<Rightarrow> ('k, 'v) SyncMap" where
  "NewSyncMap objs base = \<lparr>sobjects = objs, sentries = [], sm_base = base, sm_dirty = []\<rparr>"

definition lock :: "nat \<Rightarrow> nat set \<Rightarrow> nat set or_fault" where
  "lock e held = (if e \<in> held then Inl Deadlock else Inr (insert e held))"

text \<open>Every method of an entry locks it and, when it is a proxy, calls itself on the entry behind it with the lock
  still held. The result is the entry that does the work and the locks held there.\<close>

function enter :: "('k, 'v) SyncMap \<Rightarrow> nat set \<Rightarrow> nat \<Rightarrow> (nat \<times> nat set) or_fault" where
  "enter m held e =
     (if e \<in> held then Inl Deadlock
      else if length (sentries m) \<le> e then Inl NilPointer
      else case s_proxyFor (sentries m ! e) of
             None \<Rightarrow> Inr (e, insert e held)
           | Some p \<Rightarrow> enter m (insert e held) p)"
  by pat_completeness auto

termination enter
proof (relation "measure (\<lambda>(m, held, e). card ({..<length (sentries m)} - held))")
  fix m :: "('k, 'v) SyncMap" and held :: "nat set" and e p :: nat
  assume "e \<notin> held" "\<not> length (sentries m) \<le> e"
  then have "e \<in> {..<length (sentries m)} - held" by simp
  then have "{..<length (sentries m)} - insert e held \<subset> {..<length (sentries m)} - held" by blast
  then show "((m, insert e held, p), (m, held, e)) \<in> measure (\<lambda>(m, held, e). card ({..<length (sentries m)} - held))"
    by (simp add: psubset_card_mono)
qed simp

declare enter.simps [simp del]

definition updateSync :: "nat \<Rightarrow> ('k SyncMapEntry \<Rightarrow> 'k SyncMapEntry) \<Rightarrow> ('k, 'v) SyncMap \<Rightarrow> ('k, 'v) SyncMap" where
  "updateSync e f m = m\<lparr>sentries := (sentries m)[e := f (sentries m ! e)]\<rparr>"

definition valueLocked :: "nat \<Rightarrow> ('k, 'v) SyncMap \<Rightarrow> nat option" where
  "valueLocked e m = (if s_delete (sentries m ! e) then None else s_value (sentries m ! e))"

definition SyncMapEntry_Value :: "nat \<Rightarrow> ('k, 'v) SyncMap \<Rightarrow> nat option or_fault" where
  "SyncMapEntry_Value e m = bind_fault (enter m {} e) (\<lambda>(e, held). Inr (valueLocked e m))"

definition SyncMapEntry_Dirty :: "nat \<Rightarrow> ('k, 'v) SyncMap \<Rightarrow> bool or_fault" where
  "SyncMapEntry_Dirty e m = bind_fault (enter m {} e) (\<lambda>(e, held). Inr (s_dirty (sentries m ! e)))"

section \<open>Changing and deleting\<close>

definition applySync :: "('v \<Rightarrow> 'v) \<Rightarrow> nat option \<Rightarrow> ('k, 'v) SyncMap \<Rightarrow> ('k, 'v) SyncMap or_fault" where
  \<comment> \<open>\<open>apply(v)\<close>\<close>
  "applySync f v m =
     (case v of None \<Rightarrow> Inl NilPointer | Some a \<Rightarrow> Inr (m\<lparr>sobjects := (sobjects m)[a := f (sobjects m ! a)]\<rparr>))"

definition ensureDirty :: "('v \<Rightarrow> 'v) \<Rightarrow> nat \<Rightarrow> ('k, 'v) SyncMap \<Rightarrow> ('k, 'v) SyncMap or_fault" where
  \<comment> \<open>\<open>if !entry.dirty { entry.value = entry.value.Clone(); entry.dirty = true }\<close>\<close>
  "ensureDirty clone e m =
     (if s_dirty (sentries m ! e) then Inr m
      else case s_value (sentries m ! e) of
             None \<Rightarrow> Inl NilPointer
           | Some a \<Rightarrow>
               Inr (updateSync e (\<lambda>en. en\<lparr>s_value := Some (length (sobjects m)), s_dirty := True\<rparr>)
                     (m\<lparr>sobjects := sobjects m @ [clone (sobjects m ! a)]\<rparr>)))"

definition changeLocked :: "('v \<Rightarrow> 'v) \<Rightarrow> ('v \<Rightarrow> 'v) \<Rightarrow> nat set \<Rightarrow> nat \<Rightarrow> ('k, 'v) SyncMap \<Rightarrow> ('k, 'v) SyncMap or_fault" where
  "changeLocked clone f held e m =
     (if s_dirty (sentries m ! e) then applySync f (s_value (sentries m ! e)) m
      else case map_of (sm_dirty m) (s_key (sentries m ! e)) of
        None \<Rightarrow>
          bind_fault (ensureDirty clone e (m\<lparr>sm_dirty := AList.update (s_key (sentries m ! e)) e (sm_dirty m)\<rparr>))
            (\<lambda>m1. applySync f (s_value (sentries m1 ! e)) m1)
      | Some entry \<Rightarrow>
          bind_fault (lock entry held) (\<lambda>_.
          bind_fault (ensureDirty clone entry m) (\<lambda>m1.
            applySync f (s_value (sentries m1 ! entry))
              (updateSync e (\<lambda>en. en\<lparr>s_proxyFor := Some entry, s_value := s_value (sentries m1 ! entry), s_dirty := True,
                 s_delete := s_delete (sentries m1 ! entry)\<rparr>) m1))))"

definition SyncMapEntry_Change :: "('v \<Rightarrow> 'v) \<Rightarrow> ('v \<Rightarrow> 'v) \<Rightarrow> nat \<Rightarrow> ('k, 'v) SyncMap \<Rightarrow> ('k, 'v) SyncMap or_fault" where
  "SyncMapEntry_Change clone f e m = bind_fault (enter m {} e) (\<lambda>(e, held). changeLocked clone f held e m)"

definition SyncMapEntry_ChangeIf :: "('v \<Rightarrow> 'v) \<Rightarrow> ('v option \<Rightarrow> bool) \<Rightarrow> ('v \<Rightarrow> 'v) \<Rightarrow> nat \<Rightarrow> ('k, 'v) SyncMap
    \<Rightarrow> (bool \<times> ('k, 'v) SyncMap) or_fault" where
  \<comment> \<open>the condition sees \<open>e.value\<close>, also of a deleted entry\<close>
  "SyncMapEntry_ChangeIf clone cond f e m = bind_fault (enter m {} e) (\<lambda>(e, held).
     if cond (map_option ((!) (sobjects m)) (s_value (sentries m ! e)))
     then bind_fault (changeLocked clone f held e m) (\<lambda>m'. Inr (True, m'))
     else Inr (False, m))"

definition SyncMapEntry_Delete :: "nat \<Rightarrow> ('k, 'v) SyncMap \<Rightarrow> ('k, 'v) SyncMap or_fault" where
  "SyncMapEntry_Delete e m = bind_fault (enter m {} e) (\<lambda>(e, held).
     if s_dirty (sentries m ! e) then Inr (updateSync e (\<lambda>en. en\<lparr>s_delete := True\<rparr>) m)
     else case map_of (sm_dirty m) (s_key (sentries m ! e)) of
       Some entry \<Rightarrow> bind_fault (lock entry held) (\<lambda>_. Inr (updateSync e (\<lambda>en. en\<lparr>s_delete := True\<rparr>) m))
     | None \<Rightarrow>
         Inr (updateSync e (\<lambda>en. en\<lparr>s_delete := True\<rparr>) (m\<lparr>sm_dirty := AList.update (s_key (sentries m ! e)) e (sm_dirty m)\<rparr>)))"

definition deleteLocked :: "nat set \<Rightarrow> nat \<Rightarrow> ('k, 'v) SyncMap \<Rightarrow> ('k, 'v) SyncMap or_fault" where
  "deleteLocked held e m =
     (if s_dirty (sentries m ! e) then Inr (updateSync e (\<lambda>en. en\<lparr>s_delete := True\<rparr>) m)
      else case map_of (sm_dirty m) (s_key (sentries m ! e)) of
        Some entry \<Rightarrow>
          bind_fault (lock entry held) (\<lambda>_.
            Inr (updateSync entry (\<lambda>en. en\<lparr>s_delete := True\<rparr>)
                  (updateSync e (\<lambda>en. en\<lparr>s_proxyFor := Some entry, s_value := s_value (sentries m ! entry), s_delete := True,
                     s_dirty := s_dirty (sentries m ! entry)\<rparr>) m)))
      | None \<Rightarrow>
          Inr (updateSync e (\<lambda>en. en\<lparr>s_delete := True\<rparr>) (m\<lparr>sm_dirty := AList.update (s_key (sentries m ! e)) e (sm_dirty m)\<rparr>)))"

definition SyncMapEntry_DeleteIf :: "('v option \<Rightarrow> bool) \<Rightarrow> nat \<Rightarrow> ('k, 'v) SyncMap \<Rightarrow> ('k, 'v) SyncMap or_fault" where
  "SyncMapEntry_DeleteIf cond e m = bind_fault (enter m {} e) (\<lambda>(e, held).
     if cond (map_option ((!) (sobjects m)) (s_value (sentries m ! e))) then deleteLocked held e m else Inr m)"

text \<open>\<open>Locked\<close> runs a function on the entry with its lock held; that function works through the \<open>lockedEntry\<close>
  methods, which are \<open>valueLocked\<close>, \<open>changeLocked\<close> and \<open>deleteLocked\<close> on the locked entry.\<close>

definition SyncMapEntry_Locked :: "(nat set \<Rightarrow> nat \<Rightarrow> ('k, 'v) SyncMap \<Rightarrow> ('k, 'v) SyncMap or_fault) \<Rightarrow> nat
    \<Rightarrow> ('k, 'v) SyncMap \<Rightarrow> ('k, 'v) SyncMap or_fault" where
  "SyncMapEntry_Locked fn e m = bind_fault (enter m {} e) (\<lambda>(e, held). fn held e m)"

definition lockedEntry_ChangeIf :: "('v \<Rightarrow> 'v) \<Rightarrow> ('v option \<Rightarrow> bool) \<Rightarrow> ('v \<Rightarrow> 'v) \<Rightarrow> nat set \<Rightarrow> nat \<Rightarrow> ('k, 'v) SyncMap
    \<Rightarrow> (bool \<times> ('k, 'v) SyncMap) or_fault" where
  "lockedEntry_ChangeIf clone cond f held e m =
     (if cond (map_option ((!) (sobjects m)) (valueLocked e m))
      then bind_fault (changeLocked clone f held e m) (\<lambda>m'. Inr (True, m'))
      else Inr (False, m))"

section \<open>The map\<close>

definition baseEntry :: "'k \<Rightarrow> nat \<Rightarrow> 'k SyncMapEntry" where
  \<comment> \<open>the entry that \<open>Load\<close>, \<open>LoadOrStore\<close> and \<open>Range\<close> make for a value of the base map\<close>
  "baseEntry key v = \<lparr>s_key = key, s_original = Some v, s_value = Some v, s_dirty = False, s_delete = False, s_proxyFor = None\<rparr>"

definition newSyncEntry :: "'k SyncMapEntry \<Rightarrow> ('k, 'v) SyncMap \<Rightarrow> nat \<times> ('k, 'v) SyncMap" where
  "newSyncEntry en m = (length (sentries m), m\<lparr>sentries := sentries m @ [en]\<rparr>)"

definition SyncMap_Load :: "'k \<Rightarrow> ('k, 'v) SyncMap \<Rightarrow> nat option \<times> ('k, 'v) SyncMap" where
  \<comment> \<open>the entry, if there is one\<close>
  "SyncMap_Load key m =
     (case map_of (sm_dirty m) key of
        Some entry \<Rightarrow> (if s_delete (sentries m ! entry) then None else Some entry, m)
      | None \<Rightarrow>
          (case sm_base m key of
             Some val \<Rightarrow> (let (e, m') = newSyncEntry (baseEntry key val) m in (Some e, m'))
           | None \<Rightarrow> (None, m)))"

definition SyncMap_LoadOrStore :: "'k \<Rightarrow> nat \<Rightarrow> ('k, 'v) SyncMap \<Rightarrow> (nat option \<times> bool) \<times> ('k, 'v) SyncMap" where
  "SyncMap_LoadOrStore key val m =
     (case sm_base m key of
        Some baseValue \<Rightarrow>
          (case map_of (sm_dirty m) key of
             Some entry \<Rightarrow> (if s_delete (sentries m ! entry) then (None, False) else (Some entry, True), m)
           | None \<Rightarrow> (let (e, m') = newSyncEntry (baseEntry key baseValue) m in ((Some e, True), m')))
      | None \<Rightarrow>
          (case map_of (sm_dirty m) key of
             Some entry \<Rightarrow> (if s_delete (sentries m ! entry) then (None, False) else (Some entry, True), m)
           | None \<Rightarrow>
               let (e, m') = newSyncEntry \<lparr>s_key = key, s_original = None, s_value = Some val, s_dirty = True, s_delete = False,
                     s_proxyFor = None\<rparr> m
               in ((Some e, False), m'\<lparr>sm_dirty := AList.update key e (sm_dirty m')\<rparr>)))"

definition SyncMap_Delete :: "'k \<Rightarrow> ('k, 'v) SyncMap \<Rightarrow> ('k, 'v) SyncMap or_fault" where
  "SyncMap_Delete key m =
     (case map_of (sm_dirty m) key of
        Some entry \<Rightarrow> SyncMapEntry_Delete entry m
      | None \<Rightarrow>
          let (e, m') = newSyncEntry \<lparr>s_key = key, s_original = sm_base m key, s_value = None, s_dirty = False, s_delete = True,
                s_proxyFor = None\<rparr> m
          in Inr (m'\<lparr>sm_dirty := AList.update key e (sm_dirty m')\<rparr>))"

text \<open>\<open>Range\<close>, with the orders \<open>ds\<close> and \<open>bs\<close> in which the two maps are visited.\<close>

fun syncRangeDirty :: "(nat \<Rightarrow> ('k, 'v) SyncMap \<times> 's \<Rightarrow> bool \<times> ('k, 'v) SyncMap \<times> 's) \<Rightarrow> ('k \<times> nat) list \<Rightarrow> 'k set
    \<Rightarrow> ('k, 'v) SyncMap \<times> 's \<Rightarrow> 'k set \<times> ('k, 'v) SyncMap \<times> 's" where
  "syncRangeDirty fn [] seen st = (seen, st)"
| "syncRangeDirty fn ((key, e) # ds) seen st =
     (let seen' = insert key seen
      in if s_delete (sentries (fst st) ! e) then syncRangeDirty fn ds seen' st
         else case fn e st of (continue, st') \<Rightarrow> if continue then syncRangeDirty fn ds seen' st' else (seen', st'))"

fun syncRangeBase :: "(nat \<Rightarrow> ('k, 'v) SyncMap \<times> 's \<Rightarrow> bool \<times> ('k, 'v) SyncMap \<times> 's) \<Rightarrow> ('k \<times> nat) list \<Rightarrow> 'k set
    \<Rightarrow> ('k, 'v) SyncMap \<times> 's \<Rightarrow> ('k, 'v) SyncMap \<times> 's" where
  "syncRangeBase fn [] seen st = st"
| "syncRangeBase fn ((key, v) # bs) seen (m, s) =
     (if key \<in> seen then syncRangeBase fn bs seen (m, s)
      else
        let (e, m') = newSyncEntry (baseEntry key v) m
        in case fn e (m', s) of (continue, st') \<Rightarrow> if continue then syncRangeBase fn bs seen st' else st')"

definition SyncMap_Range :: "(nat \<Rightarrow> ('k, 'v) SyncMap \<times> 's \<Rightarrow> bool \<times> ('k, 'v) SyncMap \<times> 's) \<Rightarrow> ('k \<times> nat) list \<Rightarrow> ('k \<times> nat) list
    \<Rightarrow> ('k, 'v) SyncMap \<times> 's \<Rightarrow> ('k, 'v) SyncMap \<times> 's" where
  "SyncMap_Range fn ds bs st = (let (seen, st') = syncRangeDirty fn ds {} st in syncRangeBase fn bs seen st')"

section \<open>Finalize\<close>

text \<open>The hooks work on state of the caller; \<open>None\<close> is a hook that is not set.\<close>

record ('k, 's) FinalizationHooks =
  OnDelete :: "('k \<Rightarrow> nat option \<Rightarrow> 's \<Rightarrow> 's) option"
  OnChange :: "('k \<Rightarrow> nat option \<Rightarrow> nat option \<Rightarrow> 's \<Rightarrow> 's) option"
  OnAdd :: "('k \<Rightarrow> nat option \<Rightarrow> 's \<Rightarrow> 's) option"

definition finalizeEntry :: "('k, 's) FinalizationHooks \<Rightarrow> ('k, 'v) SyncMap \<Rightarrow> 'k \<times> nat \<Rightarrow> ('k \<Rightarrow> nat option) \<times> bool \<times> 's
    \<Rightarrow> ('k \<Rightarrow> nat option) \<times> bool \<times> 's" where
  \<comment> \<open>the function given to \<open>m.dirty.Range\<close>: the result, whether it was cloned, the state of the hooks\<close>
  "finalizeEntry hooks m = (\<lambda>(key, e) (result, changed, s).
     let en = sentries m ! e in
     if s_delete en then
       (result(key := None), True, case OnDelete hooks of Some h \<Rightarrow> h key (s_value en) s | None \<Rightarrow> s)
     else if s_dirty en then
       (result(key := s_value en), True,
        if sm_base m key \<noteq> None
        then (case OnChange hooks of Some h \<Rightarrow> h key (s_original en) (s_value en) s | None \<Rightarrow> s)
        else (case OnAdd hooks of Some h \<Rightarrow> h key (s_value en) s | None \<Rightarrow> s))
     else (result, changed, s))"

definition finalize :: "('k, 's) FinalizationHooks \<Rightarrow> ('k \<times> nat) list \<Rightarrow> ('k, 'v) SyncMap \<Rightarrow> 's \<Rightarrow> ('k \<Rightarrow> nat option) \<times> bool \<times> 's" where
  "finalize hooks ds m s = fold (finalizeEntry hooks m) ds (sm_base m, False, s)"

definition SyncMap_Finalize :: "('k \<times> nat) list \<Rightarrow> ('k, 'v) SyncMap \<Rightarrow> ('k \<Rightarrow> nat option) \<times> bool" where
  "SyncMap_Finalize ds m =
     (let (result, changed, _) = finalize \<lparr>OnDelete = None, OnChange = None, OnAdd = None\<rparr> ds m () in (result, changed))"

definition SyncMap_FinalizeWith :: "('k, 's) FinalizationHooks \<Rightarrow> ('k \<times> nat) list \<Rightarrow> ('k, 'v) SyncMap \<Rightarrow> 's
    \<Rightarrow> (('k \<Rightarrow> nat option) \<times> bool) \<times> 's" where
  "SyncMap_FinalizeWith hooks ds m s = (let (result, changed, s') = finalize hooks ds m s in ((result, changed), s'))"

end
