(* ===== verification/Dirty_Sync_Props.thy ===== *)
theory Dirty_Sync_Props
  imports Dirty_Sync
begin

text \<open>
  What \<open>dirty.SyncMap\<close> promises when goroutines hold several handles for one key: a change through any of
  them reaches the one object of the key. Then what its deletes do.
\<close>

section \<open>The abstract map and its clients\<close>

definition sContents :: "('k, 'v) SyncMap \<Rightarrow> 'k \<Rightarrow> 'v option" where
  "sContents m k = map_option ((!) (sobjects m))
     (case map_of (sm_dirty m) k of Some e \<Rightarrow> valueLocked e m | None \<Rightarrow> sm_base m k)"

text \<open>A client loads handles, keeps all of them, and changes values through handle number \<open>i\<close>. A value to store is a
  new object.\<close>

datatype ('k, 'v) syncOp = SLoad 'k | SLoadOrStore 'k 'v | SChange nat "'v \<Rightarrow> 'v"

fun syncRun :: "('v \<Rightarrow> 'v) \<Rightarrow> ('k, 'v) syncOp \<Rightarrow> ('k, 'v) SyncMap \<times> nat option list \<Rightarrow> (('k, 'v) SyncMap \<times> nat option list) or_fault" where
  "syncRun clone (SLoad k) (m, hs) = (case SyncMap_Load k m of (r, m') \<Rightarrow> Inr (m', hs @ [r]))"
| "syncRun clone (SLoadOrStore k v) (m, hs) =
     (case SyncMap_LoadOrStore k (length (sobjects m)) (m\<lparr>sobjects := sobjects m @ [v]\<rparr>) of ((r, _), m') \<Rightarrow> Inr (m', hs @ [r]))"
| "syncRun clone (SChange i f) (m, hs) =
     (case (if i < length hs then hs ! i else None) of
        None \<Rightarrow> Inl NilPointer
      | Some e \<Rightarrow> bind_fault (SyncMapEntry_Change clone f e m) (\<lambda>m'. Inr (m', hs)))"

text \<open>The abstract map also knows which keys have an object of their own, which is a clone or was stored: the first change of a key works on a
  clone of its value, whatever the clone method makes of it.\<close>

type_synonym ('k, 'v) syncSpec = "('k \<rightharpoonup> 'v) \<times> 'k set \<times> 'k option list"

fun syncAbs :: "('v \<Rightarrow> 'v) \<Rightarrow> ('k, 'v) syncOp \<Rightarrow> ('k, 'v) syncSpec \<Rightarrow> ('k, 'v) syncSpec option" where
  "syncAbs clone (SLoad k) (M, own, ks) = Some (M, own, ks @ [if M k = None then None else Some k])"
| "syncAbs clone (SLoadOrStore k v) (M, own, ks) =
     Some (if M k = None then M(k \<mapsto> v) else M, if M k = None then insert k own else own, ks @ [Some k])"
| "syncAbs clone (SChange i f) (M, own, ks) =
     (case (if i < length ks then ks ! i else None) of
        None \<Rightarrow> None
      | Some k \<Rightarrow> Some (M(k := map_option (\<lambda>x. f (if k \<in> own then x else clone x)) (M k)), insert k own, ks))"

fun syncRuns :: "('v \<Rightarrow> 'v) \<Rightarrow> ('k, 'v) syncOp list \<Rightarrow> ('k, 'v) SyncMap \<times> nat option list \<Rightarrow> (('k, 'v) SyncMap \<times> nat option list) or_fault" where
  "syncRuns clone [] st = Inr st"
| "syncRuns clone (c # cs) st = bind_fault (syncRun clone c st) (syncRuns clone cs)"

fun syncAbss :: "('v \<Rightarrow> 'v) \<Rightarrow> ('k, 'v) syncOp list \<Rightarrow> ('k, 'v) syncSpec \<Rightarrow> ('k, 'v) syncSpec option" where
  "syncAbss clone [] st = Some st"
| "syncAbss clone (c # cs) st = Option.bind (syncAbs clone c st) (syncAbss clone cs)"

section \<open>Invariant\<close>

text \<open>An entry is registered in the dirty map with an object of its own, or untouched with the object of the base map, or
  a proxy of the registered one.\<close>

definition registered :: "nat \<Rightarrow> ('k, 'v) SyncMap \<Rightarrow> nat \<Rightarrow> nat \<Rightarrow> bool" where
  "registered n m e a =
     (e < length (sentries m) \<and> map_of (sm_dirty m) (s_key (sentries m ! e)) = Some e \<and> s_dirty (sentries m ! e)
      \<and> \<not> s_delete (sentries m ! e) \<and> s_proxyFor (sentries m ! e) = None \<and> s_value (sentries m ! e) = Some a
      \<and> n \<le> a \<and> a < length (sobjects m))"

definition untouched :: "('k, 'v) SyncMap \<Rightarrow> nat \<Rightarrow> bool" where
  "untouched m e =
     (map_of (sm_dirty m) (s_key (sentries m ! e)) \<noteq> Some e \<and> \<not> s_dirty (sentries m ! e) \<and> \<not> s_delete (sentries m ! e)
      \<and> s_proxyFor (sentries m ! e) = None \<and> s_value (sentries m ! e) = sm_base m (s_key (sentries m ! e))
      \<and> s_value (sentries m ! e) \<noteq> None)"

definition proxy :: "('k, 'v) SyncMap \<Rightarrow> nat \<Rightarrow> bool" where
  "proxy m e = (\<exists>r. s_proxyFor (sentries m ! e) = Some r \<and> map_of (sm_dirty m) (s_key (sentries m ! e)) = Some r \<and> r \<noteq> e)"

definition syncOk :: "nat \<Rightarrow> ('k, 'v) SyncMap \<Rightarrow> bool" where
  "syncOk n m =
     (n \<le> length (sobjects m) \<and> distinct (map fst (sm_dirty m)) \<and> (\<forall>k v. sm_base m k = Some v \<longrightarrow> v < n)
      \<and> (\<forall>k e. map_of (sm_dirty m) k = Some e \<longrightarrow> s_key (sentries m ! e) = k \<and> (\<exists>a. registered n m e a))
      \<and> (\<forall>e < length (sentries m). (\<exists>a. registered n m e a) \<or> untouched m e \<or> proxy m e)
      \<and> (\<forall>e e' a. registered n m e a \<and> registered n m e' a \<longrightarrow> e = e'))"

lemma syncOkD:
  assumes "syncOk n m"
  shows "n \<le> length (sobjects m)" "distinct (map fst (sm_dirty m))" "sm_base m k = Some v \<Longrightarrow> v < n"
    "map_of (sm_dirty m) k = Some e \<Longrightarrow> s_key (sentries m ! e) = k \<and> (\<exists>a. registered n m e a)"
    "e < length (sentries m) \<Longrightarrow> (\<exists>a. registered n m e a) \<or> untouched m e \<or> proxy m e"
    "registered n m e a \<Longrightarrow> registered n m e' a \<Longrightarrow> e = e'"
  using assms unfolding syncOk_def by blast+

lemma sContents_registered: "registered n m e a \<Longrightarrow> sContents m (s_key (sentries m ! e)) = Some (sobjects m ! a)"
  by (simp add: registered_def sContents_def valueLocked_def)

text \<open>Changing the object of a registered entry changes the value of its key and nothing else.\<close>

lemma apply_registered:
  assumes ok: "syncOk n m" and r: "registered n m r a"
    and m'_def: "m' = m\<lparr>sobjects := (sobjects m)[a := f (sobjects m ! a)]\<rparr>"
  shows "syncOk n m'" "sContents m' = (sContents m)(s_key (sentries m ! r) \<mapsto> f (sobjects m ! a))"
    "take n (sobjects m') = take n (sobjects m)"
proof -
  have same: "registered n m' e b \<longleftrightarrow> registered n m e b" "untouched m' e \<longleftrightarrow> untouched m e" "proxy m' e \<longleftrightarrow> proxy m e" for e b
    by (simp_all add: m'_def registered_def untouched_def proxy_def)
  show "syncOk n m'" using ok unfolding syncOk_def same by (simp add: m'_def)
  show "take n (sobjects m') = take n (sobjects m)" using r by (simp add: m'_def registered_def)
  show "sContents m' = (sContents m)(s_key (sentries m ! r) \<mapsto> f (sobjects m ! a))"
  proof
    fix k
    show "sContents m' k = ((sContents m)(s_key (sentries m ! r) \<mapsto> f (sobjects m ! a))) k"
    proof (cases "map_of (sm_dirty m) k")
      case None
      then show ?thesis using r syncOkD(3) [OF ok, of k]
        by (cases "sm_base m k") (auto simp: sContents_def m'_def registered_def valueLocked_def)
    next
      case (Some e)
      then obtain b where e: "s_key (sentries m ! e) = k" "registered n m e b" using syncOkD(4) [OF ok] by blast
      show ?thesis
      proof (cases "e = r")
        case True
        then show ?thesis using e r Some by (auto simp: sContents_def m'_def valueLocked_def registered_def)
      next
        case False
        then have "b \<noteq> a" "k \<noteq> s_key (sentries m ! r)" using syncOkD(6) [OF ok] e r Some by (auto simp: registered_def)
        then show ?thesis using e Some by (simp add: sContents_def m'_def valueLocked_def registered_def)
      qed
    qed
  qed
qed

text \<open>A new object behind no entry, and a new untouched entry, leave everything as it is.\<close>

lemma new_object:
  assumes ok: "syncOk n m"
  shows "syncOk n (m\<lparr>sobjects := sobjects m @ [v]\<rparr>) \<and> sContents (m\<lparr>sobjects := sobjects m @ [v]\<rparr>) = sContents m"
proof
  let ?m = "m\<lparr>sobjects := sobjects m @ [v]\<rparr>"
  have reg: "registered n ?m e b \<longleftrightarrow> registered n m e b" for e b
    using syncOkD(4) [OF ok, of "s_key (sentries m ! e)" e] by (auto simp: registered_def)
  have same: "untouched ?m e \<longleftrightarrow> untouched m e" "proxy ?m e \<longleftrightarrow> proxy m e" for e
    by (simp_all add: untouched_def proxy_def)
  show "syncOk n ?m" using ok unfolding syncOk_def reg same by simp
  show "sContents ?m = sContents m"
  proof
    fix k
    show "sContents ?m k = sContents m k"
    proof (cases "map_of (sm_dirty m) k")
      case None
      then show ?thesis using syncOkD(1) [OF ok] syncOkD(3) [OF ok, of k] by (cases "sm_base m k") (auto simp: sContents_def nth_append)
    next
      case (Some e)
      then show ?thesis using syncOkD(4) [OF ok Some] by (auto simp: sContents_def valueLocked_def registered_def nth_append)
    qed
  qed
qed

lemma new_untouched:
  assumes ok: "syncOk n m" and base: "sm_base m k = Some v"
    and m': "m' = m\<lparr>sentries := sentries m @ [baseEntry k v]\<rparr>"
  shows "syncOk n m' \<and> sContents m' = sContents m"
proof
  have len: "map_of (sm_dirty m) j = Some e \<Longrightarrow> e < length (sentries m)" for j e using syncOkD(4) [OF ok] by (auto simp: registered_def)
  have old: "sentries m' ! e = sentries m ! e" if "e < length (sentries m)" for e using that m' by (simp add: nth_append)
  have reg: "registered n m' e a \<longleftrightarrow> registered n m e a" for e a
    using len by (cases "e < length (sentries m)") (auto simp: registered_def m' nth_append)
  have new: "untouched m' (length (sentries m))" using base len by (auto simp: untouched_def m' baseEntry_def)
  have same: "untouched m' e \<longleftrightarrow> untouched m e" "proxy m' e \<longleftrightarrow> proxy m e" if "e < length (sentries m)" for e
    using that old by (simp_all add: untouched_def proxy_def m')
  show "syncOk n m'"
    unfolding syncOk_def
  proof (intro conjI allI impI)
    fix e
    assume "e < length (sentries m')"
    then show "(\<exists>a. registered n m' e a) \<or> untouched m' e \<or> proxy m' e"
      using new same [of e] syncOkD(5) [OF ok, of e] reg by (cases "e < length (sentries m)") (auto simp: m' less_Suc_eq)
  next
    fix j e
    assume "map_of (sm_dirty m') j = Some e"
    then show "s_key (sentries m' ! e) = j" "\<exists>a. registered n m' e a" using syncOkD(4) [OF ok, of j e] len old reg by (auto simp: m')
  qed (use syncOkD(1-3,6) [OF ok] reg in \<open>auto simp: m'\<close>)
  show "sContents m' = sContents m"
    using len by (auto simp: sContents_def m' valueLocked_def fun_eq_iff nth_append split: option.splits)
qed

text \<open>Registering an entry for a key that the dirty map does not have yet.\<close>

lemma register_entry:
  assumes ok: "syncOk n m" and k: "map_of (sm_dirty m) k = None"
    and e: "e < length es'" "es' ! e = \<lparr>s_key = k, s_original = orig, s_value = Some (length (sobjects m)), s_dirty = True,
      s_delete = False, s_proxyFor = None\<rparr>"
    and es: "\<And>e'. e' < length es' \<Longrightarrow> e' \<noteq> e \<Longrightarrow> e' < length (sentries m) \<and> es' ! e' = sentries m ! e'"
    and len: "length (sentries m) \<le> length es'" and e_old: "\<And>j. map_of (sm_dirty m) j \<noteq> Some e"
    and m': "m' = m\<lparr>sobjects := sobjects m @ [v], sentries := es', sm_dirty := AList.update k e (sm_dirty m)\<rparr>"
  shows "syncOk n m' \<and> sContents m' = (sContents m)(k \<mapsto> v) \<and> registered n m' e (length (sobjects m))"
proof -
  have n: "n \<le> length (sobjects m)" by (rule syncOkD(1) [OF ok])
  have dirty: "map_of (sm_dirty m') = (map_of (sm_dirty m))(k \<mapsto> e)" using m' by (simp add: update_conv')
  have old: "i \<noteq> k \<and> e' \<noteq> e \<and> es' ! e' = sentries m ! e' \<and> s_key (sentries m ! e') = i \<and> (\<exists>a. registered n m e' a)"
    if i: "map_of (sm_dirty m) i = Some e'" for i e'
  proof -
    note r = syncOkD(4) [OF ok i]
    have "e' < length es'" using r len by (auto simp: registered_def)
    then show ?thesis using r i k e_old [of i] es [of e'] by auto
  qed
  have new: "registered n m' e (length (sobjects m))" using e n dirty by (simp add: registered_def m')
  have reg: "registered n m' e' a \<longleftrightarrow> registered n m e' a" if "e' \<noteq> e" for e' a
  proof
    assume r: "registered n m' e' a"
    then have "e' < length es'" by (simp add: registered_def m')
    then have e': "es' ! e' = sentries m ! e'" using es that by blast
    then have "map_of (sm_dirty m) (s_key (sentries m ! e')) = Some e'"
      using r that dirty by (auto simp: registered_def m' split: if_splits)
    then obtain b where "registered n m e' b" using old by blast
    then show "registered n m e' a" using r e' by (simp add: registered_def m')
  next
    assume r: "registered n m e' a"
    then have "map_of (sm_dirty m) (s_key (sentries m ! e')) = Some e'" by (simp add: registered_def)
    then show "registered n m' e' a" using r old [of "s_key (sentries m ! e')" e'] len dirty by (auto simp: registered_def m')
  qed
  have "syncOk n m'"
    unfolding syncOk_def
  proof (intro conjI allI impI)
    fix e'
    assume "e' < length (sentries m')"
    then have "e' \<noteq> e \<Longrightarrow> e' < length (sentries m) \<and> es' ! e' = sentries m ! e'" using es by (simp add: m')
    then show "(\<exists>a. registered n m' e' a) \<or> untouched m' e' \<or> proxy m' e'"
      using new reg [of e'] syncOkD(5) [OF ok, of e'] k dirty
      by (cases "e' = e") (auto simp: untouched_def proxy_def m')
  next
    fix j e'
    assume "map_of (sm_dirty m') j = Some e'"
    then show "s_key (sentries m' ! e') = j" "\<exists>a. registered n m' e' a"
      using old [of j e'] reg [of e'] new e dirty by (auto simp: m' split: if_splits)
  next
    fix e1 e2 a
    assume "registered n m' e1 a \<and> registered n m' e2 a"
    moreover have "registered n m' e a \<Longrightarrow> \<not> registered n m i a" for i using e by (auto simp: registered_def m')
    ultimately show "e1 = e2" using reg [of e1 a] reg [of e2 a] syncOkD(6) [OF ok, of e1 a e2] by blast
  qed (use syncOkD(1-3) [OF ok] in \<open>auto simp: m' distinct_update\<close>)
  moreover have "sContents m' i = ((sContents m)(k \<mapsto> v)) i" for i
  proof (cases "map_of (sm_dirty m) i")
    case None
    then show ?thesis using e n dirty syncOkD(3) [OF ok, of i]
      by (cases "sm_base m i") (auto simp: sContents_def m' valueLocked_def nth_append)
  next
    case (Some e')
    then show ?thesis using old [OF Some] dirty by (auto simp: sContents_def m' valueLocked_def registered_def nth_append)
  qed
  ultimately show ?thesis using new by (simp add: fun_eq_iff)
qed

text \<open>An untouched entry whose key was registered by another becomes the proxy of that one.\<close>

lemma become_proxy:
  assumes ok: "syncOk n m" and e: "e < length (sentries m)" "untouched m e"
    and r: "map_of (sm_dirty m) (s_key (sentries m ! e)) = Some r"
    and m': "m' = updateSync e (\<lambda>en. en\<lparr>s_proxyFor := Some r, s_value := v, s_dirty := d, s_delete := x\<rparr>) m"
  shows "syncOk n m' \<and> sContents m' = sContents m \<and> (registered n m' r a \<longleftrightarrow> registered n m r a)"
proof -
  have ne: "e \<noteq> r" using e r by (auto simp: untouched_def)
  have keys: "s_key (sentries m' ! i) = s_key (sentries m ! i)" for i
    using e(1) by (cases "i = e") (simp_all add: m' updateSync_def)
  have other: "sentries m' ! i = sentries m ! i" if "i \<noteq> e" for i using that by (simp add: m' updateSync_def)
  have reg: "registered n m' i a \<longleftrightarrow> registered n m i a" for i a
    using e other by (cases "i = e") (auto simp: registered_def untouched_def m' updateSync_def)
  have same: "untouched m' i \<longleftrightarrow> untouched m i" "proxy m' i \<longleftrightarrow> proxy m i" if "i \<noteq> e" for i
    using that by (simp_all add: untouched_def proxy_def m' updateSync_def)
  have new: "proxy m' e" using r ne e(1) by (auto simp: proxy_def m' updateSync_def)
  have "syncOk n m'"
    unfolding syncOk_def
  proof (intro conjI allI impI)
    fix i
    assume "i < length (sentries m')"
    then show "(\<exists>a. registered n m' i a) \<or> untouched m' i \<or> proxy m' i"
      using syncOkD(5) [OF ok, of i] reg same [of i] new by (cases "i = e") (auto simp: m' updateSync_def)
  next
    fix j i
    assume "map_of (sm_dirty m') j = Some i"
    then show "s_key (sentries m' ! i) = j" "\<exists>a. registered n m' i a"
      using syncOkD(4) [OF ok, of j i] keys reg by (auto simp: m' updateSync_def)
  qed (use syncOkD(1-3,6) [OF ok] reg in \<open>auto simp: m' updateSync_def\<close>)
  moreover have "sContents m' j = sContents m j" for j
  proof (cases "map_of (sm_dirty m) j")
    case (Some i)
    then have "i \<noteq> e" using syncOkD(4) [OF ok Some] e by (auto simp: untouched_def)
    then show ?thesis using Some by (simp add: sContents_def valueLocked_def m' updateSync_def)
  qed (simp add: sContents_def m' updateSync_def)
  ultimately show ?thesis using reg by (simp add: fun_eq_iff)
qed

section \<open>Change through a handle\<close>

lemma enter_self: "e < length (sentries m) \<Longrightarrow> s_proxyFor (sentries m ! e) = None \<Longrightarrow> enter m {} e = Inr (e, {e})"
  by (simp add: enter.simps [of m "{}" e])

lemma enter_proxy:
  "e < length (sentries m) \<Longrightarrow> s_proxyFor (sentries m ! e) = Some r \<Longrightarrow> r \<noteq> e \<Longrightarrow> registered n m r a \<Longrightarrow> enter m {} e = Inr (r, {r, e})"
  by (simp add: enter.simps [of m "{}" e] enter.simps [of m "{e}" r] registered_def)

abbreviation owned :: "('k, 'v) SyncMap \<Rightarrow> 'k set" where
  "owned m \<equiv> dom (map_of (sm_dirty m))"

definition changed_at :: "nat \<Rightarrow> 'k \<Rightarrow> ('v \<Rightarrow> 'v) \<Rightarrow> ('v \<Rightarrow> 'v) \<Rightarrow> ('k, 'v) SyncMap \<Rightarrow> ('k, 'v) SyncMap \<Rightarrow> bool" where
  "changed_at n k clone f m m' =
     (syncOk n m' \<and> sContents m' = (sContents m)(k := map_option (\<lambda>x. f (if k \<in> owned m then x else clone x)) (sContents m k))
      \<and> owned m' = insert k (owned m) \<and> take n (sobjects m') = take n (sobjects m)
      \<and> sm_base m' = sm_base m \<and> map s_key (sentries m') = map s_key (sentries m))"

lemma change_registered:
  assumes ok: "syncOk n m" and r: "registered n m r a"
  shows "\<exists>m'. changeLocked clone f held r m = Inr m' \<and> changed_at n (s_key (sentries m ! r)) clone f m m'"
proof -
  have "s_key (sentries m ! r) \<in> owned m" using r by (auto simp: registered_def)
  then show ?thesis
    using apply_registered [OF ok r refl, of f] sContents_registered [OF r] r
    by (auto simp: changeLocked_def applySync_def registered_def changed_at_def)
qed

lemma change_untouched:
  assumes ok: "syncOk n m" and e: "e < length (sentries m)" "untouched m e"
  shows "\<exists>m'. changeLocked clone f {e} e m = Inr m' \<and> changed_at n (s_key (sentries m ! e)) clone f m m'"
proof (cases "map_of (sm_dirty m) (s_key (sentries m ! e))")
  case None
  let ?k = "s_key (sentries m ! e)" and ?a = "length (sobjects m)"
  obtain v where v: "s_value (sentries m ! e) = Some v" "sm_base m ?k = Some v" using e by (cases "sm_base m ?k") (auto simp: untouched_def)
  let ?m = "m\<lparr>sobjects := sobjects m @ [f (clone (sobjects m ! v))],
    sentries := (sentries m)[e := (sentries m ! e)\<lparr>s_value := Some ?a, s_dirty := True\<rparr>], sm_dirty := AList.update ?k e (sm_dirty m)\<rparr>"
  have run: "changeLocked clone f {e} e m = Inr ?m"
    using None e v by (simp add: changeLocked_def untouched_def bind_fault_def ensureDirty_def updateSync_def applySync_def)
  have "map_of (sm_dirty m) j \<noteq> Some e" for j using syncOkD(4) [OF ok, of j e] None by auto
  then have "syncOk n ?m \<and> sContents ?m = (sContents m)(?k \<mapsto> f (clone (sobjects m ! v))) \<and> registered n ?m e ?a"
    by (intro register_entry [OF ok None, where orig = "s_original (sentries m ! e)"]) (use e in \<open>auto simp: untouched_def\<close>)
  moreover have "sContents m ?k = Some (sobjects m ! v)" using None v by (simp add: sContents_def)
  moreover have "map s_key (sentries ?m) = map s_key (sentries m)" using e(1) by (simp add: map_update list_update_same_conv)
  moreover have "?k \<notin> owned m" "owned ?m = insert ?k (owned m)" using None by (auto simp: update_conv')
  ultimately show ?thesis using run syncOkD(1) [OF ok] by (simp add: changed_at_def)
next
  case (Some r)
  then obtain a where r: "registered n m r a" "s_key (sentries m ! r) = s_key (sentries m ! e)" "r \<noteq> e"
    using syncOkD(4) [OF ok Some] e by (auto simp: untouched_def)
  let ?m1 = "updateSync e (\<lambda>en. en\<lparr>s_proxyFor := Some r, s_value := s_value (sentries m ! r), s_dirty := True, s_delete := s_delete (sentries m ! r)\<rparr>) m"
  note p = become_proxy [OF ok e Some refl, where v = "s_value (sentries m ! r)" and d = True and x = "s_delete (sentries m ! r)"]
  have r1: "registered n ?m1 r a" using p r(1) by blast
  have "changeLocked clone f {e} e m = applySync f (s_value (sentries m ! r)) ?m1"
    using Some e r by (simp add: changeLocked_def untouched_def lock_def bind_fault_def ensureDirty_def registered_def)
  also have "\<dots> = changeLocked clone f {r} r ?m1" using r r1 by (simp add: changeLocked_def registered_def)
  finally have run: "changeLocked clone f {e} e m = changeLocked clone f {r} r ?m1" .
  have "s_key (sentries ?m1 ! r) = s_key (sentries m ! e)" "sobjects ?m1 = sobjects m" "sm_base ?m1 = sm_base m" "sm_dirty ?m1 = sm_dirty m"
    "map s_key (sentries ?m1) = map s_key (sentries m)"
    using r(2,3) e(1) by (simp_all add: updateSync_def map_update list_update_same_conv)
  then show ?thesis using change_registered [OF _ r1, of clone f "{r}"] p run by (simp add: changed_at_def)
qed

lemma Change_refines:
  assumes ok: "syncOk n m" and e: "e < length (sentries m)"
  shows "\<exists>m'. SyncMapEntry_Change clone f e m = Inr m' \<and> changed_at n (s_key (sentries m ! e)) clone f m m'"
proof -
  consider (Registered) a where "registered n m e a" | (Untouched) "untouched m e" | (Proxy) "proxy m e" using syncOkD(5) [OF ok e] by blast
  then show ?thesis
  proof cases
    case (Registered a)
    then show ?thesis using change_registered [OF ok Registered, of clone f "{e}"] enter_self [OF e]
      by (simp add: SyncMapEntry_Change_def bind_fault_def registered_def)
  next
    case Untouched
    then show ?thesis using change_untouched [OF ok e Untouched, of clone f] enter_self [OF e]
      by (simp add: SyncMapEntry_Change_def bind_fault_def untouched_def)
  next
    case Proxy
    then obtain r a where r: "s_proxyFor (sentries m ! e) = Some r" "r \<noteq> e" "registered n m r a" "s_key (sentries m ! r) = s_key (sentries m ! e)"
      using syncOkD(4) [OF ok] unfolding proxy_def by metis
    then show ?thesis using change_registered [OF ok r(3), of clone f "{r, e}"] enter_proxy [OF e r(1,2,3)]
      by (simp add: SyncMapEntry_Change_def bind_fault_def)
  qed
qed

section \<open>Runs\<close>

text \<open>The handles of a run and the keys of the abstract run.\<close>

definition handlesOk :: "('k, 'v) SyncMap \<Rightarrow> nat option list \<Rightarrow> 'k option list \<Rightarrow> bool" where
  "handlesOk m hs ks = list_all2 (\<lambda>h k. case h of None \<Rightarrow> k = None
     | Some e \<Rightarrow> e < length (sentries m) \<and> k = Some (s_key (sentries m ! e))) hs ks"

lemma handlesOk_mono:
  assumes "handlesOk m hs ks" "map s_key (sentries m) = take (length (sentries m)) (map s_key (sentries m'))"
  shows "handlesOk m' hs ks"
proof -
  have len: "length (sentries m) \<le> length (sentries m')" using arg_cong [OF assms(2), of length] by simp
  have "s_key (sentries m' ! e) = s_key (sentries m ! e)" if "e < length (sentries m)" for e
    using arg_cong [OF assms(2), of "\<lambda>xs. xs ! e"] that len by simp
  then show ?thesis using assms(1) len unfolding handlesOk_def
    by (elim list_all2_mono) (auto split: option.splits)
qed

lemma handlesOk_snoc:
  "handlesOk m hs ks \<Longrightarrow> handlesOk m (hs @ [None]) (ks @ [None])"
  "handlesOk m hs ks \<Longrightarrow> e < length (sentries m) \<Longrightarrow> s_key (sentries m ! e) = k \<Longrightarrow> handlesOk m (hs @ [Some e]) (ks @ [Some k])"
  by (auto simp: handlesOk_def intro: list_all2_appendI)

definition related :: "nat \<Rightarrow> ('k, 'v) SyncMap \<times> nat option list \<Rightarrow> ('k, 'v) syncSpec \<Rightarrow> bool" where
  "related n = (\<lambda>(m, hs) (M, own, ks). syncOk n m \<and> sContents m = M \<and> owned m = own \<and> handlesOk m hs ks)"

definition kept :: "nat \<Rightarrow> ('k, 'v) SyncMap \<Rightarrow> ('k, 'v) SyncMap \<Rightarrow> bool" where
  "kept n m m' = (take n (sobjects m') = take n (sobjects m) \<and> sm_base m' = sm_base m)"

lemma no_deleted: "syncOk n m \<Longrightarrow> map_of (sm_dirty m) k = Some e \<Longrightarrow> \<not> s_delete (sentries m ! e) \<and> e < length (sentries m)
    \<and> s_key (sentries m ! e) = k \<and> sContents m k \<noteq> None"
  using syncOkD(4) [of n m k e] by (auto simp: registered_def sContents_def valueLocked_def)

lemma loaded_base:
  assumes "syncOk n m" "sm_base m k = Some v" "handlesOk m hs ks" "map_of (sm_dirty m) k = None"
    and m': "m' = m\<lparr>sentries := sentries m @ [baseEntry k v]\<rparr>"
  shows "related n (m', hs @ [Some (length (sentries m))]) (sContents m, owned m, ks @ [Some k]) \<and> kept n m m' \<and> sContents m k \<noteq> None"
proof -
  have "handlesOk m' hs ks" using assms(3) by (rule handlesOk_mono) (simp add: m')
  then show ?thesis using new_untouched [OF assms(1,2) m'] assms(2,4)
    by (auto simp: related_def kept_def m' baseEntry_def sContents_def intro: handlesOk_snoc)
qed

lemma Load_refines:
  assumes ok: "syncOk n m" and hs: "handlesOk m hs ks" and run: "SyncMap_Load k m = (r, m')"
  shows "related n (m', hs @ [r]) (sContents m, owned m, ks @ [if sContents m k = None then None else Some k]) \<and> kept n m m'"
proof (cases "map_of (sm_dirty m) k")
  case (Some e)
  have "r = Some e \<and> m' = m" using no_deleted [OF ok Some] Some run by (simp add: SyncMap_Load_def)
  then show ?thesis using no_deleted [OF ok Some] ok hs by (auto simp: related_def kept_def intro: handlesOk_snoc)
next
  case None
  show ?thesis
  proof (cases "sm_base m k")
    case v: None
    then show ?thesis using None ok hs run
      by (auto simp: SyncMap_Load_def related_def kept_def sContents_def intro: handlesOk_snoc)
  next
    case (Some v)
    then show ?thesis using loaded_base [OF ok Some hs None refl] run None by (auto simp: SyncMap_Load_def newSyncEntry_def)
  qed
qed

lemma LoadOrStore_refines:
  assumes ok: "syncOk n m" and hs: "handlesOk m hs ks"
    and run: "SyncMap_LoadOrStore k (length (sobjects m)) (m\<lparr>sobjects := sobjects m @ [v]\<rparr>) = ((r, l), m')"
  shows "related n (m', hs @ [r]) (if sContents m k = None then (sContents m)(k \<mapsto> v) else sContents m,
    if sContents m k = None then insert k (owned m) else owned m, ks @ [Some k]) \<and> kept n m m'"
proof -
  let ?m = "m\<lparr>sobjects := sobjects m @ [v]\<rparr>"
  have ok': "syncOk n ?m" and same: "sContents ?m = sContents m" using new_object [OF ok] by auto
  have hs': "handlesOk ?m hs ks" using hs by (rule handlesOk_mono) simp
  have n: "n \<le> length (sobjects m)" by (rule syncOkD(1) [OF ok])
  show ?thesis
  proof (cases "map_of (sm_dirty m) k")
    case (Some e)
    note e = no_deleted [OF ok Some]
    have "r = Some e \<and> m' = ?m" using Some e run by (cases "sm_base m k") (simp_all add: SyncMap_LoadOrStore_def)
    then show ?thesis using e ok' same hs' n by (auto simp: related_def kept_def intro: handlesOk_snoc)
  next
    case None
    show ?thesis
    proof (cases "sm_base m k")
      case (Some b)
      have "related n (?m\<lparr>sentries := sentries ?m @ [baseEntry k b]\<rparr>, hs @ [Some (length (sentries ?m))]) (sContents ?m, owned ?m, ks @ [Some k])
          \<and> kept n ?m (?m\<lparr>sentries := sentries ?m @ [baseEntry k b]\<rparr>) \<and> sContents ?m k \<noteq> None"
        by (rule loaded_base [OF ok' _ hs' _ refl]) (simp_all add: Some None)
      then show ?thesis using run Some None same n by (auto simp: SyncMap_LoadOrStore_def newSyncEntry_def kept_def)
    next
      case base: None
      let ?L = "length (sentries m)"
      let ?en = "\<lparr>s_key = k, s_original = None, s_value = Some (length (sobjects m)), s_dirty = True, s_delete = False, s_proxyFor = None\<rparr>"
      have r: "r = Some ?L" and m': "m' = m\<lparr>sobjects := sobjects m @ [v], sentries := sentries m @ [?en], sm_dirty := AList.update k ?L (sm_dirty m)\<rparr>"
        using run base None by (simp_all add: SyncMap_LoadOrStore_def newSyncEntry_def)
      have "map_of (sm_dirty m) j \<noteq> Some ?L" for j using no_deleted [OF ok, of j ?L] by auto
      then have "syncOk n m' \<and> sContents m' = (sContents m)(k \<mapsto> v) \<and> registered n m' ?L (length (sobjects m))"
        by (intro register_entry [OF ok None, where es' = "sentries m @ [?en]" and orig = None]) (auto simp: nth_append m')
      moreover have "sContents m k = None" using None base by (simp add: sContents_def)
      moreover have "owned m' = insert k (owned m)" by (simp add: m' update_conv')
      moreover have "handlesOk m' hs ks" using hs by (rule handlesOk_mono) (simp add: m')
      ultimately show ?thesis using r n by (auto simp: related_def kept_def m' intro!: handlesOk_snoc(2))
    qed
  qed
qed

lemma syncRun_refines:
  assumes rel: "related n (m, hs) (M, own, ks)"
  shows "case syncAbs clone c (M, own, ks) of
      None \<Rightarrow> syncRun clone c (m, hs) = Inl NilPointer
    | Some st' \<Rightarrow> \<exists>m' hs'. syncRun clone c (m, hs) = Inr (m', hs') \<and> related n (m', hs') st' \<and> kept n m m'"
proof -
  have ok: "syncOk n m" and M: "sContents m = M" "owned m = own" and hs: "handlesOk m hs ks" using rel by (auto simp: related_def)
  show ?thesis
  proof (cases c)
    case (SLoad k)
    then show ?thesis using Load_refines [OF ok hs, of k] M by (auto split: prod.splits)
  next
    case (SLoadOrStore k v)
    then show ?thesis using LoadOrStore_refines [OF ok hs, of k v] M by (auto split: prod.splits)
  next
    case (SChange i f)
    have len: "length hs = length ks" using hs by (simp add: handlesOk_def list_all2_lengthD)
    show ?thesis
    proof (cases "i < length hs \<and> hs ! i \<noteq> None")
      case False
      then have "\<not> (i < length ks \<and> ks ! i \<noteq> None)" using hs len by (auto simp: handlesOk_def list_all2_conv_all_nth)
      then show ?thesis using False SChange by auto
    next
      case True
      then obtain e where e: "hs ! i = Some e" "i < length ks" using len by auto
      then have k: "e < length (sentries m)" "ks ! i = Some (s_key (sentries m ! e))"
        using hs len by (auto simp: handlesOk_def list_all2_conv_all_nth)
      then obtain m' where m': "SyncMapEntry_Change clone f e m = Inr m'" "changed_at n (s_key (sentries m ! e)) clone f m m'"
        using Change_refines [OF ok k(1), of clone f] by blast
      then have keys: "map s_key (sentries m') = map s_key (sentries m)" by (simp add: changed_at_def)
      have "handlesOk m' hs ks" using hs by (rule handlesOk_mono) (metis keys length_map order_refl take_all)
      then show ?thesis using m' M e k True SChange by (auto simp: bind_fault_def changed_at_def related_def kept_def)
    qed
  qed
qed

lemma syncRuns_refines:
  assumes "related n (m, hs) (M, own, ks)"
  shows "case syncAbss clone cs (M, own, ks) of
      None \<Rightarrow> syncRuns clone cs (m, hs) = Inl NilPointer
    | Some st' \<Rightarrow> \<exists>m' hs'. syncRuns clone cs (m, hs) = Inr (m', hs') \<and> related n (m', hs') st' \<and> kept n m m'"
  using assms(1)
proof (induction cs arbitrary: m hs M own ks)
  case (Cons c cs)
  note step = syncRun_refines [OF Cons.prems, of clone c]
  show ?case
  proof (cases "syncAbs clone c (M, own, ks)")
    case None
    then show ?thesis using step by (simp add: bind_fault_def)
  next
    case (Some st)
    obtain M' own' ks' where st: "st = (M', own', ks')" by (cases st)
    obtain m' hs' where m': "syncRun clone c (m, hs) = Inr (m', hs')" "related n (m', hs') (M', own', ks')" "kept n m m'"
      using step Some st by auto
    show ?thesis using Cons.IH [OF m'(2)] m'(1,3) Some st by (auto simp: bind_fault_def kept_def split: option.splits)
  qed
qed (simp add: kept_def)

lemma new_related:
  "(\<And>k v. base k = Some v \<Longrightarrow> v < length objs) \<Longrightarrow> related (length objs) (NewSyncMap objs base, []) (\<lambda>k. map_option ((!) objs) (base k), {}, [])"
  by (auto simp: related_def handlesOk_def syncOk_def NewSyncMap_def registered_def sContents_def fun_eq_iff)

lemma run_related:
  assumes "\<And>k v. base k = Some v \<Longrightarrow> v < length objs" "syncRuns clone cs (NewSyncMap objs base, []) = Inr (m, hs)"
  obtains M own ks where "related (length objs) (m, hs) (M, own, ks)"
proof -
  have "related (length objs) (NewSyncMap objs base, []) (\<lambda>k. map_option ((!) objs) (base k), {}, [])" using assms(1) by (rule new_related)
  from syncRuns_refines [OF this, of clone cs] show thesis using assms(2) that by (auto split: option.splits)
qed

section \<open>Finalize\<close>

lemma finalize_fold:
  "distinct (map fst ds) \<Longrightarrow> fst (fold (finalizeEntry hooks m) ds (r, c, s)) k =
     (case map_of ds k of
        Some e \<Rightarrow> if s_delete (sentries m ! e) then None else if s_dirty (sentries m ! e) then s_value (sentries m ! e) else r k
      | None \<Rightarrow> r k)"
proof (induction ds arbitrary: r c s)
  case (Cons d ds)
  obtain j e where d: "d = (j, e)" by (cases d)
  obtain r' c' s' where step: "finalizeEntry hooks m d (r, c, s) = (r', c', s')" by (metis prod_cases3)
  have r': "r' = (if s_delete (sentries m ! e) then r(j := None) else if s_dirty (sentries m ! e) then r(j := s_value (sentries m ! e)) else r)"
    using step d by (auto simp: finalizeEntry_def Let_def)
  have "map_of ds k = None" if "j = k" using Cons.prems that d by (auto simp: map_of_eq_None_iff)
  then show ?case using Cons step r' d by (cases "j = k") (auto split: option.splits)
qed simp

lemma finalize_unchanged:
  "\<not> fst (snd (fold (finalizeEntry hooks m) ds (r, c, s))) \<Longrightarrow> fst (fold (finalizeEntry hooks m) ds (r, c, s)) = r \<and> \<not> c"
proof (induction ds arbitrary: r c s)
  case (Cons d ds)
  obtain r' c' s' where step: "finalizeEntry hooks m d (r, c, s) = (r', c', s')" by (metis prod_cases3)
  then have "\<not> fst (snd (fold (finalizeEntry hooks m) ds (r', c', s')))" using Cons.prems by simp
  then have "fst (fold (finalizeEntry hooks m) ds (r', c', s')) = r' \<and> \<not> c'" by (rule Cons.IH)
  moreover have "c' \<or> r' = r \<and> c' = c" using step by (auto simp: finalizeEntry_def Let_def split: prod.splits if_splits)
  ultimately show ?case using step by auto
qed simp

text \<open>C5. \<open>dirty.SyncMap\<close> refines a map of values for every client that loads handles at any time, keeps several of
  them for one key, stores new keys and changes values through any handle it has, as long as the calls do not overlap and nothing is deleted. No call
  blocks, and the only fault is the use of a handle that was not found. A change through any handle, also one loaded before another handle
  of the key was changed, is applied to the value of the key, exactly once: the first time to the clone of the value, whatever the clone
  method leaves out or resets, and later to that same object. The objects of the previous
  snapshot stay as they were; and \<open>FinalizeWith\<close>, with any hooks and in any order of the dirty
  map, gives a map with these values, or the base map itself when it reports no change.\<close>

theorem sync_map_runs:
  fixes base :: "'k \<Rightarrow> nat option"
  assumes "\<And>k v. base k = Some v \<Longrightarrow> v < length objs"
  shows "case syncAbss clone cs (\<lambda>k. map_option ((!) objs) (base k), {}, []) of
      None \<Rightarrow> syncRuns clone cs (NewSyncMap objs base, []) = Inl NilPointer
    | Some (M, _) \<Rightarrow> \<exists>m hs. syncRuns clone cs (NewSyncMap objs base, []) = Inr (m, hs)
        \<and> take (length objs) (sobjects m) = objs
        \<and> (\<forall>ds (hooks :: ('k, 's) FinalizationHooks) s r changed s'. distinct ds \<and> set ds = set (sm_dirty m) \<and> SyncMap_FinalizeWith hooks ds m s = ((r, changed), s') \<longrightarrow>
             (\<lambda>k. map_option ((!) (sobjects m)) (r k)) = M \<and> (\<not> changed \<longrightarrow> r = base))"
proof -
  let ?m = "NewSyncMap objs base" and ?M = "\<lambda>k. map_option ((!) objs) (base k)"
  have rel: "related (length objs) (?m, []) (?M, {}, [])"
    using assms by (rule new_related)
  show ?thesis
  proof (cases "syncAbss clone cs (?M, {}, [])")
    case None
    then show ?thesis using syncRuns_refines [OF rel, of clone cs] by simp
  next
    case (Some st)
    obtain M own ks where st: "st = (M, own, ks)" by (cases st)
    then obtain m hs where m: "syncRuns clone cs (?m, []) = Inr (m, hs)" "related (length objs) (m, hs) (M, own, ks)" "kept (length objs) ?m m"
      using syncRuns_refines [OF rel, of clone cs] Some by auto
    have ok: "syncOk (length objs) m" and M: "sContents m = M" using m(2) by (auto simp: related_def)
    have base: "sm_base m = base" "take (length objs) (sobjects m) = objs" using m(3) by (auto simp: kept_def NewSyncMap_def)
    have fin: "(\<lambda>k. map_option ((!) (sobjects m)) (r k)) = M \<and> (\<not> changed \<longrightarrow> r = base)"
      if "distinct ds" "set ds = set (sm_dirty m)" and F: "SyncMap_FinalizeWith hooks ds m s = ((r, changed), s')"
      for ds and hooks :: "('k, 's) FinalizationHooks" and s r changed s'
    proof
      have "inj_on fst (set ds)" using syncOkD(2) [OF ok] that(2) by (simp add: distinct_map)
      then have d: "distinct (map fst ds)" using that(1) by (simp add: distinct_map)
      have mo: "map_of ds = map_of (sm_dirty m)" using d syncOkD(2) [OF ok] that(2) by (simp add: map_of_inject_set)
      have r: "fold (finalizeEntry hooks m) ds (sm_base m, False, s) = (r, changed, s')"
        using F by (auto simp: SyncMap_FinalizeWith_def finalize_def split: prod.splits)
      have "r k = (case map_of (sm_dirty m) k of Some e \<Rightarrow> valueLocked e m | None \<Rightarrow> sm_base m k)" for k
        using finalize_fold [OF d, of hooks m "sm_base m" False s k] r mo syncOkD(4) [OF ok, of k]
        by (auto simp: valueLocked_def registered_def split: option.splits)
      then show "(\<lambda>k. map_option ((!) (sobjects m)) (r k)) = M" unfolding M [symmetric] by (simp add: sContents_def fun_eq_iff)
      show "\<not> changed \<longrightarrow> r = base" using finalize_unchanged [of hooks m ds "sm_base m" False s] r base by simp
    qed
    show ?thesis using m(1) base(2) fin Some st by auto
  qed
qed

text \<open>In the witness the clone resets a field of the value, as the clone of a project does.\<close>

theorem sync_map_runs_witness:
  "case syncAbss (\<lambda>(x, _). (x, False)) [SLoad (1 :: nat), SLoad 1, SChange 0 (\<lambda>(x, b). (x + 5 :: nat, b)), SChange 1 (\<lambda>(x, b). (2 * x, True))]
      (\<lambda>k. map_option ((!) [(10, True)]) (if k = 1 then Some 0 else None), {}, []) of
      None \<Rightarrow> syncRuns (\<lambda>(x, _). (x, False)) [SLoad (1 :: nat), SLoad 1, SChange 0 (\<lambda>(x, b). (x + 5 :: nat, b)), SChange 1 (\<lambda>(x, b). (2 * x, True))]
        (NewSyncMap [(10, True)] (\<lambda>k. if k = 1 then Some 0 else None), []) = Inl NilPointer
    | Some (M, _) \<Rightarrow> \<exists>m hs. syncRuns (\<lambda>(x, _). (x, False)) [SLoad (1 :: nat), SLoad 1, SChange 0 (\<lambda>(x, b). (x + 5 :: nat, b)), SChange 1 (\<lambda>(x, b). (2 * x, True))]
          (NewSyncMap [(10, True)] (\<lambda>k. if k = 1 then Some 0 else None), []) = Inr (m, hs)
        \<and> take (length [(10 :: nat, True)]) (sobjects m) = [(10, True)]
        \<and> (\<forall>ds (hooks :: (nat, nat) FinalizationHooks) s r changed s'.
             distinct ds \<and> set ds = set (sm_dirty m) \<and> SyncMap_FinalizeWith hooks ds m s = ((r, changed), s') \<longrightarrow>
             (\<lambda>k. map_option ((!) (sobjects m)) (r k)) = M \<and> (\<not> changed \<longrightarrow> r = (\<lambda>k. if k = 1 then Some 0 else None)))"
  by (rule sync_map_runs) (auto split: if_splits)

section \<open>Deletes\<close>

text \<open>C38. \<open>SyncMap.Delete\<close> called twice for a key. If the key has not been changed, stored or deleted in this map before, the second call blocks for ever,
  whatever else the map holds: the first leaves an entry in the dirty map that is marked as deleted but not as dirty, and the second calls \<open>Delete\<close> on it, which
  finds that same entry in the dirty map and locks its mutex a second time. If the key has a dirty entry, both calls
  return, and the key is gone.\<close>

theorem SyncMap_Delete_twice:
  "(map_of (sm_dirty m) k = None \<longrightarrow> bind_fault (SyncMap_Delete k m) (SyncMap_Delete k) = Inl Deadlock)
   \<and> (map_of (sm_dirty m) k = Some e \<longrightarrow> e < length (sentries m) \<longrightarrow> s_dirty (sentries m ! e) \<longrightarrow> s_proxyFor (sentries m ! e) = None \<longrightarrow>
        (\<exists>m'. bind_fault (SyncMap_Delete k m) (SyncMap_Delete k) = Inr m' \<and> sContents m' k = None))"
proof (intro conjI impI)
  assume k: "map_of (sm_dirty m) k = None"
  let ?e = "length (sentries m)"
  let ?m = "m\<lparr>sentries := sentries m @ [\<lparr>s_key = k, s_original = sm_base m k, s_value = None, s_dirty = False, s_delete = True, s_proxyFor = None\<rparr>],
    sm_dirty := AList.update k ?e (sm_dirty m)\<rparr>"
  have "SyncMap_Delete k m = Inr ?m" using k by (simp add: SyncMap_Delete_def newSyncEntry_def)
  moreover have "SyncMap_Delete k ?m = Inl Deadlock"
    using enter_self [of ?e ?m] by (simp add: SyncMap_Delete_def SyncMapEntry_Delete_def bind_fault_def lock_def update_conv')
  ultimately show "bind_fault (SyncMap_Delete k m) (SyncMap_Delete k) = Inl Deadlock" by (simp add: bind_fault_def)
next
  assume e: "map_of (sm_dirty m) k = Some e" "e < length (sentries m)" "s_dirty (sentries m ! e)" "s_proxyFor (sentries m ! e) = None"
  have del: "SyncMap_Delete k m1 = Inr (updateSync e (\<lambda>en. en\<lparr>s_delete := True\<rparr>) m1)"
    if "map_of (sm_dirty m1) k = Some e" "e < length (sentries m1)" "s_dirty (sentries m1 ! e)" "s_proxyFor (sentries m1 ! e) = None" for m1
    using that enter_self [of e m1] by (simp add: SyncMap_Delete_def SyncMapEntry_Delete_def bind_fault_def)
  let ?m = "updateSync e (\<lambda>en. en\<lparr>s_delete := True\<rparr>) m"
  have "SyncMap_Delete k ?m = Inr (updateSync e (\<lambda>en. en\<lparr>s_delete := True\<rparr>) ?m)" by (rule del) (use e in \<open>simp_all add: updateSync_def\<close>)
  moreover have "sContents (updateSync e (\<lambda>en. en\<lparr>s_delete := True\<rparr>) ?m) k = None"
    using e by (simp add: sContents_def valueLocked_def updateSync_def)
  ultimately show "\<exists>m'. bind_fault (SyncMap_Delete k m) (SyncMap_Delete k) = Inr m' \<and> sContents m' k = None"
    using del [OF e] by (simp add: bind_fault_def)
qed

theorem SyncMap_Delete_twice_witness:
  "bind_fault (SyncMap_Delete (1 :: nat) (NewSyncMap [10 :: nat] (map_of [(1, 0)]))) (SyncMap_Delete 1) = Inl Deadlock
   \<and> (\<exists>m'. bind_fault (SyncMap_Delete (1 :: nat) \<lparr>sobjects = [10 :: nat], sentries = [\<lparr>s_key = 1, s_original = None, s_value = Some 0, s_dirty = True, s_delete = False,
        s_proxyFor = None\<rparr>], sm_base = Map.empty, sm_dirty = [(1, 0)]\<rparr>) (SyncMap_Delete 1) = Inr m' \<and> sContents m' 1 = None)"
  using SyncMap_Delete_twice [of "NewSyncMap [10 :: nat] (map_of [(1 :: nat, 0)])" 1]
    SyncMap_Delete_twice [of "\<lparr>sobjects = [10 :: nat], sentries = [\<lparr>s_key = 1 :: nat, s_original = None, s_value = Some 0, s_dirty = True, s_delete = False,
        s_proxyFor = None\<rparr>], sm_base = Map.empty, sm_dirty = [(1, 0)]\<rparr>" 1 0]
  by (simp add: NewSyncMap_def)

text \<open>C39. \<open>SyncMapEntry.Delete\<close> through a handle that lost the race for its key is lost. In every state that a client reaches by loading, storing and changing,
  for every handle that it holds and that has not become a proxy although another entry is registered for its key: the call returns, and \<open>Finalize\<close> gives the
  same map as without it, in which the key still has its value.\<close>

theorem SyncMapEntry_Delete_lost:
  assumes "\<And>k v. base k = Some v \<Longrightarrow> v < length objs" "syncRuns clone cs (NewSyncMap objs base, []) = Inr (m, hs)"
    and "Some e \<in> set hs" "s_proxyFor (sentries m ! e) = None" "map_of (sm_dirty m) (s_key (sentries m ! e)) = Some r" "r \<noteq> e"
  shows "\<exists>m'. SyncMapEntry_Delete e m = Inr m' \<and> SyncMap_Finalize (sm_dirty m') m' = SyncMap_Finalize (sm_dirty m) m
    \<and> fst (SyncMap_Finalize (sm_dirty m') m') (s_key (sentries m ! e)) \<noteq> None"
proof -
  obtain M own ks where rel: "related (length objs) (m, hs) (M, own, ks)" by (rule run_related [OF assms(1,2)])
  then have ok: "syncOk (length objs) m" and hs: "handlesOk m hs ks" by (auto simp: related_def)
  have e: "e < length (sentries m)"
    using hs assms(3) by (auto simp: handlesOk_def in_set_conv_nth list_all2_conv_all_nth split: option.splits)
  have "untouched m e" using syncOkD(5) [OF ok e] assms(4-6) by (auto simp: registered_def proxy_def)
  then have nd: "\<not> s_dirty (sentries m ! e)" by (simp add: untouched_def)
  define m' where "m' = updateSync e (\<lambda>en. en\<lparr>s_delete := True\<rparr>) m"
  have del: "SyncMapEntry_Delete e m = Inr m'"
    using enter_self [OF e assms(4)] nd assms(5,6) by (simp add: SyncMapEntry_Delete_def bind_fault_def lock_def m'_def)
  have dist: "distinct (map fst (sm_dirty m))" by (rule syncOkD(2) [OF ok])
  have other: "e' \<noteq> e" if "(j, e') \<in> set (sm_dirty m)" for j e'
  proof
    assume "e' = e"
    then have "map_of (sm_dirty m) j = Some e" using that dist by simp
    then show False using syncOkD(4) [OF ok, of j e] assms(5,6) by auto
  qed
  have same: "finalizeEntry hooks m' d = finalizeEntry hooks m d" if "d \<in> set (sm_dirty m)" for hooks :: "('a, unit) FinalizationHooks" and d
  proof -
    obtain j e' where d: "d = (j, e')" by (cases d)
    then have "e' \<noteq> e" using that other by blast
    then have "sentries m' ! e' = sentries m ! e'" by (simp add: m'_def updateSync_def)
    moreover have "sm_base m' = sm_base m" by (simp add: m'_def updateSync_def)
    ultimately show ?thesis by (simp add: finalizeEntry_def d cong: if_cong)
  qed
  have "fold (finalizeEntry hooks m') (sm_dirty m) st = fold (finalizeEntry hooks m) (sm_dirty m) st" for hooks :: "('a, unit) FinalizationHooks" and st
    by (rule fold_cong) (simp_all add: same)
  moreover have "sm_base m' = sm_base m" "sm_dirty m' = sm_dirty m" by (simp_all add: m'_def updateSync_def)
  ultimately have fin: "SyncMap_Finalize (sm_dirty m') m' = SyncMap_Finalize (sm_dirty m) m" by (simp add: SyncMap_Finalize_def finalize_def)
  have "fst (SyncMap_Finalize (sm_dirty m) m) (s_key (sentries m ! e)) \<noteq> None"
    using finalize_fold [OF dist, of "\<lparr>OnDelete = None, OnChange = None, OnAdd = None\<rparr>" m "sm_base m" False "()" "s_key (sentries m ! e)"] assms(5)
      syncOkD(4) [OF ok assms(5)] by (auto simp: SyncMap_Finalize_def finalize_def registered_def split: prod.splits)
  then show ?thesis using del fin by simp
qed

theorem SyncMapEntry_Delete_lost_witness:
  "\<exists>m h1 h2 m'. syncRuns id [SLoad (1 :: nat), SLoad 1, SChange 0 ((+) 5)] (NewSyncMap [10 :: nat] (map_of [(1, 0)]), []) = Inr (m, [Some h1, Some h2])
     \<and> SyncMapEntry_Delete h2 m = Inr m' \<and> SyncMap_Finalize (sm_dirty m') m' = SyncMap_Finalize (sm_dirty m) m
     \<and> fst (SyncMap_Finalize (sm_dirty m') m') 1 \<noteq> None"
proof -
  let ?e = "\<lparr>s_key = 1 :: nat, s_original = Some 0, s_value = Some 0, s_dirty = False, s_delete = False, s_proxyFor = None\<rparr>"
  let ?start = "\<lparr>sobjects = [10 :: nat], sentries = [?e, ?e], sm_base = map_of [(1, 0)], sm_dirty = []\<rparr>"
  let ?m = "\<lparr>sobjects = [10, 15 :: nat], sentries = [?e\<lparr>s_value := Some 1, s_dirty := True\<rparr>, ?e], sm_base = map_of [(1, 0)], sm_dirty = [(1, 0)]\<rparr>"
  have "SyncMapEntry_Change id ((+) 5) 0 ?start = Inr ?m"
    using enter_self [of 0 ?start]
    by (simp add: bind_fault_def SyncMapEntry_Change_def changeLocked_def ensureDirty_def updateSync_def applySync_def)
  then have run: "syncRuns id [SLoad (1 :: nat), SLoad 1, SChange 0 ((+) 5)] (NewSyncMap [10 :: nat] (map_of [(1, 0)]), []) = Inr (?m, [Some 0, Some 1])"
    by (simp add: NewSyncMap_def SyncMap_Load_def newSyncEntry_def baseEntry_def bind_fault_def)
  have "\<exists>m'. SyncMapEntry_Delete 1 ?m = Inr m' \<and> SyncMap_Finalize (sm_dirty m') m' = SyncMap_Finalize (sm_dirty ?m) ?m
    \<and> fst (SyncMap_Finalize (sm_dirty m') m') (s_key (sentries ?m ! 1)) \<noteq> None"
    by (rule SyncMapEntry_Delete_lost [OF _ run, where r = 0]) (auto split: if_splits)
  then show ?thesis using run by auto
qed

end
