(* ===== verification/Bfs.thy ===== *)
theory Bfs
  imports Collections
begin

text \<open>
  \<open>internal/core/bfs.go\<close>: breadth-first search that visits the nodes of a level in parallel. A level is a
  set of goroutines over shared atomics; each atomic access, and each call of a callback, is one step, and a
  schedule says whose step is next. A schedule in which a goroutine has not finished gives no result, as
  \<open>wg.Wait\<close> does not return. The callbacks are pure functions. \<open>None\<close> in an atomic index is \<open>math.MaxInt64\<close>,
  which no index of a job reaches; the count of next jobs is only a size hint.
\<close>

section \<open>Jobs and levels\<close>

datatype 'n breadthFirstSearchJob = Job (job_node: 'n) (job_parent: "'n breadthFirstSearchJob option")

record 'n BreadthFirstSearchResult =
  Stopped :: bool
  Path :: "'n list"

type_synonym ('k, 'n) jobs = "('k, 'n breadthFirstSearchJob) OrderedMap"

definition Level_Has :: "'k \<Rightarrow> ('k, 'n) jobs \<Rightarrow> bool" where "Level_Has key l = OM_Has key l"

definition Level_Delete :: "'k \<Rightarrow> ('k, 'n) jobs \<Rightarrow> ('k, 'n) jobs or_panic" where
  "Level_Delete key l = bind_panic (OM_Delete key l) (\<lambda>(_, l'). Inr l')"

fun rangeNodes :: "('n \<Rightarrow> 's \<Rightarrow> bool \<times> 's) \<Rightarrow> 'n breadthFirstSearchJob list \<Rightarrow> 's \<Rightarrow> 's" where
  "rangeNodes f [] s = s"
| "rangeNodes f (j # js) s = (case f (job_node j) s of (continue, s') \<Rightarrow> if continue then rangeNodes f js s' else s')"

definition Level_Range :: "'n breadthFirstSearchJob \<Rightarrow> ('n \<Rightarrow> 's \<Rightarrow> bool \<times> 's) \<Rightarrow> ('k, 'n) jobs \<Rightarrow> 's \<Rightarrow> 's" where
  "Level_Range zero f l s = rangeNodes f (OM_Values zero l) s"

text \<open>\<open>PreprocessLevel\<close> removes nodes from the level it is shown: here, the keys it deletes, in order.\<close>

fun deleteKeys :: "'k list \<Rightarrow> ('k, 'n) jobs \<Rightarrow> ('k, 'n) jobs or_panic" where
  "deleteKeys [] l = Inr l"
| "deleteKeys (k # ks) l = bind_panic (Level_Delete k l) (deleteKeys ks)"

section \<open>The goroutines of a level\<close>

datatype bfsPc = PStart | PAdd | PVisit | PGoalLoad | PGoalSwap "nat option" | PFallbackLoad | PFallbackSwap "nat option"
  | PRecheck | PExpand | PDone

record ('k, 'n) levelState =
  lowestGoal :: "nat option"
  lowestFallback :: "nat option"
  visited :: "'k set"
  nextJobs :: "'n breadthFirstSearchJob list list"
  pcs :: "bfsPc list"

definition isAtLeast :: "nat \<Rightarrow> nat option \<Rightarrow> bool" where
  \<comment> \<open>\<open>int64(i) >= lowest.Load()\<close>\<close>
  "isAtLeast i lowest = (case lowest of Some g \<Rightarrow> g \<le> i | None \<Rightarrow> False)"

definition below :: "nat option \<Rightarrow> nat \<Rightarrow> bool" where
  \<comment> \<open>\<open>current < candidate\<close>\<close>
  "below current candidate = (case current of Some c \<Rightarrow> c < candidate | None \<Rightarrow> False)"

definition jump :: "nat \<Rightarrow> bfsPc \<Rightarrow> ('k, 'n) levelState \<Rightarrow> ('k, 'n) levelState" where
  "jump i p st = st\<lparr>pcs := (pcs st)[i := p]\<rparr>"

definition goStep :: "('n \<Rightarrow> 'n list) \<Rightarrow> ('n \<Rightarrow> bool \<times> bool) \<Rightarrow> ('n \<Rightarrow> 'k) \<Rightarrow> bool \<Rightarrow> 'n breadthFirstSearchJob list
    \<Rightarrow> nat \<Rightarrow> ('k, 'n) levelState \<Rightarrow> ('k, 'n) levelState" where
  \<comment> \<open>the next step of the goroutine of job \<open>i\<close>; \<open>noFallback\<close>: no earlier level found one; the two \<open>Load\<close> and
    \<open>Swap\<close> pairs are the loop of \<open>updateMin\<close>\<close>
  "goStep neighbors visit getKey noFallback js i st =
     (if \<not> i < length js then st
      else let node = job_node (js ! i) in
      case pcs st ! i of
        PStart \<Rightarrow> jump i (if isAtLeast i (lowestGoal st) then PDone else PAdd) st
      | PAdd \<Rightarrow>
          if getKey node \<in> visited st then jump i PDone st
          else jump i PVisit (st\<lparr>visited := insert (getKey node) (visited st)\<rparr>)
      | PVisit \<Rightarrow>
          (case visit node of (isResult, stop) \<Rightarrow>
             jump i (if isResult \<and> stop then PGoalLoad else if isResult \<and> noFallback then PFallbackLoad else PRecheck) st)
      | PGoalLoad \<Rightarrow> jump i (if below (lowestGoal st) i then PDone else PGoalSwap (lowestGoal st)) st
      | PGoalSwap current \<Rightarrow>
          if lowestGoal st = current then jump i PDone (st\<lparr>lowestGoal := Some i\<rparr>) else jump i PGoalLoad st
      | PFallbackLoad \<Rightarrow> jump i (if below (lowestFallback st) i then PRecheck else PFallbackSwap (lowestFallback st)) st
      | PFallbackSwap current \<Rightarrow>
          if lowestFallback st = current then jump i PRecheck (st\<lparr>lowestFallback := Some i\<rparr>) else jump i PFallbackLoad st
      | PRecheck \<Rightarrow> jump i (if isAtLeast i (lowestGoal st) then PDone else PExpand) st
      | PExpand \<Rightarrow> jump i PDone (st\<lparr>nextJobs := (nextJobs st)[i := map (\<lambda>child. Job child (Some (js ! i))) (neighbors node)]\<rparr>)
      | PDone \<Rightarrow> st)"

definition startLevel :: "'k set \<Rightarrow> nat \<Rightarrow> ('k, 'n) levelState" where
  "startLevel vis n = \<lparr>lowestGoal = None, lowestFallback = None, visited = vis, nextJobs = replicate n [], pcs = replicate n PStart\<rparr>"

definition runSchedule :: "('n \<Rightarrow> 'n list) \<Rightarrow> ('n \<Rightarrow> bool \<times> bool) \<Rightarrow> ('n \<Rightarrow> 'k) \<Rightarrow> bool \<Rightarrow> 'n breadthFirstSearchJob list
    \<Rightarrow> nat list \<Rightarrow> ('k, 'n) levelState \<Rightarrow> ('k, 'n) levelState" where
  "runSchedule neighbors visit getKey noFallback js sched st = fold (goStep neighbors visit getKey noFallback js) sched st"

definition finished :: "('k, 'n) levelState \<Rightarrow> bool" where
  "finished st = list_all (\<lambda>p. p = PDone) (pcs st)"

section \<open>A level and the search\<close>

definition dedupe :: "('n \<Rightarrow> 'k) \<Rightarrow> 'n breadthFirstSearchJob list list \<Rightarrow> ('k, 'n) jobs" where
  "dedupe getKey next =
     fold (\<lambda>js nj. fold (\<lambda>j nj. if \<not> OM_Has (getKey (job_node j)) nj then OM_Set (getKey (job_node j)) j nj else nj) js nj)
       next newMapWithSizeHint"

datatype ('k, 'n) levelResult =
    LevelStop "'n breadthFirstSearchJob"
  | LevelNext "('k, 'n) jobs" "'n breadthFirstSearchJob option" \<comment> \<open>and the fallback\<close>

definition jobAt :: "'n breadthFirstSearchJob \<Rightarrow> nat \<Rightarrow> ('k, 'n) jobs \<Rightarrow> 'n breadthFirstSearchJob" where
  \<comment> \<open>\<open>_, job, _ := jobs.EntryAt(int(index))\<close>, with \<open>zero\<close> for nil\<close>
  "jobAt zero i jobs = (case OM_EntryAt zero (int i) jobs of Some (_, job) \<Rightarrow> job | None \<Rightarrow> zero)"

definition processLevel :: "('n \<Rightarrow> 'n list) \<Rightarrow> ('n \<Rightarrow> bool \<times> bool) \<Rightarrow> ('n \<Rightarrow> 'k) \<Rightarrow> (('k, 'n) jobs \<Rightarrow> 'k list)
    \<Rightarrow> 'n breadthFirstSearchJob \<Rightarrow> nat list \<Rightarrow> ('k, 'n) jobs \<Rightarrow> 'n breadthFirstSearchJob option \<Rightarrow> 'k set
    \<Rightarrow> (('k, 'n) levelResult \<times> 'k set) option or_panic" where
  "processLevel neighbors visit getKey pre zero sched level fallback vis =
     bind_panic (deleteKeys (pre level) level) (\<lambda>jobs.
       let js = OM_Values zero jobs;
           st = runSchedule neighbors visit getKey (fallback = None) js sched (startLevel vis (length js))
       in if \<not> finished st then Inr None
          else case lowestGoal st of
            Some index \<Rightarrow> Inr (Some (LevelStop (jobAt zero index jobs), visited st))
          | None \<Rightarrow>
              let fallback' = (case fallback of
                     Some f \<Rightarrow> Some f
                   | None \<Rightarrow> map_option (\<lambda>index. jobAt zero index jobs) (lowestFallback st))
              in Inr (Some (LevelNext (dedupe getKey (nextJobs st)) fallback', visited st)))"

fun createPath :: "'n breadthFirstSearchJob \<Rightarrow> 'n list" where
  "createPath (Job n None) = [n]"
| "createPath (Job n (Some p)) = n # createPath p"

definition createPathOpt :: "'n breadthFirstSearchJob option \<Rightarrow> 'n list" where
  "createPathOpt job = (case job of None \<Rightarrow> [] | Some j \<Rightarrow> createPath j)"

text \<open>The loop over the levels, with one schedule for each of them; \<open>None\<close> when the schedules do not suffice.\<close>

fun searchLevels :: "('n \<Rightarrow> 'n list) \<Rightarrow> ('n \<Rightarrow> bool \<times> bool) \<Rightarrow> ('n \<Rightarrow> 'k) \<Rightarrow> (('k, 'n) jobs \<Rightarrow> 'k list)
    \<Rightarrow> 'n breadthFirstSearchJob \<Rightarrow> nat list list \<Rightarrow> ('k, 'n) jobs \<Rightarrow> 'n breadthFirstSearchJob option \<Rightarrow> 'k set
    \<Rightarrow> ('n BreadthFirstSearchResult \<times> 'k set) option or_panic" where
  "searchLevels neighbors visit getKey pre zero scheds level fallback vis =
     (if OM_Size level = 0 then Inr (Some (\<lparr>Stopped = False, Path = createPathOpt fallback\<rparr>, vis))
      else case scheds of
        [] \<Rightarrow> Inr None
      | sched # rest \<Rightarrow>
          bind_panic (processLevel neighbors visit getKey pre zero sched level fallback vis) (\<lambda>r.
            case r of
              None \<Rightarrow> Inr None
            | Some (LevelStop job, vis') \<Rightarrow> Inr (Some (\<lparr>Stopped = True, Path = createPath job\<rparr>, vis'))
            | Some (LevelNext level' fallback', vis') \<Rightarrow> searchLevels neighbors visit getKey pre zero rest level' fallback' vis'))"

declare searchLevels.simps [simp del]

definition BreadthFirstSearchParallelEx :: "nat list list \<Rightarrow> 'n \<Rightarrow> ('n \<Rightarrow> 'n list) \<Rightarrow> ('n \<Rightarrow> bool \<times> bool) \<Rightarrow> 'k set \<Rightarrow> (('k, 'n) jobs \<Rightarrow> 'k list)
    \<Rightarrow> ('n \<Rightarrow> 'k) \<Rightarrow> ('n BreadthFirstSearchResult \<times> 'k set) option or_panic" where
  \<comment> \<open>\<open>vis\<close>: the set \<open>options.Visited\<close>, which the caller can read afterwards\<close>
  "BreadthFirstSearchParallelEx scheds start neighbors visit vis pre getKey =
     searchLevels neighbors visit getKey pre (Job start None) scheds
       (NewOrderedMapFromList [(getKey start, Job start None)]) None vis"

definition BreadthFirstSearchParallel :: "nat list list \<Rightarrow> 'n \<Rightarrow> ('n \<Rightarrow> 'n list) \<Rightarrow> ('n \<Rightarrow> bool \<times> bool)
    \<Rightarrow> 'n BreadthFirstSearchResult option or_panic" where
  "BreadthFirstSearchParallel scheds start neighbors visit =
     bind_panic (BreadthFirstSearchParallelEx scheds start neighbors visit {} (\<lambda>_. []) (\<lambda>n. n)) (\<lambda>r. Inr (map_option fst r))"

end
