(* ===== verification/Bfs_Props.thy ===== *)
theory Bfs_Props
  imports Bfs
begin

text \<open>
  The parallel breadth-first search gives the result of a sequential one under every schedule, and that result is
  a shortest path.
\<close>

section \<open>What a level computes\<close>

definition freshAt :: "('n \<Rightarrow> 'k) \<Rightarrow> 'n breadthFirstSearchJob list \<Rightarrow> 'k set \<Rightarrow> nat \<Rightarrow> bool" where
  "freshAt getKey js vis i = (getKey (job_node (js ! i)) \<notin> vis)"

definition goalAt :: "('n \<Rightarrow> bool \<times> bool) \<Rightarrow> ('n \<Rightarrow> 'k) \<Rightarrow> 'n breadthFirstSearchJob list \<Rightarrow> 'k set \<Rightarrow> nat \<Rightarrow> bool" where
  "goalAt visit getKey js vis i = (i < length js \<and> freshAt getKey js vis i \<and> visit (job_node (js ! i)) = (True, True))"

definition fallbackAt :: "('n \<Rightarrow> bool \<times> bool) \<Rightarrow> ('n \<Rightarrow> 'k) \<Rightarrow> bool \<Rightarrow> 'n breadthFirstSearchJob list \<Rightarrow> 'k set \<Rightarrow> nat \<Rightarrow> bool" where
  "fallbackAt visit getKey nf js vis i = (nf \<and> i < length js \<and> freshAt getKey js vis i \<and> visit (job_node (js ! i)) = (True, False))"

definition childrenOf :: "('n \<Rightarrow> 'n list) \<Rightarrow> 'n breadthFirstSearchJob \<Rightarrow> 'n breadthFirstSearchJob list" where
  "childrenOf neighbors j = map (\<lambda>child. Job child (Some j)) (neighbors (job_node j))"

section \<open>Invariant of the goroutines\<close>

text \<open>What is known of goroutine \<open>i\<close> at its program point, for the level's goals \<open>G\<close>, fallbacks \<open>F\<close>, fresh jobs \<open>U\<close>, and the
  children \<open>ch\<close> and key of the job.\<close>

definition goroutineOk :: "(nat \<Rightarrow> bool) \<Rightarrow> (nat \<Rightarrow> bool) \<Rightarrow> (nat \<Rightarrow> bool) \<Rightarrow> 'n breadthFirstSearchJob list \<Rightarrow> 'k \<Rightarrow> ('k, 'n) levelState \<Rightarrow> nat \<Rightarrow> bool" where
  "goroutineOk G F U ch key st i =
     (case pcs st ! i of
        PStart \<Rightarrow> nextJobs st ! i = [] \<and> (key \<in> visited st \<longleftrightarrow> \<not> U i)
      | PAdd \<Rightarrow> nextJobs st ! i = [] \<and> (key \<in> visited st \<longleftrightarrow> \<not> U i)
      | PVisit \<Rightarrow> nextJobs st ! i = [] \<and> U i \<and> key \<in> visited st
      | PGoalLoad \<Rightarrow> nextJobs st ! i = [] \<and> G i
      | PGoalSwap c \<Rightarrow> nextJobs st ! i = [] \<and> G i \<and> \<not> below c i
      | PFallbackLoad \<Rightarrow> nextJobs st ! i = [] \<and> F i \<and> \<not> G i \<and> U i \<and> key \<in> visited st
      | PFallbackSwap c \<Rightarrow> nextJobs st ! i = [] \<and> F i \<and> \<not> G i \<and> U i \<and> key \<in> visited st \<and> \<not> below c i
      | PRecheck \<Rightarrow> nextJobs st ! i = [] \<and> \<not> G i \<and> U i \<and> key \<in> visited st \<and> (F i \<longrightarrow> isAtLeast i (lowestFallback st))
      | PExpand \<Rightarrow> nextJobs st ! i = [] \<and> \<not> G i \<and> U i \<and> key \<in> visited st \<and> (F i \<longrightarrow> isAtLeast i (lowestFallback st))
      | PDone \<Rightarrow> isAtLeast i (lowestGoal st)
          \<or> \<not> G i \<and> (if U i then nextJobs st ! i = ch \<and> key \<in> visited st \<and> (F i \<longrightarrow> isAtLeast i (lowestFallback st)) else nextJobs st ! i = []))"

lemma goroutineOk_other:
  assumes "goroutineOk G F U ch key st i" "pcs st' ! i = pcs st ! i" "nextJobs st' ! i = nextJobs st ! i" "key \<in> visited st' \<longleftrightarrow> key \<in> visited st"
    "isAtLeast i (lowestGoal st) \<Longrightarrow> isAtLeast i (lowestGoal st')" "isAtLeast i (lowestFallback st) \<Longrightarrow> isAtLeast i (lowestFallback st')"
  shows "goroutineOk G F U ch key st' i"
  using assms unfolding goroutineOk_def by (cases "pcs st ! i") (auto split: if_splits)

definition levelInv :: "('n \<Rightarrow> 'n list) \<Rightarrow> ('n \<Rightarrow> bool \<times> bool) \<Rightarrow> ('n \<Rightarrow> 'k) \<Rightarrow> bool \<Rightarrow> 'n breadthFirstSearchJob list \<Rightarrow> 'k set
    \<Rightarrow> ('k, 'n) levelState \<Rightarrow> bool" where
  "levelInv neighbors visit getKey nf js vis st =
     (length (pcs st) = length js \<and> length (nextJobs st) = length js
      \<and> (\<forall>g. lowestGoal st = Some g \<longrightarrow> goalAt visit getKey js vis g)
      \<and> (\<forall>f. lowestFallback st = Some f \<longrightarrow> fallbackAt visit getKey nf js vis f)
      \<and> vis \<subseteq> visited st \<and> visited st \<subseteq> vis \<union> (getKey \<circ> job_node) ` set js
      \<and> (\<forall>i < length js. goroutineOk (goalAt visit getKey js vis) (fallbackAt visit getKey nf js vis) (freshAt getKey js vis)
           (childrenOf neighbors (js ! i)) (getKey (job_node (js ! i))) st i))"

lemma isAtLeast_simps [simp]: "\<not> isAtLeast i None" "isAtLeast i (Some g) \<longleftrightarrow> g \<le> i"
  by (simp_all add: isAtLeast_def)

lemma levelInv_start: "levelInv neighbors visit getKey nf js vis (startLevel vis (length js))"
  by (auto simp: levelInv_def startLevel_def goroutineOk_def freshAt_def)

text \<open>The step of goroutine \<open>i\<close> seen from the shared state.\<close>

lemma goStep_frame:
  assumes inv: "levelInv neighbors visit getKey nf js vis st" and i: "i < length js"
    and st': "st' = goStep neighbors visit getKey nf js i st"
  shows "length (pcs st') = length js" "length (nextJobs st') = length js"
    "k \<noteq> i \<Longrightarrow> pcs st' ! k = pcs st ! k" "k \<noteq> i \<Longrightarrow> nextJobs st' ! k = nextJobs st ! k"
    "visited st' = visited st \<or> visited st' = insert (getKey (job_node (js ! i))) (visited st)"
    "lowestGoal st' = lowestGoal st \<or> lowestGoal st' = Some i \<and> goalAt visit getKey js vis i \<and> \<not> below (lowestGoal st) i"
    "lowestFallback st' = lowestFallback st \<or> lowestFallback st' = Some i \<and> fallbackAt visit getKey nf js vis i \<and> \<not> below (lowestFallback st) i"
  using inv i unfolding st' levelInv_def goStep_def jump_def
  by (auto simp: Let_def goroutineOk_def split: bfsPc.splits prod.splits if_splits)

lemma goStep_own:
  assumes inv: "levelInv neighbors visit getKey nf js vis st" and i: "i < length js"
  shows "goroutineOk (goalAt visit getKey js vis) (fallbackAt visit getKey nf js vis) (freshAt getKey js vis)
     (childrenOf neighbors (js ! i)) (getKey (job_node (js ! i))) (goStep neighbors visit getKey nf js i st) i"
proof -
  let ?G = "goalAt visit getKey js vis" and ?F = "fallbackAt visit getKey nf js vis" and ?U = "freshAt getKey js vis"
  have len: "i < length (pcs st)" "i < length (nextJobs st)" using inv i by (auto simp: levelInv_def)
  have ok: "goroutineOk ?G ?F ?U (childrenOf neighbors (js ! i)) (getKey (job_node (js ! i))) st i" using inv i by (simp add: levelInv_def)
  show ?thesis
    using ok len i unfolding goStep_def jump_def
    by (cases "pcs st ! i") (auto simp: goroutineOk_def Let_def goalAt_def fallbackAt_def childrenOf_def isAtLeast_def below_def split: prod.splits option.splits if_splits)
qed

lemma goStep_inv:
  assumes inv: "levelInv neighbors visit getKey nf js vis st" and dist: "distinct (map (getKey \<circ> job_node) js)"
  shows "levelInv neighbors visit getKey nf js vis (goStep neighbors visit getKey nf js i st)"
proof (cases "i < length js")
  case False
  then show ?thesis using inv by (simp add: goStep_def)
next
  case i: True
  let ?st = "goStep neighbors visit getKey nf js i st"
  note frame = goStep_frame [OF inv i refl]
  have other: "getKey (job_node (js ! k)) \<noteq> getKey (job_node (js ! i))" if "k < length js" "k \<noteq> i" for k
    using dist i that by (auto simp: distinct_conv_nth)
  have "goroutineOk (goalAt visit getKey js vis) (fallbackAt visit getKey nf js vis) (freshAt getKey js vis)
      (childrenOf neighbors (js ! k)) (getKey (job_node (js ! k))) ?st k" if k: "k < length js" for k
  proof (cases "k = i")
    case True
    then show ?thesis using goStep_own [OF inv i] by simp
  next
    case False
    show ?thesis
    proof (rule goroutineOk_other)
      show "goroutineOk (goalAt visit getKey js vis) (fallbackAt visit getKey nf js vis) (freshAt getKey js vis)
        (childrenOf neighbors (js ! k)) (getKey (job_node (js ! k))) st k" using inv k by (simp add: levelInv_def)
      show "getKey (job_node (js ! k)) \<in> visited ?st \<longleftrightarrow> getKey (job_node (js ! k)) \<in> visited st"
        using frame(5) other [OF k False] by auto
      show "isAtLeast k (lowestGoal st) \<Longrightarrow> isAtLeast k (lowestGoal ?st)" "isAtLeast k (lowestFallback st) \<Longrightarrow> isAtLeast k (lowestFallback ?st)"
        using frame(6,7) by (auto simp: isAtLeast_def below_def split: option.splits)
    qed (use frame(3,4) [OF False] in simp_all)
  qed
  moreover have "visited ?st \<subseteq> vis \<union> (getKey \<circ> job_node) ` set js" "vis \<subseteq> visited ?st"
    using frame(5) inv i by (auto simp: levelInv_def)
  ultimately show ?thesis using inv frame(1,2,6,7) unfolding levelInv_def by auto
qed

lemma runSchedule_inv:
  assumes "distinct (map (getKey \<circ> job_node) js)"
  shows "levelInv neighbors visit getKey nf js vis (runSchedule neighbors visit getKey nf js sched (startLevel vis (length js)))"
proof -
  have "levelInv neighbors visit getKey nf js vis st \<Longrightarrow> levelInv neighbors visit getKey nf js vis (fold (goStep neighbors visit getKey nf js) sched st)" for st
    by (induction sched arbitrary: st) (simp_all add: goStep_inv [OF _ assms])
  then show ?thesis unfolding runSchedule_def using levelInv_start by blast
qed

section \<open>The result of a level\<close>

lemma find_first: "find P [0..<n] = Some i \<longleftrightarrow> i < n \<and> P i \<and> (\<forall>j < i. \<not> P j)"
  by (auto simp: find_Some_iff)

lemma lowest_is_first:
  assumes "\<And>g. low = Some g \<Longrightarrow> P g \<and> g < n" "\<And>i. i < n \<Longrightarrow> P i \<Longrightarrow> isAtLeast i low"
  shows "low = find P [0..<n]"
proof (cases low)
  case None
  then have "find P [0..<n] = None" using assms(2) by (auto simp: find_None_iff)
  then show ?thesis using None by simp
next
  case (Some g)
  then have "\<not> P j" if "j < g" for j using assms(1) assms(2) [of j] that by (fastforce simp: isAtLeast_def)
  then show ?thesis using Some assms(1) find_first [of P n g] by auto
qed

lemma level_outcome:
  assumes dist: "distinct (map (getKey \<circ> job_node) js)"
    and st: "st = runSchedule neighbors visit getKey nf js sched (startLevel vis (length js))" and fin: "finished st"
  shows "lowestGoal st = find (goalAt visit getKey js vis) [0..<length js]"
    "lowestGoal st = None \<Longrightarrow> lowestFallback st = find (fallbackAt visit getKey nf js vis) [0..<length js]
       \<and> nextJobs st = map (\<lambda>j. if getKey (job_node j) \<in> vis then [] else childrenOf neighbors j) js
       \<and> visited st = vis \<union> (getKey \<circ> job_node) ` set js"
proof -
  have inv: "levelInv neighbors visit getKey nf js vis st" unfolding st by (rule runSchedule_inv [OF dist])
  have at_end: "pcs st ! i = PDone" if "i < length js" for i
    using fin inv that by (auto simp: finished_def levelInv_def list_all_length)
  have ok: "isAtLeast i (lowestGoal st) \<or> \<not> goalAt visit getKey js vis i
      \<and> (if freshAt getKey js vis i
         then nextJobs st ! i = childrenOf neighbors (js ! i) \<and> getKey (job_node (js ! i)) \<in> visited st
           \<and> (fallbackAt visit getKey nf js vis i \<longrightarrow> isAtLeast i (lowestFallback st))
         else nextJobs st ! i = [])"
    if i: "i < length js" for i
  proof -
    have "goroutineOk (goalAt visit getKey js vis) (fallbackAt visit getKey nf js vis) (freshAt getKey js vis)
      (childrenOf neighbors (js ! i)) (getKey (job_node (js ! i))) st i" using inv i by (simp add: levelInv_def)
    then show ?thesis unfolding goroutineOk_def at_end [OF i] by simp
  qed
  show "lowestGoal st = find (goalAt visit getKey js vis) [0..<length js]"
  proof (rule lowest_is_first)
    fix g
    show "lowestGoal st = Some g \<Longrightarrow> goalAt visit getKey js vis g \<and> g < length js"
      using inv by (auto simp: levelInv_def goalAt_def)
  qed (use ok in blast)
  assume none: "lowestGoal st = None"
  then have ok: "if freshAt getKey js vis i
         then nextJobs st ! i = childrenOf neighbors (js ! i) \<and> getKey (job_node (js ! i)) \<in> visited st
           \<and> (fallbackAt visit getKey nf js vis i \<longrightarrow> isAtLeast i (lowestFallback st))
         else nextJobs st ! i = []" if "i < length js" for i
    using ok [OF that] by simp
  have "lowestFallback st = find (fallbackAt visit getKey nf js vis) [0..<length js]"
  proof (rule lowest_is_first)
    fix f
    show "lowestFallback st = Some f \<Longrightarrow> fallbackAt visit getKey nf js vis f \<and> f < length js"
      using inv by (auto simp: levelInv_def fallbackAt_def)
  qed (use ok in \<open>auto simp: fallbackAt_def split: if_splits\<close>)
  moreover have "nextJobs st = map (\<lambda>j. if getKey (job_node j) \<in> vis then [] else childrenOf neighbors j) js"
    using inv ok by (intro nth_equalityI) (auto simp: levelInv_def freshAt_def)
  moreover have "getKey (job_node j) \<in> visited st" if j: "j \<in> set js" for j
  proof -
    obtain i where "i < length js" "js ! i = j" using j by (auto simp: in_set_conv_nth)
    then show ?thesis using ok [of i] inv by (auto simp: freshAt_def levelInv_def split: if_splits)
  qed
  then have "visited st = vis \<union> (getKey \<circ> job_node) ` set js" using inv by (auto simp: levelInv_def)
  ultimately show "lowestFallback st = find (fallbackAt visit getKey nf js vis) [0..<length js]
       \<and> nextJobs st = map (\<lambda>j. if getKey (job_node j) \<in> vis then [] else childrenOf neighbors j) js
       \<and> visited st = vis \<union> (getKey \<circ> job_node) ` set js" by blast
qed

section \<open>Every level can finish\<close>

text \<open>The steps that goroutine \<open>i\<close> has left when it runs alone: a swap that fails is tried again with the value that
  is there.\<close>

definition stepsLeft :: "nat \<Rightarrow> ('k, 'n) levelState \<Rightarrow> nat" where
  "stepsLeft i st =
     (case pcs st ! i of
        PStart \<Rightarrow> 7 | PAdd \<Rightarrow> 6 | PVisit \<Rightarrow> 5 | PGoalLoad \<Rightarrow> 2 | PGoalSwap c \<Rightarrow> if lowestGoal st = c then 1 else 3
      | PFallbackLoad \<Rightarrow> 4 | PFallbackSwap c \<Rightarrow> if lowestFallback st = c then 3 else 5 | PRecheck \<Rightarrow> 2 | PExpand \<Rightarrow> 1 | PDone \<Rightarrow> 0)"

lemma goStep_stepsLeft:
  assumes "i < length js" "i < length (pcs st)" "pcs st ! i \<noteq> PDone"
  shows "stepsLeft i (goStep neighbors visit getKey nf js i st) < stepsLeft i st"
  using assms by (cases "pcs st ! i") (auto simp: stepsLeft_def goStep_def jump_def Let_def split: prod.splits)

lemma goStep_pcs:
  "length (pcs (goStep neighbors visit getKey nf js i st)) = length (pcs st)"
  "k \<noteq> i \<Longrightarrow> pcs (goStep neighbors visit getKey nf js i st) ! k = pcs st ! k"
  by (auto simp: goStep_def jump_def Let_def split: bfsPc.splits prod.splits)

lemma solo_steps:
  assumes "i < length js" "i < length (pcs st)" "stepsLeft i st \<le> n"
    and "st' = fold (goStep neighbors visit getKey nf js) (replicate n i) st"
  shows "pcs st' ! i = PDone \<and> length (pcs st') = length (pcs st) \<and> (\<forall>k. k \<noteq> i \<longrightarrow> pcs st' ! k = pcs st ! k)"
  using assms(2,3) unfolding assms(4)
proof (induction n arbitrary: st)
  case 0
  then show ?case by (auto simp: stepsLeft_def split: bfsPc.splits if_splits)
next
  case (Suc n)
  let ?st = "goStep neighbors visit getKey nf js i st"
  have "stepsLeft i ?st \<le> n"
  proof (cases "pcs st ! i = PDone")
    case True
    then show ?thesis by (simp add: goStep_def Let_def stepsLeft_def)
  next
    case False
    then show ?thesis using goStep_stepsLeft [OF assms(1) Suc.prems(1)] Suc.prems(2) by (metis less_Suc_eq_le less_le_trans)
  qed
  then show ?case using Suc.IH [of ?st] Suc.prems(1) by (simp add: goStep_pcs)
qed

lemma level_can_finish:
  assumes "length (pcs st) = length js"
  shows "\<exists>sched. finished (runSchedule neighbors visit getKey nf js sched st)"
proof -
  have "m \<le> length js \<Longrightarrow> \<exists>sched. length (pcs (runSchedule neighbors visit getKey nf js sched st)) = length js
      \<and> (\<forall>i < m. pcs (runSchedule neighbors visit getKey nf js sched st) ! i = PDone)" for m
  proof (induction m)
    case 0
    then show ?case using assms by (intro exI [of _ "[]"]) (simp add: runSchedule_def)
  next
    case (Suc m)
    then obtain sched where s: "length (pcs (runSchedule neighbors visit getKey nf js sched st)) = length js"
      "\<forall>i < m. pcs (runSchedule neighbors visit getKey nf js sched st) ! i = PDone" by auto
    let ?st = "runSchedule neighbors visit getKey nf js sched st"
    have "stepsLeft m ?st \<le> 7" by (auto simp: stepsLeft_def split: bfsPc.splits)
    then have "pcs (fold (goStep neighbors visit getKey nf js) (replicate 7 m) ?st) ! m = PDone
      \<and> length (pcs (fold (goStep neighbors visit getKey nf js) (replicate 7 m) ?st)) = length js
      \<and> (\<forall>k. k \<noteq> m \<longrightarrow> pcs (fold (goStep neighbors visit getKey nf js) (replicate 7 m) ?st) ! k = pcs ?st ! k)"
      using solo_steps [OF _ _ _ refl, where i = m and n = 7 and st = ?st and js = js] Suc.prems s(1) by simp
    then show ?case using s(2) by (intro exI [of _ "sched @ replicate 7 m"]) (auto simp: runSchedule_def less_Suc_eq)
  qed
  then show ?thesis unfolding finished_def list_all_length by (metis order_refl)
qed

section \<open>Levels\<close>

text \<open>The maps of jobs: each job under the key of its node.\<close>

definition jobsOk :: "('n \<Rightarrow> 'k) \<Rightarrow> ('k, 'n) jobs \<Rightarrow> bool" where
  "jobsOk getKey m = (OM_ok m \<and> (\<forall>k j. om_mp m k = Some j \<longrightarrow> getKey (job_node j) = k))"

definition jobList :: "('k, 'n) jobs \<Rightarrow> 'n breadthFirstSearchJob list" where
  "jobList m = map snd (OM_alist m)"

lemma jobList_facts:
  assumes "jobsOk getKey m"
  shows "OM_Values zero m = jobList m" "map (getKey \<circ> job_node) (jobList m) = om_keys m" "distinct (map (getKey \<circ> job_node) (jobList m))"
    "i < length (jobList m) \<Longrightarrow> jobAt zero i m = jobList m ! i" "OM_Size m = length (jobList m)"
proof -
  have some: "\<exists>j. om_mp m k = Some j \<and> getKey (job_node j) = k" if "k \<in> set (om_keys m)" for k
  proof -
    have "k \<in> dom (om_mp m)" using assms that by (simp add: jobsOk_def OM_ok_def)
    then show ?thesis using assms by (auto simp: jobsOk_def)
  qed
  show keys: "map (getKey \<circ> job_node) (jobList m) = om_keys m"
    using some by (force simp: jobList_def OM_alist_def comp_def intro!: map_idI)
  show "distinct (map (getKey \<circ> job_node) (jobList m))" using assms by (simp add: keys jobsOk_def OM_ok_def)
  show vals: "OM_Values zero m = jobList m" using some by (force simp: OM_Values_def jobList_def OM_alist_def OM_GetOrZero_def)
  show "OM_Size m = length (jobList m)" by (simp add: OM_Size_def jobList_def OM_alist_def)
  assume "i < length (jobList m)"
  then show "jobAt zero i m = jobList m ! i"
    unfolding vals [symmetric] by (auto simp: jobAt_def OM_EntryAt_def OM_Values_def jobList_def OM_alist_def Let_def)
qed

lemma jobsOk_deleteKeys: "jobsOk getKey m \<Longrightarrow> \<exists>m'. deleteKeys ks m = Inr m' \<and> jobsOk getKey m'"
proof (induction ks arbitrary: m)
  case (Cons k ks)
  obtain m' where m': "OM_Delete k m = Inr (map_of (OM_alist m) k, m')" "OM_ok m'" "OM_alist m' = AList.delete k (OM_alist m)"
    using om.remove_law [of m k] Cons.prems by (auto simp: jobsOk_def)
  have "om_mp m' = (om_mp m)(k := None)"
    using map_of_OM_alist [OF m'(2)] map_of_OM_alist [of m] m'(3) Cons.prems delete_conv' [of k "OM_alist m"] by (simp add: jobsOk_def)
  then have "jobsOk getKey m'" using Cons.prems m'(2) by (auto simp: jobsOk_def split: if_splits)
  then show ?case using Cons.IH m'(1) by (simp add: Level_Delete_def bind_panic_def)
qed simp

definition addJob :: "('n \<Rightarrow> 'k) \<Rightarrow> 'n breadthFirstSearchJob \<Rightarrow> ('k, 'n) jobs \<Rightarrow> ('k, 'n) jobs" where
  "addJob getKey j nj = (if \<not> OM_Has (getKey (job_node j)) nj then OM_Set (getKey (job_node j)) j nj else nj)"

lemma dedupe_addJob: "dedupe getKey next = fold (addJob getKey) (concat next) newMapWithSizeHint"
proof -
  have "fold (\<lambda>js nj. fold (addJob getKey) js nj) next m = fold (addJob getKey) (concat next) m" for m
    by (induction "next" arbitrary: m) simp_all
  then show ?thesis by (simp add: dedupe_def addJob_def [abs_def])
qed

lemma om_mp_Set [simp]: "om_mp (OM_Set k v m) = (om_mp m)(k \<mapsto> v)"
  by (simp add: OM_Set_def Let_def)

lemma dedupe_facts:
  "jobsOk getKey (dedupe getKey next)"
  "dom (om_mp (dedupe getKey next)) = (getKey \<circ> job_node) ` set (concat next)"
  "ran (om_mp (dedupe getKey next)) \<subseteq> set (concat next)"
proof -
  have main: "jobsOk getKey m \<Longrightarrow> jobsOk getKey (fold (addJob getKey) js m)
      \<and> dom (om_mp (fold (addJob getKey) js m)) = dom (om_mp m) \<union> (getKey \<circ> job_node) ` set js
      \<and> ran (om_mp (fold (addJob getKey) js m)) \<subseteq> ran (om_mp m) \<union> set js" for js m
  proof (induction js arbitrary: m)
    case (Cons j js)
    have "jobsOk getKey (addJob getKey j m)" using Cons.prems by (auto simp: jobsOk_def addJob_def OM_ok_Set)
    moreover have "dom (om_mp (addJob getKey j m)) = insert (getKey (job_node j)) (dom (om_mp m))"
      by (auto simp: addJob_def OM_Has_def)
    moreover have "ran (om_mp (addJob getKey j m)) \<subseteq> insert j (ran (om_mp m))"
      by (auto simp: addJob_def OM_Has_def ran_def split: if_splits)
    ultimately show ?case using Cons.IH [of "addJob getKey j m"] by auto
  qed simp
  have "jobsOk getKey newMapWithSizeHint" "om_mp newMapWithSizeHint = Map.empty"
    by (simp_all add: jobsOk_def OM_ok_def newMapWithSizeHint_def)
  note start = main [OF this(1), of "concat next"] this(2)
  show "jobsOk getKey (dedupe getKey next)" unfolding dedupe_addJob using start by blast
  show "dom (om_mp (dedupe getKey next)) = (getKey \<circ> job_node) ` set (concat next)"
    unfolding dedupe_addJob using conjunct1 [OF conjunct2 [OF start(1)]] unfolding start(2) dom_empty Un_empty_left .
  show "ran (om_mp (dedupe getKey next)) \<subseteq> set (concat next)"
    unfolding dedupe_addJob using conjunct2 [OF conjunct2 [OF start(1)]] unfolding start(2) ran_empty Un_empty_left .
qed

definition levelRef :: "('n \<Rightarrow> 'n list) \<Rightarrow> ('n \<Rightarrow> bool \<times> bool) \<Rightarrow> ('n \<Rightarrow> 'k) \<Rightarrow> 'n breadthFirstSearchJob list \<Rightarrow> 'n breadthFirstSearchJob option
    \<Rightarrow> 'k set \<Rightarrow> ('k, 'n) levelResult" where
  "levelRef neighbors visit getKey js fallback vis =
     (case find (goalAt visit getKey js vis) [0..<length js] of
        Some g \<Rightarrow> LevelStop (js ! g)
      | None \<Rightarrow> LevelNext (dedupe getKey (map (\<lambda>j. if getKey (job_node j) \<in> vis then [] else childrenOf neighbors j) js))
          (case fallback of
             Some f \<Rightarrow> Some f
           | None \<Rightarrow> map_option ((!) js) (find (fallbackAt visit getKey True js vis) [0..<length js])))"

lemma processLevel_ref:
  assumes jobs: "deleteKeys (pre level) level = Inr jobs" "jobsOk getKey jobs"
  shows "processLevel neighbors visit getKey pre zero sched level fallback vis = Inr None
    \<or> (\<exists>vis'. processLevel neighbors visit getKey pre zero sched level fallback vis
          = Inr (Some (levelRef neighbors visit getKey (jobList jobs) fallback vis, vis'))
        \<and> (find (goalAt visit getKey (jobList jobs) vis) [0..<length (jobList jobs)] = None \<longrightarrow> vis' = vis \<union> set (om_keys jobs)))"
proof -
  let ?js = "jobList jobs"
  define st where "st = runSchedule neighbors visit getKey (fallback = None) ?js sched (startLevel vis (length ?js))"
  note facts = jobList_facts [OF jobs(2)]
  show ?thesis
  proof (cases "finished st")
    case False
    then show ?thesis unfolding processLevel_def jobs(1) bind_panic_def sum.case Let_def facts(1) [of zero] st_def [symmetric] by simp
  next
    case True
    note out = level_outcome [OF facts(3) st_def True]
    have keys: "vis \<union> (getKey \<circ> job_node) ` set ?js = vis \<union> set (om_keys jobs)" using facts(2) by (metis list.set_map)
    have run: "processLevel neighbors visit getKey pre zero sched level fallback vis =
      (case lowestGoal st of
            Some index \<Rightarrow> Inr (Some (LevelStop (jobAt zero index jobs), visited st))
          | None \<Rightarrow> Inr (Some (LevelNext (dedupe getKey (nextJobs st)) (case fallback of
                     Some f \<Rightarrow> Some f
                   | None \<Rightarrow> map_option (\<lambda>index. jobAt zero index jobs) (lowestFallback st)), visited st)))"
      unfolding processLevel_def jobs(1) bind_panic_def sum.case Let_def facts(1) [of zero] st_def [symmetric] using True by simp
    show ?thesis
    proof (cases "lowestGoal st")
      case None
      have "map_option (\<lambda>index. jobAt zero index jobs) (find P [0..<length ?js]) = map_option ((!) ?js) (find P [0..<length ?js])" for P
      proof (cases "find P [0..<length ?js]")
        case (Some i)
        then have "i < length ?js" by (simp add: find_first)
        then show ?thesis using Some facts(4) [of i zero] by simp
      qed simp
      then have "processLevel neighbors visit getKey pre zero sched level fallback vis
          = Inr (Some (levelRef neighbors visit getKey ?js fallback vis, vis \<union> set (om_keys jobs)))"
        using run None out(1) out(2) [OF None] keys by (cases fallback) (simp_all add: levelRef_def)
      then show ?thesis by blast
    next
      case (Some g)
      then have g: "find (goalAt visit getKey ?js vis) [0..<length ?js] = Some g" using out(1) by simp
      then have "g < length ?js" by (simp add: find_first)
      then show ?thesis using run Some g facts(4) [of g zero] by (simp add: levelRef_def)
    qed
  qed
qed

lemma processLevel_finishes:
  assumes jobs: "deleteKeys (pre level) level = Inr jobs"
  shows "\<exists>more. processLevel neighbors visit getKey pre zero (sched @ more) level fallback vis \<noteq> Inr None"
proof -
  let ?js = "OM_Values zero jobs"
  let ?st = "runSchedule neighbors visit getKey (fallback = None) ?js sched (startLevel vis (length ?js))"
  have "length (pcs (runSchedule neighbors visit getKey nf js sched st)) = length (pcs st)" for nf js st
    by (induction sched arbitrary: st) (simp_all add: runSchedule_def goStep_pcs)
  then have "length (pcs ?st) = length ?js" by (simp add: startLevel_def)
  then obtain more where "finished (runSchedule neighbors visit getKey (fallback = None) ?js more ?st)"
    using level_can_finish [of ?st ?js neighbors visit getKey "fallback = None"] by blast
  then have "finished (runSchedule neighbors visit getKey (fallback = None) ?js (sched @ more) (startLevel vis (length ?js)))" by (simp add: runSchedule_def)
  then have "processLevel neighbors visit getKey pre zero (sched @ more) level fallback vis \<noteq> Inr None"
    unfolding processLevel_def jobs bind_panic_def sum.case Let_def by (simp split: option.splits)
  then show ?thesis by blast
qed

section \<open>The search\<close>

lemma levelRef_next: "levelRef neighbors visit getKey js fallback vis = LevelNext level' fallback' \<Longrightarrow> jobsOk getKey level'"
  using dedupe_facts(1) by (auto simp: levelRef_def split: option.splits)

lemma searchLevels_deterministic:
  assumes "jobsOk getKey level"
  shows "\<exists>r1 r2. searchLevels neighbors visit getKey pre zero sa level fallback vis = Inr r1
    \<and> searchLevels neighbors visit getKey pre zero sb level fallback vis = Inr r2
    \<and> (\<forall>x y. r1 = Some x \<and> r2 = Some y \<longrightarrow> fst x = fst y)"
  using assms
proof (induction "length sa + length sb" arbitrary: sa sb level fallback vis rule: less_induct)
  case less
  obtain jobs where jobs: "deleteKeys (pre level) level = Inr jobs" "jobsOk getKey jobs" using jobsOk_deleteKeys [OF less.prems] by blast
  note ref = processLevel_ref [where pre = pre, OF jobs, of neighbors visit zero _ fallback vis]
  let ?r = "levelRef neighbors visit getKey (jobList jobs) fallback vis"
  have step: "searchLevels neighbors visit getKey pre zero s level fallback vis = Inr None
      \<or> (\<exists>job vis'. ?r = LevelStop job \<and> searchLevels neighbors visit getKey pre zero s level fallback vis = Inr (Some (\<lparr>Stopped = True, Path = createPath job\<rparr>, vis')))
      \<or> (\<exists>level' fallback' rest. ?r = LevelNext level' fallback' \<and> s \<noteq> [] \<and> rest = tl s
           \<and> searchLevels neighbors visit getKey pre zero s level fallback vis = searchLevels neighbors visit getKey pre zero rest level' fallback' (vis \<union> set (om_keys jobs)))"
    if "OM_Size level \<noteq> 0" for s
  proof (cases s)
    case Nil
    then show ?thesis using that by (simp add: searchLevels.simps [where scheds = "[]"])
  next
    case (Cons sched rest)
    show ?thesis
    proof (cases ?r)
      case (LevelStop job)
      then show ?thesis using ref [of sched] that Cons
        by (auto simp: searchLevels.simps [where scheds = "sched # rest"] bind_panic_def)
    next
      case (LevelNext level' fallback')
      then have "find (goalAt visit getKey (jobList jobs) vis) [0..<length (jobList jobs)] = None" by (auto simp: levelRef_def split: option.splits)
      then show ?thesis using ref [of sched] that Cons LevelNext
        by (auto simp: searchLevels.simps [where scheds = "sched # rest"] bind_panic_def)
    qed
  qed
  show ?case
  proof (cases "OM_Size level = 0")
    case True
    then show ?thesis by (simp add: searchLevels.simps)
  next
    case False
    show ?thesis
    proof (cases ?r)
      case (LevelStop job)
      then show ?thesis using step [OF False, of sa] step [OF False, of sb] by auto
    next
      case (LevelNext level' fallback')
      note ok' = levelRef_next [OF LevelNext]
      show ?thesis
      proof (cases "sa = [] \<or> sb = []")
        case True
        then show ?thesis using step [OF False, of sa] step [OF False, of sb] LevelNext
            less.hyps [OF _ ok', of "tl sa" "[]" fallback' "vis \<union> set (om_keys jobs)"] less.hyps [OF _ ok', of "[]" "tl sb" fallback' "vis \<union> set (om_keys jobs)"]
          by (cases sa; cases sb) auto
      next
        case nonempty: False
        then have "length (tl sa) + length (tl sb) < length sa + length sb" by (cases sa; cases sb) auto
        from less.hyps [OF this ok', of fallback' "vis \<union> set (om_keys jobs)"] show ?thesis
          using step [OF False, of sa] step [OF False, of sb] LevelNext by auto
      qed
    qed
  qed
qed

lemma both_results:
  "(\<forall>x y. r1 = Some x \<and> r2 = Some y \<longrightarrow> fst x = fst y) \<longleftrightarrow> (r1 = None \<or> r2 = None \<or> map_option fst r1 = map_option fst r2)"
  by (cases r1; cases r2) auto

lemma start_jobsOk: "jobsOk getKey (NewOrderedMapFromList [(getKey start, Job start None)])"
  by (auto simp: jobsOk_def NewOrderedMapFromList_def OM_ok_Set om.ok_empty) (simp add: newMapWithSizeHint_def split: if_splits)

text \<open>C14. The parallel search does not depend on the scheduling of its goroutines and never panics: for any seeded
  visited set, level preprocessing and key function, any two schedules under which it returns give the same
  result, the same stop flag and the same path.\<close>

theorem bfs_schedule_independent:
  "\<exists>r1 r2. BreadthFirstSearchParallelEx s1 start neighbors visit vis pre getKey = Inr r1
    \<and> BreadthFirstSearchParallelEx s2 start neighbors visit vis pre getKey = Inr r2
    \<and> (r1 = None \<or> r2 = None \<or> map_option fst r1 = map_option fst r2)"
  unfolding BreadthFirstSearchParallelEx_def by (rule searchLevels_deterministic [OF start_jobsOk, unfolded both_results])

section \<open>Shortest paths\<close>

text \<open>A path as the search returns it, from a node back to the start.\<close>

fun isPath :: "('n \<Rightarrow> 'n list) \<Rightarrow> 'n \<Rightarrow> 'n list \<Rightarrow> bool" where
  "isPath neighbors start [] = False"
| "isPath neighbors start [n] = (n = start)"
| "isPath neighbors start (n # p # ps) = (n \<in> set (neighbors p) \<and> isPath neighbors start (p # ps))"

definition reach :: "('n \<Rightarrow> 'n list) \<Rightarrow> 'n \<Rightarrow> nat \<Rightarrow> 'n set" where
  \<comment> \<open>the nodes with a path of \<open>d\<close> edges\<close>
  "reach neighbors start d = {n. \<exists>p. isPath neighbors start (n # p) \<and> length p = d}"

lemma reach_0: "reach neighbors start 0 = {start}" by (auto simp: reach_def)

lemma reach_Suc: "reach neighbors start (Suc d) = (\<Union>n \<in> reach neighbors start d. set (neighbors n))"
proof (intro set_eqI iffI)
  fix x
  assume "x \<in> reach neighbors start (Suc d)"
  then obtain p where "isPath neighbors start (x # p)" "length p = Suc d" by (auto simp: reach_def)
  then show "x \<in> (\<Union>n \<in> reach neighbors start d. set (neighbors n))" by (cases p) (auto simp: reach_def)
next
  fix x
  assume "x \<in> (\<Union>n \<in> reach neighbors start d. set (neighbors n))"
  then obtain n p where "x \<in> set (neighbors n)" "isPath neighbors start (n # p)" "length p = d" by (auto simp: reach_def)
  then show "x \<in> reach neighbors start (Suc d)" by (auto simp: reach_def intro!: exI [of _ "n # p"])
qed

definition closer :: "('n \<Rightarrow> 'n list) \<Rightarrow> 'n \<Rightarrow> nat \<Rightarrow> 'n set" where
  "closer neighbors start d = (\<Union>e < d. reach neighbors start e)"

lemma closer_Suc: "closer neighbors start (Suc d) = closer neighbors start d \<union> reach neighbors start d"
  by (auto simp: closer_def less_Suc_eq)

definition bestPath :: "('n \<Rightarrow> 'n list) \<Rightarrow> 'n \<Rightarrow> ('n \<Rightarrow> bool) \<Rightarrow> 'n list \<Rightarrow> bool" where
  "bestPath neighbors start P p =
     (isPath neighbors start p \<and> P (hd p) \<and> (\<forall>q. isPath neighbors start q \<and> P (hd q) \<longrightarrow> length p \<le> length q))"

lemma bestPathI:
  assumes "isPath neighbors start p" "P (hd p)" "length p = Suc d" "\<And>n. n \<in> closer neighbors start d \<Longrightarrow> \<not> P n"
  shows "bestPath neighbors start P p"
  unfolding bestPath_def
proof (intro conjI allI impI assms(1,2))
  fix q
  assume q: "isPath neighbors start q \<and> P (hd q)"
  then obtain n ps where "q = n # ps" by (cases q) auto
  then have "n \<in> reach neighbors start (length ps)" "P n" using q by (auto simp: reach_def)
  then have "\<not> length ps < d" using assms(4) [of n] by (auto simp: closer_def)
  then show "length p \<le> length q" using \<open>q = n # ps\<close> assms(3) by simp
qed

text \<open>The state of the search before level \<open>d\<close>: the visited nodes are those with a path of fewer than \<open>d\<close> edges; the jobs
  carry paths of \<open>d\<close> edges and miss no node that is not closer.\<close>

definition searchInv :: "('n \<Rightarrow> 'n list) \<Rightarrow> 'n \<Rightarrow> ('n \<Rightarrow> bool \<times> bool) \<Rightarrow> nat \<Rightarrow> ('n, 'n) jobs \<Rightarrow> 'n breadthFirstSearchJob option \<Rightarrow> 'n set \<Rightarrow> bool" where
  "searchInv neighbors start visit d level fallback vis =
     (jobsOk (\<lambda>n. n) level \<and> vis = closer neighbors start d
      \<and> (\<forall>j \<in> set (jobList level). isPath neighbors start (createPath j) \<and> length (createPath j) = Suc d)
      \<and> reach neighbors start d \<subseteq> vis \<union> set (om_keys level)
      \<and> (\<forall>n \<in> vis. visit n \<noteq> (True, True))
      \<and> (case fallback of None \<Rightarrow> \<forall>n \<in> vis. \<not> fst (visit n) | Some f \<Rightarrow> bestPath neighbors start (\<lambda>n. fst (visit n)) (createPath f)))"

lemma set_jobList: "jobsOk getKey m \<Longrightarrow> set (jobList m) = ran (om_mp m)"
  by (auto simp: jobsOk_def OM_ok_def jobList_def OM_alist_def ran_def image_iff) (metis domD option.sel, metis domI option.sel)

lemma hd_createPath: "hd (createPath j) = job_node j"
  by (cases "(j)" rule: createPath.cases) simp_all

lemma createPath_child: "createPath (Job n (Some j)) = n # createPath j" by simp

lemma keys_reach: "searchInv neighbors start visit d level fallback vis \<Longrightarrow> set (om_keys level) \<subseteq> reach neighbors start d"
proof
  fix n
  assume inv: "searchInv neighbors start visit d level fallback vis" and n: "n \<in> set (om_keys level)"
  then have "om_keys level = map job_node (jobList level)"
    using jobList_facts(2) [of "\<lambda>n. n" level] by (simp add: searchInv_def comp_def)
  then obtain j where j: "j \<in> set (jobList level)" "job_node j = n" using n by auto
  then have p: "isPath neighbors start (createPath j)" "length (createPath j) = Suc d" using inv by (auto simp: searchInv_def)
  then show "n \<in> reach neighbors start d"
    using hd_createPath [of j] j(2) by (cases "createPath j") (auto simp: reach_def)
qed

lemma searchInv_stop:
  assumes inv: "searchInv neighbors start visit d level fallback vis"
    and stop: "levelRef neighbors visit (\<lambda>n. n) (jobList level) fallback vis = LevelStop job"
  shows "bestPath neighbors start (\<lambda>n. visit n = (True, True)) (createPath job)"
proof -
  obtain g where g: "find (goalAt visit (\<lambda>n. n) (jobList level) vis) [0..<length (jobList level)] = Some g" "job = jobList level ! g"
    using stop by (auto simp: levelRef_def split: option.splits)
  then have "job \<in> set (jobList level)" "visit (job_node job) = (True, True)" by (auto simp: find_first goalAt_def)
  then show ?thesis using inv by (intro bestPathI [where d = d]) (auto simp: searchInv_def hd_createPath)
qed

lemma searchInv_next:
  assumes inv: "searchInv neighbors start visit d level fallback vis"
    and r: "levelRef neighbors visit (\<lambda>n. n) (jobList level) fallback vis = LevelNext level' fallback'"
  shows "searchInv neighbors start visit (Suc d) level' fallback' (vis \<union> set (om_keys level))"
proof -
  let ?js = "jobList level" and ?R = "reach neighbors start" and ?vis = "vis \<union> set (om_keys level)"
  let ?next = "map (\<lambda>j. if job_node j \<in> vis then [] else childrenOf neighbors j) ?js"
  have ok: "jobsOk (\<lambda>n. n) level" and vis: "vis = closer neighbors start d" using inv by (auto simp: searchInv_def)
  have keys: "om_keys level = map job_node ?js" using jobList_facts(2) [OF ok] by (simp add: comp_def)
  have vis': "?vis = closer neighbors start (Suc d)"
    using inv keys_reach [OF inv] by (auto simp: searchInv_def closer_Suc)
  have level': "level' = dedupe (\<lambda>n. n) ?next" and fb': "fallback' = (case fallback of Some f \<Rightarrow> Some f
      | None \<Rightarrow> map_option ((!) ?js) (find (fallbackAt visit (\<lambda>n. n) True ?js vis) [0..<length ?js]))"
    and nogoal: "find (goalAt visit (\<lambda>n. n) ?js vis) [0..<length ?js] = None"
    using r by (auto simp: levelRef_def split: option.splits)
  note dd = dedupe_facts [of "\<lambda>n. n" ?next, folded level']
  have fresh: "visit n \<noteq> (True, True)" if "n \<in> set (om_keys level)" "n \<notin> vis" for n
    using nogoal that unfolding keys by (auto simp: find_None_iff goalAt_def freshAt_def in_set_conv_nth)
  have paths: "isPath neighbors start (createPath j) \<and> length (createPath j) = Suc (Suc d)" if j: "j \<in> set (jobList level')" for j
  proof -
    have "j \<in> set (concat ?next)" using dd(3) set_jobList [OF dd(1)] j by blast
    then obtain p c where p: "p \<in> set ?js" "c \<in> set (neighbors (job_node p))" "j = Job c (Some p)"
      by (auto simp: childrenOf_def split: if_splits)
    then have "isPath neighbors start (createPath p)" "length (createPath p) = Suc d" using inv by (auto simp: searchInv_def)
    then show ?thesis using p hd_createPath [of p] by (cases "createPath p") auto
  qed
  have cover: "x \<in> ?vis \<union> set (om_keys level')" if x: "x \<in> ?R (Suc d)" for x
  proof -
    obtain n where n: "n \<in> ?R d" "x \<in> set (neighbors n)" using x by (auto simp: reach_Suc)
    show ?thesis
    proof (cases "n \<in> vis")
      case True
      then obtain e where "e < d" "n \<in> ?R e" by (auto simp: vis closer_def)
      then have "x \<in> ?R (Suc e)" "Suc e < Suc d" using n(2) by (auto simp: reach_Suc)
      then show ?thesis unfolding vis' closer_def by blast
    next
      case False
      then have "n \<in> set (om_keys level)" using inv n(1) by (auto simp: searchInv_def)
      then obtain p where p: "p \<in> set ?js" "job_node p = n" by (auto simp: keys)
      then have "Job x (Some p) \<in> set (concat ?next)" using n(2) False by (auto simp: childrenOf_def intro!: bexI [of _ p])
      then have "x \<in> dom (om_mp level')" unfolding dd(2) by force
      then show ?thesis using dd(1) by (auto simp: jobsOk_def OM_ok_def)
    qed
  qed
  have fb: "case fallback' of None \<Rightarrow> \<forall>n \<in> ?vis. \<not> fst (visit n) | Some f \<Rightarrow> bestPath neighbors start (\<lambda>n. fst (visit n)) (createPath f)"
  proof (cases fallback)
    case (Some f)
    then show ?thesis using fb' inv by (simp add: searchInv_def)
  next
    case None
    then have old: "\<forall>n \<in> vis. \<not> fst (visit n)" using inv by (simp add: searchInv_def)
    show ?thesis
    proof (cases "find (fallbackAt visit (\<lambda>n. n) True ?js vis) [0..<length ?js]")
      case none: None
      have "\<not> fst (visit n)" if "n \<in> set (om_keys level)" "n \<notin> vis" for n
        using none fresh [OF that] that unfolding keys
        by (cases "visit n") (auto simp: find_None_iff fallbackAt_def freshAt_def in_set_conv_nth)
      then show ?thesis using None none old fb' by auto
    next
      case (Some i)
      then have i: "?js ! i \<in> set ?js" "visit (job_node (?js ! i)) = (True, False)" by (auto simp: find_first fallbackAt_def)
      then have "bestPath neighbors start (\<lambda>n. fst (visit n)) (createPath (?js ! i))"
        using inv old by (intro bestPathI [where d = d]) (auto simp: searchInv_def hd_createPath)
      then show ?thesis using None Some fb' by simp
    qed
  qed
  have "\<forall>n \<in> ?vis. visit n \<noteq> (True, True)" using fresh inv by (auto simp: searchInv_def)
  then show ?thesis unfolding searchInv_def using dd(1) vis' paths cover fb by blast
qed

definition correctResult :: "('n \<Rightarrow> 'n list) \<Rightarrow> 'n \<Rightarrow> ('n \<Rightarrow> bool \<times> bool) \<Rightarrow> 'n BreadthFirstSearchResult \<Rightarrow> bool" where
  "correctResult neighbors start visit r =
     (if Stopped r then bestPath neighbors start (\<lambda>n. visit n = (True, True)) (Path r)
      else (\<forall>q. isPath neighbors start q \<longrightarrow> visit (hd q) \<noteq> (True, True))
        \<and> (if Path r = [] then \<forall>q. isPath neighbors start q \<longrightarrow> \<not> fst (visit (hd q))
           else bestPath neighbors start (\<lambda>n. fst (visit n)) (Path r)))"

lemma all_reached:
  assumes "reach neighbors start d \<subseteq> closer neighbors start d" and q: "isPath neighbors start q"
  shows "hd q \<in> closer neighbors start d"
proof -
  have sub: "reach neighbors start e \<subseteq> closer neighbors start d" for e
  proof (induction e)
    case 0
    then show ?case using assms(1) by (cases d) (auto simp: closer_def reach_0 intro!: bexI [of _ 0])
  next
    case (Suc e)
    have "set (neighbors n) \<subseteq> closer neighbors start d" if "n \<in> closer neighbors start d" for n
    proof -
      obtain e' where "e' < d" "n \<in> reach neighbors start e'" using \<open>n \<in> closer neighbors start d\<close> by (auto simp: closer_def)
      then have "set (neighbors n) \<subseteq> reach neighbors start (Suc e')" "Suc e' \<le> d" by (auto simp: reach_Suc)
      moreover have "reach neighbors start (Suc e') \<subseteq> closer neighbors start d" if "Suc e' < d" using that by (auto simp: closer_def)
      ultimately show ?thesis using assms(1) by (metis le_neq_implies_less order_trans)
    qed
    then show ?case using Suc by (auto simp: reach_Suc)
  qed
  obtain n ps where "q = n # ps" using q by (cases q) auto
  then show ?thesis using q sub [of "length ps"] by (auto simp: reach_def)
qed

lemma searchInv_empty:
  assumes inv: "searchInv neighbors start visit d level fallback vis" and empty: "OM_Size level = 0"
  shows "correctResult neighbors start visit \<lparr>Stopped = False, Path = createPathOpt fallback\<rparr>"
proof -
  have vis: "vis = closer neighbors start d" and sub: "reach neighbors start d \<subseteq> closer neighbors start d"
    using inv empty by (auto simp: searchInv_def OM_Size_def)
  note all = all_reached [OF sub]
  have no: "createPath f \<noteq> []" for f :: "'a breadthFirstSearchJob" by (cases f rule: createPath.cases) simp_all
  show ?thesis using inv all no unfolding vis
    by (cases fallback) (auto simp: correctResult_def searchInv_def createPathOpt_def)
qed

lemma plain_level:
  assumes ok: "jobsOk (\<lambda>n. n) level" and run: "processLevel neighbors visit (\<lambda>n. n) (\<lambda>_. []) zero sched level fallback vis \<noteq> Inr None"
  obtains vis' where "processLevel neighbors visit (\<lambda>n. n) (\<lambda>_. []) zero sched level fallback vis
      = Inr (Some (levelRef neighbors visit (\<lambda>n. n) (jobList level) fallback vis, vis'))"
    "\<And>l f. levelRef neighbors visit (\<lambda>n. n) (jobList level) fallback vis = LevelNext l f \<Longrightarrow> vis' = vis \<union> set (om_keys level)"
proof -
  have "find (goalAt visit (\<lambda>n. n) (jobList level) vis) [0..<length (jobList level)] = None"
    if "levelRef neighbors visit (\<lambda>n. n) (jobList level) fallback vis = LevelNext l f" for l f
    using that by (auto simp: levelRef_def split: option.splits)
  note goal = this
  obtain vis' where v: "processLevel neighbors visit (\<lambda>n. n) (\<lambda>_. []) zero sched level fallback vis
      = Inr (Some (levelRef neighbors visit (\<lambda>n. n) (jobList level) fallback vis, vis'))"
    "find (goalAt visit (\<lambda>n. n) (jobList level) vis) [0..<length (jobList level)] = None \<longrightarrow> vis' = vis \<union> set (om_keys level)"
    using processLevel_ref [where pre = "\<lambda>_. []" and jobs = level and level = level and getKey = "\<lambda>n. n" and neighbors = neighbors
        and visit = visit and zero = zero and sched = sched and fallback = fallback and vis = vis] ok run by auto
  show thesis
  proof (rule that [OF v(1)])
    fix l f
    assume "levelRef neighbors visit (\<lambda>n. n) (jobList level) fallback vis = LevelNext l f"
    then show "vis' = vis \<union> set (om_keys level)" using v(2) by (simp add: goal)
  qed
qed

lemma searchLevels_correct:
  assumes "searchInv neighbors start visit d level fallback vis"
    and "searchLevels neighbors visit (\<lambda>n. n) (\<lambda>_. []) zero scheds level fallback vis = Inr (Some (r, vis'))"
  shows "correctResult neighbors start visit r"
  using assms
proof (induction scheds arbitrary: d level fallback vis)
  case Nil
  then show ?case using searchInv_empty [OF Nil.prems(1)] by (auto simp: searchLevels.simps [where scheds = "[]"] split: if_splits)
next
  case (Cons sched rest)
  show ?case
  proof (cases "OM_Size level = 0")
    case True
    then show ?thesis using searchInv_empty [OF Cons.prems(1)] Cons.prems(2) by (auto simp: searchLevels.simps [where scheds = "sched # rest"])
  next
    case False
    have ok: "jobsOk (\<lambda>n. n) level" using Cons.prems(1) by (simp add: searchInv_def)
    let ?r = "levelRef neighbors visit (\<lambda>n. n) (jobList level) fallback vis"
    have "processLevel neighbors visit (\<lambda>n. n) (\<lambda>_. []) zero sched level fallback vis \<noteq> Inr None"
      using Cons.prems(2) False by (auto simp: searchLevels.simps [where scheds = "sched # rest"] bind_panic_def)
    from plain_level [OF ok this] obtain vis1
      where run: "processLevel neighbors visit (\<lambda>n. n) (\<lambda>_. []) zero sched level fallback vis = Inr (Some (?r, vis1))"
        "\<And>l f. ?r = LevelNext l f \<Longrightarrow> vis1 = vis \<union> set (om_keys level)" by metis
    show ?thesis
    proof (cases ?r)
      case (LevelStop job)
      then have "r = \<lparr>Stopped = True, Path = createPath job\<rparr>"
        using Cons.prems(2) run(1) False by (simp add: searchLevels.simps [where scheds = "sched # rest"] bind_panic_def)
      then show ?thesis using searchInv_stop [OF Cons.prems(1) LevelStop] by (simp add: correctResult_def)
    next
      case (LevelNext level' fallback')
      then have "vis1 = vis \<union> set (om_keys level)" by (rule run(2))
      then have "searchLevels neighbors visit (\<lambda>n. n) (\<lambda>_. []) zero rest level' fallback' (vis \<union> set (om_keys level)) = Inr (Some (r, vis'))"
        using Cons.prems(2) run(1) LevelNext False by (simp add: searchLevels.simps [where scheds = "sched # rest"] bind_panic_def)
      then show ?thesis by (rule Cons.IH [OF searchInv_next [OF Cons.prems(1) LevelNext]])
    qed
  qed
qed

lemma searchInv_start:
  "searchInv neighbors start visit 0 (NewOrderedMapFromList [(start, Job start None)]) None {}"
  using start_jobsOk [of "\<lambda>n. n" start]
  by (simp add: searchInv_def closer_def reach_0) (simp add: NewOrderedMapFromList_def OM_Set_def newMapWithSizeHint_def jobList_def OM_alist_def)

text \<open>The steps of a level with one job, for running a search on a concrete graph.\<close>

lemma single_job_step: "goStep N V K nf [j] 0 \<lparr>lowestGoal = g, lowestFallback = f, visited = vis, nextJobs = [x], pcs = [p]\<rparr> =
  (case p of
        PStart \<Rightarrow> \<lparr>lowestGoal = g, lowestFallback = f, visited = vis, nextJobs = [x], pcs = [if isAtLeast 0 g then PDone else PAdd]\<rparr>
      | PAdd \<Rightarrow> if K (job_node j) \<in> vis then \<lparr>lowestGoal = g, lowestFallback = f, visited = vis, nextJobs = [x], pcs = [PDone]\<rparr>
         else \<lparr>lowestGoal = g, lowestFallback = f, visited = insert (K (job_node j)) vis, nextJobs = [x], pcs = [PVisit]\<rparr>
      | PVisit \<Rightarrow> \<lparr>lowestGoal = g, lowestFallback = f, visited = vis, nextJobs = [x], pcs = [
         if fst (V (job_node j)) \<and> snd (V (job_node j)) then PGoalLoad else if fst (V (job_node j)) \<and> nf then PFallbackLoad else PRecheck]\<rparr>
      | PGoalLoad \<Rightarrow> \<lparr>lowestGoal = g, lowestFallback = f, visited = vis, nextJobs = [x], pcs = [if below g 0 then PDone else PGoalSwap g]\<rparr>
      | PGoalSwap c \<Rightarrow> if g = c then \<lparr>lowestGoal = Some 0, lowestFallback = f, visited = vis, nextJobs = [x], pcs = [PDone]\<rparr>
         else \<lparr>lowestGoal = g, lowestFallback = f, visited = vis, nextJobs = [x], pcs = [PGoalLoad]\<rparr>
      | PFallbackLoad \<Rightarrow> \<lparr>lowestGoal = g, lowestFallback = f, visited = vis, nextJobs = [x], pcs = [if below f 0 then PRecheck else PFallbackSwap f]\<rparr>
      | PFallbackSwap c \<Rightarrow> if f = c then \<lparr>lowestGoal = g, lowestFallback = Some 0, visited = vis, nextJobs = [x], pcs = [PRecheck]\<rparr>
         else \<lparr>lowestGoal = g, lowestFallback = f, visited = vis, nextJobs = [x], pcs = [PFallbackLoad]\<rparr>
      | PRecheck \<Rightarrow> \<lparr>lowestGoal = g, lowestFallback = f, visited = vis, nextJobs = [x], pcs = [if isAtLeast 0 g then PDone else PExpand]\<rparr>
      | PExpand \<Rightarrow> \<lparr>lowestGoal = g, lowestFallback = f, visited = vis, nextJobs = [map (\<lambda>child. Job child (Some j)) (N (job_node j))], pcs = [PDone]\<rparr>
      | PDone \<Rightarrow> \<lparr>lowestGoal = g, lowestFallback = f, visited = vis, nextJobs = [x], pcs = [p]\<rparr>)"
  by (cases p) (simp_all add: goStep_def jump_def case_prod_beta Let_def)
text \<open>C2. A search that returns is right, under every schedule. When it stopped, its path leads from a node on which
  \<open>visit\<close> asked to stop back to the start, and no path to such a node is shorter. When it did not, there is no
  such node among those that can be reached; its path then is a shortest one to a node that \<open>visit\<close>
  accepted, and is empty only if there is none.\<close>

theorem bfs_shortest:
  assumes "BreadthFirstSearchParallel scheds start neighbors visit = Inr (Some r)"
  shows "correctResult neighbors start visit r"
proof -
  obtain vis' where "searchLevels neighbors visit (\<lambda>n. n) (\<lambda>_. []) (Job start None) scheds (NewOrderedMapFromList [(start, Job start None)]) None {} = Inr (Some (r, vis'))"
    using assms unfolding BreadthFirstSearchParallel_def BreadthFirstSearchParallelEx_def bind_panic_def
    by (auto split: sum.splits)
  then show ?thesis by (rule searchLevels_correct [OF searchInv_start])
qed

theorem bfs_shortest_witness:
  "\<exists>r. BreadthFirstSearchParallel [[0, 0, 0, 0, 0], [0, 0, 0, 0, 0]] (0 :: nat) (\<lambda>n. [Suc n]) (\<lambda>n. (n = 1, True)) = Inr (Some r)
     \<and> Path r = [1, 0] \<and> correctResult (\<lambda>n. [Suc n]) 0 (\<lambda>n. (n = 1, True)) r"
proof -
  let ?l0 = "\<lparr>om_keys = [0 :: nat], om_mp = [0 \<mapsto> Job 0 None]\<rparr>"
  let ?l1 = "\<lparr>om_keys = [1 :: nat], om_mp = [1 \<mapsto> Job 1 (Some (Job 0 None))]\<rparr>"
  let ?search = "processLevel (\<lambda>n. [Suc n]) (\<lambda>n. (n = 1, True)) (\<lambda>n. n) (\<lambda>_. []) (Job 0 None) [0, 0, 0, 0, 0]"
  note defs = processLevel_def bind_panic_def newMapWithSizeHint_def OM_Set_def OM_Values_def OM_GetOrZero_def OM_EntryAt_def OM_Has_def
    runSchedule_def startLevel_def single_job_step below_def finished_def dedupe_def jobAt_def
  have levels: "?search ?l0 None {} = Inr (Some (LevelNext ?l1 None, {0}))"
    "?search ?l1 None {0} = Inr (Some (LevelStop (Job 1 (Some (Job 0 None))), {0, 1}))"
    by (simp add: defs) (simp add: defs insert_commute)
  have start: "NewOrderedMapFromList [(0, Job 0 None)] = ?l0" by (simp add: NewOrderedMapFromList_def newMapWithSizeHint_def OM_Set_def)
  have run: "BreadthFirstSearchParallel [[0, 0, 0, 0, 0], [0, 0, 0, 0, 0]] (0 :: nat) (\<lambda>n. [Suc n]) (\<lambda>n. (n = 1, True))
      = Inr (Some \<lparr>Stopped = True, Path = [1, 0]\<rparr>)"
    unfolding BreadthFirstSearchParallel_def BreadthFirstSearchParallelEx_def start
      searchLevels.simps [where scheds = "[[0, 0, 0, 0, 0], [0, 0, 0, 0, 0]]"]
    using levels by (simp add: bind_panic_def OM_Size_def searchLevels.simps [where scheds = "[[0, 0, 0, 0, 0]]"])
  show ?thesis using bfs_shortest [OF run] run by auto
qed

text \<open>A level without a fresh node is followed by an empty one; any other one visits more of the graph.\<close>

lemma stale_level_ends:
  assumes "jobsOk (\<lambda>n. n) level" "set (om_keys level) \<subseteq> vis"
    "levelRef neighbors visit (\<lambda>n. n) (jobList level) fallback vis = LevelNext level' fallback'"
  shows "OM_Size level' = 0"
proof -
  have "job_node j \<in> vis" if "j \<in> set (jobList level)" for j
    using jobList_facts(2) [OF assms(1)] assms(2) that by (metis comp_apply image_eqI list.set_map subsetD)
  then have "concat (map (\<lambda>j. if job_node j \<in> vis then [] else childrenOf neighbors j) (jobList level)) = []" by auto
  moreover have "level' = dedupe (\<lambda>n. n) (map (\<lambda>j. if job_node j \<in> vis then [] else childrenOf neighbors j) (jobList level))"
    using assms(3) by (auto simp: levelRef_def split: option.splits)
  ultimately show ?thesis by (simp add: dedupe_addJob OM_Size_def newMapWithSizeHint_def del: concat_eq_Nil_conv)
qed

fun continues :: "nat list list \<Rightarrow> nat list list \<Rightarrow> bool" where
  \<comment> \<open>the schedules of the levels go on with more steps, and there may be more levels\<close>
  "continues [] scheds' = True"
| "continues (s # scheds) [] = False"
| "continues (s # scheds) (s' # scheds') = ((\<exists>more. s' = s @ more) \<and> continues scheds scheds')"

lemma continues_refl: "continues scheds scheds"
  by (induction scheds) simp_all

lemma searchLevels_returns:
  assumes fin: "finite (\<Union>d. reach neighbors start d)" and "searchInv neighbors start visit d level fallback vis"
  shows "\<exists>scheds' r. continues scheds scheds' \<and> searchLevels neighbors visit (\<lambda>n. n) (\<lambda>_. []) zero scheds' level fallback vis = Inr (Some r)"
  using assms(2)
proof (induction "2 * card ((\<Union>d. reach neighbors start d) - vis) + (if OM_Size level = 0 then 0 else 1)" arbitrary: d level fallback vis scheds
    rule: less_induct)
  case less
  let ?A = "\<Union>d. reach neighbors start d"
  show ?case
  proof (cases "OM_Size level = 0")
    case True
    then show ?thesis using continues_refl by (intro exI [of _ scheds]) (simp add: searchLevels.simps)
  next
    case False
    have ok: "jobsOk (\<lambda>n. n) level" using less.prems by (simp add: searchInv_def)
    let ?r = "levelRef neighbors visit (\<lambda>n. n) (jobList level) fallback vis"
    define s ss where "s = (case scheds of [] \<Rightarrow> [] | s # _ \<Rightarrow> s)" and "ss = tl scheds"
    have go: "continues scheds ((s @ more) # ss')" if "continues ss ss'" for more ss' using that by (cases scheds) (simp_all add: s_def ss_def)
    obtain sched more where sched: "sched = s @ more" "processLevel neighbors visit (\<lambda>n. n) (\<lambda>_. []) zero sched level fallback vis \<noteq> Inr None"
      using processLevel_finishes [where sched = s and pre = "\<lambda>_. []" and jobs = level and level = level and getKey = "\<lambda>n. n" and neighbors = neighbors
        and visit = visit and zero = zero and fallback = fallback and vis = vis] by auto
    from plain_level [OF ok sched(2)] obtain vis1
      where run: "processLevel neighbors visit (\<lambda>n. n) (\<lambda>_. []) zero sched level fallback vis = Inr (Some (?r, vis1))"
        "\<And>l f. ?r = LevelNext l f \<Longrightarrow> vis1 = vis \<union> set (om_keys level)" by metis
    show ?thesis
    proof (cases ?r)
      case (LevelStop job)
      then show ?thesis using run(1) False go [OF continues_refl, of more] sched(1)
        by (intro exI [of _ "(s @ more) # ss"]) (simp add: searchLevels.simps [where scheds = "(s @ more) # ss"] bind_panic_def)
    next
      case (LevelNext level' fallback')
      let ?vis = "vis \<union> set (om_keys level)"
      have smaller: "2 * card (?A - ?vis) + (if OM_Size level' = 0 then 0 else 1) < 2 * card (?A - vis) + (if OM_Size level = 0 then 0 else 1)"
      proof (cases "set (om_keys level) \<subseteq> vis")
        case True
        then show ?thesis using stale_level_ends [OF ok True LevelNext] False by (simp add: Un_absorb2)
      next
        case fresh: False
        have "set (om_keys level) \<subseteq> ?A" using keys_reach [OF less.prems] by blast
        then have "?A - ?vis \<subset> ?A - vis" using fresh by blast
        then have "card (?A - ?vis) < card (?A - vis)" using fin by (intro psubset_card_mono) auto
        then show ?thesis by simp
      qed
      have "vis1 = ?vis" using LevelNext by (rule run(2))
      then have cont: "searchLevels neighbors visit (\<lambda>n. n) (\<lambda>_. []) zero (sched # rest) level fallback vis
          = searchLevels neighbors visit (\<lambda>n. n) (\<lambda>_. []) zero rest level' fallback' ?vis" for rest
        using run(1) LevelNext False by (simp add: searchLevels.simps [where scheds = "sched # rest"] bind_panic_def)
      obtain rest r where "continues ss rest" "searchLevels neighbors visit (\<lambda>n. n) (\<lambda>_. []) zero rest level' fallback' ?vis = Inr (Some r)"
        using less.hyps [OF smaller searchInv_next [OF less.prems LevelNext]] by blast
      then show ?thesis using cont go sched(1) by metis
    qed
  qed
qed

text \<open>C23. The search can always be brought to its end on a finite graph: when finitely many nodes can be reached from the start, then whatever
  steps the goroutines of the levels have taken so far, in any order, the schedules can be continued with more steps, and with more levels, to ones
  under which the search returns. So no state of a level blocks the search, and there are schedules under which it returns.\<close>

theorem bfs_returns:
  assumes "finite {n. \<exists>p. isPath neighbors start (n # p)}"
  shows "\<forall>scheds. \<exists>scheds' r. continues scheds scheds' \<and> BreadthFirstSearchParallel scheds' start neighbors visit = Inr (Some r)"
proof
  fix scheds
  have "(\<Union>d. reach neighbors start d) = {n. \<exists>p. isPath neighbors start (n # p)}" by (auto simp: reach_def)
  then obtain scheds' r where "continues scheds scheds'" "searchLevels neighbors visit (\<lambda>n. n) (\<lambda>_. []) (Job start None) scheds'
      (NewOrderedMapFromList [(start, Job start None)]) None {} = Inr (Some r)"
    using searchLevels_returns [OF _ searchInv_start] assms by metis
  then show "\<exists>scheds' r. continues scheds scheds' \<and> BreadthFirstSearchParallel scheds' start neighbors visit = Inr (Some r)"
    unfolding BreadthFirstSearchParallel_def BreadthFirstSearchParallelEx_def bind_panic_def
    by (intro exI [of _ scheds'] exI [of _ "fst r"]) simp
qed

theorem bfs_returns_witness:
  "\<exists>scheds' r. continues [[0, 0, 0], [1]] scheds'
     \<and> BreadthFirstSearchParallel scheds' (0 :: nat) (\<lambda>n. if n < 3 then [Suc n, 0] else []) (\<lambda>n. (n = 3, True)) = Inr (Some r)"
proof -
  have "isPath (\<lambda>n. if n < 3 then [Suc n, 0] else []) 0 (n # p) \<Longrightarrow> n \<le> (3 :: nat)" for n p
    by (cases p) (auto split: if_splits)
  then have "finite {n. \<exists>p. isPath (\<lambda>n. if n < 3 then [Suc n, 0] else []) (0 :: nat) (n # p)}"
    by (intro finite_subset [OF _ finite_atMost [of 3]] subsetI) blast
  then show ?thesis by (rule bfs_returns [THEN spec])
qed

end
