(* ===== verification/Jsonrpc.thy ===== *)
theory Jsonrpc
  imports Semver_Roundtrip Utf8
begin

text \<open>
  \<open>internal/jsonrpc\<close>: the framing of messages with \<open>Content-Length\<close> headers (\<open>baseproto.go\<close>) and the message types
  (\<open>jsonrpc.go\<close>). A stream is the list of the bytes that are still to come, at whose end the reader sees
  \<open>io.EOF\<close>; other errors of the underlying reader and writer are not modelled. The encoder and decoder
  of JSON values are parameters, as is the largest slice that \<open>make\<close> can allocate.
\<close>

section \<open>Reader\<close>

datatype rpcError =
    EOF
  | ErrInvalidHeader string
  | ErrInvalidContentLength string \<comment> \<open>the text of the value\<close>
  | ErrNoContentLength
  | ReadContent \<comment> \<open>\<open>io.ReadFull\<close> found fewer bytes\<close>
  | MakePanic \<comment> \<open>\<open>makeslice: len out of range\<close>\<close>

definition newline :: char where "newline = CHR 0x0A"

definition crlf :: string where "crlf = [CHR 0x0D, CHR 0x0A]"

fun ReadBytes :: "string \<Rightarrow> (string \<times> string) option" where
  \<comment> \<open>\<open>ReadBytes('\n')\<close>: the bytes up to and with the delimiter, and those after it; \<open>None\<close> is \<open>io.EOF\<close>\<close>
  "ReadBytes [] = None"
| "ReadBytes (c # s) = (if c = newline then Some ([c], s) else map_option (\<lambda>(l, r). (c # l, r)) (ReadBytes s))"

fun bytesCut :: "char \<Rightarrow> string \<Rightarrow> (string \<times> string) option" where
  \<comment> \<open>\<open>bytes.Cut\<close> for a separator of one byte\<close>
  "bytesCut sep [] = None"
| "bytesCut sep (c # s) = (if c = sep then Some ([], s) else map_option (\<lambda>(l, r). (c # l, r)) (bytesCut sep s))"

definition ParseInt64 :: "string \<Rightarrow> int option" where
  \<comment> \<open>\<open>strconv.ParseInt(s, 10, 64)\<close>; \<open>None\<close> is its error\<close>
  "ParseInt64 s =
     (let neg = (s \<noteq> [] \<and> hd s = CHR ''-'');
          digits = (if s \<noteq> [] \<and> (hd s = CHR ''-'' \<or> hd s = CHR ''+'') then tl s else s);
          n = int (digitsValue 0 digits)
      in if digits = [] \<or> \<not> list_all isDigitByte digits then None
         else if neg then (if n \<le> 2 ^ 63 then Some (- n) else None)
         else (if n < 2 ^ 63 then Some n else None))"

lemma ReadBytes_shorter: "ReadBytes s = Some (l, r) \<Longrightarrow> length r < length s"
  by (induction s arbitrary: l r) (force split: if_splits)+

text \<open>The loop over the header lines: the content length so far, and the bytes to come.\<close>

function readHeaders :: "int \<Rightarrow> string \<Rightarrow> rpcError + int \<times> string" where
  "readHeaders contentLength s =
     (case ReadBytes s of
        None \<Rightarrow> Inl EOF
      | Some (line, rest) \<Rightarrow>
          if line = crlf then Inr (contentLength, rest)
          else case bytesCut (CHR '':'') line of
            None \<Rightarrow> Inl (ErrInvalidHeader line)
          | Some (key, val) \<Rightarrow>
              if key = ''Content-Length'' then
                (case ParseInt64 (TrimSpace val) of
                   None \<Rightarrow> Inl (ErrInvalidContentLength (TrimSpace val))
                 | Some n \<Rightarrow> if n < 0 then Inl (ErrInvalidContentLength (TrimSpace val)) else readHeaders n rest)
              else readHeaders contentLength rest)"
  by pat_completeness auto
termination
  by (relation "measure (\<lambda>(n, s). length s)") (auto dest: ReadBytes_shorter)

declare readHeaders.simps [simp del]

definition Reader_Read :: "int \<Rightarrow> string \<Rightarrow> (rpcError + string) \<times> string" where
  \<comment> \<open>the result and what is left of the stream; after an error, the stream is not used further here\<close>
  "Reader_Read maxAlloc s =
     (case readHeaders 0 s of
        Inl e \<Rightarrow> (Inl e, s)
      | Inr (contentLength, rest) \<Rightarrow>
          if contentLength \<le> 0 then (Inl ErrNoContentLength, rest)
          else if contentLength > maxAlloc then (Inl MakePanic, rest)
          else if int (length rest) < contentLength then (Inl ReadContent, [])
          else (Inr (take (nat contentLength) rest), drop (nat contentLength) rest))"

section \<open>Writer\<close>

definition Writer_Write :: "string \<Rightarrow> string" where
  \<comment> \<open>the bytes that reach the stream\<close>
  "Writer_Write data = ''Content-Length: '' @ showNat (length data) @ crlf @ crlf @ data"

section \<open>Messages\<close>

record ID =
  id_str :: string
  id_int :: "32 word"

definition NewID :: "string option \<Rightarrow> 32 word option \<Rightarrow> ID or_panic" where
  \<comment> \<open>of an \<open>IntegerOrString\<close> with its two pointers\<close>
  "NewID rawString rawInteger =
     (case rawString of
        Some s \<Rightarrow> Inr \<lparr>id_str = s, id_int = 0\<rparr>
      | None \<Rightarrow> (case rawInteger of Some i \<Rightarrow> Inr \<lparr>id_str = [], id_int = i\<rparr> | None \<Rightarrow> Inl ''nil pointer dereference''))"

definition NewIDString :: "string \<Rightarrow> ID" where "NewIDString s = \<lparr>id_str = s, id_int = 0\<rparr>"

definition NewIDInt :: "32 word \<Rightarrow> ID" where "NewIDInt i = \<lparr>id_str = [], id_int = i\<rparr>"

definition showInt :: "int \<Rightarrow> string" where
  \<comment> \<open>\<open>strconv.Itoa\<close>\<close>
  "showInt i = (if i < 0 then CHR ''-'' # showNat (nat (- i)) else showNat (nat i))"

definition ID_String :: "ID \<Rightarrow> string" where
  "ID_String i = (if id_str i \<noteq> [] then id_str i else showInt (sint (id_int i)))"

definition ID_MarshalJSON :: "(string \<Rightarrow> 'e + string) \<Rightarrow> (32 word \<Rightarrow> 'e + string) \<Rightarrow> ID \<Rightarrow> 'e + string" where
  "ID_MarshalJSON marshalString marshalInt i = (if id_str i \<noteq> [] then marshalString (id_str i) else marshalInt (id_int i))"

definition ID_UnmarshalJSON :: "(string \<Rightarrow> 'e + string) \<Rightarrow> (string \<Rightarrow> 'e + 32 word) \<Rightarrow> string \<Rightarrow> 'e + ID" where
  "ID_UnmarshalJSON unmarshalString unmarshalInt data =
     (if data \<noteq> [] \<and> hd data = CHR 0x22
      then (case unmarshalString data of Inl e \<Rightarrow> Inl e | Inr s \<Rightarrow> Inr \<lparr>id_str = s, id_int = 0\<rparr>)
      else (case unmarshalInt data of Inl e \<Rightarrow> Inl e | Inr i \<Rightarrow> Inr \<lparr>id_str = [], id_int = i\<rparr>))"

definition ID_TryInt :: "ID option \<Rightarrow> 32 word \<times> bool" where
  "ID_TryInt i = (case i of None \<Rightarrow> (0, False) | Some x \<Rightarrow> if id_str x \<noteq> [] then (0, False) else (id_int x, True))"

definition ID_MustInt :: "ID \<Rightarrow> 32 word or_panic" where
  "ID_MustInt i = (if id_str i \<noteq> [] then Inl ''ID is not an integer'' else Inr (id_int i))"

definition JSONRPCVersion_UnmarshalJSON :: "string \<Rightarrow> string option" where
  \<comment> \<open>the error, if any\<close>
  "JSONRPCVersion_UnmarshalJSON data =
     (if data \<noteq> [CHR 0x22, CHR ''2'', CHR ''.'', CHR ''0'', CHR 0x22] then Some ''invalid JSON-RPC version'' else None)"

datatype MessageKind = MessageKindNotification | MessageKindRequest | MessageKindResponse

record Message =
  msg_ID :: "ID option"
  msg_Method :: string

definition Message_Kind :: "Message \<Rightarrow> MessageKind" where
  "Message_Kind m =
     (if msg_ID m \<noteq> None \<and> msg_Method m = [] then MessageKindResponse
      else if msg_ID m = None then MessageKindNotification
      else MessageKindRequest)"

definition Message_IsRequest :: "Message \<Rightarrow> bool" where
  "Message_IsRequest m = (msg_ID m \<noteq> None \<and> msg_Method m \<noteq> [])"

definition Message_IsNotification :: "Message \<Rightarrow> bool" where
  "Message_IsNotification m = (msg_ID m = None \<and> msg_Method m \<noteq> [])"

definition Message_IsResponse :: "Message \<Rightarrow> bool" where
  "Message_IsResponse m = (msg_ID m \<noteq> None \<and> msg_Method m = [])"

section \<open>Round trip of the framing\<close>

lemma ReadBytes_line: "newline \<notin> set s \<Longrightarrow> ReadBytes (s @ newline # r) = Some (s @ [newline], r)"
  by (induction s) auto

lemma bytesCut_at: "sep \<notin> set s \<Longrightarrow> bytesCut sep (s @ sep # r) = Some (s, r)"
  by (induction s) auto

lemma digit_not: "isDigitByte c \<Longrightarrow> c \<noteq> newline \<and> c \<noteq> CHR ''-'' \<and> c \<noteq> CHR ''+'' \<and> c \<notin> firstBytes \<and> c \<notin> lastBytes"
  using space_bytes [of c] by (auto simp: isDigitByte_def newline_def)

lemma ParseInt64_showNat: "int n < 2 ^ 63 \<Longrightarrow> ParseInt64 (showNat n) = Some (int n)"
proof -
  assume n: "int n < 2 ^ 63"
  obtain c s where s: "showNat n = c # s" using showNat_digits [of n] by (cases "showNat n") auto
  have "isDigitByte c" using showNat_digits [of n] s by simp
  then have "c \<noteq> CHR ''-''" "c \<noteq> CHR ''+''" using digit_not by blast+
  then show ?thesis using n showNat_digits [of n] digitsValue_showNat [of n] unfolding ParseInt64_def s by (simp add: Let_def)
qed

lemma TrimSpace_header: "TrimSpace (CHR '' '' # showNat n @ crlf) = showNat n"
proof -
  obtain c s where s: "showNat n = c # s" using showNat_digits [of n] by (cases "showNat n") auto
  have digits: "isDigitByte (hd (showNat n))" "isDigitByte (last (showNat n))"
    using showNat_digits [of n] by (auto simp: list_all_iff)
  have left: "trimLeft unicodeSpaces (showNat n @ crlf) = showNat n @ crlf"
    using digits(1) digit_not s by (intro trimLeft_id) (auto simp: firstBytes_def [symmetric])
  have ends: "trimLeft (map rev unicodeSpaces) (newline # t) = trimLeft (map rev unicodeSpaces) t"
    "trimLeft (map rev unicodeSpaces) (CHR 0x0D # t) = trimLeft (map rev unicodeSpaces) t" for t
    by (subst trimLeft.simps, simp add: unicodeSpaces_def newline_def)+
  have right: "trimLeft (map rev unicodeSpaces) (rev (showNat n)) = rev (showNat n)"
    using digit_not [OF digits(2)] showNat_digits [of n] unfolding last_bytes by (intro trimLeft_id) (simp_all add: hd_rev del: set_map)
  show ?thesis
    unfolding TrimSpace_def trimLeft_blank left using ends right by (simp add: crlf_def newline_def)
qed

lemma readHeaders_declared:
  assumes "int n < 2 ^ 63"
  shows "readHeaders 0 (''Content-Length: '' @ showNat n @ crlf @ crlf @ s) = Inr (int n, s)"
proof -
  have no_nl: "newline \<notin> set (''Content-Length: '' @ showNat n @ [CHR 0x0D])"
    using showNat_digits [of n] digit_not by (auto simp: list_all_iff newline_def)
  have line: "ReadBytes (''Content-Length: '' @ showNat n @ crlf @ crlf @ s) = Some (''Content-Length: '' @ showNat n @ crlf, crlf @ s)"
    using ReadBytes_line [OF no_nl, of "crlf @ s"] by (simp add: crlf_def newline_def)
  have key: "bytesCut (CHR '':'') (''Content-Length: '' @ showNat n @ crlf) = Some (''Content-Length'', CHR '' '' # showNat n @ crlf)"
    using bytesCut_at [of "CHR '':''" "''Content-Length''" "CHR '' '' # showNat n @ crlf"] by simp
  have blank: "ReadBytes (crlf @ s) = Some (crlf, s)" by (simp add: crlf_def newline_def)
  have "''Content-Length: '' @ showNat n @ crlf \<noteq> crlf" by (simp add: crlf_def)
  then have "readHeaders 0 (''Content-Length: '' @ showNat n @ crlf @ crlf @ s) = readHeaders (int n) (crlf @ s)"
    using line key by (subst readHeaders.simps) (simp add: TrimSpace_header ParseInt64_showNat [OF assms])
  also have "\<dots> = Inr (int n, s)" by (subst readHeaders.simps) (simp add: blank)
  finally show ?thesis .
qed

lemma Reader_Read_cases:
  assumes "int n < 2 ^ 63"
  shows "Reader_Read maxAlloc (''Content-Length: '' @ showNat n @ crlf @ crlf @ s) =
    (if n = 0 then (Inl ErrNoContentLength, s) else if int n > maxAlloc then (Inl MakePanic, s)
     else if length s < n then (Inl ReadContent, []) else (Inr (take n s), drop n s))"
  unfolding Reader_Read_def readHeaders_declared [OF assms] by simp

text \<open>Reading every message of a stream.\<close>

fun readAll :: "int \<Rightarrow> nat \<Rightarrow> string \<Rightarrow> (rpcError + string) list \<times> string" where
  "readAll maxAlloc 0 s = ([], s)"
| "readAll maxAlloc (Suc n) s =
     (case Reader_Read maxAlloc s of (r, s') \<Rightarrow> (case readAll maxAlloc n s' of (rs, s'') \<Rightarrow> (r # rs, s'')))"

lemma Reader_Read_frame:
  assumes "data \<noteq> []" "int (length data) < 2 ^ 63" "int (length data) \<le> maxAlloc"
  shows "Reader_Read maxAlloc (Writer_Write data @ rest) = (Inr data, rest)"
  using assms Reader_Read_cases [OF assms(2), of maxAlloc "data @ rest"] by (simp add: Writer_Write_def)

text \<open>C16. The framing round-trips: messages that were written one after another are read one after another,
  each with exactly its bytes, whatever bytes they contain and whatever follows; a further read then sees
  what follows. An empty message is written as well, but its reader reports that there is no content length.\<close>

theorem frames_roundtrip:
  assumes "\<And>data. data \<in> set ms \<Longrightarrow> data \<noteq> [] \<and> int (length data) < 2 ^ 63 \<and> int (length data) \<le> maxAlloc"
  shows "readAll maxAlloc (length ms) (concat (map Writer_Write ms) @ rest) = (map Inr ms, rest)
    \<and> fst (Reader_Read maxAlloc (Writer_Write [] @ rest)) = Inl ErrNoContentLength"
proof
  show "readAll maxAlloc (length ms) (concat (map Writer_Write ms) @ rest) = (map Inr ms, rest)"
    using assms by (induction ms) (simp_all add: Reader_Read_frame)
  show "fst (Reader_Read maxAlloc (Writer_Write [] @ rest)) = Inl ErrNoContentLength"
    using Reader_Read_cases [of 0 maxAlloc rest] by (simp add: Writer_Write_def)
qed

theorem frames_roundtrip_witness:
  "readAll 1024 (length [''ab'', crlf]) (concat (map Writer_Write [''ab'', crlf]) @ ''x'') = (map Inr [''ab'', crlf], ''x'')
    \<and> fst (Reader_Read 1024 (Writer_Write [] @ ''x'')) = Inl ErrNoContentLength"
  by (rule frames_roundtrip) (auto simp: crlf_def)

text \<open>C36. What a reader makes of a declared length, for every stream behind the header: zero is an error; a length
  that cannot be allocated makes the process panic, since nothing bounds it before \<open>make\<close>; a stream that ends early is
  an error and never a shorter message; otherwise the message is exactly the declared number of bytes.\<close>

theorem Reader_Read_declared:
  assumes "int n < 2 ^ 63"
  shows "Reader_Read maxAlloc (''Content-Length: '' @ showNat n @ crlf @ crlf @ s) =
    (if n = 0 then (Inl ErrNoContentLength, s) else if int n > maxAlloc then (Inl MakePanic, s)
     else if length s < n then (Inl ReadContent, []) else (Inr (take n s), drop n s))"
  by (rule Reader_Read_cases [OF assms])

theorem Reader_Read_declared_witness:
  "Reader_Read 10 (''Content-Length: '' @ showNat 3 @ crlf @ crlf @ ''ab'') = (Inl ReadContent, [])"
  using Reader_Read_declared [of 3 10 "''ab''"] by simp

section \<open>Identifiers\<close>

text \<open>Identifiers of requests round-trip through JSON, for a decoder that inverts the encoder, when strings are
  quoted and numbers are not, except for the empty string: it is encoded as the number 0, so the
  response to a request with the identifier \<open>""\<close> answers a request that was not made.\<close>

theorem ID_roundtrip:
  assumes "\<And>s. \<exists>e. marshalString s = Inr (CHR 0x22 # e) \<and> unmarshalString (CHR 0x22 # e) = Inr s"
    and "\<And>i. \<exists>e. marshalInt i = Inr e \<and> e \<noteq> [] \<and> hd e \<noteq> CHR 0x22 \<and> unmarshalInt e = Inr i"
  shows "(s \<noteq> [] \<longrightarrow> (\<exists>e. ID_MarshalJSON marshalString marshalInt (NewIDString s) = Inr e
      \<and> ID_UnmarshalJSON unmarshalString unmarshalInt e = Inr (NewIDString s)))
    \<and> (\<exists>e. ID_MarshalJSON marshalString marshalInt (NewIDInt i) = Inr e
      \<and> ID_UnmarshalJSON unmarshalString unmarshalInt e = Inr (NewIDInt i))
    \<and> ID_MarshalJSON marshalString marshalInt (NewIDString []) = ID_MarshalJSON marshalString marshalInt (NewIDInt 0)"
proof -
  obtain e e' where "marshalString s = Inr (CHR 0x22 # e)" "unmarshalString (CHR 0x22 # e) = Inr s"
    "marshalInt i = Inr e'" "e' \<noteq> []" "hd e' \<noteq> CHR 0x22" "unmarshalInt e' = Inr i" using assms(1) [of s] assms(2) [of i] by metis
  then show ?thesis by (simp add: ID_MarshalJSON_def ID_UnmarshalJSON_def NewIDString_def NewIDInt_def)
qed

theorem ID_roundtrip_witness:
  "(''a'' \<noteq> [] \<longrightarrow> (\<exists>e. ID_MarshalJSON (\<lambda>s. Inr (CHR 0x22 # s) :: unit + string) (\<lambda>i. Inr (showNat (unat i))) (NewIDString ''a'') = Inr e
      \<and> ID_UnmarshalJSON (\<lambda>e. Inr (tl e)) (\<lambda>e. Inr (of_nat (digitsValue 0 e)) :: unit + 32 word) e = Inr (NewIDString ''a'')))
    \<and> (\<exists>e. ID_MarshalJSON (\<lambda>s. Inr (CHR 0x22 # s) :: unit + string) (\<lambda>i. Inr (showNat (unat i))) (NewIDInt 7) = Inr e
      \<and> ID_UnmarshalJSON (\<lambda>e. Inr (tl e)) (\<lambda>e. Inr (of_nat (digitsValue 0 e)) :: unit + 32 word) e = Inr (NewIDInt 7))
    \<and> ID_MarshalJSON (\<lambda>s. Inr (CHR 0x22 # s) :: unit + string) (\<lambda>i. Inr (showNat (unat i))) (NewIDString [])
      = ID_MarshalJSON (\<lambda>s. Inr (CHR 0x22 # s)) (\<lambda>i. Inr (showNat (unat i))) (NewIDInt 0)"
proof (rule ID_roundtrip)
  fix i :: "32 word"
  have "isDigitByte (hd (showNat (unat i)))" "showNat (unat i) \<noteq> []" using showNat_digits [of "unat i"] by (auto simp: list_all_iff)
  then show "\<exists>e. Inr (showNat (unat i)) = Inr e \<and> e \<noteq> [] \<and> hd e \<noteq> CHR 0x22 \<and> Inr (of_nat (digitsValue 0 e)) = Inr i"
    by (auto simp: isDigitByte_def digitsValue_showNat)
qed simp

end
