(* ===== verification/Module_Util.thy ===== *)
theory Module_Util
  imports TsPath_Extension Semver_Range Comparator
begin

text \<open>
  \<open>internal/module/util.go\<close>, and the choice of a key of an \<open>exports\<close> or \<open>imports\<close> table in
  \<open>internal/module/resolver.go\<close>: package names, the names of \<open>@types\<close> packages, the order of pattern keys, and
  which key a module name selects. Slices whose bounds the code does not check are panics here.
\<close>

section \<open>Go slices of strings\<close>

definition goSlice :: "string \<Rightarrow> int \<Rightarrow> int \<Rightarrow> string or_panic" where
  \<comment> \<open>\<open>s[a:b]\<close>\<close>
  "goSlice s a b =
     (if 0 \<le> a \<and> a \<le> b \<and> b \<le> int (length s) then Inr (take (nat (b - a)) (drop (nat a) s)) else Inl ''slice bounds out of range'')"

definition strIndexInt :: "string \<Rightarrow> string \<Rightarrow> int" where
  \<comment> \<open>\<open>strings.Index\<close>\<close>
  "strIndexInt s sub = (case strIndex s sub of Some i \<Rightarrow> int i | None \<Rightarrow> -1)"

fun strLastIndex :: "string \<Rightarrow> string \<Rightarrow> nat option" where
  \<comment> \<open>\<open>strings.LastIndex\<close> for a non-empty \<open>sub\<close>\<close>
  "strLastIndex [] sub = None"
| "strLastIndex (c # s) sub =
     (case strLastIndex s sub of Some i \<Rightarrow> Some (Suc i) | None \<Rightarrow> if strHasPrefix (c # s) sub then Some 0 else None)"

definition strCut :: "string \<Rightarrow> string \<Rightarrow> (string \<times> string) option" where
  \<comment> \<open>\<open>strings.Cut\<close>; \<open>None\<close> when the separator is not found\<close>
  "strCut s sep = (case strIndex s sep of None \<Rightarrow> None | Some i \<Rightarrow> Some (take i s, drop (i + length sep) s))"

definition strCount :: "string \<Rightarrow> char \<Rightarrow> nat" where
  "strCount s c = length (filter (\<lambda>x. x = c) s)"

section \<open>Names of packages\<close>

definition IsApplicableVersionedTypesKey :: "Version \<Rightarrow> string \<Rightarrow> bool or_panic" where
  "IsApplicableVersionedTypesKey typeScriptVersion key =
     (if \<not> strHasPrefix key ''types@'' then Inr False
      else bind_panic (TryParseVersionRange (drop 6 key)) (\<lambda>r.
        case r of None \<Rightarrow> Inr False | Some range_ \<Rightarrow> VersionRange_Test range_ (Some typeScriptVersion)))"

definition moveToNextDirectorySeparatorIfAvailable :: "string \<Rightarrow> int \<Rightarrow> bool \<Rightarrow> int or_panic" where
  "moveToNextDirectorySeparatorIfAvailable path prevSeparatorIndex isFolder =
     (let offset = prevSeparatorIndex + 1 in
      bind_panic (goSlice path offset (int (length path))) (\<lambda>rest.
        let nextSeparatorIndex = strIndexInt rest ''/'' in
        if nextSeparatorIndex = -1 then Inr (if isFolder then int (length path) else prevSeparatorIndex)
        else Inr (nextSeparatorIndex + offset)))"

definition ParseNodeModuleFromPath :: "string \<Rightarrow> bool \<Rightarrow> string or_panic" where
  "ParseNodeModuleFromPath resolved isFolder =
     (let path = NormalizePath resolved in
      case strLastIndex path ''/node_modules/'' of
        None \<Rightarrow> Inr []
      | Some idx \<Rightarrow>
          let indexAfterNodeModules = int idx + 14 in
          bind_panic (moveToNextDirectorySeparatorIfAvailable path indexAfterNodeModules isFolder) (\<lambda>indexAfterPackageName.
            if int (length path) \<le> indexAfterNodeModules then Inl ''index out of range''
            else bind_panic
              (if path ! nat indexAfterNodeModules = CHR ''@''
               then moveToNextDirectorySeparatorIfAvailable path indexAfterPackageName isFolder
               else Inr indexAfterPackageName)
              (\<lambda>i. goSlice path 0 i)))"

definition ParsePackageName :: "string \<Rightarrow> string \<times> string" where
  "ParsePackageName moduleName =
     (let idx = strIndexInt moduleName ''/'';
          idx' = (if moduleName \<noteq> [] \<and> hd moduleName = CHR ''@'' then
                    (let offset = idx + 1; i = strIndexInt (drop (nat offset) moduleName) ''/''
                     in if i \<noteq> -1 then i + offset else i)
                  else idx)
      in if idx' = -1 then (moduleName, []) else (take (nat idx') moduleName, drop (nat idx' + 1) moduleName))"

definition MangleScopedPackageName :: "string \<Rightarrow> string" where
  "MangleScopedPackageName packageName =
     (if packageName \<noteq> [] \<and> hd packageName = CHR ''@'' then
        (case strIndex packageName ''/'' of
           None \<Rightarrow> packageName
         | Some idx \<Rightarrow> drop 1 (take idx packageName) @ ''__'' @ drop (idx + 1) packageName)
      else packageName)"

definition UnmangleScopedPackageName :: "string \<Rightarrow> string" where
  "UnmangleScopedPackageName packageName =
     (case strCut packageName ''__'' of Some (before, after) \<Rightarrow> ''@'' @ before @ ''/'' @ after | None \<Rightarrow> packageName)"

definition GetTypesPackageName :: "string \<Rightarrow> string" where
  "GetTypesPackageName packageName = ''@types/'' @ MangleScopedPackageName packageName"

definition GetPackageNameFromTypesPackageName :: "string \<Rightarrow> string" where
  "GetPackageNameFromTypesPackageName mangledName =
     (let withoutAtTypePrefix = strTrimPrefix mangledName ''@types/'' in
      if withoutAtTypePrefix \<noteq> mangledName then UnmangleScopedPackageName withoutAtTypePrefix else mangledName)"

section \<open>Extensions\<close>

definition TryGetJSExtensionForFile :: "string \<Rightarrow> bool \<Rightarrow> string" where
  \<comment> \<open>\<open>preserve\<close>: the option \<open>jsx\<close> is \<open>preserve\<close>\<close>
  "TryGetJSExtensionForFile fileName preserve =
     (let ext = TryGetExtensionFromPath fileName in
      if ext \<in> {ExtensionTs, ExtensionDts} then ExtensionJs
      else if ext = ExtensionTsx then (if preserve then ExtensionJsx else ExtensionJs)
      else if ext \<in> {ExtensionJs, ExtensionJsx, ExtensionJson} then ext
      else if ext \<in> {ExtensionDmts, ExtensionMts, ExtensionMjs} then ExtensionMjs
      else if ext \<in> {ExtensionDcts, ExtensionCts, ExtensionCjs} then ExtensionCjs
      else [])"

datatype resolutionMessage =
    Module_0_was_resolved_to_1_but_jsx_is_not_set
  | Could_not_find_a_declaration_file_for_module_0_1_implicitly_has_an_any_type
  | Module_0_was_resolved_to_1_but_resolveJsonModule_is_not_used
  | Module_0_was_resolved_to_1_but_allowArbitraryExtensions_is_not_set

text \<open>The options that matter, as the getters of the compiler options give them.\<close>

record resolutionOptions =
  o_jsxSet :: bool \<comment> \<open>\<open>options.Jsx != core.JsxEmitNone\<close>\<close>
  o_allowJS :: bool
  o_noImplicitAny :: bool \<comment> \<open>\<open>options.NoImplicitAny.DefaultIfUnknown(options.Strict).IsTrue()\<close>\<close>
  o_resolveJsonModule :: bool
  o_allowArbitraryExtensions :: bool

definition GetResolutionDiagnostic :: "resolutionOptions \<Rightarrow> string \<Rightarrow> bool \<Rightarrow> resolutionMessage option" where
  "GetResolutionDiagnostic options extension isDeclarationFile =
     (let needJsx = (if o_jsxSet options then None else Some Module_0_was_resolved_to_1_but_jsx_is_not_set);
          needAllowJs = (if o_allowJS options \<or> \<not> o_noImplicitAny options then None
            else Some Could_not_find_a_declaration_file_for_module_0_1_implicitly_has_an_any_type);
          needResolveJsonModule = (if o_resolveJsonModule options then None
            else Some Module_0_was_resolved_to_1_but_resolveJsonModule_is_not_used);
          needAllowArbitraryExtensions = (if isDeclarationFile \<or> o_allowArbitraryExtensions options then None
            else Some Module_0_was_resolved_to_1_but_allowArbitraryExtensions_is_not_set)
      in if extension \<in> {ExtensionTs, ExtensionDts, ExtensionMts, ExtensionDmts, ExtensionCts, ExtensionDcts} then None
         else if extension = ExtensionTsx then needJsx
         else if extension = ExtensionJsx then (case needJsx of Some message \<Rightarrow> Some message | None \<Rightarrow> needAllowJs)
         else if extension \<in> {ExtensionJs, ExtensionMjs, ExtensionCjs} then needAllowJs
         else if extension = ExtensionJson then needResolveJsonModule
         else needAllowArbitraryExtensions)"

section \<open>Pattern keys\<close>

definition ComparePatternKeys :: "string \<Rightarrow> string \<Rightarrow> int" where
  "ComparePatternKeys a b =
     (let aPatternIndex = strIndexInt a ''*''; bPatternIndex = strIndexInt b ''*'';
          baseLenA = (if aPatternIndex \<noteq> -1 then aPatternIndex + 1 else int (length a));
          baseLenB = (if bPatternIndex \<noteq> -1 then bPatternIndex + 1 else int (length b))
      in if baseLenA > baseLenB then -1
         else if baseLenB > baseLenA then 1
         else if aPatternIndex = -1 then 1
         else if bPatternIndex = -1 then -1
         else if length a > length b then -1
         else if length b > length a then 1
         else 0)"

definition expandingKeys :: "string list \<Rightarrow> string list" where
  "expandingKeys ks = filter (\<lambda>key. strCount key (CHR ''*'') = 1 \<or> strHasSuffix key ''/'') ks"

definition matchesPatternWithTrailer :: "string \<Rightarrow> string \<Rightarrow> bool" where
  "matchesPatternWithTrailer target name =
     (if strHasSuffix target ''*'' then False
      else case strCut target ''*'' of
        None \<Rightarrow> False
      | Some (before, after) \<Rightarrow> strHasPrefix name before \<and> strHasSuffix name after)"

text \<open>The loop of \<open>loadModuleFromExportsOrImports\<close> over the sorted keys: the key, the subpath and whether the key is a pattern,
  with which the target is then loaded.\<close>

fun selectTarget :: "bool \<Rightarrow> string \<Rightarrow> string list \<Rightarrow> (string \<times> string \<times> bool) option or_panic" where
  "selectTarget trailers moduleName [] = Inr None"
| "selectTarget trailers moduleName (potentialTarget # rest) =
     (if trailers \<and> matchesPatternWithTrailer potentialTarget moduleName then
        (let starPos = strIndexInt potentialTarget ''*'' in
         bind_panic (goSlice moduleName starPos (int (length moduleName) - (int (length potentialTarget) - 1 - starPos)))
           (\<lambda>subpath. Inr (Some (potentialTarget, subpath, True))))
      else if strHasSuffix potentialTarget ''*'' \<and> strHasPrefix moduleName (take (length potentialTarget - 1) potentialTarget) then
        Inr (Some (potentialTarget, drop (length potentialTarget - 1) moduleName, True))
      else if strHasPrefix moduleName potentialTarget then
        Inr (Some (potentialTarget, drop (length potentialTarget) moduleName, False))
      else selectTarget trailers moduleName rest)"

text \<open>The whole choice: the exact key, or the first that fits among the expanding keys, sorted with \<open>sortFunc\<close>, which is
  \<open>slices.SortFunc\<close> with \<open>ComparePatternKeys\<close>.\<close>

definition selectKey :: "(string list \<Rightarrow> string list) \<Rightarrow> bool \<Rightarrow> string \<Rightarrow> string list \<Rightarrow> (string \<times> string \<times> bool) option or_panic" where
  "selectKey sortFunc trailers moduleName lookupTable =
     (if \<not> strHasSuffix moduleName ''/'' \<and> \<not> strContains moduleName ''*'' \<and> moduleName \<in> set lookupTable then Inr (Some (moduleName, [], False))
      else selectTarget trailers moduleName (sortFunc (expandingKeys lookupTable)))"

end
