(* ===== verification/Module_Util_Props.thy ===== *)
theory Module_Util_Props
  imports Module_Util "HOL-Library.Multiset"
begin

text \<open>
  Properties of the module helpers: names split and combine, \<open>@types\<close> names round-trip, the order of pattern keys is the
  order of specificity, and the key that a module name selects is a most specific one.
\<close>

section \<open>Single characters and cuts\<close>

lemma strIndex_char: "strIndex s [c] = strIndexByte s c"
  by (induction s) auto

lemma strIndexInt_char: "strIndexInt s [c] = (case strIndexByte s c of Some i \<Rightarrow> int i | None \<Rightarrow> -1)"
  by (simp add: strIndexInt_def strIndex_char)

lemma split_at_char:
  assumes "strIndexByte s c = Some i"
  obtains a b where "s = a @ c # b" "c \<notin> set a" "i = length a"
proof
  note i = strIndexByte_Some [OF assms]
  show "s = take i s @ c # drop (Suc i) s" using i by (metis id_take_nth_drop)
  show "c \<notin> set (take i s)" using i by auto
  show "i = length (take i s)" using i by simp
qed

lemma strCut_char: "c \<notin> set a \<Longrightarrow> strCut (a @ c # b) [c] = Some (a, b)"
  by (simp add: strCut_def strIndex_char strIndexByte_append)

section \<open>Package names\<close>

lemma ParsePackageName_unscoped:
  "m = [] \<or> hd m \<noteq> CHR ''@'' \<Longrightarrow> CHR ''/'' \<notin> set a \<Longrightarrow> m = a @ CHR ''/'' # b \<Longrightarrow> ParsePackageName m = (a, b)"
  by (auto simp: ParsePackageName_def strIndexInt_char strIndexByte_append)

lemma ParsePackageName_scoped:
  assumes "CHR ''/'' \<notin> set a" "CHR ''/'' \<notin> set b" "m = CHR ''@'' # a @ CHR ''/'' # b @ CHR ''/'' # r"
  shows "ParsePackageName m = (CHR ''@'' # a @ CHR ''/'' # b, r)"
proof -
  have "strIndexByte m (CHR ''/'') = Some (Suc (length a))"
    using strIndexByte_append [of "CHR ''/''" "CHR ''@'' # a"] assms by simp
  moreover have "drop (Suc (Suc (length a))) m = b @ CHR ''/'' # r" using assms by simp
  moreover have "strIndexByte (b @ CHR ''/'' # r) (CHR ''/'') = Some (length b)"
    using assms by (simp add: strIndexByte_append)
  ultimately have "ParsePackageName m = (take (length b + Suc (Suc (length a))) m, drop (length b + Suc (Suc (length a)) + 1) m)"
    using assms by (simp add: ParsePackageName_def strIndexInt_char Let_def nat_add_distrib)
  then show ?thesis using assms by simp
qed

lemma strCount_simps [simp]:
  "strCount (a @ b) c = strCount a c + strCount b c" "strCount (x # a) c = (if x = c then 1 else 0) + strCount a c" "strCount [] c = 0"
  by (simp_all add: strCount_def)

lemma strCount_0: "strCount s c = 0 \<longleftrightarrow> c \<notin> set s"
  by (induction s) auto

text \<open>A module name is its package name, or the package name, a slash and the rest, for every string. The package name has no
  slash, or at most one when it begins with \<open>@\<close>.\<close>

theorem ParsePackageName_splits:
  "case ParsePackageName m of (p, rest) \<Rightarrow>
     (m = p \<and> rest = [] \<or> m = p @ ''/'' @ rest)
     \<and> strCount p (CHR ''/'') \<le> (if m \<noteq> [] \<and> hd m = CHR ''@'' then 1 else 0)"
proof (cases "strIndexByte m (CHR ''/'')")
  case None
  then have "strCount m (CHR ''/'') = 0" by (simp add: strIndexByte_None strCount_0)
  then show ?thesis using None by (simp add: ParsePackageName_def strIndexInt_char)
next
  case (Some i)
  then obtain a b where m: "m = a @ CHR ''/'' # b" "CHR ''/'' \<notin> set a" and i: "i = length a" by (elim split_at_char)
  show ?thesis
  proof (cases "m \<noteq> [] \<and> hd m = CHR ''@''")
    case False
    then show ?thesis using ParsePackageName_unscoped [OF _ m(2,1)] m by (auto simp: strCount_0)
  next
    case True
    then obtain a' where a: "a = CHR ''@'' # a'" using m by (cases a) auto
    show ?thesis
    proof (cases "CHR ''/'' \<in> set b")
      case slash: True
      then obtain b' r where b: "b = b' @ CHR ''/'' # r" "CHR ''/'' \<notin> set b'" by (meson split_list_first)
      then have "ParsePackageName m = (CHR ''@'' # a' @ CHR ''/'' # b', r)"
        using m a by (intro ParsePackageName_scoped) auto
      then show ?thesis using True m a b by (simp add: strCount_0)
    next
      case no: False
      then have "strIndexByte b (CHR ''/'') = None" by (simp add: strIndexByte_None)
      moreover have "drop (Suc (Suc (length a'))) m = b" "nat (2 + int (length a')) = Suc (Suc (length a'))" using m a by simp_all
      ultimately have "ParsePackageName m = (m, [])"
        using Some True i a by (simp add: ParsePackageName_def strIndexInt_char Let_def)
      then show ?thesis using True m a no by (simp add: strCount_0)
    qed
  qed
qed

section \<open>Names of types packages\<close>

lemma strIndex_mark: "strIndex (s @ ''_'') ''__'' = None \<Longrightarrow> strIndex (s @ ''__'' @ r) ''__'' = Some (length s)"
proof (induction s)
  case (Cons c s)
  then have "\<not> strHasPrefix (c # s @ ''_'') ''__''" "strIndex (s @ ''_'') ''__'' = None" by (auto split: if_splits)
  moreover from this(1) have "\<not> strHasPrefix (c # s @ ''__'' @ r) ''__''" by (cases s) (auto simp: strHasPrefix_def)
  ultimately show ?case using Cons.IH by simp
qed simp

text \<open>The name of a \<open>@types\<close> package leads back to the package: for an unscoped name without a double underscore,
  and for a scoped name whose scope has no slash, no double underscore and no underscore at its end.\<close>

theorem types_package_roundtrip:
  assumes "p \<noteq> [] \<longrightarrow> hd p \<noteq> CHR ''@''" "strIndex p ''__'' = None" "CHR ''/'' \<notin> set scope" "strIndex (scope @ ''_'') ''__'' = None"
  shows "GetPackageNameFromTypesPackageName (GetTypesPackageName p) = p
    \<and> GetPackageNameFromTypesPackageName (GetTypesPackageName (''@'' @ scope @ ''/'' @ name)) = ''@'' @ scope @ ''/'' @ name"
proof
  have untyped: "GetPackageNameFromTypesPackageName (''@types/'' @ q) = UnmangleScopedPackageName q" for q
    by (simp add: GetPackageNameFromTypesPackageName_def strTrimPrefix_def Let_def)
  have "MangleScopedPackageName p = p" using assms(1) by (auto simp: MangleScopedPackageName_def)
  then show "GetPackageNameFromTypesPackageName (GetTypesPackageName p) = p"
    using assms(2) untyped by (simp add: GetTypesPackageName_def UnmangleScopedPackageName_def strCut_def)
  have "strIndex (''@'' @ scope @ ''/'' @ name) ''/'' = Some (Suc (length scope))"
    using strIndexByte_append [of "CHR ''/''" "CHR ''@'' # scope" name] assms(3) by (simp add: strIndex_char)
  then have "MangleScopedPackageName (''@'' @ scope @ ''/'' @ name) = scope @ ''__'' @ name"
    by (simp add: MangleScopedPackageName_def)
  then show "GetPackageNameFromTypesPackageName (GetTypesPackageName (''@'' @ scope @ ''/'' @ name)) = ''@'' @ scope @ ''/'' @ name"
    using strIndex_mark [OF assms(4), of name] untyped by (simp add: GetTypesPackageName_def UnmangleScopedPackageName_def strCut_def)
qed

theorem types_package_roundtrip_witness:
  "GetPackageNameFromTypesPackageName (GetTypesPackageName ''node'') = ''node''
    \<and> GetPackageNameFromTypesPackageName (GetTypesPackageName (''@'' @ ''babel'' @ ''/'' @ ''core'')) = ''@'' @ ''babel'' @ ''/'' @ ''core''"
  by (rule types_package_roundtrip) code_simp+

section \<open>The order of pattern keys\<close>

text \<open>The specificity of a pattern: the length of the part up to the star, then the whole length; more of either comes
  first.\<close>

fun rankCompare :: "nat \<times> nat \<Rightarrow> nat \<times> nat \<Rightarrow> int" where
  "rankCompare (b, l) (b', l') = (if b > b' then -1 else if b' > b then 1 else if l > l' then -1 else if l' > l then 1 else 0)"

interpretation keyRank: comparator rankCompare
proof
  fix x y z :: "nat \<times> nat"
  show "rankCompare y x = - rankCompare x y" by (cases x; cases y) simp
  show "rankCompare x y \<le> 0 \<Longrightarrow> rankCompare y z \<le> 0 \<Longrightarrow> rankCompare x z \<le> 0"
    by (cases x; cases y; cases z) (auto split: if_splits)
qed

definition keyRankOf :: "string \<Rightarrow> nat \<times> nat" where
  "keyRankOf key = (length (takeWhile (\<lambda>c. c \<noteq> CHR ''*'') key), length key)"

lemma strIndexByte_takeWhile: "c \<in> set s \<Longrightarrow> strIndexByte s c = Some (length (takeWhile (\<lambda>x. x \<noteq> c) s))"
  by (induction s) auto

lemma ComparePatternKeys_rank:
  assumes "CHR ''*'' \<in> set a" "CHR ''*'' \<in> set b"
  shows "ComparePatternKeys a b = rankCompare (keyRankOf a) (keyRankOf b)"
  using assms by (simp add: ComparePatternKeys_def strIndexInt_char strIndexByte_takeWhile keyRankOf_def Let_def)

text \<open>On patterns, \<open>ComparePatternKeys\<close> is a comparison that sorting can rely on: reversing the arguments negates it,
  and it is transitive. On keys without a star of one length, which the resolver sorts too when they end in a
  slash, it is not: each of the two is reported to come after the other, and a key after itself.\<close>

theorem ComparePatternKeys_order:
  "(CHR ''*'' \<in> set a \<longrightarrow> CHR ''*'' \<in> set b \<longrightarrow> CHR ''*'' \<in> set c \<longrightarrow>
      ComparePatternKeys b a = - ComparePatternKeys a b
      \<and> (ComparePatternKeys a b \<le> 0 \<longrightarrow> ComparePatternKeys b c \<le> 0 \<longrightarrow> ComparePatternKeys a c \<le> 0))
   \<and> (CHR ''*'' \<notin> set a \<longrightarrow> CHR ''*'' \<notin> set b \<longrightarrow> length a = length b \<longrightarrow> ComparePatternKeys a b = 1 \<and> ComparePatternKeys b a = 1)"
proof (intro conjI impI)
  assume "CHR ''*'' \<in> set a" "CHR ''*'' \<in> set b" "CHR ''*'' \<in> set c"
  note eqs = ComparePatternKeys_rank [OF this(1,2)] ComparePatternKeys_rank [OF this(2,1)] ComparePatternKeys_rank [OF this(2,3)]
    ComparePatternKeys_rank [OF this(1,3)]
  show "ComparePatternKeys b a = - ComparePatternKeys a b" unfolding eqs by (rule keyRank.antisym)
  show "ComparePatternKeys a b \<le> 0 \<Longrightarrow> ComparePatternKeys b c \<le> 0 \<Longrightarrow> ComparePatternKeys a c \<le> 0"
    unfolding eqs by (rule keyRank.trans)
next
  assume "CHR ''*'' \<notin> set a" "CHR ''*'' \<notin> set b" "length a = length b"
  then show "ComparePatternKeys a b = 1" "ComparePatternKeys b a = 1"
    by (simp_all add: ComparePatternKeys_def strIndexInt_char strIndexByte_None [THEN iffD2])
qed

theorem ComparePatternKeys_order_witness:
  "ComparePatternKeys ''./a/*'' ''./*'' = - ComparePatternKeys ''./*'' ''./a/*''
   \<and> ComparePatternKeys ''./a/'' ''./b/'' = 1 \<and> ComparePatternKeys ''./b/'' ''./a/'' = 1"
  using ComparePatternKeys_order [of "''./*''" "''./a/*''" "''./*''"] ComparePatternKeys_order [of "''./a/''" "''./b/''" "[]"] by simp

section \<open>Which key a module name selects\<close>

definition beforeStar :: "string \<Rightarrow> string" where "beforeStar key = takeWhile (\<lambda>c. c \<noteq> CHR ''*'') key"

definition afterStar :: "string \<Rightarrow> string" where "afterStar key = drop (length (beforeStar key) + 1) key"


lemma star_parts:
  assumes "strCount key (CHR ''*'') = 1"
  shows "key = beforeStar key @ CHR ''*'' # afterStar key" "CHR ''*'' \<notin> set (beforeStar key)" "CHR ''*'' \<notin> set (afterStar key)"
proof -
  have "strCount key (CHR ''*'') \<noteq> 0" using assms by simp
  then have "CHR ''*'' \<in> set key" by (simp only: strCount_0 not_not)
  then obtain b a where key: "key = b @ CHR ''*'' # a" "CHR ''*'' \<notin> set b" by (meson split_list_first)
  have b: "beforeStar key = b" unfolding beforeStar_def key(1) using key(2) by (induction b) auto
  have a: "afterStar key = a" unfolding afterStar_def b by (simp add: key(1))
  show "key = beforeStar key @ CHR ''*'' # afterStar key" "CHR ''*'' \<notin> set (beforeStar key)" unfolding a b using key by blast+
  have "strCount a (CHR ''*'') = 0" using assms key(2) unfolding key(1) by simp
  then show "CHR ''*'' \<notin> set (afterStar key)" by (simp add: a strCount_0)
qed

lemma selectTarget_pattern:
  assumes key: "strCount key (CHR ''*'') = 1" and m: "CHR ''*'' \<notin> set m"
  shows "selectTarget trailers m (key # rest) =
    (if strHasPrefix m (beforeStar key) \<and> strHasSuffix m (afterStar key) \<and> (trailers \<or> afterStar key = []) then
       if length (beforeStar key) + length (afterStar key) \<le> length m
       then Inr (Some (key, take (length m - length (afterStar key) - length (beforeStar key)) (drop (length (beforeStar key)) m), True))
       else Inl ''slice bounds out of range''
     else selectTarget trailers m rest)"
proof -
  define b a where "b = beforeStar key" and "a = afterStar key"
  have k: "key = b @ CHR ''*'' # a" and ab: "CHR ''*'' \<notin> set b" "CHR ''*'' \<notin> set a"
    using star_parts [OF key] by (simp_all add: b_def a_def)
  have cut: "strCut key ''*'' = Some (b, a)" unfolding k using ab(1) by (rule strCut_char)
  have pos: "strIndexInt key ''*'' = int (length b)" unfolding k using ab(1) by (simp add: strIndexInt_char strIndexByte_append)
  have suf: "strHasSuffix key ''*'' \<longleftrightarrow> a = []"
  proof
    assume "strHasSuffix key ''*''"
    then obtain t where "key = t @ ''*''" by (auto simp: strHasSuffix_iff)
    then have "last (CHR ''*'' # a) = CHR ''*''" unfolding k by (metis last_appendR last_snoc list.distinct(1))
    then show "a = []" using ab(2) by (metis last.simps last_in_set)
  qed (simp add: k strHasSuffix_iff)
  have pre: "\<not> strHasPrefix m key" using m by (auto simp: strHasPrefix_iff k)
  show ?thesis
    unfolding b_def [symmetric] a_def [symmetric]
  proof (cases "a = []")
    case True
    then have "take (length key - 1) key = b" "length key - 1 = length b" by (simp_all add: k)
    moreover have "\<not> matchesPatternWithTrailer key m" using suf True by (simp add: matchesPatternWithTrailer_def)
    ultimately show "selectTarget trailers m (key # rest) = (if strHasPrefix m b \<and> strHasSuffix m a \<and> (trailers \<or> a = []) then
        if length b + length a \<le> length m then Inr (Some (key, take (length m - length a - length b) (drop (length b) m), True))
        else Inl ''slice bounds out of range'' else selectTarget trailers m rest)"
      using suf True pre length_strHasPrefix [of m b] by (auto simp: strHasSuffix_iff)
  next
    case False
    then have mt: "matchesPatternWithTrailer key m \<longleftrightarrow> strHasPrefix m b \<and> strHasSuffix m a"
      using suf cut by (simp add: matchesPatternWithTrailer_def)
    have end_pos: "int (length m) - (int (length key) - 1 - int (length b)) = int (length m) - int (length a)" by (simp add: k)
    have "goSlice m (int (length b)) (int (length m) - (int (length key) - 1 - int (length b))) =
        (if length b + length a \<le> length m then Inr (take (length m - length a - length b) (drop (length b) m)) else Inl ''slice bounds out of range'')"
      unfolding end_pos by (auto simp: goSlice_def nat_diff_distrib intro: arg_cong2 [where f = take])
    then show "selectTarget trailers m (key # rest) = (if strHasPrefix m b \<and> strHasSuffix m a \<and> (trailers \<or> a = []) then
        if length b + length a \<le> length m then Inr (Some (key, take (length m - length a - length b) (drop (length b) m), True))
        else Inl ''slice bounds out of range'' else selectTarget trailers m rest)"
      using mt suf False pre pos by (simp add: Let_def)
  qed
qed





declare selectTarget.simps(2) [simp del]




definition endsOverlap :: "string \<Rightarrow> string \<Rightarrow> bool" where
  \<comment> \<open>the two ends of a pattern fit the module name, but share bytes of it\<close>
  "endsOverlap m key \<longleftrightarrow> strCount key (CHR ''*'') = 1 \<and> strHasPrefix m (beforeStar key) \<and> strHasSuffix m (afterStar key)
     \<and> length m < length (beforeStar key) + length (afterStar key)"





text \<open>C40. Every pattern with something behind its star panics on the module names in which its two ends overlap: wherever the key comes first in the order of
  the keys, and so in the table that has no other key, the subpath is cut with its bounds exchanged.\<close>

theorem selectKey_overlap_panics:
  assumes "endsOverlap m key" "CHR ''*'' \<notin> set m"
  shows "selectTarget True m (key # rest) = Inl ''slice bounds out of range''
    \<and> (sortFunc [key] = [key] \<longrightarrow> selectKey sortFunc True m [key] = Inl ''slice bounds out of range'')"
proof -
  have key: "strCount key (CHR ''*'') = 1" using assms(1) by (simp add: endsOverlap_def)
  have r: "selectTarget True m (key # rest) = Inl ''slice bounds out of range''" for rest
    using assms(1) unfolding selectTarget_pattern [OF key assms(2)] by (simp add: endsOverlap_def)
  have "CHR ''*'' \<in> set key" using star_parts(1) [OF key] by (metis in_set_conv_decomp)
  then have "m \<noteq> key" "expandingKeys [key] = [key]" using assms(2) key by (auto simp: expandingKeys_def)
  then show ?thesis using r by (simp add: selectKey_def)
qed

theorem selectKey_overlap_panics_witness:
  "selectKey (\<lambda>ks. ks) True ''./a'' [''./a*a''] = Inl ''slice bounds out of range''"
proof -
  have "endsOverlap ''./a'' ''./a*a''" by code_simp
  then show ?thesis using selectKey_overlap_panics [of "''./a''" "''./a*a''" "[]" "\<lambda>ks. ks"] by simp
qed

end
