(* ===== verification/VfsMatch.thy ===== *)
theory VfsMatch
  imports TsPath_Extension TsPath_Relative Core_Slices Utf8
begin

text \<open>
  \<open>internal/vfs/vfsmatch/vfsmatch.go\<close>: which files the \<open>include\<close> and \<open>exclude\<close> patterns of a project select. A pattern is
  compiled into components, a component with wildcards into segments; paths are matched without being put together from their
  directory and their name; a walk over the directories skips those in which no file can match.
  \<open>eqFold\<close> is \<open>strings.EqualFold\<close>, \<open>toLower\<close> is \<open>unicode.ToLower\<close>, and the file system is given by its two functions.
\<close>

section \<open>Patterns\<close>

datatype Usage = UsageFiles | UsageDirectories | UsageExclude

definition ContainsAny :: "string \<Rightarrow> string \<Rightarrow> bool" where
  \<comment> \<open>\<open>strings.ContainsAny\<close> for ASCII characters\<close>
  "ContainsAny s chars = list_ex (\<lambda>c. c \<in> set chars) s"

definition IsImplicitGlob :: "string \<Rightarrow> bool" where
  "IsImplicitGlob lastPathComponent = (\<not> ContainsAny lastPathComponent ''.*?'')"

datatype segment = SegLiteral string | SegStar | SegQuestion

text \<open>Only wildcard components have \<open>skipPackageFolders\<close>.\<close>

datatype component = KindLiteral string | KindWildcard "segment list" bool | KindDoubleAsterisk

record globPattern =
  components :: "component list"
  isExclude :: bool
  caseSensitive :: bool
  excludeMinJs :: bool

definition flushLiteral :: "string \<Rightarrow> segment list" where
  "flushLiteral lit = (if lit \<noteq> [] then [SegLiteral lit] else [])"

fun parseSegmentsLoop :: "string \<Rightarrow> string \<Rightarrow> segment list" where
  \<comment> \<open>\<open>lit\<close> is \<open>s[start:i]\<close>\<close>
  "parseSegmentsLoop lit [] = flushLiteral lit"
| "parseSegmentsLoop lit (c # s) =
     (if c = CHR ''*'' then flushLiteral lit @ SegStar # parseSegmentsLoop [] s
      else if c = CHR ''?'' then flushLiteral lit @ SegQuestion # parseSegmentsLoop [] s
      else parseSegmentsLoop (lit @ [c]) s)"

definition parseSegments :: "string \<Rightarrow> segment list" where
  "parseSegments s = parseSegmentsLoop [] s"

definition parseComponent :: "string \<Rightarrow> bool \<Rightarrow> component" where
  "parseComponent s isInclude =
     (if s = ''**'' then KindDoubleAsterisk
      else if \<not> ContainsAny s ''*?'' then KindLiteral s
      else KindWildcard (parseSegments s) isInclude)"

definition compileGlobPattern :: "string \<Rightarrow> string \<Rightarrow> Usage \<Rightarrow> bool \<Rightarrow> globPattern option" where
  "compileGlobPattern spec basePath usage cs =
     (let parts = GetNormalizedPathComponents spec basePath in
      if usage \<noteq> UsageExclude \<and> LastOrNil [] parts = ''**'' then None
      else
        let parts1 = parts[0 := RemoveTrailingDirectorySeparator (parts ! 0)];
            parts2 = (if IsImplicitGlob (LastOrNil [] parts1) then parts1 @ [''**'', ''*''] else parts1)
        in Some \<lparr>components = map (\<lambda>part. parseComponent part (usage \<noteq> UsageExclude)) parts2, isExclude = (usage = UsageExclude),
                 caseSensitive = cs, excludeMinJs = (usage = UsageFiles)\<rparr>)"

section \<open>Matching one component\<close>

definition stringsEqual :: "(string \<Rightarrow> string \<Rightarrow> bool) \<Rightarrow> globPattern \<Rightarrow> string \<Rightarrow> string \<Rightarrow> bool" where
  "stringsEqual eqFold p a b = (if caseSensitive p then a = b else eqFold a b)"

definition isHiddenPath :: "string \<Rightarrow> bool" where
  "isHiddenPath name = (name \<noteq> [] \<and> hd name = CHR ''.'')"

definition isPackageFolder :: "(string \<Rightarrow> string \<Rightarrow> bool) \<Rightarrow> string \<Rightarrow> bool" where
  "isPackageFolder eqFold name =
     (if length name = length ''node_modules'' then eqFold name ''node_modules''
      else if length name = length ''jspm_packages'' then eqFold name ''jspm_packages''
      else if length name = length ''bower_components'' then eqFold name ''bower_components''
      else False)"

text \<open>The loop of \<open>matchSegments\<close>: its state is the index in the segments, the index in the string, and the indices of the last
  star and of what follows the part it has taken. One turn of the loop returns or goes on.\<close>

type_synonym segState = "nat \<times> nat \<times> (nat \<times> nat) option"

definition backtrack :: "string \<Rightarrow> (nat \<times> nat) option \<Rightarrow> bool + segState" where
  "backtrack s star =
     (case star of
        Some (starSegIdx, starSIdx) \<Rightarrow>
          if starSIdx < length s \<and> s ! starSIdx \<noteq> slash_char then
            (let starSIdx' = starSIdx + snd (decodeRune (drop starSIdx s)) in Inr (starSegIdx + 1, starSIdx', Some (starSegIdx, starSIdx')))
          else Inl False
      | None \<Rightarrow> Inl False)"

definition segStep :: "(string \<Rightarrow> string \<Rightarrow> bool) \<Rightarrow> segment list \<Rightarrow> string \<Rightarrow> segState \<Rightarrow> bool + segState" where
  "segStep eq segs s = (\<lambda>(segIdx, sIdx, star).
     if \<not> sIdx < length s then Inl (list_all (\<lambda>seg. seg = SegStar) (drop segIdx segs))
     else if segIdx < length segs then
       (case segs ! segIdx of
          SegLiteral lit \<Rightarrow>
            if sIdx + length lit \<le> length s \<and> eq lit (take (length lit) (drop sIdx s))
            then Inr (segIdx + 1, sIdx + length lit, star) else backtrack s star
        | SegQuestion \<Rightarrow>
            if s ! sIdx \<noteq> slash_char then Inr (segIdx + 1, sIdx + snd (decodeRune (drop sIdx s)), star) else backtrack s star
        | SegStar \<Rightarrow> Inr (segIdx + 1, sIdx, Some (segIdx, sIdx)))
     else backtrack s star)"

fun matchSegmentsLoop :: "(string \<Rightarrow> string \<Rightarrow> bool) \<Rightarrow> segment list \<Rightarrow> string \<Rightarrow> nat \<Rightarrow> segState \<Rightarrow> bool option" where
  \<comment> \<open>\<open>None\<close> when the fuel is used up\<close>
  "matchSegmentsLoop eq segs s 0 st = None"
| "matchSegmentsLoop eq segs s (Suc fuel) st =
     (case segStep eq segs s st of Inl r \<Rightarrow> Some r | Inr st' \<Rightarrow> matchSegmentsLoop eq segs s fuel st')"

definition segmentsFuel :: "segment list \<Rightarrow> string \<Rightarrow> nat" where
  "segmentsFuel segs s = (length segs + 1) * (length s + 1) * (length segs + 1) + (length s + 1) * (length segs + 1) + length segs + 1"

definition matchSegments :: "(string \<Rightarrow> string \<Rightarrow> bool) \<Rightarrow> globPattern \<Rightarrow> segment list \<Rightarrow> string \<Rightarrow> bool" where
  "matchSegments eqFold p segs s =
     (case matchSegmentsLoop (stringsEqual eqFold p) segs s (segmentsFuel segs s) (0, 0, None) of Some r \<Rightarrow> r | None \<Rightarrow> False)"

definition hasMinJsSuffix :: "(string \<Rightarrow> string \<Rightarrow> bool) \<Rightarrow> globPattern \<Rightarrow> string \<Rightarrow> bool" where
  "hasMinJsSuffix eqFold p filename =
     (if caseSensitive p then strHasSuffix filename ''.min.js''
      else if length filename < length ''.min.js'' then False
      else eqFold (drop (length filename - length ''.min.js'') filename) ''.min.js'')"

definition patternMentionsMinSuffix :: "(rune \<Rightarrow> rune) \<Rightarrow> globPattern \<Rightarrow> segment list \<Rightarrow> bool" where
  "patternMentionsMinSuffix toLower p segs =
     list_ex (\<lambda>seg. case seg of
        SegLiteral literal \<Rightarrow>
          (let lit = (if \<not> caseSensitive p then stringsMap toLower literal else literal)
           in strContains lit ''.min.js'' \<or> strContains lit ''.min.'')
      | _ \<Rightarrow> False) segs"

definition shouldIncludeMinJs :: "(string \<Rightarrow> string \<Rightarrow> bool) \<Rightarrow> (rune \<Rightarrow> rune) \<Rightarrow> globPattern \<Rightarrow> string \<Rightarrow> segment list \<Rightarrow> bool" where
  "shouldIncludeMinJs eqFold toLower p filename segs =
     (if \<not> excludeMinJs p then True
      else if \<not> hasMinJsSuffix eqFold p filename then True
      else patternMentionsMinSuffix toLower p segs)"

definition matchWildcard :: "(string \<Rightarrow> string \<Rightarrow> bool) \<Rightarrow> (rune \<Rightarrow> rune) \<Rightarrow> globPattern \<Rightarrow> segment list \<Rightarrow> string \<Rightarrow> bool" where
  "matchWildcard eqFold toLower p segs s =
     (if \<not> isExclude p \<and> segs \<noteq> [] \<and> isHiddenPath s \<and> (segs ! 0 = SegStar \<or> segs ! 0 = SegQuestion) then False
      else case segs of
        [SegStar, SegLiteral suf] \<Rightarrow>
          if length s < length suf \<or> \<not> stringsEqual eqFold p suf (drop (length s - length suf) s) then False
          else shouldIncludeMinJs eqFold toLower p s segs
      | _ \<Rightarrow> matchSegments eqFold p segs s \<and> shouldIncludeMinJs eqFold toLower p s segs)"

section \<open>The parts of a path\<close>

fun skipSlashes :: "string \<Rightarrow> nat \<Rightarrow> nat" where
  \<comment> \<open>\<open>for offset < len(s) && s[offset] == '/' { offset++ }\<close>, as the number of slashes at the offset\<close>
  "skipSlashes [] n = n"
| "skipSlashes (c # s) n = (if c = slash_char then skipSlashes s (Suc n) else n)"

definition nextPathPartSingle :: "string \<Rightarrow> nat \<Rightarrow> (string \<times> nat) option" where
  "nextPathPartSingle s offset =
     (if offset \<ge> length s then None
      else if offset = 0 \<and> s ! 0 = slash_char then Some ([], 1)
      else
        let offset' = skipSlashes (drop offset s) offset in
        if offset' \<ge> length s then None
        else
          let rest = drop offset' s in
          case strIndexByte rest slash_char of
            Some idx \<Rightarrow> Some (take idx rest, offset' + idx)
          | None \<Rightarrow> Some (rest, length s))"

definition nextPathPartParts :: "string \<Rightarrow> string \<Rightarrow> nat \<Rightarrow> (string \<times> nat) option or_panic" where
  "nextPathPartParts pre suf offset =
     (if suf = [] then Inr (nextPathPartSingle pre offset)
      else if pre = [] then Inr (nextPathPartSingle suf offset)
      else
        let totalLen = length pre + length suf in
        if offset \<ge> totalLen then Inr None
        else if offset = 0 \<and> pre ! 0 = slash_char then Inr (Some ([], 1))
        else
          let offset' = (if offset < length pre then skipSlashes (drop offset pre) offset else offset) in
          if offset < length pre \<and> offset' < length pre then
            (let rest = drop offset' pre in
             case strIndexByte rest slash_char of
               Some idx \<Rightarrow> Inr (Some (take idx rest, offset' + idx))
             | None \<Rightarrow> Inl ''slice bounds out of range'')
          else
            let sOff = offset' - length pre in
            if sOff \<ge> length suf then Inr None else Inr (Some (drop sOff suf, totalLen)))"

lemma skipSlashes_bounds: "n \<le> skipSlashes s n \<and> skipSlashes s n \<le> n + length s"
  by (induction s n rule: skipSlashes.induct) auto

lemma skipSlashes_stop: "skipSlashes s n < n + length s \<Longrightarrow> s ! (skipSlashes s n - n) \<noteq> slash_char"
proof (induction s n rule: skipSlashes.induct)
  case (2 c s n)
  then show ?case using skipSlashes_bounds [of "Suc n" s] by (auto simp: Suc_diff_le nth_Cons' split: if_splits)
qed simp

lemma next_after_skip:
  assumes "strIndexByte (drop o' s) slash_char = Some idx" "o' = skipSlashes (drop offset s) offset" "offset < length s" "o' < length s"
  shows "offset < o' + idx"
proof -
  have "s ! o' \<noteq> slash_char" using skipSlashes_stop [of "drop offset s" offset] skipSlashes_bounds [of offset "drop offset s"] assms by simp
  then have "idx \<noteq> 0" using assms(1,4) by (metis add_0_right nth_drop order_less_imp_le strIndexByte_Some)
  then show ?thesis using skipSlashes_bounds [of offset "drop offset s"] assms(2) by simp
qed

lemma nextPathPartSingle_progress: "nextPathPartSingle s offset = Some (part, offset') \<Longrightarrow> offset < offset' \<and> offset' \<le> length s"
  by (auto simp: nextPathPartSingle_def Let_def Suc_le_eq split: if_splits option.splits dest: next_after_skip [OF _ refl] strIndexByte_Some)

lemma nextPathPartParts_progress:
  "nextPathPartParts pre suf offset = Inr (Some (part, offset')) \<Longrightarrow> offset < offset' \<and> offset' \<le> length pre + length suf"
  by (auto simp: nextPathPartParts_def Let_def Suc_le_eq trans_less_add1 split: if_splits option.splits dest: next_after_skip [OF _ refl] strIndexByte_Some
      nextPathPartSingle_progress)

section \<open>Matching a path\<close>

definition patternSatisfied :: "globPattern \<Rightarrow> nat \<Rightarrow> bool" where
  "patternSatisfied p compIdx = list_all (\<lambda>c. c = KindDoubleAsterisk) (drop compIdx (components p))"

function matchPathParts ::
  "(string \<Rightarrow> string \<Rightarrow> bool) \<Rightarrow> (rune \<Rightarrow> rune) \<Rightarrow> globPattern \<Rightarrow> string \<Rightarrow> string \<Rightarrow> nat \<Rightarrow> nat \<Rightarrow> bool \<Rightarrow> bool or_panic" where
  "matchPathParts eqFold toLower p pre suf pathOffset compIdx prefixOnly =
     (case nextPathPartParts pre suf pathOffset of
        Inl e \<Rightarrow> Inl e
      | Inr None \<Rightarrow> if prefixOnly then Inr True else Inr (patternSatisfied p compIdx)
      | Inr (Some (pathPart, nextOffset)) \<Rightarrow>
          if compIdx \<ge> length (components p) then Inr (isExclude p \<and> \<not> prefixOnly)
          else
            case components p ! compIdx of
              KindDoubleAsterisk \<Rightarrow>
                (case matchPathParts eqFold toLower p pre suf pathOffset (compIdx + 1) prefixOnly of
                   Inl e \<Rightarrow> Inl e
                 | Inr True \<Rightarrow> Inr True
                 | Inr False \<Rightarrow>
                     if \<not> isExclude p \<and> (isHiddenPath pathPart \<or> isPackageFolder eqFold pathPart) then Inr False
                     else matchPathParts eqFold toLower p pre suf nextOffset compIdx prefixOnly)
            | KindLiteral literal \<Rightarrow>
                if \<not> stringsEqual eqFold p literal pathPart then Inr False
                else matchPathParts eqFold toLower p pre suf nextOffset (compIdx + 1) prefixOnly
            | KindWildcard segs skipPackageFolders \<Rightarrow>
                if skipPackageFolders \<and> isPackageFolder eqFold pathPart then Inr False
                else if \<not> matchWildcard eqFold toLower p segs pathPart then Inr False
                else matchPathParts eqFold toLower p pre suf nextOffset (compIdx + 1) prefixOnly)"
  by pat_completeness auto
termination
  by (relation "measure (\<lambda>(eqFold, toLower, p, pre, suf, pathOffset, compIdx, prefixOnly).
        (length pre + length suf - pathOffset) + (length (components p) - compIdx))")
     (auto dest!: nextPathPartParts_progress)

declare matchPathParts.simps [simp del]

definition matches :: "(string \<Rightarrow> string \<Rightarrow> bool) \<Rightarrow> (rune \<Rightarrow> rune) \<Rightarrow> globPattern \<Rightarrow> string \<Rightarrow> bool or_panic" where
  "matches eqFold toLower p path = matchPathParts eqFold toLower p path [] 0 0 False"

definition matchesParts ::
  "(string \<Rightarrow> string \<Rightarrow> bool) \<Rightarrow> (rune \<Rightarrow> rune) \<Rightarrow> globPattern \<Rightarrow> string \<Rightarrow> string \<Rightarrow> bool or_panic" where
  "matchesParts eqFold toLower p pre suf = matchPathParts eqFold toLower p pre suf 0 0 False"

definition matchesPrefixParts ::
  "(string \<Rightarrow> string \<Rightarrow> bool) \<Rightarrow> (rune \<Rightarrow> rune) \<Rightarrow> globPattern \<Rightarrow> string \<Rightarrow> string \<Rightarrow> bool or_panic" where
  "matchesPrefixParts eqFold toLower p pre suf = matchPathParts eqFold toLower p pre suf 0 0 True"

definition ensureTrailingSlash :: "string \<Rightarrow> string" where
  "ensureTrailingSlash s = (if s \<noteq> [] \<and> last s \<noteq> slash_char then s @ ''/'' else s)"

section \<open>Include and exclude patterns together\<close>

record globMatcher =
  gm_includes :: "globPattern list"
  gm_excludes :: "globPattern list"
  hadIncludes :: bool

definition newGlobMatcher :: "string list \<Rightarrow> string list \<Rightarrow> string \<Rightarrow> bool \<Rightarrow> Usage \<Rightarrow> globMatcher" where
  "newGlobMatcher includeSpecs excludeSpecs basePath cs usage =
     \<lparr>gm_includes = List.map_filter (\<lambda>spec. compileGlobPattern spec basePath usage cs) includeSpecs,
      gm_excludes = List.map_filter (\<lambda>spec. compileGlobPattern spec basePath UsageExclude cs) excludeSpecs,
      hadIncludes = (includeSpecs \<noteq> [])\<rparr>"

fun firstMatch :: "('a \<Rightarrow> bool or_panic) \<Rightarrow> nat \<Rightarrow> 'a list \<Rightarrow> nat option or_panic" where
  \<comment> \<open>\<open>for i := range ps { if m(ps[i]) { return i } }\<close>\<close>
  "firstMatch m i [] = Inr None"
| "firstMatch m i (p # ps) = bind_panic (m p) (\<lambda>b. if b then Inr (Some i) else firstMatch m (Suc i) ps)"

definition matchesFileParts ::
  "(string \<Rightarrow> string \<Rightarrow> bool) \<Rightarrow> (rune \<Rightarrow> rune) \<Rightarrow> globMatcher \<Rightarrow> string \<Rightarrow> string \<Rightarrow> nat option or_panic" where
  "matchesFileParts eqFold toLower m pre suf =
     bind_panic (firstMatch (\<lambda>p. matchesParts eqFold toLower p pre suf) 0 (gm_excludes m)) (\<lambda>ex.
       if ex \<noteq> None then Inr None
       else if gm_includes m = [] then Inr (if hadIncludes m then None else Some 0)
       else firstMatch (\<lambda>p. matchesParts eqFold toLower p pre suf) 0 (gm_includes m))"

definition matchesDirectoryParts ::
  "(string \<Rightarrow> string \<Rightarrow> bool) \<Rightarrow> (rune \<Rightarrow> rune) \<Rightarrow> globMatcher \<Rightarrow> string \<Rightarrow> string \<Rightarrow> bool or_panic" where
  "matchesDirectoryParts eqFold toLower m pre suf =
     bind_panic (firstMatch (\<lambda>p. matchesParts eqFold toLower p pre suf) 0 (gm_excludes m)) (\<lambda>ex.
       if ex \<noteq> None then Inr False
       else if gm_includes m = [] then Inr (\<not> hadIncludes m)
       else bind_panic (firstMatch (\<lambda>p. matchesPrefixParts eqFold toLower p pre suf) 0 (gm_includes m)) (\<lambda>i. Inr (i \<noteq> None)))"

section \<open>The walk over the directories\<close>

record Entries =
  Files :: "string list"
  Directories :: "string list"

record vfs_FS =
  Realpath :: "string \<Rightarrow> string"
  GetAccessibleEntries :: "string \<Rightarrow> Entries"
  fs_UseCaseSensitiveFileNames :: bool

record globVisitor =
  host :: vfs_FS
  fileMatcher :: globMatcher
  directoryMatcher :: globMatcher
  extensions :: "string list"
  useCaseSensitiveFileNames :: bool
  visited :: "string set"
  results :: "string list list"

definition UnlimitedDepth :: int where "UnlimitedDepth = 2 ^ 63 - 1"

fun foldPanic :: "('a \<Rightarrow> 's \<Rightarrow> 's or_panic) \<Rightarrow> 'a list \<Rightarrow> 's \<Rightarrow> 's or_panic" where
  "foldPanic f [] s = Inr s"
| "foldPanic f (x # xs) s = bind_panic (f x s) (foldPanic f xs)"

definition visitFile ::
  "(string \<Rightarrow> string \<Rightarrow> bool) \<Rightarrow> (rune \<Rightarrow> rune) \<Rightarrow> string \<Rightarrow> string \<Rightarrow> string \<Rightarrow> globVisitor \<Rightarrow> globVisitor or_panic" where
  "visitFile eqFold toLower pathPrefix absPrefix file v =
     (if extensions v \<noteq> [] \<and> \<not> FileExtensionIsOneOf file (extensions v) then Inr v
      else bind_panic (matchesFileParts eqFold toLower (fileMatcher v) absPrefix file) (\<lambda>m.
        case m of
          None \<Rightarrow> Inr v
        | Some idx \<Rightarrow>
            if idx < length (results v) then Inr (v\<lparr>results := (results v)[idx := results v ! idx @ [pathPrefix @ file]]\<rparr>)
            else Inl ''index out of range''))"

primrec visit ::
  "(string \<Rightarrow> string \<Rightarrow> bool) \<Rightarrow> (rune \<Rightarrow> rune) \<Rightarrow> nat \<Rightarrow> string \<Rightarrow> string \<Rightarrow> int \<Rightarrow> globVisitor \<Rightarrow> globVisitor or_panic" where
  \<comment> \<open>the first argument bounds the nesting of the calls\<close>
  "visit eqFold toLower 0 path absolutePath depth v = Inl ''the fuel is used up''"
| "visit eqFold toLower (Suc fuel) path absolutePath depth v =
     (let realPath = Realpath (host v) absolutePath;
          canonicalPath = GetCanonicalFileName toLower realPath (useCaseSensitiveFileNames v) in
      if canonicalPath \<in> visited v then Inr v
      else
        let v1 = v\<lparr>visited := insert canonicalPath (visited v)\<rparr>;
            entries = GetAccessibleEntries (host v) absolutePath;
            pathPrefix = ensureTrailingSlash path;
            absPrefix = ensureTrailingSlash absolutePath in
        bind_panic (foldPanic (visitFile eqFold toLower pathPrefix absPrefix) (Files entries) v1) (\<lambda>v2.
          let depth' = (if depth \<noteq> UnlimitedDepth then go_int (depth - 1) else depth) in
          if depth \<noteq> UnlimitedDepth \<and> depth' = 0 then Inr v2
          else foldPanic (\<lambda>dir v3.
            bind_panic (matchesDirectoryParts eqFold toLower (directoryMatcher v3) absPrefix dir) (\<lambda>ok.
              if \<not> ok then Inr v3
              else visit eqFold toLower fuel (pathPrefix @ dir) (absPrefix @ dir) depth' v3)) (Directories entries) v2))"

section \<open>Where the walk starts\<close>

fun IndexAny :: "string \<Rightarrow> string \<Rightarrow> nat option" where
  \<comment> \<open>\<open>strings.IndexAny\<close> for ASCII characters\<close>
  "IndexAny [] chars = None"
| "IndexAny (c # s) chars = (if c \<in> set chars then Some 0 else map_option Suc (IndexAny s chars))"

definition getIncludeBasePath :: "string \<Rightarrow> string" where
  "getIncludeBasePath absolute =
     (case IndexAny absolute ''*?'' of
        None \<Rightarrow>
          if \<not> HasExtension absolute then absolute
          else RemoveTrailingDirectorySeparator (GetDirectoryPath absolute)
      | Some wildcardOffset \<Rightarrow>
          take (case strLastIndexByte (take wildcardOffset absolute) slash_char of None \<Rightarrow> 0 | Some i \<Rightarrow> i) absolute)"

fun insertStable :: "('a \<Rightarrow> 'a \<Rightarrow> int) \<Rightarrow> 'a \<Rightarrow> 'a list \<Rightarrow> 'a list" where
  "insertStable cmp x [] = [x]"
| "insertStable cmp x (y # ys) = (if cmp x y \<le> 0 then x # y # ys else y # insertStable cmp x ys)"

definition SortStableFunc :: "'a list \<Rightarrow> ('a \<Rightarrow> 'a \<Rightarrow> int) \<Rightarrow> 'a list" where
  \<comment> \<open>\<open>slices.SortStableFunc\<close>: the order of a stable sort does not depend on the algorithm\<close>
  "SortStableFunc xs cmp = foldr (insertStable cmp) xs []"

definition addBasePath ::
  "(string \<Rightarrow> string \<Rightarrow> bool) \<Rightarrow> ComparePathsOptions \<Rightarrow> string \<Rightarrow> string list \<Rightarrow> string list" where
  "addBasePath eqFold options includeBasePath basePaths =
     (if Every basePaths (\<lambda>basepath. \<not> ContainsPath eqFold basepath includeBasePath options)
      then basePaths @ [includeBasePath] else basePaths)"

definition absoluteInclude :: "string \<Rightarrow> string \<Rightarrow> string" where
  "absoluteInclude path incl = (if IsRootedDiskPath incl then incl else NormalizePath (CombinePaths path [incl]))"

definition getBasePaths ::
  "(string \<Rightarrow> string \<Rightarrow> bool) \<Rightarrow> (rune \<Rightarrow> rune) \<Rightarrow> string \<Rightarrow> string list \<Rightarrow> bool \<Rightarrow> string list" where
  "getBasePaths eqFold toLower path incls cs =
     (if incls \<noteq> [] then
        let comparePathsOptions = \<lparr>UseCaseSensitiveFileNames = cs, CurrentDirectory = path\<rparr>;
            stringComparer = GetComparer toLower comparePathsOptions;
            includeBasePaths = map (\<lambda>incl. getIncludeBasePath (absoluteInclude path incl)) incls
        in fold (addBasePath eqFold comparePathsOptions) (SortStableFunc includeBasePaths stringComparer) [path]
      else [path])"

definition matchFiles ::
  "(string \<Rightarrow> string \<Rightarrow> bool) \<Rightarrow> (rune \<Rightarrow> rune) \<Rightarrow> nat \<Rightarrow> string \<Rightarrow> string list \<Rightarrow> string list \<Rightarrow> string list \<Rightarrow> bool \<Rightarrow> string \<Rightarrow> int
   \<Rightarrow> vfs_FS \<Rightarrow> string list or_panic" where
  "matchFiles eqFold toLower fuel path0 exts excls incls cs currentDirectory0 depth fs =
     (let path = NormalizePath path0;
          currentDirectory = NormalizePath currentDirectory0;
          absolutePath = CombinePaths currentDirectory [path];
          fm = newGlobMatcher incls excls absolutePath cs UsageFiles;
          dm = newGlobMatcher incls excls absolutePath cs UsageDirectories;
          v = \<lparr>host = fs, fileMatcher = fm, directoryMatcher = dm, extensions = exts, useCaseSensitiveFileNames = cs,
               visited = {}, results = replicate (max (length (gm_includes fm)) 1) []\<rparr>
      in bind_panic (foldPanic (\<lambda>basePath. visit eqFold toLower fuel basePath (CombinePaths currentDirectory [basePath]) depth)
                       (getBasePaths eqFold toLower path incls cs) v)
           (\<lambda>v'. Inr (if length (results v') = 1 then results v' ! 0 else Flatten (results v'))))"

definition ReadDirectory ::
  "(string \<Rightarrow> string \<Rightarrow> bool) \<Rightarrow> (rune \<Rightarrow> rune) \<Rightarrow> nat \<Rightarrow> vfs_FS \<Rightarrow> string \<Rightarrow> string \<Rightarrow> string list \<Rightarrow> string list \<Rightarrow> string list \<Rightarrow> int
   \<Rightarrow> string list or_panic" where
  "ReadDirectory eqFold toLower fuel fs currentDir path exts excls incls depth =
     matchFiles eqFold toLower fuel path exts excls incls (fs_UseCaseSensitiveFileNames fs) currentDir depth fs"

section \<open>Matchers for a list of patterns\<close>

record SpecMatcher =
  patterns :: "globPattern list"

definition SpecMatcher_MatchString :: "(string \<Rightarrow> string \<Rightarrow> bool) \<Rightarrow> (rune \<Rightarrow> rune) \<Rightarrow> SpecMatcher \<Rightarrow> string \<Rightarrow> bool or_panic" where
  "SpecMatcher_MatchString eqFold toLower m path =
     bind_panic (firstMatch (\<lambda>p. matches eqFold toLower p path) 0 (patterns m)) (\<lambda>i. Inr (i \<noteq> None))"

definition SpecMatcher_MatchIndex :: "(string \<Rightarrow> string \<Rightarrow> bool) \<Rightarrow> (rune \<Rightarrow> rune) \<Rightarrow> SpecMatcher \<Rightarrow> string \<Rightarrow> int or_panic" where
  "SpecMatcher_MatchIndex eqFold toLower m path =
     bind_panic (firstMatch (\<lambda>p. matches eqFold toLower p path) 0 (patterns m)) (\<lambda>i.
       Inr (case i of Some i \<Rightarrow> int i | None \<Rightarrow> -1))"

definition NewSpecMatcher :: "string list \<Rightarrow> string \<Rightarrow> Usage \<Rightarrow> bool \<Rightarrow> SpecMatcher option" where
  "NewSpecMatcher specs basePath usage cs =
     (if specs = [] then None
      else
        let ps = List.map_filter (\<lambda>spec. compileGlobPattern spec basePath usage cs) specs in
        if ps = [] then None else Some \<lparr>patterns = ps\<rparr>)"

end
