(* ===== verification/VfsMatch_Segments.thy ===== *)
theory VfsMatch_Segments
  imports VfsMatch
begin

text \<open>
  What a wildcard component matches. \<open>segMatch\<close> says it by recursion, with a choice at every star; the loop of \<open>matchSegments\<close>
  remembers the last star only, and takes one rune more for it after every failure. Both agree, since what follows a star is
  matched at the first place where it fits, and a later star can take what an earlier one would have taken more.
\<close>

section \<open>Runes of a string\<close>

definition runeNext :: "string \<Rightarrow> nat \<Rightarrow> nat" where
  "runeNext s i = i + snd (decodeRune (drop i s))"

definition runeStart :: "string \<Rightarrow> nat \<Rightarrow> bool" where
  "runeStart s i \<longleftrightarrow> (\<exists>n. i = (runeNext s ^^ n) 0)"

lemma runeNext_ge: "i \<le> runeNext s i"
  by (simp add: runeNext_def)

lemma runeNext_less: "i < length s \<Longrightarrow> i < runeNext s i"
  by (simp add: runeNext_def decodeRune_size_pos)

lemma runeNext_le: "i \<le> length s \<Longrightarrow> runeNext s i \<le> length s"
  using decodeRune_size_le [of "drop i s"] by (simp add: runeNext_def)

lemma runeNext_end: "length s \<le> i \<Longrightarrow> (runeNext s ^^ n) i = i"
  by (induction n) (simp_all add: runeNext_def decodeRune_def)

lemma runeNext_pow_ge: "i \<le> (runeNext s ^^ n) i"
  by (induction n) (auto intro: order_trans runeNext_ge)

lemma runeNext_pow_le: "i \<le> length s \<Longrightarrow> (runeNext s ^^ n) i \<le> length s"
  by (induction n) (auto intro: runeNext_le)

lemma runeStart_0 [simp]: "runeStart s 0"
  by (auto simp: runeStart_def intro: exI [of _ 0])

lemma runeStart_pow: "runeStart s i \<Longrightarrow> runeStart s ((runeNext s ^^ n) i)"
  by (auto simp: runeStart_def funpow_add [unfolded comp_def, symmetric, THEN fun_cong] simp flip: funpow_add)

lemma runeStart_next: "runeStart s i \<Longrightarrow> runeStart s (runeNext s i)"
  using runeStart_pow [of s i 1] by simp

lemma runeStart_chain:
  assumes "runeStart s i" "runeStart s j" "i \<le> j"
  shows "\<exists>n. j = (runeNext s ^^ n) i"
proof -
  obtain a b where ab: "i = (runeNext s ^^ a) 0" "j = (runeNext s ^^ b) 0" using assms(1,2) by (auto simp: runeStart_def)
  show ?thesis
  proof (cases "a \<le> b")
    case True
    then have "j = (runeNext s ^^ (b - a)) i" using ab by (simp flip: comp_apply [of "runeNext s ^^ (b - a)"] funpow_add)
    then show ?thesis by blast
  next
    case False
    then have "i = (runeNext s ^^ (a - b)) j" using ab by (simp flip: comp_apply [of "runeNext s ^^ (a - b)"] funpow_add)
    then have "j = i" using runeNext_pow_ge [of j "a - b" s] assms(3) by simp
    then show ?thesis by (intro exI [of _ 0]) simp
  qed
qed

lemma runeNext_mono:
  assumes "runeStart s i" "runeStart s j" "i \<le> j"
  shows "runeNext s i \<le> runeNext s j"
proof -
  obtain n where "j = (runeNext s ^^ n) i" using runeStart_chain [OF assms] by blast
  then show ?thesis using runeNext_pow_ge [of "runeNext s i" "n - 1" s] runeNext_ge [of j s]
    by (cases n) (auto simp: funpow_swap1 intro: order_trans)
qed

section \<open>What a list of segments matches\<close>

function segMatch :: "(string \<Rightarrow> string \<Rightarrow> bool) \<Rightarrow> segment list \<Rightarrow> string \<Rightarrow> bool" where
  "segMatch eq [] s = (s = [])"
| "segMatch eq (SegLiteral lit # segs) s =
     (length lit \<le> length s \<and> eq lit (take (length lit) s) \<and> segMatch eq segs (drop (length lit) s))"
| "segMatch eq (SegQuestion # segs) s =
     (s \<noteq> [] \<and> hd s \<noteq> slash_char \<and> segMatch eq segs (drop (snd (decodeRune s)) s))"
| "segMatch eq (SegStar # segs) s =
     (segMatch eq segs s
      \<or> (if s = [] \<or> hd s = slash_char then False else segMatch eq (SegStar # segs) (drop (snd (decodeRune s)) s)))"
  by pat_completeness auto
termination
  by (relation "measure (\<lambda>(eq, segs, s). length segs + length s)") (auto simp: decodeRune_size_pos)

declare segMatch.simps(4) [simp del]

lemma segMatch_Star_pow:
  assumes "slash_char \<notin> set s"
  shows "i \<le> length s \<Longrightarrow> segMatch eq (SegStar # segs) (drop i s) \<longleftrightarrow> (\<exists>n. segMatch eq segs (drop ((runeNext s ^^ n) i) s))"
proof (induction "length s - i" arbitrary: i rule: less_induct)
  case less
  show ?case
  proof (cases "i < length s")
    case True
    have "hd (drop i s) \<noteq> slash_char" using True assms by (metis hd_drop_conv_nth nth_mem)
    then have "segMatch eq (SegStar # segs) (drop i s)
        \<longleftrightarrow> segMatch eq segs (drop i s) \<or> segMatch eq (SegStar # segs) (drop (runeNext s i) s)"
      using True by (subst segMatch.simps(4)) (simp add: runeNext_def add.commute)
    also have "segMatch eq (SegStar # segs) (drop (runeNext s i) s) \<longleftrightarrow> (\<exists>n. segMatch eq segs (drop ((runeNext s ^^ n) (runeNext s i)) s))"
      using less True runeNext_less [of i s] runeNext_le [of i s] by simp
    also have "segMatch eq segs (drop i s) \<or> (\<exists>n. segMatch eq segs (drop ((runeNext s ^^ n) (runeNext s i)) s))
        \<longleftrightarrow> (\<exists>n. segMatch eq segs (drop ((runeNext s ^^ n) i) s))"
      by (metis funpow_0 funpow_simps_right(2) comp_apply not0_implies_Suc)
    finally show ?thesis .
  next
    case False
    then show ?thesis by (simp add: runeNext_end segMatch.simps(4))
  qed
qed

lemma segMatch_Nil:
  "SegLiteral [] \<notin> set segs \<Longrightarrow> segMatch eq segs [] \<longleftrightarrow> list_all (\<lambda>seg. seg = SegStar) segs"
proof (induction segs)
  case (Cons seg segs)
  then show ?case by (cases seg) (auto simp: segMatch.simps(4))
qed simp

section \<open>The segments after a star\<close>

fun fixRun :: "(string \<Rightarrow> string \<Rightarrow> bool) \<Rightarrow> string \<Rightarrow> segment list \<Rightarrow> nat \<Rightarrow> nat option" where
  "fixRun eq s [] i = Some i"
| "fixRun eq s (SegLiteral lit # segs) i =
     (if i + length lit \<le> length s \<and> eq lit (take (length lit) (drop i s)) then fixRun eq s segs (i + length lit) else None)"
| "fixRun eq s (SegQuestion # segs) i =
     (if i < length s \<and> s ! i \<noteq> slash_char then fixRun eq s segs (runeNext s i) else None)"
| "fixRun eq s (SegStar # segs) i = None"

lemma fixRun_append: "fixRun eq s (xs @ ys) i = Option.bind (fixRun eq s xs i) (fixRun eq s ys)"
  by (induction eq s xs i rule: fixRun.induct) auto

lemma fixRun_le: "fixRun eq s xs i = Some e \<Longrightarrow> i \<le> length s \<Longrightarrow> e \<le> length s"
  by (induction eq s xs i rule: fixRun.induct) (auto split: if_splits simp: runeNext_le)

lemma segMatch_fixRun:
  "SegStar \<notin> set mid \<Longrightarrow> i \<le> length s \<Longrightarrow>
   segMatch eq (mid @ segs) (drop i s) \<longleftrightarrow> (\<exists>e. fixRun eq s mid i = Some e \<and> segMatch eq segs (drop e s))"
proof (induction eq s mid i rule: fixRun.induct)
  case (3 eq s mid i)
  then show ?case using runeNext_le [of i s] by (auto simp: hd_drop_conv_nth runeNext_def add.commute)
qed (auto simp: add.commute)

definition plainSegments :: "(string \<Rightarrow> string \<Rightarrow> bool) \<Rightarrow> segment list \<Rightarrow> string \<Rightarrow> bool" where
  \<comment> \<open>no separator in the string, no empty literal, and a literal that matches at the start of a rune ends at one\<close>
  "plainSegments eq segs s \<longleftrightarrow>
     slash_char \<notin> set s \<and> SegLiteral [] \<notin> set segs
     \<and> (\<forall>lit i. SegLiteral lit \<in> set segs \<and> runeStart s i \<and> i + length lit \<le> length s \<and> eq lit (take (length lit) (drop i s))
          \<longrightarrow> runeStart s (i + length lit))"

lemma fixRun_start:
  assumes "plainSegments eq segs s"
  shows "set mid \<subseteq> set segs \<Longrightarrow> runeStart s i \<Longrightarrow> fixRun eq s mid i = Some e \<Longrightarrow> runeStart s e"
  using assms
proof (induction eq s mid i rule: fixRun.induct)
  case (2 eq s lit mid i)
  have "runeStart s (i + length lit)" using 2(2-5) by (auto simp: plainSegments_def split: if_splits)
  then show ?case using 2 by (auto split: if_splits)
qed (auto split: if_splits intro: runeStart_next)

lemma fixRun_mono:
  assumes "plainSegments eq segs s"
  shows "set mid \<subseteq> set segs \<Longrightarrow> runeStart s i \<Longrightarrow> runeStart s j \<Longrightarrow> i \<le> j
    \<Longrightarrow> fixRun eq s mid i = Some e \<Longrightarrow> fixRun eq s mid j = Some e' \<Longrightarrow> e \<le> e'"
  using assms
proof (induction eq s mid i arbitrary: j rule: fixRun.induct)
  case (2 eq s lit mid i)
  have "runeStart s (i + length lit)" "runeStart s (j + length lit)"
    using 2(2-8) by (auto simp: plainSegments_def split: if_splits)
  then show ?case using 2 by (auto split: if_splits)
next
  case (3 eq s mid i)
  then show ?case using runeNext_mono [of s i j] by (auto split: if_splits intro: runeStart_next)
qed auto

section \<open>The loop keeps its invariant\<close>

definition segRun :: "(string \<Rightarrow> string \<Rightarrow> bool) \<Rightarrow> segment list \<Rightarrow> string \<Rightarrow> segState \<Rightarrow> bool" where
  \<comment> \<open>since the last star, or since the start, every segment has been matched without a choice\<close>
  "segRun eq segs s = (\<lambda>(segIdx, sIdx, star). case star of
      None \<Rightarrow> SegStar \<notin> set (take segIdx segs) \<and> fixRun eq s (take segIdx segs) 0 = Some sIdx
    | Some (k, j) \<Rightarrow> k < segIdx \<and> j \<le> length s \<and> runeStart s j
        \<and> SegStar \<notin> set (drop (k + 1) (take segIdx segs)) \<and> fixRun eq s (drop (k + 1) (take segIdx segs)) j = Some sIdx)"

definition segGoal :: "(string \<Rightarrow> string \<Rightarrow> bool) \<Rightarrow> segment list \<Rightarrow> string \<Rightarrow> segState \<Rightarrow> bool" where
  \<comment> \<open>what is left to try\<close>
  "segGoal eq segs s = (\<lambda>(segIdx, sIdx, star). case star of
      None \<Rightarrow> segMatch eq segs s
    | Some (k, j) \<Rightarrow> \<exists>n. segMatch eq (drop (k + 1) segs) (drop ((runeNext s ^^ n) j) s))"

definition segInv :: "(string \<Rightarrow> string \<Rightarrow> bool) \<Rightarrow> segment list \<Rightarrow> string \<Rightarrow> segState \<Rightarrow> bool" where
  "segInv eq segs s st \<longleftrightarrow> fst st \<le> length segs \<and> segRun eq segs s st \<and> (segGoal eq segs s st \<longleftrightarrow> segMatch eq segs s)"

abbreviation segHere :: "(string \<Rightarrow> string \<Rightarrow> bool) \<Rightarrow> segment list \<Rightarrow> string \<Rightarrow> segState \<Rightarrow> bool" where
  "segHere eq segs s st \<equiv> segMatch eq (drop (fst st) segs) (drop (fst (snd st)) s)"

lemma segRun_position:
  assumes "plainSegments eq segs s" "segRun eq segs s (segIdx, sIdx, star)"
  shows "sIdx \<le> length s \<and> runeStart s sIdx"
proof (cases star)
  case None
  then show ?thesis using assms fixRun_le [of eq s "take segIdx segs" 0] fixRun_start [OF assms(1), of "take segIdx segs" 0]
    by (auto simp: segRun_def set_take_subset)
next
  case (Some kj)
  obtain k j where kj: "kj = (k, j)" by fastforce
  have "set (drop (k + 1) (take segIdx segs)) \<subseteq> set segs" using set_drop_subset set_take_subset by fast
  then show ?thesis using assms Some kj fixRun_le fixRun_start [OF assms(1)] by (auto simp: segRun_def)
qed

lemma segs_split: "k < segIdx \<Longrightarrow> drop (k + 1) segs = drop (k + 1) (take segIdx segs) @ drop segIdx segs"
  by (metis Suc_eq_plus1 Suc_leI append_take_drop_id drop_append drop_take length_take min_def nat_le_linear diff_is_0_eq drop0 drop_all
      append_Nil2 take_all)

text \<open>A way to go on from the last star is a way to go on from here, when a star comes next or when the string is used up.\<close>

lemma segGoal_here:
  assumes plain: "plainSegments eq segs s" and run: "segRun eq segs s (segIdx, sIdx, star)"
    and "sIdx = length s \<or> segIdx < length segs \<and> segs ! segIdx = SegStar"
  shows "segGoal eq segs s (segIdx, sIdx, star) \<longleftrightarrow> segHere eq segs s (segIdx, sIdx, star)"
proof (cases star)
  case None
  then show ?thesis using run segMatch_fixRun [of "take segIdx segs" 0 s eq "drop segIdx segs"] by (simp add: segRun_def segGoal_def)
next
  case (Some kj)
  obtain k j where kj: "kj = (k, j)" by fastforce
  let ?mid = "drop (k + 1) (take segIdx segs)"
  have mid: "set ?mid \<subseteq> set segs" using set_drop_subset set_take_subset by fast
  have r: "k < segIdx" "j \<le> length s" "runeStart s j" "SegStar \<notin> set ?mid" "fixRun eq s ?mid j = Some sIdx"
    using run Some kj by (simp_all add: segRun_def)
  have at: "segMatch eq (drop (k + 1) segs) (drop i s) \<longleftrightarrow> (\<exists>e. fixRun eq s ?mid i = Some e \<and> segMatch eq (drop segIdx segs) (drop e s))"
    if "i \<le> length s" for i
    using segMatch_fixRun [OF r(4) that, of eq "drop segIdx segs"] segs_split [OF r(1), of segs] by simp
  have later: "segMatch eq (drop segIdx segs) (drop sIdx s)"
    if fr: "fixRun eq s ?mid ((runeNext s ^^ n) j) = Some e" and sm: "segMatch eq (drop segIdx segs) (drop e s)" for n e
  proof -
    have b: "runeStart s ((runeNext s ^^ n) j)" by (rule runeStart_pow [OF r(3)])
    have e: "sIdx \<le> e" "runeStart s sIdx" "runeStart s e" "sIdx \<le> length s"
      using fixRun_mono [OF plain mid r(3) b runeNext_pow_ge r(5) fr] fixRun_start [OF plain mid] r(3,5) b fr
        fixRun_le [OF r(5,2)] by blast+
    show ?thesis
    proof (cases "sIdx = length s")
      case True
      then show ?thesis using sm e(1) by simp
    next
      case False
      then have star: "drop segIdx segs = SegStar # drop (segIdx + 1) segs" using assms(3) by (metis Cons_nth_drop_Suc Suc_eq_plus1)
      obtain m where m: "e = (runeNext s ^^ m) sIdx" using runeStart_chain [OF e(2,3,1)] by blast
      have sl: "slash_char \<notin> set s" using plain by (simp add: plainSegments_def)
      obtain n' where "segMatch eq (drop (segIdx + 1) segs) (drop ((runeNext s ^^ n') e) s)"
        using sm segMatch_Star_pow [OF sl, of e eq "drop (segIdx + 1) segs"] star m runeNext_pow_le [OF e(4), of m] by auto
      then have "segMatch eq (drop (segIdx + 1) segs) (drop ((runeNext s ^^ (n' + m)) sIdx) s)" using m by (simp add: funpow_add)
      then show ?thesis using segMatch_Star_pow [OF sl e(4), of eq "drop (segIdx + 1) segs"] star by auto
    qed
  qed
  show ?thesis
  proof
    assume "segGoal eq segs s (segIdx, sIdx, star)"
    then show "segHere eq segs s (segIdx, sIdx, star)"
      using at runeNext_pow_le [OF r(2)] later Some kj by (auto simp: segGoal_def)
  next
    assume "segHere eq segs s (segIdx, sIdx, star)"
    then have "segMatch eq (drop (k + 1) segs) (drop j s)" using at [OF r(2)] r(5) by auto
    then show "segGoal eq segs s (segIdx, sIdx, star)" using Some kj by (auto simp: segGoal_def intro: exI [of _ 0])
  qed
qed

section \<open>One turn of the loop\<close>

definition segMeasure :: "segment list \<Rightarrow> string \<Rightarrow> segState \<Rightarrow> nat" where
  "segMeasure segs s = (\<lambda>(segIdx, sIdx, star).
     (case star of None \<Rightarrow> length segs | Some (k, j) \<Rightarrow> length segs - (k + 1)) * (length s + 1) * (length segs + 1)
     + (case star of None \<Rightarrow> length s | Some (k, j) \<Rightarrow> length s - j) * (length segs + 1) + (length segs - segIdx))"

lemma triple_less:
  fixes a :: nat
  assumes "Suc a \<le> a'" "b \<le> L" "c \<le> n"
  shows "a * (L + 1) * (n + 1) + b * (n + 1) + c < a' * (L + 1) * (n + 1) + d"
proof -
  have "b * (n + 1) + c < (L + 1) * (n + 1)" using mult_le_mono1 [OF assms(2), of "n + 1"] assms(3) by simp
  moreover have "a * (L + 1) * (n + 1) + (L + 1) * (n + 1) \<le> a' * (L + 1) * (n + 1)"
    using mult_le_mono1 [OF assms(1), of "(L + 1) * (n + 1)"] by (simp only: mult_Suc mult.assoc add.commute)
  ultimately show ?thesis by linarith
qed

lemma pair_less:
  fixes a :: nat
  assumes "Suc b \<le> b'" "c \<le> n"
  shows "a + b * (n + 1) + c < a + b' * (n + 1) + d"
proof -
  have "b * (n + 1) + (n + 1) \<le> b' * (n + 1)" using mult_le_mono1 [OF assms(1), of "n + 1"] by (simp only: mult_Suc add.commute)
  then show ?thesis using assms(2) by linarith
qed

lemma segRun_here:
  assumes "segRun eq segs s (segIdx, sIdx, star)"
  shows "segHere eq segs s (segIdx, sIdx, star)
    \<longleftrightarrow> (case star of None \<Rightarrow> segMatch eq segs s | Some (k, j) \<Rightarrow> segMatch eq (drop (k + 1) segs) (drop j s))"
proof (cases star)
  case None
  then show ?thesis using assms segMatch_fixRun [of "take segIdx segs" 0 s eq "drop segIdx segs"] by (simp add: segRun_def)
next
  case (Some kj)
  obtain k j where kj: "kj = (k, j)" by fastforce
  then show ?thesis using assms Some segMatch_fixRun [of "drop (k + 1) (take segIdx segs)" j s eq "drop segIdx segs"]
      segs_split [of k segIdx segs] by (simp add: segRun_def)
qed

lemma backtrack_Inl:
  assumes "segInv eq segs s (segIdx, sIdx, star)" "plainSegments eq segs s" "\<not> segHere eq segs s (segIdx, sIdx, star)"
    and "backtrack s star = Inl r"
  shows "\<not> r \<and> \<not> segMatch eq segs s"
proof (cases star)
  case None
  then show ?thesis using assms segRun_here [of eq segs s segIdx sIdx star] by (simp add: segInv_def backtrack_def)
next
  case (Some kj)
  obtain k j where kj: "kj = (k, j)" by fastforce
  have "slash_char \<notin> set s" using assms(2) by (simp add: plainSegments_def)
  then have "j < length s \<Longrightarrow> s ! j \<noteq> slash_char" by (metis nth_mem)
  then have j: "\<not> r" "length s \<le> j" using assms(4) Some kj by (auto simp: backtrack_def Let_def split: if_splits)
  then have "\<not> segGoal eq segs s (segIdx, sIdx, star)"
    using assms(1,3) segRun_here [of eq segs s segIdx sIdx star] Some kj by (simp add: segInv_def segGoal_def runeNext_end)
  then show ?thesis using assms(1) j(1) by (simp add: segInv_def)
qed

lemma backtrack_Inr:
  assumes "segInv eq segs s (segIdx, sIdx, star)" "\<not> segHere eq segs s (segIdx, sIdx, star)" "backtrack s star = Inr st'"
  shows "segInv eq segs s st' \<and> segMeasure segs s st' < segMeasure segs s (segIdx, sIdx, star)"
proof -
  obtain k j where star: "star = Some (k, j)" and j: "j < length s" and st': "st' = (k + 1, runeNext s j, Some (k, runeNext s j))"
    using assms(3) by (auto simp: backtrack_def Let_def runeNext_def split: option.splits if_splits)
  have run: "k < segIdx" "runeStart s j" using assms(1) star by (simp_all add: segInv_def segRun_def)
  have here: "\<not> segMatch eq (drop (k + 1) segs) (drop j s)"
    using assms(1,2) segRun_here [of eq segs s segIdx sIdx star] star by (simp add: segInv_def)
  have "segGoal eq segs s (segIdx, sIdx, star) \<longleftrightarrow> (\<exists>n. segMatch eq (drop (k + 1) segs) (drop ((runeNext s ^^ n) (runeNext s j)) s))"
    unfolding star segGoal_def prod.case option.case using here
    by (metis funpow_0 funpow_simps_right(2) comp_apply not0_implies_Suc)
  then have "segInv eq segs s st'" using assms(1) run j runeNext_le [of j s] runeStart_next [of s j]
    by (simp add: segInv_def segRun_def st' segGoal_def)
  moreover have "Suc (length s - runeNext s j) \<le> length s - j" using runeNext_less [OF j] j by simp
  then have "segMeasure segs s st' < segMeasure segs s (segIdx, sIdx, star)"
    unfolding segMeasure_def st' star prod.case option.case by (intro pair_less) simp_all
  ultimately show ?thesis by blast
qed

lemma advance_inv:
  assumes "segInv eq segs s (segIdx, sIdx, star)" "segIdx < length segs" "segs ! segIdx \<noteq> SegStar"
    and "fixRun eq s [segs ! segIdx] sIdx = Some sIdx'"
  shows "segInv eq segs s (segIdx + 1, sIdx', star)
    \<and> segMeasure segs s (segIdx + 1, sIdx', star) < segMeasure segs s (segIdx, sIdx, star)"
proof -
  have t: "take (Suc segIdx) segs = take segIdx segs @ [segs ! segIdx]" using assms(2) by (simp add: take_Suc_conv_app_nth)
  have "segRun eq segs s (segIdx + 1, sIdx', star)"
    using assms(1,3,4) by (auto simp: segInv_def segRun_def t fixRun_append assms(2) less_imp_le split: option.splits)
  then show ?thesis using assms(1,2) by (auto simp: segInv_def segGoal_def segMeasure_def)
qed

lemma advance_stuck:
  assumes "segIdx < length segs" "segs ! segIdx \<noteq> SegStar" "fixRun eq s [segs ! segIdx] sIdx = None" "sIdx \<le> length s"
  shows "\<not> segHere eq segs s (segIdx, sIdx, star)"
  using assms segMatch_fixRun [of "[segs ! segIdx]" sIdx s eq "drop (Suc segIdx) segs"] by (simp add: Cons_nth_drop_Suc)

lemma star_inv:
  assumes "segInv eq segs s (segIdx, sIdx, star)" "plainSegments eq segs s" "segIdx < length segs" "segs ! segIdx = SegStar"
  shows "segInv eq segs s (segIdx + 1, sIdx, Some (segIdx, sIdx))
    \<and> segMeasure segs s (segIdx + 1, sIdx, Some (segIdx, sIdx)) < segMeasure segs s (segIdx, sIdx, star)"
proof -
  have pos: "sIdx \<le> length s" "runeStart s sIdx" using assms(1,2) segRun_position [of eq segs s segIdx sIdx star] by (simp_all add: segInv_def)
  have d: "drop segIdx segs = SegStar # drop (segIdx + 1) segs" using assms(3,4) by (metis Cons_nth_drop_Suc Suc_eq_plus1)
  have "segHere eq segs s (segIdx, sIdx, star) \<longleftrightarrow> segGoal eq segs s (segIdx + 1, sIdx, Some (segIdx, sIdx))"
    using assms(2) d segMatch_Star_pow [of s sIdx eq "drop (segIdx + 1) segs"] pos(1) by (simp add: segGoal_def plainSegments_def)
  then have "segGoal eq segs s (segIdx, sIdx, star) \<longleftrightarrow> segGoal eq segs s (segIdx + 1, sIdx, Some (segIdx, sIdx))"
    using segGoal_here [of eq segs s segIdx sIdx star] assms by (simp add: segInv_def)
  moreover have "segMeasure segs s (segIdx + 1, sIdx, Some (segIdx, sIdx)) < segMeasure segs s (segIdx, sIdx, star)"
  proof -
    let ?b = "case star of None \<Rightarrow> length segs | Some (k, j) \<Rightarrow> length segs - (k + 1)"
    have "Suc (length segs - (segIdx + 1)) \<le> ?b" using assms(1,3) by (auto simp: segInv_def segRun_def split: option.splits)
    then show ?thesis unfolding segMeasure_def prod.case option.case add.assoc [of "?b * (length s + 1) * (length segs + 1)"]
      by (intro triple_less) simp_all
  qed
  ultimately show ?thesis using assms(1,3) pos by (simp add: segInv_def segRun_def)
qed

lemma fixRun_one:
  "fixRun eq s [SegLiteral lit] i = (if i + length lit \<le> length s \<and> eq lit (take (length lit) (drop i s)) then Some (i + length lit) else None)"
  "fixRun eq s [SegQuestion] i = (if i < length s \<and> s ! i \<noteq> slash_char then Some (runeNext s i) else None)"
  by simp_all

lemma segStep_cases:
  assumes "sIdx < length s" "segIdx < length segs" "segs ! segIdx \<noteq> SegStar"
  shows "segStep eq segs s (segIdx, sIdx, star) =
    (case fixRun eq s [segs ! segIdx] sIdx of Some sIdx' \<Rightarrow> Inr (segIdx + 1, sIdx', star) | None \<Rightarrow> backtrack s star)"
  using assms by (cases "segs ! segIdx") (auto simp: segStep_def fixRun_one runeNext_def)

lemma segStep_stuck:
  assumes "segInv eq segs s (segIdx, sIdx, star)" "plainSegments eq segs s" "sIdx < length s"
    and "segIdx < length segs \<longrightarrow> segs ! segIdx \<noteq> SegStar \<and> fixRun eq s [segs ! segIdx] sIdx = None"
  shows "\<not> segHere eq segs s (segIdx, sIdx, star) \<and> segStep eq segs s (segIdx, sIdx, star) = backtrack s star"
proof (cases "segIdx < length segs")
  case True
  then show ?thesis using assms advance_stuck [of segIdx segs eq s sIdx] by (simp add: segStep_cases)
next
  case False
  then show ?thesis using assms by (simp add: segStep_def)
qed

lemma segStep_correct:
  assumes inv: "segInv eq segs s (segIdx, sIdx, star)" and plain: "plainSegments eq segs s"
  shows "case segStep eq segs s (segIdx, sIdx, star) of
      Inl r \<Rightarrow> r \<longleftrightarrow> segMatch eq segs s
    | Inr st' \<Rightarrow> segInv eq segs s st' \<and> segMeasure segs s st' < segMeasure segs s (segIdx, sIdx, star)"
proof -
  consider (finish) "\<not> sIdx < length s" | (star) "sIdx < length s" "segIdx < length segs" "segs ! segIdx = SegStar"
    | (advance) sIdx' where "sIdx < length s" "segIdx < length segs" "segs ! segIdx \<noteq> SegStar" "fixRun eq s [segs ! segIdx] sIdx = Some sIdx'"
    | (stuck) "sIdx < length s" "segIdx < length segs \<longrightarrow> segs ! segIdx \<noteq> SegStar \<and> fixRun eq s [segs ! segIdx] sIdx = None"
    by (metis option.exhaust)
  then show ?thesis
  proof cases
    case finish
    have "sIdx = length s" using finish inv plain segRun_position [of eq segs s segIdx sIdx star] by (simp add: segInv_def)
    moreover have "SegLiteral [] \<notin> set (drop segIdx segs)" using plain set_drop_subset [of segIdx segs] by (auto simp: plainSegments_def)
    ultimately show ?thesis using inv segGoal_here [OF plain, of segIdx sIdx star] segMatch_Nil [of "drop segIdx segs" eq]
      by (simp add: segInv_def segStep_def)
  next
    case star
    then show ?thesis using star_inv [OF inv plain] by (simp add: segStep_def)
  next
    case advance
    then show ?thesis using advance_inv [OF inv] by (simp add: segStep_cases)
  next
    case stuck
    then show ?thesis using segStep_stuck [OF inv plain stuck] backtrack_Inl [OF inv plain] backtrack_Inr [OF inv] by (auto split: sum.splits)
  qed
qed

lemma matchSegmentsLoop_correct:
  assumes "plainSegments eq segs s"
  shows "segInv eq segs s st \<Longrightarrow> segMeasure segs s st < fuel \<Longrightarrow> matchSegmentsLoop eq segs s fuel st = Some (segMatch eq segs s)"
proof (induction fuel arbitrary: st)
  case (Suc fuel)
  obtain segIdx sIdx star where st: "st = (segIdx, sIdx, star)" by (cases st)
  show ?case
  proof (cases "segStep eq segs s st")
    case (Inl r)
    then show ?thesis using segStep_correct [OF Suc.prems(1) [unfolded st] assms] by (simp add: st)
  next
    case (Inr st')
    then show ?thesis using segStep_correct [OF Suc.prems(1) [unfolded st] assms] Suc by (simp add: st)
  qed
qed simp

lemma matchSegments_segMatch:
  assumes "plainSegments (stringsEqual eqFold p) segs s"
  shows "matchSegmentsLoop (stringsEqual eqFold p) segs s (segmentsFuel segs s) (0, 0, None) = Some (segMatch (stringsEqual eqFold p) segs s)
    \<and> (matchSegments eqFold p segs s \<longleftrightarrow> segMatch (stringsEqual eqFold p) segs s)"
proof -
  have "segInv (stringsEqual eqFold p) segs s (0, 0, None)" by (simp add: segInv_def segRun_def segGoal_def)
  moreover have "segMeasure segs s (0, 0, None) < segmentsFuel segs s"
    unfolding segMeasure_def segmentsFuel_def prod.case option.case add.assoc [of "(length segs + 1) * (length s + 1) * (length segs + 1)"]
    by (intro triple_less) simp_all
  ultimately show ?thesis using matchSegmentsLoop_correct [OF assms] by (simp add: matchSegments_def)
qed

end
