(* ===== verification/VfsMatch_Wildcard.thy ===== *)
theory VfsMatch_Wildcard
  imports VfsMatch_Segments
begin

text \<open>
  What a component with wildcards matches, for patterns that are UTF-8 text: the segments of such a pattern are text, a piece of
  text only occurs at the start of a rune, and so the loop and the shortcut for \<open>*\<close> before a literal both decide \<open>segMatch\<close>.
\<close>

section \<open>Text occurs at the starts of runes\<close>

abbreviation utf8 :: "rune list \<Rightarrow> string" where
  "utf8 rs \<equiv> concat (map encodeRune rs)"

lemma continuation_bytes:
  assumes "m < snd (decodeRune s)" "0 < m"
  shows "0x80 \<le> byte_of (s ! m) \<and> byte_of (s ! m) \<le> 0xBF"
  using assms by (auto simp: decodeRune_def decode2_def decode3_def decode4_def Let_def isCont_def nth_Cons' split: list.splits if_splits)

lemma first_byte: "\<not> (0x80 \<le> byte_of (hd (encodeRune r)) \<and> byte_of (hd (encodeRune r)) \<le> 0xBF)"
proof -
  define v where "v = (if validRune r then r else RuneError)"
  have v: "v \<le> 0x10FFFF" by (auto simp: v_def validRune_def RuneError_def)
  have e: "encodeRune r = encodeValid v" by (simp add: encodeRune_def v_def)
  consider "v < 0x80" | "0x80 \<le> v" "v < 0x800" | "0x800 \<le> v" "v < 0x10000" | "0x10000 \<le> v" by linarith
  then show ?thesis
  proof cases
    case 2
    then have "v div 64 < 32" by (simp add: less_mult_imp_div_less)
    then show ?thesis using 2 by (simp add: e encodeValid_def)
  next
    case 3
    then have "v div 4096 < 16" by (simp add: less_mult_imp_div_less)
    then show ?thesis using 3 by (simp add: e encodeValid_def)
  next
    case 4
    then have "v div 262144 < 5" using v by (simp add: less_mult_imp_div_less)
    then show ?thesis using 4 by (simp add: e encodeValid_def)
  qed (simp add: e encodeValid_def)
qed

lemma ascii_byte: "c \<in> set (encodeRune r) \<Longrightarrow> byte_of c < 0x80 \<Longrightarrow> encodeRune r = [c]"
proof -
  define v where "v = (if validRune r then r else RuneError)"
  have v: "v \<le> 0x10FFFF" by (auto simp: v_def validRune_def RuneError_def)
  have e: "encodeRune r = encodeValid v" by (simp add: encodeRune_def v_def)
  have "v div 64 < 32" if "v < 0x800" using that by (simp add: less_mult_imp_div_less)
  moreover have "v div 4096 < 16" if "v < 0x10000" using that by (simp add: less_mult_imp_div_less)
  moreover have "v div 262144 < 5" using v by (simp add: less_mult_imp_div_less)
  moreover have "128 + n mod 64 < 256" for n :: nat using mod64_less [of n] by simp
  moreover assume "c \<in> set (encodeRune r)" "byte_of c < 0x80"
  ultimately show ?thesis by (auto simp: e encodeValid_def split: if_splits)
qed

lemma decode_encoded: "snd (decodeRune (encodeRune r @ s)) = length (encodeRune r)"
proof (cases "validRune r")
  case False
  then have "encodeRune r = encodeRune RuneError" by (auto simp: encodeRune_def validRune_def RuneError_def)
  then show ?thesis using decodeRune_encodeRune [of RuneError s] by (simp add: validRune_def RuneError_def)
qed (simp add: decodeRune_encodeRune)

lemma text_ends_at_start:
  "runeStart s i \<Longrightarrow> drop i s = utf8 rs @ t \<Longrightarrow> runeStart s (i + length (utf8 rs))"
proof (induction rs arbitrary: i)
  case (Cons r rs)
  have n: "runeNext s i = i + length (encodeRune r)" using Cons.prems(2) by (simp add: runeNext_def decode_encoded)
  have "drop (i + length (encodeRune r)) s = drop (length (encodeRune r)) (drop i s)" by (simp add: add.commute)
  then have "drop (i + length (encodeRune r)) s = utf8 rs @ t" using Cons.prems(2) by simp
  then have "runeStart s (i + length (encodeRune r) + length (utf8 rs))"
    using Cons.IH [of "i + length (encodeRune r)"] runeStart_next [OF Cons.prems(1)] n by simp
  then show ?case by (simp add: add.assoc)
qed simp

lemma rune_stays_before:
  assumes "s = x @ y" "i < length x" "y \<noteq> [] \<longrightarrow> \<not> (0x80 \<le> byte_of (hd y) \<and> byte_of (hd y) \<le> 0xBF)"
  shows "runeNext s i \<le> length x"
proof (rule ccontr)
  assume c: "\<not> runeNext s i \<le> length x"
  then have "y \<noteq> []" using runeNext_le [of i s] assms(1,2) by auto
  moreover have "drop i s ! (length x - i) = hd y" using assms(1,2) \<open>y \<noteq> []\<close> by (simp add: nth_append hd_conv_nth)
  moreover have "length x - i < snd (decodeRune (drop i s))" using c assms(2) by (simp add: runeNext_def)
  ultimately show False using continuation_bytes [of "length x - i" "drop i s"] assms(2,3) by auto
qed

lemma text_begins_at_start:
  assumes "s = x @ y" "y \<noteq> [] \<longrightarrow> \<not> (0x80 \<le> byte_of (hd y) \<and> byte_of (hd y) \<le> 0xBF)"
  shows "runeStart s i \<Longrightarrow> i \<le> length x \<Longrightarrow> runeStart s (length x)"
proof (induction "length x - i" arbitrary: i rule: less_induct)
  case less
  show ?case
  proof (cases "i = length x")
    case False
    then have "i < length x" using less.prems by simp
    moreover from this have "i < runeNext s i" using runeNext_less [of i s] assms(1) by simp
    ultimately show ?thesis using less.hyps [of "runeNext s i"] rune_stays_before [OF assms(1) _ assms(2)] runeStart_next [OF less.prems(1)]
      by simp
  qed (use less in simp)
qed

section \<open>The segments of a text\<close>

definition textLiterals :: "segment list \<Rightarrow> bool" where
  "textLiterals segs \<longleftrightarrow> (\<forall>lit. SegLiteral lit \<in> set segs \<longrightarrow> lit \<noteq> [] \<and> (\<exists>rs. lit = utf8 rs))"

lemma parseSegmentsLoop_plain:
  "CHR ''*'' \<notin> set xs \<Longrightarrow> CHR ''?'' \<notin> set xs \<Longrightarrow> parseSegmentsLoop lit (xs @ s) = parseSegmentsLoop (lit @ xs) s"
  by (induction xs arbitrary: lit) auto

lemma parseSegmentsLoop_text:
  "textLiterals (parseSegmentsLoop (utf8 ls) (utf8 rs))"
proof (induction rs arbitrary: ls)
  case Nil
  then show ?case by (auto simp: textLiterals_def flushLiteral_def)
next
  case (Cons r rs)
  consider "encodeRune r = ''*''" | "encodeRune r = ''?''" | (other) "CHR ''*'' \<notin> set (encodeRune r)" "CHR ''?'' \<notin> set (encodeRune r)"
    using ascii_byte [of "CHR ''*''" r] ascii_byte [of "CHR ''?''" r] by fastforce
  then show ?case
  proof cases
    case other
    then show ?thesis using Cons.IH [of "ls @ [r]"] by (simp add: parseSegmentsLoop_plain)
  qed (use Cons.IH [of "[]"] in \<open>auto simp: textLiterals_def flushLiteral_def\<close>)
qed

lemma parseSegments_text: "textLiterals (parseSegments (utf8 rs))"
  using parseSegmentsLoop_text [of "[]" rs] by (simp add: parseSegments_def)

lemma textLiterals_plain:
  assumes "textLiterals segs" "caseSensitive p" "slash_char \<notin> set s"
  shows "plainSegments (stringsEqual eqFold p) segs s"
  unfolding plainSegments_def
proof (intro conjI allI impI)
  show "SegLiteral [] \<notin> set segs" using assms(1) by (auto simp: textLiterals_def)
  fix lit i
  assume a: "SegLiteral lit \<in> set segs \<and> runeStart s i \<and> i + length lit \<le> length s
    \<and> stringsEqual eqFold p lit (take (length lit) (drop i s))"
  then obtain rs where "lit = utf8 rs" using assms(1) by (auto simp: textLiterals_def)
  moreover have "drop i s = lit @ drop (length lit) (drop i s)" using a assms(2) by (metis append_take_drop_id stringsEqual_def)
  ultimately show "runeStart s (i + length lit)" using text_ends_at_start [of s i rs] a by simp
qed (use assms in simp)

text \<open>A name of ASCII bytes has a rune at every position, so that any comparison of literals will do.\<close>

lemma ascii_runeStart: "list_all (\<lambda>c. byte_of c < 0x80) s \<Longrightarrow> i \<le> length s \<Longrightarrow> runeStart s i"
proof (induction i)
  case (Suc i)
  then have "s ! i \<in> set s" by simp
  then have "byte_of (s ! i) < 0x80" using Suc.prems(1) by (simp add: list_all_iff)
  moreover have "drop i s = s ! i # drop (Suc i) s" using Suc.prems(2) by (simp add: Cons_nth_drop_Suc)
  ultimately have "runeNext s i = Suc i" by (simp add: runeNext_def decodeRune_def Let_def)
  then show ?case using Suc runeStart_next [of s i] by simp
qed simp

definition decidable :: "globPattern \<Rightarrow> string \<Rightarrow> bool" where
  \<comment> \<open>the comparison of literals respects the runes of a name: it is exact, or the name has ASCII bytes only\<close>
  "decidable p name \<longleftrightarrow> caseSensitive p \<or> list_all (\<lambda>c. byte_of c < 0x80) name"

lemma decidable_plain:
  assumes "textLiterals segs" "decidable p s" "slash_char \<notin> set s"
  shows "plainSegments (stringsEqual eqFold p) segs s"
proof (cases "caseSensitive p")
  case False
  then have "list_all (\<lambda>c. byte_of c < 0x80) s" using assms(2) by (simp add: decidable_def)
  then show ?thesis using assms(1,3) ascii_runeStart by (auto simp: plainSegments_def textLiterals_def)
qed (use textLiterals_plain assms in blast)

lemma segMatch_star_literal:
  assumes "slash_char \<notin> set s"
    and start: "length suf \<le> length s \<Longrightarrow> eq suf (drop (length s - length suf) s) \<Longrightarrow> runeStart s (length s - length suf)"
  shows "segMatch eq [SegStar, SegLiteral suf] s \<longleftrightarrow> length suf \<le> length s \<and> eq suf (drop (length s - length suf) s)"
proof
  assume "segMatch eq [SegStar, SegLiteral suf] s"
  then obtain n where m: "segMatch eq [SegLiteral suf] (drop ((runeNext s ^^ n) 0) s)"
    using segMatch_Star_pow [OF assms(1), of 0 eq "[SegLiteral suf]"] by auto
  define i where "i = (runeNext s ^^ n) 0"
  have le: "i \<le> length s" using runeNext_pow_le [of 0 s n] by (simp add: i_def)
  have "length suf \<le> length s - i" "eq suf (take (length suf) (drop i s))" "drop (length suf) (drop i s) = []"
    using m unfolding i_def [symmetric] by (simp_all only: segMatch.simps length_drop)
  moreover from this have "i = length s - length suf" "length (drop i s) = length suf" using le by simp_all
  ultimately show "length suf \<le> length s \<and> eq suf (drop (length s - length suf) s)" by auto
next
  assume a: "length suf \<le> length s \<and> eq suf (drop (length s - length suf) s)"
  let ?i = "length s - length suf"
  obtain n where "?i = (runeNext s ^^ n) 0" using start a by (auto simp: runeStart_def)
  moreover have "segMatch eq [SegLiteral suf] (drop ?i s)" using a by (simp only: segMatch.simps) simp
  ultimately have "\<exists>n. segMatch eq [SegLiteral suf] (drop ((runeNext s ^^ n) 0) s)" by metis
  then show "segMatch eq [SegStar, SegLiteral suf] s" using segMatch_Star_pow [OF assms(1), of 0 eq "[SegLiteral suf]"] by simp
qed

lemma suffix_start:
  assumes "suf = utf8 rs" "suf \<noteq> []" "decidable p s" "length suf \<le> length s" "stringsEqual eqFold p suf (drop (length s - length suf) s)"
  shows "runeStart s (length s - length suf)"
proof (cases "caseSensitive p")
  case True
  then have "suf = drop (length s - length suf) s" using assms(5) by (simp add: stringsEqual_def)
  then have sp: "s = take (length s - length suf) s @ suf" by (metis append_take_drop_id)
  have "\<not> (0x80 \<le> byte_of (hd suf) \<and> byte_of (hd suf) \<le> 0xBF)" using assms(1,2) first_byte by (cases rs) auto
  then show ?thesis using text_begins_at_start [OF sp, of 0] by simp
next
  case False
  then show ?thesis using assms(3) ascii_runeStart by (simp add: decidable_def)
qed

lemma matchWildcard_segMatch:
  assumes "textLiterals segs" "decidable p s" "slash_char \<notin> set s"
  shows "matchWildcard eqFold toLower p segs s \<longleftrightarrow>
    \<not> (\<not> isExclude p \<and> segs \<noteq> [] \<and> isHiddenPath s \<and> segs ! 0 \<in> {SegStar, SegQuestion})
    \<and> segMatch (stringsEqual eqFold p) segs s \<and> shouldIncludeMinJs eqFold toLower p s segs"
proof -
  have loop: "matchSegments eqFold p segs s \<longleftrightarrow> segMatch (stringsEqual eqFold p) segs s"
    using matchSegments_segMatch [OF decidable_plain [OF assms]] by simp
  show ?thesis
  proof (cases "\<exists>suf. segs = [SegStar, SegLiteral suf]")
    case True
    then obtain suf where segs: "segs = [SegStar, SegLiteral suf]" by blast
    then obtain rs where "suf = utf8 rs" "suf \<noteq> []" using assms(1) by (auto simp: textLiterals_def)
    then have "segMatch (stringsEqual eqFold p) segs s \<longleftrightarrow> \<not> (length s < length suf \<or> \<not> stringsEqual eqFold p suf (drop (length s - length suf) s))"
      using segMatch_star_literal [OF assms(3) suffix_start [OF _ _ assms(2)]] by (auto simp: segs)
    then show ?thesis by (auto simp: matchWildcard_def segs)
  next
    case False
    then have "(case segs of [SegStar, SegLiteral suf] \<Rightarrow> f suf | _ \<Rightarrow> b) = b" for f and b :: bool
      by (auto split: list.splits segment.splits simp: neq_Nil_conv)
    then show ?thesis using loop by (auto simp: matchWildcard_def)
  qed
qed

end
