(* ===== verification/VfsMatch_Paths.thy ===== *)
theory VfsMatch_Paths
  imports VfsMatch
begin

text \<open>
  Paths are matched part by part. A path given as a directory that ends in a separator and the name of an entry has the parts of the
  concatenation, so nothing is lost by not building it; and matching the parts is a recursion over the components of the pattern.
\<close>

section \<open>The parts of a path\<close>

definition pathParts :: "string \<Rightarrow> string list" where
  "pathParts s = (if s \<noteq> [] \<and> hd s = slash_char then [[]] else []) @ filter (\<lambda>x. x \<noteq> []) (strSplit slash_char s)"

abbreviation properParts :: "string \<Rightarrow> string list" where
  "properParts s \<equiv> filter (\<lambda>x. x \<noteq> []) (strSplit slash_char s)"

function pathPartsFrom :: "string \<Rightarrow> nat \<Rightarrow> string list" where
  "pathPartsFrom s offset = (case nextPathPartSingle s offset of None \<Rightarrow> [] | Some (part, offset') \<Rightarrow> part # pathPartsFrom s offset')"
  by pat_completeness auto
termination
  by (relation "measure (\<lambda>(s, offset). length s - offset)") (auto dest!: nextPathPartSingle_progress)

declare pathPartsFrom.simps [simp del]

lemma skipSlashes_split: "properParts (drop (skipSlashes s n - n) s) = properParts s"
proof (induction s n rule: skipSlashes.induct)
  case (2 c s n)
  then show ?case using skipSlashes_bounds [of "Suc n" s] by (auto simp: Suc_diff_Suc drop_Cons' split: if_splits)
qed simp

lemma properParts_slash [simp]: "properParts (slash_char # s) = properParts s"
  by simp

lemma properParts_first:
  assumes "strIndexByte rest slash_char = Some idx" "0 < idx"
  shows "properParts rest = take idx rest # properParts (drop idx rest)"
proof -
  have i: "idx < length rest" "rest ! idx = slash_char" "slash_char \<notin> set (take idx rest)" using strIndexByte_Some [OF assms(1)] by auto
  then have d: "drop idx rest = slash_char # drop (Suc idx) rest" by (metis Cons_nth_drop_Suc)
  then have "strSplit slash_char rest = take idx rest # strSplit slash_char (drop (Suc idx) rest)"
    using strSplit_append [OF i(3), of "drop (Suc idx) rest"] by (metis append_take_drop_id)
  then show ?thesis using d assms(2) i(1) by auto
qed

lemma pathPartsFrom_proper:
  "offset \<noteq> 0 \<or> \<not> strHasPrefix s ''/'' \<Longrightarrow> pathPartsFrom s offset = properParts (drop offset s)"
proof (induction "length s - offset" arbitrary: offset rule: less_induct)
  case less
  show ?case
  proof (cases "offset < length s")
    case False
    then show ?thesis by (simp add: pathPartsFrom.simps nextPathPartSingle_def)
  next
    case True
    let ?o = "skipSlashes (drop offset s) offset" let ?rest = "drop ?o s"
    have o: "offset \<le> ?o" "?o \<le> length s" using skipSlashes_bounds [of offset "drop offset s"] True by simp_all
    have skip: "properParts (drop offset s) = properParts ?rest"
      using skipSlashes_split [of "drop offset s" offset] o(1) by simp
    have first: "\<not> (offset = 0 \<and> s ! 0 = slash_char)" using less.prems True by (cases s) (auto simp: strHasPrefix_def)
    show ?thesis
    proof (cases "?o < length s")
      case False
      then show ?thesis using True first skip by (simp add: pathPartsFrom.simps nextPathPartSingle_def Let_def)
    next
      case o2: True
      then have nz: "?rest ! 0 \<noteq> slash_char" using skipSlashes_stop [of "drop offset s" offset] o True by simp
      show ?thesis
      proof (cases "strIndexByte ?rest slash_char")
        case None
        then have "properParts ?rest = [?rest]" using o2 by (simp add: strIndexByte_None strSplit_notin)
        then show ?thesis using True first skip o2 None
          by (auto simp: pathPartsFrom.simps [of s offset] pathPartsFrom.simps [of s "length s"] nextPathPartSingle_def Let_def)
      next
        case (Some idx)
        have idx: "0 < idx" using nz strIndexByte_Some [OF Some] by (cases idx) auto
        have "pathPartsFrom s (?o + idx) = properParts (drop (?o + idx) s)" using less.hyps [of "?o + idx"] idx o o2 by simp
        then show ?thesis using True first skip o2 Some properParts_first [OF Some idx]
          by (auto simp: pathPartsFrom.simps [of s offset] nextPathPartSingle_def Let_def add.commute)
      qed
    qed
  qed
qed

lemma pathPartsFrom_0: "pathPartsFrom s 0 = pathParts s"
proof (cases "s \<noteq> [] \<and> hd s = slash_char")
  case True
  then obtain t where "s = slash_char # t" by (cases s) auto
  then show ?thesis using pathPartsFrom_proper [of 1 s] by (subst pathPartsFrom.simps) (simp add: pathParts_def nextPathPartSingle_def)
next
  case False
  then show ?thesis using pathPartsFrom_proper [of 0 s] by (cases s) (auto simp: pathParts_def strHasPrefix_def)
qed

lemma skipSlashes_append:
  "skipSlashes s n < n + length s \<Longrightarrow> skipSlashes (s @ t) n = skipSlashes s n"
  "skipSlashes s n = n + length s \<Longrightarrow> t \<noteq> [] \<Longrightarrow> hd t \<noteq> slash_char \<Longrightarrow> skipSlashes (s @ t) n = n + length s"
  by (induction s n rule: skipSlashes.induct) (auto simp: neq_Nil_conv split: if_splits)

lemma strIndexByte_append1: "strIndexByte s b = Some i \<Longrightarrow> strIndexByte (s @ t) b = Some i"
  by (induction s b arbitrary: i rule: strIndexByte.induct) (auto split: if_splits)

lemma nextPathPartParts_single:
  assumes "suf = [] \<or> pre = [] \<or> last pre = slash_char \<and> slash_char \<notin> set suf"
  shows "nextPathPartParts pre suf offset = Inr (nextPathPartSingle (pre @ suf) offset)"
proof (cases "suf = [] \<or> pre = []")
  case True
  then show ?thesis by (auto simp: nextPathPartParts_def)
next
  case False
  then have p: "last pre = slash_char" "slash_char \<notin> set suf" "suf \<noteq> []" "pre \<noteq> []" using assms by auto
  have hd: "hd suf \<noteq> slash_char" using p(2,3) by (cases suf) auto
  show ?thesis
  proof (cases "offset < length pre")
    case True
    let ?o = "skipSlashes (drop offset pre) offset"
    have b: "?o \<le> length pre" "offset \<le> ?o" using skipSlashes_bounds [of offset "drop offset pre"] True by simp_all
    show ?thesis
    proof (cases "?o < length pre")
      case o: True
      have so: "skipSlashes (drop offset (pre @ suf)) offset = ?o" using skipSlashes_append(1) [of "drop offset pre" offset suf] o True by simp
      have "slash_char \<in> set (drop ?o pre)" using p(1) o by (metis drop_eq_Nil2 last_drop last_in_set linorder_not_less)
      then obtain idx where idx: "strIndexByte (drop ?o pre) slash_char = Some idx" by (metis not_None_eq strIndexByte_None)
      then have "idx < length (drop ?o pre)" using strIndexByte_Some by blast
      then show ?thesis using True False o so idx strIndexByte_append1 [OF idx, of suf]
        by (simp add: nextPathPartParts_def nextPathPartSingle_def Let_def nth_append)
    next
      case o: False
      then have so: "skipSlashes (drop offset (pre @ suf)) offset = length pre"
        using skipSlashes_append(2) [of "drop offset pre" offset suf] b True p(3) hd by simp
      have "strIndexByte suf slash_char = None" using p(2) by (simp add: strIndexByte_None)
      then show ?thesis using True False o so b
        by (simp add: nextPathPartParts_def nextPathPartSingle_def Let_def nth_append)
    qed
  next
    case o: False
    have sk: "skipSlashes (drop (offset - length pre) suf) offset = offset"
      using p(2) in_set_dropD [of slash_char "offset - length pre" suf] by (cases "drop (offset - length pre) suf") auto
    have "strIndexByte (drop (offset - length pre) suf) slash_char = None" using p(2) in_set_dropD by (fastforce simp: strIndexByte_None)
    then show ?thesis using False o sk by (auto simp: nextPathPartParts_def nextPathPartSingle_def Let_def)
  qed
qed

lemma pathParts_below: "a \<noteq> [] \<Longrightarrow> pathParts (a @ slash_char # b) = pathParts a @ properParts b"
  by (cases a) (auto simp: pathParts_def strSplit_append_sep)

section \<open>Matching the parts\<close>

fun compsMatch ::
  "(string \<Rightarrow> string \<Rightarrow> bool) \<Rightarrow> (rune \<Rightarrow> rune) \<Rightarrow> globPattern \<Rightarrow> bool \<Rightarrow> component list \<Rightarrow> string list \<Rightarrow> bool" where
  "compsMatch eqFold toLower p prefixOnly cs [] = (prefixOnly \<or> list_all (\<lambda>c. c = KindDoubleAsterisk) cs)"
| "compsMatch eqFold toLower p prefixOnly [] (part # parts) = (isExclude p \<and> \<not> prefixOnly)"
| "compsMatch eqFold toLower p prefixOnly (KindLiteral lit # cs) (part # parts) =
     (stringsEqual eqFold p lit part \<and> compsMatch eqFold toLower p prefixOnly cs parts)"
| "compsMatch eqFold toLower p prefixOnly (KindWildcard segs skip # cs) (part # parts) =
     (\<not> (skip \<and> isPackageFolder eqFold part) \<and> matchWildcard eqFold toLower p segs part
      \<and> compsMatch eqFold toLower p prefixOnly cs parts)"
| "compsMatch eqFold toLower p prefixOnly (KindDoubleAsterisk # cs) (part # parts) =
     (compsMatch eqFold toLower p prefixOnly cs (part # parts)
      \<or> (isExclude p \<or> \<not> isHiddenPath part \<and> \<not> isPackageFolder eqFold part)
         \<and> compsMatch eqFold toLower p prefixOnly (KindDoubleAsterisk # cs) parts)"

lemma matchPathParts_compsMatch:
  assumes "suf = [] \<or> pre = [] \<or> last pre = slash_char \<and> slash_char \<notin> set suf"
  shows "matchPathParts eqFold toLower p pre suf offset compIdx prefixOnly =
    Inr (compsMatch eqFold toLower p prefixOnly (drop compIdx (components p)) (pathPartsFrom (pre @ suf) offset))"
  using assms
proof (induction eqFold toLower p pre suf offset compIdx prefixOnly rule: matchPathParts.induct)
  case (1 eqFold toLower p pre suf offset compIdx prefixOnly)
  note nxt = nextPathPartParts_single [OF 1(5)]
  show ?case
  proof (cases "nextPathPartSingle (pre @ suf) offset")
    case None
    then show ?thesis by (subst matchPathParts.simps) (simp add: nxt pathPartsFrom.simps [of _ offset] patternSatisfied_def)
  next
    case (Some po)
    obtain part offset' where po: "po = (part, offset')" by fastforce
    note parts = pathPartsFrom.simps [of "pre @ suf" offset, unfolded Some po option.case prod.case]
    have n: "nextPathPartParts pre suf offset = Inr (Some (part, offset'))" by (simp add: nxt Some po)
    show ?thesis
    proof (cases "compIdx < length (components p)")
      case False
      then show ?thesis by (subst matchPathParts.simps) (simp add: n parts)
    next
      case True
      then have cs: "drop compIdx (components p) = components p ! compIdx # drop (Suc compIdx) (components p)" by (metis Cons_nth_drop_Suc)
      show ?thesis
      proof (cases "components p ! compIdx")
        case (KindLiteral lit)
        then show ?thesis using "1.IH"(1) [OF n refl refl] True 1(5) by (subst matchPathParts.simps) (simp add: n parts cs)
      next
        case (KindWildcard segs skip)
        then show ?thesis using "1.IH"(2) [OF n refl refl] True 1(5) by (subst matchPathParts.simps) (simp add: n parts cs)
      next
        case KindDoubleAsterisk
        have skip: "matchPathParts eqFold toLower p pre suf offset (compIdx + 1) prefixOnly =
            Inr (compsMatch eqFold toLower p prefixOnly (drop (compIdx + 1) (components p)) (part # pathPartsFrom (pre @ suf) offset'))"
          using "1.IH"(3) [OF n refl refl _ KindDoubleAsterisk 1(5)] True by (simp add: parts)
        show ?thesis
        proof (cases "compsMatch eqFold toLower p prefixOnly (drop (compIdx + 1) (components p)) (part # pathPartsFrom (pre @ suf) offset')")
          case b: True
          then show ?thesis using True KindDoubleAsterisk skip by (subst matchPathParts.simps) (simp add: n parts cs)
        next
          case False
          then show ?thesis using "1.IH"(4) [OF n refl refl _ KindDoubleAsterisk skip _ _ 1(5)] True KindDoubleAsterisk skip
            by (subst matchPathParts.simps) (auto simp: n parts cs)
        qed
      qed
    qed
  qed
qed

end
