(* ===== verification/VfsMatch_Prune.thy ===== *)
theory VfsMatch_Prune
  imports VfsMatch_Paths
begin

text \<open>
  The walk skips a directory when the directory matcher rejects it. It never skips a directory with a file that the file matcher
  accepts: a pattern that matches the path of a file matches a prefix of every directory above it, and an exclude pattern that
  matches a directory matches everything below.
\<close>

section \<open>Prefixes of paths\<close>

lemma compsMatch_exclude_all:
  "isExclude p \<Longrightarrow> list_all (\<lambda>c. c = KindDoubleAsterisk) cs \<Longrightarrow> compsMatch eqFold toLower p False cs parts"
  by (cases parts) (simp, induction cs, auto)

lemma compsMatch_exclude_below:
  assumes "isExclude p"
  shows "compsMatch eqFold toLower p False cs parts \<Longrightarrow> compsMatch eqFold toLower p False cs (parts @ below)"
  using assms
proof (induction eqFold toLower p False cs parts rule: compsMatch.induct)
  case (1 eqFold toLower p cs)
  then show ?case by (simp add: compsMatch_exclude_all)
qed auto

abbreviation directoryPattern :: "globPattern \<Rightarrow> globPattern" where
  "directoryPattern p \<equiv> p\<lparr>excludeMinJs := False\<rparr>"

lemma stringsEqual_directoryPattern [simp]: "stringsEqual eqFold (directoryPattern p) = stringsEqual eqFold p"
  by (simp add: stringsEqual_def fun_eq_iff)

lemma matchWildcard_directoryPattern:
  "matchWildcard eqFold toLower p segs s \<Longrightarrow> matchWildcard eqFold toLower (directoryPattern p) segs s"
  by (auto simp: matchWildcard_def matchSegments_def shouldIncludeMinJs_def split: if_splits list.splits segment.splits)

lemma compsMatch_prefix:
  assumes "\<not> isExclude p"
  shows "compsMatch eqFold toLower p False cs (parts @ below) \<Longrightarrow> compsMatch eqFold toLower (directoryPattern p) True cs parts"
  using assms
proof (induction cs arbitrary: parts)
  case Nil
  then show ?case by (cases parts) auto
next
  case (Cons c cs)
  note rest = Cons.IH [OF _ assms]
  show ?case
  proof (cases c)
    case KindDoubleAsterisk
    show ?thesis using Cons.prems unfolding KindDoubleAsterisk
    proof (induction parts)
      case (Cons part parts)
      then show ?case using rest [of "part # parts"] by auto
    qed simp
  qed (use Cons in \<open>cases parts; auto simp: matchWildcard_directoryPattern\<close>)+
qed

section \<open>Matchers\<close>

abbreviation entryOf :: "string \<Rightarrow> string \<Rightarrow> bool" where
  \<comment> \<open>a directory, as the walk gives it to the matchers, and the name of an entry\<close>
  "entryOf pre suf \<equiv> (pre = [] \<or> last pre = slash_char) \<and> slash_char \<notin> set suf"

definition patternMatches :: "(string \<Rightarrow> string \<Rightarrow> bool) \<Rightarrow> (rune \<Rightarrow> rune) \<Rightarrow> bool \<Rightarrow> string \<Rightarrow> globPattern \<Rightarrow> bool" where
  "patternMatches eqFold toLower prefixOnly path p = compsMatch eqFold toLower p prefixOnly (components p) (pathParts path)"

lemma matchesParts_entry:
  assumes "entryOf pre suf"
  shows "matchesParts eqFold toLower p pre suf = Inr (patternMatches eqFold toLower False (pre @ suf) p)"
    and "matchesPrefixParts eqFold toLower p pre suf = Inr (patternMatches eqFold toLower True (pre @ suf) p)"
proof -
  have "suf = [] \<or> pre = [] \<or> last pre = slash_char \<and> slash_char \<notin> set suf" using assms by blast
  note e = matchPathParts_compsMatch [OF this]
  show "matchesParts eqFold toLower p pre suf = Inr (patternMatches eqFold toLower False (pre @ suf) p)"
    "matchesPrefixParts eqFold toLower p pre suf = Inr (patternMatches eqFold toLower True (pre @ suf) p)"
    by (simp_all add: matchesParts_def matchesPrefixParts_def e pathPartsFrom_0 patternMatches_def)
qed

lemma firstMatch_pure:
  "firstMatch (\<lambda>p. Inr (f p)) i ps = Inr (if list_ex f ps then Some (i + length (takeWhile (\<lambda>p. \<not> f p) ps)) else None)"
  by (induction ps arbitrary: i) auto

definition fileMatch :: "(string \<Rightarrow> string \<Rightarrow> bool) \<Rightarrow> (rune \<Rightarrow> rune) \<Rightarrow> globMatcher \<Rightarrow> string \<Rightarrow> nat option" where
  "fileMatch eqFold toLower m path =
     (let hit = patternMatches eqFold toLower False path in
      if list_ex hit (gm_excludes m) then None
      else if gm_includes m = [] then if hadIncludes m then None else Some 0
      else if list_ex hit (gm_includes m) then Some (length (takeWhile (\<lambda>p. \<not> hit p) (gm_includes m))) else None)"

definition directoryMatch :: "(string \<Rightarrow> string \<Rightarrow> bool) \<Rightarrow> (rune \<Rightarrow> rune) \<Rightarrow> globMatcher \<Rightarrow> string \<Rightarrow> bool" where
  "directoryMatch eqFold toLower m path =
     (\<not> list_ex (patternMatches eqFold toLower False path) (gm_excludes m)
      \<and> (if gm_includes m = [] then \<not> hadIncludes m else list_ex (patternMatches eqFold toLower True path) (gm_includes m)))"

lemma matchesFileParts_entry:
  "entryOf pre suf \<Longrightarrow> matchesFileParts eqFold toLower m pre suf = Inr (fileMatch eqFold toLower m (pre @ suf))"
  by (simp add: matchesFileParts_def matchesParts_entry firstMatch_pure fileMatch_def Let_def)

lemma matchesDirectoryParts_entry:
  "entryOf pre suf \<Longrightarrow> matchesDirectoryParts eqFold toLower m pre suf = Inr (directoryMatch eqFold toLower m (pre @ suf))"
  by (simp add: matchesDirectoryParts_def matchesParts_entry firstMatch_pure directoryMatch_def)

lemma takeWhile_first: "list_ex f ps \<Longrightarrow> length (takeWhile (\<lambda>p. \<not> f p) ps) < length ps"
  by (induction ps) auto

lemma fileMatch_bound: "fileMatch eqFold toLower m path = Some i \<Longrightarrow> i < max (length (gm_includes m)) 1"
  by (auto simp: fileMatch_def Let_def less_max_iff_disj takeWhile_first split: if_splits)

definition matcherPair :: "globMatcher \<Rightarrow> globMatcher \<Rightarrow> bool" where
  \<comment> \<open>the matchers for files and for directories of the same specifications\<close>
  "matcherPair fm dm \<longleftrightarrow> gm_includes dm = map directoryPattern (gm_includes fm) \<and> gm_excludes dm = gm_excludes fm \<and> hadIncludes dm = hadIncludes fm
     \<and> (\<forall>p\<in>set (gm_includes fm). \<not> isExclude p) \<and> (\<forall>p\<in>set (gm_excludes fm). isExclude p)"

lemma compileGlobPattern_directory:
  "compileGlobPattern spec basePath UsageDirectories cs = map_option directoryPattern (compileGlobPattern spec basePath UsageFiles cs)"
  by (simp add: compileGlobPattern_def Let_def)

lemma compileGlobPattern_isExclude:
  "compileGlobPattern spec basePath usage cs = Some p \<Longrightarrow> isExclude p \<longleftrightarrow> usage = UsageExclude"
  by (auto simp: compileGlobPattern_def Let_def split: if_splits)

lemma newGlobMatcher_pair:
  "matcherPair (newGlobMatcher incls excls basePath cs UsageFiles) (newGlobMatcher incls excls basePath cs UsageDirectories)"
proof -
  have "List.map_filter (\<lambda>spec. map_option f (g spec)) specs = map f (List.map_filter g specs)" for f :: "globPattern \<Rightarrow> globPattern" and g and specs :: "string list"
    by (induction specs) (auto simp: List.map_filter_def)
  then show ?thesis
    by (auto simp: matcherPair_def newGlobMatcher_def compileGlobPattern_directory List.map_filter_def dest: compileGlobPattern_isExclude)
qed

lemma directory_above:
  assumes "matcherPair fm dm" "fileMatch eqFold toLower fm (dir @ slash_char # rest) = Some i" "dir \<noteq> []"
  shows "directoryMatch eqFold toLower dm dir"
proof -
  note below = pathParts_below [OF assms(3), of rest]
  have ex: "\<not> list_ex (patternMatches eqFold toLower False dir) (gm_excludes dm)"
    using assms(1,2) compsMatch_exclude_below [where parts = "pathParts dir"]
    by (auto simp: fileMatch_def matcherPair_def Let_def list_ex_iff patternMatches_def below split: if_splits)
  have "list_ex (patternMatches eqFold toLower True dir) (gm_includes dm)" if "gm_includes fm \<noteq> []"
    using assms(1,2) that compsMatch_prefix [where parts = "pathParts dir"]
    by (fastforce simp: fileMatch_def matcherPair_def Let_def list_ex_iff patternMatches_def below split: if_splits)
  then show ?thesis using assms(1,2) ex by (auto simp: directoryMatch_def matcherPair_def fileMatch_def Let_def split: if_splits)
qed

end
