(* ===== verification/VfsMatch_Walk.thy ===== *)
theory VfsMatch_Walk
  imports VfsMatch_Prune
begin

text \<open>
  The walk over the directories. When no directory is met under two names, the walk adds to the results exactly the files of the tree
  that the file matcher accepts, in the order of the tree; the directories it skips hold no such file. In any finite file system
  it comes to an end, also when symbolic links form cycles.
\<close>

section \<open>The directories of a tree\<close>

definition nextDepth :: "int \<Rightarrow> int" where
  "nextDepth depth = (if depth \<noteq> UnlimitedDepth then go_int (depth - 1) else depth)"

definition depthStops :: "int \<Rightarrow> bool" where
  "depthStops depth \<longleftrightarrow> depth \<noteq> UnlimitedDepth \<and> nextDepth depth = 0"

fun traverseOpt :: "('a \<Rightarrow> 'b option) \<Rightarrow> 'a list \<Rightarrow> 'b list option" where
  "traverseOpt f [] = Some []"
| "traverseOpt f (x # xs) = (case f x of None \<Rightarrow> None | Some y \<Rightarrow> map_option ((#) y) (traverseOpt f xs))"

primrec tree :: "vfs_FS \<Rightarrow> (string \<Rightarrow> bool) \<Rightarrow> nat \<Rightarrow> string \<Rightarrow> string \<Rightarrow> int \<Rightarrow> (string \<times> string) list option" where
  \<comment> \<open>the accepted directories below a directory; \<open>None\<close> when the tree is deeper than the first number\<close>
  "tree fs accept 0 path absolute depth = None"
| "tree fs accept (Suc n) path absolute depth =
     (if depthStops depth then Some [(path, absolute)]
      else map_option (\<lambda>ls. (path, absolute) # concat ls)
        (traverseOpt (\<lambda>dir. tree fs accept n (ensureTrailingSlash path @ dir) (ensureTrailingSlash absolute @ dir) (nextDepth depth))
          (filter (\<lambda>dir. accept (ensureTrailingSlash absolute @ dir)) (Directories (GetAccessibleEntries fs absolute)))))"

definition canonicalOf :: "(rune \<Rightarrow> rune) \<Rightarrow> globVisitor \<Rightarrow> string \<Rightarrow> string" where
  "canonicalOf toLower v absolute = GetCanonicalFileName toLower (Realpath (host v) absolute) (useCaseSensitiveFileNames v)"

definition properNames :: "vfs_FS \<Rightarrow> bool" where
  \<comment> \<open>the names of entries are names\<close>
  "properNames fs \<longleftrightarrow> (\<forall>absolute. \<forall>name\<in>set (Files (GetAccessibleEntries fs absolute)) \<union> set (Directories (GetAccessibleEntries fs absolute)).
     name \<noteq> [] \<and> slash_char \<notin> set name)"

definition fileHit :: "(string \<Rightarrow> string \<Rightarrow> bool) \<Rightarrow> (rune \<Rightarrow> rune) \<Rightarrow> globVisitor \<Rightarrow> string \<Rightarrow> string \<Rightarrow> string \<Rightarrow> (nat \<times> string) option" where
  \<comment> \<open>the number of the first pattern that a file matches, and the name of the file\<close>
  "fileHit eqFold toLower v path absolute file =
     (if extensions v \<noteq> [] \<and> \<not> FileExtensionIsOneOf file (extensions v) then None
      else map_option (\<lambda>i. (i, ensureTrailingSlash path @ file)) (fileMatch eqFold toLower (fileMatcher v) (ensureTrailingSlash absolute @ file)))"

definition hits :: "(string \<Rightarrow> string \<Rightarrow> bool) \<Rightarrow> (rune \<Rightarrow> rune) \<Rightarrow> globVisitor \<Rightarrow> string \<times> string \<Rightarrow> (nat \<times> string) list" where
  \<comment> \<open>the files of a directory that match\<close>
  "hits eqFold toLower v = (\<lambda>(path, absolute).
     List.map_filter (fileHit eqFold toLower v path absolute) (Files (GetAccessibleEntries (host v) absolute)))"

definition addHit :: "nat \<times> string \<Rightarrow> string list list \<Rightarrow> string list list" where
  "addHit = (\<lambda>(i, name) rs. rs[i := rs ! i @ [name]])"

lemma ensureTrailingSlash_entry: "slash_char \<notin> set name \<Longrightarrow> entryOf (ensureTrailingSlash absolute) name"
  by (auto simp: ensureTrailingSlash_def)

section \<open>What a visit does\<close>

lemma fold_addHit_length [simp]: "length (fold addHit hs rs) = length rs"
  by (induction hs arbitrary: rs) (auto simp: addHit_def)

lemma fold_addHit_nth: "i < length rs \<Longrightarrow> fold addHit hs rs ! i = rs ! i @ map snd (filter (\<lambda>h. fst h = i) hs)"
  by (induction hs arbitrary: rs) (auto simp: addHit_def nth_list_update)

lemma fileHit_config [simp]:
  "fileHit eqFold toLower (v\<lparr>results := rs\<rparr>) = fileHit eqFold toLower v"
  "fileHit eqFold toLower (v\<lparr>visited := vs\<rparr>) = fileHit eqFold toLower v"
  by (simp_all add: fileHit_def fun_eq_iff)

lemma hits_config [simp]:
  "hits eqFold toLower (v\<lparr>results := rs\<rparr>) = hits eqFold toLower v" "hits eqFold toLower (v\<lparr>visited := vs\<rparr>) = hits eqFold toLower v"
  "canonicalOf toLower (v\<lparr>results := rs\<rparr>) = canonicalOf toLower v" "canonicalOf toLower (v\<lparr>visited := vs\<rparr>) = canonicalOf toLower v"
  by (simp_all add: hits_def canonicalOf_def fun_eq_iff)

definition roomy :: "globVisitor \<Rightarrow> bool" where
  "roomy v \<longleftrightarrow> max (length (gm_includes (fileMatcher v))) 1 \<le> length (results v) \<and> properNames (host v)"

lemma visitFile_hit:
  assumes "roomy v" "slash_char \<notin> set file"
  shows "visitFile eqFold toLower (ensureTrailingSlash path) (ensureTrailingSlash absolute) file v =
    Inr (v\<lparr>results := fold addHit (List.map_filter (fileHit eqFold toLower v path absolute) [file]) (results v)\<rparr>)"
  using assms matchesFileParts_entry [OF ensureTrailingSlash_entry [OF assms(2)], of eqFold toLower "fileMatcher v" absolute]
  by (auto simp: visitFile_def List.map_filter_def fileHit_def addHit_def roomy_def split: option.splits dest!: fileMatch_bound)

lemma visitFiles_hits:
  assumes "roomy v" "\<forall>file\<in>set files. slash_char \<notin> set file"
  shows "foldPanic (visitFile eqFold toLower (ensureTrailingSlash path) (ensureTrailingSlash absolute)) files v =
    Inr (v\<lparr>results := fold addHit (List.map_filter (fileHit eqFold toLower v path absolute) files) (results v)\<rparr>)"
  using assms
proof (induction files arbitrary: v)
  case (Cons f files)
  let ?w = "v\<lparr>results := fold addHit (List.map_filter (fileHit eqFold toLower v path absolute) [f]) (results v)\<rparr>"
  have "roomy ?w" using Cons.prems(1) by (simp add: roomy_def)
  then show ?case using Cons.IH [of ?w] Cons.prems visitFile_hit [of v f] by (simp add: List.map_filter_def)
qed (simp add: List.map_filter_def)

lemma visitFiles_dir:
  assumes "roomy v"
  shows "foldPanic (visitFile eqFold toLower (ensureTrailingSlash path) (ensureTrailingSlash absolute)) (Files (GetAccessibleEntries (host v) absolute)) v =
    Inr (v\<lparr>results := fold addHit (hits eqFold toLower v (path, absolute)) (results v)\<rparr>)"
proof -
  have "\<forall>f\<in>set (Files (GetAccessibleEntries (host v) absolute)). slash_char \<notin> set f" using assms by (auto simp: roomy_def properNames_def)
  then show ?thesis using visitFiles_hits [OF assms] by (simp add: hits_def)
qed

definition visitAll :: "(string \<Rightarrow> string \<Rightarrow> bool) \<Rightarrow> (rune \<Rightarrow> rune) \<Rightarrow> globVisitor \<Rightarrow> (string \<times> string) list \<Rightarrow> globVisitor" where
  \<comment> \<open>the visitor after the directories\<close>
  "visitAll eqFold toLower v items =
     v\<lparr>visited := visited v \<union> (\<lambda>item. canonicalOf toLower v (snd item)) ` set items,
       results := fold addHit (concat (map (hits eqFold toLower v) items)) (results v)\<rparr>"

lemma visitAll_config [simp]:
  "host (visitAll eqFold toLower v items) = host v" "directoryMatcher (visitAll eqFold toLower v items) = directoryMatcher v"
  "canonicalOf toLower' (visitAll eqFold toLower v items) = canonicalOf toLower' v"
  "hits eqFold' toLower' (visitAll eqFold toLower v items) = hits eqFold' toLower' v"
  "roomy (visitAll eqFold toLower v items) = roomy v"
  "visited (visitAll eqFold toLower v items) = visited v \<union> (\<lambda>item. canonicalOf toLower v (snd item)) ` set items"
  by (simp_all add: visitAll_def roomy_def)

lemma visitAll_append: "visitAll eqFold toLower (visitAll eqFold toLower v xs) ys = visitAll eqFold toLower v (xs @ ys)"
  by (simp add: visitAll_def image_Un Un_assoc)

lemma visitAll_Nil [simp]: "visitAll eqFold toLower v [] = v"
  by (simp add: visitAll_def)

definition fresh :: "(rune \<Rightarrow> rune) \<Rightarrow> globVisitor \<Rightarrow> (string \<times> string) list \<Rightarrow> bool" where
  \<comment> \<open>no directory has been visited, and none is met under two names\<close>
  "fresh toLower v items \<longleftrightarrow> distinct (map (\<lambda>item. canonicalOf toLower v (snd item)) items)
     \<and> (\<lambda>item. canonicalOf toLower v (snd item)) ` set items \<inter> visited v = {}"

lemma fresh_append: "fresh toLower v (xs @ ys) \<longleftrightarrow> fresh toLower v xs \<and> fresh toLower (visitAll eqFold toLower v xs) ys"
  by (auto simp: fresh_def)

definition visitDirectory ::
  "(string \<Rightarrow> string \<Rightarrow> bool) \<Rightarrow> (rune \<Rightarrow> rune) \<Rightarrow> nat \<Rightarrow> string \<Rightarrow> string \<Rightarrow> int \<Rightarrow> string \<Rightarrow> globVisitor \<Rightarrow> globVisitor or_panic" where
  "visitDirectory eqFold toLower fuel pathPrefix absPrefix depth dir v =
     bind_panic (matchesDirectoryParts eqFold toLower (directoryMatcher v) absPrefix dir)
       (\<lambda>ok. if \<not> ok then Inr v else visit eqFold toLower fuel (pathPrefix @ dir) (absPrefix @ dir) depth v)"

lemma visit_Suc:
  "visit eqFold toLower (Suc fuel) path absolute depth v =
     (if canonicalOf toLower v absolute \<in> visited v then Inr v
      else bind_panic (foldPanic (visitFile eqFold toLower (ensureTrailingSlash path) (ensureTrailingSlash absolute))
          (Files (GetAccessibleEntries (host v) absolute)) (v\<lparr>visited := insert (canonicalOf toLower v absolute) (visited v)\<rparr>))
        (\<lambda>v2. if depthStops depth then Inr v2
              else foldPanic (visitDirectory eqFold toLower fuel (ensureTrailingSlash path) (ensureTrailingSlash absolute) (nextDepth depth))
                (Directories (GetAccessibleEntries (host v) absolute)) v2))"
  unfolding visit.simps Let_def canonicalOf_def nextDepth_def depthStops_def visitDirectory_def by simp

lemma visit_directories:
  assumes IH: "\<And>v path absolute items. roomy v \<Longrightarrow> directoryMatcher v = dm \<Longrightarrow> host v = fs
      \<Longrightarrow> tree fs (directoryMatch eqFold toLower dm) fuel path absolute depth = Some items \<Longrightarrow> fresh toLower v items
      \<Longrightarrow> visit eqFold toLower fuel path absolute depth v = Inr (visitAll eqFold toLower v items)"
  shows "roomy v \<Longrightarrow> directoryMatcher v = dm \<Longrightarrow> host v = fs \<Longrightarrow> \<forall>dir\<in>set dirs. slash_char \<notin> set dir
    \<Longrightarrow> traverseOpt (\<lambda>dir. tree fs (directoryMatch eqFold toLower dm) fuel (pp @ dir) (ensureTrailingSlash absolute @ dir) depth)
          (filter (\<lambda>dir. directoryMatch eqFold toLower dm (ensureTrailingSlash absolute @ dir)) dirs) = Some ls
    \<Longrightarrow> fresh toLower v (concat ls)
    \<Longrightarrow> foldPanic (visitDirectory eqFold toLower fuel pp (ensureTrailingSlash absolute) depth) dirs v
        = Inr (visitAll eqFold toLower v (concat ls))"
proof (induction dirs arbitrary: v ls)
  case (Cons dir dirs)
  have m: "matchesDirectoryParts eqFold toLower (directoryMatcher v) (ensureTrailingSlash absolute) dir
      = Inr (directoryMatch eqFold toLower dm (ensureTrailingSlash absolute @ dir))"
    using Cons.prems(2,4) matchesDirectoryParts_entry [OF ensureTrailingSlash_entry] by auto
  show ?case
  proof (cases "directoryMatch eqFold toLower dm (ensureTrailingSlash absolute @ dir)")
    case True
    then obtain items ls' where ls: "ls = items # ls'"
        "tree fs (directoryMatch eqFold toLower dm) fuel (pp @ dir) (ensureTrailingSlash absolute @ dir) depth = Some items"
        "traverseOpt (\<lambda>dir. tree fs (directoryMatch eqFold toLower dm) fuel (pp @ dir) (ensureTrailingSlash absolute @ dir) depth)
          (filter (\<lambda>dir. directoryMatch eqFold toLower dm (ensureTrailingSlash absolute @ dir)) dirs) = Some ls'"
      using Cons.prems(5) by (auto split: option.splits)
    have f: "fresh toLower v items" "fresh toLower (visitAll eqFold toLower v items) (concat ls')"
      using Cons.prems(6) ls(1) fresh_append [of toLower v items "concat ls'" eqFold] by auto
    then show ?thesis using IH [OF Cons.prems(1,2,3) ls(2) f(1)] Cons.IH [OF _ _ _ _ ls(3) f(2)] Cons.prems(1-4) m True
      by (simp add: ls(1) visitAll_append visitDirectory_def)
  next
    case False
    then show ?thesis using Cons.IH [OF Cons.prems(1-3) _ _ Cons.prems(6)] Cons.prems(4,5) m by (simp add: visitDirectory_def)
  qed
qed simp

lemma visit_tree:
  "roomy v \<Longrightarrow> tree (host v) (directoryMatch eqFold toLower (directoryMatcher v)) fuel path absolute depth = Some items \<Longrightarrow> fresh toLower v items
   \<Longrightarrow> visit eqFold toLower fuel path absolute depth v = Inr (visitAll eqFold toLower v items)"
proof (induction fuel arbitrary: v path absolute depth items)
  case (Suc fuel)
  let ?c = "canonicalOf toLower v absolute"
  let ?dirs = "Directories (GetAccessibleEntries (host v) absolute)"
  obtain rest where items: "items = (path, absolute) # rest" using Suc.prems(2) by (auto split: if_splits)
  have new: "?c \<notin> visited v" using Suc.prems(3) by (auto simp: items fresh_def)
  let ?v = "visitAll eqFold toLower v [(path, absolute)]"
  have files: "foldPanic (visitFile eqFold toLower (ensureTrailingSlash path) (ensureTrailingSlash absolute))
      (Files (GetAccessibleEntries (host v) absolute)) (v\<lparr>visited := insert ?c (visited v)\<rparr>) = Inr ?v"
    using visitFiles_dir [of "v\<lparr>visited := insert ?c (visited v)\<rparr>" eqFold toLower path absolute] Suc.prems(1)
    by (simp add: roomy_def visitAll_def)
  have fr: "fresh toLower ?v rest" using Suc.prems(3) fresh_append [of toLower v "[(path, absolute)]" rest eqFold] by (simp add: items)
  show ?case
  proof (cases "depthStops depth")
    case True
    then show ?thesis using Suc.prems(2) new files by (auto simp: visit_Suc simp del: visit.simps)
  next
    case False
    then obtain ls where ls: "rest = concat ls"
        "traverseOpt (\<lambda>dir. tree (host v) (directoryMatch eqFold toLower (directoryMatcher v)) fuel (ensureTrailingSlash path @ dir)
            (ensureTrailingSlash absolute @ dir) (nextDepth depth))
          (filter (\<lambda>dir. directoryMatch eqFold toLower (directoryMatcher v) (ensureTrailingSlash absolute @ dir)) ?dirs) = Some ls"
      using Suc.prems(2) items by auto
    have "foldPanic (visitDirectory eqFold toLower fuel (ensureTrailingSlash path) (ensureTrailingSlash absolute) (nextDepth depth)) ?dirs ?v
        = Inr (visitAll eqFold toLower ?v (concat ls))"
    proof (rule visit_directories [where dm = "directoryMatcher v" and fs = "host v"])
      show "\<forall>dir\<in>set ?dirs. slash_char \<notin> set dir" using Suc.prems(1) by (auto simp: roomy_def properNames_def)
    qed (use Suc ls fr in auto)
    then show ?thesis using False new files by (simp add: visit_Suc visitAll_append items ls(1) del: visit.simps)
  qed
qed simp

section \<open>Skipping directories loses no file\<close>

lemma traverseOpt_set: "traverseOpt f xs = Some ls \<Longrightarrow> l \<in> set ls \<Longrightarrow> \<exists>x\<in>set xs. f x = Some l"
  by (induction xs arbitrary: ls) (auto split: option.splits)

lemma ensureTrailingSlash_prefix: "prefix (ensureTrailingSlash absolute) (ensureTrailingSlash (ensureTrailingSlash absolute @ dir))"
  by (auto simp: ensureTrailingSlash_def prefix_def)

lemma tree_below:
  "tree fs accept n path absolute depth = Some items \<Longrightarrow> (path', absolute') \<in> set items
   \<Longrightarrow> prefix (ensureTrailingSlash absolute) (ensureTrailingSlash absolute')"
proof (induction n arbitrary: path absolute depth items)
  case (Suc n)
  show ?case
  proof (cases "(path', absolute') = (path, absolute)")
    case False
    then obtain ls l where l: "(path', absolute') \<in> set l" "l \<in> set ls"
        "traverseOpt (\<lambda>dir. tree fs accept n (ensureTrailingSlash path @ dir) (ensureTrailingSlash absolute @ dir) (nextDepth depth))
          (filter (\<lambda>dir. accept (ensureTrailingSlash absolute @ dir)) (Directories (GetAccessibleEntries fs absolute))) = Some ls"
      using Suc.prems by (auto split: if_splits)
    then obtain dir where "tree fs accept n (ensureTrailingSlash path @ dir) (ensureTrailingSlash absolute @ dir) (nextDepth depth) = Some l"
      using traverseOpt_set [OF l(3,2)] by auto
    then show ?thesis using Suc.IH l(1) ensureTrailingSlash_prefix prefix_order.trans by blast
  qed simp
qed simp

lemma rejected_no_hits:
  assumes "matcherPair (fileMatcher v) (directoryMatcher v)" "\<not> directoryMatch eqFold toLower (directoryMatcher v) absolute"
    and "absolute \<noteq> []" "last absolute \<noteq> slash_char"
    and "tree fs accept n path absolute depth = Some items"
  shows "concat (map (hits eqFold toLower v) items) = []"
proof -
  have "hits eqFold toLower v (path', absolute') = []" if at: "(path', absolute') \<in> set items" for path' absolute'
  proof -
    obtain r where r: "ensureTrailingSlash absolute' = absolute @ slash_char # r"
      using tree_below [OF assms(5) at] assms(3,4) by (auto simp: ensureTrailingSlash_def [of absolute] prefix_def)
    have "fileMatch eqFold toLower (fileMatcher v) (absolute @ slash_char # r @ f) = None" for f
      using directory_above [OF assms(1) _ assms(3), of eqFold toLower "r @ f"] assms(2) by (cases "fileMatch eqFold toLower (fileMatcher v) (absolute @ slash_char # r @ f)") auto
    then show ?thesis by (simp add: hits_def fileHit_def r List.map_filter_def)
  qed
  then show ?thesis by (auto simp: concat_eq_Nil_conv)
qed

lemma prune_directories:
  assumes pair: "matcherPair (fileMatcher v) (directoryMatcher v)"
    and IH: "\<And>dir items. sub (\<lambda>_. True) dir = Some items \<Longrightarrow>
      \<exists>items'. sub (directoryMatch eqFold toLower (directoryMatcher v)) dir = Some items' \<and> subseq items' items
        \<and> concat (map (hits eqFold toLower v) items') = concat (map (hits eqFold toLower v) items)"
    and sub: "\<And>accept dir. sub accept dir = tree fs accept n (pp @ dir) (ap @ dir) depth"
  shows "traverseOpt (sub (\<lambda>_. True)) dirs = Some ls \<Longrightarrow> \<forall>dir\<in>set dirs. dir \<noteq> [] \<and> slash_char \<notin> set dir
    \<Longrightarrow> \<exists>ls'. traverseOpt (sub (directoryMatch eqFold toLower (directoryMatcher v)))
          (filter (\<lambda>dir. directoryMatch eqFold toLower (directoryMatcher v) (ap @ dir)) dirs) = Some ls' \<and> subseq (concat ls') (concat ls)
        \<and> concat (map (hits eqFold toLower v) (concat ls')) = concat (map (hits eqFold toLower v) (concat ls))"
proof (induction dirs arbitrary: ls)
  case (Cons dir dirs)
  let ?dm = "directoryMatch eqFold toLower (directoryMatcher v)"
  obtain l ls0 where l: "sub (\<lambda>_. True) dir = Some l" "ls = l # ls0" "traverseOpt (sub (\<lambda>_. True)) dirs = Some ls0"
    using Cons.prems(1) by (auto split: option.splits)
  obtain ls' where ls': "traverseOpt (sub ?dm) (filter (\<lambda>dir. ?dm (ap @ dir)) dirs) = Some ls'" "subseq (concat ls') (concat ls0)"
      "concat (map (hits eqFold toLower v) (concat ls')) = concat (map (hits eqFold toLower v) (concat ls0))"
    using Cons.IH [OF l(3)] Cons.prems(2) by auto
  show ?case
  proof (cases "?dm (ap @ dir)")
    case True
    obtain l' where "sub ?dm dir = Some l'" "subseq l' l" "concat (map (hits eqFold toLower v) l') = concat (map (hits eqFold toLower v) l)"
      using IH [OF l(1)] by blast
    then show ?thesis using True l(2) ls' by (auto intro: list_emb_append_mono)
  next
    case False
    have "last (ap @ dir) \<noteq> slash_char" using Cons.prems(2) by (metis last_appendR last_in_set list.set_intros(1))
    then have "concat (map (hits eqFold toLower v) l) = []"
      using rejected_no_hits [OF pair False _ _ l(1) [unfolded sub]] Cons.prems(2) by auto
    then show ?thesis using False l(2) ls' by (auto intro: list_emb_append2)
  qed
qed simp

lemma tree_prune:
  assumes pair: "matcherPair (fileMatcher v) (directoryMatcher v)" and names: "properNames fs"
  shows "tree fs (\<lambda>_. True) n path absolute depth = Some items
    \<Longrightarrow> \<exists>items'. tree fs (directoryMatch eqFold toLower (directoryMatcher v)) n path absolute depth = Some items' \<and> subseq items' items
          \<and> concat (map (hits eqFold toLower v) items') = concat (map (hits eqFold toLower v) items)"
proof (induction n arbitrary: path absolute depth items)
  case (Suc n)
  let ?sub = "\<lambda>accept dir. tree fs accept n (ensureTrailingSlash path @ dir) (ensureTrailingSlash absolute @ dir) (nextDepth depth)"
  show ?case
  proof (cases "depthStops depth")
    case False
    then obtain ls where ls: "items = (path, absolute) # concat ls"
        "traverseOpt (?sub (\<lambda>_. True)) (Directories (GetAccessibleEntries fs absolute)) = Some ls"
      using Suc.prems by auto
    have "\<forall>dir\<in>set (Directories (GetAccessibleEntries fs absolute)). dir \<noteq> [] \<and> slash_char \<notin> set dir" using names by (auto simp: properNames_def)
    then show ?thesis using prune_directories [OF pair, of ?sub, OF Suc.IH refl ls(2)] False ls(1) by auto
  qed (use Suc.prems in auto)
qed simp

section \<open>The walk ends\<close>

definition sameSetup :: "globVisitor \<Rightarrow> globVisitor \<Rightarrow> bool" where
  "sameSetup v w \<longleftrightarrow> w = v\<lparr>visited := visited w, results := results w\<rparr> \<and> visited v \<subseteq> visited w \<and> length (results w) = length (results v)"

lemma sameSetup_refl [simp]: "sameSetup v v"
  by (simp add: sameSetup_def)

lemma sameSetup_fields:
  assumes "sameSetup v w"
  shows "host w = host v" "fileMatcher w = fileMatcher v" "directoryMatcher w = directoryMatcher v" "extensions w = extensions v"
    "useCaseSensitiveFileNames w = useCaseSensitiveFileNames v" "roomy w = roomy v" "canonicalOf toLower w = canonicalOf toLower v"
proof -
  obtain vs rs where w: "w = v\<lparr>visited := vs, results := rs\<rparr>" "length rs = length (results v)" using assms by (auto simp: sameSetup_def)
  then show "host w = host v" "fileMatcher w = fileMatcher v" "directoryMatcher w = directoryMatcher v" "extensions w = extensions v"
    "useCaseSensitiveFileNames w = useCaseSensitiveFileNames v" "roomy w = roomy v" "canonicalOf toLower w = canonicalOf toLower v"
    by (simp_all add: roomy_def)
qed

lemma sameSetup_trans: "sameSetup u v \<Longrightarrow> sameSetup v w \<Longrightarrow> sameSetup u w"
  by (cases u, cases v, cases w) (auto simp: sameSetup_def)

lemma foldPanic_sameSetup:
  assumes "\<And>x w. x \<in> set xs \<Longrightarrow> sameSetup v w \<Longrightarrow> \<exists>w'. f x w = Inr w' \<and> sameSetup w w'"
  shows "\<exists>w. foldPanic f xs v = Inr w \<and> sameSetup v w"
  using assms
proof (induction xs arbitrary: v)
  case (Cons x xs)
  obtain w where w: "f x v = Inr w" "sameSetup v w" using Cons.prems [of x v] by auto
  have "\<exists>w'. foldPanic f xs w = Inr w' \<and> sameSetup w w'"
  proof (rule Cons.IH)
    fix y u
    assume "y \<in> set xs" "sameSetup w u"
    then show "\<exists>w'. f y u = Inr w' \<and> sameSetup u w'" using Cons.prems [of y u] sameSetup_trans [OF w(2)] by simp
  qed
  then show ?case using w sameSetup_trans by auto
qed simp

text \<open>The directories that a walk can come to from some directories: links are followed, so there may be infinitely many names of
  finitely many directories.\<close>

inductive walked :: "vfs_FS \<Rightarrow> string list \<Rightarrow> string \<Rightarrow> bool" for fs starts where
  walked_start: "d \<in> set starts \<Longrightarrow> walked fs starts d"
| walked_entry: "walked fs starts d \<Longrightarrow> dir \<in> set (Directories (GetAccessibleEntries fs d)) \<Longrightarrow> walked fs starts (ensureTrailingSlash d @ dir)"

lemma visit_ends:
  assumes "finite S"
  shows "roomy v \<Longrightarrow> walked (host v) starts absolute \<Longrightarrow> \<forall>d. walked (host v) starts d \<longrightarrow> canonicalOf toLower v d \<in> S \<Longrightarrow> card (S - visited v) < fuel
    \<Longrightarrow> \<exists>w. visit eqFold toLower fuel path absolute depth v = Inr w \<and> sameSetup v w"
proof (induction fuel arbitrary: v path absolute depth)
  case (Suc fuel)
  let ?c = "canonicalOf toLower v absolute"
  let ?v = "visitAll eqFold toLower v [(path, absolute)]"
  have same: "sameSetup v ?v" by (auto simp: sameSetup_def visitAll_def)
  have files: "foldPanic (visitFile eqFold toLower (ensureTrailingSlash path) (ensureTrailingSlash absolute))
      (Files (GetAccessibleEntries (host v) absolute)) (v\<lparr>visited := insert ?c (visited v)\<rparr>) = Inr ?v"
    using visitFiles_dir [of "v\<lparr>visited := insert ?c (visited v)\<rparr>" eqFold toLower path absolute] Suc.prems(1)
    by (simp add: roomy_def visitAll_def)
  have dir: "\<exists>w'. visitDirectory eqFold toLower fuel (ensureTrailingSlash path) (ensureTrailingSlash absolute) (nextDepth depth) dir w = Inr w' \<and> sameSetup w w'"
    if d: "dir \<in> set (Directories (GetAccessibleEntries (host v) absolute))" and w: "sameSetup ?v w" and new: "?c \<notin> visited v" for dir w
  proof -
    note vw = sameSetup_trans [OF same w]
    have "slash_char \<notin> set dir" using Suc.prems(1) d by (auto simp: roomy_def properNames_def)
    note m = matchesDirectoryParts_entry [OF ensureTrailingSlash_entry [OF this], of eqFold toLower "directoryMatcher w" absolute]
    have "?c \<in> visited w" "visited v \<subseteq> visited w" using w by (auto simp: sameSetup_def)
    then have "S - visited w \<subset> S - visited v" using new Suc.prems(2,3) by auto
    then have "card (S - visited w) < card (S - visited v)" using assms by (simp add: psubset_card_mono)
    moreover have "walked (host v) starts (ensureTrailingSlash absolute @ dir)" using Suc.prems(2) d by (rule walked_entry)
    ultimately show ?thesis using Suc.IH [of w] Suc.prems sameSetup_fields [OF vw] m by (simp add: visitDirectory_def)
  qed
  show ?case
  proof (cases "?c \<in> visited v \<or> depthStops depth")
    case True
    then show ?thesis using files same by (auto simp: visit_Suc simp del: visit.simps)
  next
    case False
    have "\<exists>w. foldPanic (visitDirectory eqFold toLower fuel (ensureTrailingSlash path) (ensureTrailingSlash absolute) (nextDepth depth))
        (Directories (GetAccessibleEntries (host v) absolute)) ?v = Inr w \<and> sameSetup ?v w"
      by (rule foldPanic_sameSetup) (use dir False in blast)
    then show ?thesis using False files sameSetup_trans [OF same] by (auto simp: visit_Suc simp del: visit.simps)
  qed
qed simp

end
