(* ===== verification/VfsMatch_Props.thy ===== *)
theory VfsMatch_Props
  imports VfsMatch_Wildcard VfsMatch_Walk
begin

text \<open>The properties of the matching of include and exclude patterns.\<close>

section \<open>Buckets\<close>

abbreviation matchedFiles ::
  "(string \<Rightarrow> string \<Rightarrow> bool) \<Rightarrow> (rune \<Rightarrow> rune) \<Rightarrow> vfs_FS \<Rightarrow> globMatcher \<Rightarrow> string list \<Rightarrow> nat \<Rightarrow> string \<times> string \<Rightarrow> string list" where
  \<comment> \<open>the files of a directory whose first matching pattern is the \<open>i\<close>-th\<close>
  "matchedFiles eqFold toLower fs m exts i d \<equiv>
     map (\<lambda>file. ensureTrailingSlash (fst d) @ file)
       (filter (\<lambda>file. (exts = [] \<or> FileExtensionIsOneOf file exts)
                 \<and> matchesFileParts eqFold toLower m (ensureTrailingSlash (snd d)) file = Inr (Some i))
          (Files (GetAccessibleEntries fs (snd d))))"

lemma bucket_hits:
  assumes "properNames (host v)"
  shows "map snd (filter (\<lambda>h. fst h = i) (hits eqFold toLower v d)) = matchedFiles eqFold toLower (host v) (fileMatcher v) (extensions v) i d"
proof -
  obtain path absolute where d: "d = (path, absolute)" by fastforce
  have "map snd (filter (\<lambda>h. fst h = i) (List.map_filter (fileHit eqFold toLower v path absolute) files)) =
      map (\<lambda>f. ensureTrailingSlash path @ f) (filter (\<lambda>f. (extensions v = [] \<or> FileExtensionIsOneOf f (extensions v))
        \<and> matchesFileParts eqFold toLower (fileMatcher v) (ensureTrailingSlash absolute) f = Inr (Some i)) files)"
    if "\<forall>f\<in>set files. slash_char \<notin> set f" for files
    using that
  proof (induction files)
    case (Cons f files)
    note m = matchesFileParts_entry [OF ensureTrailingSlash_entry, of f eqFold toLower "fileMatcher v" absolute]
    then have "fileHit eqFold toLower v path absolute f = (if extensions v = [] \<or> FileExtensionIsOneOf f (extensions v)
        then map_option (\<lambda>i. (i, ensureTrailingSlash path @ f)) (fileMatch eqFold toLower (fileMatcher v) (ensureTrailingSlash absolute @ f)) else None)"
      by (simp add: fileHit_def)
    then show ?case using Cons m by (auto simp: map_filter_simps split: option.splits)
  qed (simp add: map_filter_simps)
  moreover have "\<forall>f\<in>set (Files (GetAccessibleEntries (host v) absolute)). slash_char \<notin> set f" using assms by (auto simp: properNames_def)
  ultimately show ?thesis by (simp add: hits_def d)
qed

lemma bucket_all_hits:
  assumes "properNames (host v)"
  shows "map snd (filter (\<lambda>h. fst h = i) (concat (map (hits eqFold toLower v) ds)))
    = concat (map (matchedFiles eqFold toLower (host v) (fileMatcher v) (extensions v) i) ds)"
  by (induction ds) (simp_all add: bucket_hits [OF assms])

section \<open>All base paths\<close>

lemma distinct_subseq: "subseq xs ys \<Longrightarrow> distinct ys \<Longrightarrow> distinct xs"
  by (induction rule: list_emb.induct) (auto dest: list_emb_set)

lemma visit_prune:
  assumes "matcherPair (fileMatcher v) (directoryMatcher v)" "roomy v"
    and "tree (host v) (\<lambda>_. True) fuel path absolute depth = Some items" "fresh toLower v items"
  shows "\<exists>items'. visit eqFold toLower fuel path absolute depth v = Inr (visitAll eqFold toLower v items') \<and> subseq items' items
    \<and> concat (map (hits eqFold toLower v) items') = concat (map (hits eqFold toLower v) items)"
proof -
  obtain items' where i: "tree (host v) (directoryMatch eqFold toLower (directoryMatcher v)) fuel path absolute depth = Some items'"
      "subseq items' items" "concat (map (hits eqFold toLower v) items') = concat (map (hits eqFold toLower v) items)"
    using tree_prune [OF assms(1) _ assms(3)] assms(2) by (auto simp: roomy_def)
  have "fresh toLower v items'" using assms(4) i(2) subseq_map [OF i(2), of "\<lambda>item. canonicalOf toLower v (snd item)"]
    by (auto simp: fresh_def dest: distinct_subseq list_emb_set)
  then show ?thesis using visit_tree [OF assms(2) i(1)] i(2,3) by blast
qed

lemma fresh_subseq:
  assumes "fresh toLower v (items @ rest)" "subseq items' items"
  shows "fresh toLower (visitAll eqFold toLower v items') rest"
  using assms by (auto simp: fresh_def dest: list_emb_set)

lemma visits_prune:
  assumes "matcherPair (fileMatcher v) (directoryMatcher v)" "roomy v"
    and "traverseOpt (\<lambda>b. tree (host v) (\<lambda>_. True) fuel b (f b) depth) bases = Some ts" "fresh toLower v (concat ts)"
  shows "\<exists>items. foldPanic (\<lambda>b. visit eqFold toLower fuel b (f b) depth) bases v = Inr (visitAll eqFold toLower v items)
    \<and> concat (map (hits eqFold toLower v) items) = concat (map (hits eqFold toLower v) (concat ts))"
  using assms
proof (induction bases arbitrary: v ts)
  case Nil
  then show ?case by (auto intro: exI [of _ "[]"])
next
  case (Cons b bases)
  obtain t ts' where ts: "ts = t # ts'" "tree (host v) (\<lambda>_. True) fuel b (f b) depth = Some t"
      "traverseOpt (\<lambda>b. tree (host v) (\<lambda>_. True) fuel b (f b) depth) bases = Some ts'"
    using Cons.prems(3) by (auto split: option.splits)
  have fr: "fresh toLower v t" "fresh toLower v (t @ concat ts')" using Cons.prems(4) ts(1) by (auto simp: fresh_def)
  obtain t' where t': "visit eqFold toLower fuel b (f b) depth v = Inr (visitAll eqFold toLower v t')" "subseq t' t"
      "concat (map (hits eqFold toLower v) t') = concat (map (hits eqFold toLower v) t)"
    using visit_prune [OF Cons.prems(1,2) ts(2) fr(1)] by blast
  let ?v = "visitAll eqFold toLower v t'"
  have "fileMatcher ?v = fileMatcher v" by (simp add: visitAll_def)
  then obtain items where "foldPanic (\<lambda>b. visit eqFold toLower fuel b (f b) depth) bases ?v = Inr (visitAll eqFold toLower ?v items)"
      "concat (map (hits eqFold toLower v) items) = concat (map (hits eqFold toLower v) (concat ts'))"
    using Cons.IH [of ?v ts'] Cons.prems(1,2) ts(3) fresh_subseq [OF fr(2) t'(2)] by auto
  then have "foldPanic (\<lambda>b. visit eqFold toLower fuel b (f b) depth) (b # bases) v = Inr (visitAll eqFold toLower v (t' @ items))
      \<and> concat (map (hits eqFold toLower v) (t' @ items)) = concat (map (hits eqFold toLower v) (concat ts))"
    using t' ts(1) by (simp add: visitAll_append)
  then show ?case by blast
qed

lemma Flatten_concat: "Flatten xss = concat xss"
proof -
  have "fold (\<lambda>subArray result. result @ subArray) xss acc = acc @ concat xss" for acc by (induction xss arbitrary: acc) simp_all
  then show ?thesis by (simp add: Flatten_def)
qed

lemma single_or_Flatten: "(if length xss = 1 then xss ! 0 else Flatten xss) = concat xss"
  by (auto simp: Flatten_concat length_Suc_conv)

lemma buckets:
  "fold addHit hs (replicate n []) = map (\<lambda>i. map snd (filter (\<lambda>h. fst h = i) hs)) [0..<n]"
  by (rule nth_equalityI) (simp_all add: fold_addHit_nth)

section \<open>Reading a directory\<close>

text \<open>C3. Reading a directory finds exactly the matching files. Let no directory of the trees at the base paths be met under two
  names. Then \<open>ReadDirectory\<close> ends and returns, pattern after pattern, the files of these trees that have one of the
  extensions and whose first matching include pattern is that one, in the order of the walk: no file is lost by the
  directories that are skipped, and no other file is returned.\<close>

theorem ReadDirectory_exact:
  fixes eqFold :: "string \<Rightarrow> string \<Rightarrow> bool" and toLower :: "rune \<Rightarrow> rune" and fs :: vfs_FS
    and currentDir path :: string and incls excls :: "string list"
  defines "cd \<equiv> NormalizePath currentDir" and "p \<equiv> NormalizePath path" and "cs \<equiv> fs_UseCaseSensitiveFileNames fs"
  defines "m \<equiv> newGlobMatcher incls excls (CombinePaths cd [p]) cs UsageFiles"
  assumes names: "properNames fs"
    and trees: "traverseOpt (\<lambda>b. tree fs (\<lambda>_. True) fuel b (CombinePaths cd [b]) depth) (getBasePaths eqFold toLower p incls cs) = Some ts"
    and distinct: "distinct (map (\<lambda>d. GetCanonicalFileName toLower (Realpath fs (snd d)) cs) (concat ts))"
  shows "ReadDirectory eqFold toLower fuel fs currentDir path exts excls incls depth =
    Inr (concat (map (\<lambda>i. concat (map (matchedFiles eqFold toLower fs m exts i) (concat ts))) [0..<max (length (gm_includes m)) 1]))"
proof -
  define v where "v = \<lparr>host = fs, fileMatcher = m, directoryMatcher = newGlobMatcher incls excls (CombinePaths cd [p]) cs UsageDirectories,
    extensions = exts, useCaseSensitiveFileNames = cs, visited = {}, results = replicate (max (length (gm_includes m)) 1) []\<rparr>"
  have h: "host v = fs" "fileMatcher v = m" "extensions v = exts" "results v = replicate (max (length (gm_includes m)) 1) []" by (simp_all add: v_def)
  have pair: "matcherPair (fileMatcher v) (directoryMatcher v)" using newGlobMatcher_pair by (simp add: m_def v_def)
  have room: "roomy v" using names by (simp add: roomy_def h)
  have fr: "fresh toLower v (concat ts)" using distinct by (simp add: fresh_def canonicalOf_def v_def)
  obtain items where walk: "foldPanic (\<lambda>b. visit eqFold toLower fuel b (CombinePaths cd [b]) depth) (getBasePaths eqFold toLower p incls cs) v
      = Inr (visitAll eqFold toLower v items)"
      "concat (map (hits eqFold toLower v) items) = concat (map (hits eqFold toLower v) (concat ts))"
    using visits_prune [OF pair room trees [folded h(1)] fr] by blast
  have "results (visitAll eqFold toLower v items) =
      map (\<lambda>i. concat (map (matchedFiles eqFold toLower fs m exts i) (concat ts))) [0..<max (length (gm_includes m)) 1]"
    using buckets [of "concat (map (hits eqFold toLower v) (concat ts))"] bucket_all_hits [of v _ eqFold toLower "concat ts"] names
    by (simp add: visitAll_def walk(2) h)
  then show ?thesis using walk(1)
    unfolding ReadDirectory_def matchFiles_def Let_def cd_def [symmetric] p_def [symmetric] cs_def [symmetric] m_def [symmetric]
      v_def [symmetric] single_or_Flatten by simp
qed

definition exampleFS :: vfs_FS where
  "exampleFS = \<lparr>Realpath = id,
     GetAccessibleEntries = (\<lambda>d.
       if d = ''/p'' then \<lparr>Files = [''a.ts'', ''b.min.js''], Directories = [''src'', ''node_modules'']\<rparr>
       else if d = ''/p/src'' then \<lparr>Files = [''c.ts'', ''.d.ts''], Directories = []\<rparr>
       else if d = ''/p/node_modules'' then \<lparr>Files = [''n.ts''], Directories = []\<rparr>
       else \<lparr>Files = [], Directories = []\<rparr>),
     fs_UseCaseSensitiveFileNames = True\<rparr>"

lemma exampleFS_names: "properNames exampleFS"
  by (simp add: properNames_def exampleFS_def)

lemma exampleFS_trees:
  "traverseOpt (\<lambda>b. tree exampleFS (\<lambda>_. True) 2 b (CombinePaths (NormalizePath ''/'') [b]) UnlimitedDepth)
     (getBasePaths (=) id (NormalizePath ''/p'') [''**/*''] (fs_UseCaseSensitiveFileNames exampleFS))
   = Some [[(''/p'', ''/p''), (''/p/src'', ''/p/src''), (''/p/node_modules'', ''/p/node_modules'')]]"
  by code_simp

theorem ReadDirectory_exact_witness:
  "ReadDirectory (=) id 2 exampleFS ''/'' ''/p'' [''.ts''] [] [''**/*''] UnlimitedDepth = Inr [''/p/a.ts'', ''/p/src/c.ts'']"
proof -
  let ?ds = "[(''/p'', ''/p''), (''/p/src'', ''/p/src''), (''/p/node_modules'', ''/p/node_modules'')] :: (string \<times> string) list"
  have "ReadDirectory (=) id 2 exampleFS ''/'' ''/p'' [''.ts''] [] [''**/*''] UnlimitedDepth =
    Inr (concat (map (\<lambda>i. concat (map (matchedFiles (=) id exampleFS
      (newGlobMatcher [''**/*''] [] (CombinePaths (NormalizePath ''/'') [NormalizePath ''/p'']) (fs_UseCaseSensitiveFileNames exampleFS) UsageFiles)
      [''.ts''] i) (concat [?ds]))) [0..<max (length (gm_includes
      (newGlobMatcher [''**/*''] [] (CombinePaths (NormalizePath ''/'') [NormalizePath ''/p'']) (fs_UseCaseSensitiveFileNames exampleFS) UsageFiles))) 1]))"
    by (rule ReadDirectory_exact [OF exampleFS_names exampleFS_trees]) code_simp
  also have "\<dots> = Inr [''/p/a.ts'', ''/p/src/c.ts'']" by code_simp
  finally show ?thesis .
qed

text \<open>C12. Reading a directory ends, without a panic, also when symbolic links form cycles: it is enough that no entry name has a slash and that the directories that can be walked to
  from the base paths, under however many names, have finitely many canonical names. The nesting of the visits is at most the
  number of those, so that every greater bound gives the result. What \<open>Realpath\<close> says of other paths does not matter.\<close>

theorem ReadDirectory_ends:
  assumes "properNames fs" "finite S" "card S < fuel"
    and "\<forall>d. walked fs (map (\<lambda>b. CombinePaths (NormalizePath currentDir) [b]) (getBasePaths eqFold toLower (NormalizePath path) incls (fs_UseCaseSensitiveFileNames fs))) d
      \<longrightarrow> GetCanonicalFileName toLower (Realpath fs d) (fs_UseCaseSensitiveFileNames fs) \<in> S"
  shows "\<exists>files. ReadDirectory eqFold toLower fuel fs currentDir path exts excls incls depth = Inr files"
proof -
  let ?m = "newGlobMatcher incls excls (CombinePaths (NormalizePath currentDir) [NormalizePath path]) (fs_UseCaseSensitiveFileNames fs)"
  let ?bases = "getBasePaths eqFold toLower (NormalizePath path) incls (fs_UseCaseSensitiveFileNames fs)"
  let ?starts = "map (\<lambda>b. CombinePaths (NormalizePath currentDir) [b]) ?bases"
  define v where "v = \<lparr>host = fs, fileMatcher = ?m UsageFiles, directoryMatcher = ?m UsageDirectories, extensions = exts,
    useCaseSensitiveFileNames = fs_UseCaseSensitiveFileNames fs, visited = {}, results = replicate (max (length (gm_includes (?m UsageFiles))) 1) []\<rparr>"
  have v: "roomy v" "host v = fs" "\<forall>d. walked fs ?starts d \<longrightarrow> canonicalOf toLower v d \<in> S"
    using assms(1,4) by (simp_all add: v_def roomy_def canonicalOf_def)
  have "\<exists>w'. visit eqFold toLower fuel b (CombinePaths (NormalizePath currentDir) [b]) depth w = Inr w' \<and> sameSetup w w'"
    if "b \<in> set ?bases" "sameSetup v w" for b w
  proof (rule visit_ends [OF assms(2), of w ?starts])
    note f = sameSetup_fields [OF that(2)]
    show "roomy w" "\<forall>d. walked (host w) ?starts d \<longrightarrow> canonicalOf toLower w d \<in> S" using v f by simp_all
    show "walked (host w) ?starts (CombinePaths (NormalizePath currentDir) [b])" using that(1) by (auto intro: walked_start)
    show "card (S - visited w) < fuel" using assms(2,3) card_mono [of S "S - visited w"] by auto
  qed
  then have "\<exists>w. foldPanic (\<lambda>b. visit eqFold toLower fuel b (CombinePaths (NormalizePath currentDir) [b]) depth) ?bases v = Inr w \<and> sameSetup v w"
    by (rule foldPanic_sameSetup)
  then show ?thesis by (auto simp: ReadDirectory_def matchFiles_def Let_def v_def)
qed

text \<open>A directory with a file and a link to itself; other paths do not exist, and \<open>Realpath\<close> returns them as they are.\<close>

definition cyclicFS :: vfs_FS where
  "cyclicFS = \<lparr>Realpath = (\<lambda>d. if strHasPrefix d ''/p/self'' then ''/p'' else d),
     GetAccessibleEntries = (\<lambda>d. if d = ''/p'' \<or> strHasPrefix d ''/p/self'' then \<lparr>Files = [''a.ts''], Directories = [''self'']\<rparr>
       else \<lparr>Files = [], Directories = []\<rparr>),
     fs_UseCaseSensitiveFileNames = True\<rparr>"

lemma cyclicFS_walked: "walked cyclicFS [''/p''] d \<Longrightarrow> d = ''/p'' \<or> strHasPrefix d ''/p/self''"
proof (induction rule: walked.induct)
  case (walked_entry d dir)
  then have "dir = ''self''" by (auto simp: cyclicFS_def)
  then show ?case using walked_entry.IH by (auto simp: ensureTrailingSlash_def strHasPrefix_iff)
qed simp

theorem ReadDirectory_ends_witness:
  "\<exists>files. ReadDirectory (=) id 2 cyclicFS ''/'' ''/p'' [] [] [] UnlimitedDepth = Inr files"
proof (rule ReadDirectory_ends [where S = "{''/p''}"])
  have b: "map (\<lambda>b. CombinePaths (NormalizePath ''/'') [b]) (getBasePaths (=) id (NormalizePath ''/p'') [] (fs_UseCaseSensitiveFileNames cyclicFS)) = [''/p'']"
    by code_simp
  show "\<forall>d. walked cyclicFS (map (\<lambda>b. CombinePaths (NormalizePath ''/'') [b]) (getBasePaths (=) id (NormalizePath ''/p'') [] (fs_UseCaseSensitiveFileNames cyclicFS))) d
      \<longrightarrow> GetCanonicalFileName id (Realpath cyclicFS d) (fs_UseCaseSensitiveFileNames cyclicFS) \<in> {''/p''}"
    unfolding b using cyclicFS_walked by (auto simp: cyclicFS_def GetCanonicalFileName_def)
qed (simp_all add: cyclicFS_def properNames_def)

section \<open>One component and one path\<close>


definition examplePattern :: globPattern where
  "examplePattern = \<lparr>components = [], isExclude = False, caseSensitive = True, excludeMinJs = True\<rparr>"




text \<open>C13. Matching a path given as a directory and the name of an entry never panics and agrees with matching the whole path, and both
  are the recursion \<open>compsMatch\<close> over the components of the pattern and the parts of the path.\<close>

theorem matchesParts_path:
  assumes "pre = [] \<or> last pre = slash_char" "slash_char \<notin> set name"
  shows "matchesParts eqFold toLower p pre name = matches eqFold toLower p (pre @ name)
    \<and> matches eqFold toLower p (pre @ name) = Inr (compsMatch eqFold toLower p False (components p) (pathParts (pre @ name)))
    \<and> matchesPrefixParts eqFold toLower p pre name = Inr (compsMatch eqFold toLower p True (components p) (pathParts (pre @ name)))"
proof -
  have "matches eqFold toLower p (pre @ name) = Inr (compsMatch eqFold toLower p False (components p) (pathParts (pre @ name)))"
    by (simp add: matches_def matchPathParts_compsMatch pathPartsFrom_0)
  then show ?thesis using matchesParts_entry [of pre name eqFold toLower p] assms by (simp add: patternMatches_def)
qed

theorem matchesParts_path_witness:
  "matchesParts (=) id examplePattern ''/a/'' ''b'' = matches (=) id examplePattern ''/a/b''"
  using matchesParts_path [of "''/a/''" "''b''" "(=)" id examplePattern] by simp

text \<open>C35. A pattern with a UNC root matches no path: its first component is the server with two slashes before it, and the first part of a
  path that begins with a slash is empty.\<close>

theorem unc_pattern_matches_nothing:
  assumes "GetNormalizedPathComponents spec basePath = (''//'' @ server @ ''/'') # rest" "\<not> ContainsAny server ''*?''"
    and "compileGlobPattern spec basePath usage cs = Some p" "\<not> eqFold (''//'' @ server) []"
  shows "matches eqFold toLower p (''//'' @ path) = Inr False"
proof -
  have "RemoveTrailingDirectorySeparator (''//'' @ server @ ''/'') = ''//'' @ server"
    by (simp add: RemoveTrailingDirectorySeparator_def HasTrailingDirectorySeparator_def isAnyDirectorySeparator_def)
  then obtain cs' where c: "components p = KindLiteral (''//'' @ server) # cs'"
    using assms(1,2,3) by (auto simp: compileGlobPattern_def Let_def parseComponent_def ContainsAny_def split: if_splits)
  have "\<not> stringsEqual eqFold p (''//'' @ server) []" using assms(4) by (simp add: stringsEqual_def)
  then have "\<not> compsMatch eqFold toLower p False (components p) (pathParts (''//'' @ path))" by (simp add: c pathParts_def)
  then show ?thesis by (simp add: matches_def matchPathParts_compsMatch pathPartsFrom_0 del: append_Cons)
qed

theorem unc_pattern_matches_nothing_witness:
  "\<exists>p. compileGlobPattern ''src'' ''//server/share'' UsageFiles True = Some p
     \<and> matches (=) id p (''//'' @ ''server/share/src/a.ts'') = Inr False"
proof -
  have c: "GetNormalizedPathComponents ''src'' ''//server/share'' = (''//'' @ ''server'' @ ''/'') # [''share'', ''src'']" by code_simp
  obtain p where p: "compileGlobPattern ''src'' ''//server/share'' UsageFiles True = Some p" by (simp add: compileGlobPattern_def c Let_def LastOrNil_def)
  have "matches (=) id p (''//'' @ ''server/share/src/a.ts'') = Inr False"
    by (rule unc_pattern_matches_nothing [OF c _ p]) (simp_all add: ContainsAny_def)
  then show ?thesis using p by blast
qed

section \<open>Base paths\<close>

lemma insertStable_set [simp]: "set (insertStable cmp x ys) = insert x (set ys)"
  by (induction cmp x ys rule: insertStable.induct) auto

lemma SortStableFunc_set [simp]: "set (SortStableFunc xs cmp) = set xs"
  by (induction xs) (simp_all add: SortStableFunc_def)

lemma Every_all: "Every xs f \<longleftrightarrow> (\<forall>x\<in>set xs. f x)"
  by (induction xs f rule: Every.induct) auto

lemma ContainsPath_refl: "CombinePaths (CurrentDirectory options) [b] \<noteq> [] \<Longrightarrow> ContainsPath eqFold b b options"
  by (simp add: ContainsPath_def)

lemma addBasePaths:
  fixes eqFold options
  defines "add \<equiv> addBasePath eqFold options"
  shows "prefix acc (fold add bs acc)"
    and "b \<in> set bs \<Longrightarrow> CombinePaths (CurrentDirectory options) [b] \<noteq> [] \<Longrightarrow> \<exists>c\<in>set (fold add bs acc). ContainsPath eqFold c b options"
    and "sorted_wrt (\<lambda>a b. \<not> ContainsPath eqFold a b options) acc \<Longrightarrow> sorted_wrt (\<lambda>a b. \<not> ContainsPath eqFold a b options) (fold add bs acc)"
proof -
  show pre: "prefix acc (fold add bs acc)" for acc bs
  proof (induction bs arbitrary: acc)
    case (Cons b bs)
    have "prefix acc (add b acc)" by (simp add: add_def addBasePath_def)
    then show ?case using Cons [of "add b acc"] prefix_order.trans by simp
  qed simp
  show "b \<in> set bs \<Longrightarrow> CombinePaths (CurrentDirectory options) [b] \<noteq> [] \<Longrightarrow> \<exists>c\<in>set (fold add bs acc). ContainsPath eqFold c b options" for acc
  proof (induction bs arbitrary: acc)
    case (Cons b' bs)
    have "\<exists>c\<in>set (add b acc). ContainsPath eqFold c b options"
      using ContainsPath_refl [OF Cons.prems(2), of eqFold] by (auto simp: add_def addBasePath_def Every_all)
    then show ?case using Cons pre [of "add b acc" bs] by (auto dest: set_mono_prefix)
  qed simp
  show "sorted_wrt (\<lambda>a b. \<not> ContainsPath eqFold a b options) acc \<Longrightarrow> sorted_wrt (\<lambda>a b. \<not> ContainsPath eqFold a b options) (fold add bs acc)" for acc
    by (induction bs arbitrary: acc) (simp_all add: add_def addBasePath_def Every_all sorted_wrt_append)
qed

text \<open>The base paths begin with the path itself, every include pattern has its base path below one of them, and none of them is
  below an earlier one.\<close>

theorem getBasePaths_cover:
  fixes eqFold toLower path incls cs
  defines "bases \<equiv> getBasePaths eqFold toLower path incls cs" and "options \<equiv> \<lparr>UseCaseSensitiveFileNames = cs, CurrentDirectory = path\<rparr>"
  assumes "incl \<in> set incls" "CombinePaths path [getIncludeBasePath (absoluteInclude path incl)] \<noteq> []"
  shows "hd bases = path \<and> (\<exists>b\<in>set bases. ContainsPath eqFold b (getIncludeBasePath (absoluteInclude path incl)) options)
    \<and> (\<forall>i j. i < j \<and> j < length bases \<longrightarrow> \<not> ContainsPath eqFold (bases ! i) (bases ! j) options)"
proof -
  let ?bs = "SortStableFunc (map (\<lambda>incl. getIncludeBasePath (absoluteInclude path incl)) incls) (GetComparer toLower options)"
  have b: "bases = fold (addBasePath eqFold options) ?bs [path]" using assms(3) by (auto simp: bases_def getBasePaths_def options_def Let_def)
  have "prefix [path] bases" unfolding b by (rule addBasePaths(1))
  then have "hd bases = path" by (cases bases) auto
  moreover have "getIncludeBasePath (absoluteInclude path incl) \<in> set ?bs" using assms(3) by simp
  then have "\<exists>b\<in>set bases. ContainsPath eqFold b (getIncludeBasePath (absoluteInclude path incl)) options"
    unfolding b by (rule addBasePaths(2)) (use assms(4) in \<open>simp add: options_def\<close>)
  moreover have "sorted_wrt (\<lambda>a b. \<not> ContainsPath eqFold a b options) bases" unfolding b by (rule addBasePaths(3)) simp
  ultimately show ?thesis by (auto simp: sorted_wrt_iff_nth_less)
qed

theorem getBasePaths_cover_witness:
  "\<exists>b\<in>set (getBasePaths (=) id ''/p'' [''../q/*.ts''] True). ContainsPath (=) b ''/q'' \<lparr>UseCaseSensitiveFileNames = True, CurrentDirectory = ''/p''\<rparr>"
proof -
  have q: "getIncludeBasePath (absoluteInclude ''/p'' ''../q/*.ts'') = ''/q''" by code_simp
  have "CombinePaths ''/p'' [''/q''] \<noteq> []" by code_simp
  then show ?thesis using getBasePaths_cover [of "''../q/*.ts''" "[''../q/*.ts'']" "''/p''" "(=)" id True] by (simp add: q)
qed

end
