(* ===== verification/VfsMatch_Types.thy ===== *)
theory VfsMatch_Types
  imports VfsMatch
begin

text \<open>Compiled patterns are well-formed, and they print as the path components they were compiled from.\<close>

definition plainText :: "string \<Rightarrow> bool" where
  "plainText s \<longleftrightarrow> CHR ''*'' \<notin> set s \<and> CHR ''?'' \<notin> set s"

fun isLiteral :: "segment \<Rightarrow> bool" where
  "isLiteral (SegLiteral lit) = True"
| "isLiteral _ = False"

fun printSegment :: "segment \<Rightarrow> string" where
  "printSegment (SegLiteral lit) = lit"
| "printSegment SegStar = ''*''"
| "printSegment SegQuestion = ''?''"

definition wfSegments :: "segment list \<Rightarrow> bool" where
  \<comment> \<open>literals are not empty, hold no wildcard, and do not follow each other\<close>
  "wfSegments segs \<longleftrightarrow> (\<forall>lit. SegLiteral lit \<in> set segs \<longrightarrow> lit \<noteq> [] \<and> plainText lit)
     \<and> successively (\<lambda>a b. \<not> (isLiteral a \<and> isLiteral b)) segs"

fun wfComponent :: "bool \<Rightarrow> component \<Rightarrow> bool" where
  "wfComponent isInclude (KindLiteral lit) = plainText lit"
| "wfComponent isInclude (KindWildcard segs skip) =
     (skip = isInclude \<and> wfSegments segs \<and> \<not> list_all isLiteral segs \<and> segs \<noteq> [SegStar, SegStar])"
| "wfComponent isInclude KindDoubleAsterisk = True"

fun printComponent :: "component \<Rightarrow> string" where
  "printComponent (KindLiteral lit) = lit"
| "printComponent (KindWildcard segs skip) = concat (map printSegment segs)"
| "printComponent KindDoubleAsterisk = ''**''"

lemma parseSegmentsLoop_print: "concat (map printSegment (parseSegmentsLoop lit s)) = lit @ s"
  by (induction lit s rule: parseSegmentsLoop.induct) (auto simp: flushLiteral_def)

lemma wfSegments_flush: "plainText lit \<Longrightarrow> wfSegments segs \<Longrightarrow> \<not> isLiteral seg \<Longrightarrow> wfSegments (flushLiteral lit @ seg # segs)"
  by (cases segs) (auto simp: wfSegments_def flushLiteral_def)

lemma parseSegmentsLoop_wf: "plainText lit \<Longrightarrow> wfSegments (parseSegmentsLoop lit s)"
proof (induction lit s rule: parseSegmentsLoop.induct)
  case (1 lit)
  then show ?case by (auto simp: wfSegments_def flushLiteral_def)
next
  case (2 lit c s)
  have nil: "plainText []" by (simp add: plainText_def)
  have "plainText (lit @ [c])" if "c \<noteq> CHR ''*''" "c \<noteq> CHR ''?''" using 2(4) that by (auto simp: plainText_def)
  then show ?case using 2 nil by (simp add: wfSegments_flush)
qed

lemma literals_print: "list_all isLiteral segs \<Longrightarrow> wfSegments segs \<Longrightarrow> plainText (concat (map printSegment segs))"
proof (induction segs)
  case (Cons seg segs)
  have "wfSegments segs" using Cons.prems(2) by (cases segs) (auto simp: wfSegments_def)
  then show ?case using Cons by (cases seg) (auto simp: wfSegments_def plainText_def)
qed (simp add: plainText_def)

lemma parseComponent_wf: "wfComponent isInclude (parseComponent s isInclude) \<and> printComponent (parseComponent s isInclude) = s"
proof -
  have any: "ContainsAny s ''*?'' \<longleftrightarrow> \<not> plainText s" by (auto simp: ContainsAny_def list_ex_iff plainText_def)
  have print: "concat (map printSegment (parseSegments s)) = s" by (simp add: parseSegments_def parseSegmentsLoop_print)
  have wf: "wfSegments (parseSegments s)" by (simp add: parseSegments_def parseSegmentsLoop_wf plainText_def)
  have "\<not> list_all isLiteral (parseSegments s)" if "\<not> plainText s" using literals_print [OF _ wf] print that by auto
  moreover have "parseSegments s \<noteq> [SegStar, SegStar]" if "s \<noteq> ''**''" using print that by auto
  ultimately show ?thesis using print wf any by (simp add: parseComponent_def)
qed

lemma reduceStep_not_Nil: "reduced \<noteq> [] \<Longrightarrow> reduceStep reduced part \<noteq> []"
  by (auto simp: reduceStep_def)

lemma normalizedComponentsLoop_not_Nil: "parts \<noteq> [] \<Longrightarrow> normalizedComponentsLoop rest parts \<noteq> []"
proof (induction rest parts rule: normalizedComponentsLoop.induct)
  case (1 rest parts)
  then show ?case by (subst normalizedComponentsLoop.simps) (simp add: Let_def reduceStep_not_Nil)
qed

lemma GetNormalizedPathComponents_not_Nil: "GetNormalizedPathComponents path currentDirectory \<noteq> []"
  by (simp add: GetNormalizedPathComponents_def getNormalizedPathComponentsFromCombined_def Let_def normalizedComponentsLoop_not_Nil)

text \<open>C20. A compiled pattern is well-formed and loses nothing: there is a root to trim, so that indexing it does not panic, the pattern has a component, literal components hold no wildcard, the segments of the
  others are proper, package folders are skipped exactly in include patterns, and the components print as the normalized parts of the
  specification, with \<open>**/*\<close> behind them when the last one names a directory.\<close>

theorem compileGlobPattern_wf:
  fixes spec basePath
  defines "parts \<equiv> GetNormalizedPathComponents spec basePath"
  defines "trimmed \<equiv> parts[0 := RemoveTrailingDirectorySeparator (parts ! 0)]"
  assumes "compileGlobPattern spec basePath usage cs = Some p"
  shows "parts \<noteq> [] \<and> components p \<noteq> [] \<and> list_all (wfComponent (usage \<noteq> UsageExclude)) (components p)
    \<and> map printComponent (components p) = trimmed @ (if IsImplicitGlob (LastOrNil [] trimmed) then [''**'', ''*''] else [])
    \<and> isExclude p = (usage = UsageExclude) \<and> caseSensitive p = cs"
proof -
  let ?all = "trimmed @ (if IsImplicitGlob (LastOrNil [] trimmed) then [''**'', ''*''] else [])"
  have p: "components p = map (\<lambda>part. parseComponent part (usage \<noteq> UsageExclude)) ?all" "isExclude p = (usage = UsageExclude)" "caseSensitive p = cs"
    using assms(3) by (auto simp: compileGlobPattern_def Let_def parts_def [symmetric] trimmed_def [symmetric] split: if_splits)
  have "?all \<noteq> []" by (auto simp: LastOrNil_def IsImplicitGlob_def ContainsAny_def)
  moreover have "list_all (wfComponent (usage \<noteq> UsageExclude)) (components p)" unfolding p(1) list_all_iff using parseComponent_wf by auto
  moreover have "map printComponent (components p) = ?all" unfolding p(1) map_map comp_def using parseComponent_wf by (metis (no_types, lifting) list.map_ident_strong)
  ultimately show ?thesis using p GetNormalizedPathComponents_not_Nil [of spec basePath] by (auto simp: parts_def)
qed

theorem compileGlobPattern_wf_witness:
  "\<exists>p. compileGlobPattern ''src/a*.ts'' ''/p'' UsageFiles True = Some p \<and> components p \<noteq> []
     \<and> map printComponent (components p) = ['''', ''p'', ''src'', ''a*.ts'']"
proof -
  have c: "GetNormalizedPathComponents ''src/a*.ts'' ''/p'' = [''/'', ''p'', ''src'', ''a*.ts'']" by code_simp
  obtain p where p: "compileGlobPattern ''src/a*.ts'' ''/p'' UsageFiles True = Some p"
    by (simp add: compileGlobPattern_def c Let_def LastOrNil_def)
  have r: "RemoveTrailingDirectorySeparator ''/'' = []" by code_simp
  show ?thesis using compileGlobPattern_wf [OF p] p by (auto simp: c r LastOrNil_def IsImplicitGlob_def ContainsAny_def)
qed

end
