(* ===== verification/OwnerCache.thy ===== *)
theory OwnerCache
  imports Go_Prelude "HOL-Library.Word"
begin

text \<open>
  \<open>internal/project/ownercache.go\<close>: the cache of extended configuration files. It is like the reference-counting cache, but an entry
  has the set of its owners. As there, the model is a step relation over goroutines: the methods of the concurrent map are single
  steps, and so are the critical sections between two of them. Which owners own which key is part of the state, since the
  contract of the cache is about it.
\<close>

section \<open>State\<close>

type_synonym owner = "64 word"

record 'v ownerCacheEntry =
  entryMu :: "nat option" \<comment> \<open>the goroutine that has locked the mutex\<close>
  ownedValue :: 'v
  owners :: "owner set"

text \<open>Who called \<open>loadOrStoreLockedEntry\<close>.\<close>

datatype ('v, 'args) ownerCaller = InLoadAndAcquire owner 'args | InAcquireValue owner 'v

datatype ('k, 'v, 'args) ownerPc =
    OIdle
  | OLoadOrStore 'k "('v, 'args) ownerCaller"        \<comment> \<open>before \<open>entries.LoadOrStore\<close>\<close>
  | OLockExisting 'k nat "('v, 'args) ownerCaller"   \<comment> \<open>before \<open>existing.mu.Lock\<close>\<close>
  | OCheckExisting 'k nat "('v, 'args) ownerCaller"  \<comment> \<open>with \<open>existing\<close> locked\<close>
  | OBody 'k nat bool "('v, 'args) ownerCaller"      \<comment> \<open>back in the caller, with \<open>entry\<close> locked and \<open>loaded\<close>\<close>
  | AddLoad 'k owner owner                           \<comment> \<open>before \<open>entries.Load\<close> of \<open>AddOwner\<close>; the last is the owner that keeps the entry alive\<close>
  | AddLock 'k nat owner owner
  | AddLocked 'k nat owner owner
  | RelLoad 'k owner                                 \<comment> \<open>before \<open>entries.Load\<close> of \<open>Release\<close>\<close>
  | RelLock 'k nat owner
  | RelLocked 'k nat owner
  | RelDelete 'k nat                                 \<comment> \<open>before \<open>entries.Delete\<close>, with the entry locked\<close>
  | RelUnlock nat
  | OPanicked string

record ('k, 'v, 'args) ownerState =
  oentries :: "'k \<Rightarrow> nat option"
  oheap :: "nat \<Rightarrow> 'v ownerCacheEntry"
  onext :: nat
  opcs :: "('k, 'v, 'args) ownerPc list"
  owning :: "'k \<Rightarrow> owner set"

definition ogoto :: "nat \<Rightarrow> ('k, 'v, 'args) ownerPc \<Rightarrow> ('k, 'v, 'args) ownerState \<Rightarrow> ('k, 'v, 'args) ownerState" where
  "ogoto t p s = s\<lparr>opcs := (opcs s)[t := p]\<rparr>"

definition oset :: "nat \<Rightarrow> 'v ownerCacheEntry \<Rightarrow> ('k, 'v, 'args) ownerState \<Rightarrow> ('k, 'v, 'args) ownerState" where
  "oset a e s = s\<lparr>oheap := (oheap s)(a := e)\<rparr>"

definition own :: "'k \<Rightarrow> owner \<Rightarrow> ('k, 'v, 'args) ownerState \<Rightarrow> ('k, 'v, 'args) ownerState" where
  "own k o' s = s\<lparr>owning := (owning s)(k := insert o' (owning s k))\<rparr>"

definition olock :: "nat \<Rightarrow> nat \<Rightarrow> ('k, 'v, 'args) ownerPc \<Rightarrow> ('k, 'v, 'args) ownerState \<Rightarrow> ('k, 'v, 'args) ownerState option" where
  \<comment> \<open>\<open>entry.mu.Lock()\<close>, which waits while the mutex is locked\<close>
  "olock t a p s =
     (if entryMu (oheap s a) = None then Some (ogoto t p (oset a ((oheap s a)\<lparr>entryMu := Some t\<rparr>) s)) else None)"

section \<open>Steps\<close>

definition callerOwner :: "('v, 'args) ownerCaller \<Rightarrow> owner" where
  "callerOwner c = (case c of InLoadAndAcquire o' args \<Rightarrow> o' | InAcquireValue o' v \<Rightarrow> o')"

definition callerValue :: "('k \<Rightarrow> 'args \<Rightarrow> 'v) \<Rightarrow> ('k \<Rightarrow> 'v \<Rightarrow> 'args \<Rightarrow> bool) option \<Rightarrow> 'k \<Rightarrow> bool \<Rightarrow> 'v \<Rightarrow> ('v, 'args) ownerCaller \<Rightarrow> 'v" where
  \<comment> \<open>the value that the body of \<open>LoadAndAcquire\<close> or \<open>Acquire\<close> leaves in the entry; \<open>isExpired\<close> may be nil\<close>
  "callerValue parse isExpired k loaded v c =
     (case c of
        InLoadAndAcquire o' args \<Rightarrow>
          if \<not> loaded \<or> (case isExpired of None \<Rightarrow> False | Some f \<Rightarrow> f k v args) then parse k args else v
      | InAcquireValue o' v' \<Rightarrow> if \<not> loaded then v' else v)"

fun ownerStep :: "'v \<Rightarrow> ('k \<Rightarrow> 'args \<Rightarrow> 'v) \<Rightarrow> ('k \<Rightarrow> 'v \<Rightarrow> 'args \<Rightarrow> bool) option \<Rightarrow> nat \<Rightarrow> ('k, 'v, 'args) ownerPc
    \<Rightarrow> ('k, 'v, 'args) ownerState \<Rightarrow> ('k, 'v, 'args) ownerState option" where
  \<comment> \<open>one step of goroutine \<open>t\<close> at the given program counter; \<open>None\<close> while it waits\<close>
  "ownerStep zero parse isExpired t OIdle s = None"
| "ownerStep zero parse isExpired t (OLoadOrStore k c) s =
     (case oentries s k of
        Some existing \<Rightarrow> Some (ogoto t (OLockExisting k existing c) s)
      | None \<Rightarrow>
          let entry = onext s in
          Some (ogoto t (OBody k entry False c)
            (oset entry \<lparr>entryMu = Some t, ownedValue = zero, owners = {}\<rparr>
              (s\<lparr>oentries := (oentries s)(k := Some entry), onext := Suc entry\<rparr>))))"
| "ownerStep zero parse isExpired t (OLockExisting k existing c) s = olock t existing (OCheckExisting k existing c) s"
| "ownerStep zero parse isExpired t (OCheckExisting k existing c) s =
     (let e = oheap s existing in
      if owners e = {} then Some (ogoto t (OLoadOrStore k c) (oset existing (e\<lparr>entryMu := None\<rparr>) s))
      else Some (ogoto t (OBody k existing True c) s))"
| "ownerStep zero parse isExpired t (OBody k entry loaded c) s =
     (let e = oheap s entry in
      Some (own k (callerOwner c) (ogoto t OIdle
        (oset entry (e\<lparr>ownedValue := callerValue parse isExpired k loaded (ownedValue e) c,
                       owners := insert (callerOwner c) (owners e), entryMu := None\<rparr>) s))))"
| "ownerStep zero parse isExpired t (AddLoad k o' keep) s =
     (case oentries s k of
        None \<Rightarrow> Some (ogoto t (OPanicked ''OwnerCache.AddOwner: entry not found'') s)
      | Some entry \<Rightarrow> Some (ogoto t (AddLock k entry o' keep) s))"
| "ownerStep zero parse isExpired t (AddLock k entry o' keep) s = olock t entry (AddLocked k entry o' keep) s"
| "ownerStep zero parse isExpired t (AddLocked k entry o' keep) s =
     (let e = oheap s entry in
      if owners e = {} then Some (ogoto t (OPanicked ''OwnerCache.AddOwner: entry has no owners'') (oset entry (e\<lparr>entryMu := None\<rparr>) s))
      else Some (own k o' (ogoto t OIdle (oset entry (e\<lparr>owners := insert o' (owners e), entryMu := None\<rparr>) s))))"
| "ownerStep zero parse isExpired t (RelLoad k o') s =
     (case oentries s k of
        None \<Rightarrow> Some (ogoto t OIdle s)
      | Some entry \<Rightarrow> Some (ogoto t (RelLock k entry o') s))"
| "ownerStep zero parse isExpired t (RelLock k entry o') s = olock t entry (RelLocked k entry o') s"
| "ownerStep zero parse isExpired t (RelLocked k entry o') s =
     (let e = (oheap s entry)\<lparr>owners := owners (oheap s entry) - {o'}\<rparr> in
      if owners e = {} then Some (ogoto t (RelDelete k entry) (oset entry e s))
      else Some (ogoto t OIdle (oset entry (e\<lparr>entryMu := None\<rparr>) s)))"
| "ownerStep zero parse isExpired t (RelDelete k entry) s =
     Some (ogoto t (RelUnlock entry) (s\<lparr>oentries := (oentries s)(k := None)\<rparr>))"
| "ownerStep zero parse isExpired t (RelUnlock entry) s =
     Some (ogoto t OIdle (oset entry ((oheap s entry)\<lparr>entryMu := None\<rparr>) s))"
| "ownerStep zero parse isExpired t (OPanicked msg) s = None"

definition OwnerCache_Has :: "'k \<Rightarrow> ('k, 'v, 'args) ownerState \<Rightarrow> bool" where
  "OwnerCache_Has k s = (oentries s k \<noteq> None)"

definition NewOwnerCache :: "'v \<Rightarrow> nat \<Rightarrow> ('k, 'v, 'args) ownerState" where
  \<comment> \<open>an empty cache, with a number of goroutines that have not called it yet\<close>
  "NewOwnerCache zero n =
     \<lparr>oentries = (\<lambda>_. None), oheap = (\<lambda>_. \<lparr>entryMu = None, ownedValue = zero, owners = {}\<rparr>), onext = 0,
      opcs = replicate n OIdle, owning = (\<lambda>_. {})\<rparr>"

section \<open>The clients\<close>

fun releasing :: "'k \<Rightarrow> ('k, 'v, 'args) ownerPc \<Rightarrow> owner set" where
  \<comment> \<open>the owner on whose behalf a call releases the key\<close>
  "releasing k (RelLoad k' o') = (if k' = k then {o'} else {})"
| "releasing k (RelLock k' a o') = (if k' = k then {o'} else {})"
| "releasing k (RelLocked k' a o') = (if k' = k then {o'} else {})"
| "releasing k _ = {}"

fun needs :: "'k \<Rightarrow> ('k, 'v, 'args) ownerPc \<Rightarrow> owner set" where
  \<comment> \<open>the owners that must not release the key during a call: the one that acquires it, and the one that keeps it alive\<close>
  "needs k (OLoadOrStore k' c) = (if k' = k then {callerOwner c} else {})"
| "needs k (OLockExisting k' a c) = (if k' = k then {callerOwner c} else {})"
| "needs k (OCheckExisting k' a c) = (if k' = k then {callerOwner c} else {})"
| "needs k (OBody k' a loaded c) = (if k' = k then {callerOwner c} else {})"
| "needs k (AddLoad k' o' keep) = (if k' = k then {o', keep} else {})"
| "needs k (AddLock k' a o' keep) = (if k' = k then {o', keep} else {})"
| "needs k (AddLocked k' a o' keep) = (if k' = k then {o', keep} else {})"
| "needs k _ = {}"

text \<open>The contract: an owner releases what it owns, once, and not while it acquires the key or keeps it for another owner; a key that
  an owner is releasing is not acquired for it; \<open>AddOwner\<close> needs an owner of the key that keeps it for the whole call.\<close>

inductive ownerClientStep :: "'v \<Rightarrow> ('k \<Rightarrow> 'args \<Rightarrow> 'v) \<Rightarrow> ('k \<Rightarrow> 'v \<Rightarrow> 'args \<Rightarrow> bool) option
    \<Rightarrow> ('k, 'v, 'args) ownerState \<Rightarrow> ('k, 'v, 'args) ownerState \<Rightarrow> bool"
  for zero :: 'v and parse :: "'k \<Rightarrow> 'args \<Rightarrow> 'v" and isExpired :: "('k \<Rightarrow> 'v \<Rightarrow> 'args \<Rightarrow> bool) option" where
  LoadOrAcquire: "t < length (opcs s) \<Longrightarrow> opcs s ! t = OIdle \<Longrightarrow> \<forall>p\<in>set (opcs s). callerOwner c \<notin> releasing k p \<Longrightarrow>
     ownerClientStep zero parse isExpired s (ogoto t (OLoadOrStore k c) s)"
| AddOwner: "t < length (opcs s) \<Longrightarrow> opcs s ! t = OIdle \<Longrightarrow> \<forall>p\<in>set (opcs s). o' \<notin> releasing k p \<Longrightarrow> keep \<in> owning s k \<Longrightarrow>
     ownerClientStep zero parse isExpired s (ogoto t (AddLoad k o' keep) s)"
| Release: "t < length (opcs s) \<Longrightarrow> opcs s ! t = OIdle \<Longrightarrow> \<forall>p\<in>set (opcs s). o' \<notin> needs k p \<Longrightarrow> o' \<in> owning s k \<Longrightarrow>
     ownerClientStep zero parse isExpired s (ogoto t (RelLoad k o') (s\<lparr>owning := (owning s)(k := owning s k - {o'})\<rparr>))"
| Run: "t < length (opcs s) \<Longrightarrow> ownerStep zero parse isExpired t (opcs s ! t) s = Some s' \<Longrightarrow>
     ownerClientStep zero parse isExpired s s'"

inductive ownerReachable :: "'v \<Rightarrow> ('k \<Rightarrow> 'args \<Rightarrow> 'v) \<Rightarrow> ('k \<Rightarrow> 'v \<Rightarrow> 'args \<Rightarrow> bool) option \<Rightarrow> nat \<Rightarrow> ('k, 'v, 'args) ownerState \<Rightarrow> bool"
  for zero :: 'v and parse :: "'k \<Rightarrow> 'args \<Rightarrow> 'v" and isExpired :: "('k \<Rightarrow> 'v \<Rightarrow> 'args \<Rightarrow> bool) option" and n :: nat where
  Init: "ownerReachable zero parse isExpired n (NewOwnerCache zero n)"
| Step: "ownerReachable zero parse isExpired n s \<Longrightarrow> ownerClientStep zero parse isExpired s s' \<Longrightarrow> ownerReachable zero parse isExpired n s'"

end
