(* ===== verification/OwnerCache_Props.thy ===== *)
theory OwnerCache_Props
  imports OwnerCache
begin

text \<open>
  What the cache of extended configurations promises to clients that keep its contract, for every interleaving: an owned key stays in
  the cache, a key without owners goes, no call panics or deadlocks. A release by an owner that no longer owns the key breaks this.
\<close>

section \<open>The invariant\<close>

definition others :: "nat \<Rightarrow> 'k \<Rightarrow> ('k, 'v, 'args) ownerState \<Rightarrow> owner set" where
  "others t k s = (\<Union>u\<in>{u. u < length (opcs s) \<and> u \<noteq> t}. releasing k (opcs s ! u))"

definition effective :: "'k \<Rightarrow> ('k, 'v, 'args) ownerState \<Rightarrow> owner set" where
  \<comment> \<open>the owners of a key and those that are about to give it up\<close>
  "effective k s = owning s k \<union> (\<Union>u\<in>{u. u < length (opcs s)}. releasing k (opcs s ! u))"

lemma effective_split:
  "t < length (opcs s) \<Longrightarrow> effective k s = owning s k \<union> releasing k (opcs s ! t) \<union> others t k s"
  by (auto simp: effective_def others_def)

fun olocks :: "('k, 'v, 'args) ownerPc \<Rightarrow> nat set" where
  "olocks (OCheckExisting k a c) = {a}"
| "olocks (OBody k a loaded c) = {a}"
| "olocks (AddLocked k a o' keep) = {a}"
| "olocks (RelLocked k a o') = {a}"
| "olocks (RelDelete k a) = {a}"
| "olocks (RelUnlock a) = {a}"
| "olocks _ = {}"

fun hollow :: "'k \<Rightarrow> nat \<Rightarrow> ('k, 'v, 'args) ownerPc \<Rightarrow> bool" where
  \<comment> \<open>where an entry of the map may be without owners\<close>
  "hollow k a (RelDelete k' a') = (k' = k \<and> a' = a)"
| "hollow k a (OBody k' a' loaded c) = (k' = k \<and> a' = a \<and> \<not> loaded)"
| "hollow k a _ = False"

definition odead :: "nat \<Rightarrow> ('k, 'v, 'args) ownerState \<Rightarrow> bool" where
  "odead a s = (a < onext s \<and> owners (oheap s a) = {} \<and> (\<forall>k. oentries s k \<noteq> Some a))"

fun opcOk :: "('k, 'v, 'args) ownerState \<Rightarrow> ('k, 'v, 'args) ownerPc \<Rightarrow> bool" where
  "opcOk s (OLockExisting k a c) = (oentries s k = Some a \<or> odead a s)"
| "opcOk s (OCheckExisting k a c) = (oentries s k = Some a \<and> owners (oheap s a) \<noteq> {} \<or> odead a s)"
| "opcOk s (OBody k a loaded c) = (oentries s k = Some a)"
| "opcOk s (AddLoad k o' keep) = (keep \<in> owning s k)"
| "opcOk s (AddLock k a o' keep) = (keep \<in> owning s k \<and> oentries s k = Some a)"
| "opcOk s (AddLocked k a o' keep) = (keep \<in> owning s k \<and> oentries s k = Some a)"
| "opcOk s (RelLock k a o') = (oentries s k = Some a)"
| "opcOk s (RelLocked k a o') = (oentries s k = Some a)"
| "opcOk s (RelDelete k a) = (oentries s k = Some a \<and> owners (oheap s a) = {})"
| "opcOk s (RelUnlock a) = odead a s"
| "opcOk s (OPanicked msg) = False"
| "opcOk s _ = True"

definition keepsContract :: "('k, 'v, 'args) ownerState \<Rightarrow> bool" where
  "keepsContract s \<longleftrightarrow> (\<forall>t < length (opcs s). \<forall>k.
     releasing k (opcs s ! t) \<inter> others t k s = {} \<and> releasing k (opcs s ! t) \<inter> owning s k = {}
     \<and> (\<forall>u < length (opcs s). releasing k (opcs s ! t) \<inter> needs k (opcs s ! u) = {}))"

definition ownerInv :: "('k, 'v, 'args) ownerState \<Rightarrow> bool" where
  "ownerInv s \<longleftrightarrow>
    (\<forall>a t. entryMu (oheap s a) = Some t \<longleftrightarrow> t < length (opcs s) \<and> a \<in> olocks (opcs s ! t))
    \<and> (\<forall>k a. oentries s k = Some a \<longrightarrow> a < onext s \<and> owners (oheap s a) = effective k s)
    \<and> (\<forall>k k' a. oentries s k = Some a \<and> oentries s k' = Some a \<longrightarrow> k = k')
    \<and> (\<forall>k. oentries s k = None \<longrightarrow> effective k s = {})
    \<and> (\<forall>k a. oentries s k = Some a \<and> effective k s = {} \<longrightarrow> (\<exists>t < length (opcs s). hollow k a (opcs s ! t)))
    \<and> (\<forall>t < length (opcs s). opcOk s (opcs s ! t))
    \<and> keepsContract s"

lemma ownerInvD:
  assumes "ownerInv s"
  shows "entryMu (oheap s a) = Some t \<longleftrightarrow> t < length (opcs s) \<and> a \<in> olocks (opcs s ! t)"
    and "oentries s k = Some a \<Longrightarrow> a < onext s \<and> owners (oheap s a) = effective k s"
    and "oentries s k = Some a \<Longrightarrow> oentries s k' = Some a \<Longrightarrow> k = k'"
    and "oentries s k = None \<Longrightarrow> effective k s = {}"
    and "oentries s k = Some a \<Longrightarrow> effective k s = {} \<Longrightarrow> \<exists>t < length (opcs s). hollow k a (opcs s ! t)"
    and "t < length (opcs s) \<Longrightarrow> opcOk s (opcs s ! t)"
    and "keepsContract s"
  using assms unfolding ownerInv_def by blast+

lemma ownerInvI:
  assumes "\<And>a t. entryMu (oheap s a) = Some t \<longleftrightarrow> t < length (opcs s) \<and> a \<in> olocks (opcs s ! t)"
    and "\<And>k a. oentries s k = Some a \<Longrightarrow> a < onext s \<and> owners (oheap s a) = effective k s"
    and "\<And>k k' a. oentries s k = Some a \<Longrightarrow> oentries s k' = Some a \<Longrightarrow> k = k'"
    and "\<And>k. oentries s k = None \<Longrightarrow> effective k s = {}"
    and "\<And>k a. oentries s k = Some a \<Longrightarrow> effective k s = {} \<Longrightarrow> \<exists>t < length (opcs s). hollow k a (opcs s ! t)"
    and "\<And>t. t < length (opcs s) \<Longrightarrow> opcOk s (opcs s ! t)"
    and "keepsContract s"
  shows "ownerInv s"
  unfolding ownerInv_def using assms by blast

lemma ownerInv_init: "ownerInv (NewOwnerCache zero n)"
  by (auto simp: ownerInv_def NewOwnerCache_def effective_def keepsContract_def others_def)

lemma hollow_locks: "hollow k a p \<Longrightarrow> a \<in> olocks p"
  by (cases p) auto

lemma oexclusive:
  assumes "ownerInv s" "t < length (opcs s)" "u < length (opcs s)" "a \<in> olocks (opcs s ! t)" "a \<in> olocks (opcs s ! u)"
  shows "u = t"
  using ownerInvD(1) [OF assms(1), of a t] ownerInvD(1) [OF assms(1), of a u] assms(2-) by simp

section \<open>Steps\<close>

text \<open>The part of the contract: a step releases for no new owner, needs no new owner, and gives the key only to an owner it needs.\<close>

lemma contract_step:
  assumes "keepsContract s" "t < length (opcs s)" "opcs s' = (opcs s)[t := p']"
    and "\<And>k. releasing k p' \<subseteq> releasing k (opcs s ! t)" "\<And>k. needs k p' \<subseteq> needs k (opcs s ! t)"
    and "\<And>k. owning s' k \<subseteq> owning s k \<union> needs k (opcs s ! t)"
  shows "keepsContract s'"
proof -
  have r: "releasing k (opcs s' ! u) \<subseteq> releasing k (opcs s ! u)" "needs k (opcs s' ! u) \<subseteq> needs k (opcs s ! u)" for u k
    using assms(2,3,4,5) by (cases "u = t"; simp)+
  have o: "others u k s' \<subseteq> others u k s" for u k using r(1) assms(3) by (fastforce simp: others_def)
  show ?thesis unfolding keepsContract_def
  proof (intro allI impI conjI)
    fix u k v
    assume u: "u < length (opcs s')"
    then have c: "releasing k (opcs s ! u) \<inter> others u k s = {}" "releasing k (opcs s ! u) \<inter> owning s k = {}"
      "releasing k (opcs s ! u) \<inter> needs k (opcs s ! v) = {}" if "v < length (opcs s)" for v
      using assms(1,3) that by (auto simp: keepsContract_def)
    show "releasing k (opcs s' ! u) \<inter> others u k s' = {}" using c(1) [OF assms(2)] r(1) o by blast
    show "releasing k (opcs s' ! u) \<inter> owning s' k = {}" using c(2,3) [OF assms(2)] r(1) assms(6) by blast
    assume "v < length (opcs s')"
    then show "releasing k (opcs s' ! u) \<inter> needs k (opcs s' ! v) = {}" using c(3) [of v] r assms(3) by fastforce
  qed
qed

lemma opcOk_frame:
  assumes "opcOk s p"
    and "\<And>k a. oentries s k = Some a \<Longrightarrow> oentries s' k = Some a" "\<And>a. odead a s \<Longrightarrow> odead a s'"
    and "\<And>a. a \<in> olocks p \<Longrightarrow> owners (oheap s' a) = owners (oheap s a)"
    and "\<And>k. needs k p \<inter> owning s k \<subseteq> owning s' k"
  shows "opcOk s' p"
  using assms(1)
proof (cases p)
  case (AddLoad k o' keep)
  then show ?thesis using assms(1) assms(5) [of k] by auto
next
  case (AddLock k a o' keep)
  then show ?thesis using assms(1,2) assms(5) [of k] by auto
next
  case (AddLocked k a o' keep)
  then show ?thesis using assms(1,2) assms(5) [of k] by auto
qed (use assms(2-4) in auto)

lemma owner_step:
  assumes inv: "ownerInv s" and t: "t < length (opcs s)" and p: "opcs s ! t = p"
    and s': "s' = s\<lparr>oheap := (oheap s)(a := e), opcs := (opcs s)[t := p'], owning := w\<rparr>"
    and lk: "\<And>u. entryMu e = Some u \<longleftrightarrow> (if u = t then a \<in> olocks p' else u < length (opcs s) \<and> a \<in> olocks (opcs s ! u))"
    and lk': "\<And>b. b \<noteq> a \<Longrightarrow> b \<in> olocks p' \<longleftrightarrow> b \<in> olocks p"
    and here: "\<And>k. oentries s k = Some a \<Longrightarrow> owners e = w k \<union> releasing k p' \<union> others t k s"
    and there: "\<And>k. oentries s k \<noteq> Some a \<Longrightarrow> w k \<union> releasing k p' = owning s k \<union> releasing k p"
    and empty: "\<And>k. oentries s k = Some a \<Longrightarrow> owners e = {} \<Longrightarrow> hollow k a p'"
    and full: "\<And>k b. b \<noteq> a \<Longrightarrow> \<not> hollow k b p"
    and dd: "odead a s \<Longrightarrow> owners e = {}"
    and mine: "owners e \<noteq> owners (oheap s a) \<Longrightarrow> a \<in> olocks p"
    and kept: "\<And>k u. u < length (opcs s) \<Longrightarrow> u \<noteq> t \<Longrightarrow> needs k (opcs s ! u) \<inter> owning s k \<subseteq> w k"
    and ok: "opcOk s' p'" and con: "keepsContract s'"
  shows "ownerInv s'"
proof -
  have eff: "effective k s' = w k \<union> releasing k p' \<union> others t k s" for k
    using effective_split [of t s' k] t s' by (auto simp: others_def)
  have old: "effective k s = owning s k \<union> releasing k p \<union> others t k s" for k
    using effective_split [OF t, of k] p by simp
  have same: "effective k s' = effective k s" if "oentries s k \<noteq> Some a" for k
    using eff [of k] old [of k] there [OF that] by auto
  show ?thesis
  proof (rule ownerInvI)
    fix b u
    show "entryMu (oheap s' b) = Some u \<longleftrightarrow> u < length (opcs s') \<and> b \<in> olocks (opcs s' ! u)"
      using ownerInvD(1) [OF inv, of b u] lk [of u] lk' [of b] p t s' by (cases "u = t"; cases "b = a") auto
  next
    fix k b
    assume "oentries s' k = Some b"
    then have b: "oentries s k = Some b" using s' by simp
    show "b < onext s' \<and> owners (oheap s' b) = effective k s'"
      using ownerInvD(2) [OF inv b] here [of k] same [of k] eff [of k] b s' by (cases "b = a") auto
  next
    fix k k' b
    assume "oentries s' k = Some b" "oentries s' k' = Some b"
    then show "k = k'" using ownerInvD(3) [OF inv] s' by simp
  next
    fix k
    assume "oentries s' k = None"
    then show "effective k s' = {}" using ownerInvD(4) [OF inv, of k] same [of k] s' by simp
  next
    fix k b
    assume b: "oentries s' k = Some b" and z: "effective k s' = {}"
    then have b': "oentries s k = Some b" using s' by simp
    show "\<exists>u < length (opcs s'). hollow k b (opcs s' ! u)"
    proof (cases "b = a")
      case True
      then show ?thesis using empty [of k] here [of k] eff [of k] z b' t s' by auto
    next
      case False
      then have "effective k s = {}" using same [of k] b' z by simp
      then obtain u where u: "u < length (opcs s)" "hollow k b (opcs s ! u)" using ownerInvD(5) [OF inv b'] by blast
      then have "u \<noteq> t" using full False p by auto
      then show ?thesis using u s' by auto
    qed
  next
    fix u
    assume u: "u < length (opcs s')"
    show "opcOk s' (opcs s' ! u)"
    proof (cases "u = t")
      case True
      then show ?thesis using ok t s' by simp
    next
      case False
      then have u': "u < length (opcs s)" "opcs s' ! u = opcs s ! u" using u s' by simp_all
      show ?thesis unfolding u'(2)
      proof (rule opcOk_frame [OF ownerInvD(6) [OF inv u'(1)]])
        fix b
        show "odead b s \<Longrightarrow> odead b s'" using dd s' by (cases "b = a") (auto simp: odead_def)
        assume "b \<in> olocks (opcs s ! u)"
        then show "owners (oheap s' b) = owners (oheap s b)"
          using mine oexclusive [OF inv t u'(1), of a] False p s' by (cases "b = a") auto
      qed (use s' kept [OF u'(1) False] in auto)
    qed
  qed (rule con)
qed

lemma ogoto_step:
  assumes inv: "ownerInv s" and t: "t < length (opcs s)"
    and p': "olocks p' = olocks (opcs s ! t)" "\<And>k. w k \<union> releasing k p' = owning s k \<union> releasing k (opcs s ! t)"
      "\<And>k b. \<not> hollow k b (opcs s ! t)" "opcOk (s\<lparr>opcs := (opcs s)[t := p'], owning := w\<rparr>) p'"
    and kept: "\<And>k u. u < length (opcs s) \<Longrightarrow> u \<noteq> t \<Longrightarrow> needs k (opcs s ! u) \<inter> owning s k \<subseteq> w k"
    and con: "keepsContract (s\<lparr>opcs := (opcs s)[t := p'], owning := w\<rparr>)"
  shows "ownerInv (s\<lparr>opcs := (opcs s)[t := p'], owning := w\<rparr>)"
proof (rule owner_step [OF inv t refl, where a = "onext s" and e = "oheap s (onext s)" and p' = p' and w = w])
  have fresh: "oentries s k \<noteq> Some (onext s)" for k using ownerInvD(2) [OF inv, of k "onext s"] by auto
  show "oentries s k = Some (onext s) \<Longrightarrow> owners (oheap s (onext s)) = w k \<union> releasing k p' \<union> others t k s" for k using fresh by blast
  show "oentries s k = Some (onext s) \<Longrightarrow> owners (oheap s (onext s)) = {} \<Longrightarrow> hollow k (onext s) p'" for k using fresh by blast
  show "entryMu (oheap s (onext s)) = Some u \<longleftrightarrow>
      (if u = t then onext s \<in> olocks p' else u < length (opcs s) \<and> onext s \<in> olocks (opcs s ! u))" for u
    using ownerInvD(1) [OF inv, of "onext s" u] t p'(1) by auto
qed (use p' kept con in \<open>auto simp: odead_def\<close>)

lemma live_unlocked:
  assumes "ownerInv s" "oentries s k = Some a" "\<And>u. u < length (opcs s) \<Longrightarrow> \<not> hollow k a (opcs s ! u)"
  shows "owners (oheap s a) \<noteq> {}"
  using ownerInvD(2,5) [OF assms(1,2)] assms(3) by blast

lemma live_locked:
  assumes "ownerInv s" "oentries s k = Some a" "t < length (opcs s)" "a \<in> olocks (opcs s ! t)" "\<not> hollow k a (opcs s ! t)"
  shows "owners (oheap s a) \<noteq> {}"
proof (rule live_unlocked [OF assms(1,2)])
  fix u
  assume u: "u < length (opcs s)"
  show "\<not> hollow k a (opcs s ! u)" using hollow_locks [of k a "opcs s ! u"] oexclusive [OF assms(1,3) u assms(4)] assms(5) by auto
qed

lemma olock_step:
  assumes inv: "ownerInv s" and t: "t < length (opcs s)" and st: "olock t a p' s = Some s'"
    and p': "olocks p' = {a}" "olocks (opcs s ! t) = {}" "\<And>k. releasing k p' = releasing k (opcs s ! t)" "\<And>k. needs k p' = needs k (opcs s ! t)"
    and ok: "(\<And>k. oentries s k = Some a \<Longrightarrow> owners (oheap s a) \<noteq> {}) \<Longrightarrow> opcOk s p'"
  shows "ownerInv s'"
proof -
  let ?e = "(oheap s a)\<lparr>entryMu := Some t\<rparr>"
  have free: "entryMu (oheap s a) = None" using st by (auto simp: olock_def split: if_splits)
  have s': "s' = s\<lparr>oheap := (oheap s)(a := ?e), opcs := (opcs s)[t := p'], owning := owning s\<rparr>"
    using st by (auto simp: olock_def ogoto_def oset_def split: if_splits)
  have nobody: "a \<notin> olocks (opcs s ! u)" if "u < length (opcs s)" for u using ownerInvD(1) [OF inv, of a u] free that by simp
  have live: "owners (oheap s a) \<noteq> {}" if "oentries s k = Some a" for k
  proof (rule live_unlocked [OF inv that])
    show "\<not> hollow k a (opcs s ! u)" if "u < length (opcs s)" for u using nobody [OF that] hollow_locks [of k a "opcs s ! u"] by auto
  qed
  have nh: "\<not> hollow k b (opcs s ! t)" for k b using hollow_locks [of k b "opcs s ! t"] p'(2) by auto
  show ?thesis
  proof (rule owner_step [OF inv t refl s'])
    fix u
    show "entryMu ?e = Some u \<longleftrightarrow> (if u = t then a \<in> olocks p' else u < length (opcs s) \<and> a \<in> olocks (opcs s ! u))"
      using nobody p'(1) by auto
  next
    fix k
    assume k: "oentries s k = Some a"
    show "owners ?e = owning s k \<union> releasing k p' \<union> others t k s"
      using ownerInvD(2) [OF inv k] effective_split [OF t, of k] p'(3) [of k] by simp
    show "owners ?e = {} \<Longrightarrow> hollow k a p'" using live [OF k] by simp
  next
    show "keepsContract s'" by (rule contract_step [OF ownerInvD(7) [OF inv] t]) (use s' p' in auto)
    show "opcOk s' p'" by (rule opcOk_frame [OF ok [OF live]]) (auto simp: s' odead_def)
  qed (use p' nh in \<open>auto simp: odead_def\<close>)
qed

text \<open>The end of a call: the entry is unlocked, with an owner more or less, which the client gets or has given up.\<close>

lemma ounlock_step:
  assumes inv: "ownerInv s" and t: "t < length (opcs s)" and a: "olocks (opcs s ! t) = {a}"
    and s': "s' = s\<lparr>oheap := (oheap s)(a := e\<lparr>entryMu := None\<rparr>), opcs := (opcs s)[t := p'], owning := w\<rparr>"
    and p': "olocks p' = {}" "\<And>k. releasing k p' = {}" "\<And>k. needs k p' \<subseteq> needs k (opcs s ! t)" "opcOk s' p'"
    and here: "\<And>k. oentries s k = Some a \<Longrightarrow> owners e = w k \<union> others t k s \<and> owners e \<noteq> {}"
    and there: "\<And>k. oentries s k \<noteq> Some a \<Longrightarrow> w k = owning s k \<union> releasing k (opcs s ! t)"
    and dd: "odead a s \<Longrightarrow> owners e = {}"
    and w: "\<And>k. owning s k \<subseteq> w k" "\<And>k. w k \<subseteq> owning s k \<union> needs k (opcs s ! t)"
  shows "ownerInv s'"
proof (rule owner_step [OF inv t refl s'])
  fix u
  show "entryMu (e\<lparr>entryMu := None\<rparr>) = Some u \<longleftrightarrow> (if u = t then a \<in> olocks p' else u < length (opcs s) \<and> a \<in> olocks (opcs s ! u))"
    using oexclusive [OF inv t, of u a] a p'(1) by auto
next
  show "keepsContract s'" by (rule contract_step [OF ownerInvD(7) [OF inv] t, where p' = p']) (simp_all add: s' p'(2,3) w(2))
  show "\<not> hollow k b (opcs s ! t)" if "b \<noteq> a" for k b using hollow_locks [of k b "opcs s ! t"] a that by auto
  show "hollow k a p'" if "oentries s k = Some a" "owners (e\<lparr>entryMu := None\<rparr>) = {}" for k using here [OF that(1)] that(2) by simp
  show "needs k (opcs s ! u) \<inter> owning s k \<subseteq> w k" for k u using w(1) [of k] by auto
qed (use a p' here there dd w in \<open>auto\<close>)

lemma step_OLoadOrStore_new:
  assumes inv: "ownerInv s" and t: "t < length (opcs s)" and p: "opcs s ! t = OLoadOrStore k c" and none: "oentries s k = None"
    and s': "s' = s\<lparr>oentries := (oentries s)(k := Some (onext s)), oheap := (oheap s)(onext s := \<lparr>entryMu = Some t, ownedValue = zero, owners = {}\<rparr>),
      onext := Suc (onext s), opcs := (opcs s)[t := OBody k (onext s) False c]\<rparr>"
  shows "ownerInv s'"
proof -
  have eff: "effective k' s' = effective k' s" for k'
    using effective_split [of t s' k'] effective_split [OF t, of k'] t p s' by (auto simp: others_def)
  have fresh: "oentries s k' \<noteq> Some (onext s)" for k' using ownerInvD(2) [OF inv, of k' "onext s"] by auto
  have un: "\<not> odead (onext s) s" by (simp add: odead_def)
  have nobody: "onext s \<notin> olocks (opcs s ! u)" if "u < length (opcs s)" for u
    using ownerInvD(6) [OF inv that] fresh un by (cases "opcs s ! u") auto
  have ne: "\<not> hollow k' a (opcs s ! t)" for k' a using p by simp
  show ?thesis
  proof (rule ownerInvI)
    fix b u
    show "entryMu (oheap s' b) = Some u \<longleftrightarrow> u < length (opcs s') \<and> b \<in> olocks (opcs s' ! u)"
      using ownerInvD(1) [OF inv, of b u] nobody [of u] p t s' by (cases "u = t"; cases "b = onext s") auto
  next
    fix k' b
    assume b: "oentries s' k' = Some b"
    show "b < onext s' \<and> owners (oheap s' b) = effective k' s'"
      using ownerInvD(2) [OF inv, of k' b] ownerInvD(4) [OF inv none] fresh [of k'] b eff s' by (cases "k' = k") auto
  next
    fix k1 k2 b
    assume "oentries s' k1 = Some b" "oentries s' k2 = Some b"
    then show "k1 = k2" using ownerInvD(3) [OF inv, of k1 b k2] fresh s' by (auto split: if_splits)
  next
    fix k'
    assume "oentries s' k' = None"
    then show "effective k' s' = {}" using ownerInvD(4) [OF inv, of k'] eff s' by (auto split: if_splits)
  next
    fix k' b
    assume b: "oentries s' k' = Some b" and z: "effective k' s' = {}"
    show "\<exists>u < length (opcs s'). hollow k' b (opcs s' ! u)"
    proof (cases "k' = k")
      case True
      then show ?thesis using b t s' by (auto intro!: exI [of _ t])
    next
      case False
      then obtain u where "u < length (opcs s)" "hollow k' b (opcs s ! u)" using ownerInvD(5) [OF inv, of k' b] b z eff s' by auto
      moreover from this have "u \<noteq> t" using ne by auto
      ultimately show ?thesis using s' by auto
    qed
  next
    fix u
    assume u: "u < length (opcs s')"
    show "opcOk s' (opcs s' ! u)"
    proof (cases "u = t")
      case False
      then have u': "u < length (opcs s)" "opcs s' ! u = opcs s ! u" using u s' by simp_all
      show ?thesis unfolding u'(2)
        by (rule opcOk_frame [OF ownerInvD(6) [OF inv u'(1)]]) (use none fresh nobody [OF u'(1)] s' in \<open>auto simp: odead_def split: if_splits\<close>)
    qed (use s' t in simp)
  next
    show "keepsContract s'" by (rule contract_step [OF ownerInvD(7) [OF inv] t]) (use s' p in auto)
  qed
qed

lemma step_RelDelete:
  assumes inv: "ownerInv s" and t: "t < length (opcs s)" and p: "opcs s ! t = RelDelete k a"
    and s': "s' = s\<lparr>oentries := (oentries s)(k := None), opcs := (opcs s)[t := RelUnlock a]\<rparr>"
  shows "ownerInv s'"
proof -
  have a: "oentries s k = Some a" "owners (oheap s a) = {}" using ownerInvD(6) [OF inv t] p by auto
  have eff: "effective k' s' = effective k' s" for k'
    using effective_split [of t s' k'] effective_split [OF t, of k'] t p s' by (auto simp: others_def)
  have dead: "odead a s'" using a ownerInvD(2,3) [OF inv] s' by (auto simp: odead_def)
  show ?thesis
  proof (rule ownerInvI)
    fix b u
    show "entryMu (oheap s' b) = Some u \<longleftrightarrow> u < length (opcs s') \<and> b \<in> olocks (opcs s' ! u)"
      using ownerInvD(1) [OF inv, of b u] p t s' by (cases "u = t") auto
  next
    fix k' b
    assume "oentries s' k' = Some b"
    then show "b < onext s' \<and> owners (oheap s' b) = effective k' s'" using ownerInvD(2) [OF inv, of k' b] eff s' by (auto split: if_splits)
  next
    fix k1 k2 b
    assume "oentries s' k1 = Some b" "oentries s' k2 = Some b"
    then show "k1 = k2" using ownerInvD(3) [OF inv, of k1 b k2] s' by (auto split: if_splits)
  next
    fix k'
    assume "oentries s' k' = None"
    then show "effective k' s' = {}" using ownerInvD(4) [OF inv, of k'] ownerInvD(2) [OF inv a(1)] a(2) eff s' by (auto split: if_splits)
  next
    fix k' b
    assume b: "oentries s' k' = Some b" and z: "effective k' s' = {}"
    then obtain u where u: "u < length (opcs s)" "hollow k' b (opcs s ! u)" using ownerInvD(5) [OF inv, of k' b] eff s' by (auto split: if_splits)
    moreover have "u \<noteq> t" using u b p s' by (auto split: if_splits)
    ultimately show "\<exists>u < length (opcs s'). hollow k' b (opcs s' ! u)" using s' by auto
  next
    fix u
    assume u: "u < length (opcs s')"
    show "opcOk s' (opcs s' ! u)"
    proof (cases "u = t")
      case False
      then have u': "u < length (opcs s)" "opcs s' ! u = opcs s ! u" using u s' by simp_all
      have x: "a \<notin> olocks (opcs s ! u)" using oexclusive [OF inv t u'(1), of a] p False by auto
      have z: "owning s k = {}" "releasing k (opcs s ! u) = {}"
        using ownerInvD(2) [OF inv a(1)] a(2) effective_split [OF u'(1), of k] by auto
      have d: "odead b s \<Longrightarrow> odead b s'" for b using s' by (auto simp: odead_def)
      show ?thesis unfolding u'(2) using ownerInvD(6) [OF inv u'(1)] x z dead a
        by (cases "opcs s ! u") (auto simp: s' split: if_splits dest!: d [unfolded s'])
    qed (use s' t dead in simp)
  next
    show "keepsContract s'" by (rule contract_step [OF ownerInvD(7) [OF inv] t]) (use s' p in auto)
  qed
qed

lemma ogoto_plain:
  assumes inv: "ownerInv s" and t: "t < length (opcs s)"
    and p': "olocks p' = olocks (opcs s ! t)" "\<And>k. releasing k p' = releasing k (opcs s ! t)" "\<And>k. needs k p' = needs k (opcs s ! t)"
      "\<And>k b. \<not> hollow k b (opcs s ! t)" "opcOk s p'"
  shows "ownerInv (ogoto t p' s)"
proof -
  have "keepsContract (s\<lparr>opcs := (opcs s)[t := p'], owning := owning s\<rparr>)" by (rule contract_step [OF ownerInvD(7) [OF inv] t]) (use p' in auto)
  moreover have "opcOk (s\<lparr>opcs := (opcs s)[t := p'], owning := owning s\<rparr>) p'" by (rule opcOk_frame [OF p'(5)]) (auto simp: odead_def)
  ultimately show ?thesis using ogoto_step [OF inv t, of p' "owning s"] p' by (simp add: ogoto_def)
qed

lemma step_OCheckExisting:
  assumes inv: "ownerInv s" and t: "t < length (opcs s)" and p: "opcs s ! t = OCheckExisting k a c"
    and st: "ownerStep zero parse isExpired t (opcs s ! t) s = Some s'"
  shows "ownerInv s'"
proof (cases "owners (oheap s a) = {}")
  case True
  then have dead: "odead a s" using ownerInvD(6) [OF inv t] p by auto
  show ?thesis
    by (rule ounlock_step [OF inv t, where a = a and e = "oheap s a" and p' = "OLoadOrStore k c" and w = "owning s"])
      (use st p True dead in \<open>auto simp: Let_def ogoto_def oset_def odead_def\<close>)
next
  case False
  then have "oentries s k = Some a" using ownerInvD(6) [OF inv t] p by (auto simp: odead_def)
  then show ?thesis using st p False ogoto_plain [OF inv t, of "OBody k a True c"] by (simp add: Let_def)
qed

lemma give_step:
  assumes inv: "ownerInv s" and t: "t < length (opcs s)" and a: "olocks (opcs s ! t) = {a}" "oentries s k = Some a"
    and p: "\<And>k'. releasing k' (opcs s ! t) = {}" "o' \<in> needs k (opcs s ! t)"
    and s': "s' = own k o' (ogoto t OIdle (oset a (e\<lparr>owners := insert o' (owners (oheap s a)), entryMu := None\<rparr>) s))"
  shows "ownerInv s'"
proof (rule ounlock_step [OF inv t a(1), where e = "e\<lparr>owners := insert o' (owners (oheap s a))\<rparr>" and p' = OIdle and w = "(owning s)(k := insert o' (owning s k))"])
  fix k'
  assume "oentries s k' = Some a"
  then have "k' = k" using ownerInvD(3) [OF inv a(2)] by auto
  then show "owners (e\<lparr>owners := insert o' (owners (oheap s a))\<rparr>) = ((owning s)(k := insert o' (owning s k))) k' \<union> others t k' s
      \<and> owners (e\<lparr>owners := insert o' (owners (oheap s a))\<rparr>) \<noteq> {}"
    using ownerInvD(2) [OF inv a(2)] effective_split [OF t, of k] p(1) [of k] by auto
next
  show "odead a s \<Longrightarrow> owners (e\<lparr>owners := insert o' (owners (oheap s a))\<rparr>) = {}" using a(2) by (auto simp: odead_def)
qed (use s' p a(2) in \<open>auto simp: own_def ogoto_def oset_def\<close>)

lemma step_RelLocked:
  assumes inv: "ownerInv s" and t: "t < length (opcs s)" and p: "opcs s ! t = RelLocked k a o'"
    and st: "ownerStep zero parse isExpired t (opcs s ! t) s = Some s'"
  shows "ownerInv s'"
proof -
  have a: "oentries s k = Some a" using ownerInvD(6) [OF inv t] p by simp
  have only: "oentries s k' = Some a \<longleftrightarrow> k' = k" for k' using ownerInvD(3) [OF inv a, of k'] a by auto
  have "o' \<notin> owning s k" "o' \<notin> others t k s" using ownerInvD(7) [OF inv] t p by (auto simp: keepsContract_def dest!: spec [of _ t] spec [of _ k])
  then have left: "owners (oheap s a) - {o'} = owning s k \<union> others t k s"
    using ownerInvD(2) [OF inv a] effective_split [OF t, of k] p by auto
  show ?thesis
  proof (cases "owners (oheap s a) - {o'} = {}")
    case True
    let ?e = "(oheap s a)\<lparr>owners := {}\<rparr>"
    have s': "s' = s\<lparr>oheap := (oheap s)(a := ?e), opcs := (opcs s)[t := RelDelete k a], owning := owning s\<rparr>"
      using st p True by (auto simp: Let_def ogoto_def oset_def)
    show ?thesis
    proof (rule owner_step [OF inv t p s'])
      fix u
      show "entryMu ?e = Some u \<longleftrightarrow> (if u = t then a \<in> olocks (RelDelete k a) else u < length (opcs s) \<and> a \<in> olocks (opcs s ! u))"
        using ownerInvD(1) [OF inv, of a u] p t by auto
    next
      show "keepsContract s'" by (rule contract_step [OF ownerInvD(7) [OF inv] t]) (use s' p in auto)
      show "opcOk s' (RelDelete k a)" using s' a by simp
    qed (use True left only in \<open>auto simp: odead_def\<close>)
  next
    case False
    let ?e = "(oheap s a)\<lparr>owners := owners (oheap s a) - {o'}\<rparr>"
    have s': "s' = s\<lparr>oheap := (oheap s)(a := ?e\<lparr>entryMu := None\<rparr>), opcs := (opcs s)[t := OIdle], owning := owning s\<rparr>"
      using st p False by (auto simp: Let_def ogoto_def oset_def)
    have here: "owners ?e = owning s k' \<union> others t k' s \<and> owners ?e \<noteq> {}" if "oentries s k' = Some a" for k'
      using False left only that by simp
    show ?thesis by (rule ounlock_step [OF inv t _ s' _ _ _ _ here]) (use p only in \<open>auto simp: odead_def\<close>)
  qed
qed

lemma in_effective:
  "ownerInv s \<Longrightarrow> x \<in> effective k s \<Longrightarrow> \<exists>a. oentries s k = Some a"
  using ownerInvD(4) [of s k] by (cases "oentries s k") auto

lemma ownerStep_inv:
  assumes inv: "ownerInv s" and t: "t < length (opcs s)" and st: "ownerStep zero parse isExpired t (opcs s ! t) s = Some s'"
  shows "ownerInv s'"
proof -
  note ok = ownerInvD(6) [OF inv t] and split = effective_split [OF t]
  show ?thesis
  proof (cases "opcs s ! t")
    case (OLoadOrStore k c)
    show ?thesis
    proof (cases "oentries s k")
      case None
      then show ?thesis using st OLoadOrStore
        by (intro step_OLoadOrStore_new [OF inv t OLoadOrStore None, where zero = zero]) (auto simp: Let_def ogoto_def oset_def)
    next
      case (Some a)
      then show ?thesis using st OLoadOrStore ogoto_plain [OF inv t, of "OLockExisting k a c"] by simp
    qed
  next
    case (OLockExisting k a c)
    then show ?thesis using st ok by (intro olock_step [OF inv t, of a "OCheckExisting k a c" s']) auto
  next
    case (OCheckExisting k a c)
    then show ?thesis by (rule step_OCheckExisting [OF inv t _ st])
  next
    case (OBody k a loaded c)
    then show ?thesis using st ok
      by (intro give_step [OF inv t, where a = a and k = k and o' = "callerOwner c"
            and e = "(oheap s a)\<lparr>ownedValue := callerValue parse isExpired k loaded (ownedValue (oheap s a)) c\<rparr>"]) (auto simp: Let_def)
  next
    case (AddLoad k o' keep)
    then obtain a where "oentries s k = Some a" using in_effective [OF inv, of keep k] split [of k] ok by auto
    then show ?thesis using st AddLoad ok ogoto_plain [OF inv t, of "AddLock k a o' keep"] by simp
  next
    case (AddLock k a o' keep)
    then show ?thesis using st ok by (intro olock_step [OF inv t, of a "AddLocked k a o' keep" s']) auto
  next
    case (AddLocked k a o' keep)
    have "owners (oheap s a) \<noteq> {}" using ok AddLocked ownerInvD(2) [OF inv, of k a] split [of k] by auto
    then show ?thesis using st ok AddLocked
      by (intro give_step [OF inv t, where a = a and k = k and o' = o' and e = "oheap s a"]) (auto simp: Let_def)
  next
    case (RelLoad k o')
    then obtain a where "oentries s k = Some a" using in_effective [OF inv, of o' k] split [of k] by auto
    then show ?thesis using st RelLoad ogoto_plain [OF inv t, of "RelLock k a o'"] by simp
  next
    case (RelLock k a o')
    then show ?thesis using st ok by (intro olock_step [OF inv t, of a "RelLocked k a o'" s']) auto
  next
    case (RelLocked k a o')
    then show ?thesis by (rule step_RelLocked [OF inv t _ st])
  next
    case (RelDelete k a)
    then show ?thesis using st step_RelDelete [OF inv t RelDelete] by (simp add: ogoto_def)
  next
    case (RelUnlock a)
    then show ?thesis using st ok
      by (intro ounlock_step [OF inv t, where a = a and e = "oheap s a" and p' = OIdle and w = "owning s"])
        (auto simp: ogoto_def oset_def odead_def)
  qed (use st in simp_all)
qed

section \<open>Clients that keep the contract\<close>

lemma others_goto: "others t k (s\<lparr>opcs := (opcs s)[t := p'], owning := w\<rparr>) = others t k s"
  by (auto simp: others_def)

lemma acquire_contract:
  assumes "keepsContract s" "t < length (opcs s)" "opcs s ! t = OIdle"
    and "\<And>k. releasing k p' = {}" "\<And>k. \<forall>p\<in>set (opcs s). releasing k p \<inter> needs k p' = {}"
  shows "keepsContract (s\<lparr>opcs := (opcs s)[t := p'], owning := owning s\<rparr>)"
proof -
  let ?s = "s\<lparr>opcs := (opcs s)[t := p'], owning := owning s\<rparr>"
  have r: "releasing k (opcs ?s ! u) \<subseteq> releasing k (opcs s ! u)" for u k using assms(2,4) by (cases "u = t") simp_all
  have o: "others u k ?s \<subseteq> others u k s" for u k using r by (fastforce simp: others_def)
  have n: "releasing k (opcs ?s ! u) \<inter> needs k (opcs ?s ! v) = {}" if "u < length (opcs s)" "v < length (opcs s)" for u v k
  proof (cases "v = t")
    case True
    have "releasing k (opcs s ! u) \<inter> needs k p' = {}" using assms(5) [of k] nth_mem [OF that(1)] by blast
    then show ?thesis using r [of k u] assms(2) True by auto
  next
    case False
    have "releasing k (opcs s ! u) \<inter> needs k (opcs s ! v) = {}" using assms(1) that by (simp add: keepsContract_def)
    then show ?thesis using r [of k u] False by auto
  qed
  show ?thesis unfolding keepsContract_def
  proof (intro allI impI conjI)
    fix u k v
    assume u: "u < length (opcs ?s)"
    then have c: "releasing k (opcs s ! u) \<inter> others u k s = {}" "releasing k (opcs s ! u) \<inter> owning s k = {}"
      using assms(1) by (simp_all add: keepsContract_def)
    show "releasing k (opcs ?s ! u) \<inter> others u k ?s = {}" using c(1) r [of k u] o [of u k] by blast
    show "releasing k (opcs ?s ! u) \<inter> owning ?s k = {}" using c(2) r [of k u] by auto
    assume "v < length (opcs ?s)"
    then show "releasing k (opcs ?s ! u) \<inter> needs k (opcs ?s ! v) = {}" using n [of u v k] u by simp
  qed
qed

lemma release_contract:
  assumes "keepsContract s" "t < length (opcs s)" "opcs s ! t = OIdle" "o' \<in> owning s k" "\<forall>p\<in>set (opcs s). o' \<notin> needs k p"
  shows "keepsContract (s\<lparr>opcs := (opcs s)[t := RelLoad k o'], owning := (owning s)(k := owning s k - {o'})\<rparr>)"
proof -
  let ?s = "s\<lparr>opcs := (opcs s)[t := RelLoad k o'], owning := (owning s)(k := owning s k - {o'})\<rparr>"
  have free: "o' \<notin> releasing k (opcs s ! u)" if "u < length (opcs s)" for u using assms(1,4) that by (auto simp: keepsContract_def)
  have o: "others u k' ?s \<subseteq> others u k' s \<union> releasing k' (RelLoad k o')" for u k' using assms(2) by (auto simp: others_def nth_list_update split: if_splits)
  show ?thesis unfolding keepsContract_def
  proof (intro allI impI conjI)
    fix u k' v
    assume "u < length (opcs ?s)"
    then have u: "u < length (opcs s)" by simp
    then have c: "releasing k' (opcs s ! u) \<inter> others u k' s = {}" "releasing k' (opcs s ! u) \<inter> owning s k' = {}"
      using assms(1) by (simp_all add: keepsContract_def)
    have fo: "o' \<notin> others t k s" using free by (auto simp: others_def)
    show "releasing k' (opcs ?s ! u) \<inter> others u k' ?s = {}"
      using c(1) fo others_goto [where t = t and k = k' and s = s] o [of u k'] free [OF u] assms(2) u
      by (cases "u = t") (auto split: if_splits)
    show "releasing k' (opcs ?s ! u) \<inter> owning ?s k' = {}" using c(2) assms(2) u by (cases "u = t") auto
    assume "v < length (opcs ?s)"
    then have v: "v < length (opcs s)" by simp
    then have "releasing k' (opcs s ! u) \<inter> needs k' (opcs s ! v) = {}" "o' \<notin> needs k (opcs s ! v)" using assms(1,5) u by (auto simp: keepsContract_def)
    then show "releasing k' (opcs ?s ! u) \<inter> needs k' (opcs ?s ! v) = {}" using assms(2) u v
      by (cases "u = t"; cases "v = t") auto
  qed
qed

lemma ownerClientStep_inv: "ownerClientStep zero parse isExpired s s' \<Longrightarrow> ownerInv s \<Longrightarrow> ownerInv s'"
proof (induction rule: ownerClientStep.induct)
  case (LoadOrAcquire t s c k)
  have "keepsContract (s\<lparr>opcs := (opcs s)[t := OLoadOrStore k c], owning := owning s\<rparr>)"
    by (rule acquire_contract [OF ownerInvD(7) [OF LoadOrAcquire(4)] LoadOrAcquire(1,2)]) (use LoadOrAcquire(3) in auto)
  then show ?case using ogoto_step [OF LoadOrAcquire(4,1), of "OLoadOrStore k c" "owning s"] LoadOrAcquire(2) by (simp add: ogoto_def)
next
  case (AddOwner t s o' k keep)
  have "keep \<notin> releasing k p" if "p \<in> set (opcs s)" for p
    using ownerInvD(7) [OF AddOwner(5)] AddOwner(4) that by (auto simp: keepsContract_def in_set_conv_nth)
  then have "keepsContract (s\<lparr>opcs := (opcs s)[t := AddLoad k o' keep], owning := owning s\<rparr>)"
    by (intro acquire_contract [OF ownerInvD(7) [OF AddOwner(5)] AddOwner(1,2)]) (use AddOwner(3) in auto)
  then show ?case using ogoto_step [OF AddOwner(5,1), of "AddLoad k o' keep" "owning s"] AddOwner(2,4) by (simp add: ogoto_def)
next
  case (Release t s o' k)
  let ?w = "(owning s)(k := owning s k - {o'})"
  have "ownerInv (s\<lparr>opcs := (opcs s)[t := RelLoad k o'], owning := ?w\<rparr>)"
  proof (rule ogoto_step [OF Release(5,1)])
    show "needs k' (opcs s ! u) \<inter> owning s k' \<subseteq> ?w k'" if "u < length (opcs s)" for k' u using Release(3) that by auto
    show "keepsContract (s\<lparr>opcs := (opcs s)[t := RelLoad k o'], owning := ?w\<rparr>)"
      by (rule release_contract [OF ownerInvD(7) [OF Release(5)] Release(1,2,4,3)])
  qed (use Release(2,4) in auto)
  moreover have "ogoto t (RelLoad k o') (s\<lparr>owning := ?w\<rparr>) = s\<lparr>opcs := (opcs s)[t := RelLoad k o'], owning := ?w\<rparr>"
    by (cases s) (simp add: ogoto_def)
  ultimately show ?case by (simp only:)
next
  case (Run t s s')
  show ?case by (rule ownerStep_inv [OF Run(3,1,2)])
qed

lemma ownerReachable_inv: "ownerReachable zero parse isExpired n s \<Longrightarrow> ownerInv s"
  by (induction rule: ownerReachable.induct) (simp_all add: ownerInv_init ownerClientStep_inv)

lemma ownerReachable_length: "ownerReachable zero parse isExpired n s \<Longrightarrow> length (opcs s) = n"
proof (induction rule: ownerReachable.induct)
  case (Step s s')
  have "length (opcs s') = length (opcs s)" if "ownerStep zero parse isExpired t p s = Some s'" for t p
    using that by (induction zero parse isExpired t p s rule: ownerStep.induct)
      (auto simp: ogoto_def oset_def own_def olock_def Let_def split: option.splits if_splits)
  then show ?case using Step by (auto simp: ogoto_def elim!: ownerClientStep.cases)
qed (simp add: NewOwnerCache_def)

section \<open>What owners get\<close>

text \<open>C19. An owned configuration stays cached: whatever the interleaving of goroutines that acquire, add owners and release, as long as
  some owner owns a key, the key is in the cache, its entry lists exactly the owners that have not released it, and no call has
  panicked; and when no call runs, exactly the owned keys are in the cache.\<close>

theorem owned_entries_stay:
  assumes "ownerReachable zero parse isExpired n s"
  shows "(\<forall>msg. OPanicked msg \<notin> set (opcs s))
    \<and> (owning s k \<noteq> {} \<longrightarrow> OwnerCache_Has k s)
    \<and> (case oentries s k of None \<Rightarrow> owning s k = {} | Some a \<Rightarrow> owning s k \<subseteq> owners (oheap s a))
    \<and> (list_all (\<lambda>p. p = OIdle) (opcs s) \<longrightarrow>
         (OwnerCache_Has k s \<longleftrightarrow> owning s k \<noteq> {}) \<and> (case oentries s k of None \<Rightarrow> True | Some a \<Rightarrow> owners (oheap s a) = owning s k))"
proof -
  note inv = ownerReachable_inv [OF assms]
  have np: "OPanicked msg \<notin> set (opcs s)" for msg using ownerInvD(6) [OF inv] by (fastforce simp: in_set_conv_nth)
  have sub: "owning s k \<subseteq> effective k s" by (auto simp: effective_def)
  have idle: "effective k s = owning s k" "\<And>a t. t < length (opcs s) \<Longrightarrow> \<not> hollow k a (opcs s ! t)" if "list_all (\<lambda>p. p = OIdle) (opcs s)"
    using that by (auto simp: effective_def list_all_length)
  show ?thesis
  proof (cases "oentries s k")
    case None
    then show ?thesis using np sub ownerInvD(4) [OF inv None] by (auto simp: OwnerCache_Has_def)
  next
    case (Some a)
    have "owning s k \<noteq> {}" if "list_all (\<lambda>p. p = OIdle) (opcs s)" using ownerInvD(5) [OF inv Some] idle [OF that] by auto
    then show ?thesis using np sub ownerInvD(2) [OF inv Some] idle(1) Some by (auto simp: OwnerCache_Has_def)
  qed
qed

text \<open>No deadlock: while some goroutine is inside a call, some goroutine inside a call can take a step.\<close>

theorem owner_calls_progress:
  assumes "ownerReachable zero parse isExpired n s" "t < n" "opcs s ! t \<noteq> OIdle"
  shows "\<exists>u < n. opcs s ! u \<noteq> OIdle \<and> (\<exists>s'. ownerStep zero parse isExpired u (opcs s ! u) s = Some s')"
proof -
  note inv = ownerReachable_inv [OF assms(1)] and n = ownerReachable_length [OF assms(1)]
  have holder: "opcs s ! u \<noteq> OIdle \<and> (\<exists>s'. ownerStep zero parse isExpired u (opcs s ! u) s = Some s')"
    if "u < n" "a \<in> olocks (opcs s ! u)" for u a
    using that(2) by (cases "opcs s ! u") (auto simp: Let_def)
  have wait: ?thesis if blocked: "olock t a p s = None" for a p
  proof -
    obtain u where "entryMu (oheap s a) = Some u" using blocked unfolding olock_def by (cases "entryMu (oheap s a)") auto
    then have "u < n" "a \<in> olocks (opcs s ! u)" using ownerInvD(1) [OF inv, of a u] n by simp_all
    then show ?thesis using holder by blast
  qed
  show ?thesis
  proof (cases "\<exists>s'. ownerStep zero parse isExpired t (opcs s ! t) s = Some s'")
    case False
    then show ?thesis using assms ownerInvD(6) [OF inv, of t] n wait
      by (cases "opcs s ! t") (auto simp: Let_def split: option.splits if_splits)
  qed (use assms in blast)
qed

section \<open>A run\<close>

fun ownerRun :: "'v \<Rightarrow> ('k \<Rightarrow> 'args \<Rightarrow> 'v) \<Rightarrow> ('k \<Rightarrow> 'v \<Rightarrow> 'args \<Rightarrow> bool) option \<Rightarrow> nat list \<Rightarrow> ('k, 'v, 'args) ownerState
    \<Rightarrow> ('k, 'v, 'args) ownerState option" where
  "ownerRun zero parse isExpired [] s = Some s"
| "ownerRun zero parse isExpired (t # ts) s =
     (case ownerStep zero parse isExpired t (opcs s ! t) s of None \<Rightarrow> None | Some s' \<Rightarrow> ownerRun zero parse isExpired ts s')"

lemma ownerReachable_run:
  "ownerRun zero parse isExpired ts s = Some s' \<Longrightarrow> ownerReachable zero parse isExpired n s \<Longrightarrow> \<forall>t\<in>set ts. t < n
   \<Longrightarrow> ownerReachable zero parse isExpired n s'"
proof (induction ts arbitrary: s)
  case (Cons t ts)
  obtain s1 where s1: "ownerStep zero parse isExpired t (opcs s ! t) s = Some s1" "ownerRun zero parse isExpired ts s1 = Some s'"
    using Cons.prems(1) by (auto split: option.splits)
  have "t < length (opcs s)" using ownerReachable_length [OF Cons.prems(2)] Cons.prems(3) by simp
  then have "ownerReachable zero parse isExpired n s1" using s1(1) Cons.prems(2) by (metis ownerReachable.Step ownerClientStep.Run)
  then show ?case using Cons.IH [OF s1(2)] Cons.prems(3) by simp
qed simp

abbreviation acquire :: "nat \<Rightarrow> nat \<Rightarrow> owner \<Rightarrow> nat \<Rightarrow> (nat, nat, nat) ownerState \<Rightarrow> (nat, nat, nat) ownerState" where
  "acquire t k o' args \<equiv> ogoto t (OLoadOrStore k (InLoadAndAcquire o' args))"

definition exampleOwned :: "(nat, nat, nat) ownerState" where
  "exampleOwned = the (ownerRun 0 (+) None [0, 0] (acquire 0 7 1 5 (NewOwnerCache 0 2)))"

lemma exampleOwned_run: "ownerRun 0 (+) None [0, 0] (acquire 0 7 1 5 (NewOwnerCache 0 2)) = Some exampleOwned"
  and exampleOwned_facts: "owning exampleOwned 7 = {1}" "opcs exampleOwned = [OIdle, OIdle]"
  by (simp_all add: exampleOwned_def ogoto_def NewOwnerCache_def oset_def own_def callerOwner_def Let_def numeral_2_eq_2)

lemma exampleOwned_reachable: "ownerReachable 0 (+) None 2 exampleOwned"
proof (rule ownerReachable_run [OF exampleOwned_run])
  show "ownerReachable 0 (+) None 2 (acquire 0 7 1 5 (NewOwnerCache 0 2))"
    by (rule ownerReachable.Step [OF ownerReachable.Init], rule ownerClientStep.LoadOrAcquire) (auto simp: NewOwnerCache_def)
qed simp

theorem owned_entries_stay_witness: "OwnerCache_Has 7 exampleOwned"
  using owned_entries_stay [OF exampleOwned_reachable, of 7] exampleOwned_facts by simp

theorem owner_calls_progress_witness: "\<exists>u < 2. opcs (acquire 1 7 2 5 exampleOwned) ! u \<noteq> OIdle"
proof -
  have "ownerReachable 0 (+) None 2 (acquire 1 7 2 5 exampleOwned)"
    by (rule ownerReachable.Step [OF exampleOwned_reachable], rule ownerClientStep.LoadOrAcquire) (simp_all add: exampleOwned_facts)
  from owner_calls_progress [OF this, of 1] show ?thesis by (auto simp: ogoto_def exampleOwned_facts)
qed

section \<open>A release too many\<close>

text \<open>Snapshots release a configuration once for every project that extends it, also when they own it once. Owners 1 and 2 acquire a key,
  owner 2 releases it and starts to release it again; before that call locks the entry, owner 1 releases the key, so that the entry is
  deleted, and owner 3 acquires the key anew. The second release of owner 2 then deletes the entry of owner 3.\<close>

definition release :: "nat \<Rightarrow> nat \<Rightarrow> owner \<Rightarrow> (nat, nat, nat) ownerState \<Rightarrow> (nat, nat, nat) ownerState" where
  "release t k o' s = ogoto t (RelLoad k o') (s\<lparr>owning := (owning s)(k := owning s k - {o'})\<rparr>)"

definition secondRelease :: "(nat, nat, nat) ownerState option" where
  "secondRelease =
     Option.bind (ownerRun 0 (+) None [0, 0] (acquire 0 7 1 5 (NewOwnerCache 0 4))) (\<lambda>s1.
     Option.bind (ownerRun 0 (+) None [1, 1, 1, 1] (acquire 1 7 2 5 s1)) (\<lambda>s2.
     Option.bind (ownerRun 0 (+) None [1, 1, 1] (release 1 7 2 s2)) (\<lambda>s3.
     Option.bind (ownerRun 0 (+) None [1] (release 1 7 2 s3)) (\<lambda>s4.
     Option.bind (ownerRun 0 (+) None [0, 0, 0, 0, 0] (release 0 7 1 s4)) (\<lambda>s5.
     Option.bind (ownerRun 0 (+) None [2, 2] (acquire 2 7 3 5 s5)) (\<lambda>s6.
     Option.bind (ownerRun 0 (+) None [1, 1, 1, 1] s6) (\<lambda>s7.
     ownerRun 0 (+) None [3] (ogoto 3 (AddLoad 7 4 3) s7))))))))"

text \<open>A second release of the same owner can delete the entry that another owner has acquired meanwhile: the key is owned and not in the
  cache, and adding an owner to it panics.\<close>

theorem second_release_deletes:
  "case secondRelease of None \<Rightarrow> False | Some s \<Rightarrow>
     owning s 7 = {3} \<and> \<not> OwnerCache_Has 7 s \<and> opcs s = [OIdle, OIdle, OIdle, OPanicked ''OwnerCache.AddOwner: entry not found'']"
  by code_simp

end
