(* ===== verification/LsUri.thy ===== *)
theory LsUri
  imports TsPath_Relative
begin

text \<open>
  File names and document URIs: \<open>FileNameToDocumentURI\<close> of \<open>internal/ls/lsconv/converters.go\<close> and \<open>DocumentUri\<close> of
  \<open>internal/lsp/lsproto/lsp.go\<close>, with what they use of Go's \<open>net/url\<close>: \<open>PathEscape\<close>, and the host and the path that \<open>Parse\<close> finds in a
  URI that begins with \<open>file://\<close>. How \<open>Parse\<close> reads a host with a bracket (an IP literal) is the parameter \<open>parseIPLiteral\<close>.
\<close>

section \<open>Escaping\<close>

definition byteIn :: "char \<Rightarrow> char \<Rightarrow> char \<Rightarrow> bool" where
  "byteIn lo hi c \<longleftrightarrow> byte_of lo \<le> byte_of c \<and> byte_of c \<le> byte_of hi"

definition percentByte :: "char \<Rightarrow> string" where
  "percentByte b = [CHR ''%'', upperhex ! (byte_of b div 16), upperhex ! (byte_of b mod 16)]"

definition isUnreserved :: "char \<Rightarrow> bool" where
  "isUnreserved c \<longleftrightarrow> byteIn CHR ''a'' CHR ''z'' c \<or> byteIn CHR ''A'' CHR ''Z'' c \<or> byteIn CHR ''0'' CHR ''9'' c \<or> c \<in> set ''-_.~''"

definition PathEscape :: "string \<Rightarrow> string" where
  \<comment> \<open>\<open>url.PathEscape\<close>\<close>
  "PathEscape s = concat (map (\<lambda>c. if isUnreserved c \<or> c \<in> set ''$&+:=@'' then [c] else percentByte c) s)"

definition extraEscapes :: "(char \<times> string) list" where
  "extraEscapes =
     [(CHR '':'', ''%3A''), (CHR ''/'', ''%2F''), (CHR ''?'', ''%3F''), (CHR ''#'', ''%23''), (CHR ''['', ''%5B''), (CHR '']'', ''%5D''),
      (CHR ''@'', ''%40''), (CHR ''!'', ''%21''), (CHR ''$'', ''%24''), (CHR ''&'', ''%26''), (CHR 0x27, ''%27''), (CHR ''('', ''%28''),
      (CHR '')'', ''%29''), (CHR ''*'', ''%2A''), (CHR ''+'', ''%2B''), (CHR '','', ''%2C''), (CHR '';'', ''%3B''), (CHR ''='', ''%3D''),
      (CHR '' '', ''%20'')]"

definition extraEscape :: "string \<Rightarrow> string" where
  \<comment> \<open>\<open>extraEscapeReplacer.Replace\<close>\<close>
  "extraEscape s = concat (map (\<lambda>c. case map_of extraEscapes c of Some r \<Rightarrow> r | None \<Rightarrow> [c]) s)"

definition strCutByte :: "string \<Rightarrow> char \<Rightarrow> string \<times> string \<times> bool" where
  \<comment> \<open>\<open>strings.Cut\<close> at a byte\<close>
  "strCutByte s sep = (case strIndexByte s sep of Some i \<Rightarrow> (take i s, drop (i + 1) s, True) | None \<Rightarrow> (s, [], False))"

definition IsBundled :: "string \<Rightarrow> bool" where
  "IsBundled path = strHasPrefix path ''bundled:///''"

definition nulAuthority :: string where
  "nulAuthority = ''ts-nul-authority''"

definition FileNameToDocumentURI :: "string \<Rightarrow> string or_panic" where
  "FileNameToDocumentURI fileName =
     (if IsBundled fileName then Inr fileName
      else if IsDynamicFileName fileName then
        let (scheme, rest, ok) = strCutByte (drop 2 fileName) slash_char in
        if \<not> ok then Inl ''invalid file name''
        else
          let (authority, path, ok) = strCutByte rest slash_char in
          if \<not> ok then Inl ''invalid file name''
          else if authority = nulAuthority then Inr (scheme @ '':'' @ path)
          else Inr (scheme @ ''://'' @ authority @ ''/'' @ path)
      else
        let (volume, fileName', _) = SplitVolumePath fileName;
            volume' = (if volume \<noteq> [] then ''/'' @ extraEscape volume else volume);
            parts = strSplit slash_char (strTrimPrefix fileName' ''//'') in
        Inr (''file://'' @ volume' @ strJoin ''/'' (map (\<lambda>part. extraEscape (PathEscape part)) parts)))"

section \<open>Parsing\<close>

definition ishex :: "char \<Rightarrow> bool" where
  "ishex c \<longleftrightarrow> byteIn CHR ''0'' CHR ''9'' c \<or> byteIn CHR ''a'' CHR ''f'' c \<or> byteIn CHR ''A'' CHR ''F'' c"

definition unhex :: "char \<Rightarrow> nat" where
  "unhex c =
     (if byteIn CHR ''0'' CHR ''9'' c then byte_of c - byte_of CHR ''0''
      else if byteIn CHR ''a'' CHR ''f'' c then byte_of c - byte_of CHR ''a'' + 10
      else byte_of c - byte_of CHR ''A'' + 10)"

definition hostByte :: "char \<Rightarrow> bool" where
  \<comment> \<open>a byte that may stand in a host as it is\<close>
  "hostByte c \<longleftrightarrow> byte_of c \<ge> 0x80 \<or> isUnreserved c \<or> c \<in> set ''!$&()*+,;=:[]<>'' \<or> c = CHR 0x27 \<or> c = CHR 0x22"

fun unescape :: "bool \<Rightarrow> string \<Rightarrow> string option" where
  \<comment> \<open>\<open>unescape\<close> of a host (\<open>host\<close>) or of a path, a fragment or user information\<close>
  "unescape host [] = Some []"
| "unescape host (c # s) =
     (if c = CHR ''%'' then
        (case s of
           a # b # t \<Rightarrow>
             if \<not> (ishex a \<and> ishex b) then None
             else if host \<and> unhex a < 8 \<and> \<not> (a = CHR ''2'' \<and> b = CHR ''5'') then None
             else map_option (Cons (char_of (unhex a * 16 + unhex b))) (unescape host t)
         | _ \<Rightarrow> None)
      else if host \<and> \<not> hostByte c then None
      else map_option (Cons c) (unescape host s))"

definition validOptionalPort :: "string \<Rightarrow> bool" where
  "validOptionalPort s \<longleftrightarrow> list_all (\<lambda>c. byteIn CHR ''0'' CHR ''9'' c) (drop 1 s)"

definition parseHost :: "(string \<Rightarrow> string option) \<Rightarrow> string \<Rightarrow> string option" where
  "parseHost parseIPLiteral host =
     (if CHR ''['' \<in> set host then parseIPLiteral host
      else case strIndexByte host CHR '':'' of
        Some i \<Rightarrow> if validOptionalPort (drop i host) then unescape True host else None
      | None \<Rightarrow> unescape True host)"

definition validUserinfo :: "string \<Rightarrow> bool" where
  "validUserinfo s \<longleftrightarrow> list_all (\<lambda>c. isUnreserved c \<or> c \<in> set '':!$&()*+,;=%@'' \<or> c = CHR 0x27) s"

definition parseAuthority :: "(string \<Rightarrow> string option) \<Rightarrow> string \<Rightarrow> string option" where
  \<comment> \<open>the host\<close>
  "parseAuthority parseIPLiteral authority =
     (case strLastIndexByte authority CHR ''@'' of
        None \<Rightarrow> parseHost parseIPLiteral authority
      | Some i \<Rightarrow>
          (case parseHost parseIPLiteral (drop (i + 1) authority) of
             None \<Rightarrow> None
           | Some host \<Rightarrow>
               if \<not> validUserinfo (take i authority) then None
               else case strCutByte (take i authority) CHR '':'' of (username, password, _) \<Rightarrow>
                 if unescape False username = None \<or> unescape False password = None then None else Some host))"

definition urlParseFile :: "(string \<Rightarrow> string option) \<Rightarrow> string \<Rightarrow> (string \<times> string) option" where
  \<comment> \<open>\<open>Host\<close> and \<open>Path\<close> of \<open>url.Parse(rawURL)\<close> for a \<open>rawURL\<close> that begins with \<open>file://\<close>\<close>
  "urlParseFile parseIPLiteral rawURL =
     (case strCutByte rawURL CHR ''#'' of (u, frag, _) \<Rightarrow>
        if list_ex (\<lambda>c. byte_of c < 0x20 \<or> byte_of c = 0x7F) u then None
        else case strCutByte (drop (length ''file:'') u) CHR ''?'' of (rest, _, _) \<Rightarrow>
          (let afterSlashes = drop 2 rest;
               (authority, path) = (case strIndexByte afterSlashes slash_char of
                  Some i \<Rightarrow> (take i afterSlashes, drop i afterSlashes) | None \<Rightarrow> (afterSlashes, [])) in
           case parseAuthority parseIPLiteral authority of
             None \<Rightarrow> None
           | Some host \<Rightarrow> (case unescape False path of
               None \<Rightarrow> None
             | Some p \<Rightarrow> if unescape False frag = None then None else Some (host, p))))"

definition fixWindowsURIPath :: "string \<Rightarrow> string" where
  "fixWindowsURIPath path =
     (case strCutPrefix path ''/'' of (rest, ok) \<Rightarrow>
        if ok then (case SplitVolumePath rest of (volume, rest', ok') \<Rightarrow> if ok' then volume @ rest' else path)
        else path)"

definition DocumentUri_FileName :: "(string \<Rightarrow> string option) \<Rightarrow> string \<Rightarrow> string or_panic" where
  "DocumentUri_FileName parseIPLiteral uri =
     (if IsBundled uri then Inr uri
      else if strHasPrefix uri ''file://'' then
        (case urlParseFile parseIPLiteral uri of
           None \<Rightarrow> Inl ''invalid file URI''
         | Some (host, path) \<Rightarrow> if host \<noteq> [] then Inr (''//'' @ host @ path) else Inr (fixWindowsURIPath path))
      else
        let (scheme, path, ok) = strCutByte uri CHR '':'' in
        if \<not> ok then Inl ''invalid URI''
        else
          let (rest, ok) = strCutPrefix path ''//'' in
          if ok then
            let (authority, path', ok') = strCutByte rest slash_char in
            if \<not> ok' then Inl ''invalid URI'' else Inr (''^/'' @ scheme @ ''/'' @ authority @ ''/'' @ path')
          else Inr (''^/'' @ scheme @ ''/'' @ nulAuthority @ ''/'' @ path))"

definition DocumentUri_Path :: "(string \<Rightarrow> string option) \<Rightarrow> (rune \<Rightarrow> rune) \<Rightarrow> string \<Rightarrow> bool \<Rightarrow> string or_panic" where
  "DocumentUri_Path parseIPLiteral toLower uri useCaseSensitiveFileNames =
     bind_panic (DocumentUri_FileName parseIPLiteral uri) (\<lambda>fileName. Inr (ToPath toLower fileName [] useCaseSensitiveFileNames))"

end
