(* ===== verification/LsConv.thy ===== *)
theory LsConv
  imports Scanner_Lines LsUri
begin

text \<open>
  \<open>internal/ls/lsconv\<close>: the positions of the language server protocol, a line and a character in UTF-8 or UTF-16 units, and the byte
  positions of the compiler (\<open>converters.go\<close>), with the line table of the protocol (\<open>linemap.go\<close>), which knows the line breaks LF, CR
  and CRLF only. A position of the protocol has \<open>uint32\<close> fields, a \<open>TextPos\<close> is an \<open>int32\<close>; the conversions wrap.
\<close>

section \<open>The line table\<close>

record LSPLineMap =
  LineStarts :: "nat list"
  AsciiOnly :: bool

function lspLineLoop :: "string \<Rightarrow> nat \<Rightarrow> nat \<Rightarrow> bool \<Rightarrow> nat list \<times> bool" where
  \<comment> \<open>the line starts from \<open>pos\<close> on, and \<open>asciiOnly\<close>\<close>
  "lspLineLoop s p lineStart asciiOnly =
     (if p < length s then
        let b = byte_of (s ! p) in
        if b < 0x80 then
          let p1 = p + 1 in
          if b = 13 then
            let p2 = (if p1 < length s \<and> byte_of (s ! p1) = 10 then p1 + 1 else p1) in
            (case lspLineLoop s p2 p2 asciiOnly of (starts, a) \<Rightarrow> (lineStart # starts, a))
          else if b = 10 then (case lspLineLoop s p1 p1 asciiOnly of (starts, a) \<Rightarrow> (lineStart # starts, a))
          else lspLineLoop s p1 lineStart asciiOnly
        else lspLineLoop s (p + snd (decodeRune (drop p s))) lineStart False
      else ([lineStart], asciiOnly))"
  by pat_completeness auto
termination
proof (relation "measure (\<lambda>(s, p, lineStart, asciiOnly). length s - p)", goal_cases)
  case (5 s p lineStart asciiOnly b)
  then show ?case using decode_step(2) [of p s "fst (decodeRune (drop p s))"] by simp
qed (auto split: if_splits)

declare lspLineLoop.simps [simp del]

definition ComputeLSPLineStarts :: "string \<Rightarrow> LSPLineMap" where
  "ComputeLSPLineStarts s = (case lspLineLoop s 0 0 True of (starts, a) \<Rightarrow> \<lparr>LineStarts = starts, AsciiOnly = a\<rparr>)"

definition cmpCompare :: "int \<Rightarrow> int \<Rightarrow> int" where
  "cmpCompare a b = (if a < b then -1 else if a > b then 1 else 0)"

definition ComputeIndexOfLineStart :: "LSPLineMap \<Rightarrow> int \<Rightarrow> nat" where
  "ComputeIndexOfLineStart lm targetPos =
     (let (lineNumber, ok) = BinarySearchFunc (LineStarts lm) targetPos (\<lambda>p t. cmpCompare (int p) t) in
      if \<not> ok \<and> lineNumber > 0 then lineNumber - 1 else lineNumber)"

section \<open>The conversions\<close>

datatype PositionEncodingKind = EncodingUTF8 | EncodingUTF16 | EncodingUTF32

record Converters =
  getLineMap :: "string \<Rightarrow> LSPLineMap"
  positionEncoding :: PositionEncodingKind

record Script =
  FileName :: string
  Text :: string

type_synonym Position = "nat \<times> nat"

definition uint32 :: "int \<Rightarrow> nat" where
  "uint32 x = nat (x mod 2 ^ 32)"

function lspScan :: "string \<Rightarrow> nat \<Rightarrow> int \<Rightarrow> nat \<Rightarrow> int \<Rightarrow> nat or_panic" where
  \<comment> \<open>the loop over the runes of a line, with \<open>pos\<close> and \<open>utf16Char\<close>, which stays below the length of a text with its own line table and does not wrap\<close>
  "lspScan s end char p n =
     (if p < end then
        if length s < p then Inl ''slice bounds out of range''
        else if n + utf16RuneLen (fst (decodeRune (drop p s))) > char then Inr p
        else lspScan s end char (p + snd (decodeRune (drop p s))) (n + utf16RuneLen (fst (decodeRune (drop p s))))
      else Inr p)"
  by pat_completeness auto
termination
proof (relation "measure (\<lambda>(s, end, char, p, n). nat (char - n))", goal_cases)
  case (2 s e char p n)
  then show ?case using utf16RuneLen_pos [of "drop p s"] by simp
qed simp

declare lspScan.simps [simp del]

definition LineAndCharacterToPosition :: "Converters \<Rightarrow> Script \<Rightarrow> Position \<Rightarrow> int or_panic" where
  "LineAndCharacterToPosition c script lineAndCharacter =
     (let lineMap = getLineMap c (FileName script);
          line = textPos (int (fst lineAndCharacter));
          char = textPos (int (snd lineAndCharacter));
          textLen = textPos (int (length (Text script)));
          starts = LineStarts lineMap in
      if line \<ge> int (length starts) then Inr textLen
      else bind_panic (lineStartOf starts line) (\<lambda>start.
        let lineEnd = (if line + 1 < int (length starts) then int (starts ! nat (line + 1)) else textLen) in
        if AsciiOnly lineMap \<or> positionEncoding c = EncodingUTF8 then Inr (max start (min (textPos (start + char)) lineEnd))
        else bind_panic (lspScan (Text script) (nat lineEnd) char (nat start) 0) (\<lambda>pos. Inr (textPos (int pos)))))"

definition PositionToLineAndCharacter :: "Converters \<Rightarrow> Script \<Rightarrow> int \<Rightarrow> Position or_panic" where
  "PositionToLineAndCharacter c script position0 =
     (let position = max 0 (min position0 (textPos (int (length (Text script)))));
          lineMap = getLineMap c (FileName script);
          starts = LineStarts lineMap;
          (line0, isLineStart) = BinarySearchFunc starts position (\<lambda>p t. cmpCompare (int p) t);
          line1 = (if \<not> isLineStart then int line0 - 1 else int line0);
          line = max 0 (min line1 (int (length starts) - 1)) in
      bind_panic (lineStartOf starts line) (\<lambda>start.
      bind_panic
        (if AsciiOnly lineMap \<or> positionEncoding c = EncodingUTF8 then Inr (textPos (position - start))
         else bind_panic (sliceOf (Text script) start position) (\<lambda>t. Inr (textPos (sum_list (map utf16RuneLen (decodeRunes t))))))
        (\<lambda>character. Inr (uint32 line, uint32 character))))"

definition ToLSPRange :: "Converters \<Rightarrow> Script \<Rightarrow> TextRange \<Rightarrow> (Position \<times> Position) or_panic" where
  "ToLSPRange c script r =
     bind_panic (PositionToLineAndCharacter c script (textPos (TextRange_Pos r))) (\<lambda>start.
     bind_panic (PositionToLineAndCharacter c script (textPos (TextRange_End r))) (\<lambda>end. Inr (start, end)))"

definition FromLSPRange :: "Converters \<Rightarrow> Script \<Rightarrow> Position \<times> Position \<Rightarrow> TextRange or_panic" where
  "FromLSPRange c script r =
     bind_panic (LineAndCharacterToPosition c script (fst r)) (\<lambda>start.
     bind_panic (LineAndCharacterToPosition c script (snd r)) (\<lambda>end. Inr (NewTextRange start end)))"

definition FromLSPTextChange :: "Converters \<Rightarrow> Script \<Rightarrow> Position \<times> Position \<Rightarrow> string \<Rightarrow> TextChange or_panic" where
  "FromLSPTextChange c script rng text' =
     bind_panic (FromLSPRange c script rng) (\<lambda>r. Inr \<lparr>tc_range = r, NewText = text'\<rparr>)"

definition ToLSPLocation :: "Converters \<Rightarrow> Script \<Rightarrow> TextRange \<Rightarrow> (string \<times> Position \<times> Position) or_panic" where
  "ToLSPLocation c script rng =
     bind_panic (FileNameToDocumentURI (FileName script)) (\<lambda>uri. bind_panic (ToLSPRange c script rng) (\<lambda>r. Inr (uri, r)))"

datatype ScriptKind = ScriptKindUnknown | ScriptKindJS | ScriptKindJSX | ScriptKindTS | ScriptKindTSX | ScriptKindExternal | ScriptKindJSON | ScriptKindDeferred

definition LanguageKindToScriptKind :: "string \<Rightarrow> ScriptKind" where
  "LanguageKindToScriptKind languageID =
     (if languageID = ''typescript'' then ScriptKindTS
      else if languageID = ''typescriptreact'' then ScriptKindTSX
      else if languageID = ''javascript'' then ScriptKindJS
      else if languageID = ''javascriptreact'' then ScriptKindJSX
      else if languageID = ''json'' then ScriptKindJSON
      else ScriptKindUnknown)"

end
