(* ===== verification/LsConv_Props.thy ===== *)
theory LsConv_Props
  imports LsConv
begin

text \<open>
  Positions of the protocol and of the compiler: the way from a position to a line and a character leads back, in both encodings and for
  any text, also invalid UTF-8. Characters behind the end of a line are clamped, except where the 32-bit sum wraps.
\<close>

section \<open>Runes\<close>

lemma runeBoundary_add: "runeBoundary s m \<Longrightarrow> runeBoundary s (m + k) \<longleftrightarrow> runeBoundary (drop m s) k"
proof (induction s m rule: runeBoundary.induct)
  case (1 s m)
  show ?case
  proof (cases "m = 0")
    case False
    let ?z = "snd (decodeRune s)"
    have b: "s \<noteq> []" "?z \<le> m" "runeBoundary (drop ?z s) (m - ?z)" using 1(2) False by (auto simp: runeBoundary.simps [of s m] split: if_splits)
    have "runeBoundary s (m + k) \<longleftrightarrow> runeBoundary (drop ?z s) (m - ?z + k)" using b False by (subst runeBoundary.simps) simp
    then show ?thesis using 1(1) [OF False b(1) b(3)] b(2) by simp
  qed simp
qed

lemma runeBoundary_next: "runeBoundary s p \<Longrightarrow> p < length s \<Longrightarrow> runeBoundary s (p + snd (decodeRune (drop p s)))"
  by (subst runeBoundary_add) (auto simp: runeBoundary.simps [of "drop p s"] runeBoundary.simps [of _ 0])


lemma ascii_size: "p < length s \<Longrightarrow> byte_of (s ! p) < 0x80 \<Longrightarrow> snd (decodeRune (drop p s)) = 1"
  by (simp add: Cons_nth_drop_Suc [symmetric])

lemma runeBoundary_ascii: "runeBoundary s p \<Longrightarrow> p < length s \<Longrightarrow> byte_of (s ! p) < 0x80 \<Longrightarrow> runeBoundary s (p + 1)"
  using runeBoundary_next [of s p] by (simp add: ascii_size)

section \<open>The line table\<close>

definition afterBreak :: "string \<Rightarrow> nat \<Rightarrow> nat" where
  \<comment> \<open>the position behind the carriage return at \<open>p\<close> and the line feed that may follow\<close>
  "afterBreak s p = (if p + 1 < length s \<and> byte_of (s ! (p + 1)) = (10::nat) then p + 1 + 1 else p + 1)"

lemma lspLineLoop_step:
  assumes "p < length s"
  shows "byte_of (s ! p) = 13 \<Longrightarrow> lspLineLoop s p lineStart a =
      (lineStart # fst (lspLineLoop s (afterBreak s p) (afterBreak s p) a), snd (lspLineLoop s (afterBreak s p) (afterBreak s p) a))"
    and "byte_of (s ! p) = 10 \<Longrightarrow> lspLineLoop s p lineStart a =
      (lineStart # fst (lspLineLoop s (p + 1) (p + 1) a), snd (lspLineLoop s (p + 1) (p + 1) a))"
    and "byte_of (s ! p) < 0x80 \<Longrightarrow> byte_of (s ! p) \<noteq> 13 \<Longrightarrow> byte_of (s ! p) \<noteq> 10 \<Longrightarrow> lspLineLoop s p lineStart a = lspLineLoop s (p + 1) lineStart a"
    and "\<not> byte_of (s ! p) < 0x80 \<Longrightarrow> lspLineLoop s p lineStart a = lspLineLoop s (p + snd (decodeRune (drop p s))) lineStart False"
  using assms by (subst lspLineLoop.simps, simp add: Let_def afterBreak_def case_prod_beta)+

definition goodStarts :: "string \<Rightarrow> nat \<Rightarrow> nat \<Rightarrow> nat list \<Rightarrow> bool" where
  "goodStarts s p lineStart starts \<longleftrightarrow> (\<exists>rest. starts = lineStart # rest \<and> sorted_wrt (<) starts \<and> (\<forall>x\<in>set rest. p < x \<and> x \<le> length s \<and> runeBoundary s x))"

lemma goodStarts_break:
  "goodStarts s q q starts \<Longrightarrow> lineStart \<le> p \<Longrightarrow> p < q \<Longrightarrow> q \<le> length s \<Longrightarrow> runeBoundary s q \<Longrightarrow> goodStarts s p lineStart (lineStart # starts)"
  by (fastforce simp: goodStarts_def)

lemma goodStarts_later: "goodStarts s q lineStart starts \<Longrightarrow> p \<le> q \<Longrightarrow> goodStarts s p lineStart starts"
  unfolding goodStarts_def by (elim exE) (auto intro: le_less_trans)

lemma lspLineLoop_good:
  "lineStart \<le> p \<Longrightarrow> p \<le> length s \<Longrightarrow> runeBoundary s p \<Longrightarrow> goodStarts s p lineStart (fst (lspLineLoop s p lineStart a))"
proof (induction s p lineStart a rule: lspLineLoop.induct)
  case (1 s p lineStart a)
  show ?case
  proof (cases "p < length s")
    case False
    then show ?thesis by (subst lspLineLoop.simps) (simp add: goodStarts_def)
  next
    case True
    let ?b = "byte_of (s ! p) :: nat"
    consider (cr) "?b = 13" | (lf) "?b = 10" | (other) "?b < 0x80" "?b \<noteq> 13" "?b \<noteq> 10" | (multi) "\<not> ?b < 0x80" by force
    then show ?thesis
    proof cases
      case cr
      let ?q = "afterBreak s p"
      have b1: "runeBoundary s (p + 1)" using 1(7) True cr by (intro runeBoundary_ascii) simp_all
      have q: "p < ?q" "?q \<le> length s" "runeBoundary s ?q" using True b1 runeBoundary_ascii [of s "p + 1"] by (auto simp: afterBreak_def)
      have "goodStarts s ?q ?q (fst (lspLineLoop s ?q ?q a))" using 1(1) [OF True refl _ refl _ afterBreak_def] cr q by simp
      then show ?thesis using goodStarts_break [OF _ 1(5) q] lspLineLoop_step(1) [OF True cr] by simp
    next
      case lf
      have q: "p < p + 1" "p + 1 \<le> length s" "runeBoundary s (p + 1)" using True runeBoundary_ascii [OF 1(7) True] lf by simp_all
      have "goodStarts s (p + 1) (p + 1) (fst (lspLineLoop s (p + 1) (p + 1) a))" using 1(2) [OF True refl _ refl] lf q by simp
      then show ?thesis using goodStarts_break [OF _ 1(5) q] lspLineLoop_step(2) [OF True lf] by simp
    next
      case other
      have "goodStarts s (p + 1) lineStart (fst (lspLineLoop s (p + 1) lineStart a))"
        using 1(3) [OF True refl _ refl] other True 1(5,7) runeBoundary_ascii [of s p] by simp
      then show ?thesis using goodStarts_later lspLineLoop_step(3) [OF True other] by simp
    next
      case multi
      let ?q = "p + snd (decodeRune (drop p s))"
      have q: "p < ?q" "?q \<le> length s" "runeBoundary s ?q"
        using True decodeRune_size_pos [of "drop p s"] decodeRune_size_le [of "drop p s"] runeBoundary_next [OF 1(7) True] by auto
      have "goodStarts s ?q lineStart (fst (lspLineLoop s ?q lineStart False))" using 1(4) [OF True refl multi] q 1(5) by simp
      then show ?thesis using goodStarts_later [of s ?q lineStart _ p] q(1) lspLineLoop_step(4) [OF True multi] by simp
    qed
  qed
qed

lemma LineStarts_good:
  "\<exists>rest. LineStarts (ComputeLSPLineStarts s) = 0 # rest \<and> sorted_wrt (<) (LineStarts (ComputeLSPLineStarts s))
    \<and> (\<forall>x\<in>set (LineStarts (ComputeLSPLineStarts s)). x \<le> length s \<and> runeBoundary s x)"
proof -
  have "runeBoundary s 0" by (simp add: runeBoundary.simps)
  then have "goodStarts s 0 0 (LineStarts (ComputeLSPLineStarts s))"
    using lspLineLoop_good [of 0 0 s True] by (cases "lspLineLoop s 0 0 True") (simp add: ComputeLSPLineStarts_def)
  then show ?thesis using \<open>runeBoundary s 0\<close> by (auto simp: goodStarts_def)
qed

lemma sortSearch_starts:
  assumes "sorted_wrt (<) starts" "starts = 0 # rest"
  obtains l where "l < length starts" "starts ! l \<le> p" "\<forall>j. l < j \<and> j < length starts \<longrightarrow> p < starts ! j"
    "BinarySearchFunc starts (int p) (\<lambda>p t. cmpCompare (int p) t) = (if starts ! l = p then (l, True) else (l + 1, False))"
proof -
  let ?f = "\<lambda>h. cmpCompare (int (starts ! h)) (int p) \<ge> 0"
  have f: "?f h \<longleftrightarrow> p \<le> starts ! h" for h by (simp add: cmpCompare_def)
  have mono: "starts ! a < starts ! b" if "a < b" "b < length starts" for a b using sorted_wrt_nth_less [OF assms(1) that] .
  define i where "i = sortSearch (length starts) ?f"
  have i: "i \<le> length starts" "\<forall>a<i. \<not> ?f a" "\<forall>b. i \<le> b \<and> b < length starts \<longrightarrow> ?f b"
    using sortSearch_first [of "length starts" ?f] mono unfolding i_def f by (metis le_trans less_imp_le le_neq_implies_less)+
  have r: "BinarySearchFunc starts (int p) (\<lambda>p t. cmpCompare (int p) t) = (i, i < length starts \<and> starts ! i = p)"
    by (auto simp: BinarySearchFunc_def i_def Let_def cmpCompare_def)
  show thesis
  proof (cases "i < length starts \<and> starts ! i = p")
    case True
    then show thesis using that [of i] r mono by auto
  next
    case False
    have "i \<noteq> 0" using False assms(2) i(3) f by (cases i) auto
    then obtain l where l: "i = Suc l" by (cases i) auto
    have "starts ! l < p" using i(2) f l by (simp add: not_le)
    moreover have "p < starts ! j" if "l < j" "j < length starts" for j
    proof -
      have "p \<le> starts ! j" using i(3) f l that by simp
      moreover have "p \<le> starts ! i" using i(3) f l that by simp
      moreover have "j = i \<or> starts ! i < starts ! j" using l that mono [of i j] by fastforce
      ultimately show ?thesis using False that(2) by fastforce
    qed
    ultimately show thesis using that [of l] r l i(1) False by auto
  qed
qed

section \<open>The scan of a line\<close>

lemma utf16RuneLen_le: "s \<noteq> [] \<Longrightarrow> utf16RuneLen (fst (decodeRune s)) \<le> int (snd (decodeRune s))"
proof (cases "snd (decodeRune s) = 1")
  case True
  assume "s \<noteq> []"
  then have "fst (decodeRune s) < 0x10000"
    using True by (cases s) (auto simp: decodeRune_def decode2_def decode3_def decode4_def RuneError_def Let_def split: if_splits list.splits)
  then show ?thesis using True by (simp add: utf16RuneLen_def)
next
  case False
  assume "s \<noteq> []"
  then have "2 \<le> snd (decodeRune s)" using False decodeRune_size_pos [of s] by simp
  then show ?thesis by (simp add: utf16RuneLen_def)
qed

lemma UTF16Len_le: "runeBoundary s k \<Longrightarrow> UTF16Len (take k s) \<le> int k"
proof (induction s k rule: runeBoundary.induct)
  case (1 s k)
  show ?case
  proof (cases "k = 0")
    case False
    have b: "s \<noteq> []" "snd (decodeRune s) \<le> k" "runeBoundary (drop (snd (decodeRune s)) s) (k - snd (decodeRune s))"
      using 1(2) False by (auto simp: runeBoundary.simps [of s k] split: if_splits)
    show ?thesis using UTF16Len_step [OF b(1,2)] utf16RuneLen_le [OF b(1)] 1(1) [OF False b(1) b(3)] b(2) by simp
  qed simp
qed

lemma lspScan_boundary:
  assumes "runeBoundary t k" "t = drop p s" "p + k \<le> end" "p \<le> length s" "n + UTF16Len (take k t) = char"
  shows "lspScan s end char p n = Inr (p + k)"
  using assms
proof (induction t k arbitrary: p n rule: runeBoundary.induct)
  case (1 t k)
  show ?case
  proof (cases "k = 0")
    case True
    then show ?thesis using 1(5,6) utf16RuneLen_pos [of "drop p s"] by (subst lspScan.simps) simp
  next
    case False
    let ?sz = "snd (decodeRune t)"
    have b: "t \<noteq> []" "?sz \<le> k" "runeBoundary (drop ?sz t) (k - ?sz)"
      using 1(2) False by (auto simp: runeBoundary.simps [of t k] split: if_splits)
    have len: "UTF16Len (take k t) = utf16RuneLen (fst (decodeRune t)) + UTF16Len (take (k - ?sz) (drop ?sz t))"
      by (rule UTF16Len_step [OF b(1,2)])
    have "\<not> n + utf16RuneLen (fst (decodeRune t)) > char" using len UTF16Len_nonneg [of "take (k - ?sz) (drop ?sz t)"] 1(6) by simp
    moreover have "p < end" using 1(4) False by simp
    ultimately have "lspScan s end char p n = lspScan s end char (p + ?sz) (n + utf16RuneLen (fst (decodeRune t)))"
      using 1(3,5) by (subst lspScan.simps) simp
    also have "\<dots> = Inr (p + ?sz + (k - ?sz))"
    proof (rule 1(1) [OF False b(1) b(3)])
      show "drop ?sz t = drop (p + ?sz) s" using 1(3) by (simp add: add.commute)
      show "p + ?sz \<le> length s" using decodeRune_size_le [of t] 1(3,5) by auto
    qed (use 1(4,6) len b(2) in simp_all)
    finally show ?thesis using b(2) by simp
  qed
qed


section \<open>Texts of ASCII bytes\<close>

lemma lspLineLoop_ascii: "snd (lspLineLoop s p lineStart a) \<Longrightarrow> a \<and> (\<forall>c\<in>set (drop p s). byte_of c < 0x80)"
proof (induction s p lineStart a rule: lspLineLoop.induct)
  case (1 s p lineStart a)
  show ?case
  proof (cases "p < length s")
    case False
    then show ?thesis using 1(5) by (subst (asm) lspLineLoop.simps) simp
  next
    case True
    let ?b = "byte_of (s ! p)"
    have d: "drop p s = s ! p # drop (p + 1) s" using True by (simp add: Cons_nth_drop_Suc)
    consider (cr) "?b = 13" | (lf) "?b = 10" | (other) "?b < 0x80" "?b \<noteq> 13" "?b \<noteq> 10" | (multi) "\<not> ?b < 0x80" by force
    then show ?thesis
    proof cases
      case cr
      let ?q = "afterBreak s p"
      have "a \<and> (\<forall>c\<in>set (drop ?q s). byte_of c < 0x80)"
        using 1(1) [OF True refl _ refl _ afterBreak_def] 1(5) cr lspLineLoop_step(1) [OF True cr] by simp
      moreover have "drop (p + 1) s = drop ?q s \<or> (\<exists>c. drop (p + 1) s = c # drop ?q s \<and> byte_of c = 10)"
        by (auto simp: afterBreak_def Cons_nth_drop_Suc)
      ultimately show ?thesis using d cr by auto
    next
      case lf
      then show ?thesis using 1(2) [OF True refl _ refl] 1(5) d lspLineLoop_step(2) [OF True lf] by simp
    next
      case other
      then show ?thesis using 1(3) [OF True refl _ refl] 1(5) d lspLineLoop_step(3) [OF True other] by simp
    next
      case multi
      then show ?thesis using 1(4) [OF True refl multi] 1(5) lspLineLoop_step(4) [OF True multi] by simp
    qed
  qed
qed

lemma AsciiOnly_bytes: "AsciiOnly (ComputeLSPLineStarts s) \<Longrightarrow> \<forall>c\<in>set s. byte_of c < 0x80"
  using lspLineLoop_ascii [of s 0 0 True] by (cases "lspLineLoop s 0 0 True") (simp add: ComputeLSPLineStarts_def)

lemma ascii_runes:
  assumes "\<forall>c\<in>set s. byte_of c < 0x80" "k \<le> length s"
  shows "runeBoundary s k \<and> UTF16Len (take k s) = int k"
  using assms
proof (induction s arbitrary: k)
  case Nil
  then show ?case by (simp add: runeBoundary.simps)
next
  case (Cons c s)
  have z: "decodeRune (c # s) = (byte_of c, 1)" "utf16RuneLen (byte_of c) = 1" using Cons.prems by (simp_all add: decodeRune_def Let_def utf16RuneLen_def)
  show ?case
  proof (cases k)
    case (Suc j)
    then have "runeBoundary s j \<and> UTF16Len (take j s) = int j" using Cons by simp
    then show ?thesis using UTF16Len_step [of "c # s" k] z Suc by (subst runeBoundary.simps) simp
  qed (simp add: runeBoundary.simps)
qed

lemma ascii_line_units:
  assumes "AsciiOnly (ComputeLSPLineStarts s)" "p \<le> length s"
  shows "UTF16Len (slice s start p) = int (p - start)"
proof -
  have "\<forall>x\<in>set (drop start s). byte_of x < 0x80" using assms(1) AsciiOnly_bytes [of s] by (blast dest: in_set_dropD)
  then show ?thesis using ascii_runes assms(2) by (simp add: slice_def)
qed

section \<open>Positions there and back\<close>

lemma textPos_small: "- (2 ^ 31) \<le> x \<Longrightarrow> x < 2 ^ 31 \<Longrightarrow> textPos x = x"
  by (simp add: textPos_def signed_take_bit_int_eq_self)

lemma textPos_wrap: "2 ^ 31 \<le> x \<Longrightarrow> x < 2 ^ 32 \<Longrightarrow> textPos x = x - 2 ^ 32"
proof -
  assume x: "2 ^ 31 \<le> x" "x < 2 ^ 32"
  have "textPos x = (x + 2 ^ 31) mod 2 ^ 32 - 2 ^ 31" by (simp add: textPos_def signed_take_bit_eq_take_bit_shift take_bit_eq_mod)
  also have "(x + 2 ^ 31) mod 2 ^ 32 = (x - 2 ^ 31) mod 2 ^ 32" using mod_add_self2 [of "x - 2 ^ 31" "2 ^ 32 :: int"] by (simp add: add.commute)
  finally show ?thesis using x by simp
qed

lemma uint32_int: "n < 2 ^ 32 \<Longrightarrow> uint32 (int n) = n"
  by (simp add: uint32_def)

definition lineEndOf :: "string \<Rightarrow> nat list \<Rightarrow> nat \<Rightarrow> nat" where
  "lineEndOf s starts l = (if l + 1 < length starts then starts ! (l + 1) else length s)"

lemma line_starts_count: "sorted_wrt (<) (starts :: nat list) \<Longrightarrow> \<forall>x\<in>set starts. x \<le> n \<Longrightarrow> length starts \<le> n + 1"
proof -
  assume "sorted_wrt (<) starts" "\<forall>x\<in>set starts. x \<le> n"
  then have "card (set starts) = length starts" "set starts \<subseteq> {..n}" by (auto intro: distinct_card simp: strict_sorted_iff)
  then show ?thesis using card_mono [of "{..n}" "set starts"] by simp
qed

lemma PositionToLineAndCharacter_line:
  assumes map: "getLineMap c (FileName script) = ComputeLSPLineStarts (Text script)"
    and len: "length (Text script) < 2 ^ 31" and p: "p \<le> length (Text script)"
    and enc: "positionEncoding c = EncodingUTF8 \<or> runeBoundary (Text script) p"
  obtains l where "l < length (LineStarts (ComputeLSPLineStarts (Text script)))" "LineStarts (ComputeLSPLineStarts (Text script)) ! l \<le> p"
    "\<forall>j. l < j \<and> j < length (LineStarts (ComputeLSPLineStarts (Text script))) \<longrightarrow> p < LineStarts (ComputeLSPLineStarts (Text script)) ! j"
    "PositionToLineAndCharacter c script (int p) = Inr (l,
       if positionEncoding c = EncodingUTF8 then p - LineStarts (ComputeLSPLineStarts (Text script)) ! l
       else nat (UTF16Len (slice (Text script) (LineStarts (ComputeLSPLineStarts (Text script)) ! l) p)))"
proof -
  let ?s = "Text script" and ?t = "LineStarts (ComputeLSPLineStarts (Text script))"
  obtain rest where t: "?t = 0 # rest" "sorted_wrt (<) ?t" "\<forall>x\<in>set ?t. x \<le> length ?s \<and> runeBoundary ?s x" using LineStarts_good by blast
  obtain l where l: "l < length ?t" "?t ! l \<le> p" "\<forall>j. l < j \<and> j < length ?t \<longrightarrow> p < ?t ! j"
      "BinarySearchFunc ?t (int p) (\<lambda>p t. cmpCompare (int p) t) = (if ?t ! l = p then (l, True) else (l + 1, False))"
    using sortSearch_starts [OF t(2,1)] by blast
  have small: "l < 2 ^ 32" using line_starts_count [OF t(2), of "length ?s"] t(3) l(1) len by auto
  let ?u = "take (p - ?t ! l) (drop (?t ! l) ?s)"
  have pos: "max 0 (min (int p) (textPos (int (length ?s)))) = int p" using len p by (simp add: textPos_small)
  have sl: "sliceOf ?s (int (?t ! l)) (int p) = Inr ?u" using l(2) p by (simp add: sliceOf_def slice_def)
  have line: "(case (if ?t ! l = p then (l, True) else (l + 1, False)) of (line0, isLineStart) \<Rightarrow>
      max 0 (min (if \<not> isLineStart then int line0 - 1 else int line0) (int (length ?t) - 1))) = int l" using l(1) by auto
  define character where "character = (if positionEncoding c = EncodingUTF8 then p - ?t ! l else nat (UTF16Len ?u))"
  have bound: "positionEncoding c \<noteq> EncodingUTF8 \<Longrightarrow> runeBoundary (drop (?t ! l) ?s) (p - ?t ! l)"
    using enc t(3) l(1,2) runeBoundary_add [of ?s "?t ! l" "p - ?t ! l"] by simp
  have c1: "int p - int (?t ! l) = int character" if fast: "AsciiOnly (ComputeLSPLineStarts ?s) \<or> positionEncoding c = EncodingUTF8"
    using fast ascii_line_units [of ?s p "?t ! l"] p l(2) by (auto simp: character_def slice_def)
  have c2: "positionEncoding c \<noteq> EncodingUTF8 \<Longrightarrow> UTF16Len ?u = int character" using UTF16Len_nonneg by (simp add: character_def)
  have "character \<le> p" using UTF16Len_le [OF bound] by (auto simp: character_def)
  then have ch: "textPos (int character) = int character" "uint32 (int character) = character" using p len by (simp_all add: textPos_small uint32_int)
  have "PositionToLineAndCharacter c script (int p) = Inr (l, character)"
    unfolding PositionToLineAndCharacter_def Let_def map pos l(4)
    using l(1) sl c1 c2 ch small
    by (auto simp: lineStartOf_def bind_panic_def UTF16Len_runes [symmetric] uint32_int)
  then show thesis using that [OF l(1-3)] by (simp add: character_def slice_def)
qed

lemma LineAndCharacterToPosition_line:
  assumes map: "getLineMap c (FileName script) = ComputeLSPLineStarts (Text script)"
    and len: "length (Text script) < 2 ^ 31"
    and l: "l < length (LineStarts (ComputeLSPLineStarts (Text script)))"
    and t: "t = LineStarts (ComputeLSPLineStarts (Text script))"
  shows "LineAndCharacterToPosition c script (l, ch) =
    (if AsciiOnly (ComputeLSPLineStarts (Text script)) \<or> positionEncoding c = EncodingUTF8
     then Inr (max (int (t ! l)) (min (textPos (int (t ! l) + textPos (int ch))) (int (lineEndOf (Text script) t l))))
     else bind_panic (lspScan (Text script) (lineEndOf (Text script) t l) (textPos (int ch)) (t ! l) 0) (\<lambda>p. Inr (textPos (int p))))"
proof -
  obtain rest where g: "t = 0 # rest" "sorted_wrt (<) t" "\<forall>x\<in>set t. x \<le> length (Text script) \<and> runeBoundary (Text script) x"
    using LineStarts_good t by blast
  have "l < 2 ^ 31" using line_starts_count [OF g(2), of "length (Text script)"] g(3) l len t by auto
  then have i: "textPos (int l) = int l" "textPos (int (length (Text script))) = int (length (Text script))"
    using len by (simp_all add: textPos_small)
  have lt: "l < length t" using l t by simp
  have e: "(if int l + 1 < int (length t) then int (t ! nat (int l + 1)) else int (length (Text script))) = int (lineEndOf (Text script) t l)"
    by (auto simp: lineEndOf_def nat_add_distrib)
  show ?thesis
    unfolding LineAndCharacterToPosition_def Let_def map fst_conv snd_conv i t [symmetric] e
    using lt by (simp add: lineStartOf_def bind_panic_def)
qed

lemma lsp_there_and_back:
  assumes "getLineMap c (FileName script) = ComputeLSPLineStarts (Text script)" "length (Text script) < 2 ^ 31" "p \<le> length (Text script)"
    and "positionEncoding c = EncodingUTF8 \<or> runeBoundary (Text script) p"
  shows "\<exists>line character start. PositionToLineAndCharacter c script (int p) = Inr (line, character)
    \<and> LineAndCharacterToPosition c script (line, character) = Inr (int p)
    \<and> line < length (LineStarts (ComputeLSPLineStarts (Text script))) \<and> start = LineStarts (ComputeLSPLineStarts (Text script)) ! line
    \<and> start \<le> p \<and> p \<le> lineEndOf (Text script) (LineStarts (ComputeLSPLineStarts (Text script))) line
    \<and> int character = (if positionEncoding c = EncodingUTF8 then int (p - start) else UTF16Len (slice (Text script) start p))"
proof -
  let ?s = "Text script" and ?t = "LineStarts (ComputeLSPLineStarts (Text script))"
  obtain l where l: "l < length ?t" "?t ! l \<le> p" "\<forall>j. l < j \<and> j < length ?t \<longrightarrow> p < ?t ! j"
      and r: "PositionToLineAndCharacter c script (int p) = Inr (l, if positionEncoding c = EncodingUTF8 then p - ?t ! l else nat (UTF16Len (slice ?s (?t ! l) p)))"
    using PositionToLineAndCharacter_line [OF assms] by blast
  define ch where "ch = (if positionEncoding c = EncodingUTF8 then p - ?t ! l else nat (UTF16Len (slice ?s (?t ! l) p)))"
  have int_ch: "int ch = (if positionEncoding c = EncodingUTF8 then int (p - ?t ! l) else UTF16Len (slice ?s (?t ! l) p))"
    using UTF16Len_nonneg by (simp add: ch_def)
  have inside: "p \<le> lineEndOf ?s ?t l" using l(3) assms(3) by (auto simp: lineEndOf_def intro: less_imp_le)
  have good: "runeBoundary ?s (?t ! l)" using LineStarts_good [of ?s] l(1) nth_mem by blast
  have bound: "runeBoundary (drop (?t ! l) ?s) (p - ?t ! l)" if "positionEncoding c \<noteq> EncodingUTF8"
    using that assms(4) good l(2) runeBoundary_add [of ?s "?t ! l" "p - ?t ! l"] by simp
  have "ch \<le> p" using UTF16Len_le [OF bound] by (auto simp: ch_def slice_def)
  then have small: "textPos (int ch) = int ch" using assms(2,3) by (simp add: textPos_small)
  have fast: "int (?t ! l) + int ch = int p" if "AsciiOnly (ComputeLSPLineStarts ?s) \<or> positionEncoding c = EncodingUTF8"
    using that ascii_line_units [of ?s p "?t ! l"] assms(3) l(2) int_ch by (auto split: if_splits)
  have scan: "lspScan ?s (lineEndOf ?s ?t l) (int ch) (?t ! l) 0 = Inr (?t ! l + (p - ?t ! l))" if "positionEncoding c \<noteq> EncodingUTF8"
    using bound [OF that] inside l(2) assms(3) int_ch that by (intro lspScan_boundary [OF _ refl]) (auto simp: slice_def)
  have "textPos (int p) = int p" using assms(2,3) by (simp add: textPos_small)
  then have "LineAndCharacterToPosition c script (l, ch) = Inr (int p)"
    using fast scan l(2) inside by (auto simp: LineAndCharacterToPosition_line [OF assms(1,2) l(1) refl] small bind_panic_def)
  then show ?thesis using r l(1,2) inside int_ch unfolding ch_def by blast
qed





text \<open>Characters behind the end of a line, in bytes or in an ASCII text: the answer is the end of the line, as the protocol has it, as
  long as the start of the line and the character add up to less than 2^31. From there on the 32-bit sum wraps and the answer is the start
  of the line: the greatest number of the protocol, 2^31 - 1, means the start of the line on every line but the first.\<close>

theorem lsp_character_clamp:
  assumes "getLineMap c (FileName script) = ComputeLSPLineStarts (Text script)" "length (Text script) < 2 ^ 31"
    and "AsciiOnly (ComputeLSPLineStarts (Text script)) \<or> positionEncoding c = EncodingUTF8"
    and "line < length (LineStarts (ComputeLSPLineStarts (Text script)))" "start = LineStarts (ComputeLSPLineStarts (Text script)) ! line" "ch < 2 ^ 31"
  shows "LineAndCharacterToPosition c script (line, ch) = Inr (int
    (if start + ch < 2 ^ 31 then min (start + ch) (lineEndOf (Text script) (LineStarts (ComputeLSPLineStarts (Text script))) line) else start))"
proof -
  let ?t = "LineStarts (ComputeLSPLineStarts (Text script))"
  obtain rest where g: "?t = 0 # rest" "sorted_wrt (<) ?t" "\<forall>x\<in>set ?t. x \<le> length (Text script) \<and> runeBoundary (Text script) x" using LineStarts_good by blast
  have start: "start \<le> length (Text script)" using g(3) assms(4,5) by simp
  have "start \<le> lineEndOf (Text script) ?t line"
    using sorted_wrt_nth_less [OF g(2), of line "line + 1"] assms(5) start by (auto simp: lineEndOf_def)
  moreover have "textPos (int start + textPos (int ch)) = (if start + ch < 2 ^ 31 then int (start + ch) else int (start + ch) - 2 ^ 32)"
    using start assms(2,6) textPos_wrap [of "int (start + ch)"] by (simp add: textPos_small)
  moreover have "int (start + ch) - 2 ^ 32 \<le> int start" using assms(6) by simp
  ultimately show ?thesis
    using assms(3) unfolding LineAndCharacterToPosition_line [OF assms(1,2,4) refl] assms(5) by (auto simp: max_def min_def)
qed

theorem lsp_character_clamp_witness:
  "LineAndCharacterToPosition \<lparr>getLineMap = \<lambda>_. ComputeLSPLineStarts [CHR ''a'', CHR 0x0A, CHR ''b'', CHR ''c''], positionEncoding = EncodingUTF16\<rparr>
      \<lparr>FileName = ''/a.ts'', Text = [CHR ''a'', CHR 0x0A, CHR ''b'', CHR ''c'']\<rparr> (1, 2147483645) = Inr 4
   \<and> LineAndCharacterToPosition \<lparr>getLineMap = \<lambda>_. ComputeLSPLineStarts [CHR ''a'', CHR 0x0A, CHR ''b'', CHR ''c''], positionEncoding = EncodingUTF16\<rparr>
      \<lparr>FileName = ''/a.ts'', Text = [CHR ''a'', CHR 0x0A, CHR ''b'', CHR ''c'']\<rparr> (1, 2147483647) = Inr 2"
proof -
  let ?s = "[CHR ''a'', CHR 0x0A, CHR ''b'', CHR ''c'']"
  let ?c = "\<lparr>getLineMap = \<lambda>_. ComputeLSPLineStarts ?s, positionEncoding = EncodingUTF16\<rparr>" and ?f = "\<lparr>FileName = ''/a.ts'', Text = ?s\<rparr>"
  have m: "ComputeLSPLineStarts ?s = \<lparr>LineStarts = [0, 2], AsciiOnly = True\<rparr>"
    by (simp add: ComputeLSPLineStarts_def lspLineLoop.simps Let_def)
  have h: "getLineMap ?c (FileName ?f) = ComputeLSPLineStarts (Text ?f)" "length (Text ?f) < 2 ^ 31"
      "AsciiOnly (ComputeLSPLineStarts (Text ?f)) \<or> positionEncoding ?c = EncodingUTF8" "1 < length (LineStarts (ComputeLSPLineStarts (Text ?f)))"
      "2 = LineStarts (ComputeLSPLineStarts (Text ?f)) ! 1" "lineEndOf (Text ?f) (LineStarts (ComputeLSPLineStarts (Text ?f))) 1 = 4"
    by (simp_all add: m lineEndOf_def)
  show ?thesis
  proof
    show "LineAndCharacterToPosition ?c ?f (1, 2147483645) = Inr 4"
      using lsp_character_clamp [OF h(1-5), of 2147483645] unfolding h(6) by simp
    show "LineAndCharacterToPosition ?c ?f (1, 2147483647) = Inr 2"
      using lsp_character_clamp [OF h(1-5), of 2147483647] unfolding h(6) by simp
  qed
qed

text \<open>Ranges and text changes convert end by end.\<close>

theorem lsp_range_roundtrip:
  assumes "getLineMap c (FileName script) = ComputeLSPLineStarts (Text script)" "length (Text script) < 2 ^ 31"
    and "p \<le> length (Text script)" "positionEncoding c = EncodingUTF8 \<or> runeBoundary (Text script) p"
    and "q \<le> length (Text script)" "positionEncoding c = EncodingUTF8 \<or> runeBoundary (Text script) q"
  shows "\<exists>rng. ToLSPRange c script \<lparr>tr_pos = int p, tr_end = int q\<rparr> = Inr rng
    \<and> FromLSPRange c script rng = Inr \<lparr>tr_pos = int p, tr_end = int q\<rparr>
    \<and> FromLSPTextChange c script rng t = Inr \<lparr>tc_range = \<lparr>tr_pos = int p, tr_end = int q\<rparr>, NewText = t\<rparr>"
proof -
  obtain a b where a: "PositionToLineAndCharacter c script (int p) = Inr a" "LineAndCharacterToPosition c script a = Inr (int p)"
      and b: "PositionToLineAndCharacter c script (int q) = Inr b" "LineAndCharacterToPosition c script b = Inr (int q)"
    using lsp_there_and_back [OF assms(1,2)] assms(3-6) by metis
  have "textPos (int p) = int p" "textPos (int q) = int q" using assms(2,3,5) by (simp_all add: textPos_small)
  then show ?thesis
    using a b by (intro exI [of _ "(a, b)"])
      (simp add: ToLSPRange_def FromLSPRange_def FromLSPTextChange_def TextRange_Pos_def TextRange_End_def NewTextRange_def bind_panic_def)
qed

end
