(* ===== verification/LsUri_Props.thy ===== *)
theory LsUri_Props
  imports LsUri
begin

text \<open>
  File names and document URIs there and back: names of every byte, on a volume, on a server and of virtual files. A server name that
  needs an escape breaks the way back.
\<close>

section \<open>Escapes and their inverse\<close>

definition uriByte :: "char \<Rightarrow> string" where
  \<comment> \<open>a byte of a path segment after both escapes\<close>
  "uriByte c = (if isUnreserved c then [c] else percentByte c)"

lemma hex_digits: "list_all (\<lambda>n. unhex (upperhex ! n) = n \<and> ishex (upperhex ! n) \<and> isUnreserved (upperhex ! n)) [0..<16]"
  by code_simp

lemma hex_digit: "n < 16 \<Longrightarrow> unhex (upperhex ! n) = n \<and> ishex (upperhex ! n) \<and> isUnreserved (upperhex ! n)"
  using hex_digits by (simp add: list_all_iff)

definition reservedBytes :: string where
  "reservedBytes = CHR 0x27 # CHR 0x22 # ''/?#[]@!$&()*+,;:= <>''"

lemma unreserved_plain: "list_all (\<lambda>c. \<not> isUnreserved c) (CHR ''%'' # reservedBytes)"
  by code_simp

lemma unreserved_noteq: "isUnreserved c \<Longrightarrow> c \<noteq> CHR ''%'' \<and> c \<notin> set reservedBytes"
  using unreserved_plain by (auto simp: list_all_iff)

lemma extraEscapes_keys: "list_all (\<lambda>(c, r). c \<in> set reservedBytes) extraEscapes \<and> CHR ''%'' \<notin> set reservedBytes"
  by code_simp

lemma unreserved_extra: "isUnreserved c \<or> c = CHR ''%'' \<Longrightarrow> map_of extraEscapes c = None"
proof -
  assume "isUnreserved c \<or> c = CHR ''%''"
  then have "c \<notin> set reservedBytes" using unreserved_noteq [of c] extraEscapes_keys by blast
  then have "c \<notin> fst ` set extraEscapes" using extraEscapes_keys by (auto simp: list_all_iff)
  then show ?thesis by (simp add: map_of_eq_None_iff)
qed

lemma div16: "byte_of c div 16 < 16" "byte_of c mod 16 < (16::nat)"
proof -
  have "byte_of c < 256" using rangeI [of "of_char :: char \<Rightarrow> nat" c] unfolding range_nat_of_char by simp
  then show "byte_of c div 16 < 16" by (intro less_mult_imp_div_less) simp
qed simp

lemma extraEscape_append: "extraEscape (s @ t) = extraEscape s @ extraEscape t"
  by (simp add: extraEscape_def)

lemma extraEscape_percent: "extraEscape (percentByte c) = percentByte c"
  using hex_digit [OF div16(1)] hex_digit [OF div16(2)] by (simp add: extraEscape_def percentByte_def unreserved_extra)

lemma extra_is_percent: "list_all (\<lambda>c. map_of extraEscapes c = Some (percentByte c)) ''$&+:=@''"
  by code_simp

lemma extraEscape_byte: "extraEscape (if isUnreserved c \<or> c \<in> set ''$&+:=@'' then [c] else percentByte c) = uriByte c"
proof (cases "isUnreserved c")
  case True
  then show ?thesis by (simp add: extraEscape_def uriByte_def unreserved_extra)
next
  case False
  show ?thesis
  proof (cases "c \<in> set ''$&+:=@''")
    case True
    then have "map_of extraEscapes c = Some (percentByte c)" using extra_is_percent unfolding list_all_iff by blast
    then show ?thesis using True False by (simp add: extraEscape_def uriByte_def)
  qed (use False in \<open>simp add: uriByte_def extraEscape_percent\<close>)
qed

lemma escaped_part: "extraEscape (PathEscape s) = concat (map uriByte s)"
proof (induction s)
  case Nil
  show ?case by (simp add: extraEscape_def PathEscape_def)
next
  case (Cons c s)
  then show ?case using extraEscape_byte [of c] by (simp add: PathEscape_def extraEscape_append)
qed

definition pathByte :: "char \<Rightarrow> string" where
  "pathByte c = (if c = slash_char then [c] else uriByte c)"

lemma escaped_path: "strJoin ''/'' (map (\<lambda>part. extraEscape (PathEscape part)) (strSplit slash_char s)) = concat (map pathByte s)"
proof (induction s)
  case Nil
  show ?case by (simp add: escaped_part)
next
  case (Cons c s)
  obtain x xs where x: "strSplit slash_char s = x # xs" by (cases "strSplit slash_char s") auto
  then show ?case
    using Cons by (cases xs) (auto simp: escaped_part pathByte_def)
qed

lemma unescape_plain: "c \<noteq> CHR ''%'' \<Longrightarrow> \<not> host \<or> hostByte c \<Longrightarrow> unescape host (c # t) = map_option (Cons c) (unescape host t)"
  by auto

lemma unescape_percent:
  assumes "\<not> host \<or> byte_of c \<ge> 0x80"
  shows "unescape host (percentByte c @ t) = map_option (Cons c) (unescape host t)"
proof -
  note h = hex_digit [OF div16(1) [of c]] hex_digit [OF div16(2) [of c]]
  have "(byte_of c div 16) * 16 + byte_of c mod 16 = (byte_of c :: nat)" by presburger
  then have "char_of (unhex (upperhex ! (byte_of c div 16)) * 16 + unhex (upperhex ! (byte_of c mod 16))) = c" using h by simp
  moreover have "host \<Longrightarrow> \<not> unhex (upperhex ! (byte_of c div 16)) < 8" using assms h by (auto simp: not_less)
  ultimately show ?thesis using h by (auto simp: percentByte_def)
qed

lemma unreserved_host: "isUnreserved c \<Longrightarrow> c \<noteq> CHR ''%'' \<and> hostByte c"
  using unreserved_noteq [of c] by (auto simp: hostByte_def)

lemma unescape_pathByte: "unescape False (concat (map pathByte s)) = Some s"
proof (induction s)
  case (Cons c s)
  then show ?case
    using unescape_percent [of False c] unreserved_host [of c] by (auto simp: pathByte_def uriByte_def)
qed simp

lemma unescape_host: "list_all (\<lambda>c. isUnreserved c \<or> byte_of c \<ge> 0x80) s \<Longrightarrow> unescape True (concat (map uriByte s)) = Some s"
proof (induction s)
  case (Cons c s)
  then show ?case
    using unescape_percent [of True c] unreserved_host [of c] by (auto simp: uriByte_def)
qed simp

lemma uriByte_set: "x \<in> set (uriByte c) \<Longrightarrow> isUnreserved x \<or> x = CHR ''%''"
  using hex_digit [OF div16(1) [of c]] hex_digit [OF div16(2) [of c]] by (auto simp: uriByte_def percentByte_def split: if_splits)

lemma pathByte_set: "x \<in> set (concat (map pathByte s)) \<Longrightarrow> isUnreserved x \<or> x = CHR ''%'' \<or> x = slash_char"
  using uriByte_set by (auto simp: pathByte_def split: if_splits)

lemma unreserved_ctl: "isUnreserved c \<Longrightarrow> \<not> (byte_of c < 0x20 \<or> byte_of c = 0x7F)"
  by (auto simp: isUnreserved_def byteIn_def)

section \<open>The URI of a file, parsed\<close>

lemma strCutByte_notin: "sep \<notin> set s \<Longrightarrow> strCutByte s sep = (s, [], False)"
  by (simp add: strCutByte_def strIndexByte_None [THEN iffD2])

lemma strCutByte_append: "sep \<notin> set s \<Longrightarrow> strCutByte (s @ sep # t) sep = (s, t, True)"
  using strIndexByte_append [of sep s t] by (simp add: strCutByte_def)

lemma parse_plain:
  assumes plain: "\<And>x. x \<in> set a \<union> set p \<Longrightarrow> isUnreserved x \<or> x = CHR ''%'' \<or> x = slash_char"
    and a: "slash_char \<notin> set a" and p: "p = [] \<or> (\<exists>q. p = slash_char # q)"
  shows "urlParseFile ip (''file://'' @ a @ p) =
    (case unescape True a of None \<Rightarrow> None | Some host \<Rightarrow> (case unescape False p of None \<Rightarrow> None | Some q \<Rightarrow> Some (host, q)))"
proof -
  have out: "x \<notin> set (a @ p)" if "x \<in> {CHR ''#'', CHR ''?'', CHR ''@'', CHR ''['', CHR '':''}" for x
  proof
    assume "x \<in> set (a @ p)"
    then have "x = CHR ''%'' \<or> x = slash_char \<or> x \<notin> set reservedBytes" using plain unreserved_noteq by auto
    then show False using that by (elim insertE) (simp_all add: reservedBytes_def)
  qed
  have ctl: "\<not> list_ex (\<lambda>c. byte_of c < 0x20 \<or> byte_of c = 0x7F) (''file://'' @ a @ p)"
  proof -
    have "\<not> (byte_of x < 0x20 \<or> byte_of x = (0x7F::nat))" if x: "x \<in> set (a @ p)" for x
    proof -
      consider "isUnreserved x" | "x = CHR ''%''" | "x = slash_char" using plain x by auto
      then show ?thesis by cases (use unreserved_ctl in blast, simp_all)
    qed
    then show ?thesis by (simp add: list_ex_iff)
  qed
  have frag: "strCutByte (''file://'' @ a @ p) CHR ''#'' = (''file://'' @ a @ p, [], False)" using out by (intro strCutByte_notin) simp
  have query: "strCutByte (''//'' @ a @ p) CHR ''?'' = (''//'' @ a @ p, [], False)" using out by (intro strCutByte_notin) simp
  have split: "(case strIndexByte (a @ p) slash_char of Some i \<Rightarrow> (take i (a @ p), drop i (a @ p)) | None \<Rightarrow> (a @ p, [])) = (a, p)"
    using p a strIndexByte_append [of slash_char a] by (auto simp: strIndexByte_None [THEN iffD2])
  have host: "parseAuthority ip a = unescape True a"
    using out by (auto simp: parseAuthority_def parseHost_def strLastIndexByte_None [THEN iffD2] strIndexByte_None [THEN iffD2])
  show ?thesis
    unfolding urlParseFile_def frag prod.case using ctl query split
    by (auto simp: host Let_def split: option.splits)
qed

section \<open>There and back\<close>

definition uriServer :: "string \<Rightarrow> bool" where
  \<comment> \<open>the name of a server that can stand in a URI: no ASCII byte of it needs an escape\<close>
  "uriServer h \<longleftrightarrow> h \<noteq> [] \<and> list_all (\<lambda>c. isUnreserved c \<or> byte_of c \<ge> 0x80) h"

definition uriName :: "string \<Rightarrow> bool" where
  \<comment> \<open>the names of files that have a URI of their own\<close>
  "uriName f \<longleftrightarrow>
     (if IsBundled f then True
      else if IsDynamicFileName f then
        let (scheme, rest, ok) = strCutByte (drop 2 f) slash_char; (authority, path, ok') = strCutByte rest slash_char in
        ok \<and> ok' \<and> CHR '':'' \<notin> set scheme \<and> scheme \<noteq> ''file'' \<and> scheme \<noteq> ''bundled''
        \<and> (authority = nulAuthority \<longrightarrow> \<not> strHasPrefix path ''//'')
      else let (volume, rest, ok) = SplitVolumePath f in
        if ok then take 2 f = volume \<and> \<not> strHasPrefix rest ''//''
        else if strHasPrefix f ''//'' then uriServer (fst (strCutByte (drop 2 f) slash_char))
        else strHasPrefix f ''/'' \<and> \<not> snd (snd (SplitVolumePath (drop 1 f))))"

lemma strCutByte_ok: "strCutByte s sep = (a, b, True) \<Longrightarrow> s = a @ sep # b \<and> sep \<notin> set a"
proof -
  assume "strCutByte s sep = (a, b, True)"
  then obtain i where i: "strIndexByte s sep = Some i" "a = take i s" "b = drop (i + 1) s" by (auto simp: strCutByte_def split: option.splits)
  then show ?thesis using strIndexByte_Some [OF i(1)] by (metis Suc_eq_plus1 id_take_nth_drop)
qed

lemma strCutByte_parts:
  obtains h p where "s = h @ p" "slash_char \<notin> set h" "p = [] \<or> (\<exists>q. p = slash_char # q)" "fst (strCutByte s slash_char) = h"
proof (cases "strIndexByte s slash_char")
  case None
  then show thesis using that [of s "[]"] strIndexByte_None [of s slash_char] by (simp add: strCutByte_def)
next
  case (Some i)
  note i = strIndexByte_Some [OF Some]
  then have d: "drop i s = slash_char # drop (Suc i) s" by (metis Cons_nth_drop_Suc)
  show thesis
  proof (rule that [of "take i s" "drop i s"])
    show "drop i s = [] \<or> (\<exists>q. drop i s = slash_char # q)" using d by blast
  qed (use Some i in \<open>simp_all add: strCutByte_def\<close>)
qed

lemma scheme_prefix: "CHR '':'' \<notin> set scheme \<Longrightarrow> CHR '':'' \<notin> set x \<Longrightarrow> strHasPrefix (scheme @ CHR '':'' # t) (x @ CHR '':'' # u) \<Longrightarrow> scheme = x"
proof -
  assume n: "CHR '':'' \<notin> set scheme" "CHR '':'' \<notin> set x" and "strHasPrefix (scheme @ CHR '':'' # t) (x @ CHR '':'' # u)"
  then obtain w where "scheme @ CHR '':'' # t = x @ CHR '':'' # (u @ w)" by (auto simp: strHasPrefix_iff)
  then have "strCutByte (scheme @ CHR '':'' # t) CHR '':'' = strCutByte (x @ CHR '':'' # (u @ w)) CHR '':''" by simp
  then show ?thesis unfolding strCutByte_append [OF n(1)] strCutByte_append [OF n(2)] by simp
qed

lemma dynamic_roundtrip:
  assumes f: "f = ''^/'' @ scheme @ slash_char # authority @ slash_char # path" and n: "slash_char \<notin> set scheme" "slash_char \<notin> set authority"
    and s: "CHR '':'' \<notin> set scheme" "scheme \<noteq> ''file''" "scheme \<noteq> ''bundled''" and nul: "authority = nulAuthority \<Longrightarrow> \<not> strHasPrefix path ''//''"
  shows "\<exists>uri. FileNameToDocumentURI f = Inr uri \<and> DocumentUri_FileName ip uri = Inr f"
proof -
  define rest where "rest = (if authority = nulAuthority then path else ''//'' @ authority @ slash_char # path)"
  have "FileNameToDocumentURI f = Inr (scheme @ CHR '':'' # rest)"
    using f n by (simp add: FileNameToDocumentURI_def IsBundled_def IsDynamicFileName_def strCutByte_append rest_def)
  moreover have "\<not> IsBundled (scheme @ CHR '':'' # rest)" "\<not> strHasPrefix (scheme @ CHR '':'' # rest) ''file://''"
    using s scheme_prefix [of scheme "''bundled''" rest "''///''"] scheme_prefix [of scheme "''file''" rest "''//''"] by (auto simp: IsBundled_def)
  then have "DocumentUri_FileName ip (scheme @ CHR '':'' # rest) = Inr f"
    using s(1) n(2) nul f by (simp add: DocumentUri_FileName_def strCutByte_append strCutPrefix_def rest_def)
  ultimately show ?thesis by blast
qed

lemma file_uri:
  assumes "\<not> IsBundled f" "\<not> IsDynamicFileName f" "SplitVolumePath f = ([], f, False)" "strTrimPrefix f ''//'' = a @ p"
    and "slash_char \<notin> set a" "p = [] \<or> (\<exists>q. p = slash_char # q)"
  shows "\<exists>uri. FileNameToDocumentURI f = Inr uri \<and> DocumentUri_FileName ip uri = (case unescape True (concat (map uriByte a)) of
    None \<Rightarrow> Inl ''invalid file URI'' | Some host \<Rightarrow> Inr (if host \<noteq> [] then ''//'' @ host @ p else fixWindowsURIPath p))"
proof -
  have a: "concat (map pathByte a) = concat (map uriByte a)" using assms(5) by (induction a) (auto simp: pathByte_def)
  let ?a = "concat (map uriByte a)" and ?p = "concat (map pathByte p)"
  have uri: "FileNameToDocumentURI f = Inr (''file://'' @ ?a @ ?p)"
    using assms(1-4) a by (simp add: FileNameToDocumentURI_def escaped_path)
  have "slash_char \<notin> set ?a" using uriByte_set unreserved_noteq [of slash_char] by (fastforce simp: reservedBytes_def)
  moreover have "?p = [] \<or> (\<exists>q. ?p = slash_char # q)" using assms(6) by (auto simp: pathByte_def)
  moreover have "isUnreserved x \<or> x = CHR ''%'' \<or> x = slash_char" if "x \<in> set ?a \<union> set ?p" for x
    using that uriByte_set pathByte_set [of x p] by auto
  ultimately have parse: "urlParseFile ip (''file://'' @ ?a @ ?p) = map_option (\<lambda>host. (host, p)) (unescape True ?a)"
    using parse_plain [of ?a ?p ip] unescape_pathByte [of p] by (simp split: option.splits)
  show ?thesis
    using uri parse by (cases "unescape True ?a") (simp_all add: DocumentUri_FileName_def IsBundled_def)
qed

lemma volume_roundtrip:
  assumes "SplitVolumePath f = (take 2 f, rest, True)" "\<not> strHasPrefix rest ''//''"
  shows "\<exists>uri. FileNameToDocumentURI f = Inr uri \<and> DocumentUri_FileName ip uri = Inr f"
proof -
  obtain c where f: "f = c # CHR '':'' # rest" and c: "IsVolumeCharacter c" "asciiLowerByte c = c"
  proof -
    have "length f \<ge> 2" "IsVolumeCharacter (f ! 0)" "f ! 1 = CHR '':''" "rest = drop 2 f" "map asciiLowerByte (take 2 f) = take 2 f"
      using assms(1) by (auto simp: SplitVolumePath_def split: if_splits)
    then show thesis using that [of "f ! 0"] by (cases f; cases "tl f") auto
  qed
  have u: "isUnreserved c" using c(1) by (auto simp: IsVolumeCharacter_def isUnreserved_def byteIn_def)
  let ?p = "concat (map pathByte (slash_char # f))"
  have colon: "pathByte CHR '':'' = ''%3A''" by code_simp
  have pp: "pathByte c = [c]" "pathByte CHR '':'' = ''%3A''" "pathByte slash_char = ''/''" using u colon by (simp_all add: pathByte_def uriByte_def)
  have vol: "extraEscape [c, CHR '':''] = c # ''%3A''"
    using u unreserved_extra [of c] by (simp add: extraEscape_def) (simp add: extraEscapes_def)
  have nc: "\<not> IsBundled f" "\<not> IsDynamicFileName f"
    using c(1) by (auto simp: f IsBundled_def IsDynamicFileName_def IsVolumeCharacter_def)
  have uri: "FileNameToDocumentURI f = Inr (''file://'' @ [] @ ?p)"
    using nc assms vol pp by (simp add: FileNameToDocumentURI_def escaped_path strTrimPrefix_def) (simp add: f pp)
  have parse: "urlParseFile ip (''file://'' @ [] @ ?p) = Some ([], slash_char # f)"
    using parse_plain [of "[]" ?p ip] pathByte_set [of _ "slash_char # f"] unescape_pathByte [of "slash_char # f"] by (auto simp: pathByte_def)
  have "fixWindowsURIPath (slash_char # f) = f" using assms(1) by (simp add: fixWindowsURIPath_def strCutPrefix_def) (simp add: f)
  then have "DocumentUri_FileName ip (''file://'' @ [] @ ?p) = Inr f"
    unfolding DocumentUri_FileName_def parse by (simp add: IsBundled_def)
  then show ?thesis using uri by blast
qed

text \<open>C27. The URI that FileNameToDocumentURI makes of a file name gives the name back, byte for byte: for absolute names that begin with one
  slash and have no volume behind it, names on a volume in lower case without two slashes behind it, names on a server none of whose ASCII bytes needs an escape,
  virtual names (\<open>^/scheme/authority/path\<close>) whose scheme has no colon and is neither \<open>file\<close> nor \<open>bundled\<close> and whose path, under \<open>ts-nul-authority\<close>, does not begin
  with two slashes, and the bundled libraries.
  Every escape of Go's PathEscape and of the extra replacer is undone by Go's Parse, whatever bytes the name has.\<close>

theorem uri_roundtrip:
  assumes "uriName f"
  shows "\<exists>uri. FileNameToDocumentURI f = Inr uri \<and> DocumentUri_FileName ip uri = Inr f"
proof -
  consider (bundled) "IsBundled f" | (dynamic) "\<not> IsBundled f" "IsDynamicFileName f" | (disk) "\<not> IsBundled f" "\<not> IsDynamicFileName f" by blast
  then show ?thesis
  proof cases
    case bundled
    then show ?thesis by (simp add: FileNameToDocumentURI_def DocumentUri_FileName_def)
  next
    case dynamic
    obtain scheme rest ok authority path ok' where cut: "strCutByte (drop 2 f) slash_char = (scheme, rest, ok)" "strCutByte rest slash_char = (authority, path, ok')"
      by (metis prod_cases3)
    then have ok: "ok" "ok'" "CHR '':'' \<notin> set scheme" "scheme \<noteq> ''file''" "scheme \<noteq> ''bundled''" "authority = nulAuthority \<longrightarrow> \<not> strHasPrefix path ''//''"
      using assms dynamic by (simp_all add: uriName_def)
    have "drop 2 f = scheme @ slash_char # rest" "slash_char \<notin> set scheme" "rest = authority @ slash_char # path" "slash_char \<notin> set authority"
      using strCutByte_ok [of "drop 2 f" slash_char scheme rest] strCutByte_ok [of rest slash_char authority path] cut ok(1,2) by simp_all
    moreover have "f = ''^/'' @ drop 2 f" using dynamic(2) by (auto simp: IsDynamicFileName_def strHasPrefix_iff)
    ultimately show ?thesis using dynamic_roundtrip [of f scheme authority path ip] ok by simp
  next
    case disk
    obtain volume rest ok where v: "SplitVolumePath f = (volume, rest, ok)" by (metis prod_cases3)
    show ?thesis
    proof (cases ok)
      case True
      then show ?thesis using volume_roundtrip [of f rest ip] assms disk v by (simp add: uriName_def)
    next
      case False
      then have nv: "SplitVolumePath f = ([], f, False)" using v by (auto simp: SplitVolumePath_def split: if_splits)
      show ?thesis
      proof (cases "strHasPrefix f ''//''")
        case True
        obtain h p where h: "drop 2 f = h @ p" "slash_char \<notin> set h" "p = [] \<or> (\<exists>q. p = slash_char # q)" "fst (strCutByte (drop 2 f) slash_char) = h"
          by (rule strCutByte_parts)
        have srv: "uriServer h" using assms disk nv True h(4) by (simp add: uriName_def)
        have "f = ''//'' @ h @ p" "strTrimPrefix f ''//'' = h @ p" using True h(1) by (auto simp: strHasPrefix_iff strTrimPrefix_def)
        then show ?thesis using file_uri [OF disk nv _ h(2,3)] unescape_host [of h] srv by (simp add: uriServer_def)
      next
        case False
        then have "strHasPrefix f ''/''" "\<not> snd (snd (SplitVolumePath (drop 1 f)))" using assms disk nv by (simp_all add: uriName_def)
        moreover from this obtain g where g: "f = slash_char # g" by (auto simp: strHasPrefix_iff)
        ultimately have "fixWindowsURIPath f = f" by (cases "SplitVolumePath g") (simp add: fixWindowsURIPath_def strCutPrefix_def)
        then show ?thesis using file_uri [OF disk nv, of "[]" f] False g by (simp add: strTrimPrefix_def)
      qed
    qed
  qed
qed

theorem uri_roundtrip_witness:
  "\<exists>uri. FileNameToDocumentURI ''c:/a b/x#.ts'' = Inr uri \<and> DocumentUri_FileName (\<lambda>_. None) uri = Inr ''c:/a b/x#.ts''"
proof -
  have "uriName ''c:/a b/x#.ts''" by code_simp
  then show ?thesis by (rule uri_roundtrip)
qed

text \<open>Every other URI survives the way through a file name: for a URI with a scheme that is neither a file nor a bundled library, FileName gives a
  virtual name, or panics if there is no colon or an authority without a path, and FileNameToDocumentURI makes the same URI of that name, byte for byte.\<close>

theorem virtual_uri_roundtrip:
  assumes "\<not> IsBundled uri" "\<not> strHasPrefix uri ''file://''" "slash_char \<notin> set (fst (strCutByte uri CHR '':''))"
    and "\<not> strHasPrefix (fst (snd (strCutByte uri CHR '':''))) (''//'' @ nulAuthority @ ''/'')"
  shows "case DocumentUri_FileName ip uri of
      Inl e \<Rightarrow> CHR '':'' \<notin> set uri \<or> (\<exists>rest. fst (snd (strCutByte uri CHR '':'')) = ''//'' @ rest \<and> slash_char \<notin> set rest)
    | Inr f \<Rightarrow> IsDynamicFileName f \<and> FileNameToDocumentURI f = Inr uri"
proof (cases "CHR '':'' \<in> set uri")
  case False
  then show ?thesis using assms(1,2) by (simp add: DocumentUri_FileName_def strCutByte_notin)
next
  case True
  obtain scheme path where u: "uri = scheme @ CHR '':'' # path" "CHR '':'' \<notin> set scheme" using split_list_first [OF True] by blast
  have cut: "strCutByte uri CHR '':'' = (scheme, path, True)" using u by (simp add: strCutByte_append)
  have s: "slash_char \<notin> set scheme" using assms(3) cut by simp
  show ?thesis
  proof (cases "strHasPrefix path ''//''")
    case False
    have "slash_char \<notin> set nulAuthority" by (simp add: nulAuthority_def)
    then have "FileNameToDocumentURI (''^/'' @ scheme @ ''/'' @ nulAuthority @ ''/'' @ path) = Inr uri"
      using s u(1) by (simp add: FileNameToDocumentURI_def IsBundled_def IsDynamicFileName_def strCutByte_append)
    then show ?thesis using assms(1,2) cut False by (simp add: DocumentUri_FileName_def strCutPrefix_def IsDynamicFileName_def)
  next
    case True
    then obtain rest where r: "path = ''//'' @ rest" by (auto simp: strHasPrefix_iff)
    show ?thesis
    proof (cases "slash_char \<in> set rest")
      case False
      then show ?thesis using assms(1,2) cut r by (simp add: DocumentUri_FileName_def strCutPrefix_def strCutByte_notin)
    next
      case True
      then obtain a q where a: "rest = a @ slash_char # q" "slash_char \<notin> set a" using split_list_first [OF True] by blast
      have "a \<noteq> nulAuthority" using assms(4) cut r a(1) by (auto simp: strHasPrefix_iff)
      then have "FileNameToDocumentURI (''^/'' @ scheme @ ''/'' @ a @ ''/'' @ q) = Inr uri"
        using s u(1) a r by (simp add: FileNameToDocumentURI_def IsBundled_def IsDynamicFileName_def strCutByte_append)
      then show ?thesis using assms(1,2) cut r a by (simp add: DocumentUri_FileName_def strCutPrefix_def strCutByte_append IsDynamicFileName_def)
    qed
  qed
qed

theorem virtual_uri_roundtrip_witness:
  "DocumentUri_FileName (\<lambda>_. None) ''untitled:Untitled-1'' = Inr ''^/untitled/ts-nul-authority/Untitled-1''
   \<and> FileNameToDocumentURI ''^/untitled/ts-nul-authority/Untitled-1'' = Inr ''untitled:Untitled-1''"
proof -
  have f: "DocumentUri_FileName (\<lambda>_. None) ''untitled:Untitled-1'' = Inr ''^/untitled/ts-nul-authority/Untitled-1''" by code_simp
  have h: "\<not> IsBundled ''untitled:Untitled-1''" "\<not> strHasPrefix ''untitled:Untitled-1'' ''file://''"
      "slash_char \<notin> set (fst (strCutByte ''untitled:Untitled-1'' CHR '':''))"
      "\<not> strHasPrefix (fst (snd (strCutByte ''untitled:Untitled-1'' CHR '':''))) (''//'' @ nulAuthority @ ''/'')"
    by code_simp+
  show ?thesis using virtual_uri_roundtrip [OF h, of "\<lambda>_. None"] f by simp
qed

lemma unescape_server: "list_ex (\<lambda>c. byte_of c < 0x80 \<and> \<not> isUnreserved c \<and> c \<noteq> CHR ''%'') h \<Longrightarrow> unescape True (concat (map uriByte h)) = None"
proof (induction h)
  case (Cons c h)
  note d = hex_digit [OF div16(1) [of c]] hex_digit [OF div16(2) [of c]]
  let ?x = "upperhex ! (byte_of c div 16)" and ?y = "upperhex ! (byte_of c mod 16)"
  show ?case
  proof (cases "byte_of c < 0x80 \<and> \<not> isUnreserved c \<and> c \<noteq> CHR ''%''")
    case True
    have "\<not> (?x = CHR ''2'' \<and> ?y = CHR ''5'')"
    proof
      assume "?x = CHR ''2'' \<and> ?y = CHR ''5''"
      moreover have "unhex CHR ''2'' = 2" "unhex CHR ''5'' = 5" by code_simp+
      ultimately have "byte_of c div 16 = 2" "byte_of c mod 16 = (5::nat)" using d by simp_all
      then have "byte_of c = (37::nat)" using div_mult_mod_eq [of "byte_of c :: nat" 16] by simp
      then have "c = char_of (37::nat)" by (metis char_of_char)
      also have "\<dots> = CHR ''%''" by code_simp
      finally show False using True by simp
    qed
    moreover have "unhex ?x < 8" using True d by (simp add: less_mult_imp_div_less)
    ultimately show ?thesis using True by (auto simp: uriByte_def percentByte_def)
  next
    case False
    then have no: "unescape True (concat (map uriByte h)) = None" using Cons by auto
    consider "isUnreserved c" | "\<not> isUnreserved c" "byte_of c \<ge> 0x80" | "c = CHR ''%''" using False by fastforce
    then show ?thesis
    proof cases
      case 1
      then have "uriByte c = [c]" by (simp add: uriByte_def)
      then show ?thesis using no unreserved_host [OF 1] by simp
    next
      case 2
      then have "uriByte c = percentByte c" by (simp add: uriByte_def)
      then show ?thesis using no unescape_percent [of True c] 2(2) by simp
    next
      case 3
      moreover have "uriByte CHR ''%'' = ''%25''" "ishex CHR ''2''" "ishex CHR ''5''" by code_simp+
      ultimately show ?thesis using no by simp
    qed
  qed
qed simp

text \<open>A server whose name has an ASCII byte that needs an escape: FileNameToDocumentURI makes a URI with that escape in the host, which Go's Parse
  refuses, and FileName panics on the URI the server has made itself. \<open>//wsl$/...\<close>, the files of a Linux subsystem, is such a name.\<close>

theorem escaped_server_panics:
  assumes "slash_char \<notin> set h" "list_ex (\<lambda>c. byte_of c < 0x80 \<and> \<not> isUnreserved c \<and> c \<noteq> CHR ''%'') h"
  shows "\<exists>uri. FileNameToDocumentURI (''//'' @ h @ ''/'' @ path) = Inr uri \<and> DocumentUri_FileName ip uri = Inl ''invalid file URI''"
proof -
  have "unescape True (concat (map uriByte h)) = None" using assms(2) by (rule unescape_server)
  moreover have "SplitVolumePath (''//'' @ h @ ''/'' @ path) = ([], ''//'' @ h @ ''/'' @ path, False)"
    by (simp add: SplitVolumePath_def IsVolumeCharacter_def)
  ultimately show ?thesis
    using file_uri [of "''//'' @ h @ ''/'' @ path" h "''/'' @ path" ip] assms(1) by (simp add: IsBundled_def IsDynamicFileName_def strTrimPrefix_def)
qed

theorem escaped_server_panics_witness:
  "\<exists>uri. FileNameToDocumentURI ''//wsl$/Ubuntu/a.ts'' = Inr uri \<and> DocumentUri_FileName (\<lambda>_. None) uri = Inl ''invalid file URI''"
proof -
  have "list_ex (\<lambda>c. byte_of c < 0x80 \<and> \<not> isUnreserved c \<and> c \<noteq> CHR ''%'') ''wsl$''" by code_simp
  then show ?thesis using escaped_server_panics [of "''wsl$''" "''Ubuntu/a.ts''" "\<lambda>_. None"] by simp
qed

end
