(* ===== verification/Spec2Isabelle.thy ===== *)
theory Spec2Isabelle
  imports TsPath_Props TsPath_Extension Collections_Sets Semver_Range_Props Glob_Match SourceMap_Pipeline RefCountCache_Props Dirty_Props
    Dirty_Sync_Props Bfs_Props Jsonrpc Module_Util_Props VfsMatch_Props VfsMatch_Types OwnerCache_Props LsConv_Props LsUri_Props
begin

text \<open>
  Verification of a Go port of the TypeScript compiler (\<open>src/internal\<close>).

  \<^bold>\<open>The program.\<close> The compiler reads a project (\<open>tspath\<close>, \<open>vfs\<close>, \<open>tsoptions\<close>, \<open>module\<close>), scans, parses,
  binds and checks it (\<open>scanner\<close>, \<open>parser\<close>, \<open>binder\<close>, \<open>checker\<close>), prints JavaScript with source maps
  (\<open>printer\<close>, \<open>sourcemap\<close>) and serves editors over a protocol (\<open>lsp\<close>, \<open>project\<close>, \<open>ls\<close>). Under all of it
  lie packages that the rest trusts: path algebra, text positions and line tables, ordered
  collections, version ranges, patterns, source maps and caches. This development models those.

  \<^bold>\<open>Theories and sources.\<close> Names of definitions are the names of the Go functions; a method
  \<open>T.Name\<close> whose name is taken is \<open>T_Name\<close>, a loop of a function \<open>F\<close> is a recursive function named after it.

  \<^item> \<open>Go_Prelude\<close>, \<open>Utf8\<close>, \<open>Comparator\<close>: what the sources use of Go and its library. Strings are byte
    strings; \<open>or_panic\<close> is a sum whose left side is a panic, so an index or slice out of range, an
    explicit panic and a failed assertion are values; \<open>go_int\<close> wraps at 64 bits; runes are decoded
    as \<open>utf8.DecodeRune\<close> does, with its replacement of invalid bytes. \<open>Comparator\<close> has the contract of
    a comparison function as a locale, interpreted by the string, version and text-range orders.
  \<^item> \<open>StringUtil\<close>: \<open>stringutil\<close>.
  \<^item> \<open>TsPath\<close>, \<open>TsPath_Normalize\<close>, \<open>TsPath_Absolute\<close>, \<open>TsPath_Relative\<close>, \<open>TsPath_Props\<close>,
    \<open>TsPath_Extension\<close>: \<open>tspath/path.go\<close>, \<open>extension.go\<close>, \<open>ignoredpaths.go\<close>. The normalization with its fast
    paths computes the component algorithm on every input; relative paths lead back; the directory
    walk visits the prefixes.
  \<^item> \<open>Collections\<close>, \<open>Collections_Sets\<close>: \<open>collections/ordered_map.go\<close>, \<open>ordered_set.go\<close>, \<open>multimap.go\<close>,
    \<open>set.go\<close>. A locale of insertion-ordered maps, interpreted on the key slice with its map.
  \<^item> \<open>Semver\<close>, \<open>Semver_Order\<close>, \<open>Semver_Roundtrip\<close>, \<open>Semver_Range\<close>, \<open>Semver_Range_Props\<close>:
    \<open>semver/version.go\<close>, \<open>version_range.go\<close>, with \<open>uint32\<close> as 32-bit words. The regular expressions are
    written as the matchers they denote.
  \<^item> \<open>Glob\<close>, \<open>Glob_Props\<close>, \<open>Glob_Match\<close>: \<open>glob/glob.go\<close>. Printing inverts parsing; a relation says what each element of a
    pattern accepts in the code, where it departs from the package comment too, and the backtracking matcher decides it.
  \<^item> \<open>Core_Slices\<close>, \<open>Core_Slices_Props\<close>, \<open>Core_Text\<close>, \<open>Core_Text_Props\<close>: \<open>core/core.go\<close>, \<open>binarysearch.go\<close>,
    \<open>stack.go\<close>, \<open>text.go\<close>, \<open>textchange.go\<close>, \<open>pattern.go\<close>, \<open>tristate.go\<close>.
  \<^item> \<open>Scanner_Lines\<close>: the conversions between positions and lines with UTF-16 characters of
    \<open>scanner/scanner.go\<close>.
  \<^item> \<open>SourceMap_Decoder\<close>, \<open>SourceMap_Generator\<close>, \<open>SourceMap_Roundtrip\<close>, \<open>SourceMap_Correct\<close>,
    \<open>SourceMapper\<close>, \<open>SourceMapper_Props\<close>, \<open>SourceMap_Pipeline\<close>: \<open>sourcemap\<close>. Writing and reading numbers
    and mappings are inverse, lookups find the closest mapping, and the whole way from the generator
    through the encoded map and the line tables to the position mapper leads back.
  \<^item> \<open>RefCountCache\<close>, \<open>RefCountCache_Props\<close>: \<open>project/refcountcache.go\<close> as a step relation over goroutines
    that lock entries and use the concurrent map. An invariant by rule induction gives that held entries stay, that nothing
    leaks and that no state deadlocks. \<open>OwnerCache\<close>, \<open>OwnerCache_Props\<close>: the same for \<open>project/ownercache.go\<close>, whose
    entries have sets of owners, and a race of its \<open>Release\<close>.
  \<^item> \<open>Dirty\<close>, \<open>Dirty_Props\<close>, \<open>Dirty_Sync\<close>, \<open>Dirty_Sync_Props\<close>: \<open>project/dirty\<close>, the copy-on-write containers from
    which snapshots are built, over a store of objects. They refine maps of values and leave the previous
    snapshot untouched; the concurrent one also when a client has several handles of one key, which become
    proxies of each other. The first change of a value works on whatever \<open>Clone\<close> makes
    of it, which need not be a copy. Its deletes are shown to block or to be lost in two cases.
  \<^item> \<open>Bfs\<close>, \<open>Bfs_Props\<close>: \<open>core/bfs.go\<close>. The goroutines of a level are interleaved step by step over their
    atomics. The outcome of a level does not depend on the schedule, the search gives shortest paths, and on finite
    graphs it can be brought to its end from every state that a schedule reaches.
  \<^item> \<open>Jsonrpc\<close>: \<open>jsonrpc\<close>, the framing of messages and their identifiers, with round trips and the errors of a
    reader.
  \<^item> \<open>Module_Util\<close>, \<open>Module_Util_Props\<close>: \<open>module/util.go\<close> and the choice of a pattern key in
    \<open>module/resolver.go\<close>: names split and combine, and the chosen key, after the exact lookup and for every
    order that sorting allows, is a most specific one by a measure that does not use the comparison function.
  \<^item> \<open>VfsMatch\<close>: \<open>vfs/vfsmatch/vfsmatch.go\<close>, the include and exclude patterns of a project and the walk that reads its files.
    \<open>VfsMatch_Segments\<close> and \<open>VfsMatch_Wildcard\<close> show that a component with wildcards is decided by the loop with one star
    to go back to; \<open>VfsMatch_Types\<close> that compiled patterns are well-formed; \<open>VfsMatch_Paths\<close> that paths are matched part by part; \<open>VfsMatch_Prune\<close> that no directory with a matching
    file is skipped; \<open>VfsMatch_Walk\<close> and \<open>VfsMatch_Props\<close> what the walk returns, and that it ends when the directories
    it can reach have finitely many canonical names.
  \<^item> \<open>LsConv\<close>, \<open>LsConv_Props\<close>: positions, ranges and the line table of \<open>ls/lsconv/converters.go\<close> and \<open>linemap.go\<close>, with their
    \<open>int32\<close> and \<open>uint32\<close> conversions. Positions lead there and back, and what comes from a client stays on its line, outside of runes;
    where the sums wrap is shown. \<open>LsUri\<close>, \<open>LsUri_Props\<close>: file names and document URIs (\<open>converters.go\<close>, \<open>lsp/lsproto/lsp.go\<close>), with the
    part of Go's \<open>net/url\<close> they use. Names come back from their URIs byte for byte; a server name with an escaped ASCII byte panics.

  \<^bold>\<open>Parameters.\<close> Code outside the repository is an argument: \<open>eqFold\<close> and \<open>toLower\<close> (Unicode case tables),
  \<open>unmarshal\<close> (the JSON decoder), \<open>sortFunc\<close> (\<open>slices.SortFunc\<close>, of which the locale \<open>sorting\<close> has the
  documented contract: an ordered permutation, no stability), the file system of a host as its functions.
  \<open>clone\<close> (the Clone method of a value, an exact copy in the refinement of \<open>dirty.Map\<close>, any function in that of \<open>dirty.SyncMap\<close>), \<open>parse\<close> (of the cached files), the
  callbacks \<open>neighbors\<close> and \<open>visit\<close> of the search, the JSON encoding of identifiers, \<open>parseIPLiteral\<close> (how \<open>url.Parse\<close> reads a host with brackets), and \<open>maxAlloc\<close>, the largest slice that
  \<open>make\<close> allocates. The file system of the directory walk is a parameter with its \<open>Realpath\<close> and \<open>GetAccessibleEntries\<close>; the properties
  rely on entry names without slashes. The iteration order of Go maps and the schedules of goroutines are arguments
  as well, and the properties hold for all of them.

  \<^bold>\<open>Bounds and fuel.\<close> The glob parser recurses with fuel \<open>2 * length + 2\<close>, and it is proved that this
  is enough for every pattern. Numbers of source maps are bounded by \<open>2 ^ 62\<close> in the round trips, since
  \<open>appendBase64VLQ\<close> shifts into the sign bit beyond; all arithmetic of the encoder and decoder wraps in
  the model. Text positions are \<open>int32\<close> in the source: line tables are modelled for texts below \<open>2 ^ 31\<close>
  bytes. Every other loop is a total function with its termination proof.
  A run of goroutines is given by a schedule. One that leaves a goroutine unfinished gives no result, as \<open>WaitGroup.Wait\<close> does
  not return; that every level can finish, from every state, is proved.
  \<open>segmentsFuel\<close> bounds the turns of the wildcard loop: a star before which it goes back is replaced by a later one at most once for
  every segment, and moves at most once for every byte. The fuel of \<open>visit\<close> bounds the nesting of the visits and is enough when it
  exceeds the number of canonical names of the directories that can be walked to. The line table of \<open>lsconv\<close> is modelled for texts
  below \<open>2 ^ 31\<close> bytes, a bound its properties carry; the positions of clients wrap as in the source.

  \<^bold>\<open>Not modelled.\<close> The parser, the checker, the printer and the transformers work on the generated AST
  types, with thousands of mutually recursive functions over a mutable graph. The language service,
  the server and the API are protocol glue over them, except for positions and URIs. The file systems wrap operating-system calls.
  Of the modelled packages, interleavings inside one call of \<open>dirty.SyncMap\<close>, the iterator variants of the slice helpers, the JSON methods and the
  functions of \<open>path.go\<close> that return aliased slices (\<open>GetCommonParents\<close>) are left out.
\<close>

end
